(* ===== verification/Prelude.thy ===== *)
theory Prelude
  imports Main "HOL-Library.Word"
begin

unbundle bit_operations_syntax

text \<open>
  What every component of the development shares: the widths of the C integers, the outcome of a
  C function (a value, an error with its \<open>errno\<close>, or an execution that never returns),
  the program type that threads a state through fallible calls, byte-addressed memory, the
  little-endian encodings of integers, and the arithmetic of \<open>roundup\<close> from
  \<open>sys/param.h\<close>.  The host is little-endian (x86-64, the only platform of the
  repository's Makefiles), so \<open>le32toh\<close> and its relatives are the identity on words and
  the byte order shows only where words meet byte lists.
\<close>

section \<open>Types\<close>

type_synonym byte = "8 word"
type_synonym u16 = "16 word"
type_synonym u32 = "32 word"
type_synonym u64 = "64 word"

text \<open>Byte-addressed memory: the contents of a namespace, a mapped pool or a file.\<close>

type_synonym mem = "nat \<Rightarrow> byte"

named_theorems unat_simps \<open>word arithmetic that does not wrap, read through \<open>unat\<close>\<close>
named_theorems mem_simps \<open>reads after writes\<close>

lemma unat_bound: "unat (w :: 'a::len word) < 2 ^ LENGTH('a)"
  by (rule unsigned_less)

lemma unat_ucast_up:
  "LENGTH('a) \<le> LENGTH('b) \<Longrightarrow> unat (ucast (x :: 'a::len word) :: 'b::len word) = unat x"
  by (simp add: unsigned_ucast_eq unsigned_take_bit_eq take_bit_nat_eq_self_iff)
    (metis unat_bound order_less_le_trans power_increasing one_le_numeral)

lemma unat_ucast_mod: "unat (ucast (x :: 'a::len word) :: 'b::len word) = unat x mod 2 ^ LENGTH('b)"
  by (simp add: unsigned_ucast_eq take_bit_eq_mod)

lemma unat_ucast_32_64: "unat (ucast (x :: u32) :: u64) = unat x"
  by (rule unat_ucast_up) simp

section \<open>Outcomes and programs\<close>

datatype errno = EINVAL | EIO | ENOSPC | EROFS | ENOMEM | ENOENT | EEXIST | EACCES

text \<open>
  \<open>Stuck\<close> stands for an execution that does not come back with a value: a failed
  \<open>ASSERT\<close>, an access outside an array, or a spin loop that nobody ends.
\<close>

datatype 'a outcome = Ok 'a | Err errno | Stuck

type_synonym ('s, 'a) prog = "'s \<Rightarrow> 'a outcome \<times> 's"

definition ret :: "'a \<Rightarrow> ('s, 'a) prog" where
  "ret x s = (Ok x, s)"

definition fail :: "errno \<Rightarrow> ('s, 'a) prog" where
  "fail e s = (Err e, s)"

definition stuck :: "('s, 'a) prog" where
  "stuck s = (Stuck, s)"

definition andthen :: "('s, 'a) prog \<Rightarrow> ('a \<Rightarrow> ('s, 'b) prog) \<Rightarrow> ('s, 'b) prog" where
  "andthen p f s = (case p s of
      (Ok x, s') \<Rightarrow> f x s'
    | (Err e, s') \<Rightarrow> (Err e, s')
    | (Stuck, s') \<Rightarrow> (Stuck, s'))"

definition gets :: "('s \<Rightarrow> 'a) \<Rightarrow> ('s, 'a) prog" where
  "gets f s = (Ok (f s), s)"

definition update :: "('s \<Rightarrow> 's) \<Rightarrow> ('s, unit) prog" where
  "update f s = (Ok (), f s)"

definition assert :: "bool \<Rightarrow> ('s, unit) prog" where
  "assert P s = (if P then (Ok (), s) else (Stuck, s))"

lemmas prog_simps = ret_def fail_def stuck_def gets_def update_def assert_def

lemma andthen_Ok: "p s = (Ok x, s') \<Longrightarrow> andthen p f s = f x s'"
  by (simp add: andthen_def)

lemma andthen_Err: "p s = (Err e, s') \<Longrightarrow> andthen p f s = (Err e, s')"
  by (simp add: andthen_def)

lemma andthen_Stuck: "p s = (Stuck, s') \<Longrightarrow> andthen p f s = (Stuck, s')"
  by (simp add: andthen_def)

lemma andthen_ret [simp]: "andthen (ret x) f s = f x s"
  by (simp add: andthen_def ret_def)

lemma andthen_fail [simp]: "andthen (fail e) f s = (Err e, s)"
  by (simp add: andthen_def fail_def)

lemma andthen_gets [simp]: "andthen (gets g) f s = f (g s) s"
  by (simp add: andthen_def gets_def)

lemma andthen_update [simp]: "andthen (update g) f s = f () (g s)"
  by (simp add: andthen_def update_def)

lemma andthen_assert [simp]: "P \<Longrightarrow> andthen (assert P) f s = f () s"
  by (simp add: andthen_def assert_def)

lemma andthen_OkE:
  assumes "andthen p f s = (Ok y, t)"
  obtains x s' where "p s = (Ok x, s')" and "f x s' = (Ok y, t)"
  using assms by (auto simp: andthen_def split: prod.splits outcome.splits)

section \<open>Byte memory\<close>

definition mem_read :: "mem \<Rightarrow> nat \<Rightarrow> nat \<Rightarrow> byte list" where
  "mem_read m off n = map m [off..<off + n]"

definition mem_write :: "mem \<Rightarrow> nat \<Rightarrow> byte list \<Rightarrow> mem" where
  "mem_write m off bs = (\<lambda>i. if off \<le> i \<and> i < off + length bs then bs ! (i - off) else m i)"

lemma length_mem_read [simp]: "length (mem_read m off n) = n"
  by (simp add: mem_read_def)

lemma nth_mem_read [simp]: "i < n \<Longrightarrow> mem_read m off n ! i = m (off + i)"
  by (simp add: mem_read_def)

lemma mem_read_0 [simp]: "mem_read m off 0 = []"
  by (simp add: mem_read_def)

lemma mem_write_Nil [simp]: "mem_write m off [] = m"
  by (auto simp: mem_write_def fun_eq_iff)

lemma mem_read_eq_iff: "mem_read m off n = mem_read m' off n \<longleftrightarrow> (\<forall>i<n. m (off + i) = m' (off + i))"
  by (auto simp: list_eq_iff_nth_eq)

lemma mem_read_cong:
  "(\<And>i. off \<le> i \<Longrightarrow> i < off + n \<Longrightarrow> m i = m' i) \<Longrightarrow> mem_read m off n = mem_read m' off n"
  by (auto simp: mem_read_eq_iff)

lemma mem_read_write_same [simp]: "n = length bs \<Longrightarrow> mem_read (mem_write m off bs) off n = bs"
  by (auto simp: list_eq_iff_nth_eq mem_write_def)

lemma mem_write_outside [mem_simps]: "i < off \<or> off + length bs \<le> i \<Longrightarrow> mem_write m off bs i = m i"
  by (auto simp: mem_write_def)

lemma mem_read_write_disjoint [mem_simps]:
  "off' + n \<le> off \<or> off + length bs \<le> off' \<Longrightarrow>
   mem_read (mem_write m off bs) off' n = mem_read m off' n"
  by (auto simp: mem_read_eq_iff mem_write_def)

lemma mem_read_append: "mem_read m off (n + k) = mem_read m off n @ mem_read m (off + n) k"
  by (auto simp: list_eq_iff_nth_eq nth_append)

lemma take_mem_read: "k \<le> n \<Longrightarrow> take k (mem_read m off n) = mem_read m off k"
  by (auto simp: list_eq_iff_nth_eq)

lemma drop_mem_read: "drop k (mem_read m off n) = mem_read m (off + k) (n - k)"
  by (auto simp: list_eq_iff_nth_eq add.assoc)

lemma mem_write_append:
  "mem_write m off (xs @ ys) = mem_write (mem_write m off xs) (off + length xs) ys"
  by (auto simp: mem_write_def nth_append fun_eq_iff)

lemma mem_write_read_id: "mem_write m off (mem_read m off n) = m"
  by (auto simp: mem_write_def fun_eq_iff)

section \<open>Little-endian encodings\<close>

definition le_enc :: "nat \<Rightarrow> 'a::len word \<Rightarrow> byte list" where
  "le_enc n w = map (\<lambda>i. ucast (drop_bit (8 * i) w)) [0..<n]"

fun le_dec :: "byte list \<Rightarrow> 'a::len word" where
  "le_dec [] = 0"
| "le_dec (b # bs) = ucast b OR push_bit 8 (le_dec bs)"

text \<open>The integer of the given width at byte offset \<open>off\<close> of a byte list.\<close>

definition le_at :: "nat \<Rightarrow> byte list \<Rightarrow> nat \<Rightarrow> 'a::len word" where
  "le_at n bs off = le_dec (take n (drop off bs))"

lemma length_le_enc [simp]: "length (le_enc n w) = n"
  by (simp add: le_enc_def)

lemma bit_le_dec:
  "bit (le_dec bs :: 'a::len word) k \<longleftrightarrow>
     k < LENGTH('a) \<and> k div 8 < length bs \<and> bit (bs ! (k div 8)) (k mod 8)"
proof (induction bs arbitrary: k)
  case Nil
  then show ?case by simp
next
  case (Cons b bs)
  show ?case
  proof (cases "k < 8")
    case True
    then show ?thesis by (auto simp: bit_simps)
  next
    case False
    then obtain j where k: "k = j + 8" by (metis le_add_diff_inverse2 not_less)
    have "\<not> bit b (j + 8)" using bit_imp_le_length [of b "j + 8"] by auto
    then have eq: "bit (le_dec (b # bs) :: 'a word) k \<longleftrightarrow> k < LENGTH('a) \<and> bit (le_dec bs :: 'a word) j"
      by (auto simp: bit_simps k)
    have "k div 8 = Suc (j div 8)" "k mod 8 = j mod 8" by (simp_all add: k)
    then show ?thesis unfolding eq Cons.IH by (auto simp: k)
  qed
qed

lemma le_dec_enc [simp]:
  assumes "8 * n = LENGTH('a)"
  shows "le_dec (le_enc n w) = (w :: 'a::len word)"
proof (rule bit_word_eqI)
  fix k assume "k < LENGTH('a)"
  with assms have "k div 8 < n" by auto
  moreover have "8 * (k div 8) + k mod 8 = k" "k mod 8 < 8" by simp_all
  ultimately show "bit (le_dec (le_enc n w) :: 'a word) k \<longleftrightarrow> bit w k"
    using \<open>k < LENGTH('a)\<close> by (simp add: bit_le_dec le_enc_def bit_simps ac_simps del: mod_less_divisor)
qed

lemma le_enc_dec:
  assumes "8 * n = LENGTH('a)" and "length bs = n"
  shows "le_enc n (le_dec bs :: 'a::len word) = bs"
proof (rule nth_equalityI)
  show "length (le_enc n (le_dec bs :: 'a word)) = length bs" using assms by simp
  fix i assume "i < length (le_enc n (le_dec bs :: 'a word))"
  then have i: "i < n" by simp
  show "le_enc n (le_dec bs :: 'a word) ! i = bs ! i"
  proof (rule bit_word_eqI)
    fix k assume k: "k < LENGTH(8)"
    then have "(8 * i + k) div 8 = i" "(8 * i + k) mod 8 = k" "8 * i + k < LENGTH('a)"
      using i assms(1) by auto
    then show "bit (le_enc n (le_dec bs :: 'a word) ! i) k \<longleftrightarrow> bit (bs ! i) k"
      using i k assms(2) by (simp add: le_enc_def bit_simps bit_le_dec)
  qed
qed

lemma le_at_append1: "off + n \<le> length xs \<Longrightarrow> le_at n (xs @ ys) off = le_at n xs off"
  by (simp add: le_at_def)

lemma le_at_append2: "length xs \<le> off \<Longrightarrow> le_at n (xs @ ys) off = le_at n ys (off - length xs)"
  by (simp add: le_at_def)

lemma le_at_here:
  "8 * n = LENGTH('a) \<Longrightarrow> off = length xs \<Longrightarrow> le_at n (xs @ le_enc n (w :: 'a::len word) @ ys) off = w"
  by (simp add: le_at_def)

lemma le_at_mem_read:
  "off + n \<le> k \<Longrightarrow> le_at n (mem_read m a k) off = le_dec (mem_read m (a + off) n)"
  by (simp add: le_at_def drop_mem_read take_mem_read)

section \<open>C strings in fixed-size fields\<close>

definition c_str :: "string \<Rightarrow> byte list" where
  "c_str s = map of_char s"

fun strncmp_eq :: "byte list \<Rightarrow> byte list \<Rightarrow> nat \<Rightarrow> bool" where
  "strncmp_eq xs ys 0 = True"
| "strncmp_eq (x # xs) (y # ys) (Suc n) = (x = y \<and> (x = 0 \<or> strncmp_eq xs ys n))"
| "strncmp_eq [] (y # ys) (Suc n) = (y = 0)"
| "strncmp_eq (x # xs) [] (Suc n) = (x = 0)"
| "strncmp_eq [] [] (Suc n) = True"

definition strncpy :: "byte list \<Rightarrow> nat \<Rightarrow> byte list" where
  "strncpy src n = (let s = takeWhile (\<lambda>b. b \<noteq> 0) src
                    in take n s @ replicate (n - length s) 0)"

lemma length_strncpy [simp]: "length (strncpy src n) = n"
  by (simp add: strncpy_def Let_def)

lemma strncmp_eq_refl [simp]: "strncmp_eq xs xs n"
  by (induction n arbitrary: xs) (case_tac xs; simp)+

lemma strncmp_eq_takeWhile:
  "strncmp_eq xs ys n \<longleftrightarrow>
     take n (takeWhile (\<lambda>b. b \<noteq> 0) xs) = take n (takeWhile (\<lambda>b. b \<noteq> 0) ys)"
  by (induction xs ys n rule: strncmp_eq.induct) auto

section \<open>The roundup macro of sys/param.h\<close>

definition roundup :: "'a::len word \<Rightarrow> 'a word \<Rightarrow> 'a word" where
  "roundup x y = (x + (y - 1)) div y * y"

lemma unat_roundup:
  fixes x y :: "'a::len word"
  assumes "0 < y" and "unat x + unat y \<le> 2 ^ LENGTH('a)"
  shows "unat (roundup x y) = (unat x + (unat y - 1)) div unat y * unat y"
proof -
  have y1: "unat (y - 1) = unat y - 1"
    using assms(1) by (simp add: unat_minus_one word_greater_zero_iff)
  have "0 < unat y" using assms(1) by (simp add: word_greater_zero_iff unat_gt_0)
  then have lt: "unat x + (unat y - 1) < 2 ^ LENGTH('a)" using assms(2) by simp
  then have add: "unat (x + (y - 1)) = unat x + (unat y - 1)"
    by (simp add: unat_word_ariths y1)
  have "(unat x + (unat y - 1)) div unat y * unat y < 2 ^ LENGTH('a)"
    using lt by (meson div_times_less_eq_dividend order.strict_trans1)
  moreover have "(unat x + (unat y - 1)) div unat y < 2 ^ LENGTH('a)"
    using lt by (meson div_le_dividend order.strict_trans1)
  ultimately show ?thesis
    unfolding roundup_def using add
    by (simp add: unat_word_ariths(2) unat_div_distrib)
qed

text \<open>\<open>roundup\<close> gives the least multiple that is not smaller, when it does not wrap.\<close>

lemma roundup_ge_nat: "0 < (y::nat) \<Longrightarrow> x \<le> (x + (y - 1)) div y * y"
proof -
  assume y: "0 < y"
  have "(x + (y - 1)) div y * y + (x + (y - 1)) mod y = x + (y - 1)" by simp
  moreover have "(x + (y - 1)) mod y \<le> y - 1" using y by (simp add: less_Suc_eq_le [symmetric])
  ultimately show ?thesis by linarith
qed

end
