(* ===== verification/Util.thy ===== *)
theory Util
  imports Prelude
begin

text \<open>
  The shared utilities of \<open>src/common/util.c\<close>: the Fletcher64 checksum, the pool header
  and its validation, the feature masks, the page arithmetic of the range protections, the hint
  address for mapping a pool, and the creation and opening of pool files.  The kernel's
  \<open>mmap\<close> and \<open>mprotect\<close> are arguments of the functions that call them; the files of
  a directory are a map from paths to sizes and contents.
\<close>

section \<open>Fletcher64: util_checksum\<close>

function checksum_loop :: "byte list \<Rightarrow> nat \<Rightarrow> nat \<Rightarrow> u32 \<Rightarrow> u32 \<Rightarrow> u32 \<times> u32" where
  "checksum_loop bs csump p lo hi =
     (if p < length bs then
        if p = csump then checksum_loop bs csump (p + 8) lo (hi + lo + lo)
        else checksum_loop bs csump (p + 4) (lo + le_at 4 bs p) (hi + (lo + le_at 4 bs p))
      else (lo, hi))"
  by pat_completeness auto
termination
  by (relation "measure (\<lambda>(bs, csump, p, lo, hi). length bs - p)") auto

declare checksum_loop.simps [simp del]

definition fletcher64 :: "byte list \<Rightarrow> nat \<Rightarrow> u64" where
  "fletcher64 bs csump =
     (case checksum_loop bs csump 0 0 0 of (lo, hi) \<Rightarrow> push_bit 32 (ucast hi) OR ucast lo)"

text \<open>
  \<open>csump\<close> is the offset of the checksum inside the range; the second component is the range
  after the call.
\<close>

definition util_checksum :: "byte list \<Rightarrow> nat \<Rightarrow> bool \<Rightarrow> bool \<times> byte list" where
  "util_checksum bs csump ins =
     (let csum = fletcher64 bs csump in
      if ins then (True, take csump bs @ le_enc 8 csum @ drop (csump + 8) bs)
      else (le_at 8 bs csump = csum, bs))"

section \<open>The pool header\<close>

definition POOL_HDR_SIZE :: nat where "POOL_HDR_SIZE = 4096"
definition POOL_HDR_CSUM :: nat where "POOL_HDR_CSUM = 4088"
definition POOL_HDR_SIG_LEN :: nat where "POOL_HDR_SIG_LEN = 8"

record pool_hdr =
  hdr_signature :: "byte list"
  hdr_major :: u32
  hdr_compat_features :: u32
  hdr_incompat_features :: u32
  hdr_ro_compat_features :: u32
  hdr_uuid :: "byte list"
  hdr_crtime :: u64
  hdr_unused :: "byte list"
  hdr_checksum :: u64

definition hdr_of_bytes :: "byte list \<Rightarrow> pool_hdr" where
  "hdr_of_bytes bs = \<lparr>
     hdr_signature = take 8 bs,
     hdr_major = le_at 4 bs 8,
     hdr_compat_features = le_at 4 bs 12,
     hdr_incompat_features = le_at 4 bs 16,
     hdr_ro_compat_features = le_at 4 bs 20,
     hdr_uuid = take 16 (drop 24 bs),
     hdr_crtime = le_at 8 bs 40,
     hdr_unused = take 4040 (drop 48 bs),
     hdr_checksum = le_at 8 bs 4088\<rparr>"

definition bytes_of_hdr :: "pool_hdr \<Rightarrow> byte list" where
  "bytes_of_hdr h = hdr_signature h @ le_enc 4 (hdr_major h) @ le_enc 4 (hdr_compat_features h)
     @ le_enc 4 (hdr_incompat_features h) @ le_enc 4 (hdr_ro_compat_features h) @ hdr_uuid h
     @ le_enc 8 (hdr_crtime h) @ hdr_unused h @ le_enc 8 (hdr_checksum h)"

definition util_convert_hdr :: "byte list \<Rightarrow> pool_hdr option" where
  "util_convert_hdr bs =
     (let h = hdr_of_bytes bs in
      if hdr_major h = 0 then None
      else if \<not> fst (util_checksum bs POOL_HDR_CSUM False) then None
      else Some h)"

fun util_is_zeroed :: "byte list \<Rightarrow> bool" where
  "util_is_zeroed [] = True"
| "util_is_zeroed (b # bs) = (if b \<noteq> 0 then False else util_is_zeroed bs)"

text \<open>The C function returns 1 (go on), 0 (go on read-only) or -1 with \<open>EINVAL\<close>.\<close>

definition util_feature_check :: "pool_hdr \<Rightarrow> u32 \<Rightarrow> u32 \<Rightarrow> u32 \<Rightarrow> errno + bool" where
  "util_feature_check h incompat ro_compat compatf =
     (if hdr_incompat_features h AND NOT incompat \<noteq> 0 then Inl EINVAL
      else if hdr_ro_compat_features h AND NOT ro_compat \<noteq> 0 then Inr False
      else Inr True)"

section \<open>Page arithmetic of the range protections\<close>

datatype prot = PROT_NONE | PROT_READ | PROT_READ_WRITE

definition range_len :: "u64 \<Rightarrow> u64 \<Rightarrow> u64 \<Rightarrow> u64" where
  "range_len pagesize addr len = len + (addr AND (pagesize - 1))"

definition range_uptr :: "u64 \<Rightarrow> u64 \<Rightarrow> u64" where
  "range_uptr pagesize addr = addr AND NOT (pagesize - 1)"

definition util_range_ro :: "(u64 \<Rightarrow> u64 \<Rightarrow> prot \<Rightarrow> int) \<Rightarrow> u64 \<Rightarrow> u64 \<Rightarrow> u64 \<Rightarrow> int" where
  "util_range_ro mprotect pagesize addr len =
     mprotect (range_uptr pagesize addr) (range_len pagesize addr len) PROT_READ"

definition util_range_rw :: "(u64 \<Rightarrow> u64 \<Rightarrow> prot \<Rightarrow> int) \<Rightarrow> u64 \<Rightarrow> u64 \<Rightarrow> u64 \<Rightarrow> int" where
  "util_range_rw mprotect pagesize addr len =
     mprotect (range_uptr pagesize addr) (range_len pagesize addr len) PROT_READ_WRITE"

definition util_range_none :: "(u64 \<Rightarrow> u64 \<Rightarrow> prot \<Rightarrow> int) \<Rightarrow> u64 \<Rightarrow> u64 \<Rightarrow> u64 \<Rightarrow> int" where
  "util_range_none mprotect pagesize addr len =
     mprotect (range_uptr pagesize addr) (range_len pagesize addr len) PROT_NONE"

section \<open>The hint address for mapping: util_map_hint\<close>

definition GIGABYTE :: u64 where "GIGABYTE = push_bit 30 1"
definition TERABYTE :: u64 where "TERABYTE = push_bit 40 1"

text \<open>
  The list holds the address ranges that \<open>sscanf\<close> finds in \<open>/proc/self/maps\<close>, in
  the order of the file; the kernel lists them by increasing address.
\<close>

fun map_hint_loop :: "u64 \<Rightarrow> u64 \<Rightarrow> (u64 \<times> u64) list \<Rightarrow> u64" where
  "map_hint_loop len raddr [] = raddr"
| "map_hint_loop len raddr ((lo, hi) # rs) =
     (if raddr < lo \<and> len \<le> lo - raddr then raddr
      else
        let raddr' = (if raddr < hi then roundup hi GIGABYTE else raddr) in
        if raddr' = 0 then raddr'
        else map_hint_loop len raddr' rs)"

definition util_map_hint :: "(u64 \<times> u64) list option \<Rightarrow> u64 \<Rightarrow> u64" where
  "util_map_hint maps len =
     (case maps of
        None \<Rightarrow> 0
      | Some rs \<Rightarrow>
          let raddr = map_hint_loop len TERABYTE rs in
          if raddr \<noteq> 0 \<and> - 1 - raddr < len then 0 else raddr)"

datatype map_flags = MAP_PRIVATE_NORESERVE | MAP_SHARED

definition util_map :: "(u64 \<Rightarrow> u64 \<Rightarrow> map_flags \<Rightarrow> 'fd \<Rightarrow> errno + u64) \<Rightarrow> (u64 \<times> u64) list option \<Rightarrow>
    'fd \<Rightarrow> u64 \<Rightarrow> bool \<Rightarrow> errno + u64" where
  "util_map mmap maps fd len cow =
     mmap (util_map_hint maps len) len (if cow then MAP_PRIVATE_NORESERVE else MAP_SHARED) fd"

section \<open>Pool files\<close>

record pfile =
  file_size :: nat
  file_data :: mem

type_synonym fs = "string \<rightharpoonup> pfile"

text \<open>
  \<open>open\<close> with \<open>O_CREAT|O_EXCL\<close> refuses an existing path; \<open>posix_fallocate\<close>
  gives the file its size with zero contents, or fails with an error the environment decides
  (\<open>falloc\<close>), and then the file is unlinked again.
\<close>

definition util_pool_create :: "(nat \<Rightarrow> errno option) \<Rightarrow> fs \<Rightarrow> string \<Rightarrow> nat \<Rightarrow> nat \<Rightarrow> (errno + string) \<times> fs" where
  "util_pool_create falloc fs path psize minsize =
     (if psize < minsize then (Inl EINVAL, fs)
      else if fs path \<noteq> None then (Inl EEXIST, fs)
      else
        let fs1 = fs(path \<mapsto> \<lparr>file_size = 0, file_data = (\<lambda>_. 0)\<rparr>) in
        case falloc psize of
          Some e \<Rightarrow> (Inl e, fs1(path := None))
        | None \<Rightarrow> (Inr path, fs1(path \<mapsto> \<lparr>file_size = psize, file_data = (\<lambda>_. 0)\<rparr>)))"

definition util_pool_open :: "fs \<Rightarrow> string \<Rightarrow> nat \<Rightarrow> errno + (string \<times> nat)" where
  "util_pool_open fs path minsize =
     (case fs path of
        None \<Rightarrow> Inl ENOENT
      | Some f \<Rightarrow> if file_size f < minsize then Inl EINVAL else Inr (path, file_size f))"

section \<open>The checksum: insertion, verification, detection\<close>

lemma le_at_cong:
  assumes "length bs' = length bs" and "\<And>i. off \<le> i \<Longrightarrow> i < off + n \<Longrightarrow> i < length bs \<Longrightarrow> bs' ! i = bs ! i"
  shows "le_at n bs' off = le_at n bs off"
proof -
  have "take n (drop off bs') = take n (drop off bs)"
    using assms by (intro nth_equalityI) auto
  then show ?thesis by (simp add: le_at_def)
qed

lemma aligned_step: "(p::nat) mod 4 = 0 \<Longrightarrow> c mod 4 = 0 \<Longrightarrow> p < c \<Longrightarrow> p + 4 \<le> c"
  by presburger

lemma checksum_loop_unfold:
  "c < length bs \<Longrightarrow> checksum_loop bs c c lo hi = checksum_loop bs c (c + 8) lo (hi + lo + lo)"
  "p < length bs \<Longrightarrow> p \<noteq> c \<Longrightarrow> checksum_loop bs c p lo hi =
     checksum_loop bs c (p + 4) (lo + le_at 4 bs p) (hi + (lo + le_at 4 bs p))"
  "\<not> p < length bs \<Longrightarrow> checksum_loop bs c p lo hi = (lo, hi)"
  by (subst checksum_loop.simps, simp)+

lemma checksum_loop_cong:
  assumes "length bs' = length bs" and "c mod 4 = 0"
    and "\<And>i. i < length bs \<Longrightarrow> i < c \<or> c + 8 \<le> i \<Longrightarrow> bs' ! i = bs ! i"
    and "p mod 4 = 0" and "p \<le> c \<or> c + 8 \<le> p"
  shows "checksum_loop bs' c p lo hi = checksum_loop bs c p lo hi"
  using assms
proof (induction bs c p lo hi rule: checksum_loop.induct)
  case (1 bs c p lo hi)
  consider "p < length bs" "p = c" | "p < length bs" "p \<noteq> c" | "\<not> p < length bs" by blast
  then show ?case
  proof cases
    case 1
    then have "checksum_loop bs' c (p + 8) lo (hi + lo + lo) = checksum_loop bs c (p + 8) lo (hi + lo + lo)"
      using "1.prems" by (intro "1.IH"(1)) auto
    then show ?thesis using 1 "1.prems"(1) by (simp add: checksum_loop_unfold)
  next
    case 2
    then have range: "p + 4 \<le> c \<or> c + 8 \<le> p"
      using "1.prems"(2,4,5) aligned_step [of p c] by auto
    then have word: "le_at 4 bs' p = (le_at 4 bs p :: u32)"
      using "1.prems"(1,3) by (intro le_at_cong) auto
    have "checksum_loop bs' c (p + 4) (lo + le_at 4 bs p) (hi + (lo + le_at 4 bs p)) =
        checksum_loop bs c (p + 4) (lo + le_at 4 bs p) (hi + (lo + le_at 4 bs p))"
      using 2 "1.prems" range by (intro "1.IH"(2)) auto
    then show ?thesis using 2 "1.prems"(1) by (simp add: checksum_loop_unfold(2) word)
  next
    case 3
    then show ?thesis using "1.prems"(1) by (simp add: checksum_loop_unfold)
  qed
qed

lemma fletcher64_cong:
  assumes "length bs' = length bs" and "c mod 4 = 0"
    and "\<And>i. i < length bs \<Longrightarrow> i < c \<or> c + 8 \<le> i \<Longrightarrow> bs' ! i = bs ! i"
  shows "fletcher64 bs' c = fletcher64 bs c"
  using checksum_loop_cong [OF assms, of 0] by (simp add: fletcher64_def)

text \<open>The range with its checksum inserted.\<close>

abbreviation with_csum :: "nat \<Rightarrow> byte list \<Rightarrow> byte list" where
  "with_csum c bs \<equiv> snd (util_checksum bs c True)"

lemma length_with_csum [simp]: "c + 8 \<le> length bs \<Longrightarrow> length (with_csum c bs) = length bs"
  by (simp add: util_checksum_def)

lemma nth_with_csum:
  "c + 8 \<le> length bs \<Longrightarrow> i < c \<or> c + 8 \<le> i \<Longrightarrow> i < length bs \<Longrightarrow> with_csum c bs ! i = bs ! i"
  by (auto simp: util_checksum_def nth_append)

lemma le_at_with_csum: "c + 8 \<le> length bs \<Longrightarrow> le_at 8 (with_csum c bs) c = fletcher64 bs c"
  by (simp add: util_checksum_def le_at_def)

lemma verify_with_csum:
  assumes "c mod 4 = 0" and "c + 8 \<le> length bs"
  shows "fst (util_checksum (with_csum c bs) c False)"
proof -
  have "fletcher64 (with_csum c bs) c = fletcher64 bs c"
    using assms nth_with_csum by (intro fletcher64_cong) auto
  then show ?thesis
    using le_at_with_csum [OF assms(2)] by (simp add: util_checksum_def Let_def)
qed

text \<open>The low half of the checksum is the sum of the words, so one changed word shows in it.\<close>

lemma checksum_loop_lo_diff:
  assumes "length bs' = length bs" and "c mod 4 = 0" and "q mod 4 = 0"
    and "q + 4 \<le> length bs" and "q < c \<or> c + 8 \<le> q"
    and "\<And>i. i < length bs \<Longrightarrow> i < q \<or> q + 4 \<le> i \<Longrightarrow> bs' ! i = bs ! i"
    and "p mod 4 = 0"
  shows "fst (checksum_loop bs' c p lo' hi') - fst (checksum_loop bs c p lo hi) =
     lo' - lo + (if p \<le> q then le_at 4 bs' q - le_at 4 bs q else 0)"
  using assms
proof (induction bs c p lo hi arbitrary: lo' hi' rule: checksum_loop.induct)
  case (1 bs c p lo hi)
  consider "p < length bs" "p = c" | "p < length bs" "p \<noteq> c" | "\<not> p < length bs" by blast
  then show ?case
  proof cases
    case 1
    have "fst (checksum_loop bs' c (p + 8) lo' (hi' + lo' + lo')) - fst (checksum_loop bs c (p + 8) lo (hi + lo + lo)) =
        lo' - lo + (if p + 8 \<le> q then le_at 4 bs' q - le_at 4 bs q else 0)"
      using 1 "1.prems" by (intro "1.IH"(1)) auto
    moreover have "p + 8 \<le> q \<longleftrightarrow> p \<le> q" using 1 "1.prems"(5) by auto
    ultimately show ?thesis using 1 "1.prems"(1) by (simp add: checksum_loop_unfold)
  next
    case 2
    let ?w' = "le_at 4 bs' p :: u32" and ?w = "le_at 4 bs p :: u32"
    have rec: "fst (checksum_loop bs' c (p + 4) (lo' + ?w') (hi' + (lo' + ?w')))
        - fst (checksum_loop bs c (p + 4) (lo + ?w) (hi + (lo + ?w))) =
        lo' + ?w' - (lo + ?w) + (if p + 4 \<le> q then le_at 4 bs' q - le_at 4 bs q else 0)"
      using 2 "1.prems" by (intro "1.IH"(2)) auto
    have same: "?w' = ?w" if "p \<noteq> q"
    proof (rule le_at_cong)
      have "p + 4 \<le> q \<or> q + 4 \<le> p"
        using that aligned_step [of p q] aligned_step [of q p] "1.prems"(3,7) by linarith
      then show "bs' ! i = bs ! i" if "p \<le> i" "i < p + 4" "i < length bs" for i
        using that "1.prems"(6) by auto
    qed (rule "1.prems"(1))
    have "p + 4 \<le> q \<longleftrightarrow> p \<le> q \<and> p \<noteq> q" using aligned_step [of p q] "1.prems"(3,7) by linarith
    then show ?thesis
      using 2 "1.prems"(1) rec same by (auto simp: checksum_loop_unfold(2))
  next
    case 3
    then show ?thesis using "1.prems"(1,4) by (simp add: checksum_loop_unfold)
  qed
qed

lemma ucast_fletcher64: "ucast (fletcher64 bs c) = fst (checksum_loop bs c 0 0 0)"
  by (rule bit_word_eqI) (auto simp: fletcher64_def bit_simps split: prod.splits)

lemma le_at4_inject:
  assumes "length bs' = length bs" and "q + 4 \<le> length bs"
    and "le_at 4 bs' q = (le_at 4 bs q :: u32)"
  shows "take 4 (drop q bs') = take 4 (drop q bs)"
proof -
  have "le_enc 4 (le_at 4 bs' q :: u32) = take 4 (drop q bs')"
    using assms(1,2) by (simp add: le_at_def le_enc_dec)
  moreover have "le_enc 4 (le_at 4 bs q :: u32) = take 4 (drop q bs)"
    using assms(2) by (simp add: le_at_def le_enc_dec)
  ultimately show ?thesis using assms(3) by simp
qed

lemma fletcher64_one_word:
  assumes "length bs' = length bs" and "c mod 4 = 0" and "q mod 4 = 0"
    and "q + 4 \<le> length bs" and "q < c \<or> c + 8 \<le> q"
    and "\<And>i. i < length bs \<Longrightarrow> i < q \<or> q + 4 \<le> i \<Longrightarrow> bs' ! i = bs ! i"
    and "take 4 (drop q bs') \<noteq> take 4 (drop q bs)"
  shows "fletcher64 bs' c \<noteq> fletcher64 bs c"
proof
  assume "fletcher64 bs' c = fletcher64 bs c"
  then have "fst (checksum_loop bs' c 0 0 0) = fst (checksum_loop bs c 0 0 0)"
    using ucast_fletcher64 by metis
  then have "le_at 4 bs' q = (le_at 4 bs q :: u32)"
    using checksum_loop_lo_diff [OF assms(1-6), of 0 0 0 0 0] by simp
  then show False using le_at4_inject assms(1,4,7) by blast
qed

section \<open>The header on bytes\<close>

definition wf_hdr :: "pool_hdr \<Rightarrow> bool" where
  "wf_hdr h \<longleftrightarrow> length (hdr_signature h) = 8 \<and> length (hdr_uuid h) = 16 \<and> length (hdr_unused h) = 4040"

lemma length_bytes_of_hdr [simp]: "wf_hdr h \<Longrightarrow> length (bytes_of_hdr h) = 4096"
  by (simp add: bytes_of_hdr_def wf_hdr_def)

lemma hdr_of_bytes_of_hdr: "wf_hdr h \<Longrightarrow> hdr_of_bytes (bytes_of_hdr h) = h"
  by (simp add: hdr_of_bytes_def bytes_of_hdr_def wf_hdr_def le_at_def)

lemma util_is_zeroed_iff: "util_is_zeroed bs \<longleftrightarrow> (\<forall>b\<in>set bs. b = 0)"
  by (induction bs) auto

lemma hdr_of_bytes_with_csum:
  assumes "length bs = 4096"
  shows "hdr_of_bytes (with_csum 4088 bs) = (hdr_of_bytes bs)\<lparr>hdr_checksum := fletcher64 bs 4088\<rparr>"
proof -
  have same: "take n (drop off (with_csum 4088 bs)) = take n (drop off bs)" if "off + n \<le> 4088" for off n
    using that assms by (intro nth_equalityI) (auto simp: nth_with_csum)
  have "take 8 (with_csum 4088 bs) = take 8 bs" using same [of 0 8] by simp
  then show ?thesis
    using assms le_at_with_csum [of 4088 bs]
    by (simp add: hdr_of_bytes_def le_at_def same)
qed

section \<open>The hint address lies in a gap of the address space\<close>

lemma roundup_GIGABYTE:
  shows "roundup hi GIGABYTE \<noteq> 0 \<Longrightarrow> hi \<le> roundup hi GIGABYTE"
    and "unat (roundup hi GIGABYTE) mod 2 ^ 30 = 0"
proof -
  have gb: "unat GIGABYTE = 2 ^ 30" by (simp add: GIGABYTE_def)
  have "(roundup hi GIGABYTE \<noteq> 0 \<longrightarrow> hi \<le> roundup hi GIGABYTE) \<and> unat (roundup hi GIGABYTE) mod 2 ^ 30 = 0"
  proof (cases "unat hi + unat GIGABYTE \<le> 2 ^ 64")
    case True
    then have "unat (roundup hi GIGABYTE) = (unat hi + (2 ^ 30 - 1)) div 2 ^ 30 * 2 ^ 30"
      using unat_roundup [of GIGABYTE hi] gb by (simp add: GIGABYTE_def)
    then show ?thesis
      using roundup_ge_nat [of "2 ^ 30" "unat hi"] by (simp add: word_le_nat_alt)
  next
    case False
    have "unat (hi + (GIGABYTE - 1)) = unat hi + (2 ^ 30 - 1) - 2 ^ 64"
      using False gb unat_bound [of hi]
      by (simp add: unat_word_ariths GIGABYTE_def mod_if)
    then have "unat (hi + (GIGABYTE - 1)) < unat GIGABYTE"
      using unat_bound [of hi] by (simp add: gb)
    then have "(hi + (GIGABYTE - 1)) div GIGABYTE = 0"
      by (metis div_less unat_div_distrib unat_eq_0)
    then show ?thesis by (simp add: roundup_def)
  qed
  then show "roundup hi GIGABYTE \<noteq> 0 \<Longrightarrow> hi \<le> roundup hi GIGABYTE"
    and "unat (roundup hi GIGABYTE) mod 2 ^ 30 = 0" by auto
qed

text \<open>Ranges in the order of increasing addresses.\<close>

definition maps_sorted :: "(u64 \<times> u64) list \<Rightarrow> bool" where
  "maps_sorted rs \<longleftrightarrow> (\<forall>(lo, hi)\<in>set rs. lo \<le> hi) \<and> sorted_wrt (\<lambda>(lo, hi) (lo', hi'). hi \<le> lo') rs"

lemma map_hint_loop_gap:
  assumes "maps_sorted rs" and "unat raddr mod 2 ^ 30 = 0" and "map_hint_loop len raddr rs \<noteq> 0"
  shows "raddr \<le> map_hint_loop len raddr rs \<and> unat (map_hint_loop len raddr rs) mod 2 ^ 30 = 0 \<and>
    (\<forall>(lo, hi)\<in>set rs. hi \<le> map_hint_loop len raddr rs \<or>
       unat (map_hint_loop len raddr rs) + unat len \<le> unat lo)"
  using assms
proof (induction len raddr rs rule: map_hint_loop.induct)
  case (1 len raddr)
  then show ?case by simp
next
  case (2 len raddr lo hi rs)
  have sorted: "lo \<le> hi" "\<And>l h. (l, h) \<in> set rs \<Longrightarrow> hi \<le> l" "maps_sorted rs"
    using "2.prems"(1) by (auto simp: maps_sorted_def)
  show ?case
  proof (cases "raddr < lo \<and> len \<le> lo - raddr")
    case True
    then have "unat raddr + unat len \<le> unat lo"
      using unat_sub [of raddr lo] by (auto simp: word_le_nat_alt word_less_nat_alt)
    moreover have "unat lo \<le> unat l" if "(l, h) \<in> set rs" for l h
      using that sorted by (force simp: word_le_nat_alt)
    ultimately show ?thesis
      using True "2.prems"(2) by (fastforce)
  next
    case False
    let ?r' = "if raddr < hi then roundup hi GIGABYTE else raddr"
    have nz: "?r' \<noteq> 0" using False "2.prems"(3) by (auto simp: Let_def split: if_splits)
    then have eq: "map_hint_loop len raddr ((lo, hi) # rs) = map_hint_loop len ?r' rs"
      using False by (auto simp: Let_def)
    have IH: "?r' \<le> map_hint_loop len ?r' rs \<and> unat (map_hint_loop len ?r' rs) mod 2 ^ 30 = 0 \<and>
      (\<forall>(lo, hi)\<in>set rs. hi \<le> map_hint_loop len ?r' rs \<or>
         unat (map_hint_loop len ?r' rs) + unat len \<le> unat lo)"
      using False nz eq "2.prems" sorted(3) roundup_GIGABYTE(2) [of hi] by (intro "2.IH") auto
    have "raddr \<le> ?r'" "hi \<le> ?r'"
      using nz roundup_GIGABYTE(1) [of hi] by (auto split: if_splits)
    then show ?thesis using IH unfolding eq by (auto intro: order_trans)
  qed
qed

section \<open>A new header\<close>

text \<open>The header page that \<open>pmemblk_map_common\<close> and \<open>pmemlog_map_common\<close> write into a new pool.\<close>

definition new_pool_hdr :: "byte list \<Rightarrow> u32 \<Rightarrow> u32 \<Rightarrow> u32 \<Rightarrow> u32 \<Rightarrow> byte list \<Rightarrow> u64 \<Rightarrow> byte list" where
  "new_pool_hdr sig major_v cmpt incompat ro_cmpt uuid t =
     with_csum POOL_HDR_CSUM (bytes_of_hdr \<lparr>hdr_signature = strncpy sig POOL_HDR_SIG_LEN, hdr_major = major_v,
       hdr_compat_features = cmpt, hdr_incompat_features = incompat, hdr_ro_compat_features = ro_cmpt,
       hdr_uuid = uuid, hdr_crtime = t, hdr_unused = replicate 4040 0, hdr_checksum = 0\<rparr>)"

lemma new_pool_hdr_valid:
  fixes t :: u64 and ro_cmpt incompat cmpt :: u32 and sig :: "byte list"
  assumes uuid: "length uuid = 16" and major: "major_v \<noteq> 0"
  defines "page \<equiv> new_pool_hdr sig major_v cmpt incompat ro_cmpt uuid t"
  shows "length page = 4096" and "take 16 (drop 24 page) = uuid"
    and "\<exists>c. util_convert_hdr page = Some \<lparr>hdr_signature = strncpy sig 8, hdr_major = major_v,
       hdr_compat_features = cmpt, hdr_incompat_features = incompat, hdr_ro_compat_features = ro_cmpt,
       hdr_uuid = uuid, hdr_crtime = t, hdr_unused = replicate 4040 0, hdr_checksum = c\<rparr>"
proof -
  let ?h = "\<lparr>hdr_signature = strncpy sig POOL_HDR_SIG_LEN, hdr_major = major_v,
       hdr_compat_features = cmpt, hdr_incompat_features = incompat, hdr_ro_compat_features = ro_cmpt,
       hdr_uuid = uuid, hdr_crtime = t, hdr_unused = replicate 4040 0, hdr_checksum = 0\<rparr>"
  have wf: "wf_hdr ?h" using uuid by (simp add: wf_hdr_def POOL_HDR_SIG_LEN_def)
  have page: "page = with_csum 4088 (bytes_of_hdr ?h)" by (simp add: page_def new_pool_hdr_def POOL_HDR_CSUM_def)
  show "length page = 4096" using wf by (simp add: page)
  have hdr: "hdr_of_bytes page = ?h\<lparr>hdr_checksum := fletcher64 (bytes_of_hdr ?h) 4088\<rparr>"
    unfolding page using hdr_of_bytes_with_csum [of "bytes_of_hdr ?h"] hdr_of_bytes_of_hdr [OF wf] wf by simp
  have "hdr_uuid (hdr_of_bytes page) = uuid" unfolding hdr by simp
  then show "take 16 (drop 24 page) = uuid" by (simp add: hdr_of_bytes_def)
  have "fst (util_checksum page POOL_HDR_CSUM False)"
    using verify_with_csum [of 4088 "bytes_of_hdr ?h"] wf by (simp add: page POOL_HDR_CSUM_def)
  then show "\<exists>c. util_convert_hdr page = Some \<lparr>hdr_signature = strncpy sig 8, hdr_major = major_v,
       hdr_compat_features = cmpt, hdr_incompat_features = incompat, hdr_ro_compat_features = ro_cmpt,
       hdr_uuid = uuid, hdr_crtime = t, hdr_unused = replicate 4040 0, hdr_checksum = c\<rparr>"
    using major hdr by (simp add: util_convert_hdr_def Let_def POOL_HDR_SIG_LEN_def)
qed

text \<open>One damaged word is enough for the header to be refused.\<close>

lemma convert_hdr_damaged:
  assumes accepted: "util_convert_hdr page = Some h" and len: "length page = 4096" "length page' = 4096"
    and word: "q mod 4 = 0" "q < 4088" and same: "\<forall>i < 4096. i < q \<or> q + 4 \<le> i \<longrightarrow> page' ! i = page ! i"
    and damage: "take 4 (drop q page') \<noteq> take 4 (drop q page)"
  shows "util_convert_hdr page' = None"
proof -
  have q: "q + 4 \<le> 4088" using word by presburger
  have stored: "le_at 8 page 4088 = fletcher64 page 4088"
    using accepted by (auto simp: util_convert_hdr_def util_checksum_def Let_def POOL_HDR_CSUM_def split: if_splits)
  have "le_at 8 page' 4088 = (le_at 8 page 4088 :: u64)" using len q same by (intro le_at_cong) auto
  moreover have "fletcher64 page' 4088 \<noteq> fletcher64 page 4088"
    using len q word same damage by (intro fletcher64_one_word [of _ _ _ q]) auto
  ultimately show ?thesis
    using stored by (simp add: util_convert_hdr_def util_checksum_def Let_def POOL_HDR_CSUM_def)
qed

section \<open>Properties\<close>

text \<open>
  Inserting a checksum and verifying it succeeds, and the insertion changes no byte outside the
  checksum field: every range that the library stamps is accepted by the library.
\<close>

theorem checksum_insert_verify:
  assumes "c mod 4 = 0" and "c + 8 \<le> length bs"
  shows "fst (util_checksum (snd (util_checksum bs c True)) c False) \<and>
    length (snd (util_checksum bs c True)) = length bs \<and>
    (\<forall>i < length bs. i < c \<or> c + 8 \<le> i \<longrightarrow> snd (util_checksum bs c True) ! i = bs ! i)"
  using verify_with_csum [OF assms] assms(2) nth_with_csum by simp

theorem checksum_insert_verify_witness:
  "fst (util_checksum (snd (util_checksum (replicate 24 7) 8 True)) 8 False)"
  using checksum_insert_verify [of 8 "replicate 24 7"] by simp

text \<open>
  A new header is accepted again with the fields it was given.
\<close>

theorem new_header_accepted:
  assumes "length uuid = 16" and "major_v \<noteq> 0"
  shows "\<exists>c. util_convert_hdr (new_pool_hdr sig major_v cmpt incompat ro_cmpt uuid t) =
    Some \<lparr>hdr_signature = strncpy sig 8, hdr_major = major_v, hdr_compat_features = cmpt,
      hdr_incompat_features = incompat, hdr_ro_compat_features = ro_cmpt, hdr_uuid = uuid, hdr_crtime = t,
      hdr_unused = replicate 4040 0, hdr_checksum = c\<rparr>"
  using new_pool_hdr_valid(3) [OF assms] .

theorem new_header_accepted_witness:
  "\<exists>h. util_convert_hdr (new_pool_hdr (c_str ''PMEMBLK'') 1 0 0 0 (replicate 16 3) 0) = Some h \<and> hdr_major h = 1"
  using new_header_accepted [of "replicate 16 3" 1 "c_str ''PMEMBLK''" 0 0 0 0] by fastforce

text \<open>
  C36 A hint address for a mapping of \<open>len\<close> bytes is a multiple of 1 GiB at or above 1 TiB; the
  mapping fits below the end of the address space and meets no range that is already mapped.
\<close>

theorem map_hint_in_gap:
  assumes sorted: "maps_sorted rs" and hint: "util_map_hint (Some rs) len \<noteq> 0"
  shows "unat (util_map_hint (Some rs) len) mod 2 ^ 30 = 0 \<and> 2 ^ 40 \<le> unat (util_map_hint (Some rs) len) \<and>
    unat (util_map_hint (Some rs) len) + unat len < 2 ^ 64 \<and>
    (\<forall>(lo, hi)\<in>set rs. hi \<le> util_map_hint (Some rs) len \<or>
       unat (util_map_hint (Some rs) len) + unat len \<le> unat lo)"
proof -
  let ?r = "map_hint_loop len TERABYTE rs"
  have tb: "unat TERABYTE = 2 ^ 40" by (simp add: TERABYTE_def)
  have r: "util_map_hint (Some rs) len = ?r" "?r \<noteq> 0" "len \<le> - 1 - ?r"
    using hint by (auto simp: util_map_hint_def Let_def split: if_splits)
  have "unat (- 1 - ?r) = 2 ^ 64 - 1 - unat ?r"
    using unat_sub [of ?r "- 1"] by (simp add: unsigned_minus_1_eq_mask mask_eq_exp_minus_1)
  then have "unat ?r + unat len < 2 ^ 64"
    using r(3) unat_bound [of ?r] by (simp add: word_le_nat_alt)
  moreover have "TERABYTE \<le> ?r \<and> unat ?r mod 2 ^ 30 = 0 \<and>
      (\<forall>(lo, hi)\<in>set rs. hi \<le> ?r \<or> unat ?r + unat len \<le> unat lo)"
    by (rule map_hint_loop_gap [OF sorted _ r(2)]) (simp add: tb)
  ultimately show ?thesis
    unfolding r(1) using tb by (simp add: word_le_nat_alt)
qed

theorem map_hint_in_gap_witness:
  "maps_sorted [(0x400000, 0x500000), (0x10000000000, 0x10000200000)] \<and>
   util_map_hint (Some [(0x400000, 0x500000), (0x10000000000, 0x10000200000)]) 4096 = 0x10040000000 \<and>
   unat (util_map_hint (Some [(0x400000, 0x500000), (0x10000000000, 0x10000200000)]) 4096) mod 2 ^ 30 = 0"
proof -
  let ?rs = "[(0x400000, 0x500000), (0x10000000000, 0x10000200000)] :: (u64 \<times> u64) list"
  have s: "maps_sorted ?rs" by (simp add: maps_sorted_def)
  have h: "util_map_hint (Some ?rs) 4096 = 0x10040000000"
    by (simp add: util_map_hint_def Let_def TERABYTE_def GIGABYTE_def roundup_def)
  then show ?thesis using s map_hint_in_gap [of ?rs 4096] by simp
qed

text \<open>
  The protections act on whole pages that cover the range asked for: the address passed to
  \<open>mprotect\<close> is a multiple of the page size, at most a page below the range, and the two end together.
\<close>

theorem range_protects_pages:
  assumes page: "k < 64" and fits: "unat addr + unat len < 2 ^ 64"
  shows "\<exists>uptr ulen. unat uptr mod 2 ^ k = 0 \<and> unat uptr \<le> unat addr \<and> unat addr - unat uptr < 2 ^ k \<and>
    unat uptr + unat ulen = unat addr + unat len \<and>
    util_range_ro mprotect (2 ^ k) addr len = mprotect uptr ulen PROT_READ \<and>
    util_range_rw mprotect (2 ^ k) addr len = mprotect uptr ulen PROT_READ_WRITE \<and>
    util_range_none mprotect (2 ^ k) addr len = mprotect uptr ulen PROT_NONE"
proof -
  let ?low = "addr AND mask k" and ?up = "addr AND NOT (mask k)"
  have low: "unat ?low = unat addr mod 2 ^ k"
    by (simp add: take_bit_eq_mask [symmetric] unsigned_take_bit_eq flip: take_bit_eq_mod)
  have split: "unat addr = unat ?up + unat ?low"
  proof -
    have "?up AND ?low = 0" by (rule bit_word_eqI) (auto simp: bit_simps)
    then have sum: "?up + ?low = ?up OR ?low" by (simp add: disjunctive_add_eq_or)
    have "?up OR ?low = addr" by (rule bit_word_eqI) (auto simp: bit_simps)
    moreover have "?low \<le> addr" using low by (simp add: word_le_nat_alt)
    moreover have "?up = addr - ?low" using sum calculation(1) by (simp add: eq_diff_eq)
    ultimately show ?thesis using unat_sub [of ?low addr] by (simp add: word_le_nat_alt)
  qed
  have "unat ?up = unat addr div 2 ^ k * 2 ^ k"
    using split low div_mult_mod_eq [of "unat addr" "2 ^ k"] by linarith
  then have "unat ?up mod 2 ^ k = 0" by simp
  moreover have "unat ?up + unat (len + ?low) = unat addr + unat len"
    using split fits by (subst unat_add_lem [THEN iffD1]) simp_all
  moreover have "unat addr - unat ?up < 2 ^ k"
  proof -
    have "unat addr - unat ?up = unat addr mod 2 ^ k" using split low by linarith
    then show ?thesis by simp
  qed
  moreover have "unat ?up \<le> unat addr" using split by simp
  ultimately show ?thesis
    by (intro exI [of _ ?up] exI [of _ "len + ?low"])
      (simp add: util_range_ro_def util_range_rw_def util_range_none_def range_uptr_def range_len_def mask_eq_exp_minus_1)
qed

theorem range_protects_pages_witness:
  "\<exists>(uptr :: u64) (ulen :: u64). unat uptr mod 4096 = 0 \<and> unat uptr + unat ulen = 8292 \<and>
     util_range_none (\<lambda>a l p. uint a + uint l) (2 ^ 12) 8192 100 = uint uptr + uint ulen"
proof -
  have fits: "(12 :: nat) < 64" "unat (8192 :: u64) + unat (100 :: u64) < 2 ^ 64" by simp_all
  from range_protects_pages [OF fits, of "\<lambda>a l p. uint a + uint l"]
  have "\<exists>(uptr :: u64) (ulen :: u64). unat uptr mod 2 ^ 12 = 0 \<and> unat uptr + unat ulen = unat (8192 :: u64) + unat (100 :: u64) \<and>
     util_range_none (\<lambda>a l p. uint a + uint l) (2 ^ 12) 8192 100 = uint uptr + uint ulen"
    by (elim exE conjE) (intro exI conjI; assumption)
  then show ?thesis by simp
qed

text \<open>
  Creating a pool file either succeeds, for a new path and a size of at least the minimum, with
  zero contents of that size; or it fails with the files of the directory as they were.
\<close>

theorem pool_create_all_or_nothing:
  "case util_pool_create falloc fs path psize minsize of
     (Inl e, fs') \<Rightarrow> fs' = fs \<and> (psize < minsize \<and> e = EINVAL \<or> fs path \<noteq> None \<and> e = EEXIST \<or> falloc psize = Some e)
   | (Inr fd, fs') \<Rightarrow> fd = path \<and> fs path = None \<and> fs' = fs(path \<mapsto> \<lparr>file_size = psize, file_data = (\<lambda>_. 0)\<rparr>) \<and>
       util_pool_open fs' path minsize = Inr (path, psize)"
  by (auto simp: util_pool_create_def util_pool_open_def Let_def split: option.splits)

end
