(* ===== verification/Btt_Layout.thy ===== *)
theory Btt_Layout
  imports Util
begin

text \<open>
  The on-media structures of the block translation table, \<open>src/libpmemblk/btt_layout.h\<close>,
  and the small functions of \<open>btt.c\<close> that read them: the arena info block, the flog
  entry with its 2-bit cyclic sequence number, and the map entry with its two state bits.
\<close>

section \<open>Constants\<close>

definition BTT_ALIGNMENT :: u64 where "BTT_ALIGNMENT = 4096"
definition BTT_FLOG_PAIR_ALIGN :: u64 where "BTT_FLOG_PAIR_ALIGN = 64"
definition BTT_MAP_ENTRY_SIZE :: u32 where "BTT_MAP_ENTRY_SIZE = 4"
definition BTT_MAP_ENTRY_ERROR :: u32 where "BTT_MAP_ENTRY_ERROR = 0x40000000"
definition BTT_MAP_ENTRY_ZERO :: u32 where "BTT_MAP_ENTRY_ZERO = 0x80000000"
definition BTT_MAP_ENTRY_NORMAL :: u32 where "BTT_MAP_ENTRY_NORMAL = 0xC0000000"
definition BTT_MAP_ENTRY_LBA_MASK :: u32 where "BTT_MAP_ENTRY_LBA_MASK = 0x3fffffff"
definition BTT_MIN_SIZE :: u64 where "BTT_MIN_SIZE = push_bit 20 1 * 16"
definition BTT_MAX_ARENA :: u64 where "BTT_MAX_ARENA = push_bit 39 1"
definition BTT_MIN_LBA_SIZE :: u32 where "BTT_MIN_LBA_SIZE = 512"
definition BTT_INTERNAL_LBA_ALIGNMENT :: u32 where "BTT_INTERNAL_LBA_ALIGNMENT = 256"
definition BTT_DEFAULT_NFREE :: u32 where "BTT_DEFAULT_NFREE = 256"
definition BTTINFO_FLAG_ERROR :: u32 where "BTTINFO_FLAG_ERROR = 1"
definition BTTINFO_FLAG_ERROR_MASK :: u32 where "BTTINFO_FLAG_ERROR_MASK = 1"
definition BTTINFO_MAJOR_VERSION :: u16 where "BTTINFO_MAJOR_VERSION = 1"
definition BTTINFO_MINOR_VERSION :: u16 where "BTTINFO_MINOR_VERSION = 1"

lemmas btt_consts =
  BTT_ALIGNMENT_def BTT_FLOG_PAIR_ALIGN_def BTT_MAP_ENTRY_SIZE_def BTT_MIN_SIZE_def
  BTT_MAX_ARENA_def BTT_MIN_LBA_SIZE_def BTT_INTERNAL_LBA_ALIGNMENT_def BTT_DEFAULT_NFREE_def
  BTTINFO_FLAG_ERROR_def BTTINFO_FLAG_ERROR_MASK_def BTTINFO_MAJOR_VERSION_def
  BTTINFO_MINOR_VERSION_def

lemmas map_entry_consts =
  BTT_MAP_ENTRY_ERROR_def BTT_MAP_ENTRY_ZERO_def BTT_MAP_ENTRY_NORMAL_def BTT_MAP_ENTRY_LBA_MASK_def

section \<open>Map entries\<close>

definition map_entry_is_zero :: "u32 \<Rightarrow> bool" where
  "map_entry_is_zero e \<longleftrightarrow> e AND NOT BTT_MAP_ENTRY_LBA_MASK = BTT_MAP_ENTRY_ZERO"

definition map_entry_is_error :: "u32 \<Rightarrow> bool" where
  "map_entry_is_error e \<longleftrightarrow> e AND NOT BTT_MAP_ENTRY_LBA_MASK = BTT_MAP_ENTRY_ERROR"

definition map_entry_is_initial :: "u32 \<Rightarrow> bool" where
  "map_entry_is_initial e \<longleftrightarrow> e AND NOT BTT_MAP_ENTRY_LBA_MASK = 0"

definition map_entry_is_zero_or_initial :: "u32 \<Rightarrow> bool" where
  "map_entry_is_zero_or_initial e \<longleftrightarrow>
     e AND NOT BTT_MAP_ENTRY_LBA_MASK = 0 \<or> e AND NOT BTT_MAP_ENTRY_LBA_MASK = BTT_MAP_ENTRY_ZERO"

text \<open>The block an entry names.\<close>

abbreviation entry_lba :: "u32 \<Rightarrow> u32" where
  "entry_lba e \<equiv> e AND BTT_MAP_ENTRY_LBA_MASK"

definition map_entry_is_normal :: "u32 \<Rightarrow> bool" where
  "map_entry_is_normal e \<longleftrightarrow> e AND NOT BTT_MAP_ENTRY_LBA_MASK = BTT_MAP_ENTRY_NORMAL"

lemmas map_entry_defs = map_entry_is_zero_def map_entry_is_error_def map_entry_is_initial_def
  map_entry_is_zero_or_initial_def map_entry_is_normal_def

lemma NOT_LBA_MASK: "NOT BTT_MAP_ENTRY_LBA_MASK = 0xC0000000"
  by (simp add: BTT_MAP_ENTRY_LBA_MASK_def)

lemma LBA_MASK_mask: "BTT_MAP_ENTRY_LBA_MASK = mask 30"
  by (simp add: BTT_MAP_ENTRY_LBA_MASK_def mask_eq_exp_minus_1)

lemma entry_lba_take_bit: "entry_lba e = take_bit 30 e"
  by (simp add: LBA_MASK_mask take_bit_eq_mask)

lemma unat_entry_lba: "unat (entry_lba e) < 2 ^ 30"
  using take_bit_nat_less_exp [of 30 "unat e"] by (simp add: entry_lba_take_bit unsigned_take_bit_eq)

lemma entry_lba_small: "unat e < 2 ^ 30 \<Longrightarrow> entry_lba e = e"
  by (simp add: entry_lba_take_bit unsigned_take_bit_eq word_unat_eq_iff take_bit_nat_eq_self_iff)

lemma flags_cases:
  "e AND NOT BTT_MAP_ENTRY_LBA_MASK = 0 \<or> e AND NOT BTT_MAP_ENTRY_LBA_MASK = BTT_MAP_ENTRY_ERROR \<or>
   e AND NOT BTT_MAP_ENTRY_LBA_MASK = BTT_MAP_ENTRY_ZERO \<or>
   e AND NOT BTT_MAP_ENTRY_LBA_MASK = BTT_MAP_ENTRY_NORMAL"
proof -
  let ?f = "take_bit 2 (drop_bit 30 e)"
  have flags: "(0xC0000000 :: u32) = push_bit 30 (mask 2)" by (simp add: mask_eq_exp_minus_1)
  have eq: "e AND NOT BTT_MAP_ENTRY_LBA_MASK = push_bit 30 ?f"
    unfolding NOT_LBA_MASK flags by (rule bit_word_eqI) (auto simp: bit_simps)
  have "unat ?f < 4"
    using take_bit_nat_less_exp [of 2 "unat (drop_bit 30 e)"] by (simp add: unsigned_take_bit_eq)
  then have "unat ?f = unat (0::u32) \<or> unat ?f = unat (1::u32) \<or> unat ?f = unat (2::u32) \<or> unat ?f = unat (3::u32)"
    by auto
  then have "?f = 0 \<or> ?f = 1 \<or> ?f = 2 \<or> ?f = 3" by (simp only: word_unat_eq_iff)
  then show ?thesis unfolding eq by (auto simp: map_entry_consts)
qed

text \<open>Every entry is in exactly one of the four states.\<close>

lemma map_entry_states:
  "map_entry_is_initial e \<or> map_entry_is_error e \<or> map_entry_is_zero e \<or> map_entry_is_normal e"
  using flags_cases [of e] by (auto simp: map_entry_defs)

lemma map_entry_states_disjoint:
  "map_entry_is_initial e \<Longrightarrow> \<not> map_entry_is_error e \<and> \<not> map_entry_is_zero e \<and> \<not> map_entry_is_normal e"
  "map_entry_is_error e \<Longrightarrow> \<not> map_entry_is_zero e \<and> \<not> map_entry_is_normal e"
  "map_entry_is_zero e \<Longrightarrow> \<not> map_entry_is_normal e"
  by (auto simp: map_entry_defs map_entry_consts)

lemma zero_or_initial_iff:
  "map_entry_is_zero_or_initial e \<longleftrightarrow> map_entry_is_zero e \<or> map_entry_is_initial e"
  by (auto simp: map_entry_defs)

text \<open>Building an entry from a block number and a state, as the code does.\<close>

lemma entry_lba_build [simp]:
  "entry_lba (entry_lba x OR BTT_MAP_ENTRY_NORMAL) = entry_lba x"
  "entry_lba (entry_lba x OR BTT_MAP_ENTRY_ZERO) = entry_lba x"
  "entry_lba (entry_lba x OR BTT_MAP_ENTRY_ERROR) = entry_lba x"
  by (simp_all add: map_entry_consts bit.conj_disj_distrib2 and.assoc)

lemma flags_build [simp]:
  "(entry_lba x OR BTT_MAP_ENTRY_NORMAL) AND NOT BTT_MAP_ENTRY_LBA_MASK = BTT_MAP_ENTRY_NORMAL"
  "(entry_lba x OR BTT_MAP_ENTRY_ZERO) AND NOT BTT_MAP_ENTRY_LBA_MASK = BTT_MAP_ENTRY_ZERO"
  "(entry_lba x OR BTT_MAP_ENTRY_ERROR) AND NOT BTT_MAP_ENTRY_LBA_MASK = BTT_MAP_ENTRY_ERROR"
  by (simp_all add: map_entry_consts bit.conj_disj_distrib2 and.assoc)

lemma state_build [simp]:
  "map_entry_is_normal (entry_lba x OR BTT_MAP_ENTRY_NORMAL)"
  "map_entry_is_zero (entry_lba x OR BTT_MAP_ENTRY_ZERO)"
  "map_entry_is_error (entry_lba x OR BTT_MAP_ENTRY_ERROR)"
  by (simp_all add: map_entry_defs)

lemma entry_decompose: "e = entry_lba e OR (e AND NOT BTT_MAP_ENTRY_LBA_MASK)"
  by (rule bit_word_eqI) (auto simp: bit_simps)

section \<open>Flog entries\<close>

record btt_flog =
  flog_lba :: u32
  flog_old_map :: u32
  flog_new_map :: u32
  flog_seq :: u32

definition Zflog :: btt_flog where
  "Zflog = \<lparr>flog_lba = 0, flog_old_map = 0, flog_new_map = 0, flog_seq = 0\<rparr>"

definition bytes_of_flog :: "btt_flog \<Rightarrow> byte list" where
  "bytes_of_flog f = le_enc 4 (flog_lba f) @ le_enc 4 (flog_old_map f) @ le_enc 4 (flog_new_map f)
     @ le_enc 4 (flog_seq f)"

definition flog_at :: "byte list \<Rightarrow> nat \<Rightarrow> btt_flog" where
  "flog_at bs off = \<lparr>flog_lba = le_at 4 bs off, flog_old_map = le_at 4 bs (off + 4),
     flog_new_map = le_at 4 bs (off + 8), flog_seq = le_at 4 bs (off + 12)\<rparr>"

lemma length_bytes_of_flog [simp]: "length (bytes_of_flog f) = 16"
  by (simp add: bytes_of_flog_def)

lemma flog_at_bytes: "length xs = off \<Longrightarrow> flog_at (xs @ bytes_of_flog f @ ys) off = f"
  by (simp add: flog_at_def bytes_of_flog_def le_at_def)

lemma flog_at_mem_read:
  assumes "off + 16 \<le> n"
  shows "flog_at (mem_read m a n) off = flog_at (mem_read m (a + off) 16) 0"
  using assms by (simp add: flog_at_def le_at_mem_read add.assoc)

text \<open>The cyclic 2-bit sequence numbers, 01, 10, 11.\<close>

definition Nseq :: "u32 list" where "Nseq = [0, 2, 3, 1]"

definition NSEQ :: "u32 \<Rightarrow> u32" where "NSEQ s = Nseq ! unat (s AND 3)"

lemma NSEQ_simps [simp]: "NSEQ 0 = 0" "NSEQ 1 = 2" "NSEQ 2 = 3" "NSEQ 3 = 1"
  by (simp_all add: NSEQ_def Nseq_def)

lemma NSEQ_cycle:
  assumes "s \<in> {1, 2, 3}"
  shows "NSEQ s \<in> {1, 2, 3}" "NSEQ s \<noteq> s" "NSEQ (NSEQ s) \<noteq> s" "NSEQ s \<noteq> 0" "NSEQ (NSEQ (NSEQ s)) = s"
  using assms by auto

section \<open>Arena info blocks\<close>

definition BTT_INFO_SIZE :: nat where "BTT_INFO_SIZE = 4096"
definition BTT_INFO_CSUM :: nat where "BTT_INFO_CSUM = 4088"

text \<open>The 16 bytes of \<open>Sig\<close>, the terminating zeros included.\<close>

definition Sig :: "byte list" where
  "Sig = c_str ''BTT_ARENA_INFO'' @ [0, 0]"

record btt_info =
  info_sig :: "byte list"
  info_parent_uuid :: "byte list"
  info_flags :: u32
  info_major :: u16
  info_minor :: u16
  info_external_lbasize :: u32
  info_external_nlba :: u32
  info_internal_lbasize :: u32
  info_internal_nlba :: u32
  info_nfree :: u32
  info_infosize :: u32
  info_nextoff :: u64
  info_dataoff :: u64
  info_mapoff :: u64
  info_flogoff :: u64
  info_infooff :: u64
  info_unused :: "byte list"
  info_checksum :: u64

definition info_of_bytes :: "byte list \<Rightarrow> btt_info" where
  "info_of_bytes bs = \<lparr>
     info_sig = take 16 bs,
     info_parent_uuid = take 16 (drop 16 bs),
     info_flags = le_at 4 bs 32,
     info_major = le_at 2 bs 36,
     info_minor = le_at 2 bs 38,
     info_external_lbasize = le_at 4 bs 40,
     info_external_nlba = le_at 4 bs 44,
     info_internal_lbasize = le_at 4 bs 48,
     info_internal_nlba = le_at 4 bs 52,
     info_nfree = le_at 4 bs 56,
     info_infosize = le_at 4 bs 60,
     info_nextoff = le_at 8 bs 64,
     info_dataoff = le_at 8 bs 72,
     info_mapoff = le_at 8 bs 80,
     info_flogoff = le_at 8 bs 88,
     info_infooff = le_at 8 bs 96,
     info_unused = take 3984 (drop 104 bs),
     info_checksum = le_at 8 bs 4088\<rparr>"

definition bytes_of_info :: "btt_info \<Rightarrow> byte list" where
  "bytes_of_info i = info_sig i @ info_parent_uuid i @ le_enc 4 (info_flags i)
     @ le_enc 2 (info_major i) @ le_enc 2 (info_minor i)
     @ le_enc 4 (info_external_lbasize i) @ le_enc 4 (info_external_nlba i)
     @ le_enc 4 (info_internal_lbasize i) @ le_enc 4 (info_internal_nlba i)
     @ le_enc 4 (info_nfree i) @ le_enc 4 (info_infosize i)
     @ le_enc 8 (info_nextoff i) @ le_enc 8 (info_dataoff i) @ le_enc 8 (info_mapoff i)
     @ le_enc 8 (info_flogoff i) @ le_enc 8 (info_infooff i)
     @ info_unused i @ le_enc 8 (info_checksum i)"

definition wf_info :: "btt_info \<Rightarrow> bool" where
  "wf_info i \<longleftrightarrow> length (info_sig i) = 16 \<and> length (info_parent_uuid i) = 16 \<and> length (info_unused i) = 3984"

lemma length_bytes_of_info [simp]: "wf_info i \<Longrightarrow> length (bytes_of_info i) = 4096"
  by (simp add: bytes_of_info_def wf_info_def)

lemma info_of_bytes_of_info: "wf_info i \<Longrightarrow> info_of_bytes (bytes_of_info i) = i"
  by (simp add: info_of_bytes_def bytes_of_info_def wf_info_def le_at_def)

lemma info_of_bytes_with_csum:
  assumes "length bs = 4096"
  shows "info_of_bytes (with_csum 4088 bs) = (info_of_bytes bs)\<lparr>info_checksum := fletcher64 bs 4088\<rparr>"
proof -
  have same: "take n (drop off (with_csum 4088 bs)) = take n (drop off bs)" if "off + n \<le> 4088" for off n
    using that assms by (intro nth_equalityI) (auto simp: nth_with_csum)
  have "take 16 (with_csum 4088 bs) = take 16 bs" using same [of 0 16] by simp
  then show ?thesis
    using assms le_at_with_csum [of 4088 bs]
    by (simp add: info_of_bytes_def le_at_def same)
qed

lemma length_Sig [simp]: "length Sig = 16"
  by (simp add: Sig_def c_str_def)

end
