(* ===== verification/Btt.thy ===== *)
theory Btt
  imports Btt_Layout
begin

text \<open>
  The block translation table of \<open>src/libpmemblk/btt.c\<close>, in the order of the file.  The
  handle \<open>struct btt\<close> is the state every entry point threads; it holds the namespace
  \<open>ns\<close> and the caller's callbacks \<open>ns_cbp\<close>.  A function that works on a
  \<open>struct arena\<close> through a pointer runs on the pair of that arena and the handle.
  Failed assertions, accesses outside an array and waiting for a reader that never finishes are
  \<open>Stuck\<close>.  Mutexes guard against other threads only and are left out of this
  single-thread view; memory allocation always succeeds.
\<close>

section \<open>Namespace callbacks and run-time state\<close>

record 'ns ns_callback =
  nsread :: "'ns \<Rightarrow> nat \<Rightarrow> u64 \<Rightarrow> u64 \<Rightarrow> errno + byte list"
  nswrite :: "'ns \<Rightarrow> nat \<Rightarrow> byte list \<Rightarrow> u64 \<Rightarrow> errno option \<times> 'ns"
  nszero :: "'ns \<Rightarrow> nat \<Rightarrow> u64 \<Rightarrow> u64 \<Rightarrow> errno option \<times> 'ns"
  nsmap :: "'ns \<Rightarrow> nat \<Rightarrow> u64 \<Rightarrow> u64 \<Rightarrow> errno + byte list"
  ns_is_zeroed :: bool

record flog_runtime =
  frt_flog :: btt_flog
  frt_entries :: "u64 list"
  frt_next :: nat

record arena =
  arena_flags :: u32
  external_nlba :: u32
  internal_lbasize :: u32
  internal_nlba :: u32
  startoff :: u64
  dataoff :: u64
  mapoff :: u64
  flogoff :: u64
  nextoff :: u64
  flogs :: "flog_runtime list"
  rtt :: "u32 list"

record 'ns btt =
  nlane :: nat
  laidout :: bool
  parent_uuid :: "byte list"
  rawsize :: u64
  lbasize :: u32
  nfree :: u32
  nlba :: u64
  narena :: nat
  arenas :: "arena list"
  ns :: 'ns
  ns_cbp :: "'ns ns_callback"

definition zero_arena :: arena where
  "zero_arena = \<lparr>arena_flags = 0, external_nlba = 0, internal_lbasize = 0, internal_nlba = 0,
     startoff = 0, dataoff = 0, mapoff = 0, flogoff = 0, nextoff = 0, flogs = [], rtt = []\<rparr>"

definition zero_frt :: flog_runtime where
  "zero_frt = \<lparr>frt_flog = Zflog, frt_entries = [0, 0], frt_next = 0\<rparr>"

section \<open>Calling the callbacks\<close>

definition ns_read :: "nat \<Rightarrow> u64 \<Rightarrow> u64 \<Rightarrow> ('ns btt, byte list) prog" where
  "ns_read lane count off b =
     (case nsread (ns_cbp b) (ns b) lane count off of Inl e \<Rightarrow> (Err e, b) | Inr bs \<Rightarrow> (Ok bs, b))"

definition ns_write :: "nat \<Rightarrow> byte list \<Rightarrow> u64 \<Rightarrow> ('ns btt, unit) prog" where
  "ns_write lane buf off b =
     (case nswrite (ns_cbp b) (ns b) lane buf off of
        (Some e, ns') \<Rightarrow> (Err e, b\<lparr>ns := ns'\<rparr>)
      | (None, ns') \<Rightarrow> (Ok (), b\<lparr>ns := ns'\<rparr>))"

definition ns_zero :: "nat \<Rightarrow> u64 \<Rightarrow> u64 \<Rightarrow> ('ns btt, unit) prog" where
  "ns_zero lane count off b =
     (case nszero (ns_cbp b) (ns b) lane count off of
        (Some e, ns') \<Rightarrow> (Err e, b\<lparr>ns := ns'\<rparr>)
      | (None, ns') \<Rightarrow> (Ok (), b\<lparr>ns := ns'\<rparr>))"

text \<open>Running a step on the handle alone, and on the arena a pointer designates.\<close>

definition on_btt :: "('ns btt, 'a) prog \<Rightarrow> (arena \<times> 'ns btt, 'a) prog" where
  "on_btt p s = (case s of (a, b) \<Rightarrow> case p b of (r, b') \<Rightarrow> (r, (a, b')))"

definition with_arena :: "nat \<Rightarrow> (arena \<times> 'ns btt, 'a) prog \<Rightarrow> ('ns btt, 'a) prog" where
  "with_arena i p b =
     (case p (arenas b ! i, b) of (r, (a, b')) \<Rightarrow> (r, b'\<lparr>arenas := (arenas b')[i := a]\<rparr>))"

definition upd_arena :: "(arena \<Rightarrow> arena) \<Rightarrow> (arena \<times> 'ns btt, unit) prog" where
  "upd_arena f = update (\<lambda>(a, b). (f a, b))"

section \<open>Reading the layout\<close>

definition invalid_lba :: "'ns btt \<Rightarrow> u64 \<Rightarrow> bool" where
  "invalid_lba b lba \<longleftrightarrow> nlba b \<le> lba"

definition read_info :: "'ns btt \<Rightarrow> byte list \<Rightarrow> btt_info option" where
  "read_info b bs =
     (let info = info_of_bytes bs in
      if info_sig info \<noteq> Sig then None
      else if info_parent_uuid info \<noteq> parent_uuid b then None
      else if \<not> fst (util_checksum bs BTT_INFO_CSUM False) then None
      else if info_major info = 0 then None
      else Some info)"

definition map_entry_off :: "arena \<Rightarrow> u32 \<Rightarrow> u64" where
  "map_entry_off a premap_lba = mapoff a + ucast (BTT_MAP_ENTRY_SIZE * premap_lba)"

text \<open>Which entry of a pair is current and which slot is written next; no valid choice is an error.\<close>

definition flog_current :: "btt_flog \<Rightarrow> btt_flog \<Rightarrow> (btt_flog \<times> nat) option" where
  "flog_current f0 f1 =
     (if flog_seq f0 = flog_seq f1 then None
      else if flog_seq f0 = 0 then Some (f1, 0)
      else if flog_seq f1 = 0 then Some (f0, 1)
      else if NSEQ (flog_seq f0) = flog_seq f1 then Some (f1, 0)
      else Some (f0, 1))"

definition flog_recover :: "nat \<Rightarrow> btt_flog \<Rightarrow> (arena \<times> 'ns btt, unit) prog" where
  "flog_recover lane cur = (\<lambda>(a, b).
     (if flog_old_map cur = flog_new_map cur then ret () (a, b)
      else
        let off = map_entry_off a (flog_lba cur) in
        andthen (on_btt (ns_read lane 4 off)) (\<lambda>bs.
          let e = le_dec bs;
              entry = (if map_entry_is_initial e then flog_lba cur OR BTT_MAP_ENTRY_NORMAL else e) in
          if flog_new_map cur \<noteq> entry \<and> flog_old_map cur = entry
          then on_btt (ns_write lane (le_enc 4 (flog_new_map cur)) off)
          else ret ()) (a, b)))"

definition read_flog_pair :: "nat \<Rightarrow> u64 \<Rightarrow> (arena \<times> 'ns btt, flog_runtime) prog" where
  "read_flog_pair lane flog_off = (\<lambda>(a, b).
     (let frt = zero_frt\<lparr>frt_entries := [flog_off, flog_off + 16]\<rparr> in
      if unat (nfree b) \<le> lane then fail EINVAL (a, b)
      else if flog_off = 0 then fail EINVAL (a, b)
      else
        andthen (on_btt (ns_read lane 32 flog_off)) (\<lambda>bs.
          let f0 = flog_at bs 0; f1 = flog_at bs 16 in
          if invalid_lba b (ucast (flog_lba f0)) then fail EINVAL
          else if invalid_lba b (ucast (flog_lba f1)) then fail EINVAL
          else
            case flog_current f0 f1 of
              None \<Rightarrow>
                andthen (upd_arena (\<lambda>a. a\<lparr>arena_flags := arena_flags a OR BTTINFO_FLAG_ERROR\<rparr>))
                  (\<lambda>_. ret frt)
            | Some (cur, nxt) \<Rightarrow>
                andthen (flog_recover lane cur)
                  (\<lambda>_. ret (frt\<lparr>frt_next := nxt, frt_flog := cur\<rparr>))) (a, b)))"

section \<open>The flog\<close>

definition flog_update :: "nat \<Rightarrow> u32 \<Rightarrow> u32 \<Rightarrow> u32 \<Rightarrow> (arena \<times> 'ns btt, unit) prog" where
  "flog_update lane lba old_map new_map = (\<lambda>(a, b).
     (let frt = flogs a ! lane;
          seq = NSEQ (flog_seq (frt_flog frt));
          new_flog = \<lparr>flog_lba = lba, flog_old_map = old_map, flog_new_map = new_map, flog_seq = seq\<rparr>;
          off = frt_entries frt ! frt_next frt in
      if length (flogs a) \<le> lane then stuck (a, b)
      else
        andthen (on_btt (ns_write lane (take 8 (bytes_of_flog new_flog)) off)) (\<lambda>_.
        andthen (on_btt (ns_write lane (drop 8 (bytes_of_flog new_flog)) (off + 8))) (\<lambda>_.
        upd_arena (\<lambda>a. a\<lparr>flogs := (flogs a)[lane := frt\<lparr>frt_next := 1 - frt_next frt, frt_flog := new_flog\<rparr>]\<rparr>)))
          (a, b)))"

section \<open>Arena flags\<close>

definition arena_setf :: "nat \<Rightarrow> u32 \<Rightarrow> (arena \<times> 'ns btt, unit) prog" where
  "arena_setf lane setf =
     andthen (upd_arena (\<lambda>a. a\<lparr>arena_flags := arena_flags a OR setf\<rparr>)) (\<lambda>_ (a, b).
       if \<not> laidout b then ret () (a, b)
       else
         andthen (on_btt (ns_read lane 4096 (startoff a))) (\<lambda>bs.
           let infooff = le_at 8 bs 96;
               flagged = take 32 bs @ le_enc 4 (le_at 4 bs 32 OR setf) @ drop 36 bs;
               info = with_csum BTT_INFO_CSUM flagged in
           andthen (on_btt (ns_write lane info (startoff a))) (\<lambda>_.
             on_btt (ns_write lane info (startoff a + infooff)))) (a, b))"

definition set_arena_error :: "nat \<Rightarrow> (arena \<times> 'ns btt, unit) prog" where
  "set_arena_error lane = arena_setf lane BTTINFO_FLAG_ERROR"

section \<open>Building the run-time state\<close>

fun read_flogs_loop :: "nat \<Rightarrow> nat \<Rightarrow> u64 \<Rightarrow> (arena \<times> 'ns btt, flog_runtime list) prog" where
  "read_flogs_loop lane 0 flog_off s = (Ok [], s)"
| "read_flogs_loop lane (Suc n) flog_off s =
     (case read_flog_pair lane flog_off s of
        (Ok frt, s') \<Rightarrow>
          andthen (read_flogs_loop lane n (flog_off + roundup 32 BTT_FLOG_PAIR_ALIGN))
            (\<lambda>frts. ret (frt # frts)) s'
      | (Err e, s') \<Rightarrow> andthen (set_arena_error lane) (\<lambda>_. fail e) s'
      | (Stuck, s') \<Rightarrow> (Stuck, s'))"

definition read_flogs :: "nat \<Rightarrow> (arena \<times> 'ns btt, unit) prog" where
  "read_flogs lane = (\<lambda>(a, b).
     andthen (read_flogs_loop lane (unat (nfree b)) (flogoff a)) (\<lambda>frts.
       upd_arena (\<lambda>a. a\<lparr>flogs := frts\<rparr>)) (a, b))"

definition build_rtt :: "(arena \<times> 'ns btt, unit) prog" where
  "build_rtt = (\<lambda>(a, b). (Ok (), (a\<lparr>rtt := replicate (unat (nfree b)) BTT_MAP_ENTRY_ERROR\<rparr>, b)))"

definition read_arena :: "nat \<Rightarrow> u64 \<Rightarrow> (arena \<times> 'ns btt, unit) prog" where
  "read_arena lane arena_off =
     andthen (on_btt (ns_read lane 4096 arena_off)) (\<lambda>bs.
       let info = info_of_bytes bs in
       andthen (upd_arena (\<lambda>a. a\<lparr>
           arena_flags := info_flags info,
           external_nlba := info_external_nlba info,
           internal_lbasize := info_internal_lbasize info,
           internal_nlba := info_internal_nlba info,
           startoff := arena_off,
           dataoff := arena_off + info_dataoff info,
           mapoff := arena_off + info_mapoff info,
           flogoff := arena_off + info_flogoff info,
           nextoff := arena_off + info_nextoff info\<rparr>)) (\<lambda>_.
       andthen (read_flogs lane) (\<lambda>_.
       build_rtt)))"

fun read_arenas_loop :: "nat \<Rightarrow> nat \<Rightarrow> u64 \<Rightarrow> ('ns btt, arena list) prog" where
  "read_arenas_loop lane 0 arena_off b = (Ok [], b)"
| "read_arenas_loop lane (Suc n) arena_off b =
     (case read_arena lane arena_off (zero_arena, b) of
        (Ok _, (a, b')) \<Rightarrow>
          andthen (read_arenas_loop lane n (nextoff a)) (\<lambda>as. ret (a # as)) b'
      | (Err e, (a, b')) \<Rightarrow> (Err e, b')
      | (Stuck, (a, b')) \<Rightarrow> (Stuck, b'))"

text \<open>On an error the arenas read so far are freed and the pointer is reset to \<open>NULL\<close>.\<close>

definition read_arenas :: "nat \<Rightarrow> nat \<Rightarrow> ('ns btt, unit) prog" where
  "read_arenas lane n b =
     (case read_arenas_loop lane n 0 b of
        (Ok as, b') \<Rightarrow> (Ok (), b'\<lparr>arenas := as, laidout := True\<rparr>)
      | (Err e, b') \<Rightarrow> (Err e, b'\<lparr>arenas := []\<rparr>)
      | (Stuck, b') \<Rightarrow> (Stuck, b'))"

section \<open>Writing the layout\<close>

fun layout_flogs :: "nat \<Rightarrow> nat \<Rightarrow> u64 \<Rightarrow> u32 \<Rightarrow> ('ns btt, unit) prog" where
  "layout_flogs lane 0 off next_free_lba b = (Ok (), b)"
| "layout_flogs lane (Suc n) off next_free_lba b =
     (let e = next_free_lba OR BTT_MAP_ENTRY_ZERO;
          flog = \<lparr>flog_lba = 0, flog_old_map = e, flog_new_map = e, flog_seq = 1\<rparr> in
      andthen (ns_write lane (bytes_of_flog flog) off) (\<lambda>_.
      andthen (ns_write lane (bytes_of_flog Zflog) (off + 16)) (\<lambda>_.
        layout_flogs lane n (roundup (off + 16 + 16) BTT_FLOG_PAIR_ALIGN) (next_free_lba + 1))) b)"

definition layout_info :: "'ns btt \<Rightarrow> u32 \<Rightarrow> u32 \<Rightarrow> u32 \<Rightarrow> u64 \<Rightarrow> u64 \<Rightarrow> u64 \<Rightarrow> u64 \<Rightarrow> u64 \<Rightarrow> btt_info" where
  "layout_info b ilbasize inlba enlba noff doff moff foff ioff = \<lparr>
     info_sig = Sig,
     info_parent_uuid = parent_uuid b,
     info_flags = 0,
     info_major = BTTINFO_MAJOR_VERSION,
     info_minor = BTTINFO_MINOR_VERSION,
     info_external_lbasize = lbasize b,
     info_external_nlba = enlba,
     info_internal_lbasize = ilbasize,
     info_internal_nlba = inlba,
     info_nfree = nfree b,
     info_infosize = 4096,
     info_nextoff = noff,
     info_dataoff = doff,
     info_mapoff = moff,
     info_flogoff = foff,
     info_infooff = ioff,
     info_unused = replicate 3984 0,
     info_checksum = 0\<rparr>"

text \<open>
  The part of the loop body that writes one arena.  \<open>nszero\<close> is called with the map's
  offset inside the arena, as the source does, and not with its offset in the namespace.
  The result is \<open>nextoff\<close>.
\<close>

definition layout_arena :: "nat \<Rightarrow> u64 \<Rightarrow> u32 \<Rightarrow> u64 \<Rightarrow> u64 \<Rightarrow> u64 \<Rightarrow> u64 \<Rightarrow> ('ns btt, u64) prog" where
  "layout_arena lane flog_size ilbasize rest arena_rawsize inlba arena_off b =
     (let enlba = inlba - ucast (nfree b);
          mapsize = roundup (enlba * ucast BTT_MAP_ENTRY_SIZE) BTT_ALIGNMENT;
          datasize = arena_rawsize - 2 * 4096 - flog_size - mapsize;
          noff = (if BTT_MIN_SIZE \<le> rest then arena_rawsize else 0);
          ioff = arena_rawsize - 4096;
          foff = ioff - flog_size;
          moff = foff - mapsize;
          doff = 4096;
          info = with_csum BTT_INFO_CSUM (bytes_of_info
            (layout_info b ilbasize (ucast inlba) (ucast enlba) noff doff moff foff ioff)) in
      andthen (assert (inlba \<le> datasize div ucast ilbasize)) (\<lambda>_.
      andthen (assert (datasize = moff - doff)) (\<lambda>_.
      andthen (if ns_is_zeroed (ns_cbp b) then ret () else ns_zero lane mapsize moff) (\<lambda>_.
      andthen (layout_flogs lane (unat (nfree b)) (arena_off + foff) (ucast enlba)) (\<lambda>_.
      andthen (ns_write lane info arena_off) (\<lambda>_.
      andthen (ns_write lane info (arena_off + ioff)) (\<lambda>_.
      ret noff)))))) b)"

lemma layout_rest_less:
  "\<not> rsize < BTT_MIN_SIZE \<Longrightarrow>
   unat (rsize - (if BTT_MAX_ARENA < rsize then BTT_MAX_ARENA else rsize)) < unat rsize"
  using unat_sub [of BTT_MAX_ARENA rsize] by (auto simp: btt_consts word_less_nat_alt word_le_nat_alt)

function layout_loop :: "nat \<Rightarrow> bool \<Rightarrow> u64 \<Rightarrow> u32 \<Rightarrow> u64 \<Rightarrow> u64 \<Rightarrow> u64 \<Rightarrow> nat \<Rightarrow> 'ns btt \<Rightarrow>
    (u64 \<times> nat) outcome \<times> 'ns btt" where
  "layout_loop lane write flog_size ilbasize rsize arena_off total_nlba arena_num b =
     (if rsize < BTT_MIN_SIZE then (Ok (total_nlba, arena_num), b)
      else
        let arena_rawsize = (if BTT_MAX_ARENA < rsize then BTT_MAX_ARENA else rsize);
            rest = rsize - arena_rawsize;
            datasize = arena_rawsize - 2 * 4096 - flog_size;
            inlba = (datasize - BTT_ALIGNMENT) div ucast (ilbasize + BTT_MAP_ENTRY_SIZE) in
        if inlba < ucast (2 * nfree b) then (Err EINVAL, b)
        else
          let total' = total_nlba + (inlba - ucast (nfree b)) in
          if \<not> write then
            layout_loop lane write flog_size ilbasize rest arena_off total' (Suc arena_num) b
          else
            (case layout_arena lane flog_size ilbasize rest arena_rawsize inlba arena_off b of
               (Ok noff, b') \<Rightarrow>
                 layout_loop lane write flog_size ilbasize rest (arena_off + noff) total' (Suc arena_num) b'
             | (Err e, b') \<Rightarrow> (Err e, b')
             | (Stuck, b') \<Rightarrow> (Stuck, b')))"
  by pat_completeness auto
termination
  by (relation "measure (\<lambda>(lane, write, flog_size, ilbasize, rsize, arena_off, total_nlba, arena_num, b). unat rsize)")
    (use layout_rest_less in auto)

declare layout_loop.simps [simp del]

text \<open>\<open>flog_size\<close> is an \<open>int\<close> of the source, so it is a signed 32-bit value.\<close>

definition layout_flog_size :: "u32 \<Rightarrow> u64" where
  "layout_flog_size n =
     scast (roundup (ucast (ucast n * roundup 32 BTT_FLOG_PAIR_ALIGN) :: u32) (ucast BTT_ALIGNMENT))"

definition layout_internal_lbasize :: "u32 \<Rightarrow> u32" where
  "layout_internal_lbasize lbsize =
     roundup (if lbsize < BTT_MIN_LBA_SIZE then BTT_MIN_LBA_SIZE else lbsize) BTT_INTERNAL_LBA_ALIGNMENT"

definition write_layout :: "nat \<Rightarrow> bool \<Rightarrow> ('ns btt, unit) prog" where
  "write_layout lane write =
     andthen (gets id) (\<lambda>b.
     andthen (assert (BTT_MIN_SIZE \<le> rawsize b)) (\<lambda>_.
     andthen (assert (nfree b \<noteq> 0)) (\<lambda>_.
     let n = unat (rawsize b div BTT_MAX_ARENA) +
             (if BTT_MIN_SIZE \<le> rawsize b mod BTT_MAX_ARENA then 1 else 0);
         ilbasize = layout_internal_lbasize (lbasize b) in
     andthen (update (narena_update (\<lambda>_. n))) (\<lambda>_.
     if ilbasize < BTT_INTERNAL_LBA_ALIGNMENT then fail EINVAL
     else
       andthen (layout_loop lane write (layout_flog_size (nfree b)) ilbasize (rawsize b) 0 0 0)
         (\<lambda>(total_nlba, arena_num).
       andthen (assert (n = arena_num)) (\<lambda>_.
       andthen (update (nlba_update (\<lambda>_. total_nlba))) (\<lambda>_.
       if write then read_arenas lane n else ret ())))))))"

section \<open>Opening a namespace\<close>

text \<open>The scan of the info blocks: no layout, an error, or the totals over the arenas.\<close>

datatype scan = NoLayout | Layout nat u32 u64

function read_layout_loop :: "nat \<Rightarrow> u64 \<Rightarrow> u64 \<Rightarrow> nat \<Rightarrow> u32 \<Rightarrow> u64 \<Rightarrow> 'ns btt \<Rightarrow> scan outcome \<times> 'ns btt" where
  "read_layout_loop lane rsize arena_off n smallest_nfree total_nlba b =
     (if rsize < BTT_MIN_SIZE then (Ok (Layout n smallest_nfree total_nlba), b)
      else
        case ns_read lane 4096 arena_off b of
          (Err e, b') \<Rightarrow> (Err e, b')
        | (Stuck, b') \<Rightarrow> (Stuck, b')
        | (Ok bs, b') \<Rightarrow>
            (case read_info b' bs of
               None \<Rightarrow> (Ok NoLayout, b')
             | Some info \<Rightarrow>
                 if info_external_lbasize info \<noteq> lbasize b' then (Err EINVAL, b')
                 else if info_nfree info = 0 then (Err EINVAL, b')
                 else if info_external_nlba info = 0 then (Err EINVAL, b')
                 else if info_nextoff info \<noteq> 0 \<and> info_nextoff info \<noteq> BTT_MAX_ARENA then (Err EINVAL, b')
                 else
                   let nfree' = (if info_nfree info < smallest_nfree then info_nfree info else smallest_nfree);
                       total' = total_nlba + ucast (info_external_nlba info) in
                   if info_nextoff info = 0 then (Ok (Layout (Suc n) nfree' total'), b')
                   else if rsize < info_nextoff info then (Err EINVAL, b')
                   else read_layout_loop lane (rsize - info_nextoff info) (arena_off + info_nextoff info)
                          (Suc n) nfree' total' b'))"
  by pat_completeness auto
termination
proof (relation "measure (\<lambda>(lane, rsize, arena_off, n, smallest_nfree, total_nlba, b). unat rsize)", goal_cases)
  case (2 lane rsize)
  then show ?case
    using unat_sub [of BTT_MAX_ARENA rsize] by (auto simp: btt_consts word_less_nat_alt word_le_nat_alt)
qed simp

declare read_layout_loop.simps [simp del]

definition read_layout :: "nat \<Rightarrow> ('ns btt, unit) prog" where
  "read_layout lane =
     andthen (gets id) (\<lambda>b.
     andthen (assert (BTT_MIN_SIZE \<le> rawsize b)) (\<lambda>_.
     andthen (update (nfree_update (\<lambda>_. BTT_DEFAULT_NFREE))) (\<lambda>_.
     andthen (read_layout_loop lane (rawsize b) 0 0 (- 1) 0) (\<lambda>r.
     case r of
       NoLayout \<Rightarrow> write_layout lane False
     | Layout n smallest_nfree total_nlba \<Rightarrow>
         andthen (assert (n \<noteq> 0)) (\<lambda>_.
         andthen (update (narena_update (\<lambda>_. n))) (\<lambda>_.
         andthen (update (nlba_update (\<lambda>_. total_nlba))) (\<lambda>_.
         andthen (update (nfree_update (\<lambda>m. if smallest_nfree < m then smallest_nfree else m))) (\<lambda>_.
         read_arenas lane n))))))))"

definition fresh_btt :: "u64 \<Rightarrow> u32 \<Rightarrow> byte list \<Rightarrow> 'ns \<Rightarrow> 'ns ns_callback \<Rightarrow> 'ns btt" where
  "fresh_btt rsize lbsize uuid n cb = \<lparr>nlane = 0, laidout = False, parent_uuid = uuid, rawsize = rsize,
     lbasize = lbsize, nfree = 0, nlba = 0, narena = 0, arenas = [], ns = n, ns_cbp = cb\<rparr>"

definition btt_init :: "u64 \<Rightarrow> u32 \<Rightarrow> byte list \<Rightarrow> nat \<Rightarrow> 'ns \<Rightarrow> 'ns ns_callback \<Rightarrow> 'ns btt outcome \<times> 'ns" where
  "btt_init rsize lbsize uuid maxlane n cb =
     (if rsize < BTT_MIN_SIZE then (Err EINVAL, n)
      else
        case read_layout 0 (fresh_btt rsize lbsize uuid n cb) of
          (Ok _, b) \<Rightarrow>
            (Ok (b\<lparr>nlane := (if maxlane \<noteq> 0 \<and> maxlane < unat (nfree b) then maxlane else unat (nfree b))\<rparr>),
             ns b)
        | (Err e, b) \<Rightarrow> (Err e, ns b)
        | (Stuck, b) \<Rightarrow> (Stuck, ns b))"

definition btt_nlane :: "'ns btt \<Rightarrow> nat" where
  "btt_nlane b = nlane b"

definition btt_nlba :: "'ns btt \<Rightarrow> u64" where
  "btt_nlba b = nlba b"

section \<open>Reading a block\<close>

definition zero_block :: "'ns btt \<Rightarrow> byte list" where
  "zero_block b = replicate (unat (lbasize b)) 0"

fun find_arena :: "arena list \<Rightarrow> nat \<Rightarrow> u64 \<Rightarrow> (nat \<times> u64) option" where
  "find_arena [] i lba = None"
| "find_arena (a # as) i lba =
     (if lba < ucast (external_nlba a) then Some (i, lba)
      else find_arena as (Suc i) (lba - ucast (external_nlba a)))"

definition lba_to_arena_lba :: "u64 \<Rightarrow> ('ns btt, nat \<times> u32) prog" where
  "lba_to_arena_lba lba =
     andthen (gets id) (\<lambda>b.
     andthen (assert (laidout b)) (\<lambda>_.
     case find_arena (take (narena b) (arenas b)) 0 lba of
       None \<Rightarrow> stuck
     | Some (i, l) \<Rightarrow> ret (i, ucast l)))"

text \<open>
  The retry loop of \<open>btt_read\<close>.  The result is the entry whose block may be read, or
  \<open>None\<close> for a block of zeros.  Each retry means another thread changed the map entry
  between two reads of it; the fuel bounds the number of retries followed.
\<close>

fun btt_read_loop :: "nat \<Rightarrow> nat \<Rightarrow> u64 \<Rightarrow> u32 \<Rightarrow> (arena \<times> 'ns btt, u32 option) prog" where
  "btt_read_loop 0 lane off entry s = (Stuck, s)"
| "btt_read_loop (Suc fuel) lane off entry (a, b) =
     (if map_entry_is_error entry then (Err EIO, (a, b))
      else if map_entry_is_zero_or_initial entry then (Ok None, (a, b))
      else if length (rtt a) \<le> lane then (Stuck, (a, b))
      else
        let a1 = a\<lparr>rtt := (rtt a)[lane := entry]\<rparr> in
        case ns_read lane 4 off b of
          (Err e, b') \<Rightarrow> (Err e, (a1\<lparr>rtt := (rtt a1)[lane := BTT_MAP_ENTRY_ERROR]\<rparr>, b'))
        | (Stuck, b') \<Rightarrow> (Stuck, (a1, b'))
        | (Ok bs, b') \<Rightarrow>
            let latest_entry = le_dec bs in
            if entry = latest_entry then (Ok (Some entry), (a1, b'))
            else btt_read_loop fuel lane off latest_entry (a1, b'))"

definition btt_read_fuel :: nat where
  "btt_read_fuel = 2"

definition data_block_off :: "arena \<Rightarrow> u32 \<Rightarrow> u64" where
  "data_block_off a n = dataoff a + ucast (n * internal_lbasize a)"

definition btt_read :: "nat \<Rightarrow> u64 \<Rightarrow> ('ns btt, byte list) prog" where
  "btt_read lane lba =
     andthen (gets id) (\<lambda>b0.
     if invalid_lba b0 lba then fail EINVAL
     else if \<not> laidout b0 then ret (zero_block b0)
     else
       andthen (lba_to_arena_lba lba) (\<lambda>(i, premap_lba).
       with_arena i (\<lambda>(a, b).
         let off = map_entry_off a premap_lba in
         andthen (on_btt (ns_read lane 4 off)) (\<lambda>bs.
         andthen (btt_read_loop btt_read_fuel lane off (le_dec bs)) (\<lambda>r.
         case r of
           None \<Rightarrow> ret (zero_block b)
         | Some entry \<Rightarrow> (\<lambda>(a, b).
             (case ns_read lane (ucast (lbasize b)) (data_block_off a entry) b of
                (res, b') \<Rightarrow> (res, (a\<lparr>rtt := (rtt a)[lane := BTT_MAP_ENTRY_ERROR]\<rparr>, b')))))) (a, b))))"

section \<open>The map\<close>

definition map_lock :: "nat \<Rightarrow> arena \<Rightarrow> u32 \<Rightarrow> ('ns btt, u32) prog" where
  "map_lock lane a premap_lba =
     andthen (ns_read lane 4 (map_entry_off a premap_lba)) (\<lambda>bs.
       let entry = le_dec bs in
       ret (if map_entry_is_initial entry then premap_lba OR BTT_MAP_ENTRY_NORMAL else entry))"

definition map_abort :: "nat \<Rightarrow> arena \<Rightarrow> u32 \<Rightarrow> ('ns btt, unit) prog" where
  "map_abort lane a premap_lba = ret ()"

definition map_unlock :: "nat \<Rightarrow> arena \<Rightarrow> u32 \<Rightarrow> u32 \<Rightarrow> ('ns btt, unit) prog" where
  "map_unlock lane a entry premap_lba = ns_write lane (le_enc 4 entry) (map_entry_off a premap_lba)"

text \<open>The part of every writing entry point that lays the metadata out on first use.\<close>

definition ensure_layout :: "nat \<Rightarrow> ('ns btt, unit) prog" where
  "ensure_layout lane = andthen (gets laidout) (\<lambda>l. if l then ret () else write_layout lane True)"

section \<open>Writing a block\<close>

text \<open>Everything after the arena is found.\<close>

definition btt_write_arena :: "nat \<Rightarrow> u32 \<Rightarrow> byte list \<Rightarrow> (arena \<times> 'ns btt, unit) prog" where
  "btt_write_arena lane premap_lba buf = (\<lambda>(a, b).
     if arena_flags a AND BTTINFO_FLAG_ERROR_MASK \<noteq> 0 then fail EIO (a, b)
     else if length (flogs a) \<le> lane then stuck (a, b)
     else
       let free_entry = entry_lba (flog_old_map (frt_flog (flogs a ! lane))) OR BTT_MAP_ENTRY_NORMAL in
       if free_entry \<in> set (take (nlane b) (rtt a)) then stuck (a, b)
       else
         andthen (on_btt (ns_write lane buf (data_block_off a (entry_lba free_entry)))) (\<lambda>_.
         andthen (on_btt (map_lock lane a premap_lba)) (\<lambda>old_entry s.
         case flog_update lane premap_lba old_entry free_entry s of
           (Ok _, s') \<Rightarrow>
             (case on_btt (map_unlock lane a free_entry premap_lba) s' of
                (Err e, s'') \<Rightarrow>
                  (case set_arena_error lane s'' of
                     (Stuck, s3) \<Rightarrow> (Stuck, s3)
                   | (_, s3) \<Rightarrow> (Err EIO, s3))
              | r \<Rightarrow> r)
         | (Err e, s') \<Rightarrow> andthen (on_btt (map_abort lane a premap_lba)) (\<lambda>_. fail e) s'
         | (Stuck, s') \<Rightarrow> (Stuck, s'))) (a, b))"

definition btt_write :: "nat \<Rightarrow> u64 \<Rightarrow> byte list \<Rightarrow> ('ns btt, unit) prog" where
  "btt_write lane lba buf =
     andthen (gets id) (\<lambda>b0.
     if invalid_lba b0 lba then fail EINVAL
     else
       andthen (ensure_layout lane) (\<lambda>_.
       andthen (lba_to_arena_lba lba) (\<lambda>(i, premap_lba).
       with_arena i (btt_write_arena lane premap_lba (take (unat (lbasize b0)) buf)))))"

section \<open>Marking blocks\<close>

definition map_entry_setf_arena :: "nat \<Rightarrow> u32 \<Rightarrow> u32 \<Rightarrow> (arena \<times> 'ns btt, unit) prog" where
  "map_entry_setf_arena lane premap_lba setf = (\<lambda>(a, b).
     if arena_flags a AND BTTINFO_FLAG_ERROR_MASK \<noteq> 0 then fail EIO (a, b)
     else
       on_btt (andthen (map_lock lane a premap_lba) (\<lambda>old_entry.
         if setf = BTT_MAP_ENTRY_ZERO \<and> map_entry_is_zero_or_initial old_entry
         then map_abort lane a premap_lba
         else map_unlock lane a (entry_lba old_entry OR setf) premap_lba)) (a, b))"

definition map_entry_setf :: "nat \<Rightarrow> u64 \<Rightarrow> u32 \<Rightarrow> ('ns btt, unit) prog" where
  "map_entry_setf lane lba setf =
     andthen (gets id) (\<lambda>b0.
     if invalid_lba b0 lba then fail EINVAL
     else if \<not> laidout b0 \<and> setf = BTT_MAP_ENTRY_ZERO then ret ()
     else
       andthen (ensure_layout lane) (\<lambda>_.
       andthen (lba_to_arena_lba lba) (\<lambda>(i, premap_lba).
       with_arena i (map_entry_setf_arena lane premap_lba setf))))"

definition btt_set_zero :: "nat \<Rightarrow> u64 \<Rightarrow> ('ns btt, unit) prog" where
  "btt_set_zero lane lba = map_entry_setf lane lba BTT_MAP_ENTRY_ZERO"

definition btt_set_error :: "nat \<Rightarrow> u64 \<Rightarrow> ('ns btt, unit) prog" where
  "btt_set_error lane lba = map_entry_setf lane lba BTT_MAP_ENTRY_ERROR"

section \<open>Consistency check\<close>

text \<open>
  The bitmap has \<open>howmany(internal_nlba, 8)\<close> bytes.  The first loop walks the map through
  \<open>nsmap\<close> windows: \<open>win\<close> is the mapped window, \<open>remaining\<close> what is left of
  it.  An access outside the window or the bitmap is \<open>Stuck\<close>.
\<close>

definition bitmap_add :: "bool list \<times> bool \<Rightarrow> nat \<Rightarrow> (bool list \<times> bool) option" where
  "bitmap_add bc n = (case bc of (bitmap, consistent) \<Rightarrow>
     if length bitmap \<le> n then None
     else if bitmap ! n then Some (bitmap, False)
     else Some (bitmap[n := True], consistent))"

fun check_map_loop :: "nat \<Rightarrow> nat \<Rightarrow> arena \<Rightarrow> byte list \<Rightarrow> nat \<Rightarrow> int \<Rightarrow> u64 \<Rightarrow> bool list \<times> bool \<Rightarrow>
    ('ns btt, bool list \<times> bool) prog" where
  "check_map_loop 0 i a win next_index remaining off bc b = (Ok bc, b)"
| "check_map_loop (Suc n) i a win next_index remaining off bc b =
     (let mapped = (if remaining = 0
            then map_sum id (\<lambda>w. (w, 0, int (length w)))
                   (nsmap (ns_cbp b) (ns b) 0 (ucast ((external_nlba a - of_nat i) :: u32) * 4) off)
            else Inr (win, next_index, remaining)) in
      case mapped of
        Inl e \<Rightarrow> (Err e, b)
      | Inr (win, next_index, remaining) \<Rightarrow>
          if length win < 4 * next_index + 4 then (Stuck, b)
          else
            let e = le_at 4 win (4 * next_index);
                entry = (if map_entry_is_initial e then of_nat i else entry_lba e) in
            if internal_nlba a \<le> entry then (Err EINVAL, b)
            else
              (case bitmap_add bc (unat entry) of
                 None \<Rightarrow> (Stuck, b)
               | Some bc' \<Rightarrow> check_map_loop n (Suc i) a win (Suc next_index) (remaining - 4) (off + 4) bc' b))"

fun check_flog_loop :: "flog_runtime list \<Rightarrow> bool list \<times> bool \<Rightarrow> (bool list \<times> bool) option" where
  "check_flog_loop [] bc = Some bc"
| "check_flog_loop (f # fs) bc =
     (case bitmap_add bc (unat (entry_lba (flog_old_map (frt_flog f)))) of
        None \<Rightarrow> None
      | Some bc' \<Rightarrow> check_flog_loop fs bc')"

definition check_arena :: "arena \<Rightarrow> ('ns btt, bool) prog" where
  "check_arena a b =
     (let nbits = (unat (internal_nlba a) + 7) div 8 * 8 in
      andthen (check_map_loop (unat (external_nlba a)) 0 a [] 0 0 (mapoff a) (replicate nbits False, True)) (\<lambda>bc.
      case check_flog_loop (take (unat (nfree b)) (flogs a)) bc of
        None \<Rightarrow> stuck
      | Some (bitmap, consistent) \<Rightarrow>
          ret (consistent \<and> list_all id (take (unat (internal_nlba a)) bitmap))) b)"

text \<open>The loop of the source never advances \<open>arenap\<close>: it checks the first arena each time.\<close>

fun btt_check_loop :: "nat \<Rightarrow> bool \<Rightarrow> ('ns btt, bool) prog" where
  "btt_check_loop 0 consistent b = (Ok consistent, b)"
| "btt_check_loop (Suc n) consistent b =
     andthen (check_arena (arenas b ! 0)) (\<lambda>r. btt_check_loop n (consistent \<and> r)) b"

definition btt_check :: "('ns btt, bool) prog" where
  "btt_check =
     andthen (gets id) (\<lambda>b. if \<not> laidout b then ret True else btt_check_loop (narena b) True)"

end
