(* ===== verification/Btt_Facts.thy ===== *)
theory Btt_Facts
  imports Btt
begin

text \<open>
  Facts about single definitions of the block translation table that need no invariant: the arena
  lookup, the choice between the two entries of a flog pair, the info block that the layout
  writes and reads back, and the byte offset of a block.
\<close>

lemma find_arena_sum:
  "unat lba < sum_list (map (\<lambda>a. unat (external_nlba a)) as) \<Longrightarrow>
   \<exists>j l. find_arena as i lba = Some (i + j, l) \<and> j < length as \<and> unat l < unat (external_nlba (as ! j)) \<and>
     sum_list (map (\<lambda>a. unat (external_nlba a)) (take j as)) + unat l = unat lba"
proof (induction as arbitrary: i lba)
  case (Cons a as)
  show ?case
  proof (cases "lba < ucast (external_nlba a)")
    case True
    then show ?thesis by (intro exI [of _ 0] exI [of _ lba]) (simp add: word_less_nat_alt unat_ucast_32_64)
  next
    case False
    then have sub: "unat (lba - ucast (external_nlba a)) = unat lba - unat (external_nlba a)"
      "unat (external_nlba a) \<le> unat lba"
      using unat_sub [of "ucast (external_nlba a)" lba] by (auto simp: not_less word_le_nat_alt unat_ucast_32_64)
    then have "unat (lba - ucast (external_nlba a)) < sum_list (map (\<lambda>a. unat (external_nlba a)) as)"
      using Cons.prems by simp
    from Cons.IH [OF this, of "Suc i"] obtain j l where
      "find_arena as (Suc i) (lba - ucast (external_nlba a)) = Some (Suc i + j, l)" "j < length as"
      "unat l < unat (external_nlba (as ! j))"
      "sum_list (map (\<lambda>a. unat (external_nlba a)) (take j as)) + unat l = unat (lba - ucast (external_nlba a))" by blast
    then show ?thesis
      using False sub by (intro exI [of _ "Suc j"] exI [of _ l]) simp
  qed
qed simp

text \<open>
  The arena lookup of every block operation: a block number below the total maps to the arena
  that holds it and to its number inside that arena, which together give the block number back.
\<close>

theorem arena_lookup_correct:
  assumes "laidout b" and "narena b = length (arenas b)"
    and "unat lba < sum_list (map (\<lambda>a. unat (external_nlba a)) (arenas b))"
  shows "\<exists>i l. lba_to_arena_lba lba b = (Ok (i, l), b) \<and> i < narena b \<and>
    unat l < unat (external_nlba (arenas b ! i)) \<and>
    sum_list (map (\<lambda>a. unat (external_nlba a)) (take i (arenas b))) + unat l = unat lba"
proof -
  obtain j l where j: "find_arena (arenas b) 0 lba = Some (j, l)" "j < length (arenas b)"
    "unat l < unat (external_nlba (arenas b ! j))"
    "sum_list (map (\<lambda>a. unat (external_nlba a)) (take j (arenas b))) + unat l = unat lba"
    using find_arena_sum [OF assms(3), of 0] by auto
  have "unat (ucast l :: u32) = unat l"
    using j(3) unat_bound [of "external_nlba (arenas b ! j)"] by (simp add: unat_ucast_mod)
  then show ?thesis
    using assms(1,2) j by (simp add: lba_to_arena_lba_def prog_simps)
qed

theorem arena_lookup_correct_witness:
  "\<exists>i l. lba_to_arena_lba 12 ((fresh_btt 0 512 [] () undefined)\<lparr>laidout := True, narena := 2,
      arenas := [zero_arena\<lparr>external_nlba := 10\<rparr>, zero_arena\<lparr>external_nlba := 5\<rparr>]\<rparr>) =
    (Ok (i, l), (fresh_btt 0 512 [] () undefined)\<lparr>laidout := True, narena := 2,
      arenas := [zero_arena\<lparr>external_nlba := 10\<rparr>, zero_arena\<lparr>external_nlba := 5\<rparr>]\<rparr>) \<and> i < 2"
  using arena_lookup_correct [of "(fresh_btt 0 512 [] () undefined)\<lparr>laidout := True, narena := 2,
      arenas := [zero_arena\<lparr>external_nlba := 10\<rparr>, zero_arena\<lparr>external_nlba := 5\<rparr>]\<rparr>" 12] by auto

text \<open>
  The flog pair works as a two-entry log: writing the entry with the next sequence number
  into the slot that is not current makes it the current one, and the other slot the next to be written.
\<close>

theorem flog_pair_advances:
  assumes "flog_current f0 f1 = Some (cur, nxt)" and "flog_seq cur \<in> {1, 2, 3}"
    and "flog_seq new = NSEQ (flog_seq cur)"
  shows "flog_current (if nxt = 0 then new else f0) (if nxt = 0 then f1 else new) = Some (new, 1 - nxt) \<and>
    (nxt = 0 \<or> nxt = 1) \<and> cur = (if nxt = 0 then f1 else f0)"
  using assms by (auto simp: flog_current_def split: if_splits)

theorem flog_pair_advances_witness:
  "\<exists>f. flog_current f Zflog = Some (f, 1) \<and> flog_current f (f\<lparr>flog_seq := 2\<rparr>) = Some (f\<lparr>flog_seq := 2\<rparr>, 0)"
  using flog_pair_advances [of "Zflog\<lparr>flog_seq := 1\<rparr>" Zflog "Zflog\<lparr>flog_seq := 1\<rparr>" 1 "Zflog\<lparr>flog_seq := 2\<rparr>"]
  by (intro exI [of _ "Zflog\<lparr>flog_seq := 1\<rparr>"]) (simp add: flog_current_def Zflog_def)

lemma wf_layout_info: "length (parent_uuid b) = 16 \<Longrightarrow> wf_info (layout_info b x1 x2 x3 x4 x5 x6 x7 x8)"
  by (simp add: wf_info_def layout_info_def)

lemma read_layout_info:
  assumes "length (parent_uuid b) = 16"
  shows "\<exists>c. read_info b (with_csum BTT_INFO_CSUM (bytes_of_info (layout_info b x1 x2 x3 x4 x5 x6 x7 x8))) =
    Some ((layout_info b x1 x2 x3 x4 x5 x6 x7 x8)\<lparr>info_checksum := c\<rparr>)"
proof -
  let ?i = "layout_info b x1 x2 x3 x4 x5 x6 x7 x8"
  note wf = wf_layout_info [OF assms, of x1 x2 x3 x4 x5 x6 x7 x8]
  have "info_of_bytes (with_csum BTT_INFO_CSUM (bytes_of_info ?i)) = ?i\<lparr>info_checksum := fletcher64 (bytes_of_info ?i) 4088\<rparr>"
    using info_of_bytes_with_csum [of "bytes_of_info ?i"] wf info_of_bytes_of_info [OF wf] by (simp add: BTT_INFO_CSUM_def)
  moreover have "fst (util_checksum (with_csum BTT_INFO_CSUM (bytes_of_info ?i)) BTT_INFO_CSUM False)"
    using verify_with_csum [of 4088 "bytes_of_info ?i"] wf by (simp add: BTT_INFO_CSUM_def)
  ultimately show ?thesis
    by (simp add: read_info_def Let_def) (simp add: layout_info_def BTTINFO_MAJOR_VERSION_def)
qed

text \<open>
  The info block that \<open>write_layout\<close> writes is the info block that \<open>read_layout\<close> accepts,
  with the same fields; and if one aligned 4-byte word of it outside the checksum is damaged, it is refused.
\<close>

theorem info_block_readback:
  assumes uuid: "length (parent_uuid b) = 16"
    and info: "bs = snd (util_checksum (bytes_of_info (layout_info b ilb inlba enlba noff doff moff foff ioff)) BTT_INFO_CSUM True)"
  shows "(\<exists>c. read_info b bs = Some ((layout_info b ilb inlba enlba noff doff moff foff ioff)\<lparr>info_checksum := c\<rparr>)) \<and>
    (\<forall>bs' q. length bs' = 4096 \<and> q mod 4 = 0 \<and> q < 4088 \<and> (\<forall>i < 4096. i < q \<or> q + 4 \<le> i \<longrightarrow> bs' ! i = bs ! i) \<and>
       take 4 (drop q bs') \<noteq> take 4 (drop q bs) \<longrightarrow> read_info b bs' = None)"
proof (intro conjI allI impI)
  show "\<exists>c. read_info b bs = Some ((layout_info b ilb inlba enlba noff doff moff foff ioff)\<lparr>info_checksum := c\<rparr>)"
    unfolding info by (rule read_layout_info [OF uuid])
  then have stored: "le_at 8 bs 4088 = fletcher64 bs 4088"
    by (auto simp: read_info_def util_checksum_def Let_def BTT_INFO_CSUM_def split: if_splits)
  fix bs' q
  assume *: "length bs' = 4096 \<and> q mod 4 = 0 \<and> q < 4088 \<and> (\<forall>i < 4096. i < q \<or> q + 4 \<le> i \<longrightarrow> bs' ! i = bs ! i) \<and>
       take 4 (drop q bs') \<noteq> take 4 (drop q bs)"
  have len: "length bs = 4096" unfolding info using wf_layout_info [OF uuid] by (simp add: BTT_INFO_CSUM_def)
  have q: "q + 4 \<le> 4088" using * aligned_step [of q 4088] by simp
  have "le_at 8 bs' 4088 = (le_at 8 bs 4088 :: u64)" using len q * by (intro le_at_cong) auto
  moreover have "fletcher64 bs' 4088 \<noteq> fletcher64 bs 4088"
    using len q * by (intro fletcher64_one_word [of _ _ _ q]) auto
  ultimately show "read_info b bs' = None"
    using stored by (simp add: read_info_def util_checksum_def Let_def BTT_INFO_CSUM_def)
qed

theorem info_block_readback_witness:
  "\<exists>c. read_info (fresh_btt 0 512 (replicate 16 1) () undefined)
      (snd (util_checksum (bytes_of_info (layout_info (fresh_btt 0 512 (replicate 16 1) () undefined) 512 1000 744 0 4096 8192 16384 32768)) BTT_INFO_CSUM True)) =
    Some ((layout_info (fresh_btt 0 512 (replicate 16 1) () undefined) 512 1000 744 0 4096 8192 16384 32768)\<lparr>info_checksum := c\<rparr>)"
  using info_block_readback [of "fresh_btt 0 512 (replicate 16 1) () undefined", OF _ refl, of 512 1000 744 0 4096 8192 16384 32768]
  by (simp add: fresh_btt_def)

text \<open>
  Where a block is on the media: the offset computed with 32-bit arithmetic is exact as long
  as the blocks take at most 4 GiB; beyond that, with blocks of \<open>2 ^ k\<close> bytes, block
  \<open>n\<close> and block \<open>n + 2 ^ (32 - k)\<close> are the same bytes, so that a write to one destroys the other.
\<close>

theorem data_offset_32bit:
  assumes "unat (dataoff a) < 2 ^ 63"
  shows "(unat n * unat (internal_lbasize a) < 2 ^ 32 \<longrightarrow>
      unat (data_block_off a n) = unat (dataoff a) + unat n * unat (internal_lbasize a)) \<and>
    (k < 32 \<and> internal_lbasize a = 2 ^ k \<longrightarrow> data_block_off a (n + 2 ^ (32 - k)) = data_block_off a n)"
proof (intro conjI impI)
  assume lt: "unat n * unat (internal_lbasize a) < 2 ^ 32"
  then have "unat (n * internal_lbasize a) = unat n * unat (internal_lbasize a)"
    by (simp add: unat_word_ariths)
  then show "unat (data_block_off a n) = unat (dataoff a) + unat n * unat (internal_lbasize a)"
    using lt assms by (simp add: data_block_off_def unat_word_ariths unat_ucast_32_64)
next
  assume k: "k < 32 \<and> internal_lbasize a = 2 ^ k"
  then have "(2 :: u32) ^ (32 - k) * 2 ^ k = 0" by (simp flip: power_add)
  then show "data_block_off a (n + 2 ^ (32 - k)) = data_block_off a n"
    using k by (simp add: data_block_off_def distrib_right)
qed

theorem data_offset_32bit_witness:
  "unat (data_block_off (zero_arena\<lparr>dataoff := 4096, internal_lbasize := 512\<rparr>) 3) = 4096 + 3 * 512 \<and>
   data_block_off (zero_arena\<lparr>dataoff := 4096, internal_lbasize := 512\<rparr>) (3 + 2 ^ 23) =
     data_block_off (zero_arena\<lparr>dataoff := 4096, internal_lbasize := 512\<rparr>) 3"
  using data_offset_32bit [of "zero_arena\<lparr>dataoff := 4096, internal_lbasize := 512\<rparr>" 3 9] by simp

end
