(* ===== verification/Btt_Inv.thy ===== *)
theory Btt_Inv
  imports Btt
begin

text \<open>
  The invariant that ties the run-time state of the block translation table to the bytes of its
  namespace, and what each of the four media writes of \<open>btt_write\<close> does to it.
  Everything here is about memory and state; the callbacks come in later theories.
\<close>

section \<open>What the metadata of an arena says\<close>

definition map_raw :: "mem \<Rightarrow> arena \<Rightarrow> nat \<Rightarrow> u32" where
  "map_raw m a i = le_dec (mem_read m (unat (mapoff a) + 4 * i) 4)"

text \<open>The entry as the write path sees it: an entry in its initial state stands for block \<open>i\<close>.\<close>

definition map_norm :: "mem \<Rightarrow> arena \<Rightarrow> nat \<Rightarrow> u32" where
  "map_norm m a i = (if map_entry_is_initial (map_raw m a i) then of_nat i OR BTT_MAP_ENTRY_NORMAL
     else map_raw m a i)"

definition map_block :: "mem \<Rightarrow> arena \<Rightarrow> nat \<Rightarrow> nat" where
  "map_block m a i = unat (entry_lba (map_norm m a i))"

definition free_block :: "arena \<Rightarrow> nat \<Rightarrow> nat" where
  "free_block a l = unat (entry_lba (flog_old_map (frt_flog (flogs a ! l))))"

definition block_off :: "arena \<Rightarrow> nat \<Rightarrow> nat" where
  "block_off a n = unat (dataoff a) + n * unat (internal_lbasize a)"

definition flog_off :: "arena \<Rightarrow> nat \<Rightarrow> nat" where
  "flog_off a l = unat (flogoff a) + 64 * l"

text \<open>The slot of a flog pair: 16 bytes each.\<close>

definition flog_slot :: "mem \<Rightarrow> arena \<Rightarrow> nat \<Rightarrow> nat \<Rightarrow> btt_flog" where
  "flog_slot m a l k = flog_at (mem_read m (flog_off a l + 16 * k) 16) 0"

section \<open>Invariant\<close>

definition arena_geom :: "nat \<Rightarrow> nat \<Rightarrow> nat \<Rightarrow> arena \<Rightarrow> bool" where
  "arena_geom nf lb sz a \<longleftrightarrow>
     unat (startoff a) + 4096 \<le> unat (dataoff a) \<and>
     unat (dataoff a) + unat (internal_nlba a) * unat (internal_lbasize a) \<le> unat (mapoff a) \<and>
     unat (mapoff a) + 4 * unat (external_nlba a) \<le> unat (flogoff a) \<and>
     unat (flogoff a) + 64 * nf \<le> sz \<and>
     sz < 2 ^ 63 \<and>
     unat (mapoff a) mod 8 = 0 \<and>
     unat (flogoff a) mod 8 = 0 \<and>
     unat (internal_lbasize a) mod 256 = 0 \<and>
     lb \<le> unat (internal_lbasize a) \<and>
     0 < unat (internal_lbasize a) \<and>
     unat (internal_nlba a) * unat (internal_lbasize a) \<le> 2 ^ 32 \<and>
     unat (internal_nlba a) = unat (external_nlba a) + nf \<and>
     0 < nf \<and> 0 < unat (external_nlba a)"

definition flog_ok :: "mem \<Rightarrow> arena \<Rightarrow> nat \<Rightarrow> bool" where
  "flog_ok m a l \<longleftrightarrow>
     (let frt = flogs a ! l in
      frt_entries frt = [of_nat (flog_off a l), of_nat (flog_off a l + 16)] \<and>
      flog_current (flog_slot m a l 0) (flog_slot m a l 1) = Some (frt_flog frt, frt_next frt) \<and>
      flog_seq (frt_flog frt) \<in> {1, 2, 3} \<and>
      unat (flog_lba (flog_slot m a l 0)) < unat (external_nlba a) \<and>
      unat (flog_lba (flog_slot m a l 1)) < unat (external_nlba a))"

text \<open>Every block belongs to exactly one LBA of the map or one lane of the flog.\<close>

definition blocks_ok :: "nat \<Rightarrow> mem \<Rightarrow> arena \<Rightarrow> bool" where
  "blocks_ok nf m a \<longleftrightarrow>
     (\<forall>i < unat (external_nlba a). map_block m a i < unat (internal_nlba a)) \<and>
     (\<forall>l < nf. free_block a l < unat (internal_nlba a)) \<and>
     inj_on (map_block m a) {..<unat (external_nlba a)} \<and>
     inj_on (free_block a) {..<nf} \<and>
     (\<forall>i < unat (external_nlba a). \<forall>l < nf. map_block m a i \<noteq> free_block a l)"

definition arena_inv :: "nat \<Rightarrow> nat \<Rightarrow> nat \<Rightarrow> mem \<Rightarrow> arena \<Rightarrow> bool" where
  "arena_inv nf lb sz m a \<longleftrightarrow>
     arena_geom nf lb sz a \<and>
     length (flogs a) = nf \<and>
     rtt a = replicate nf BTT_MAP_ENTRY_ERROR \<and>
     (\<forall>l < nf. flog_ok m a l) \<and>
     blocks_ok nf m a"

section \<open>The contents of a block\<close>

definition lba_content :: "nat \<Rightarrow> mem \<Rightarrow> arena \<Rightarrow> nat \<Rightarrow> errno + byte list" where
  "lba_content lb m a i =
     (if map_entry_is_error (map_raw m a i) then Inl EIO
      else if map_entry_is_zero_or_initial (map_raw m a i) then Inr (replicate lb 0)
      else Inr (mem_read m (block_off a (map_block m a i)) lb))"

section \<open>Bounds\<close>

lemma arena_geomD:
  assumes "arena_geom nf lb sz a"
  shows "unat (startoff a) + 4096 \<le> unat (dataoff a)"
    and "unat (dataoff a) + unat (internal_nlba a) * unat (internal_lbasize a) \<le> unat (mapoff a)"
    and "unat (mapoff a) + 4 * unat (external_nlba a) \<le> unat (flogoff a)"
    and "unat (flogoff a) + 64 * nf \<le> sz" and "sz < 2 ^ 63"
    and "unat (mapoff a) mod 8 = 0" and "unat (flogoff a) mod 8 = 0"
    and "unat (internal_lbasize a) mod 256 = 0" and "lb \<le> unat (internal_lbasize a)"
    and "0 < unat (internal_lbasize a)"
    and "unat (internal_nlba a) * unat (internal_lbasize a) \<le> 2 ^ 32"
    and "unat (internal_nlba a) = unat (external_nlba a) + nf"
    and "0 < nf" and "0 < unat (external_nlba a)"
  using assms by (auto simp: arena_geom_def)

lemma internal_nlba_bound:
  assumes "arena_geom nf lb sz a"
  shows "unat (internal_nlba a) \<le> 2 ^ 24"
proof -
  have "256 \<le> unat (internal_lbasize a)"
    using arena_geomD(8,10) [OF assms] by (metis dvd_imp_le mod_0_imp_dvd)
  then have "unat (internal_nlba a) * 256 \<le> unat (internal_nlba a) * unat (internal_lbasize a)"
    by (rule mult_le_mono2)
  also have "\<dots> \<le> 2 ^ 24 * 256" using arena_geomD(11) [OF assms] by simp
  finally show ?thesis by simp
qed

lemma external_nlba_bound:
  "arena_geom nf lb sz a \<Longrightarrow> i < unat (external_nlba a) \<Longrightarrow> i < 2 ^ 24"
  using internal_nlba_bound [of nf lb sz a] arena_geomD(12) [of nf lb sz a] by linarith

lemma entry_lba_norm_initial:
  "arena_geom nf lb sz a \<Longrightarrow> i < unat (external_nlba a) \<Longrightarrow> entry_lba (of_nat i) = (of_nat i :: u32)"
  using external_nlba_bound [of nf lb sz a i] by (intro entry_lba_small) (simp add: unat_of_nat)

text \<open>A block lies inside the data area.\<close>

lemma block_off_bounds:
  assumes "arena_geom nf lb sz a" and "n < unat (internal_nlba a)"
  shows "unat (dataoff a) \<le> block_off a n" and "block_off a n + lb \<le> unat (mapoff a)"
proof -
  show "unat (dataoff a) \<le> block_off a n" by (simp add: block_off_def)
  have "Suc n * unat (internal_lbasize a) \<le> unat (internal_nlba a) * unat (internal_lbasize a)"
    using assms(2) by (intro mult_le_mono1) simp
  then show "block_off a n + lb \<le> unat (mapoff a)"
    using arena_geomD(2,9) [OF assms(1)] by (simp add: block_off_def)
qed

lemma block_off_disjoint:
  assumes "arena_geom nf lb sz a" and "n \<noteq> k"
  shows "block_off a n + lb \<le> block_off a k \<or> block_off a k + lb \<le> block_off a n"
proof -
  have step: "block_off a x + lb \<le> block_off a y" if "x < y" for x y
  proof -
    have "Suc x * unat (internal_lbasize a) \<le> y * unat (internal_lbasize a)"
      using that by (intro mult_le_mono1) simp
    then show ?thesis using arena_geomD(9) [OF assms(1)] by (simp add: block_off_def)
  qed
  show ?thesis using assms(2) step by (cases n k rule: linorder_cases) auto
qed

text \<open>The 32-bit product of the source is exact because the data area does not exceed 4 GiB.\<close>

lemma unat_data_block_off:
  assumes "arena_geom nf lb sz a" and "unat n < unat (internal_nlba a)"
  shows "unat (data_block_off a n) = block_off a (unat n)"
proof -
  have "unat n * unat (internal_lbasize a) < unat (internal_nlba a) * unat (internal_lbasize a)"
    using assms(2) arena_geomD(10) [OF assms(1)] by simp
  then have lt: "unat n * unat (internal_lbasize a) < 2 ^ 32"
    using arena_geomD(11) [OF assms(1)] by linarith
  then have prod: "unat (n * internal_lbasize a) = unat n * unat (internal_lbasize a)"
    by (simp add: unat_word_ariths)
  have "unat (ucast (n * internal_lbasize a) :: u64) = unat n * unat (internal_lbasize a)"
    using lt by (simp add: unat_ucast_32_64 prod)
  moreover have "block_off a (unat n) < 2 ^ 64"
    using block_off_bounds(2) [OF assms] arena_geomD(3,4,5) [OF assms(1)] by simp
  ultimately show ?thesis
    by (simp add: data_block_off_def block_off_def unat_word_ariths)
qed

lemma unat_map_entry_off:
  assumes "arena_geom nf lb sz a" and "unat i < unat (external_nlba a)"
  shows "unat (map_entry_off a i) = unat (mapoff a) + 4 * unat i"
    and "unat (map_entry_off a i) + 4 \<le> unat (flogoff a)"
proof -
  have "unat i < 2 ^ 24" using external_nlba_bound assms by blast
  then have "unat (BTT_MAP_ENTRY_SIZE * i) = 4 * unat i"
    by (simp add: BTT_MAP_ENTRY_SIZE_def unat_word_ariths)
  moreover have "unat (mapoff a) + 4 * unat i + 4 \<le> unat (flogoff a)"
    using arena_geomD(3) [OF assms(1)] assms(2) by linarith
  ultimately show "unat (map_entry_off a i) = unat (mapoff a) + 4 * unat i"
    using \<open>unat i < 2 ^ 24\<close> unat_bound [of "flogoff a"]
    by (simp add: map_entry_off_def unat_word_ariths unat_ucast_32_64)
  then show "unat (map_entry_off a i) + 4 \<le> unat (flogoff a)"
    using \<open>unat (mapoff a) + 4 * unat i + 4 \<le> unat (flogoff a)\<close> by simp
qed

section \<open>Frames\<close>


definition same_except :: "mem \<Rightarrow> mem \<Rightarrow> nat \<Rightarrow> nat \<Rightarrow> bool" where
  "same_except m m' lo n \<longleftrightarrow> (\<forall>i. i < lo \<or> lo + n \<le> i \<longrightarrow> m' i = m i)"

lemma same_except_write [simp]: "n = length bs \<Longrightarrow> same_except m (mem_write m lo bs) lo n"
  by (simp add: same_except_def mem_simps)

lemma same_except_refl [simp]: "same_except m m lo n"
  by (simp add: same_except_def)

lemma mem_read_same_except:
  "same_except m m' lo n \<Longrightarrow> off + k \<le> lo \<or> lo + n \<le> off \<Longrightarrow> mem_read m' off k = mem_read m off k"
  by (auto simp: same_except_def intro!: mem_read_cong)

lemma map_raw_frame:
  assumes "same_except m m' lo n" and "arena_geom nf lb sz a" and "i < unat (external_nlba a)"
    and "lo + n \<le> unat (mapoff a) \<or> unat (flogoff a) \<le> lo"
  shows "map_raw m' a i = map_raw m a i"
  using mem_read_same_except [OF assms(1), of "unat (mapoff a) + 4 * i" 4] assms(3,4)
    arena_geomD(3) [OF assms(2)] by (auto simp: map_raw_def)

lemma map_raw_write:
  "map_raw (mem_write m (unat (mapoff a) + 4 * i) (le_enc 4 e)) a j = (if j = i then e else map_raw m a j)"
proof (cases "j = i")
  case False
  then have "4 * j + 4 \<le> 4 * i \<or> 4 * i + 4 \<le> 4 * j" by linarith
  then have "mem_read (mem_write m (unat (mapoff a) + 4 * i) (le_enc 4 e)) (unat (mapoff a) + 4 * j) 4 =
      mem_read m (unat (mapoff a) + 4 * j) 4"
    by (intro mem_read_write_disjoint) auto
  then show ?thesis using False by (simp add: map_raw_def)
qed (simp add: map_raw_def)

lemma flog_off_next: "k < 2 \<Longrightarrow> l < l' \<Longrightarrow> flog_off a l + 16 * k + 16 \<le> flog_off a l'"
  by (simp add: flog_off_def)

lemma flog_slot_frame:
  assumes "same_except m m' lo n"
    and "lo + n \<le> flog_off a l + 16 * k \<or> flog_off a l + 16 * k + 16 \<le> lo"
  shows "flog_slot m' a l k = flog_slot m a l k"
  using mem_read_same_except [OF assms(1), of "flog_off a l + 16 * k" 16] assms(2)
  by (auto simp: flog_slot_def)

lemma flog_at_mem: "flog_at (mem_read m off 16) 0 = \<lparr>flog_lba = le_dec (mem_read m off 4),
    flog_old_map = le_dec (mem_read m (off + 4) 4), flog_new_map = le_dec (mem_read m (off + 8) 4),
    flog_seq = le_dec (mem_read m (off + 12) 4)\<rparr>"
  by (simp add: flog_at_def le_at_mem_read)

lemma flog_slot_write_lo:
  "flog_slot (mem_write m (flog_off a l + 16 * k) (le_enc 4 x @ le_enc 4 y)) a l k =
   (flog_slot m a l k)\<lparr>flog_lba := x, flog_old_map := y\<rparr>"
  by (simp add: flog_slot_def flog_at_mem mem_write_append mem_read_write_disjoint)

lemma flog_slot_write_hi:
  "flog_slot (mem_write m (flog_off a l + 16 * k + 8) (le_enc 4 x @ le_enc 4 y)) a l k =
   (flog_slot m a l k)\<lparr>flog_new_map := x, flog_seq := y\<rparr>"
  by (simp add: flog_slot_def flog_at_mem mem_write_append mem_read_write_disjoint ac_simps)

lemma take_bytes_of_flog:
  "take 8 (bytes_of_flog f) = le_enc 4 (flog_lba f) @ le_enc 4 (flog_old_map f)"
  "drop 8 (bytes_of_flog f) = le_enc 4 (flog_new_map f) @ le_enc 4 (flog_seq f)"
  by (simp_all add: bytes_of_flog_def)

text \<open>Only the sequence numbers choose.\<close>

lemma flog_current_next: "flog_current f0 f1 = Some (cur, nxt) \<Longrightarrow> nxt < 2"
  by (auto simp: flog_current_def split: if_splits)

lemma flog_current_is: "flog_current f0 f1 = Some (cur, nxt) \<Longrightarrow> cur = (if nxt = 0 then f1 else f0)"
  by (auto simp: flog_current_def split: if_splits)

lemma flog_current_half0:
  "flog_current f0 f1 = Some (cur, 0) \<Longrightarrow> flog_seq g = flog_seq f0 \<Longrightarrow> flog_current g f1 = Some (cur, 0)"
  by (auto simp: flog_current_def split: if_splits)

lemma flog_current_half1:
  "flog_current f0 f1 = Some (cur, Suc 0) \<Longrightarrow> flog_seq g = flog_seq f1 \<Longrightarrow> flog_current f0 g = Some (cur, Suc 0)"
  by (auto simp: flog_current_def split: if_splits)

lemma flog_current_advance:
  assumes "flog_current f0 f1 = Some (cur, nxt)" and "flog_seq cur \<in> {1, 2, 3}"
    and "flog_seq g = NSEQ (flog_seq cur)"
  shows "nxt = 0 \<Longrightarrow> flog_current g f1 = Some (g, 1)" and "nxt = Suc 0 \<Longrightarrow> flog_current f0 g = Some (g, 0)"
  using assms by (auto simp: flog_current_def split: if_splits)

section \<open>The stages of a write\<close>

text \<open>What lane \<open>l\<close> writes to its flog, and the arena afterwards.\<close>

definition write_entry :: "arena \<Rightarrow> nat \<Rightarrow> u32" where
  "write_entry a l = entry_lba (flog_old_map (frt_flog (flogs a ! l))) OR BTT_MAP_ENTRY_NORMAL"

definition new_flog :: "mem \<Rightarrow> arena \<Rightarrow> nat \<Rightarrow> nat \<Rightarrow> btt_flog" where
  "new_flog m a l i = \<lparr>flog_lba = of_nat i, flog_old_map = map_norm m a i,
     flog_new_map = write_entry a l, flog_seq = NSEQ (flog_seq (frt_flog (flogs a ! l)))\<rparr>"

definition written :: "mem \<Rightarrow> arena \<Rightarrow> nat \<Rightarrow> nat \<Rightarrow> arena" where
  "written m a l i = (let frt = flogs a ! l in
     a\<lparr>flogs := (flogs a)[l := frt\<lparr>frt_next := 1 - frt_next frt, frt_flog := new_flog m a l i\<rparr>]\<rparr>)"

definition slot_off :: "arena \<Rightarrow> nat \<Rightarrow> nat" where
  "slot_off a l = flog_off a l + 16 * frt_next (flogs a ! l)"

definition stage2 :: "mem \<Rightarrow> arena \<Rightarrow> nat \<Rightarrow> nat \<Rightarrow> mem" where
  "stage2 m a l i = mem_write m (slot_off a l) (take 8 (bytes_of_flog (new_flog m a l i)))"

definition stage3 :: "mem \<Rightarrow> arena \<Rightarrow> nat \<Rightarrow> nat \<Rightarrow> mem" where
  "stage3 m a l i = mem_write (stage2 m a l i) (slot_off a l + 8) (drop 8 (bytes_of_flog (new_flog m a l i)))"

definition stage4 :: "mem \<Rightarrow> arena \<Rightarrow> nat \<Rightarrow> nat \<Rightarrow> mem" where
  "stage4 m a l i = mem_write (stage3 m a l i) (unat (mapoff a) + 4 * i) (le_enc 4 (write_entry a l))"

lemma arena_invD:
  assumes "arena_inv nf lb sz m a"
  shows "arena_geom nf lb sz a" and "length (flogs a) = nf"
    and "rtt a = replicate nf BTT_MAP_ENTRY_ERROR"
    and "\<And>l. l < nf \<Longrightarrow> flog_ok m a l" and "blocks_ok nf m a"
  using assms by (auto simp: arena_inv_def)

lemma flog_okD:
  assumes "flog_ok m a l"
  shows "frt_entries (flogs a ! l) = [of_nat (flog_off a l), of_nat (flog_off a l + 16)]"
    and "flog_current (flog_slot m a l 0) (flog_slot m a l 1) = Some (frt_flog (flogs a ! l), frt_next (flogs a ! l))"
    and "flog_seq (frt_flog (flogs a ! l)) \<in> {1, 2, 3}"
    and "k < 2 \<Longrightarrow> unat (flog_lba (flog_slot m a l k)) < unat (external_nlba a)"
    and "frt_next (flogs a ! l) = 0 \<or> frt_next (flogs a ! l) = 1"
  using assms flog_current_next by (fastforce simp: flog_ok_def Let_def less_2_cases_iff)+

lemma blocks_okD:
  assumes "blocks_ok nf m a"
  shows "i < unat (external_nlba a) \<Longrightarrow> map_block m a i < unat (internal_nlba a)"
    and "l < nf \<Longrightarrow> free_block a l < unat (internal_nlba a)"
    and "i < unat (external_nlba a) \<Longrightarrow> j < unat (external_nlba a) \<Longrightarrow> map_block m a i = map_block m a j \<longleftrightarrow> i = j"
    and "l < nf \<Longrightarrow> k < nf \<Longrightarrow> free_block a l = free_block a k \<longleftrightarrow> l = k"
    and "i < unat (external_nlba a) \<Longrightarrow> l < nf \<Longrightarrow> map_block m a i \<noteq> free_block a l"
  using assms by (auto simp: blocks_ok_def inj_on_def)

lemma blocks_ok_cong:
  "(\<And>i. i < unat (external_nlba a) \<Longrightarrow> map_block m' a i = map_block m a i) \<Longrightarrow> blocks_ok nf m' a = blocks_ok nf m a"
  by (auto simp: blocks_ok_def inj_on_def)

lemma flog_ok_cong:
  "flog_slot m' a l 0 = flog_slot m a l 0 \<Longrightarrow> flog_slot m' a l 1 = flog_slot m a l 1 \<Longrightarrow> flog_ok m' a l = flog_ok m a l"
  by (simp add: flog_ok_def)

lemma map_norm_frame:
  assumes "same_except m m' lo n" and "arena_geom nf lb sz a" and "i < unat (external_nlba a)"
    and "lo + n \<le> unat (mapoff a) \<or> unat (flogoff a) \<le> lo"
  shows "map_norm m' a i = map_norm m a i" and "map_block m' a i = map_block m a i"
  using map_raw_frame [OF assms] by (simp_all add: map_norm_def map_block_def)

text \<open>Writes below the map leave the invariant alone.\<close>

lemma arena_inv_data:
  assumes inv: "arena_inv nf lb sz m a" and same: "same_except m m' lo n" and below: "lo + n \<le> unat (mapoff a)"
  shows "arena_inv nf lb sz m' a"
proof -
  note geom = arena_invD(1) [OF inv]
  have "flog_ok m' a l = flog_ok m a l" for l
    using below arena_geomD(3) [OF geom] same
    by (intro flog_ok_cong flog_slot_frame) (auto simp: flog_off_def)
  moreover have "blocks_ok nf m' a = blocks_ok nf m a"
    using map_norm_frame(2) [OF same geom] below by (intro blocks_ok_cong) auto
  ultimately show ?thesis using inv by (simp add: arena_inv_def)
qed

lemma lba_content_frame:
  assumes "arena_inv nf lb sz m a" and "i < unat (external_nlba a)"
    and "map_raw m' a i = map_raw m a i"
    and "mem_read m' (block_off a (map_block m a i)) lb = mem_read m (block_off a (map_block m a i)) lb"
  shows "lba_content lb m' a i = lba_content lb m a i"
proof -
  have "map_block m' a i = map_block m a i" using assms(3) by (simp add: map_block_def map_norm_def)
  then show ?thesis using assms(3,4) by (simp add: lba_content_def)
qed

text \<open>The free block of a lane carries no contents, so writing it, whole or in part, changes no LBA.\<close>

lemma lba_content_data:
  assumes inv: "arena_inv nf lb sz m a" and l: "l < nf"
    and same: "same_except m m' (block_off a (free_block a l)) lb" and i: "i < unat (external_nlba a)"
  shows "lba_content lb m' a i = lba_content lb m a i"
proof (rule lba_content_frame [OF inv i])
  note geom = arena_invD(1) [OF inv] and blk = blocks_okD [OF arena_invD(5) [OF inv]]
  show "map_raw m' a i = map_raw m a i"
    using block_off_bounds(2) [OF geom blk(2) [OF l]] by (intro map_raw_frame [OF same geom i]) simp
  show "mem_read m' (block_off a (map_block m a i)) lb = mem_read m (block_off a (map_block m a i)) lb"
    using block_off_disjoint [OF geom blk(5) [OF i l]] by (intro mem_read_same_except [OF same]) auto
qed

text \<open>The slot that lane \<open>l\<close> writes next.\<close>

lemma slot_off_bounds:
  assumes inv: "arena_inv nf lb sz m a" and l: "l < nf"
  shows "unat (flogoff a) \<le> slot_off a l" and "slot_off a l + 16 \<le> sz" and "slot_off a l mod 8 = 0"
    and "slot_off a l + 16 \<le> flog_off a l + 32"
proof -
  have nxt: "frt_next (flogs a ! l) = 0 \<or> frt_next (flogs a ! l) = 1"
    using flog_okD(5) arena_invD(4) [OF inv l] by blast
  then show "slot_off a l + 16 \<le> flog_off a l + 32" by (auto simp: slot_off_def)
  then show "slot_off a l + 16 \<le> sz"
    using arena_geomD(4) [OF arena_invD(1) [OF inv]] l by (simp add: flog_off_def)
  show "slot_off a l mod 8 = 0"
    using arena_geomD(7) [OF arena_invD(1) [OF inv]] nxt unfolding slot_off_def flog_off_def
    by (auto simp: mod_eq_0_iff_dvd intro!: dvd_add)
qed (simp add: slot_off_def flog_off_def)

lemma flog_off_apart: "l \<noteq> l' \<Longrightarrow> flog_off a l + 64 \<le> flog_off a l' \<or> flog_off a l' + 64 \<le> flog_off a l"
  by (auto simp: flog_off_def)

text \<open>A write inside the inactive slot of lane \<open>l\<close> is invisible to the map and to the other lanes.\<close>

lemma slot_write_frame:
  assumes inv: "arena_inv nf lb sz m a" and l: "l < nf"
    and same: "same_except m m' lo n" and lo: "slot_off a l \<le> lo" "lo + n \<le> slot_off a l + 16"
  shows "i < unat (external_nlba a) \<Longrightarrow> map_raw m' a i = map_raw m a i"
    and "l' \<noteq> l \<Longrightarrow> k < 2 \<Longrightarrow> flog_slot m' a l' k = flog_slot m a l' k"
    and "flog_slot m' a l (1 - frt_next (flogs a ! l)) = flog_slot m a l (1 - frt_next (flogs a ! l))"
    and "i < unat (external_nlba a) \<Longrightarrow> lba_content lb m' a i = lba_content lb m a i"
proof -
  note geom = arena_invD(1) [OF inv] and b = slot_off_bounds [OF inv l]
  show raw: "map_raw m' a i = map_raw m a i" if "i < unat (external_nlba a)" for i
    using b(1) lo that by (intro map_raw_frame [OF same geom]) auto
  show "flog_slot m' a l' k = flog_slot m a l' k" if "l' \<noteq> l" "k < 2"
    using flog_off_apart [OF that(1), of a] that(2) b(4) lo
    by (intro flog_slot_frame [OF same]) (auto simp: slot_off_def)
  have "frt_next (flogs a ! l) = 0 \<or> frt_next (flogs a ! l) = 1"
    using flog_okD(5) arena_invD(4) [OF inv l] by blast
  then show "flog_slot m' a l (1 - frt_next (flogs a ! l)) = flog_slot m a l (1 - frt_next (flogs a ! l))"
    using lo by (intro flog_slot_frame [OF same]) (auto simp: slot_off_def)
  show "lba_content lb m' a i = lba_content lb m a i" if i: "i < unat (external_nlba a)" for i
  proof (rule lba_content_frame [OF inv i raw [OF i]])
    have "block_off a (map_block m a i) + lb \<le> unat (mapoff a)"
      using block_off_bounds(2) [OF geom] blocks_okD(1) [OF arena_invD(5) [OF inv] i] by blast
    then show "mem_read m' (block_off a (map_block m a i)) lb = mem_read m (block_off a (map_block m a i)) lb"
      using b(1) lo arena_geomD(3) [OF geom] by (intro mem_read_same_except [OF same]) auto
  qed
qed

lemma unat_of_nat_lba:
  "arena_geom nf lb sz a \<Longrightarrow> i < unat (external_nlba a) \<Longrightarrow> unat (of_nat i :: u32) = i"
  using external_nlba_bound [of nf lb sz a i] by (simp add: unat_of_nat)

lemma flog_ok_half:
  assumes ok: "flog_ok m a l"
    and other: "flog_slot m' a l (1 - frt_next (flogs a ! l)) = flog_slot m a l (1 - frt_next (flogs a ! l))"
    and seq: "flog_seq (flog_slot m' a l (frt_next (flogs a ! l))) = flog_seq (flog_slot m a l (frt_next (flogs a ! l)))"
    and lba: "unat (flog_lba (flog_slot m' a l (frt_next (flogs a ! l)))) < unat (external_nlba a)"
  shows "flog_ok m' a l"
proof (cases "frt_next (flogs a ! l) = 0")
  case True
  then have "flog_current (flog_slot m' a l 0) (flog_slot m' a l 1) = Some (frt_flog (flogs a ! l), 0)"
    using flog_current_half0 [of "flog_slot m a l 0" "flog_slot m a l 1" _ "flog_slot m' a l 0"]
      flog_okD(2) [OF ok] other seq by simp
  then show ?thesis using True flog_okD(1,3,4) [OF ok] other lba by (simp add: flog_ok_def)
next
  case False
  then have 1: "frt_next (flogs a ! l) = Suc 0" using flog_okD(5) [OF ok] by simp
  then have "flog_current (flog_slot m' a l 0) (flog_slot m' a l 1) = Some (frt_flog (flogs a ! l), Suc 0)"
    using flog_current_half1 [of "flog_slot m a l 0" "flog_slot m a l 1" _ "flog_slot m' a l 1"]
      flog_okD(2) [OF ok] other seq by simp
  then show ?thesis using 1 flog_okD(1,3,4) [OF ok] other lba by (simp add: flog_ok_def)
qed

text \<open>After the first half of the flog entry nothing has happened yet.\<close>

lemma stage2_inv:
  assumes inv: "arena_inv nf lb sz m a" and l: "l < nf" and i: "i < unat (external_nlba a)"
  shows "arena_inv nf lb sz (stage2 m a l i) a"
    and "j < unat (external_nlba a) \<Longrightarrow> lba_content lb (stage2 m a l i) a j = lba_content lb m a j"
    and "j < unat (external_nlba a) \<Longrightarrow> map_raw (stage2 m a l i) a j = map_raw m a j"
proof -
  let ?m = "stage2 m a l i" and ?nxt = "frt_next (flogs a ! l)"
  note geom = arena_invD(1) [OF inv] and ok = flog_okD [OF arena_invD(4) [OF inv l]]
  have same: "same_except m ?m (slot_off a l) 8" by (simp add: stage2_def)
  note fr = slot_write_frame [OF inv l same, simplified]
  show "lba_content lb ?m a j = lba_content lb m a j" "map_raw ?m a j = map_raw m a j"
    if "j < unat (external_nlba a)" using fr that by auto
  have slot: "flog_slot ?m a l ?nxt = (flog_slot m a l ?nxt)\<lparr>flog_lba := of_nat i, flog_old_map := map_norm m a i\<rparr>"
    by (simp add: stage2_def take_bytes_of_flog slot_off_def flog_slot_write_lo new_flog_def)
  have lba: "unat (of_nat i :: u32) < unat (external_nlba a)"
    using unat_of_nat_lba [OF geom i] i by simp
  have "flog_ok ?m a l"
    using fr(3) lba slot by (intro flog_ok_half [OF arena_invD(4) [OF inv l]]) simp_all
  moreover have "flog_ok ?m a l'" if "l' < nf" "l' \<noteq> l" for l'
    using arena_invD(4) [OF inv that(1)] flog_ok_cong [of ?m a l' m] fr(2) [OF that(2)] by simp
  moreover have "blocks_ok nf ?m a"
    using arena_invD(5) [OF inv] fr(1) by (subst blocks_ok_cong [of a ?m m]) (simp_all add: map_block_def map_norm_def)
  ultimately show "arena_inv nf lb sz ?m a" using inv by (auto simp: arena_inv_def)
qed

text \<open>The arena after the flog update has the same layout.\<close>

lemma written_simps [simp]:
  "external_nlba (written m a l i) = external_nlba a" "internal_nlba (written m a l i) = internal_nlba a"
  "internal_lbasize (written m a l i) = internal_lbasize a" "startoff (written m a l i) = startoff a"
  "dataoff (written m a l i) = dataoff a" "mapoff (written m a l i) = mapoff a"
  "flogoff (written m a l i) = flogoff a" "rtt (written m a l i) = rtt a"
  "arena_flags (written m a l i) = arena_flags a" "nextoff (written m a l i) = nextoff a"
  "length (flogs (written m a l i)) = length (flogs a)"
  by (simp_all add: written_def Let_def)

lemma written_views [simp]:
  "map_raw m' (written m a l i) = map_raw m' a" "map_norm m' (written m a l i) = map_norm m' a"
  "map_block m' (written m a l i) = map_block m' a" "block_off (written m a l i) = block_off a"
  "flog_slot m' (written m a l i) = flog_slot m' a" "flog_off (written m a l i) = flog_off a"
  "lba_content lb m' (written m a l i) = lba_content lb m' a"
  "arena_geom nf lb sz (written m a l i) = arena_geom nf lb sz a"
  by (auto simp: fun_eq_iff map_raw_def map_norm_def map_block_def block_off_def flog_slot_def
      flog_off_def lba_content_def arena_geom_def)

lemma written_flogs:
  "l' \<noteq> l \<Longrightarrow> flogs (written m a l i) ! l' = flogs a ! l'"
  "l < length (flogs a) \<Longrightarrow> flogs (written m a l i) ! l =
     (flogs a ! l)\<lparr>frt_next := 1 - frt_next (flogs a ! l), frt_flog := new_flog m a l i\<rparr>"
  by (simp_all add: written_def Let_def)

lemma free_block_written:
  "l' \<noteq> l \<Longrightarrow> free_block (written m a l i) l' = free_block a l'"
  "l < length (flogs a) \<Longrightarrow> free_block (written m a l i) l = map_block m a i"
  by (simp_all add: free_block_def written_flogs new_flog_def map_block_def)

lemma stage3_inv:
  assumes inv: "arena_inv nf lb sz m a" and l: "l < nf" and i: "i < unat (external_nlba a)"
  shows "l' < nf \<Longrightarrow> flog_ok (stage3 m a l i) (written m a l i) l'"
    and "j < unat (external_nlba a) \<Longrightarrow> lba_content lb (stage3 m a l i) a j = lba_content lb m a j"
    and "j < unat (external_nlba a) \<Longrightarrow> map_raw (stage3 m a l i) a j = map_raw m a j"
    and "flog_slot (stage3 m a l i) a l (frt_next (flogs a ! l)) = new_flog m a l i"
proof -
  let ?m = "stage3 m a l i" and ?m2 = "stage2 m a l i" and ?nxt = "frt_next (flogs a ! l)"
  note geom = arena_invD(1) [OF inv] and inv2 = stage2_inv(1) [OF inv l i]
  note ok = flog_okD [OF arena_invD(4) [OF inv2 l]] and len = arena_invD(2) [OF inv]
  have same: "same_except ?m2 ?m (slot_off a l + 8) 8" by (simp add: stage3_def)
  note fr = slot_write_frame [OF inv2 l same, simplified]
  show "lba_content lb ?m a j = lba_content lb m a j" "map_raw ?m a j = map_raw m a j"
    if "j < unat (external_nlba a)" using fr that stage2_inv(2,3) [OF inv l i] by auto
  show slot: "flog_slot ?m a l ?nxt = new_flog m a l i"
    by (simp add: stage3_def stage2_def take_bytes_of_flog slot_off_def flog_slot_write_hi
        flog_slot_write_lo new_flog_def)
  have lba: "unat (flog_lba (new_flog m a l i)) < unat (external_nlba a)"
    using unat_of_nat_lba [OF geom i] i by (simp add: new_flog_def)
  have seq: "flog_seq (new_flog m a l i) = NSEQ (flog_seq (frt_flog (flogs a ! l)))"
    by (simp add: new_flog_def)
  note adv = flog_current_advance [OF ok(2,3) seq]
  have "flog_ok ?m (written m a l i) l"
  proof (cases "?nxt = 0")
    case True
    then show ?thesis
      using ok(1,3,4) slot fr(3) lba adv(1) l len seq NSEQ_cycle(1)
      by (simp add: flog_ok_def written_flogs)
  next
    case False
    then have "?nxt = 1" using ok(5) by simp
    then show ?thesis
      using ok(1,3,4) slot fr(3) lba adv(2) l len seq NSEQ_cycle(1)
      by (simp add: flog_ok_def written_flogs)
  qed
  moreover have "flog_ok ?m (written m a l i) l'" if "l' < nf" "l' \<noteq> l" for l'
    using arena_invD(4) [OF inv2 that(1)] fr(2) [OF that(2)]
    by (simp add: flog_ok_def written_flogs(1) [OF that(2)])
  ultimately show "l' < nf \<Longrightarrow> flog_ok ?m (written m a l i) l'" by (cases "l' = l") auto
qed

lemma write_entry_facts:
  "entry_lba (write_entry a l) = of_nat (free_block a l)" "map_entry_is_normal (write_entry a l)"
  "\<not> map_entry_is_initial (write_entry a l)" "\<not> map_entry_is_error (write_entry a l)"
  "\<not> map_entry_is_zero_or_initial (write_entry a l)"
  using map_entry_states_disjoint [of "write_entry a l"]
  by (auto simp: write_entry_def free_block_def zero_or_initial_iff)

text \<open>Swapping a mapped block with a free one keeps every block in one place.\<close>

lemma blocks_ok_swap:
  assumes ok: "blocks_ok nf m a" and l: "l < nf" and i: "i < unat (external_nlba a)"
    and ext: "external_nlba a' = external_nlba a" "internal_nlba a' = internal_nlba a"
    and map: "\<And>j. j < unat (external_nlba a) \<Longrightarrow> map_block m' a' j = (if j = i then free_block a l else map_block m a j)"
    and free: "\<And>k. k < nf \<Longrightarrow> free_block a' k = (if k = l then map_block m a i else free_block a k)"
  shows "blocks_ok nf m' a'"
proof -
  note D = blocks_okD [OF ok]
  have "inj_on (map_block m' a') {..<unat (external_nlba a)}"
    by (rule inj_onI) (use map D(3,5) i l in \<open>auto split: if_splits dest!: sym [of "free_block a l"]\<close>)
  moreover have "inj_on (free_block a') {..<nf}"
    by (rule inj_onI) (use free D(4) D(5) D(5) [symmetric] i l in \<open>auto split: if_splits\<close>)
  ultimately show ?thesis
    unfolding blocks_ok_def using ext map free D D(5) [symmetric] i l by (auto split: if_splits)
qed

lemma stage4_inv:
  assumes inv: "arena_inv nf lb sz m a" and l: "l < nf" and i: "i < unat (external_nlba a)"
  shows "arena_inv nf lb sz (stage4 m a l i) (written m a l i)"
    and "lba_content lb (stage4 m a l i) a i = Inr (mem_read m (block_off a (free_block a l)) lb)"
    and "j < unat (external_nlba a) \<Longrightarrow> j \<noteq> i \<Longrightarrow> lba_content lb (stage4 m a l i) a j = lba_content lb m a j"
proof -
  let ?m = "stage4 m a l i" and ?m3 = "stage3 m a l i"
  note geom = arena_invD(1) [OF inv] and len = arena_invD(2) [OF inv] and st3 = stage3_inv [OF inv l i]
  note blk = blocks_okD [OF arena_invD(5) [OF inv]] and slot = slot_off_bounds [OF inv l]
  have raw: "map_raw ?m a j = (if j = i then write_entry a l else map_raw m a j)"
    if "j < unat (external_nlba a)" for j
    using st3(3) [OF that] by (simp add: stage4_def map_raw_write)
  have unat_free: "unat (of_nat (free_block a l) :: u32) = free_block a l"
    by (simp add: free_block_def)
  have block: "map_block ?m a j = (if j = i then free_block a l else map_block m a j)"
    if "j < unat (external_nlba a)" for j
    using raw [OF that] by (cases "j = i") (simp_all add: map_block_def map_norm_def write_entry_facts unat_free)
  have same34: "same_except ?m3 ?m (unat (mapoff a) + 4 * i) 4" by (simp add: stage4_def)
  have read: "mem_read ?m off n = mem_read m off n" if "off + n \<le> unat (mapoff a)" for off n
  proof -
    have "mem_read ?m off n = mem_read ?m3 off n" using that by (intro mem_read_same_except [OF same34]) simp
    also have "\<dots> = mem_read m off n"
      using that slot(1) arena_geomD(3) [OF geom] by (simp add: stage3_def stage2_def mem_simps)
    finally show ?thesis .
  qed
  have "flog_ok ?m (written m a l i) k" if k: "k < nf" for k
  proof -
    have "unat (mapoff a) + 4 * i + 4 \<le> flog_off a k"
      using arena_geomD(3) [OF geom] i by (simp add: flog_off_def)
    then have "flog_slot ?m a k q = flog_slot ?m3 a k q" for q
      by (intro flog_slot_frame [OF same34]) simp
    then show ?thesis using st3(1) [OF k] by (simp add: flog_ok_def)
  qed
  moreover have "blocks_ok nf ?m (written m a l i)"
    using arena_invD(5) [OF inv] l i block len
    by (rule_tac blocks_ok_swap [where a = a and m = m and l = l and i = i])
      (simp_all add: free_block_written)
  ultimately show "arena_inv nf lb sz ?m (written m a l i)"
    using inv by (simp add: arena_inv_def)
  show "lba_content lb ?m a i = Inr (mem_read m (block_off a (free_block a l)) lb)"
    using raw [OF i] block [OF i] read block_off_bounds(2) [OF geom blk(2) [OF l]]
    by (simp add: lba_content_def write_entry_facts)
  show "lba_content lb ?m a j = lba_content lb m a j" if j: "j < unat (external_nlba a)" "j \<noteq> i" for j
    using raw [OF j(1)] j(2) read block_off_bounds(2) [OF geom blk(1) [OF j(1)]]
    by (intro lba_content_frame [OF inv j(1)]) simp_all
qed

text \<open>Replacing the state bits of a map entry.\<close>

lemma set_flags_inv:
  assumes inv: "arena_inv nf lb sz m a" and i: "i < unat (external_nlba a)"
    and setf: "setf = BTT_MAP_ENTRY_ZERO \<or> setf = BTT_MAP_ENTRY_ERROR"
  defines "m' \<equiv> mem_write m (unat (mapoff a) + 4 * i) (le_enc 4 (entry_lba (map_norm m a i) OR setf))"
  shows "arena_inv nf lb sz m' a"
    and "lba_content lb m' a i = (if setf = BTT_MAP_ENTRY_ZERO then Inr (replicate lb 0) else Inl EIO)"
    and "j < unat (external_nlba a) \<Longrightarrow> j \<noteq> i \<Longrightarrow> lba_content lb m' a j = lba_content lb m a j"
proof -
  note geom = arena_invD(1) [OF inv] and blk = blocks_okD [OF arena_invD(5) [OF inv]]
  let ?e = "entry_lba (map_norm m a i) OR setf"
  have same: "same_except m m' (unat (mapoff a) + 4 * i) 4" by (simp add: m'_def)
  have raw: "map_raw m' a j = (if j = i then ?e else map_raw m a j)" for j
    by (simp add: m'_def map_raw_write)
  have not_init: "\<not> map_entry_is_initial ?e"
    using setf map_entry_states_disjoint(1) [of ?e] by auto
  have lba: "entry_lba ?e = entry_lba (map_norm m a i)" using setf by auto
  have block: "map_block m' a j = map_block m a j" for j
    using raw [of j] not_init lba by (auto simp: map_block_def map_norm_def)
  have "flog_ok m' a k = flog_ok m a k" if "k < nf" for k
    using arena_geomD(3) [OF geom] i
    by (intro flog_ok_cong flog_slot_frame [OF same]) (simp_all add: flog_off_def)
  moreover have "blocks_ok nf m' a = blocks_ok nf m a" by (intro blocks_ok_cong block)
  ultimately show "arena_inv nf lb sz m' a" using inv by (simp add: arena_inv_def)
  show "lba_content lb m' a i = (if setf = BTT_MAP_ENTRY_ZERO then Inr (replicate lb 0) else Inl EIO)"
    using setf raw [of i] map_entry_states_disjoint(2) [of ?e]
    by (auto simp: lba_content_def zero_or_initial_iff)
  show "lba_content lb m' a j = lba_content lb m a j" if j: "j < unat (external_nlba a)" "j \<noteq> i" for j
    using raw [of j] j(2) block_off_bounds(2) [OF geom blk(1) [OF j(1)]]
    by (intro lba_content_frame [OF inv j(1)] mem_read_same_except [OF same]) simp_all
qed

end
