(* ===== verification/Btt_Ops.thy ===== *)
theory Btt_Ops
  imports Btt_Inv
begin

text \<open>
  What the block translation table relies on: the interface \<open>ns_media\<close> to its namespace
  (reads return the bytes, a write goes through or is torn at aligned 8-byte words and ends the
  power-on session), and the operations of \<open>btt.c\<close> proved against it once.  The abstract
  state is the view: what each LBA holds.
\<close>

section \<open>Torn writes\<close>

text \<open>Each aligned 8-byte word of the range has its old or its new contents.\<close>

definition torn_write :: "mem \<Rightarrow> nat \<Rightarrow> byte list \<Rightarrow> mem \<Rightarrow> bool" where
  "torn_write m off bs m' \<longleftrightarrow>
     (\<forall>w. (\<forall>i. i div 8 = w \<longrightarrow> m' i = m i) \<or> (\<forall>i. i div 8 = w \<longrightarrow> m' i = mem_write m off bs i))"

lemma torn_same_except: "torn_write m off bs m' \<Longrightarrow> same_except m m' off (length bs)"
  unfolding torn_write_def same_except_def by (metis mem_write_outside)

text \<open>A write inside one aligned word happens or does not happen.\<close>

lemma torn_atomic:
  assumes "torn_write m off bs m'" and "\<And>i. off \<le> i \<Longrightarrow> i < off + length bs \<Longrightarrow> i div 8 = w"
  shows "m' = m \<or> m' = mem_write m off bs"
proof -
  have outside: "m' i = m i" "mem_write m off bs i = m i" if "i div 8 \<noteq> w" for i
  proof -
    have i: "i < off \<or> off + length bs \<le> i" using assms(2) that by (meson not_less)
    then show "m' i = m i" using torn_same_except [OF assms(1)] by (auto simp: same_except_def)
    show "mem_write m off bs i = m i" using i by (rule mem_write_outside)
  qed
  from assms(1) have "(\<forall>i. i div 8 = w \<longrightarrow> m' i = m i) \<or> (\<forall>i. i div 8 = w \<longrightarrow> m' i = mem_write m off bs i)"
    by (simp add: torn_write_def)
  then show ?thesis using outside by (metis ext)
qed

lemma same_word8:
  assumes "(off::nat) mod 8 = 0" and "off \<le> i" and "i < off + 8"
  shows "i div 8 = off div 8"
proof (rule div_nat_eqI)
  have "off div 8 * 8 = off" using assms(1) by (simp add: mod_0_imp_dvd)
  then show "8 * (off div 8) \<le> i" "i < 8 * Suc (off div 8)" using assms(2,3) by simp_all
qed

lemma same_word4:
  assumes "(off::nat) mod 4 = 0" and "off \<le> i" and "i < off + 4"
  shows "i div 8 = off div 8"
proof -
  have "i div 4 = off div 4"
  proof (rule div_nat_eqI)
    have "off div 4 * 4 = off" using assms(1) by (simp add: mod_0_imp_dvd)
    then show "4 * (off div 4) \<le> i" "i < 4 * Suc (off div 4)" using assms(2,3) by simp_all
  qed
  then show ?thesis using div_mult2_eq [of i 4 2] div_mult2_eq [of off 4 2] by simp
qed

lemma torn_atomic8:
  "torn_write m off bs m' \<Longrightarrow> length bs = 8 \<Longrightarrow> off mod 8 = 0 \<Longrightarrow> m' = m \<or> m' = mem_write m off bs"
  by (erule torn_atomic [where w = "off div 8"]) (rule same_word8, simp_all)

lemma torn_atomic4:
  "torn_write m off bs m' \<Longrightarrow> length bs = 4 \<Longrightarrow> off mod 4 = 0 \<Longrightarrow> m' = m \<or> m' = mem_write m off bs"
  by (erule torn_atomic [where w = "off div 8"]) (rule same_word4, simp_all)

section \<open>The namespace interface\<close>

locale ns_media =
  fixes cb :: "'ns ns_callback"
    and bytes :: "'ns \<Rightarrow> mem"
    and nsize :: "'ns \<Rightarrow> nat"
    and dead :: "'ns \<Rightarrow> bool"
  assumes nsread_ok:
      "unat off + unat count \<le> nsize s \<Longrightarrow>
       nsread cb s lane count off = Inr (mem_read (bytes s) (unat off) (unat count))"
    and nswrite_live:
      "\<not> dead s \<Longrightarrow> unat off + length buf \<le> nsize s \<Longrightarrow>
       (\<exists>s'. nswrite cb s lane buf off = (None, s') \<and> \<not> dead s' \<and> nsize s' = nsize s \<and>
          bytes s' = mem_write (bytes s) (unat off) buf) \<or>
       (\<exists>e s'. nswrite cb s lane buf off = (Some e, s') \<and> dead s' \<and> nsize s' = nsize s \<and>
          torn_write (bytes s) (unat off) buf (bytes s'))"
    and nswrite_dead:
      "dead s \<Longrightarrow> \<exists>e. nswrite cb s lane buf off = (Some e, s)"
    and nsize_bound: "nsize s < 2 ^ 64"

text \<open>A namespace that stays powered.\<close>

locale ns_reliable = ns_media cb bytes nsize "\<lambda>_. False"
  for cb :: "'ns ns_callback" and bytes :: "'ns \<Rightarrow> mem" and nsize :: "'ns \<Rightarrow> nat" +
  assumes nszero_ok:
      "unat off + unat count \<le> nsize s \<Longrightarrow>
       \<exists>s'. nszero cb s lane count off = (None, s') \<and> nsize s' = nsize s \<and>
         bytes s' = mem_write (bytes s) (unat off) (replicate (unat count) 0)"

section \<open>Invariant and view of a handle\<close>

text \<open>The info block at the start of the namespace describes the arena.\<close>

definition info_ok :: "'ns btt \<Rightarrow> mem \<Rightarrow> arena \<Rightarrow> bool" where
  "info_ok b m a \<longleftrightarrow>
     (case read_info b (mem_read m 0 4096) of
        None \<Rightarrow> False
      | Some info \<Rightarrow>
          info_external_lbasize info = lbasize b \<and> info_nfree info = nfree b \<and>
          info_external_nlba info = external_nlba a \<and> info_internal_nlba info = internal_nlba a \<and>
          info_internal_lbasize info = internal_lbasize a \<and> info_nextoff info = 0 \<and>
          info_dataoff info = dataoff a \<and> info_mapoff info = mapoff a \<and> info_flogoff info = flogoff a \<and>
          info_flags info = arena_flags a) \<and>
     startoff a = 0 \<and> nextoff a = 0"

definition btt_inv :: "'ns ns_callback \<Rightarrow> ('ns \<Rightarrow> mem) \<Rightarrow> ('ns \<Rightarrow> nat) \<Rightarrow> 'ns btt \<Rightarrow> bool" where
  "btt_inv cb bytes nsize b \<longleftrightarrow>
     ns_cbp b = cb \<and> laidout b \<and> narena b = 1 \<and> length (arenas b) = 1 \<and>
     0 < nlane b \<and> nlane b \<le> unat (nfree b) \<and> unat (nfree b) \<le> 256 \<and>
     BTT_MIN_SIZE \<le> rawsize b \<and>
     nlba b = ucast (external_nlba (arenas b ! 0)) \<and>
     arena_flags (arenas b ! 0) = 0 \<and>
     info_ok b (bytes (ns b)) (arenas b ! 0) \<and>
     arena_inv (unat (nfree b)) (unat (lbasize b)) (nsize (ns b)) (bytes (ns b)) (arenas b ! 0)"

definition btt_view :: "('ns \<Rightarrow> mem) \<Rightarrow> 'ns btt \<Rightarrow> nat \<Rightarrow> errno + byte list" where
  "btt_view bytes b i =
     (if unat (nlba b) \<le> i then Inl EINVAL
      else if laidout b then lba_content (unat (lbasize b)) (bytes (ns b)) (arenas b ! 0) i
      else Inr (replicate (unat (lbasize b)) 0))"

text \<open>
  What is on the media when power fails during a write: part of the data, or the data and the
  flog entry up to its first or second half, or everything.
\<close>

definition write_crash :: "mem \<Rightarrow> arena \<Rightarrow> nat \<Rightarrow> nat \<Rightarrow> byte list \<Rightarrow> mem \<Rightarrow> bool" where
  "write_crash m a l i buf m' \<longleftrightarrow>
     (let o1 = block_off a (free_block a l); m1 = mem_write m o1 buf in
      same_except m m' o1 (length buf) \<or> m' = stage2 m1 a l i \<or> m' = stage3 m1 a l i \<or> m' = stage4 m1 a l i)"

text \<open>The media of a write that went through.\<close>

definition write_done :: "mem \<Rightarrow> arena \<Rightarrow> nat \<Rightarrow> nat \<Rightarrow> byte list \<Rightarrow> mem \<Rightarrow> bool" where
  "write_done m a l i buf m' \<longleftrightarrow> m' = stage4 (mem_write m (block_off a (free_block a l)) buf) a l i"

lemma write_done_crash: "write_done m a l i buf m' \<Longrightarrow> write_crash m a l i buf m'"
  by (simp add: write_done_def write_crash_def Let_def)

text \<open>Two handles of the same device, with the same geometry.\<close>

definition same_dev :: "('ns \<Rightarrow> nat) \<Rightarrow> 'ns btt \<Rightarrow> 'ns btt \<Rightarrow> bool" where
  "same_dev nsize b b' \<longleftrightarrow> nlane b' = nlane b \<and> nlba b' = nlba b \<and> lbasize b' = lbasize b \<and>
     nfree b' = nfree b \<and> parent_uuid b' = parent_uuid b \<and> rawsize b' = rawsize b \<and>
     nsize (ns b') = nsize (ns b)"

text \<open>The outcome of reading a view.\<close>

definition view_outcome :: "errno + byte list \<Rightarrow> byte list outcome" where
  "view_outcome c = (case c of Inl e \<Rightarrow> Err e | Inr bs \<Rightarrow> Ok bs)"

lemma btt_invD:
  assumes "btt_inv cb bytes nsize b"
  shows "ns_cbp b = cb" "laidout b" "narena b = 1" "arenas b = [arenas b ! 0]"
    "0 < nlane b" "nlane b \<le> unat (nfree b)" "unat (nfree b) \<le> 256" "BTT_MIN_SIZE \<le> rawsize b"
    "nlba b = ucast (external_nlba (arenas b ! 0))" "arena_flags (arenas b ! 0) = 0"
    "info_ok b (bytes (ns b)) (arenas b ! 0)"
    "arena_inv (unat (nfree b)) (unat (lbasize b)) (nsize (ns b)) (bytes (ns b)) (arenas b ! 0)"
  using assms by (auto simp: btt_inv_def length_Suc_conv)

lemma info_ok_cong:
  "mem_read m' 0 4096 = mem_read m 0 4096 \<Longrightarrow> startoff a' = startoff a \<Longrightarrow> nextoff a' = nextoff a \<Longrightarrow>
   external_nlba a' = external_nlba a \<Longrightarrow> internal_nlba a' = internal_nlba a \<Longrightarrow>
   internal_lbasize a' = internal_lbasize a \<Longrightarrow> dataoff a' = dataoff a \<Longrightarrow> mapoff a' = mapoff a \<Longrightarrow>
   flogoff a' = flogoff a \<Longrightarrow> arena_flags a' = arena_flags a \<Longrightarrow> parent_uuid b' = parent_uuid b \<Longrightarrow>
   lbasize b' = lbasize b \<Longrightarrow> nfree b' = nfree b \<Longrightarrow> info_ok b' m' a' = info_ok b m a"
  by (simp add: info_ok_def read_info_def Let_def)

text \<open>The stages of a write stay clear of the info block.\<close>

lemma stages_info:
  assumes inv: "arena_inv nf lb sz m a" and l: "l < nf"
  shows "mem_read (stage2 m a l i) 0 4096 = mem_read m 0 4096"
    and "mem_read (stage3 m a l i) 0 4096 = mem_read m 0 4096"
    and "mem_read (stage4 m a l i) 0 4096 = mem_read m 0 4096"
  using slot_off_bounds(1) [OF inv l] arena_geomD(1,2,3) [OF arena_invD(1) [OF inv]]
  by (simp_all add: stage2_def stage3_def stage4_def mem_simps)

lemma data_info:
  "arena_geom nf lb sz a \<Longrightarrow> same_except m m' (block_off a n) k \<Longrightarrow> mem_read m' 0 4096 = mem_read m 0 4096"
  using arena_geomD(1) [of nf lb sz a] by (intro mem_read_same_except) (auto simp: block_off_def)

lemma map_align:
  assumes "arena_geom nf lb sz a"
  shows "(unat (mapoff a) + 4 * i) mod 4 = 0"
proof -
  have "(4::nat) dvd 8" by simp
  then have "4 dvd unat (mapoff a)"
    using arena_geomD(6) [OF assms] by (meson dvd_trans mod_0_imp_dvd)
  then show ?thesis by simp
qed

text \<open>The invariant and the view depend on the namespace through its bytes and size only.\<close>

lemma btt_inv_same:
  assumes "btt_inv cb bytes nsize b" and "nsize s' = nsize (ns b)" and "bytes s' = bytes (ns b)"
  shows "btt_inv cb bytes nsize (b\<lparr>ns := s'\<rparr>)" and "btt_view bytes (b\<lparr>ns := s'\<rparr>) = btt_view bytes b"
proof -
  have "info_ok (b\<lparr>ns := s'\<rparr>) m a = info_ok b m a" for m a by (rule info_ok_cong) simp_all
  then show "btt_inv cb bytes nsize (b\<lparr>ns := s'\<rparr>)" using assms by (simp add: btt_inv_def)
  show "btt_view bytes (b\<lparr>ns := s'\<rparr>) = btt_view bytes b"
    by (rule ext) (simp add: btt_view_def assms(3))
qed

text \<open>An LBA of the handle is an LBA of its arena.\<close>

lemma find_single:
  assumes inv: "btt_inv cb bytes nsize b" and lba: "lba < nlba b"
  shows "lba_to_arena_lba lba b = (Ok (0, ucast lba), b)"
    and "unat (ucast lba :: u32) = unat lba" and "unat lba < unat (external_nlba (arenas b ! 0))"
proof -
  note D = btt_invD [OF inv]
  have take1: "take (narena b) (arenas b) = [arenas b ! 0]"
    by (subst D(4)) (simp add: D(3))
  show "lba_to_arena_lba lba b = (Ok (0, ucast lba), b)"
    using D(2,9) lba by (simp add: lba_to_arena_lba_def take1 prog_simps)
  show lt: "unat lba < unat (external_nlba (arenas b ! 0))"
    using lba D(9) by (simp add: word_less_nat_alt unat_ucast_32_64)
  then show "unat (ucast lba :: u32) = unat lba"
    using unat_bound [of "external_nlba (arenas b ! 0)"] by (simp add: unat_ucast_mod)
qed

section \<open>Reading\<close>

text \<open>
  The source multiplies the whole entry, state bits included, by the block size; the product
  wraps at 32 bits and the state bits fall out because the block size is a multiple of 256.
\<close>

lemma entry_product_wraps:
  assumes "unat (lbs :: u32) mod 256 = 0" and "map_entry_is_normal e"
  shows "e * lbs = entry_lba e * lbs"
proof -
  obtain k where k: "unat lbs = 256 * k" using assms(1) by (metis mod_0_imp_dvd dvdE)
  have "lbs = of_nat (unat lbs)" by simp
  also have "\<dots> = 256 * of_nat k" by (simp add: k)
  finally have lbs: "lbs = 256 * of_nat k" .
  have disj: "entry_lba e AND BTT_MAP_ENTRY_NORMAL = 0"
    by (simp add: map_entry_consts and.assoc)
  have "e = entry_lba e OR BTT_MAP_ENTRY_NORMAL"
    using assms(2) entry_decompose [of e] by (simp add: map_entry_is_normal_def)
  also have "\<dots> = entry_lba e + BTT_MAP_ENTRY_NORMAL"
    using disjunctive_add_eq_or [OF disj] by simp
  finally have "e = entry_lba e + BTT_MAP_ENTRY_NORMAL" .
  then have "e * lbs = entry_lba e * lbs + BTT_MAP_ENTRY_NORMAL * (256 * of_nat k)"
    using lbs by (metis distrib_right)
  moreover have "BTT_MAP_ENTRY_NORMAL * 256 = 0"
    by (simp add: BTT_MAP_ENTRY_NORMAL_def)
  ultimately show ?thesis by (simp add: mult.assoc [symmetric])
qed

lemma normal_of_others:
  "\<not> map_entry_is_error e \<Longrightarrow> \<not> map_entry_is_zero_or_initial e \<Longrightarrow> map_entry_is_normal e \<and> \<not> map_entry_is_initial e"
  using map_entry_states [of e] by (auto simp: zero_or_initial_iff)

lemma data_block_off_rtt [simp]: "data_block_off (a\<lparr>rtt := r\<rparr>) e = data_block_off a e"
  by (simp add: data_block_off_def)

context ns_media
begin

lemma ns_read_ok:
  "ns_cbp b = cb \<Longrightarrow> unat off + unat count \<le> nsize (ns b) \<Longrightarrow>
   ns_read lane count off b = (Ok (mem_read (bytes (ns b)) (unat off) (unat count)), b)"
  by (simp add: ns_read_def nsread_ok)

lemma map_read_ok:
  assumes "ns_cbp b = cb" and "arena_geom nf lb (nsize (ns b)) a" and "unat i < unat (external_nlba a)"
  shows "ns_read lane 4 (map_entry_off a i) b =
    (Ok (mem_read (bytes (ns b)) (unat (mapoff a) + 4 * unat i) 4), b)"
  using assms unat_map_entry_off [OF assms(2,3)] arena_geomD(4) [OF assms(2)]
  by (subst ns_read_ok) auto

lemma btt_read_view:
  assumes inv: "btt_inv cb bytes nsize b" and lane: "lane < nlane b"
  shows "btt_read lane lba b = (view_outcome (btt_view bytes b (unat lba)), b)"
proof (cases "lba < nlba b")
  case False
  then show ?thesis
    by (simp add: btt_read_def invalid_lba_def not_less word_le_nat_alt btt_view_def view_outcome_def fail_def)
next
  case lba: True
  let ?a = "arenas b ! 0" and ?m = "bytes (ns b)" and ?i = "unat lba"
  let ?e = "map_raw ?m ?a ?i"
  note D = btt_invD [OF inv] and find = find_single [OF inv lba]
  note ainv = arena_invD [OF D(12)]
  have rd: "ns_read lane 4 (map_entry_off ?a (ucast lba)) b = (Ok (mem_read ?m (unat (mapoff ?a) + 4 * ?i) 4), b)"
    using map_read_ok [OF D(1) ainv(1), of "ucast lba"] find(2,3) by simp
  have dec: "le_dec (mem_read ?m (unat (mapoff ?a) + 4 * ?i) 4) = ?e" by (simp add: map_raw_def)
  have rtt: "lane < length (rtt ?a)" "(rtt ?a)[lane := BTT_MAP_ENTRY_ERROR] = rtt ?a"
    using ainv(3) D(6) lane by (simp_all add: list_update_same_conv)
  have data: "ns_read lane (ucast (lbasize b)) (data_block_off ?a ?e) b =
      (Ok (mem_read ?m (block_off ?a (map_block ?m ?a ?i)) (unat (lbasize b))), b)"
    if "\<not> map_entry_is_error ?e" "\<not> map_entry_is_zero_or_initial ?e"
  proof -
    have e: "map_entry_is_normal ?e" "\<not> map_entry_is_initial ?e" using normal_of_others that by auto
    then have blk: "map_block ?m ?a ?i = unat (entry_lba ?e)" by (simp add: map_block_def map_norm_def)
    then have lt: "unat (entry_lba ?e) < unat (internal_nlba ?a)"
      using blocks_okD(1) [OF ainv(5) find(3)] by simp
    have "data_block_off ?a ?e = data_block_off ?a (entry_lba ?e)"
      using entry_product_wraps [OF arena_geomD(8) [OF ainv(1)] e(1)] by (simp add: data_block_off_def)
    then have "unat (data_block_off ?a ?e) = block_off ?a (map_block ?m ?a ?i)"
      using unat_data_block_off [OF ainv(1) lt] blk by simp
    moreover have "block_off ?a (map_block ?m ?a ?i) + unat (lbasize b) \<le> nsize (ns b)"
      using block_off_bounds(2) [OF ainv(1)] lt blk arena_geomD(3,4) [OF ainv(1)] by fastforce
    ultimately show ?thesis using D(1) by (simp add: ns_read_ok unat_ucast_32_64)
  qed
  have arenas_id: "b\<lparr>arenas := (arenas b)[0 := ?a]\<rparr> = b" by simp
  show ?thesis
    using D(2) lba find(1) rd rtt data
    by (simp add: btt_read_def invalid_lba_def andthen_def gets_def with_arena_def on_btt_def
        btt_read_fuel_def numeral_2_eq_2 dec ret_def fail_def zero_block_def btt_view_def lba_content_def
        view_outcome_def Let_def word_less_nat_alt not_le)
qed

section \<open>Writing\<close>

text \<open>The outcomes of one write to a powered namespace.\<close>

lemma ns_write_cases:
  assumes "ns_cbp b = cb" and "\<not> dead (ns b)" and "unat off + length buf \<le> nsize (ns b)"
  obtains
    (ok) s' where "ns_write lane buf off b = (Ok (), b\<lparr>ns := s'\<rparr>)" "\<not> dead s'" "nsize s' = nsize (ns b)"
      "bytes s' = mem_write (bytes (ns b)) (unat off) buf"
  | (torn) e s' where "ns_write lane buf off b = (Err e, b\<lparr>ns := s'\<rparr>)" "dead s'" "nsize s' = nsize (ns b)"
      "torn_write (bytes (ns b)) (unat off) buf (bytes s')"
  using nswrite_live [OF assms(2,3), of lane]
proof (elim disjE exE conjE)
  fix s' assume "nswrite cb (ns b) lane buf off = (None, s')" "\<not> dead s'" "nsize s' = nsize (ns b)"
    "bytes s' = mem_write (bytes (ns b)) (unat off) buf"
  then show thesis by (intro ok [of s']) (simp_all add: ns_write_def assms(1))
next
  fix e s' assume "nswrite cb (ns b) lane buf off = (Some e, s')" "dead s'" "nsize s' = nsize (ns b)"
    "torn_write (bytes (ns b)) (unat off) buf (bytes s')"
  then show thesis by (intro torn [of e s']) (simp_all add: ns_write_def assms(1))
qed

lemma ns_write_dead:
  assumes "ns_cbp b = cb" and "dead (ns b)"
  obtains e where "ns_write lane buf off b = (Err e, b)"
  using nswrite_dead [OF assms(2), of lane buf off] assms(1) by (auto simp: ns_write_def)

lemma map_lock_ok:
  assumes "ns_cbp b = cb" and "arena_geom nf lb (nsize (ns b)) a" and "unat i < unat (external_nlba a)"
  shows "map_lock lane a i b = (Ok (map_norm (bytes (ns b)) a (unat i)), b)"
  using map_read_ok [OF assms, of lane]
  by (simp add: map_lock_def andthen_def ret_def map_norm_def map_raw_def)

lemma flog_update_cases:
  assumes cb: "ns_cbp b = cb" and live: "\<not> dead (ns b)"
    and inv: "arena_inv nf lb (nsize (ns b)) (bytes (ns b)) a" and l: "lane < nf" and i: "unat i < unat (external_nlba a)"
  defines "m \<equiv> bytes (ns b)"
  defines "upd \<equiv> flog_update lane i (map_norm m a (unat i)) (write_entry a lane) (a, b)"
  obtains
    (ok) s' where "upd = (Ok (), (written m a lane (unat i), b\<lparr>ns := s'\<rparr>))" "\<not> dead s'"
      "nsize s' = nsize (ns b)" "bytes s' = stage3 m a lane (unat i)"
  | (torn) e s' where "upd = (Err e, (a, b\<lparr>ns := s'\<rparr>))" "dead s'" "nsize s' = nsize (ns b)"
      "bytes s' \<in> {m, stage2 m a lane (unat i), stage3 m a lane (unat i)}"
proof -
  let ?f = "new_flog m a lane (unat i)" and ?off = "frt_entries (flogs a ! lane) ! frt_next (flogs a ! lane)"
  note fok = flog_okD [OF arena_invD(4) [OF inv l]] and slot = slot_off_bounds [OF inv l]
  have sz: "nsize (ns b) < 2 ^ 63" using arena_geomD(5) [OF arena_invD(1) [OF inv]] .
  have "?off = of_nat (slot_off a lane)" using fok(1,5) by (auto simp: slot_off_def)
  then have off: "unat ?off = slot_off a lane" "unat (?off + 8) = slot_off a lane + 8"
    using slot(2) sz by (simp_all add: unat_of_nat unat_word_ariths)
  have f: "\<lparr>flog_lba = i, flog_old_map = map_norm m a (unat i), flog_new_map = write_entry a lane,
      flog_seq = NSEQ (flog_seq (frt_flog (flogs a ! lane)))\<rparr> = ?f"
    by (simp add: new_flog_def)
  have wr: "a\<lparr>flogs := (flogs a)[lane := (flogs a ! lane)\<lparr>frt_next := 1 - frt_next (flogs a ! lane), frt_flog := ?f\<rparr>]\<rparr>
      = written m a lane (unat i)" by (simp add: written_def Let_def)
  have upd: "upd = andthen (on_btt (ns_write lane (take 8 (bytes_of_flog ?f)) ?off)) (\<lambda>_.
        andthen (on_btt (ns_write lane (drop 8 (bytes_of_flog ?f)) (?off + 8))) (\<lambda>_.
        upd_arena (\<lambda>x. x\<lparr>flogs := (flogs x)[lane := (flogs a ! lane)\<lparr>frt_next := 1 - frt_next (flogs a ! lane),
          frt_flog := ?f\<rparr>]\<rparr>))) (a, b)"
    using l arena_invD(2) [OF inv] by (simp add: upd_def flog_update_def Let_def f)
  have range: "unat ?off + length (take 8 (bytes_of_flog ?f)) \<le> nsize (ns b)" using off slot(2) by simp
  from cb live range show thesis
  proof (cases rule: ns_write_cases [where lane = lane])
    case (torn e s')
    then show ?thesis
      using that(2) [of e s'] torn_atomic8 [OF torn(4)] slot(3) off
      by (auto simp: upd andthen_def on_btt_def stage2_def m_def)
  next
    case (ok s1)
    let ?b1 = "b\<lparr>ns := s1\<rparr>"
    have m1: "bytes s1 = stage2 m a lane (unat i)" using ok(4) off by (simp add: stage2_def m_def)
    have st1: "ns_cbp ?b1 = cb" "\<not> dead (ns ?b1)"
      "unat (?off + 8) + length (drop 8 (bytes_of_flog ?f)) \<le> nsize (ns ?b1)" using off slot(2) ok cb by simp_all
    from st1 show ?thesis
    proof (cases rule: ns_write_cases [where lane = lane])
      case (torn e s')
      then show ?thesis
        using that(2) [of e s'] torn_atomic8 [OF torn(4)] slot(3) off ok(1,3) m1
        by (auto simp: upd andthen_def on_btt_def stage3_def)
    next
      case (ok s2)
      then show ?thesis
        using \<open>ns_write lane _ ?off b = _\<close> \<open>nsize s1 = _\<close> off m1
        by (intro that(1) [of s2]) (simp_all add: upd andthen_def on_btt_def stage3_def upd_arena_def update_def wr [symmetric])
    qed
  qed
qed

text \<open>Setting the error flag of an arena fails on a dead namespace and leaves it as it is.\<close>

lemma set_arena_error_dead:
  assumes "ns_cbp b = cb" and "dead (ns b)" and "unat (startoff a) + 4096 \<le> nsize (ns b)"
  obtains r a' where "set_arena_error lane (a, b) = (r, (a', b))" "r \<noteq> Stuck"
proof -
  let ?a = "a\<lparr>arena_flags := arena_flags a OR BTTINFO_FLAG_ERROR\<rparr>"
  have "\<exists>e. ns_write lane w (startoff a) b = (Err e, b)" for w
    using ns_write_dead [OF assms(1,2), of lane w "startoff a"] by blast
  then obtain e where e: "\<And>w. ns_write lane w (startoff a) b = (Err (e w), b)" by metis
  have "ns_read lane 4096 (startoff a) b = (Ok (mem_read (bytes (ns b)) (unat (startoff a)) 4096), b)"
    using ns_read_ok [OF assms(1), of "startoff a" 4096] assms(3) by simp
  with e have "\<exists>r. set_arena_error lane (a, b) = (r, (?a, b)) \<and> r \<noteq> Stuck"
    by (cases "laidout b")
      (simp_all add: set_arena_error_def arena_setf_def andthen_def upd_arena_def update_def on_btt_def ret_def Let_def)
  then show thesis using that by blast
qed

text \<open>The end of a write: the map entry, and the error flag when it cannot be written.\<close>

lemma map_commit_cases:
  fixes e :: u32 and lane :: nat
  assumes cb: "ns_cbp b = cb" and live: "\<not> dead (ns b)" and geom: "arena_geom nf lb (nsize (ns b)) a"
    and i: "unat i < unat (external_nlba a)" and start: "startoff a' = startoff a"
  defines "m' \<equiv> mem_write (bytes (ns b)) (unat (mapoff a) + 4 * unat i) (le_enc 4 e)"
  defines "w \<equiv> (case on_btt (map_unlock lane a e i) (a', b) of
      (Err e, s'') \<Rightarrow>
        (case set_arena_error lane s'' of (Stuck, s3) \<Rightarrow> (Stuck, s3) | (_, s3) \<Rightarrow> (Err EIO, s3))
    | r \<Rightarrow> r)"
  obtains
    (ok) s' where "w = (Ok (), (a', b\<lparr>ns := s'\<rparr>))" "\<not> dead s'" "nsize s' = nsize (ns b)" "bytes s' = m'"
  | (torn) a3 s' where "w = (Err EIO, (a3, b\<lparr>ns := s'\<rparr>))" "dead s'" "nsize s' = nsize (ns b)"
      "bytes s' = bytes (ns b) \<or> bytes s' = m'"
proof -
  let ?moff = "map_entry_off a i"
  have moff: "unat ?moff = unat (mapoff a) + 4 * unat i" using unat_map_entry_off(1) [OF geom i] .
  have range: "unat ?moff + length (le_enc 4 e) \<le> nsize (ns b)"
    using unat_map_entry_off(2) [OF geom i] arena_geomD(4) [OF geom] by simp
  from cb live range show thesis
  proof (cases rule: ns_write_cases [where lane = lane])
    case (ok s3)
    then show ?thesis
      using moff by (intro that(1) [of s3]) (simp_all add: w_def on_btt_def map_unlock_def m'_def)
  next
    case (torn e' s3)
    let ?b = "b\<lparr>ns := s3\<rparr>"
    have bytes3: "bytes s3 = bytes (ns b) \<or> bytes s3 = m'"
      using torn_atomic4 [OF torn(4)] moff map_align [OF geom, of "unat i"] by (simp add: m'_def)
    have "unat (startoff a') + 4096 \<le> nsize (ns ?b)"
      using arena_geomD(1,2,3,4) [OF geom] torn(3) start by simp
    then obtain r x where "set_arena_error lane (a', ?b) = (r, (x, ?b))" "r \<noteq> Stuck"
      using set_arena_error_dead [of ?b a' lane] cb torn(2) by auto
    then show ?thesis
      using torn bytes3
      by (intro that(2) [of x s3]) (auto simp: w_def on_btt_def map_unlock_def split: outcome.splits)
  qed
qed

lemma write_arena_cases:
  assumes cb: "ns_cbp b = cb" and live: "\<not> dead (ns b)"
    and inv: "arena_inv nf (length buf) (nsize (ns b)) (bytes (ns b)) a" and flags: "arena_flags a = 0"
    and l: "lane < nf" and i: "unat i < unat (external_nlba a)"
  defines "m \<equiv> bytes (ns b)"
  defines "m1 \<equiv> mem_write m (block_off a (free_block a lane)) buf"
  defines "w \<equiv> btt_write_arena lane i buf (a, b)"
  obtains
    (ok) s' where "w = (Ok (), (written m1 a lane (unat i), b\<lparr>ns := s'\<rparr>))" "\<not> dead s'"
      "nsize s' = nsize (ns b)" "bytes s' = stage4 m1 a lane (unat i)"
  | (torn) e a' s' where "w = (Err e, (a', b\<lparr>ns := s'\<rparr>))" "dead s'" "nsize s' = nsize (ns b)"
      "write_crash m a lane (unat i) buf (bytes s')"
proof -
  let ?e = "write_entry a lane" and ?n = "of_nat (free_block a lane) :: u32"
  let ?doff = "data_block_off a ?n"
  note geom = arena_invD(1) [OF inv] and blk = blocks_okD [OF arena_invD(5) [OF inv]]
  have n: "entry_lba ?e = ?n" "unat ?n = free_block a lane"
    by (simp_all add: write_entry_facts free_block_def)
  have doff: "unat ?doff = block_off a (free_block a lane)"
    using unat_data_block_off [OF geom, of ?n] n(2) blk(2) [OF l] by simp
  have data_end: "block_off a (free_block a lane) + length buf \<le> unat (mapoff a)"
    using block_off_bounds(2) [OF geom blk(2) [OF l]] .
  have top: "unat (mapoff a) + 4 * unat (external_nlba a) \<le> nsize (ns b)"
    using arena_geomD(3,4) [OF geom] by simp
  have "\<not> ?e \<in> set (take (nlane b) (rtt a))"
    using write_entry_facts(4) [of a lane] arena_invD(3) [OF inv]
    by (auto dest!: in_set_takeD simp: map_entry_is_error_def map_entry_consts)
  then have w: "w = andthen (on_btt (ns_write lane buf ?doff)) (\<lambda>_.
         andthen (on_btt (map_lock lane a i)) (\<lambda>old_entry s.
         case flog_update lane i old_entry ?e s of
           (Ok _, s') \<Rightarrow>
             (case on_btt (map_unlock lane a ?e i) s' of
                (Err e, s'') \<Rightarrow>
                  (case set_arena_error lane s'' of
                     (Stuck, s3) \<Rightarrow> (Stuck, s3)
                   | (_, s3) \<Rightarrow> (Err EIO, s3))
              | r \<Rightarrow> r)
         | (Err e, s') \<Rightarrow> andthen (on_btt (map_abort lane a i)) (\<lambda>_. fail e) s'
         | (Stuck, s') \<Rightarrow> (Stuck, s'))) (a, b)"
    using flags l arena_invD(2) [OF inv] n(1)
    by (simp add: w_def btt_write_arena_def Let_def write_entry_def [symmetric])
  have range: "unat ?doff + length buf \<le> nsize (ns b)" using doff data_end top by simp
  from cb live range show thesis
  proof (cases rule: ns_write_cases [where lane = lane])
    case (torn e s')
    have "same_except m (bytes s') (block_off a (free_block a lane)) (length buf)"
      using torn_same_except [OF torn(4)] doff by (simp add: m_def)
    then show ?thesis
      using torn by (intro that(2) [of e a s']) (simp_all add: w andthen_def on_btt_def write_crash_def)
  next
    case (ok s1)
    let ?b1 = "b\<lparr>ns := s1\<rparr>"
    have m1: "bytes s1 = m1" using ok(4) doff by (simp add: m1_def m_def)
    have b1: "ns_cbp ?b1 = cb" "\<not> dead (ns ?b1)" "arena_inv nf (length buf) (nsize (ns ?b1)) (bytes (ns ?b1)) a"
      using cb ok(2,3) m1 arena_inv_data [OF inv, of m1 "block_off a (free_block a lane)" "length buf"] data_end
      by (simp_all add: m1_def m_def)
    have lock: "map_lock lane a i ?b1 = (Ok (map_norm m1 a (unat i)), ?b1)"
      using map_lock_ok [OF b1(1) arena_invD(1) [OF b1(3)] i] m1 by simp
    from b1 l i show ?thesis
    proof (cases rule: flog_update_cases)
      case (torn e s')
      then show ?thesis
        using ok(1,3) lock m1
        by (intro that(2) [of e a s']) (auto simp: w andthen_def on_btt_def write_crash_def map_abort_def prog_simps m1_def Let_def)
    next
      case (ok s2)
      let ?b2 = "b\<lparr>ns := s2\<rparr>" and ?a2 = "written m1 a lane (unat i)"
      have upd: "flog_update lane i (map_norm m1 a (unat i)) ?e (a, ?b1) = (Ok (), (?a2, ?b2))"
        and bytes2: "bytes s2 = stage3 m1 a lane (unat i)" and sz2: "nsize s2 = nsize (ns b)"
        using ok m1 \<open>nsize s1 = _\<close> by simp_all
      have b2: "ns_cbp ?b2 = cb" "\<not> dead (ns ?b2)" "arena_geom nf (length buf) (nsize (ns ?b2)) a"
        using cb ok(2) sz2 geom by simp_all
      have "startoff ?a2 = startoff a" by simp
      with b2 i show ?thesis
      proof (cases rule: map_commit_cases [where lane = lane and e = ?e and a' = ?a2])
        case (ok s3)
        then show ?thesis
          using \<open>ns_write lane buf ?doff b = _\<close> lock upd sz2 bytes2
          by (intro that(1) [of s3]) (simp_all add: w andthen_def on_btt_def [of "ns_write _ _ _"]
              on_btt_def [of "map_lock _ _ _"] stage4_def)
      next
        case (torn a3 s3)
        then show ?thesis
          using \<open>ns_write lane buf ?doff b = _\<close> lock upd sz2 bytes2
          by (intro that(2) [of EIO a3 s3]) (auto simp: w andthen_def on_btt_def [of "ns_write _ _ _"]
              on_btt_def [of "map_lock _ _ _"] write_crash_def stage4_def m1_def Let_def)
      qed
    qed
  qed
qed

lemma btt_write_invalid: "nlba b \<le> lba \<Longrightarrow> btt_write lane lba buf b = (Err EINVAL, b)"
  by (simp add: btt_write_def invalid_lba_def fail_def)

lemma btt_write_in_arena:
  assumes inv: "btt_inv cb bytes nsize b" and lba: "lba < nlba b" and len: "length buf = unat (lbasize b)"
  shows "btt_write lane lba buf b = with_arena 0 (btt_write_arena lane (ucast lba) buf) b"
  using btt_invD(2) [OF inv] find_single(1) [OF inv lba] lba len
  by (simp add: btt_write_def invalid_lba_def ensure_layout_def andthen_def gets_def ret_def not_le [symmetric])

text \<open>
  A write to a valid LBA on a powered namespace: it returns and the view changes at that LBA only,
  or power fails and the media is in one of the states of \<open>write_crash\<close>.
\<close>

lemma btt_write_cases:
  assumes inv: "btt_inv cb bytes nsize b" and live: "\<not> dead (ns b)" and lba: "lba < nlba b"
    and lane: "lane < nlane b" and len: "length buf = unat (lbasize b)"
  obtains
    (ok) b' where "btt_write lane lba buf b = (Ok (), b')" "\<not> dead (ns b')" "same_dev nsize b b'"
      "btt_inv cb bytes nsize b'" "btt_view bytes b' = (btt_view bytes b)(unat lba := Inr buf)"
      "write_done (bytes (ns b)) (arenas b ! 0) lane (unat lba) buf (bytes (ns b'))"
  | (torn) e b' where "btt_write lane lba buf b = (Err e, b')" "dead (ns b')" "same_dev nsize b b'"
      "write_crash (bytes (ns b)) (arenas b ! 0) lane (unat lba) buf (bytes (ns b'))"
proof -
  let ?a = "arenas b ! 0" and ?m = "bytes (ns b)"
  note D = btt_invD [OF inv] and find = find_single [OF inv lba]
  let ?m1 = "mem_write ?m (block_off ?a (free_block ?a lane)) buf"
  have l: "lane < unat (nfree b)" using lane D(6) by simp
  have ainv: "arena_inv (unat (nfree b)) (length buf) (nsize (ns b)) ?m ?a" using D(12) len by simp
  have i: "unat (ucast lba :: u32) < unat (external_nlba ?a)" using find(2,3) by simp
  have data_end: "block_off ?a (free_block ?a lane) + length buf \<le> unat (mapoff ?a)"
    using block_off_bounds(2) [OF arena_invD(1) [OF ainv]] blocks_okD(2) [OF arena_invD(5) [OF ainv] l] .
  have inv1: "arena_inv (unat (nfree b)) (length buf) (nsize (ns b)) ?m1 ?a"
    by (rule arena_inv_data [OF ainv _ data_end]) simp
  note st4 = stage4_inv [OF inv1 l find(3)]
  have set0: "(arenas b)[0 := x] = [x]" for x using D(4) by (metis list_update_code(2))
  from D(1) live ainv D(10) l i show thesis
  proof (cases rule: write_arena_cases)
    case (ok s')
    let ?a' = "written ?m1 ?a lane (unat lba)"
    let ?b' = "b\<lparr>arenas := [?a'], ns := s'\<rparr>"
    have run: "btt_write lane lba buf b = (Ok (), ?b')"
      using ok(1) find(2) btt_write_in_arena [OF inv lba len] set0 by (simp add: with_arena_def)
    have bytes': "bytes s' = stage4 ?m1 ?a lane (unat lba)" using ok(4) find(2) by simp
    have info: "mem_read (bytes s') 0 4096 = mem_read ?m 0 4096"
      using stages_info(3) [OF inv1 l] bytes' data_info [OF arena_invD(1) [OF ainv] same_except_write, of "length buf" buf ?m]
      by simp
    have "info_ok ?b' (bytes s') ?a' = info_ok b ?m ?a"
      by (rule info_ok_cong) (simp_all add: info)
    then have inv': "btt_inv cb bytes nsize ?b'"
      using st4(1) D(1-3,5-11) ok(3) bytes' len by (simp add: btt_inv_def)
    have other: "lba_content (length buf) ?m1 ?a j = lba_content (length buf) ?m ?a j"
      if "j < unat (external_nlba ?a)" for j
      by (rule lba_content_data [OF ainv l _ that]) simp
    have "btt_view bytes ?b' j = ((btt_view bytes b)(unat lba := Inr buf)) j" for j
      using D(2,9) st4(2,3) other bytes' len find(3)
      by (auto simp: btt_view_def not_le unat_ucast_32_64)
    then have "btt_view bytes ?b' = (btt_view bytes b)(unat lba := Inr buf)" by blast
    then show ?thesis
      using run inv' ok(2,3) bytes' by (intro that(1) [of ?b']) (simp_all add: same_dev_def write_done_def)
  next
    case (torn e a' s')
    then show ?thesis
      using find(2) btt_write_in_arena [OF inv lba len]
      by (intro that(2) [of e "b\<lparr>arenas := (arenas b)[0 := a'], ns := s'\<rparr>"])
        (simp_all add: with_arena_def same_dev_def)
  qed
qed

section \<open>Marking blocks\<close>

text \<open>What a block marked by \<open>setf\<close> reads as.\<close>

lemma setf_media:
  assumes inv: "btt_inv cb bytes nsize b" and lba: "lba < nlba b"
    and setf: "setf = BTT_MAP_ENTRY_ZERO \<or> setf = BTT_MAP_ENTRY_ERROR"
    and sz: "nsize s' = nsize (ns b)"
    and bytes': "bytes s' = mem_write (bytes (ns b)) (unat (mapoff (arenas b ! 0)) + 4 * unat lba)
      (le_enc 4 (entry_lba (map_norm (bytes (ns b)) (arenas b ! 0) (unat lba)) OR setf))"
  shows "btt_inv cb bytes nsize (b\<lparr>ns := s'\<rparr>)"
    and "btt_view bytes (b\<lparr>ns := s'\<rparr>) = (btt_view bytes b)
      (unat lba := if setf = BTT_MAP_ENTRY_ZERO then Inr (replicate (unat (lbasize b)) 0) else Inl EIO)"
proof -
  let ?a = "arenas b ! 0" and ?b' = "b\<lparr>ns := s'\<rparr>"
  note D = btt_invD [OF inv] and i = find_single(3) [OF inv lba]
  note fl = set_flags_inv [OF D(12) i setf, folded bytes']
  have "mem_read (bytes s') 0 4096 = mem_read (bytes (ns b)) 0 4096"
    using arena_geomD(1,2) [OF arena_invD(1) [OF D(12)]] unfolding bytes'
    by (intro mem_read_write_disjoint) simp
  then have "info_ok ?b' (bytes s') ?a = info_ok b (bytes (ns b)) ?a"
    by (intro info_ok_cong) simp_all
  then show "btt_inv cb bytes nsize ?b'"
    using fl(1) D(1-3,5-11) inv sz by (simp add: btt_inv_def)
  show "btt_view bytes ?b' = (btt_view bytes b)
      (unat lba := if setf = BTT_MAP_ENTRY_ZERO then Inr (replicate (unat (lbasize b)) 0) else Inl EIO)"
    using fl(2,3) D(2,9) i by (auto simp: fun_eq_iff btt_view_def not_le unat_ucast_32_64)
qed

lemma setf_invalid: "nlba b \<le> lba \<Longrightarrow> map_entry_setf lane lba setf b = (Err EINVAL, b)"
  by (simp add: map_entry_setf_def invalid_lba_def fail_def)

lemma setf_cases:
  assumes inv: "btt_inv cb bytes nsize b" and live: "\<not> dead (ns b)" and lba: "lba < nlba b"
    and setf: "setf = BTT_MAP_ENTRY_ZERO \<or> setf = BTT_MAP_ENTRY_ERROR"
  defines "new \<equiv> (btt_view bytes b)
    (unat lba := if setf = BTT_MAP_ENTRY_ZERO then Inr (replicate (unat (lbasize b)) 0) else Inl EIO)"
  obtains
    (ok) b' where "map_entry_setf lane lba setf b = (Ok (), b')" "\<not> dead (ns b')" "same_dev nsize b b'"
      "btt_inv cb bytes nsize b'" "btt_view bytes b' = new"
  | (torn) e b' where "map_entry_setf lane lba setf b = (Err e, b')" "dead (ns b')" "same_dev nsize b b'"
      "btt_inv cb bytes nsize b'" "btt_view bytes b' = btt_view bytes b \<or> btt_view bytes b' = new"
proof -
  let ?a = "arenas b ! 0" and ?m = "bytes (ns b)" and ?i = "ucast lba :: u32"
  let ?old = "map_norm ?m ?a (unat lba)"
  let ?e = "entry_lba ?old OR setf" and ?skip = "setf = BTT_MAP_ENTRY_ZERO \<and> map_entry_is_zero_or_initial ?old"
  note D = btt_invD [OF inv] and find = find_single [OF inv lba]
  note geom = arena_invD(1) [OF D(12)]
  have i: "unat ?i < unat (external_nlba ?a)" using find(2,3) by simp
  have run: "map_entry_setf lane lba setf b =
      (if ?skip then (Ok (), b)
       else case ns_write lane (le_enc 4 ?e) (map_entry_off ?a ?i) b of (r, b') \<Rightarrow> (r, b'\<lparr>arenas := (arenas b')[0 := ?a]\<rparr>))"
    using D(2,10) lba find(1,2) map_lock_ok [OF D(1) geom i, of lane]
    by (simp add: map_entry_setf_def invalid_lba_def not_le [symmetric] ensure_layout_def andthen_def gets_def
        ret_def with_arena_def map_entry_setf_arena_def on_btt_def map_abort_def map_unlock_def
        split: prod.splits)
  have moff: "unat (map_entry_off ?a ?i) = unat (mapoff ?a) + 4 * unat lba"
    using unat_map_entry_off(1) [OF geom i] find(2) by simp
  show thesis
  proof (cases ?skip)
    case True
    then have "map_entry_is_zero ?old" "\<not> map_entry_is_initial (map_raw ?m ?a (unat lba))"
      using entry_lba_norm_initial [OF geom find(3)] state_build(1) [of "of_nat (unat lba)"]
        map_entry_states_disjoint
      by (auto simp: map_norm_def zero_or_initial_iff split: if_splits)
    then have "btt_view bytes b (unat lba) = Inr (replicate (unat (lbasize b)) 0)"
      using D(2,9) find(3) map_entry_states_disjoint(2)
      by (auto simp: btt_view_def lba_content_def map_norm_def zero_or_initial_iff not_le unat_ucast_32_64)
    then have "btt_view bytes b = new" using True by (auto simp: new_def fun_eq_iff)
    then show ?thesis using True run live inv by (intro that(1) [of b]) (simp_all add: same_dev_def)
  next
    case False
    have range: "unat (map_entry_off ?a ?i) + length (le_enc 4 ?e) \<le> nsize (ns b)"
      using unat_map_entry_off(2) [OF geom i] arena_geomD(4) [OF geom] by simp
    from D(1) live range show ?thesis
    proof (cases rule: ns_write_cases [where lane = lane])
      case (ok s')
      then show ?thesis
        using run False moff setf_media [OF inv lba setf ok(3)]
        by (intro that(1) [of "b\<lparr>ns := s'\<rparr>"]) (simp_all add: same_dev_def new_def)
    next
      case (torn e s')
      have "bytes s' = ?m \<or> bytes s' = mem_write ?m (unat (mapoff ?a) + 4 * unat lba) (le_enc 4 ?e)"
        using torn_atomic4 [OF torn(4)] moff map_align [OF geom, of "unat lba"] by simp
      then have "btt_inv cb bytes nsize (b\<lparr>ns := s'\<rparr>) \<and>
          (btt_view bytes (b\<lparr>ns := s'\<rparr>) = btt_view bytes b \<or> btt_view bytes (b\<lparr>ns := s'\<rparr>) = new)"
        using btt_inv_same [OF inv torn(3)] setf_media [OF inv lba setf torn(3)] by (auto simp: new_def)
      then show ?thesis
        using run False torn by (intro that(2) [of e "b\<lparr>ns := s'\<rparr>"]) (simp_all add: same_dev_def)
    qed
  qed
qed

end

end
