(* ===== verification/Btt_Recover.thy ===== *)
theory Btt_Recover
  imports Btt_Ops
begin

text \<open>
  Opening a namespace that holds a layout: \<open>btt_init\<close> rebuilds the run-time state from the
  media, and completes the one map update that a power failure may have left in the flog.
\<close>

section \<open>Flog pairs that need no recovery\<close>

definition lane_quiet :: "mem \<Rightarrow> arena \<Rightarrow> nat \<Rightarrow> bool" where
  "lane_quiet m a l \<longleftrightarrow> flog_ok m a l \<and>
     (let cur = frt_flog (flogs a ! l) in
      flog_old_map cur = flog_new_map cur \<or> map_norm m a (unat (flog_lba cur)) \<noteq> flog_old_map cur)"

text \<open>The fields of an arena that reading its flog uses.\<close>

definition same_geom :: "arena \<Rightarrow> arena \<Rightarrow> bool" where
  "same_geom a a0 \<longleftrightarrow> mapoff a0 = mapoff a \<and> external_nlba a0 = external_nlba a \<and> flogoff a0 = flogoff a"

lemma flog_lba_current:
  assumes "flog_ok m a l"
  shows "unat (flog_lba (frt_flog (flogs a ! l))) < unat (external_nlba a)"
  using flog_current_is [OF flog_okD(2) [OF assms]] flog_okD(4) [OF assms, of 0] flog_okD(4) [OF assms, of 1]
  by simp

lemma quiet_of_inv:
  assumes inv: "arena_inv nf lb sz m a" and l: "l < nf"
  shows "lane_quiet m a l"
proof -
  let ?cur = "frt_flog (flogs a ! l)"
  have "map_block m a (unat (flog_lba ?cur)) \<noteq> free_block a l"
    using blocks_okD(5) [OF arena_invD(5) [OF inv]] flog_lba_current [OF arena_invD(4) [OF inv l]] l by blast
  then have "map_norm m a (unat (flog_lba ?cur)) \<noteq> flog_old_map ?cur"
    by (auto simp: map_block_def free_block_def)
  then show ?thesis using arena_invD(4) [OF inv l] by (simp add: lane_quiet_def Let_def)
qed

lemma unat_flog_off:
  assumes "arena_geom nf lb sz a" and "l < nf"
  shows "unat (of_nat (flog_off a l) :: u64) = flog_off a l" and "flog_off a l + 32 \<le> sz" and "0 < flog_off a l"
proof -
  show pos: "flog_off a l + 32 \<le> sz" "0 < flog_off a l"
    using arena_geomD(1-4) [OF assms(1)] assms(2) by (simp_all add: flog_off_def)
  then have "flog_off a l < 2 ^ 64" using arena_geomD(5) [OF assms(1)] by simp
  then show "unat (of_nat (flog_off a l) :: u64) = flog_off a l" by (simp add: unat_of_nat)
qed

section \<open>The flog pair that a power failure left pending\<close>

lemma stage3_norm:
  assumes "arena_inv nf lb sz m a" and "l < nf" and "i < unat (external_nlba a)" and "j < unat (external_nlba a)"
  shows "map_norm (stage3 m a l i) a j = map_norm m a j"
  using stage3_inv(3) [OF assms] by (simp add: map_norm_def)

lemma quiet_beside_pending:
  assumes inv: "arena_inv nf lb sz m a" and L: "L < nf" and i: "i < unat (external_nlba a)"
    and l: "l < nf" "l \<noteq> L"
  shows "lane_quiet (stage3 m a L i) (written m a L i) l"
  using quiet_of_inv [OF inv l(1)] stage3_inv(1) [OF inv L i l(1)] stage3_norm [OF inv L i]
    flog_lba_current [OF arena_invD(4) [OF inv l(1)]] written_flogs(1) [OF l(2), of m a i]
  by (simp add: lane_quiet_def Let_def)

lemma pending_entry:
  assumes inv: "arena_inv nf lb sz m a" and L: "L < nf" and i: "i < unat (external_nlba a)"
  shows "map_norm m a i \<noteq> write_entry a L"
proof
  assume "map_norm m a i = write_entry a L"
  then have "map_block m a i = free_block a L"
    by (simp add: map_block_def write_entry_def free_block_def)
  then show False using blocks_okD(5) [OF arena_invD(5) [OF inv] i L] by blast
qed

context ns_media
begin

lemma read_flog_pair_ok:
  assumes cb: "ns_cbp b = cb" and geom: "arena_geom nf lb (nsize (ns b)) a" and l: "l < nf"
    and ok: "flog_ok (bytes (ns b)) a l" and nl: "nlba b = ucast (external_nlba a)" and nf: "lane < unat (nfree b)"
  shows "read_flog_pair lane (of_nat (flog_off a l)) (a0, b) =
    andthen (flog_recover lane (frt_flog (flogs a ! l))) (\<lambda>_. ret (flogs a ! l)) (a0, b)"
proof -
  let ?m = "bytes (ns b)" and ?off = "of_nat (flog_off a l) :: u64" and ?frt = "flogs a ! l"
  note uo = unat_flog_off [OF geom l] and okD = flog_okD [OF ok]
  have rd: "ns_read lane 32 ?off b = (Ok (mem_read ?m (flog_off a l) 32), b)"
    using ns_read_ok [OF cb, of ?off 32] uo by simp
  have slots: "flog_at (mem_read ?m (flog_off a l) 32) 0 = flog_slot ?m a l 0"
    "flog_at (mem_read ?m (flog_off a l) 32) 16 = flog_slot ?m a l 1"
    using flog_at_mem_read [of 0 32 ?m "flog_off a l"] flog_at_mem_read [of 16 32 ?m "flog_off a l"]
    by (simp_all add: flog_slot_def)
  have valid: "\<not> invalid_lba b (ucast (flog_lba (flog_slot ?m a l k)))" if "k < 2" for k
    using okD(4) [OF that] nl by (simp add: invalid_lba_def word_le_nat_alt unat_ucast_32_64)
  have "?off \<noteq> 0" using uo by (metis unat_0 less_numeral_extra(3))
  moreover have "zero_frt\<lparr>frt_entries := [?off, ?off + 16], frt_next := frt_next ?frt, frt_flog := frt_flog ?frt\<rparr> = ?frt"
    using okD(1) by (simp add: zero_frt_def)
  ultimately show ?thesis
    using rd slots valid [of 0] valid [of 1] okD(2) nf
    by (simp add: read_flog_pair_def Let_def andthen_def on_btt_def)
qed

lemma recover_quiet:
  assumes cb: "ns_cbp b = cb" and geom: "arena_geom nf lb (nsize (ns b)) a"
    and q: "lane_quiet (bytes (ns b)) a l" and same: "same_geom a a0"
  shows "flog_recover lane (frt_flog (flogs a ! l)) (a0, b) = (Ok (), (a0, b))"
proof -
  let ?cur = "frt_flog (flogs a ! l)"
  have i: "unat (flog_lba ?cur) < unat (external_nlba a)"
    using flog_lba_current [of "bytes (ns b)" a l] q by (simp add: lane_quiet_def)
  have off: "map_entry_off a0 = map_entry_off a" using same by (auto simp: same_geom_def map_entry_off_def)
  show ?thesis
    using map_read_ok [OF cb geom i, of lane] q
    by (auto simp: flog_recover_def lane_quiet_def Let_def off andthen_def on_btt_def ret_def map_norm_def map_raw_def
        split: if_splits)
qed

lemma read_flogs_quiet:
  assumes cb: "ns_cbp b = cb" and geom: "arena_geom nf lb (nsize (ns b)) a" and len: "length (flogs a) = nf"
    and nl: "nlba b = ucast (external_nlba a)" and nf: "lane < unat (nfree b)" and same: "same_geom a a0"
  shows "l + n = nf \<Longrightarrow> (\<And>k. l \<le> k \<Longrightarrow> k < nf \<Longrightarrow> lane_quiet (bytes (ns b)) a k) \<Longrightarrow>
    read_flogs_loop lane n (of_nat (flog_off a l)) (a0, b) = (Ok (drop l (flogs a)), (a0, b))"
proof (induction n arbitrary: l)
  case 0
  then show ?case using len by simp
next
  case (Suc n)
  have l: "l < nf" using Suc.prems(1) by simp
  have q: "lane_quiet (bytes (ns b)) a l" using Suc.prems(2) [of l] l by simp
  have next_off: "of_nat (flog_off a l) + roundup 32 BTT_FLOG_PAIR_ALIGN = (of_nat (flog_off a (Suc l)) :: u64)"
    by (simp add: roundup_def BTT_FLOG_PAIR_ALIGN_def flog_off_def)
  have pair: "read_flog_pair lane (of_nat (flog_off a l)) (a0, b) = (Ok (flogs a ! l), (a0, b))"
    using read_flog_pair_ok [OF cb geom l _ nl nf, of a0] recover_quiet [OF cb geom q same] q
    by (simp add: lane_quiet_def andthen_def ret_def)
  have rest: "read_flogs_loop lane n (of_nat (flog_off a (Suc l))) (a0, b) = (Ok (drop (Suc l) (flogs a)), (a0, b))"
    using Suc.prems by (intro Suc.IH) auto
  show ?case
    using pair rest next_off l len by (simp add: andthen_def ret_def Cons_nth_drop_Suc)
qed

lemma recover_pending:
  assumes cb: "ns_cbp b = cb" and live: "\<not> dead (ns b)"
    and inv: "arena_inv nf lb (nsize (ns b)) m a" and L: "L < nf" and i: "i < unat (external_nlba a)"
    and bytes: "bytes (ns b) = stage3 m a L i" and same: "same_geom a a0"
  defines "r \<equiv> flog_recover 0 (new_flog m a L i) (a0, b)"
  obtains
    (ok) s' where "r = (Ok (), (a0, b\<lparr>ns := s'\<rparr>))" "\<not> dead s'" "nsize s' = nsize (ns b)"
      "bytes s' = stage4 m a L i"
  | (torn) e s' where "r = (Err e, (a0, b\<lparr>ns := s'\<rparr>))" "dead s'" "nsize s' = nsize (ns b)"
      "bytes s' = stage3 m a L i \<or> bytes s' = stage4 m a L i"
proof -
  note geom = arena_invD(1) [OF inv]
  have ui: "unat (of_nat i :: u32) = i" using unat_of_nat_lba [OF geom i] .
  let ?off = "map_entry_off a (of_nat i)" and ?e = "write_entry a L"
  have off: "unat ?off = unat (mapoff a) + 4 * i"
    using unat_map_entry_off(1) [OF geom, of "of_nat i"] ui i by simp
  have read: "ns_read 0 4 ?off b = (Ok (mem_read (bytes (ns b)) (unat (mapoff a) + 4 * i) 4), b)"
    using map_read_ok [OF cb geom, of "of_nat i" 0] ui i by simp
  have dec: "le_dec (mem_read (bytes (ns b)) (unat (mapoff a) + 4 * i) 4) = map_raw (stage3 m a L i) a i"
    using bytes by (simp add: map_raw_def)
  have "map_entry_off a0 = map_entry_off a" using same by (auto simp: same_geom_def map_entry_off_def)
  moreover have "(if map_entry_is_initial (map_raw (stage3 m a L i) a i) then of_nat i OR BTT_MAP_ENTRY_NORMAL
      else map_raw (stage3 m a L i) a i) = map_norm m a i"
    using stage3_norm [OF inv L i i] by (simp add: map_norm_def)
  ultimately have r: "r = on_btt (ns_write 0 (le_enc 4 ?e) ?off) (a0, b)"
    using pending_entry [OF inv L i] read
    by (auto simp: r_def flog_recover_def new_flog_def Let_def andthen_def on_btt_def dec split: if_splits)
  have range: "unat ?off + length (le_enc 4 ?e) \<le> nsize (ns b)"
    using arena_geomD(3,4) [OF geom] off i by simp
  from cb live range show thesis
  proof (cases rule: ns_write_cases [where lane = 0])
    case (ok s')
    then show ?thesis
      using off bytes by (intro that(1) [of s']) (simp_all add: r on_btt_def stage4_def)
  next
    case (torn e s')
    have "bytes s' = stage3 m a L i \<or> bytes s' = stage4 m a L i"
      using torn_atomic4 [OF torn(4)] off map_align [OF geom, of i] bytes by (simp add: stage4_def)
    then show ?thesis
      using torn by (intro that(2) [of e s']) (simp_all add: r on_btt_def)
  qed
qed

lemma read_flogs_pending:
  assumes inv: "arena_inv nf lb sz m a" and L: "L < nf" and i: "i < unat (external_nlba a)"
    and same: "same_geom a a0" and start: "unat (startoff a0) + 4096 \<le> sz"
    and cb: "ns_cbp b = cb" and live: "\<not> dead (ns b)" and size: "nsize (ns b) = sz"
    and bytes: "bytes (ns b) = stage3 m a L i"
    and nl: "nlba b = ucast (external_nlba a)" and nf: "0 < unat (nfree b)"
  shows "l + n = nf \<Longrightarrow> l \<le> L \<Longrightarrow>
    (\<exists>s'. read_flogs_loop 0 n (of_nat (flog_off a l)) (a0, b) =
        (Ok (drop l (flogs (written m a L i))), (a0, b\<lparr>ns := s'\<rparr>)) \<and>
      \<not> dead s' \<and> nsize s' = sz \<and> bytes s' = stage4 m a L i) \<or>
    (\<exists>e a' s'. read_flogs_loop 0 n (of_nat (flog_off a l)) (a0, b) = (Err e, (a', b\<lparr>ns := s'\<rparr>)) \<and>
      dead s' \<and> nsize s' = sz \<and> bytes s' \<in> {stage3 m a L i, stage4 m a L i})"
proof (induction n arbitrary: l)
  case 0
  then show ?case using L by simp
next
  case (Suc n)
  let ?a' = "written m a L i"
  have l: "l < nf" using Suc.prems(1) by simp
  have geom: "arena_geom nf lb (nsize (ns b)) ?a'" using arena_invD(1) [OF inv] size by simp
  have len: "length (flogs ?a') = nf" using arena_invD(2) [OF inv] by simp
  have same': "same_geom ?a' a0" using same by (simp add: same_geom_def)
  have ok: "flog_ok (bytes (ns b)) ?a' l" using stage3_inv(1) [OF inv L i l] bytes by simp
  have next_off: "of_nat (flog_off a l) + roundup 32 BTT_FLOG_PAIR_ALIGN = (of_nat (flog_off a (Suc l)) :: u64)"
    by (simp add: roundup_def BTT_FLOG_PAIR_ALIGN_def flog_off_def)
  have pair: "read_flog_pair 0 (of_nat (flog_off a l)) (a0, b) =
      andthen (flog_recover 0 (frt_flog (flogs ?a' ! l))) (\<lambda>_. ret (flogs ?a' ! l)) (a0, b)"
    using read_flog_pair_ok [OF cb geom l ok _ nf, of a0] nl by simp
  have cons: "flogs ?a' ! l # drop (Suc l) (flogs ?a') = drop l (flogs ?a')"
    using l len by (simp add: Cons_nth_drop_Suc)
  show ?case
  proof (cases "l = L")
    case False
    have "flog_recover 0 (frt_flog (flogs ?a' ! l)) (a0, b) = (Ok (), (a0, b))"
      using recover_quiet [OF cb geom _ same'] quiet_beside_pending [OF inv L i l False] bytes by simp
    then have "read_flogs_loop 0 (Suc n) (of_nat (flog_off a l)) (a0, b) =
        andthen (read_flogs_loop 0 n (of_nat (flog_off a (Suc l)))) (\<lambda>frts. ret (flogs ?a' ! l # frts)) (a0, b)"
      using pair next_off by (simp add: andthen_def ret_def)
    then show ?thesis
      using Suc.IH [of "Suc l"] Suc.prems False cons by (fastforce simp: andthen_def ret_def)
  next
    case True
    have cur: "frt_flog (flogs ?a' ! L) = new_flog m a L i"
      using written_flogs(2) [of L a m i] L arena_invD(2) [OF inv] by simp
    have inv': "arena_inv nf lb (nsize (ns b)) m a" using inv size by simp
    from cb live inv' L i bytes same show ?thesis
    proof (cases rule: recover_pending)
      case (ok s')
      let ?b = "b\<lparr>ns := s'\<rparr>"
      have geom4: "arena_geom nf lb (nsize (ns ?b)) ?a'" using geom ok(3) by simp
      have quiet4: "lane_quiet (bytes (ns ?b)) ?a' k" if "k < nf" for k
        using quiet_of_inv [OF stage4_inv(1) [OF inv L i] that] ok(4) by simp
      have "read_flogs_loop 0 n (of_nat (flog_off ?a' (Suc l))) (a0, ?b) = (Ok (drop (Suc l) (flogs ?a')), (a0, ?b))"
        using Suc.prems(1) cb nl nf quiet4
        by (intro read_flogs_quiet [OF _ geom4 len _ _ same']) simp_all
      then show ?thesis
        using pair ok True cur next_off cons size
        by (intro disjI1 exI [of _ s']) (simp add: andthen_def ret_def)
    next
      case (torn e s')
      let ?b = "b\<lparr>ns := s'\<rparr>"
      have fail: "read_flog_pair 0 (of_nat (flog_off a l)) (a0, b) = (Err e, (a0, ?b))"
        using pair torn(1) True cur by (simp add: andthen_def)
      obtain r a' where "set_arena_error 0 (a0, ?b) = (r, (a', ?b))" "r \<noteq> Stuck"
        using set_arena_error_dead [of ?b a0 0] cb torn(2,3) start size by auto
      then have "\<exists>e'. read_flogs_loop 0 (Suc n) (of_nat (flog_off a l)) (a0, b) = (Err e', (a', ?b))"
        using fail by (cases r) (simp_all add: andthen_def fail_def)
      then show ?thesis using torn size by auto
    qed
  qed
qed

end

section \<open>Opening\<close>

lemma read_info_cong: "parent_uuid b' = parent_uuid b \<Longrightarrow> read_info b' bs = read_info b bs"
  by (simp add: read_info_def Let_def)

text \<open>The handle that \<open>btt_init\<close> builds for the device of \<open>b\<close>.\<close>

definition reopened :: "'ns btt \<Rightarrow> nat \<Rightarrow> 'ns \<Rightarrow> arena \<Rightarrow> 'ns btt" where
  "reopened b maxlane s a = b\<lparr>ns := s, arenas := [a], laidout := True,
     nlane := (if maxlane \<noteq> 0 \<and> maxlane < unat (nfree b) then maxlane else unat (nfree b))\<rparr>"

lemma ns_reopened [simp]: "ns (reopened b maxlane s a) = s"
  by (simp add: reopened_def)

text \<open>The handle while the arenas are being read.\<close>

definition scanned :: "'ns btt \<Rightarrow> 'ns \<Rightarrow> 'ns btt" where
  "scanned b s = b\<lparr>ns := s, arenas := [], laidout := False, nlane := 0\<rparr>"

context ns_media
begin

lemma scan_layout:
  assumes inv: "btt_inv cb bytes nsize b" and ok: "info_ok b (bytes s) a" and size: "4096 \<le> nsize s"
    and ext: "external_nlba a \<noteq> 0" "nlba b = ucast (external_nlba a)"
  shows "read_layout 0 (fresh_btt (rawsize b) (lbasize b) (parent_uuid b) s cb) = read_arenas 0 1 (scanned b s)"
proof -
  note D = btt_invD [OF inv]
  let ?b = "(fresh_btt (rawsize b) (lbasize b) (parent_uuid b) s cb)\<lparr>nfree := BTT_DEFAULT_NFREE\<rparr>"
  have rd: "ns_read 0 4096 0 ?b = (Ok (mem_read (bytes s) 0 4096), ?b)"
    using ns_read_ok [of ?b 0 4096 0] size by (simp add: fresh_btt_def)
  obtain info where info: "read_info b (mem_read (bytes s) 0 4096) = Some info"
    "info_external_lbasize info = lbasize b" "info_nfree info = nfree b"
    "info_external_nlba info = external_nlba a" "info_nextoff info = 0"
    using ok by (auto simp: info_ok_def split: option.splits)
  have info': "read_info ?b (mem_read (bytes s) 0 4096) = Some info"
    using info(1) read_info_cong [of ?b b] by (simp add: fresh_btt_def)
  have nf: "nfree b \<noteq> 0" using D(5,6) by (auto simp: unat_gt_0)
  have lt: "nfree b < - 1" using D(7) by (simp add: word_less_nat_alt unsigned_minus_1_eq_mask mask_eq_exp_minus_1)
  have scan: "read_layout_loop 0 (rawsize b) 0 0 (- 1) 0 ?b =
      (Ok (Layout 1 (nfree b) (ucast (external_nlba a))), ?b)"
    using D(8) rd info' info nf ext(1) lt
    by (subst read_layout_loop.simps) (simp add: not_less fresh_btt_def)
  have min: "(if nfree b < BTT_DEFAULT_NFREE then nfree b else BTT_DEFAULT_NFREE) = nfree b"
    using D(7) by (auto simp: BTT_DEFAULT_NFREE_def word_less_nat_alt word_unat_eq_iff)
  have "?b\<lparr>narena := 1, nlba := ucast (external_nlba a), nfree := nfree b\<rparr> = scanned b s"
    using D(1,3) ext(2) by (simp add: scanned_def fresh_btt_def)
  then show ?thesis
    using D(8) scan min
    by (simp add: read_layout_def andthen_def gets_def assert_def update_def fresh_btt_def)
qed

lemma read_arena_at_0:
  assumes cb: "ns_cbp c = cb" and ok: "info_ok c (bytes (ns c)) a" and size: "4096 \<le> nsize (ns c)"
  shows "read_arena lane 0 (zero_arena, c) =
    (case read_flogs_loop lane (unat (nfree c)) (flogoff a) (a\<lparr>flogs := [], rtt := []\<rparr>, c) of
       (Ok frts, (a1, b1)) \<Rightarrow>
         (Ok (), (a1\<lparr>flogs := frts, rtt := replicate (unat (nfree b1)) BTT_MAP_ENTRY_ERROR\<rparr>, b1))
     | (Err e, s1) \<Rightarrow> (Err e, s1)
     | (Stuck, s1) \<Rightarrow> (Stuck, s1))"
proof -
  let ?bs = "mem_read (bytes (ns c)) 0 4096"
  have rd: "ns_read lane 4096 0 c = (Ok ?bs, c)"
    using ns_read_ok [OF cb, of 0 4096 lane] size by simp
  have info: "info_external_nlba (info_of_bytes ?bs) = external_nlba a"
    "info_internal_nlba (info_of_bytes ?bs) = internal_nlba a"
    "info_internal_lbasize (info_of_bytes ?bs) = internal_lbasize a"
    "info_dataoff (info_of_bytes ?bs) = dataoff a" "info_mapoff (info_of_bytes ?bs) = mapoff a"
    "info_flogoff (info_of_bytes ?bs) = flogoff a" "info_nextoff (info_of_bytes ?bs) = nextoff a"
    "info_flags (info_of_bytes ?bs) = arena_flags a" "startoff a = 0"
    using ok by (auto simp: info_ok_def read_info_def Let_def split: option.splits if_splits)
  have "zero_arena\<lparr>arena_flags := arena_flags a, external_nlba := external_nlba a,
      internal_lbasize := internal_lbasize a, internal_nlba := internal_nlba a, startoff := 0,
      dataoff := dataoff a, mapoff := mapoff a, flogoff := flogoff a, nextoff := nextoff a\<rparr> =
      a\<lparr>flogs := [], rtt := []\<rparr>"
    using info(9) by (simp add: zero_arena_def)
  then show ?thesis
    using rd info
    by (simp add: read_arena_def read_flogs_def build_rtt_def andthen_def on_btt_def upd_arena_def update_def
        split: prod.splits outcome.splits)
qed

text \<open>Reading the one arena of a handle whose media is settled.\<close>

lemma read_arenas_settled:
  assumes cb: "ns_cbp c = cb" and ok: "info_ok c (bytes (ns c)) a"
    and ainv: "arena_inv (unat (nfree c)) lb (nsize (ns c)) (bytes (ns c)) a"
    and nl: "nlba c = ucast (external_nlba a)" and lane: "lane < unat (nfree c)"
  shows "read_arenas lane 1 c = (Ok (), c\<lparr>arenas := [a], laidout := True\<rparr>)"
proof -
  note A = arena_invD [OF ainv]
  let ?a0 = "a\<lparr>flogs := [], rtt := []\<rparr>"
  have size: "4096 \<le> nsize (ns c)" using arena_geomD(1-4) [OF A(1)] by simp
  have "read_flogs_loop lane (unat (nfree c)) (of_nat (flog_off a 0)) (?a0, c) = (Ok (drop 0 (flogs a)), (?a0, c))"
    using A(1,2) cb lane nl quiet_of_inv [OF ainv]
    by (intro read_flogs_quiet [where nf = "unat (nfree c)" and lb = lb]) (auto simp: same_geom_def)
  then have "read_arena lane 0 (zero_arena, c) = (Ok (), (a, c))"
    using read_arena_at_0 [OF cb ok size, of lane] A(3) by (simp add: flog_off_def)
  then show ?thesis by (simp add: read_arenas_def andthen_def ret_def)
qed

lemma btt_init_flogs:
  assumes inv: "btt_inv cb bytes nsize b" and ok: "info_ok b (bytes s) a" and size: "4096 \<le> nsize s"
    and ext: "external_nlba a \<noteq> 0" "nlba b = ucast (external_nlba a)"
  shows "btt_init (rawsize b) (lbasize b) (parent_uuid b) maxlane s cb =
    (case read_flogs_loop 0 (unat (nfree b)) (flogoff a) (a\<lparr>flogs := [], rtt := []\<rparr>, scanned b s) of
       (Ok frts, (a1, b1)) \<Rightarrow>
         let a2 = a1\<lparr>flogs := frts, rtt := replicate (unat (nfree b1)) BTT_MAP_ENTRY_ERROR\<rparr>;
             b2 = b1\<lparr>arenas := [a2], laidout := True\<rparr> in
         (Ok (b2\<lparr>nlane := (if maxlane \<noteq> 0 \<and> maxlane < unat (nfree b2) then maxlane else unat (nfree b2))\<rparr>), ns b1)
     | (Err e, (a1, b1)) \<Rightarrow> (Err e, ns b1)
     | (Stuck, (a1, b1)) \<Rightarrow> (Stuck, ns b1))"
proof -
  obtain q a1 b1 where loop:
    "read_flogs_loop 0 (unat (nfree b)) (flogoff a) (a\<lparr>flogs := [], rtt := []\<rparr>, scanned b s) = (q, (a1, b1))"
    by (metis prod.exhaust)
  have info: "info_ok (scanned b s) (bytes s) a"
    using ok by (subst info_ok_cong [where m = "bytes s" and a = a and b = b]) (simp_all add: scanned_def)
  have sc: "ns_cbp (scanned b s) = ns_cbp b" "ns (scanned b s) = s" "nfree (scanned b s) = nfree b"
    by (simp_all add: scanned_def)
  have "\<not> rawsize b < BTT_MIN_SIZE" using btt_invD(8) [OF inv] by (simp add: not_less)
  then show ?thesis
    using sc scan_layout [OF assms] read_arena_at_0 [of "scanned b s" a 0] loop info size btt_invD(1) [OF inv]
    by (cases q) (simp_all add: loop btt_init_def read_arenas_def andthen_def ret_def Let_def)
qed

lemma reopened_inv:
  assumes inv: "btt_inv cb bytes nsize b" and info: "info_ok b (bytes s) a"
    and ainv: "arena_inv (unat (nfree b)) (unat (lbasize b)) (nsize s) (bytes s) a"
    and flags: "arena_flags a = 0" and nl: "nlba b = ucast (external_nlba a)"
  shows "btt_inv cb bytes nsize (reopened b maxlane s a)"
proof -
  have "info_ok (reopened b maxlane s a) (bytes s) a = info_ok b (bytes s) a"
    by (rule info_ok_cong) (simp_all add: reopened_def)
  then show ?thesis
    using btt_invD(1,3,5-8) [OF inv] info ainv flags nl by (auto simp: btt_inv_def reopened_def)
qed

text \<open>Media on which nothing is pending: the state comes back as it was.\<close>

lemma btt_init_settled:
  assumes inv: "btt_inv cb bytes nsize b" and info: "info_ok b (bytes s) a"
    and ainv: "arena_inv (unat (nfree b)) (unat (lbasize b)) (nsize s) (bytes s) a"
    and nl: "nlba b = ucast (external_nlba a)"
  shows "btt_init (rawsize b) (lbasize b) (parent_uuid b) maxlane s cb = (Ok (reopened b maxlane s a), s)"
proof -
  note D = btt_invD [OF inv] and A = arena_invD [OF ainv]
  let ?a0 = "a\<lparr>flogs := [], rtt := []\<rparr>" and ?b0 = "scanned b s"
  have ext: "external_nlba a \<noteq> 0" using arena_geomD(14) [OF A(1)] by auto
  have size: "4096 \<le> nsize s" using arena_geomD(1-4) [OF A(1)] by simp
  have off0: "of_nat (flog_off a 0) = flogoff a" by (simp add: flog_off_def)
  have "read_flogs_loop 0 (unat (nfree b)) (of_nat (flog_off a 0)) (?a0, ?b0) = (Ok (drop 0 (flogs a)), (?a0, ?b0))"
    using A(1,2) D(1,5,6) nl quiet_of_inv [OF ainv]
    by (intro read_flogs_quiet [where nf = "unat (nfree b)" and lb = "unat (lbasize b)"])
      (auto simp: scanned_def same_geom_def)
  then show ?thesis
    using btt_init_flogs [OF inv info size ext nl, of maxlane] off0 A(3)
    by (simp add: scanned_def reopened_def Let_def)
qed

lemma btt_init_pending:
  fixes maxlane :: nat
  assumes inv: "btt_inv cb bytes nsize b" and live: "\<not> dead s" and info: "info_ok b (bytes s) a"
    and ainv: "arena_inv (unat (nfree b)) (unat (lbasize b)) (nsize s) m a" and L: "L < unat (nfree b)"
    and i: "i < unat (external_nlba a)" and bytes: "bytes s = stage3 m a L i"
    and nl: "nlba b = ucast (external_nlba a)"
  defines "r \<equiv> btt_init (rawsize b) (lbasize b) (parent_uuid b) maxlane s cb"
  shows "(\<exists>s'. r = (Ok (reopened b maxlane s' (written m a L i)), s') \<and> \<not> dead s' \<and> nsize s' = nsize s \<and>
      bytes s' = stage4 m a L i) \<or>
    (\<exists>e s'. r = (Err e, s') \<and> dead s' \<and> nsize s' = nsize s \<and> bytes s' \<in> {stage3 m a L i, stage4 m a L i})"
proof -
  note D = btt_invD [OF inv] and A = arena_invD [OF ainv]
  let ?a0 = "a\<lparr>flogs := [], rtt := []\<rparr>" and ?b0 = "scanned b s"
  have ext: "external_nlba a \<noteq> 0" using arena_geomD(14) [OF A(1)] by auto
  have size: "4096 \<le> nsize s" "unat (startoff a) + 4096 \<le> nsize s" using arena_geomD(1-4) [OF A(1)] by simp_all
  have off0: "of_nat (flog_off a 0) = flogoff a" by (simp add: flog_off_def)
  have r: "r = (case read_flogs_loop 0 (unat (nfree b)) (of_nat (flog_off a 0)) (?a0, ?b0) of
       (Ok frts, (a1, b1)) \<Rightarrow>
         let a2 = a1\<lparr>flogs := frts, rtt := replicate (unat (nfree b1)) BTT_MAP_ENTRY_ERROR\<rparr>;
             b2 = b1\<lparr>arenas := [a2], laidout := True\<rparr> in
         (Ok (b2\<lparr>nlane := (if maxlane \<noteq> 0 \<and> maxlane < unat (nfree b2) then maxlane else unat (nfree b2))\<rparr>), ns b1)
     | (Err e, (a1, b1)) \<Rightarrow> (Err e, ns b1)
     | (Stuck, (a1, b1)) \<Rightarrow> (Stuck, ns b1))"
    using btt_init_flogs [OF inv info size(1) ext nl, of maxlane] off0 by (simp add: r_def)
  have "(\<exists>s'. read_flogs_loop 0 (unat (nfree b)) (of_nat (flog_off a 0)) (?a0, ?b0) =
        (Ok (drop 0 (flogs (written m a L i))), (?a0, ?b0\<lparr>ns := s'\<rparr>)) \<and>
      \<not> dead s' \<and> nsize s' = nsize s \<and> bytes s' = stage4 m a L i) \<or>
    (\<exists>e a' s'. read_flogs_loop 0 (unat (nfree b)) (of_nat (flog_off a 0)) (?a0, ?b0) = (Err e, (a', ?b0\<lparr>ns := s'\<rparr>)) \<and>
      dead s' \<and> nsize s' = nsize s \<and> bytes s' \<in> {stage3 m a L i, stage4 m a L i})"
    using D(1,5,6) live bytes nl size
    by (intro read_flogs_pending [OF ainv L i]) (auto simp: same_geom_def scanned_def)
  then show ?thesis
  proof (elim disjE exE conjE)
    fix s' assume run: "read_flogs_loop 0 (unat (nfree b)) (of_nat (flog_off a 0)) (?a0, ?b0) =
        (Ok (drop 0 (flogs (written m a L i))), (?a0, ?b0\<lparr>ns := s'\<rparr>))"
      and s': "\<not> dead s'" "nsize s' = nsize s" "bytes s' = stage4 m a L i"
    have "r = (Ok (reopened b maxlane s' (written m a L i)), s')"
      unfolding r run using A(3) by (simp add: reopened_def scanned_def Let_def written_def)
    then show ?thesis using s' by blast
  next
    fix e a' s' assume "read_flogs_loop 0 (unat (nfree b)) (of_nat (flog_off a 0)) (?a0, ?b0) = (Err e, (a', ?b0\<lparr>ns := s'\<rparr>))"
      "dead s'" "nsize s' = nsize s" "bytes s' \<in> {stage3 m a L i, stage4 m a L i}"
    then show ?thesis unfolding r by (intro disjI2 exI [of _ e] exI [of _ s']) simp
  qed
qed

section \<open>Recovery after a power failure\<close>

lemma reopened_view:
  assumes inv: "btt_inv cb bytes nsize b" and "external_nlba a = external_nlba (arenas b ! 0)"
    and "\<And>j. j < unat (external_nlba a) \<Longrightarrow> lba_content (unat (lbasize b)) (bytes s) a j = v j"
  shows "btt_view bytes (reopened b maxlane s a) = (\<lambda>j. if unat (nlba b) \<le> j then Inl EINVAL else v j)"
  using assms(2,3) btt_invD(9) [OF inv]
  by (auto simp: fun_eq_iff btt_view_def reopened_def not_le unat_ucast_32_64)

lemma view_restrict:
  assumes "btt_inv cb bytes nsize b"
  shows "(\<lambda>j. if unat (nlba b) \<le> j then Inl EINVAL
      else lba_content (unat (lbasize b)) (bytes (ns b)) (arenas b ! 0) j) = btt_view bytes b"
  using btt_invD(2) [OF assms] by (simp add: fun_eq_iff btt_view_def)

text \<open>The facts about the write of \<open>buf\<close> to \<open>lba\<close> through \<open>lane\<close> that recovery starts from.\<close>

lemma write_setting:
  assumes inv: "btt_inv cb bytes nsize b" and lba: "lba < nlba b" and lane: "lane < nlane b"
    and len: "length buf = unat (lbasize b)" and size: "nsize s = nsize (ns b)"
  defines "a \<equiv> arenas b ! 0"
  defines "m \<equiv> bytes (ns b)"
  defines "o1 \<equiv> block_off a (free_block a lane)"
  defines "m1 \<equiv> mem_write m o1 buf"
  shows "lane < unat (nfree b)" and "unat lba < unat (external_nlba a)"
    and "arena_inv (unat (nfree b)) (length buf) (nsize s) m a"
    and "o1 + length buf \<le> unat (mapoff a)"
    and "arena_inv (unat (nfree b)) (length buf) (nsize s) m1 a"
    and "j < unat (external_nlba a) \<Longrightarrow> lba_content (length buf) m1 a j = lba_content (length buf) m a j"
    and "mem_read m1 0 4096 = mem_read m 0 4096"
proof -
  note D = btt_invD [OF inv]
  show l: "lane < unat (nfree b)" using lane D(6) by simp
  show i: "unat lba < unat (external_nlba a)" using find_single(3) [OF inv lba] by (simp add: a_def)
  show ainv: "arena_inv (unat (nfree b)) (length buf) (nsize s) m a" using D(12) len size by (simp add: a_def m_def)
  note geom = arena_invD(1) [OF ainv]
  show data_end: "o1 + length buf \<le> unat (mapoff a)"
    using block_off_bounds(2) [OF geom blocks_okD(2) [OF arena_invD(5) [OF ainv] l]] by (simp add: o1_def)
  show "arena_inv (unat (nfree b)) (length buf) (nsize s) m1 a"
    unfolding m1_def by (rule arena_inv_data [OF ainv _ data_end]) simp
  show "lba_content (length buf) m1 a j = lba_content (length buf) m a j" if "j < unat (external_nlba a)"
    unfolding m1_def o1_def by (rule lba_content_data [OF ainv l _ that]) simp
  show "mem_read m1 0 4096 = mem_read m 0 4096"
    unfolding m1_def o1_def by (rule data_info [OF geom same_except_write]) simp
qed

text \<open>A namespace on which the write went through opens with the new contents.\<close>

lemma reopened_complete:
  fixes maxlane :: nat
  assumes inv: "btt_inv cb bytes nsize b" and lba: "lba < nlba b" and lane: "lane < nlane b"
    and len: "length buf = unat (lbasize b)" and size: "nsize s = nsize (ns b)"
    and fin: "write_done (bytes (ns b)) (arenas b ! 0) lane (unat lba) buf (bytes s)"
  defines "a' \<equiv> written (mem_write (bytes (ns b)) (block_off (arenas b ! 0) (free_block (arenas b ! 0) lane)) buf)
    (arenas b ! 0) lane (unat lba)"
  shows "btt_inv cb bytes nsize (reopened b maxlane s a')"
    and "btt_view bytes (reopened b maxlane s a') = (btt_view bytes b)(unat lba := Inr buf)"
    and "btt_init (rawsize b) (lbasize b) (parent_uuid b) maxlane s cb = (Ok (reopened b maxlane s a'), s)"
proof -
  note D = btt_invD [OF inv] and W = write_setting [OF inv lba lane len size]
  note st4 = stage4_inv [OF W(5,1,2)] and bytes' = fin [unfolded write_done_def]
  have ok: "info_ok b (bytes s) a'"
    using D(11) stages_info(3) [OF W(5,1)] W(7) bytes'
    by (subst info_ok_cong [where m = "bytes (ns b)" and a = "arenas b ! 0" and b = b]) (simp_all add: a'_def)
  have ainv: "arena_inv (unat (nfree b)) (unat (lbasize b)) (nsize s) (bytes s) a'"
    using st4(1) bytes' len by (simp add: a'_def)
  have nl: "nlba b = ucast (external_nlba a')" and flags: "arena_flags a' = 0" using D(9,10) by (simp_all add: a'_def)
  show "btt_inv cb bytes nsize (reopened b maxlane s a')" by (rule reopened_inv [OF inv ok ainv flags nl])
  show "btt_init (rawsize b) (lbasize b) (parent_uuid b) maxlane s cb = (Ok (reopened b maxlane s a'), s)"
    by (rule btt_init_settled [OF inv ok ainv nl])
  have "btt_view bytes (reopened b maxlane s a') j = ((btt_view bytes b)(unat lba := Inr buf)) j" for j
    using st4(2,3) W(2,6) bytes' D(2,9) len by (auto simp: btt_view_def reopened_def not_le unat_ucast_32_64 a'_def)
  then show "btt_view bytes (reopened b maxlane s a') = (btt_view bytes b)(unat lba := Inr buf)" by blast
qed

text \<open>A namespace on which the flog entry was not completed opens with the old contents.\<close>

lemma reopened_old:
  fixes maxlane :: nat
  assumes inv: "btt_inv cb bytes nsize b" and len: "length buf = unat (lbasize b)"
    and ainv: "arena_inv (unat (nfree b)) (length buf) (nsize s) (bytes s) (arenas b ! 0)"
    and info: "mem_read (bytes s) 0 4096 = mem_read (bytes (ns b)) 0 4096"
    and old: "\<And>j. j < unat (external_nlba (arenas b ! 0)) \<Longrightarrow>
      lba_content (length buf) (bytes s) (arenas b ! 0) j = lba_content (length buf) (bytes (ns b)) (arenas b ! 0) j"
  shows "btt_inv cb bytes nsize (reopened b maxlane s (arenas b ! 0))"
    and "btt_view bytes (reopened b maxlane s (arenas b ! 0)) = btt_view bytes b"
    and "btt_init (rawsize b) (lbasize b) (parent_uuid b) maxlane s cb = (Ok (reopened b maxlane s (arenas b ! 0)), s)"
proof -
  note D = btt_invD [OF inv]
  have ok: "info_ok b (bytes s) (arenas b ! 0)"
    using D(11) by (subst info_ok_cong [where m = "bytes (ns b)" and a = "arenas b ! 0" and b = b]) (simp_all add: info)
  have ainv': "arena_inv (unat (nfree b)) (unat (lbasize b)) (nsize s) (bytes s) (arenas b ! 0)" using ainv len by simp
  show "btt_inv cb bytes nsize (reopened b maxlane s (arenas b ! 0))" by (rule reopened_inv [OF inv ok ainv' D(10,9)])
  show "btt_init (rawsize b) (lbasize b) (parent_uuid b) maxlane s cb = (Ok (reopened b maxlane s (arenas b ! 0)), s)"
    by (rule btt_init_settled [OF inv ok ainv' D(9)])
  have "btt_view bytes (reopened b maxlane s (arenas b ! 0)) j = btt_view bytes b j" for j
    using old D(2,9) len by (auto simp: btt_view_def reopened_def not_le unat_ucast_32_64)
  then show "btt_view bytes (reopened b maxlane s (arenas b ! 0)) = btt_view bytes b" by blast
qed

text \<open>
  Whatever a power failure during a write left on the media, opening it again gives a handle with
  its invariant that shows the old or the new contents of the LBA, and the old contents elsewhere;
  or power fails again and the media is still one of those states.
\<close>

lemma btt_init_recovers:
  fixes maxlane :: nat
  assumes inv: "btt_inv cb bytes nsize b" and lba: "lba < nlba b" and lane: "lane < nlane b"
    and len: "length buf = unat (lbasize b)"
    and crash: "write_crash (bytes (ns b)) (arenas b ! 0) lane (unat lba) buf (bytes s)"
    and s: "\<not> dead s" "nsize s = nsize (ns b)"
  defines "r \<equiv> btt_init (rawsize b) (lbasize b) (parent_uuid b) maxlane s cb"
  shows "(\<exists>b'. r = (Ok b', ns b') \<and> \<not> dead (ns b') \<and> btt_inv cb bytes nsize b' \<and> nsize (ns b') = nsize (ns b) \<and>
      write_crash (bytes (ns b)) (arenas b ! 0) lane (unat lba) buf (bytes (ns b')) \<and>
      (btt_view bytes b' = btt_view bytes b \<or> btt_view bytes b' = (btt_view bytes b)(unat lba := Inr buf))) \<or>
    (\<exists>e s'. r = (Err e, s') \<and> dead s' \<and> nsize s' = nsize (ns b) \<and>
      write_crash (bytes (ns b)) (arenas b ! 0) lane (unat lba) buf (bytes s'))"
proof -
  let ?a = "arenas b ! 0" and ?m = "bytes (ns b)" and ?i = "unat lba"
  let ?o1 = "block_off ?a (free_block ?a lane)"
  let ?m1 = "mem_write ?m ?o1 buf"
  note W = write_setting [OF inv lba lane len s(2)] and D = btt_invD [OF inv]
  note old = reopened_old [OF inv len, of s maxlane, folded r_def]
    and complete = reopened_complete [OF inv lba lane len, of _ maxlane]
  from crash consider
      (data) "same_except ?m (bytes s) ?o1 (length buf)" | (half) "bytes s = stage2 ?m1 ?a lane ?i"
    | (flog) "bytes s = stage3 ?m1 ?a lane ?i" | (map) "write_done ?m ?a lane ?i buf (bytes s)"
    by (auto simp: write_crash_def write_done_def Let_def)
  then show ?thesis
  proof cases
    case data
    show ?thesis
      using old [OF arena_inv_data [OF W(3) data W(4)] data_info [OF arena_invD(1) [OF W(3)] data]
          lba_content_data [OF W(3,1) data]] s crash
      by (intro disjI1 exI [of _ "reopened b maxlane s ?a"]) simp
  next
    case half
    have "arena_inv (unat (nfree b)) (length buf) (nsize s) (bytes s) ?a"
      "mem_read (bytes s) 0 4096 = mem_read ?m 0 4096"
      "\<And>j. j < unat (external_nlba ?a) \<Longrightarrow> lba_content (length buf) (bytes s) ?a j = lba_content (length buf) ?m ?a j"
      using half stages_info(1) [OF W(5,1)] stage2_inv [OF W(5,1,2)] W(6,7) by simp_all
    then show ?thesis
      using old s crash by (intro disjI1 exI [of _ "reopened b maxlane s ?a"]) simp
  next
    case flog
    have "info_ok b (bytes s) ?a"
      using D(11) stages_info(2) [OF W(5,1)] W(7) flog
      by (subst info_ok_cong [where m = ?m and a = ?a and b = b]) simp_all
    from btt_init_pending [OF inv s(1) this W(5) [unfolded len] W(1,2) flog D(9), of maxlane, folded r_def]
    show ?thesis
    proof (elim disjE exE conjE)
      fix s' assume "r = (Ok (reopened b maxlane s' (written ?m1 ?a lane ?i)), s')" "\<not> dead s'"
        "nsize s' = nsize s" "bytes s' = stage4 ?m1 ?a lane ?i"
      then show ?thesis
        using complete [of s'] write_done_crash [of ?m ?a lane ?i buf "bytes s'"] s(2)
        by (intro disjI1 exI [of _ "reopened b maxlane s' (written ?m1 ?a lane ?i)"]) (simp add: write_done_def)
    next
      fix e s' assume "r = (Err e, s')" "dead s'" "nsize s' = nsize s"
        "bytes s' \<in> {stage3 ?m1 ?a lane ?i, stage4 ?m1 ?a lane ?i}"
      then show ?thesis using s(2)
        by (intro disjI2 exI [of _ e] exI [of _ s']) (auto simp: write_crash_def Let_def)
    qed
  next
    case map
    show ?thesis using complete [OF s(2) map, folded r_def] s crash
      by (intro disjI1 exI [of _ "reopened b maxlane s (written ?m1 ?a lane ?i)"]) simp
  qed
qed

end

end
