(* ===== verification/Btt_Crash.thy ===== *)
theory Btt_Crash
  imports Btt_Recover
begin

text \<open>
  Power failure.  Any namespace that is reliable while powered becomes one that lets a chosen
  number of writes through, tears the next one at aligned 8-byte words of its choice, and then is
  dead until it is opened again.  Running the code on it gives the power-fail atomicity of the
  writing operations for every moment of failure.
\<close>

record 'ns crash_ns =
  inner :: 'ns
  budget :: nat
  torn_word :: "nat \<Rightarrow> bool"
  failed :: bool

text \<open>The bytes that reach the media when the power goes during a write.\<close>

definition torn_mix :: "(nat \<Rightarrow> bool) \<Rightarrow> nat \<Rightarrow> byte list \<Rightarrow> byte list \<Rightarrow> byte list" where
  "torn_mix tw off old new = map (\<lambda>j. if tw ((off + j) div 8) then new ! j else old ! j) [0..<length new]"

definition crash_write :: "'ns ns_callback \<Rightarrow> 'ns crash_ns \<Rightarrow> nat \<Rightarrow> byte list \<Rightarrow> u64 \<Rightarrow> errno option \<times> 'ns crash_ns" where
  "crash_write cb s lane buf off =
     (if failed s then (Some EIO, s)
      else if 0 < budget s then
        (case nswrite cb (inner s) lane buf off of (r, n) \<Rightarrow> (r, s\<lparr>inner := n, budget := budget s - 1\<rparr>))
      else
        case nsread cb (inner s) lane (of_nat (length buf)) off of
          Inl e \<Rightarrow> (Some EIO, s\<lparr>failed := True\<rparr>)
        | Inr old \<Rightarrow>
            (Some EIO, s\<lparr>inner := snd (nswrite cb (inner s) lane (torn_mix (torn_word s) (unat off) old buf) off),
               failed := True\<rparr>))"

definition crash_cb :: "'ns ns_callback \<Rightarrow> 'ns crash_ns ns_callback" where
  "crash_cb cb = \<lparr>
     nsread = (\<lambda>s. nsread cb (inner s)),
     nswrite = crash_write cb,
     nszero = (\<lambda>s lane count off. crash_write cb s lane (replicate (unat count) 0) off),
     nsmap = (\<lambda>s. nsmap cb (inner s)),
     ns_is_zeroed = ns_is_zeroed cb\<rparr>"

text \<open>Power is back: the same media, and a new moment of failure.\<close>

definition power_on :: "nat \<Rightarrow> (nat \<Rightarrow> bool) \<Rightarrow> 'ns crash_ns \<Rightarrow> 'ns crash_ns" where
  "power_on n tw s = s\<lparr>budget := n, torn_word := tw, failed := False\<rparr>"

lemma length_torn_mix [simp]: "length (torn_mix tw off old new) = length new"
  by (simp add: torn_mix_def)

lemma torn_mix_torn:
  "torn_write m off new (mem_write m off (torn_mix tw off (mem_read m off (length new)) new))"
  unfolding torn_write_def
proof
  fix w
  let ?m' = "mem_write m off (torn_mix tw off (mem_read m off (length new)) new)"
  have "?m' i = (if tw (i div 8) then mem_write m off new i else m i)" for i
    by (auto simp: mem_write_def torn_mix_def)
  then show "(\<forall>i. i div 8 = w \<longrightarrow> ?m' i = m i) \<or> (\<forall>i. i div 8 = w \<longrightarrow> ?m' i = mem_write m off new i)"
    by (cases "tw w") auto
qed

context ns_reliable
begin

lemma nswrite_ok:
  assumes "unat off + length buf \<le> nsize s"
  obtains s' where "nswrite cb s lane buf off = (None, s')" "nsize s' = nsize s"
    "bytes s' = mem_write (bytes s) (unat off) buf"
  using nswrite_live [where s = s and off = off and buf = buf and lane = lane] assms by auto

lemma crash_write_live:
  assumes live: "\<not> failed s" and range: "unat off + length buf \<le> nsize (inner s)"
  shows "(\<exists>s'. crash_write cb s lane buf off = (None, s') \<and> \<not> failed s' \<and> nsize (inner s') = nsize (inner s) \<and>
      bytes (inner s') = mem_write (bytes (inner s)) (unat off) buf) \<or>
    (\<exists>e s'. crash_write cb s lane buf off = (Some e, s') \<and> failed s' \<and> nsize (inner s') = nsize (inner s) \<and>
      torn_write (bytes (inner s)) (unat off) buf (bytes (inner s')))"
proof (cases "0 < budget s")
  case True
  obtain n where "nswrite cb (inner s) lane buf off = (None, n)" "nsize n = nsize (inner s)"
    "bytes n = mem_write (bytes (inner s)) (unat off) buf"
    using nswrite_ok [OF range] .
  then show ?thesis using live True by (simp add: crash_write_def)
next
  case False
  have "unat (of_nat (length buf) :: u64) = length buf"
    using range nsize_bound [of "inner s"] by (simp add: unat_of_nat)
  then have rd: "nsread cb (inner s) lane (of_nat (length buf)) off =
      Inr (mem_read (bytes (inner s)) (unat off) (length buf))"
    using nsread_ok [of off "of_nat (length buf)"] range by simp
  let ?mix = "torn_mix (torn_word s) (unat off) (mem_read (bytes (inner s)) (unat off) (length buf)) buf"
  obtain n where "nswrite cb (inner s) lane ?mix off = (None, n)" "nsize n = nsize (inner s)"
    "bytes n = mem_write (bytes (inner s)) (unat off) ?mix"
    using nswrite_ok [of off ?mix "inner s"] range by auto
  then show ?thesis
    using live False rd torn_mix_torn by (simp add: crash_write_def)
qed

end

sublocale ns_reliable \<subseteq> crash: ns_media "crash_cb cb" "\<lambda>s. bytes (inner s)" "\<lambda>s. nsize (inner s)" failed
proof
  show "\<exists>e. nswrite (crash_cb cb) s lane buf off = (Some e, s)" if "failed s" for s lane buf off
    using that by (simp add: crash_cb_def crash_write_def)
  show "nsize (inner s) < 2 ^ 64" for s by (rule nsize_bound)
qed (simp_all add: crash_cb_def nsread_ok crash_write_live)

section \<open>Atomicity of a write\<close>

text \<open>The handle \<open>b\<close> on a namespace whose power fails after \<open>n\<close> more writes.\<close>

definition plug :: "nat \<Rightarrow> (nat \<Rightarrow> bool) \<Rightarrow> 'ns btt \<Rightarrow> 'ns crash_ns btt" where
  "plug n tw b = \<lparr>nlane = nlane b, laidout = laidout b, parent_uuid = parent_uuid b, rawsize = rawsize b,
     lbasize = lbasize b, nfree = nfree b, nlba = nlba b, narena = narena b, arenas = arenas b,
     ns = \<lparr>inner = ns b, budget = n, torn_word = tw, failed = False\<rparr>, ns_cbp = crash_cb (ns_cbp b)\<rparr>"

text \<open>Opening the namespace again and again, with the power failing each time.\<close>

fun interrupted_inits :: "'ns ns_callback \<Rightarrow> u64 \<Rightarrow> u32 \<Rightarrow> byte list \<Rightarrow> nat \<Rightarrow> (nat \<times> (nat \<Rightarrow> bool)) list \<Rightarrow>
    'ns crash_ns \<Rightarrow> 'ns crash_ns" where
  "interrupted_inits cb rs lb uuid maxlane [] s = s"
| "interrupted_inits cb rs lb uuid maxlane ((n, tw) # ps) s =
     interrupted_inits cb rs lb uuid maxlane ps (snd (btt_init rs lb uuid maxlane (power_on n tw s) (crash_cb cb)))"

lemma plug_info_ok: "info_ok (plug n tw b) m a = info_ok b m a"
  by (simp add: info_ok_def read_info_def Let_def plug_def)

lemma plug_inv:
  "btt_inv cb bytes nsize b \<Longrightarrow>
   btt_inv (crash_cb cb) (\<lambda>s. bytes (inner s)) (\<lambda>s. nsize (inner s)) (plug n tw b)"
  by (simp add: btt_inv_def plug_info_ok) (simp add: plug_def)

lemma plug_view: "btt_view (\<lambda>s. bytes (inner s)) (plug n tw b) = btt_view bytes b"
  by (simp add: btt_view_def plug_def fun_eq_iff)

context ns_reliable
begin

text \<open>What a write leaves on the media, wherever the power fails.\<close>

lemma write_then_crash:
  fixes n :: nat and tw :: "nat \<Rightarrow> bool"
  assumes inv: "btt_inv cb bytes nsize b" and lba: "lba < nlba b" and lane: "lane < nlane b"
    and len: "length buf = unat (lbasize b)"
  defines "c \<equiv> snd (btt_write lane lba buf (plug n tw b))"
  shows "nsize (inner (ns c)) = nsize (ns b)"
    and "write_crash (bytes (ns b)) (arenas b ! 0) lane (unat lba) buf (bytes (inner (ns c)))"
    and "fst (btt_write lane lba buf (plug n tw b)) = Ok () \<Longrightarrow>
      write_done (bytes (ns b)) (arenas b ! 0) lane (unat lba) buf (bytes (inner (ns c)))"
proof -
  have pre: "\<not> failed (ns (plug n tw b))" "lba < nlba (plug n tw b)" "lane < nlane (plug n tw b)"
    "length buf = unat (lbasize (plug n tw b))" using lba lane len by (simp_all add: plug_def)
  have same: "inner (ns (plug n tw b)) = ns b" "arenas (plug n tw b) = arenas b" by (simp_all add: plug_def)
  have "nsize (inner (ns c)) = nsize (ns b) \<and>
    write_crash (bytes (ns b)) (arenas b ! 0) lane (unat lba) buf (bytes (inner (ns c))) \<and>
    (fst (btt_write lane lba buf (plug n tw b)) = Ok () \<longrightarrow>
      write_done (bytes (ns b)) (arenas b ! 0) lane (unat lba) buf (bytes (inner (ns c))))"
    using plug_inv [OF inv] pre
  proof (cases rule: crash.btt_write_cases)
    case (ok b')
    then show ?thesis using write_done_crash by (simp add: same same_dev_def c_def)
  next
    case (torn e b')
    then show ?thesis by (simp add: same same_dev_def c_def)
  qed
  then show "nsize (inner (ns c)) = nsize (ns b)"
    "write_crash (bytes (ns b)) (arenas b ! 0) lane (unat lba) buf (bytes (inner (ns c)))"
    "fst (btt_write lane lba buf (plug n tw b)) = Ok () \<Longrightarrow>
      write_done (bytes (ns b)) (arenas b ! 0) lane (unat lba) buf (bytes (inner (ns c)))"
    by blast+
qed

text \<open>Interrupted recoveries lead from such media to such media.\<close>

lemma interrupted_inits_crash:
  assumes inv: "btt_inv cb bytes nsize b" and lba: "lba < nlba b" and lane: "lane < nlane b"
    and len: "length buf = unat (lbasize b)"
  shows "write_crash (bytes (ns b)) (arenas b ! 0) lane (unat lba) buf (bytes (inner s)) \<Longrightarrow>
    nsize (inner s) = nsize (ns b) \<Longrightarrow>
    write_crash (bytes (ns b)) (arenas b ! 0) lane (unat lba) buf
      (bytes (inner (interrupted_inits cb (rawsize b) (lbasize b) (parent_uuid b) maxlane ps s))) \<and>
    nsize (inner (interrupted_inits cb (rawsize b) (lbasize b) (parent_uuid b) maxlane ps s)) = nsize (ns b)"
proof (induction ps arbitrary: s)
  case (Cons p ps)
  obtain n tw where p: "p = (n, tw)" by force
  let ?b = "plug n tw b" and ?s = "power_on n tw s"
  let ?r = "btt_init (rawsize b) (lbasize b) (parent_uuid b) maxlane ?s (crash_cb cb)"
  have pre: "lba < nlba ?b" "lane < nlane ?b" "length buf = unat (lbasize ?b)" "\<not> failed ?s"
    "inner ?s = inner s" "inner (ns ?b) = ns b" "arenas ?b = arenas b"
    "rawsize ?b = rawsize b" "lbasize ?b = lbasize b" "parent_uuid ?b = parent_uuid b"
    using lba lane len by (simp_all add: plug_def power_on_def)
  have "write_crash (bytes (ns b)) (arenas b ! 0) lane (unat lba) buf (bytes (inner (snd ?r))) \<and>
      nsize (inner (snd ?r)) = nsize (ns b)"
    using crash.btt_init_recovers [OF plug_inv [OF inv] pre(1-3) _ pre(4), of maxlane, unfolded pre(5-10),
        OF Cons.prems] by auto
  then show ?case using Cons.IH [of "snd ?r"] by (simp add: p)
qed simp

text \<open>With the power on, opening such media always succeeds.\<close>

lemma recovery_complete:
  assumes inv: "btt_inv cb bytes nsize b" and lba: "lba < nlba b" and lane: "lane < nlane b"
    and len: "length buf = unat (lbasize b)"
    and crash: "write_crash (bytes (ns b)) (arenas b ! 0) lane (unat lba) buf (bytes s)"
    and size: "nsize s = nsize (ns b)"
  obtains b' where "btt_init (rawsize b) (lbasize b) (parent_uuid b) maxlane s cb = (Ok b', ns b')"
    "btt_inv cb bytes nsize b'"
    "btt_view bytes b' = btt_view bytes b \<or> btt_view bytes b' = (btt_view bytes b)(unat lba := Inr buf)"
  using btt_init_recovers [OF inv lba lane len crash _ size, of maxlane] that by blast

end

end
