(* ===== verification/Btt_Format.thy ===== *)
theory Btt_Format
  imports Btt_Recover
begin

text \<open>
  The first write to a namespace: \<open>write_layout\<close> lays one arena out and establishes the
  invariant, with every block reading as zeros.  The bounds are the ones under which the
  32-bit block offsets of the source are exact (a namespace of at most 4 GiB) and its flog pairs
  are where \<open>read_flogs\<close> looks for them (a size that is a multiple of 64).
\<close>

section \<open>Geometry\<close>

definition fmt_nlba :: "nat \<Rightarrow> nat \<Rightarrow> nat" where
  "fmt_nlba R I = (R - 28672) div (I + 4)"

definition fmt_mapsize :: "nat \<Rightarrow> nat \<Rightarrow> nat" where
  "fmt_mapsize R I = (4 * (fmt_nlba R I - 256) + 4095) div 4096 * 4096"

definition fmt_flog :: "nat \<Rightarrow> btt_flog" where
  "fmt_flog n = (let e = of_nat n OR BTT_MAP_ENTRY_ZERO in
     \<lparr>flog_lba = 0, flog_old_map = e, flog_new_map = e, flog_seq = 1\<rparr>)"

definition fmt_arena :: "u64 \<Rightarrow> u32 \<Rightarrow> arena" where
  "fmt_arena rs ilb =
     (let R = unat rs; I = unat ilb; N = fmt_nlba R I; E = N - 256; foff = R - 20480;
          moff = foff - fmt_mapsize R I in
      \<lparr>arena_flags = 0, external_nlba = of_nat E, internal_lbasize = ilb, internal_nlba = of_nat N,
       startoff = 0, dataoff = 4096, mapoff = of_nat moff, flogoff = of_nat foff, nextoff = 0,
       flogs = map (\<lambda>l. \<lparr>frt_flog = fmt_flog (E + l),
         frt_entries = [of_nat (foff + 64 * l), of_nat (foff + 64 * l + 16)], frt_next = 1\<rparr>) [0..<256],
       rtt = replicate 256 BTT_MAP_ENTRY_ERROR\<rparr>)"

text \<open>The sizes for which the format is sound.\<close>

definition fmt_size_ok :: "u64 \<Rightarrow> u32 \<Rightarrow> bool" where
  "fmt_size_ok rs lb \<longleftrightarrow> BTT_MIN_SIZE \<le> rs \<and> unat rs \<le> 2 ^ 32 \<and> unat rs mod 64 = 0 \<and>
     unat lb \<le> 2 ^ 31 \<and> 512 \<le> fmt_nlba (unat rs) (unat (layout_internal_lbasize lb))"

lemma fmt_size_min: "fmt_size_ok rs lb \<Longrightarrow> 2 ^ 24 \<le> unat rs"
  by (simp add: fmt_size_ok_def btt_consts word_le_nat_alt)

lemma internal_lbasize_facts:
  assumes "unat lb \<le> 2 ^ 31"
  shows "unat lb \<le> unat (layout_internal_lbasize lb)" and "512 \<le> unat (layout_internal_lbasize lb)"
    and "unat (layout_internal_lbasize lb) mod 256 = 0" and "unat (layout_internal_lbasize lb) \<le> 2 ^ 31 + 256"
proof -
  let ?x = "if lb < BTT_MIN_LBA_SIZE then BTT_MIN_LBA_SIZE else lb"
  have x: "unat ?x \<le> 2 ^ 31" "unat lb \<le> unat ?x" "512 \<le> unat ?x"
    using assms by (auto simp: btt_consts word_less_nat_alt)
  have "unat (layout_internal_lbasize lb) = (unat ?x + 255) div 256 * 256"
    using unat_roundup [of BTT_INTERNAL_LBA_ALIGNMENT ?x] x(1)
    by (simp add: layout_internal_lbasize_def btt_consts)
  moreover have "unat ?x \<le> (unat ?x + 255) div 256 * 256"
    using roundup_ge_nat [of 256 "unat ?x"] by simp
  moreover have "(unat ?x + 255) div 256 * 256 \<le> unat ?x + 255" by simp
  ultimately show "unat lb \<le> unat (layout_internal_lbasize lb)" "512 \<le> unat (layout_internal_lbasize lb)"
    "unat (layout_internal_lbasize lb) mod 256 = 0" "unat (layout_internal_lbasize lb) \<le> 2 ^ 31 + 256"
    using x by simp_all
qed

text \<open>Blocks and map fit between the two info blocks.\<close>

lemma fmt_fits:
  assumes "512 \<le> fmt_nlba R I" and "28672 \<le> R"
  shows "4 * (fmt_nlba R I - 256) \<le> fmt_mapsize R I"
    and "fmt_nlba R I * I + fmt_mapsize R I + 24576 \<le> R"
    and "fmt_mapsize R I mod 4096 = 0"
proof -
  let ?N = "fmt_nlba R I"
  show "4 * (?N - 256) \<le> fmt_mapsize R I"
    using roundup_ge_nat [of 4096 "4 * (?N - 256)"] by (simp add: fmt_mapsize_def)
  have "?N * (I + 4) \<le> R - 28672" by (simp add: fmt_nlba_def)
  then have "?N * I + 4 * ?N \<le> R - 28672" by (simp add: algebra_simps)
  moreover have "fmt_mapsize R I \<le> 4 * (?N - 256) + 4095" by (simp add: fmt_mapsize_def)
  moreover have "4 * (?N - 256) = 4 * ?N - 1024" by simp
  ultimately show "?N * I + fmt_mapsize R I + 24576 \<le> R" using assms by linarith
  show "fmt_mapsize R I mod 4096 = 0" by (simp add: fmt_mapsize_def)
qed

lemma fmt_arena_sel [simp]:
  "arena_flags (fmt_arena rs ilb) = 0" "internal_lbasize (fmt_arena rs ilb) = ilb"
  "startoff (fmt_arena rs ilb) = 0" "dataoff (fmt_arena rs ilb) = 4096" "nextoff (fmt_arena rs ilb) = 0"
  "rtt (fmt_arena rs ilb) = replicate 256 BTT_MAP_ENTRY_ERROR" "length (flogs (fmt_arena rs ilb)) = 256"
  by (simp_all add: fmt_arena_def Let_def)

lemma fmt_arena_unat:
  assumes "fmt_size_ok rs lb"
  defines "ilb \<equiv> layout_internal_lbasize lb"
  defines "N \<equiv> fmt_nlba (unat rs) (unat ilb)"
  shows "unat (external_nlba (fmt_arena rs ilb)) = N - 256" and "unat (internal_nlba (fmt_arena rs ilb)) = N"
    and "unat (mapoff (fmt_arena rs ilb)) = unat rs - 20480 - fmt_mapsize (unat rs) (unat ilb)"
    and "unat (flogoff (fmt_arena rs ilb)) = unat rs - 20480"
    and "N * unat ilb + fmt_mapsize (unat rs) (unat ilb) + 24576 \<le> unat rs" and "N \<le> 2 ^ 23"
    and "unat ilb mod 256 = 0" and "512 \<le> unat ilb" and "unat lb \<le> unat ilb" and "512 \<le> N"
proof -
  have ok: "2 ^ 24 \<le> unat rs" "unat rs \<le> 2 ^ 32" "unat lb \<le> 2 ^ 31" "512 \<le> N"
    using assms by (auto simp: fmt_size_ok_def btt_consts word_le_nat_alt)
  note il = internal_lbasize_facts [OF ok(3), folded ilb_def]
  show "unat ilb mod 256 = 0" "512 \<le> unat ilb" "unat lb \<le> unat ilb" "512 \<le> N" using il ok by auto
  show fits: "N * unat ilb + fmt_mapsize (unat rs) (unat ilb) + 24576 \<le> unat rs"
    using fmt_fits(2) [of "unat rs" "unat ilb"] ok by (simp add: N_def)
  have "N * 512 \<le> N * unat ilb" using il(2) by (rule mult_le_mono2)
  then have "N * 512 \<le> 2 ^ 32" using fits ok(2) by linarith
  then show "N \<le> 2 ^ 23" by simp
  then show "unat (external_nlba (fmt_arena rs ilb)) = N - 256" "unat (internal_nlba (fmt_arena rs ilb)) = N"
    by (simp_all add: fmt_arena_def Let_def N_def [symmetric] unat_of_nat)
  show "unat (mapoff (fmt_arena rs ilb)) = unat rs - 20480 - fmt_mapsize (unat rs) (unat ilb)"
    "unat (flogoff (fmt_arena rs ilb)) = unat rs - 20480"
    using ok(2) by (simp_all add: fmt_arena_def Let_def unat_of_nat)
qed

lemma fmt_geom:
  assumes ok: "fmt_size_ok rs lb" and sz: "unat rs \<le> sz" "sz < 2 ^ 63"
  shows "arena_geom 256 (unat lb) sz (fmt_arena rs (layout_internal_lbasize lb))"
proof -
  note u = fmt_arena_unat [OF ok]
  have mod: "unat rs mod 64 = 0" "2 ^ 24 \<le> unat rs" "unat rs \<le> 2 ^ 32"
    using ok by (auto simp: fmt_size_ok_def btt_consts word_le_nat_alt)
  let ?I = "unat (layout_internal_lbasize lb)"
  let ?M = "fmt_mapsize (unat rs) ?I" and ?N = "fmt_nlba (unat rs) ?I"
  have M: "4 * (?N - 256) \<le> ?M" "?M mod 4096 = 0"
    using fmt_fits(1,3) [of "unat rs" "unat (layout_internal_lbasize lb)"] u(10) mod by auto
  have 8: "(8::nat) dvd 64" "(8::nat) dvd 4096" by simp_all
  have "8 dvd unat rs" "8 dvd ?M" using mod(1) M(2) 8 by (meson dvd_trans mod_0_imp_dvd)+
  then have "(unat rs - 20480 - ?M) mod 8 = 0" "(unat rs - 20480) mod 8 = 0"
    by (simp_all add: dvd_diff_nat)
  moreover have "unat (0 :: u64) + 4096 \<le> unat (4096 :: u64)" by simp
  moreover have "unat (4096 :: u64) + ?N * ?I \<le> unat rs - 20480 - ?M" using u(5) by simp
  moreover have "unat rs - 20480 - ?M + 4 * (?N - 256) \<le> unat rs - 20480" using u(5) M(1) by linarith
  moreover have "unat rs - 20480 + 64 * 256 \<le> sz" using u(5) sz(1) by linarith
  moreover have "?N * ?I \<le> 2 ^ 32" using u(5) mod(3) by linarith
  moreover have "?N = ?N - 256 + 256" "0 < ?N - 256" using u(10) by linarith+
  ultimately show ?thesis
    unfolding arena_geom_def u(1-4) fmt_arena_sel using u(7-9) sz(2) by - (intro conjI; (assumption | linarith | simp (no_asm_simp) ))
qed

section \<open>The formatted media\<close>

definition fmt_media :: "mem \<Rightarrow> arena \<Rightarrow> bool" where
  "fmt_media m a \<longleftrightarrow>
     (\<forall>i < unat (external_nlba a). map_raw m a i = 0) \<and>
     (\<forall>l < 256. flog_slot m a l 0 = fmt_flog (unat (external_nlba a) + l) \<and> flog_slot m a l 1 = Zflog)"

lemma entry_lba_of_nat: "n < 2 ^ 30 \<Longrightarrow> entry_lba (of_nat n) = (of_nat n :: u32)"
  by (rule entry_lba_small) (simp add: unat_of_nat)

lemma entry_lba_build_of_nat:
  assumes "n < 2 ^ 30"
  shows "entry_lba (of_nat n OR BTT_MAP_ENTRY_NORMAL) = (of_nat n :: u32)"
    and "entry_lba (of_nat n OR BTT_MAP_ENTRY_ZERO) = (of_nat n :: u32)"
  using entry_lba_build [of "of_nat n"] unfolding entry_lba_of_nat [OF assms] by auto

lemma fmt_inv:
  assumes ok: "fmt_size_ok rs lb" and sz: "unat rs \<le> sz" "sz < 2 ^ 63"
    and media: "fmt_media m (fmt_arena rs (layout_internal_lbasize lb))"
  shows "arena_inv 256 (unat lb) sz m (fmt_arena rs (layout_internal_lbasize lb))"
    and "i < unat (external_nlba (fmt_arena rs (layout_internal_lbasize lb))) \<Longrightarrow>
      lba_content (unat lb) m (fmt_arena rs (layout_internal_lbasize lb)) i = Inr (replicate (unat lb) 0)"
proof -
  let ?a = "fmt_arena rs (layout_internal_lbasize lb)"
  let ?E = "unat (external_nlba ?a)"
  note u = fmt_arena_unat [OF ok]
  have E: "?E + 256 = unat (internal_nlba ?a)" "0 < ?E" "?E + 256 \<le> 2 ^ 23" using u(1,2,6,10) by simp_all
  have init: "map_entry_is_initial 0" by (simp add: map_entry_is_initial_def)
  have raw: "map_raw m ?a j = 0" if "j < ?E" for j using media that by (simp add: fmt_media_def)
  have block: "map_block m ?a j = j" if "j < ?E" for j
  proof -
    have "entry_lba (of_nat j OR BTT_MAP_ENTRY_NORMAL) = (of_nat j :: u32)"
      using that E(3) by (intro entry_lba_build_of_nat) simp
    then show ?thesis using raw [OF that] init that E(3) by (simp add: map_block_def map_norm_def unat_of_nat)
  qed
  have frt: "flogs ?a ! l = \<lparr>frt_flog = fmt_flog (?E + l), frt_entries = [of_nat (flog_off ?a l), of_nat (flog_off ?a l + 16)],
      frt_next = 1\<rparr>" if "l < 256" for l
    using that u(1,4) unfolding flog_off_def u(4) by (simp add: fmt_arena_def Let_def)
  have free: "free_block ?a l = ?E + l" if "l < 256" for l
  proof -
    have "entry_lba (of_nat (?E + l) OR BTT_MAP_ENTRY_ZERO) = (of_nat (?E + l) :: u32)"
      using that E(3) by (intro entry_lba_build_of_nat) simp
    moreover have "unat (of_nat (?E + l) :: u32) = ?E + l"
      using that E(3) by (simp add: unat_of_nat del: of_nat_add)
    ultimately show ?thesis using frt [OF that] by (simp add: free_block_def fmt_flog_def Let_def del: of_nat_add)
  qed
  have "flog_ok m ?a l" if "l < 256" for l
    using media frt [OF that] that E(2)
    by (simp add: flog_ok_def fmt_media_def fmt_flog_def Zflog_def flog_current_def Let_def)
  moreover have "blocks_ok 256 m ?a"
    using block free E(1) by (auto simp: blocks_ok_def inj_on_def)
  ultimately show "arena_inv 256 (unat lb) sz m ?a"
    using fmt_geom [OF ok sz] by (simp add: arena_inv_def)
  show "lba_content (unat lb) m ?a i = Inr (replicate (unat lb) 0)" if "i < ?E"
    using raw [OF that] by (simp add: lba_content_def map_entry_defs map_entry_consts)
qed

section \<open>Writing the flog\<close>

lemma flog_pair_step:
  fixes off :: u64
  assumes "unat off mod 64 = 0" and "unat off + 64 < 2 ^ 63"
  shows "roundup (off + 16 + 16) BTT_FLOG_PAIR_ALIGN = off + 64"
proof -
  have "unat (off + 16 + 16) = unat off + 32" using assms(2) by (simp add: unat_word_ariths)
  then have "unat (roundup (off + 16 + 16) BTT_FLOG_PAIR_ALIGN) = (unat off + 32 + 63) div 64 * 64"
    using unat_roundup [of BTT_FLOG_PAIR_ALIGN "off + 16 + 16"] assms(2) by (simp add: BTT_FLOG_PAIR_ALIGN_def)
  also have "\<dots> = unat off + 64"
  proof -
    obtain k where "unat off = 64 * k" using assms(1) by (metis mod_0_imp_dvd dvdE)
    then show ?thesis by simp
  qed
  also have "\<dots> = unat (off + 64)" using assms(2) by (simp add: unat_word_ariths)
  finally show ?thesis by (simp add: word_unat_eq_iff)
qed

context ns_reliable
begin

lemma ns_write_done:
  assumes "ns_cbp b = cb" and "unat off + length buf \<le> nsize (ns b)"
  obtains s' where "ns_write lane buf off b = (Ok (), b\<lparr>ns := s'\<rparr>)" "nsize s' = nsize (ns b)"
    "bytes s' = mem_write (bytes (ns b)) (unat off) buf"
  using assms by (elim ns_write_cases [where lane = lane]) auto

lemma layout_flogs_done:
  "ns_cbp b = cb \<Longrightarrow> unat off mod 64 = 0 \<Longrightarrow> unat off + 64 * n \<le> nsize (ns b) \<Longrightarrow> unat off + 64 * n < 2 ^ 63 \<Longrightarrow>
   \<exists>s'. layout_flogs lane n off (of_nat E) b = (Ok (), b\<lparr>ns := s'\<rparr>) \<and> nsize s' = nsize (ns b) \<and>
     same_except (bytes (ns b)) (bytes s') (unat off) (64 * n) \<and>
     (\<forall>k < n. flog_at (mem_read (bytes s') (unat off + 64 * k) 16) 0 = fmt_flog (E + k) \<and>
        flog_at (mem_read (bytes s') (unat off + 64 * k + 16) 16) 0 = Zflog)"
proof (induction n arbitrary: off E b)
  case 0
  then show ?case by (intro exI [of _ "ns b"]) simp
next
  case (Suc n)
  let ?f = "fmt_flog E"
  have f: "bytes_of_flog \<lparr>flog_lba = 0, flog_old_map = of_nat E OR BTT_MAP_ENTRY_ZERO,
      flog_new_map = of_nat E OR BTT_MAP_ENTRY_ZERO, flog_seq = 1\<rparr> = bytes_of_flog ?f"
    by (simp add: fmt_flog_def Let_def)
  have r1: "unat off + length (bytes_of_flog ?f) \<le> nsize (ns b)" using Suc.prems(3) by simp
  obtain s1 where s1: "ns_write lane (bytes_of_flog ?f) off b = (Ok (), b\<lparr>ns := s1\<rparr>)" "nsize s1 = nsize (ns b)"
    "bytes s1 = mem_write (bytes (ns b)) (unat off) (bytes_of_flog ?f)"
    using ns_write_done [OF Suc.prems(1) r1, where lane = lane] .
  have o16: "unat (off + 16) = unat off + 16" using Suc.prems(4) by (simp add: unat_word_ariths)
  have r2: "unat (off + 16) + length (bytes_of_flog Zflog) \<le> nsize (ns (b\<lparr>ns := s1\<rparr>))"
    using Suc.prems(3) s1(2) o16 by simp
  have cb1: "ns_cbp (b\<lparr>ns := s1\<rparr>) = cb" using Suc.prems(1) by simp
  obtain s2 where s2: "ns_write lane (bytes_of_flog Zflog) (off + 16) (b\<lparr>ns := s1\<rparr>) = (Ok (), b\<lparr>ns := s2\<rparr>)"
    "nsize s2 = nsize (ns b)" "bytes s2 = mem_write (bytes s1) (unat off + 16) (bytes_of_flog Zflog)"
    using ns_write_done [OF cb1 r2, where lane = lane] s1(2) o16 by auto
  have step: "roundup (off + 16 + 16) BTT_FLOG_PAIR_ALIGN = off + 64"
    using flog_pair_step [of off] Suc.prems(2,4) by simp
  have o64: "unat (off + 64) = unat off + 64" using Suc.prems(4) by (simp add: unat_word_ariths)
  have "\<exists>s'. layout_flogs lane n (off + 64) (of_nat (Suc E)) (b\<lparr>ns := s2\<rparr>) = (Ok (), (b\<lparr>ns := s2\<rparr>)\<lparr>ns := s'\<rparr>) \<and>
     nsize s' = nsize (ns (b\<lparr>ns := s2\<rparr>)) \<and>
     same_except (bytes (ns (b\<lparr>ns := s2\<rparr>))) (bytes s') (unat (off + 64)) (64 * n) \<and>
     (\<forall>k < n. flog_at (mem_read (bytes s') (unat (off + 64) + 64 * k) 16) 0 = fmt_flog (Suc E + k) \<and>
        flog_at (mem_read (bytes s') (unat (off + 64) + 64 * k + 16) 16) 0 = Zflog)"
    using Suc.prems s2(2) o64 by (intro Suc.IH) simp_all
  then obtain s3 where s3: "layout_flogs lane n (off + 64) (of_nat (Suc E)) (b\<lparr>ns := s2\<rparr>) = (Ok (), b\<lparr>ns := s3\<rparr>)"
    "nsize s3 = nsize (ns b)" "same_except (bytes s2) (bytes s3) (unat off + 64) (64 * n)"
    "\<And>k. k < n \<Longrightarrow> flog_at (mem_read (bytes s3) (unat off + 64 + 64 * k) 16) 0 = fmt_flog (Suc E + k) \<and>
        flog_at (mem_read (bytes s3) (unat off + 64 + 64 * k + 16) 16) 0 = Zflog"
    using s2(2) o64 by auto
  have "layout_flogs lane (Suc n) off (of_nat E) b = (Ok (), b\<lparr>ns := s3\<rparr>)"
    using s1(1) s2(1) s3(1) step f by (simp add: andthen_def Let_def add.commute)
  moreover have "same_except (bytes (ns b)) (bytes s3) (unat off) (64 * Suc n)"
    using s3(3) s2(3) s1(3) by (auto simp: same_except_def mem_write_def)
  moreover have "flog_at (mem_read (bytes s3) (unat off + 64 * k) 16) 0 = fmt_flog (E + k) \<and>
      flog_at (mem_read (bytes s3) (unat off + 64 * k + 16) 16) 0 = Zflog" if "k < Suc n" for k
  proof (cases k)
    case 0
    have "mem_read (bytes s3) (unat off) 16 = bytes_of_flog ?f" "mem_read (bytes s3) (unat off + 16) 16 = bytes_of_flog Zflog"
      using mem_read_same_except [OF s3(3), of "unat off" 16] mem_read_same_except [OF s3(3), of "unat off + 16" 16]
      by (simp_all add: s2(3) s1(3) mem_read_write_disjoint)
    then show ?thesis using 0 flog_at_bytes [of "[]" 0 _ "[]"] by simp
  next
    case (Suc k')
    then show ?thesis using s3(4) [of k'] that by (simp add: algebra_simps)
  qed
  ultimately show ?case using s3(2) by blast
qed

end

section \<open>write\_layout\<close>

text \<open>A handle without a layout, as \<open>btt_init\<close> leaves it on a pristine namespace.\<close>

definition btt_pristine :: "'ns ns_callback \<Rightarrow> ('ns \<Rightarrow> mem) \<Rightarrow> ('ns \<Rightarrow> nat) \<Rightarrow> 'ns btt \<Rightarrow> bool" where
  "btt_pristine cb bytes nsize b \<longleftrightarrow>
     (let a = fmt_arena (rawsize b) (layout_internal_lbasize (lbasize b)) in
      ns_cbp b = cb \<and> \<not> laidout b \<and> nfree b = 256 \<and> 0 < nlane b \<and> nlane b \<le> 256 \<and>
      length (parent_uuid b) = 16 \<and> fmt_size_ok (rawsize b) (lbasize b) \<and>
      unat (rawsize b) \<le> nsize (ns b) \<and> nsize (ns b) < 2 ^ 63 \<and>
      narena b = 1 \<and> nlba b = ucast (external_nlba a) \<and>
      read_info b (mem_read (bytes (ns b)) 0 4096) = None \<and>
      (ns_is_zeroed cb \<longrightarrow> (\<forall>i < unat (external_nlba a). map_raw (bytes (ns b)) a i = 0)))"

text \<open>The words that \<open>write_layout\<close> computes are the ones of the geometry.\<close>

lemma layout_words:
  assumes ok: "fmt_size_ok rs lb"
  defines "ilb \<equiv> layout_internal_lbasize lb"
  defines "a \<equiv> fmt_arena rs ilb"
  defines "inlba \<equiv> (rs - 2 * 4096 - 16384 - BTT_ALIGNMENT) div ucast (ilb + BTT_MAP_ENTRY_SIZE)"
  defines "mapsize \<equiv> roundup ((inlba - 256) * ucast BTT_MAP_ENTRY_SIZE) BTT_ALIGNMENT"
  shows "unat inlba = fmt_nlba (unat rs) (unat ilb)"
    and "inlba - 256 = ucast (external_nlba a)"
    and "(ucast inlba :: u32) = internal_nlba a"
    and "unat mapsize = fmt_mapsize (unat rs) (unat ilb)"
    and "rs - 4096 - 16384 = flogoff a"
    and "rs - 4096 - 16384 - mapsize = mapoff a"
    and "inlba \<le> (rs - 2 * 4096 - 16384 - mapsize) div ucast ilb"
    and "rs - 2 * 4096 - 16384 - mapsize = mapoff a - 4096"
proof -
  note u = fmt_arena_unat [OF ok, folded ilb_def, folded a_def]
  let ?R = "unat rs" and ?I = "unat ilb"
  let ?N = "fmt_nlba ?R ?I" and ?M = "fmt_mapsize ?R ?I"
  have R: "2 ^ 24 \<le> ?R" "?R \<le> 2 ^ 32" using ok by (auto simp: fmt_size_ok_def btt_consts word_le_nat_alt)
  have I4: "unat (ilb + BTT_MAP_ENTRY_SIZE) = ?I + 4"
    using internal_lbasize_facts(4) [of lb] ok by (simp add: ilb_def fmt_size_ok_def BTT_MAP_ENTRY_SIZE_def unat_word_ariths)
  have d: "unat (rs - 2 * 4096) = ?R - 8192" using R by (subst unat_sub) (simp_all add: word_le_nat_alt)
  have d2: "unat (rs - 2 * 4096 - 16384) = ?R - 24576" using R d by (subst unat_sub) (simp_all add: word_le_nat_alt)
  have d3: "unat (rs - 2 * 4096 - 16384 - BTT_ALIGNMENT) = ?R - 28672"
    using R d2 by (subst unat_sub) (simp_all add: word_le_nat_alt BTT_ALIGNMENT_def)
  show N: "unat inlba = ?N" by (simp only: inlba_def unat_div_distrib d3 unat_ucast_32_64 I4 fmt_nlba_def)
  have E: "unat (inlba - 256) = ?N - 256" using N u(10) by (subst unat_sub) (simp_all add: word_le_nat_alt)
  show "inlba - 256 = ucast (external_nlba a)" using E u(1) by (simp add: word_unat_eq_iff unat_ucast_32_64)
  show "(ucast inlba :: u32) = internal_nlba a" using N u(2,6) by (simp add: word_unat_eq_iff unat_ucast_mod)
  have times4: "unat (x * ucast BTT_MAP_ENTRY_SIZE) = 4 * unat x" if "unat x \<le> 2 ^ 23" for x :: u64
    using that by (simp add: unat_word_ariths BTT_MAP_ENTRY_SIZE_def)
  have "unat ((inlba - 256) * ucast BTT_MAP_ENTRY_SIZE) = 4 * (?N - 256)"
    using times4 [of "inlba - 256"] E u(6) by linarith
  then show M: "unat mapsize = ?M"
    using unat_roundup [of BTT_ALIGNMENT "(inlba - 256) * ucast BTT_MAP_ENTRY_SIZE"] u(6)
    by (simp add: mapsize_def BTT_ALIGNMENT_def fmt_mapsize_def)
  have f1: "unat (rs - 4096) = ?R - 4096" using R by (subst unat_sub) (simp_all add: word_le_nat_alt)
  have f: "unat (rs - 4096 - 16384) = ?R - 20480" using R f1 by (subst unat_sub) (simp_all add: word_le_nat_alt)
  then show "rs - 4096 - 16384 = flogoff a" using u(4) by (simp add: word_unat_eq_iff)
  have "unat (rs - 4096 - 16384 - mapsize) = ?R - 20480 - ?M" using f M u(5) by (subst unat_sub) (simp_all add: word_le_nat_alt)
  then show "rs - 4096 - 16384 - mapsize = mapoff a" using u(3) by (simp add: word_unat_eq_iff)
  have D: "unat (rs - 2 * 4096 - 16384 - mapsize) = ?R - 24576 - ?M" using d2 M u(5) by (subst unat_sub) (simp_all add: word_le_nat_alt)
  have "?N \<le> (?R - 24576 - ?M) div ?I"
    using u(5,8) by (subst less_eq_div_iff_mult_less_eq) linarith+
  then show "inlba \<le> (rs - 2 * 4096 - 16384 - mapsize) div ucast ilb"
    using N D by (simp add: word_le_nat_alt unat_div_distrib unat_ucast_32_64)
  show "rs - 2 * 4096 - 16384 - mapsize = mapoff a - 4096"
    using D u(3,5) unat_sub [of 4096 "mapoff a"] by (simp add: word_unat_eq_iff word_le_nat_alt)
qed

lemma flog_size_256: "layout_flog_size 256 = 16384"
  by (simp add: layout_flog_size_def roundup_def btt_consts)

text \<open>The info block of the arena.\<close>

definition fmt_info :: "'ns btt \<Rightarrow> btt_info" where
  "fmt_info b = (let a = fmt_arena (rawsize b) (layout_internal_lbasize (lbasize b)) in
     layout_info b (internal_lbasize a) (internal_nlba a) (external_nlba a) 0 4096 (mapoff a) (flogoff a)
       (rawsize b - 4096))"

definition fmt_info_bytes :: "'ns btt \<Rightarrow> byte list" where
  "fmt_info_bytes b = with_csum BTT_INFO_CSUM (bytes_of_info (fmt_info b))"

lemma fmt_info_bytes_read:
  assumes "length (parent_uuid b) = 16" and "parent_uuid b' = parent_uuid b"
  shows "length (fmt_info_bytes b) = 4096"
    and "\<exists>c. read_info b' (fmt_info_bytes b) = Some ((fmt_info b)\<lparr>info_checksum := c\<rparr>)"
proof -
  let ?bs = "bytes_of_info (fmt_info b)"
  have wf: "wf_info (fmt_info b)" using assms by (simp add: wf_info_def fmt_info_def layout_info_def Let_def)
  then have len: "length ?bs = 4096" by simp
  then show "length (fmt_info_bytes b) = 4096" by (simp add: fmt_info_bytes_def BTT_INFO_CSUM_def)
  have info: "info_of_bytes (fmt_info_bytes b) = (fmt_info b)\<lparr>info_checksum := fletcher64 ?bs 4088\<rparr>"
    using info_of_bytes_with_csum [OF len] info_of_bytes_of_info [OF wf]
    by (simp add: fmt_info_bytes_def BTT_INFO_CSUM_def)
  moreover have "fst (util_checksum (fmt_info_bytes b) BTT_INFO_CSUM False)"
    using verify_with_csum [of 4088 ?bs] len by (simp add: fmt_info_bytes_def BTT_INFO_CSUM_def)
  moreover have "info_sig (fmt_info b) = Sig" "info_parent_uuid (fmt_info b) = parent_uuid b'" "info_major (fmt_info b) \<noteq> 0"
    using assms(2) by (simp_all add: fmt_info_def layout_info_def Let_def BTTINFO_MAJOR_VERSION_def)
  ultimately show "\<exists>c. read_info b' (fmt_info_bytes b) = Some ((fmt_info b)\<lparr>info_checksum := c\<rparr>)"
    by (intro exI [of _ "fletcher64 ?bs 4088"]) (simp add: read_info_def Let_def)
qed

context ns_reliable
begin

text \<open>The three kinds of writes that lay an arena out.\<close>

lemma zero_map_done:
  assumes pr: "btt_pristine cb bytes nsize b"
  defines "a \<equiv> fmt_arena (rawsize b) (layout_internal_lbasize (lbasize b))"
  assumes ms: "unat mapsize = fmt_mapsize (unat (rawsize b)) (unat (layout_internal_lbasize (lbasize b)))"
  obtains s1 where
    "(if ns_is_zeroed (ns_cbp b) then ret () else ns_zero lane mapsize (mapoff a)) b = (Ok (), b\<lparr>ns := s1\<rparr>)"
    "nsize s1 = nsize (ns b)" "\<And>i. i < unat (external_nlba a) \<Longrightarrow> map_raw (bytes s1) a i = 0"
proof (cases "ns_is_zeroed cb")
  case True
  then show thesis
    using pr that [of "ns b"] by (simp add: btt_pristine_def Let_def a_def ret_def)
next
  case False
  note ok = pr [unfolded btt_pristine_def Let_def]
  have sz: "fmt_size_ok (rawsize b) (lbasize b)" "unat (rawsize b) \<le> nsize (ns b)" using ok by auto
  note u = fmt_arena_unat [OF sz(1), folded a_def]
  have M: "4 * (fmt_nlba (unat (rawsize b)) (unat (layout_internal_lbasize (lbasize b))) - 256) \<le> unat mapsize"
    using fmt_fits(1) [of "unat (rawsize b)" "unat (layout_internal_lbasize (lbasize b))"] u(10) ms
      fmt_size_min [OF sz(1)] by simp
  have "unat (mapoff a) + unat mapsize \<le> nsize (ns b)" using u(3,5) ms sz(2) by simp
  then obtain s1 where s1: "nszero cb (ns b) lane mapsize (mapoff a) = (None, s1)" "nsize s1 = nsize (ns b)"
    "bytes s1 = mem_write (bytes (ns b)) (unat (mapoff a)) (replicate (unat mapsize) 0)"
    using nszero_ok [of "mapoff a" mapsize "ns b" lane] by blast
  have "map_raw (bytes s1) a i = 0" if "i < unat (external_nlba a)" for i
  proof -
    have "4 * i + 4 \<le> unat mapsize" using that u(1) M by simp
    then have "mem_read (bytes s1) (unat (mapoff a) + 4 * i) 4 = replicate 4 0"
      by (auto simp: list_eq_iff_nth_eq s1(3) mem_write_def)
    then show ?thesis by (simp add: map_raw_def numeral_eq_Suc)
  qed
  then show thesis using that [of s1] s1 ok False by (simp add: ns_zero_def)
qed

lemma layout_arena_done:
  assumes pr: "btt_pristine cb bytes nsize b"
  defines "ilb \<equiv> layout_internal_lbasize (lbasize b)"
  defines "a \<equiv> fmt_arena (rawsize b) ilb"
  defines "inlba \<equiv> (rawsize b - 2 * 4096 - 16384 - BTT_ALIGNMENT) div ucast (ilb + BTT_MAP_ENTRY_SIZE)"
  obtains s' where "layout_arena lane 16384 ilb 0 (rawsize b) inlba 0 b = (Ok 0, b\<lparr>ns := s'\<rparr>)"
    "nsize s' = nsize (ns b)" "fmt_media (bytes s') a" "mem_read (bytes s') 0 4096 = fmt_info_bytes b"
proof -
  note ok = pr [unfolded btt_pristine_def Let_def]
  have cb: "ns_cbp b = cb" and nf: "nfree b = 256" and uuid: "length (parent_uuid b) = 16"
    and size: "fmt_size_ok (rawsize b) (lbasize b)" "unat (rawsize b) \<le> nsize (ns b)" "nsize (ns b) < 2 ^ 63"
    using ok by auto
  note u = fmt_arena_unat [OF size(1), folded ilb_def, folded a_def]
  note w = layout_words [OF size(1), folded ilb_def, folded a_def inlba_def]
  let ?ms = "roundup ((inlba - 256) * ucast BTT_MAP_ENTRY_SIZE) BTT_ALIGNMENT"
  have R: "2 ^ 24 \<le> unat (rawsize b)" using fmt_size_min [OF size(1)] .
  have ioff: "unat (rawsize b - 4096) = unat (rawsize b) - 4096" using R by (subst unat_sub) (simp_all add: word_le_nat_alt)
  have E: "(ucast (inlba - 256) :: u32) = external_nlba a" using unat_bound [of "external_nlba a"] by (simp add: w(2) word_unat_eq_iff unat_ucast_mod unat_ucast_32_64)
  have info: "with_csum BTT_INFO_CSUM (bytes_of_info (layout_info b ilb (ucast inlba) (ucast (inlba - 256)) 0 4096
      (rawsize b - 4096 - 16384 - ?ms) (rawsize b - 4096 - 16384) (rawsize b - 4096))) = fmt_info_bytes b"
    unfolding w(6) unfolding w(3,5) E by (simp add: fmt_info_bytes_def fmt_info_def Let_def a_def ilb_def)
  have minsize: "\<not> BTT_MIN_SIZE \<le> 0" by (simp add: btt_consts)
  obtain s1 where s1: "(if ns_is_zeroed (ns_cbp b) then ret () else ns_zero lane ?ms (mapoff a)) b = (Ok (), b\<lparr>ns := s1\<rparr>)"
    "nsize s1 = nsize (ns b)" "\<And>i. i < unat (external_nlba a) \<Longrightarrow> map_raw (bytes s1) a i = 0"
    using zero_map_done [OF pr w(4) [unfolded ilb_def], where lane = lane] unfolding a_def ilb_def by blast
  let ?b1 = "b\<lparr>ns := s1\<rparr>"
  have "64 dvd unat (rawsize b)" using size(1) by (simp add: fmt_size_ok_def mod_0_imp_dvd)
  moreover have "(64 :: nat) dvd 20480" by simp
  ultimately have al: "unat (flogoff a) mod 64 = 0" unfolding u(4) by (meson dvd_diff_nat dvd_imp_mod_0)
  have p: "ns_cbp ?b1 = cb" "unat (flogoff a) + 64 * 256 \<le> nsize (ns ?b1)" "unat (flogoff a) + 64 * 256 < 2 ^ 63"
    using cb s1(2) size u(4) R by simp_all
  obtain s2 where s2': "layout_flogs lane 256 (flogoff a) (of_nat (unat (external_nlba a))) ?b1 = (Ok (), ?b1\<lparr>ns := s2\<rparr>)"
    "nsize s2 = nsize (ns ?b1)" "same_except (bytes (ns ?b1)) (bytes s2) (unat (flogoff a)) (64 * 256)"
    "\<forall>k < 256. flog_at (mem_read (bytes s2) (unat (flogoff a) + 64 * k) 16) 0 = fmt_flog (unat (external_nlba a) + k) \<and>
        flog_at (mem_read (bytes s2) (unat (flogoff a) + 64 * k + 16) 16) 0 = Zflog"
    using layout_flogs_done [OF p(1) al p(2,3), of lane "unat (external_nlba a)"] by blast
  have s2: "layout_flogs lane 256 (flogoff a) (external_nlba a) ?b1 = (Ok (), b\<lparr>ns := s2\<rparr>)"
    "nsize s2 = nsize s1" "same_except (bytes s1) (bytes s2) (unat (flogoff a)) (64 * 256)"
    "\<And>k. k < 256 \<Longrightarrow> flog_at (mem_read (bytes s2) (unat (flogoff a) + 64 * k) 16) 0 = fmt_flog (unat (external_nlba a) + k) \<and>
        flog_at (mem_read (bytes s2) (unat (flogoff a) + 64 * k + 16) 16) 0 = Zflog"
    using s2'(1-3) s2'(4) by simp_all
  let ?b2 = "b\<lparr>ns := s2\<rparr>" and ?i = "fmt_info_bytes b"
  have len: "length ?i = 4096" using fmt_info_bytes_read(1) [OF uuid refl] .
  have r2: "ns_cbp ?b2 = cb" "unat (0 :: u64) + length ?i \<le> nsize (ns ?b2)" using cb len s1(2) s2(2) size R by simp_all
  obtain s3 where s3: "ns_write lane ?i 0 ?b2 = (Ok (), ?b2\<lparr>ns := s3\<rparr>)" "nsize s3 = nsize s2"
    "bytes s3 = mem_write (bytes s2) 0 ?i"
    using ns_write_done [OF r2, where lane = lane] by auto
  let ?b3 = "b\<lparr>ns := s3\<rparr>"
  have r3: "ns_cbp ?b3 = cb" "unat (rawsize b - 4096) + length ?i \<le> nsize (ns ?b3)"
    using cb len s1(2) s2(2) s3(2) size R ioff by simp_all
  obtain s4 where s4: "ns_write lane ?i (rawsize b - 4096) ?b3 = (Ok (), ?b3\<lparr>ns := s4\<rparr>)" "nsize s4 = nsize s3"
    "bytes s4 = mem_write (bytes s3) (unat (rawsize b) - 4096) ?i"
    using ns_write_done [OF r3, where lane = lane] ioff by auto
  have run: "layout_arena lane 16384 ilb 0 (rawsize b) inlba 0 b = (Ok 0, b\<lparr>ns := s4\<rparr>)"
  proof -
    have 256: "nfree b = 256" "(ucast (256 :: u32) :: u64) = 256" "unat (256 :: u32) = 256" using nf by simp_all
    have moff: "flogoff a - ?ms = mapoff a" using w(5,6) by simp
    have s3': "ns_write lane ?i 0 ?b2 = (Ok (), ?b3)" and s4': "ns_write lane ?i (rawsize b - 4096) ?b3 = (Ok (), b\<lparr>ns := s4\<rparr>)"
      using s3(1) s4(1) by simp_all
    have data: "mapoff a - 4096 = rawsize b - 2 * 4096 - 16384 - ?ms" using w(8) by simp
    have info': "with_csum BTT_INFO_CSUM (bytes_of_info (layout_info b ilb (ucast inlba) (external_nlba a) 0 4096
      (mapoff a) (flogoff a) (rawsize b - 4096))) = ?i"
      using info by (simp add: w(5) moff E)
    have steps: "andthen (if ns_is_zeroed (ns_cbp b) then ret () else ns_zero lane ?ms (mapoff a)) f b = f () ?b1"
      "andthen (layout_flogs lane 256 (flogoff a) (external_nlba a)) f ?b1 = f () ?b2"
      "andthen (ns_write lane ?i 0) f ?b2 = f () ?b3"
      "andthen (ns_write lane ?i (rawsize b - 4096)) f ?b3 = f () (b\<lparr>ns := s4\<rparr>)"
      for f :: "unit \<Rightarrow> ('ns btt, u64) prog"
      by (rule andthen_Ok, rule s1(1) s2(1) s3' s4')+
    show ?thesis
      unfolding layout_arena_def Let_def 256 w(5) moff E add_0 if_not_P [OF minsize] info'
        andthen_assert [OF w(7)] andthen_assert [OF data [symmetric]] steps ret_def ..
  qed
  have media: "fmt_media (bytes s4) a"
  proof -
    have same: "mem_read (bytes s4) off k = mem_read (bytes s2) off k"
      if "4096 \<le> off" "off + k \<le> unat (rawsize b) - 4096" for off k
      using that len R by (simp add: s4(3) s3(3) mem_read_write_disjoint)
    have "map_raw (bytes s4) a i = 0" if "i < unat (external_nlba a)" for i
    proof -
      have top: "4096 \<le> unat (mapoff a)" "unat (mapoff a) + 4 * i + 4 \<le> unat (flogoff a)"
        using arena_geomD(1,2,3) [OF fmt_geom [OF size], folded ilb_def, folded a_def] that by simp_all
      then show ?thesis
        using same [of "unat (mapoff a) + 4 * i" 4] mem_read_same_except [OF s2(3), of "unat (mapoff a) + 4 * i" 4]
          s1(3) [OF that] u(4) by (simp add: map_raw_def)
    qed
    moreover have "flog_slot (bytes s4) a l 0 = fmt_flog (unat (external_nlba a) + l) \<and> flog_slot (bytes s4) a l 1 = Zflog"
      if "l < 256" for l
      using s2(4) [OF that] same [of "unat (flogoff a) + 64 * l" 16] same [of "unat (flogoff a) + 64 * l + 16" 16] u(4) R that
      by (simp add: flog_slot_def flog_off_def)
    ultimately show ?thesis by (simp add: fmt_media_def)
  qed
  have "mem_read (bytes s4) 0 4096 = ?i"
    using len R by (simp add: s4(3) s3(3) mem_read_write_disjoint)
  then show thesis using that [of s4] run media s1(2) s2(2) s3(2) s4(2) by simp
qed

end

text \<open>One arena, and how the loop over the arenas runs for it.\<close>

lemma one_arena:
  assumes "fmt_size_ok rs lb"
  shows "unat (rs div BTT_MAX_ARENA) + (if BTT_MIN_SIZE \<le> rs mod BTT_MAX_ARENA then 1 else 0) = 1"
    and "\<not> BTT_MAX_ARENA < rs" and "\<not> rs < BTT_MIN_SIZE"
proof -
  have R: "BTT_MIN_SIZE \<le> rs" "unat rs < 2 ^ 39" using assms by (auto simp: fmt_size_ok_def)
  have max: "unat BTT_MAX_ARENA = 2 ^ 39" by (simp add: btt_consts)
  have "unat (rs div BTT_MAX_ARENA) = 0" using R(2) by (simp add: unat_div_distrib max)
  moreover have "unat (rs mod BTT_MAX_ARENA) = unat rs" using R(2) by (simp add: unat_mod_distrib max)
  ultimately show "unat (rs div BTT_MAX_ARENA) + (if BTT_MIN_SIZE \<le> rs mod BTT_MAX_ARENA then 1 else 0) = 1"
    using R(1) by (simp add: word_le_nat_alt)
  show "\<not> BTT_MAX_ARENA < rs" using R(2) max by (simp add: word_less_nat_alt)
  show "\<not> rs < BTT_MIN_SIZE" using R(1) by (simp add: not_less)
qed

lemma layout_loop_one:
  assumes size: "fmt_size_ok (rawsize b) (lbasize b)" and nf: "nfree b = 256"
  defines "ilb \<equiv> layout_internal_lbasize (lbasize b)"
  defines "a \<equiv> fmt_arena (rawsize b) ilb"
  defines "inlba \<equiv> (rawsize b - 2 * 4096 - 16384 - BTT_ALIGNMENT) div ucast (ilb + BTT_MAP_ENTRY_SIZE)"
  shows "layout_loop lane False 16384 ilb (rawsize b) 0 0 0 b = (Ok (ucast (external_nlba a), 1), b)"
    and "layout_arena lane 16384 ilb 0 (rawsize b) inlba 0 b = (Ok 0, b') \<Longrightarrow>
      layout_loop lane True 16384 ilb (rawsize b) 0 0 0 b = (Ok (ucast (external_nlba a), 1), b')"
proof -
  note w = layout_words [OF size, folded ilb_def, folded a_def inlba_def] and one = one_arena [OF size]
  have stop: "layout_loop lane wr 16384 ilb 0 o1 t n c = (Ok (t, n), c)" for wr o1 t n c
    by (subst layout_loop.simps) (simp add: btt_consts)
  have enough: "\<not> inlba < ucast (2 * nfree b)"
    using w(1) fmt_arena_unat(10) [OF size] nf by (simp add: word_less_nat_alt ilb_def)
  have E: "0 + (inlba - ucast (nfree b)) = ucast (external_nlba a)" using w(2) nf by simp
  have rest: "rawsize b - rawsize b = 0" by simp
  show "layout_loop lane False 16384 ilb (rawsize b) 0 0 0 b = (Ok (ucast (external_nlba a), 1), b)"
    using enough by (subst layout_loop.simps)
      (simp only: one(2,3) if_False Let_def rest inlba_def [symmetric] E stop simp_thms, simp)
  show "layout_loop lane True 16384 ilb (rawsize b) 0 0 0 b = (Ok (ucast (external_nlba a), 1), b')"
    if "layout_arena lane 16384 ilb 0 (rawsize b) inlba 0 b = (Ok 0, b')"
    using enough that by (subst layout_loop.simps)
      (simp only: one(2,3) if_False Let_def rest inlba_def [symmetric] E stop simp_thms, simp add: stop)
qed

lemma write_layout_eq:
  assumes size: "fmt_size_ok (rawsize b) (lbasize b)" and nf: "nfree b = 256"
  shows "write_layout lane wr b =
    (case layout_loop lane wr 16384 (layout_internal_lbasize (lbasize b)) (rawsize b) 0 0 0 (b\<lparr>narena := 1\<rparr>) of
       (Ok (t, n), c) \<Rightarrow>
         if n = 1 then (if wr then read_arenas lane 1 (c\<lparr>nlba := t\<rparr>) else (Ok (), c\<lparr>nlba := t\<rparr>)) else (Stuck, c)
     | (Err e, c) \<Rightarrow> (Err e, c)
     | (Stuck, c) \<Rightarrow> (Stuck, c))"
proof -
  note one = one_arena [OF size]
  have "512 \<le> unat (layout_internal_lbasize (lbasize b))"
    using internal_lbasize_facts(2) [of "lbasize b"] size by (simp add: fmt_size_ok_def)
  then have "\<not> layout_internal_lbasize (lbasize b) < BTT_INTERNAL_LBA_ALIGNMENT"
    by (simp add: word_less_nat_alt BTT_INTERNAL_LBA_ALIGNMENT_def)
  moreover have "BTT_MIN_SIZE \<le> rawsize b" using one(3) by (simp add: not_less)
  moreover obtain q c where "layout_loop lane wr 16384 (layout_internal_lbasize (lbasize b)) (rawsize b) 0 0 0
      (b\<lparr>narena := 1\<rparr>) = (q, c)" by (metis prod.exhaust)
  ultimately show ?thesis
    using one(1) nf
    by (cases q) (auto simp add: write_layout_def andthen_def gets_def assert_def update_def Let_def flog_size_256
        ret_def simp del: One_nat_def)
qed

context ns_reliable
begin

lemma write_layout_done:
  assumes pr: "btt_pristine cb bytes nsize b" and lane: "lane < nlane b"
  obtains b' where "write_layout lane True b = (Ok (), b')" "same_dev nsize b b'"
    "btt_inv cb bytes nsize b'" "btt_view bytes b' = btt_view bytes b"
proof -
  note ok = pr [unfolded btt_pristine_def Let_def]
  let ?ilb = "layout_internal_lbasize (lbasize b)"
  let ?a = "fmt_arena (rawsize b) ?ilb"
  have cb: "ns_cbp b = cb" and nf: "nfree b = 256" and uuid: "length (parent_uuid b) = 16"
    and size: "fmt_size_ok (rawsize b) (lbasize b)" "unat (rawsize b) \<le> nsize (ns b)" "nsize (ns b) < 2 ^ 63"
    and na: "b\<lparr>narena := 1\<rparr> = b" "narena b = 1" and nl: "nlba b = ucast (external_nlba ?a)"
    and lanes: "0 < nlane b" "nlane b \<le> 256" and lay: "\<not> laidout b"
    using ok by auto
  obtain s' where s': "layout_arena lane 16384 ?ilb 0 (rawsize b)
      ((rawsize b - 2 * 4096 - 16384 - BTT_ALIGNMENT) div ucast (?ilb + BTT_MAP_ENTRY_SIZE)) 0 b = (Ok 0, b\<lparr>ns := s'\<rparr>)"
    "nsize s' = nsize (ns b)" "fmt_media (bytes s') ?a" "mem_read (bytes s') 0 4096 = fmt_info_bytes b"
    using layout_arena_done [OF pr, where lane = lane] .
  let ?c = "b\<lparr>ns := s'\<rparr>"
  have loop: "write_layout lane True b = read_arenas lane 1 ?c"
    using layout_loop_one(2) [OF size(1) nf s'(1)] write_layout_eq [OF size(1) nf, of lane True] na(1)
    by (simp add: nl [symmetric])
  note fin = fmt_inv [OF size(1) _ _ s'(3), of "nsize s'"]
  have ainv: "arena_inv 256 (unat (lbasize b)) (nsize s') (bytes s') ?a" using fin(1) s'(2) size by simp
  obtain c where "read_info ?c (fmt_info_bytes b) = Some ((fmt_info b)\<lparr>info_checksum := c\<rparr>)"
    using fmt_info_bytes_read(2) [OF uuid, of ?c] by auto
  then have info: "info_ok ?c (bytes s') ?a"
    using nf by (simp add: info_ok_def s'(4) fmt_info_def layout_info_def Let_def)
  let ?b' = "?c\<lparr>arenas := [?a], laidout := True\<rparr>"
  have "read_arenas lane 1 ?c = (Ok (), ?b')"
    using cb info ainv nl nf lane lanes by (intro read_arenas_settled [where lb = "unat (lbasize b)"]) simp_all
  then have run: "write_layout lane True b = (Ok (), ?b')" using loop by simp
  have "info_ok ?b' (bytes s') ?a" using info by (subst info_ok_cong [where b = ?c]) simp_all
  then have inv: "btt_inv cb bytes nsize ?b'"
    using cb na lanes nf size nl ainv by (simp add: btt_inv_def fmt_size_ok_def)
  have "btt_view bytes ?b' j = btt_view bytes b j" for j
    using fin(2) s'(2) size nl lay by (simp add: btt_view_def unat_ucast_32_64)
  then have "btt_view bytes ?b' = btt_view bytes b" by blast
  then show thesis using that [of ?b'] run inv s'(2) by (simp add: same_dev_def)
qed

end

section \<open>Handles with and without a layout\<close>

definition btt_ok :: "'ns ns_callback \<Rightarrow> ('ns \<Rightarrow> mem) \<Rightarrow> ('ns \<Rightarrow> nat) \<Rightarrow> 'ns btt \<Rightarrow> bool" where
  "btt_ok cb bytes nsize b \<longleftrightarrow> btt_inv cb bytes nsize b \<or> btt_pristine cb bytes nsize b"

lemma pristine_laidout: "btt_pristine cb bytes nsize b \<Longrightarrow> \<not> laidout b"
  by (simp add: btt_pristine_def Let_def)

lemma write_after_layout:
  assumes "\<not> laidout b" and "lba < nlba b" and "write_layout lane True b = (Ok (), b')"
    and "laidout b'" and "nlba b' = nlba b" and "lbasize b' = lbasize b"
  shows "btt_write lane lba buf b = btt_write lane lba buf b'"
    and "setf \<noteq> BTT_MAP_ENTRY_ZERO \<Longrightarrow> map_entry_setf lane lba setf b = map_entry_setf lane lba setf b'"
  using assms
  by (auto simp: btt_write_def map_entry_setf_def invalid_lba_def ensure_layout_def andthen_def gets_def ret_def)

lemma setf_zero_pristine:
  "\<not> laidout b \<Longrightarrow> lba < nlba b \<Longrightarrow> map_entry_setf lane lba BTT_MAP_ENTRY_ZERO b = (Ok (), b)"
  by (auto simp: map_entry_setf_def invalid_lba_def ret_def)

context ns_reliable
begin

lemma ok_read:
  assumes ok: "btt_ok cb bytes nsize b" and lane: "lane < nlane b"
  shows "btt_read lane lba b = (view_outcome (btt_view bytes b (unat lba)), b)"
  using ok unfolding btt_ok_def
proof
  assume "btt_inv cb bytes nsize b"
  then show ?thesis using lane by (rule btt_read_view)
next
  assume "btt_pristine cb bytes nsize b"
  then show ?thesis
    using pristine_laidout
    by (auto simp: btt_read_def invalid_lba_def word_le_nat_alt fail_def ret_def zero_block_def btt_view_def view_outcome_def)
qed

text \<open>The layout is there or can be put there without a change to the view.\<close>

lemma ok_laid_out:
  assumes ok: "btt_ok cb bytes nsize b" and lane: "lane < nlane b"
  obtains b' where "btt_inv cb bytes nsize b'" "same_dev nsize b b'" "btt_view bytes b' = btt_view bytes b"
    "\<And>lba buf. lba < nlba b \<Longrightarrow> btt_write lane lba buf b = btt_write lane lba buf b'"
    "\<And>lba. lba < nlba b \<Longrightarrow> map_entry_setf lane lba BTT_MAP_ENTRY_ERROR b = map_entry_setf lane lba BTT_MAP_ENTRY_ERROR b'"
proof (cases "laidout b")
  case True
  then have "btt_inv cb bytes nsize b" using ok pristine_laidout by (auto simp: btt_ok_def)
  then show thesis using that [of b] by (simp add: same_dev_def)
next
  case False
  then have pr: "btt_pristine cb bytes nsize b" using ok btt_invD(2) by (auto simp: btt_ok_def)
  obtain b' where b': "write_layout lane True b = (Ok (), b')" "same_dev nsize b b'"
    "btt_inv cb bytes nsize b'" "btt_view bytes b' = btt_view bytes b"
    using write_layout_done [OF pr lane] .
  have ne: "BTT_MAP_ENTRY_ERROR \<noteq> BTT_MAP_ENTRY_ZERO" by (simp add: map_entry_consts)
  have same: "laidout b'" "nlba b' = nlba b" "lbasize b' = lbasize b"
    using b'(2) btt_invD(2) [OF b'(3)] by (simp_all add: same_dev_def)
  show thesis
    using that [OF b'(3,2,4)] write_after_layout(1) [OF False _ b'(1) same]
      write_after_layout(2) [OF False _ b'(1) same ne] by blast
qed

lemma ok_write:
  assumes ok: "btt_ok cb bytes nsize b" and lane: "lane < nlane b" and lba: "lba < nlba b"
    and len: "length buf = unat (lbasize b)"
  obtains b' where "btt_write lane lba buf b = (Ok (), b')" "same_dev nsize b b'" "btt_ok cb bytes nsize b'"
    "btt_view bytes b' = (btt_view bytes b)(unat lba := Inr buf)"
proof -
  obtain c where c: "btt_inv cb bytes nsize c" "same_dev nsize b c" "btt_view bytes c = btt_view bytes b"
    "btt_write lane lba buf b = btt_write lane lba buf c"
    using ok_laid_out [OF ok lane] lba by metis
  have dev: "nlba c = nlba b" "nlane c = nlane b" "lbasize c = lbasize b" using c(2) by (simp_all add: same_dev_def)
  have pre: "\<not> False" "lba < nlba c" "lane < nlane c" "length buf = unat (lbasize c)" using lba lane len dev by simp_all
  from c(1) pre show thesis
  proof (cases rule: btt_write_cases)
    case (ok b')
    then show ?thesis using c by (intro that [of b']) (simp_all add: same_dev_def btt_ok_def)
  qed simp
qed

lemma ok_setf:
  assumes ok: "btt_ok cb bytes nsize b" and lane: "lane < nlane b" and lba: "lba < nlba b"
    and setf: "setf = BTT_MAP_ENTRY_ZERO \<or> setf = BTT_MAP_ENTRY_ERROR"
  obtains b' where "map_entry_setf lane lba setf b = (Ok (), b')" "same_dev nsize b b'" "btt_ok cb bytes nsize b'"
    "btt_view bytes b' = (btt_view bytes b)
      (unat lba := if setf = BTT_MAP_ENTRY_ZERO then Inr (replicate (unat (lbasize b)) 0) else Inl EIO)"
proof (cases "\<not> laidout b \<and> setf = BTT_MAP_ENTRY_ZERO")
  case True
  then have "btt_view bytes b (unat lba) = Inr (replicate (unat (lbasize b)) 0)"
    using lba by (simp add: btt_view_def word_less_nat_alt)
  then have "btt_view bytes b = (btt_view bytes b)(unat lba := Inr (replicate (unat (lbasize b)) 0))" by auto
  then show thesis using True ok setf_zero_pristine [of b lba lane] lba by (intro that [of b]) (simp_all add: same_dev_def)
next
  case False
  obtain c where c: "btt_inv cb bytes nsize c" "same_dev nsize b c" "btt_view bytes c = btt_view bytes b"
    "map_entry_setf lane lba setf b = map_entry_setf lane lba setf c"
  proof (cases "laidout b")
    case True
    then have "btt_inv cb bytes nsize b" using ok pristine_laidout by (auto simp: btt_ok_def)
    then show thesis using that [of b] by (simp add: same_dev_def)
  next
    case lay: False
    then have "setf = BTT_MAP_ENTRY_ERROR" using False setf by auto
    then show thesis using ok_laid_out [OF ok lane] lba that by metis
  qed
  have dev: "nlba c = nlba b" "lbasize c = lbasize b" using c(2) by (simp_all add: same_dev_def)
  have pre: "\<not> False" "lba < nlba c" using lba dev by simp_all
  from c(1) pre setf show thesis
  proof (cases rule: setf_cases [where lane = lane])
    case (ok b')
    then show ?thesis using c dev by (intro that [of b']) (simp_all add: same_dev_def btt_ok_def)
  qed simp
qed

text \<open>Opening a namespace without a layout.\<close>

lemma btt_init_pristine:
  fixes maxlane :: nat
  assumes size: "fmt_size_ok rs lb" "unat rs \<le> nsize s" "nsize s < 2 ^ 63" and uuid: "length uuid = 16"
    and none: "read_info (fresh_btt rs lb uuid s cb) (mem_read (bytes s) 0 4096) = None"
    and zero: "ns_is_zeroed cb \<Longrightarrow> \<forall>i < unat (external_nlba (fmt_arena rs (layout_internal_lbasize lb))).
      map_raw (bytes s) (fmt_arena rs (layout_internal_lbasize lb)) i = 0"
  defines "lanes \<equiv> (if maxlane \<noteq> 0 \<and> maxlane < 256 then maxlane else 256)"
  defines "b \<equiv> (fresh_btt rs lb uuid s cb)\<lparr>nfree := 256, narena := 1, nlane := lanes,
    nlba := ucast (external_nlba (fmt_arena rs (layout_internal_lbasize lb)))\<rparr>"
  shows "btt_init rs lb uuid maxlane s cb = (Ok b, s)" and "btt_pristine cb bytes nsize b"
proof -
  let ?b = "(fresh_btt rs lb uuid s cb)\<lparr>nfree := 256\<rparr>"
  have R: "2 ^ 24 \<le> unat rs" "\<not> rs < BTT_MIN_SIZE" "BTT_MIN_SIZE \<le> rs"
    using fmt_size_min [OF size(1)] one_arena(3) [OF size(1)] by (auto simp: not_less)
  have "ns_read 0 4096 0 ?b = (Ok (mem_read (bytes s) 0 4096), ?b)"
    using ns_read_ok [of ?b 0 4096 0] size(2) R(1) by (simp add: fresh_btt_def)
  moreover have "read_info ?b (mem_read (bytes s) 0 4096) = None"
    using none read_info_cong [of ?b "fresh_btt rs lb uuid s cb"] by simp
  ultimately have scan: "read_layout_loop 0 rs 0 0 (- 1) 0 ?b = (Ok NoLayout, ?b)"
    using R(2) by (subst read_layout_loop.simps) simp
  have "write_layout 0 False ?b = (Ok (), ?b\<lparr>narena := 1, nlba := ucast (external_nlba (fmt_arena rs (layout_internal_lbasize lb)))\<rparr>)"
    using write_layout_eq [of ?b 0 False] layout_loop_one(1) [of "?b\<lparr>narena := 1\<rparr>" 0] size(1)
    by (simp add: fresh_btt_def)
  then have "read_layout 0 (fresh_btt rs lb uuid s cb) =
      (Ok (), ?b\<lparr>narena := 1, nlba := ucast (external_nlba (fmt_arena rs (layout_internal_lbasize lb)))\<rparr>)"
    using scan R(3) by (simp add: read_layout_def andthen_def gets_def assert_def update_def BTT_DEFAULT_NFREE_def fresh_btt_def)
  then show "btt_init rs lb uuid maxlane s cb = (Ok b, s)"
    using R(2) by (simp add: btt_init_def b_def lanes_def fresh_btt_def)
  have "read_info b (mem_read (bytes s) 0 4096) = None"
    using none read_info_cong [of b "fresh_btt rs lb uuid s cb"] by (simp add: b_def)
  then show "btt_pristine cb bytes nsize b"
    using size uuid zero by (auto simp: btt_pristine_def b_def lanes_def fresh_btt_def Let_def)
qed

text \<open>
  Opening the namespace of a handle again gives a handle with the same view; only the number of
  lanes follows the new bound.
\<close>

lemma ok_reopen:
  assumes ok: "btt_ok cb bytes nsize b"
  obtains b' where "btt_init (rawsize b) (lbasize b) (parent_uuid b) maxlane (ns b) cb = (Ok b', ns b)"
    "btt_ok cb bytes nsize b'" "btt_view bytes b' = btt_view bytes b" "ns b' = ns b" "nlba b' = nlba b"
    "lbasize b' = lbasize b" "rawsize b' = rawsize b" "parent_uuid b' = parent_uuid b" "0 < nlane b'"
  using ok unfolding btt_ok_def
proof
  assume inv: "btt_inv cb bytes nsize b"
  note D = btt_invD [OF inv]
  let ?b' = "reopened b maxlane (ns b) (arenas b ! 0)"
  have "btt_view bytes ?b' = btt_view bytes b"
    using D(2) by (simp add: fun_eq_iff btt_view_def reopened_def)
  then show thesis
    using btt_init_settled [OF inv D(11,12,9), of maxlane] reopened_inv [OF inv D(11,12,10,9), of maxlane]
      btt_invD(5) [OF reopened_inv [OF inv D(11,12,10,9), of maxlane]]
    by (intro that [of ?b']) (simp_all add: btt_ok_def reopened_def)
next
  assume pr: "btt_pristine cb bytes nsize b"
  note D = pr [unfolded btt_pristine_def Let_def]
  have lay: "\<not> laidout b" using D by simp
  let ?f = "fresh_btt (rawsize b) (lbasize b) (parent_uuid b) (ns b) cb"
  let ?b' = "?f\<lparr>nfree := 256, narena := 1, nlane := (if maxlane \<noteq> 0 \<and> maxlane < 256 then maxlane else 256),
    nlba := ucast (external_nlba (fmt_arena (rawsize b) (layout_internal_lbasize (lbasize b))))\<rparr>"
  have none: "read_info ?f (mem_read (bytes (ns b)) 0 4096) = None"
    using D read_info_cong [of ?f b] by (simp add: fresh_btt_def)
  have size: "fmt_size_ok (rawsize b) (lbasize b)" "unat (rawsize b) \<le> nsize (ns b)" "nsize (ns b) < 2 ^ 63"
    "length (parent_uuid b) = 16"
    and zero: "ns_is_zeroed cb \<Longrightarrow> \<forall>i < unat (external_nlba (fmt_arena (rawsize b) (layout_internal_lbasize (lbasize b)))).
      map_raw (bytes (ns b)) (fmt_arena (rawsize b) (layout_internal_lbasize (lbasize b))) i = 0"
    using D by auto
  show thesis
    using btt_init_pristine [OF size none zero, of maxlane] D lay by (intro that [of ?b']) (simp_all add: btt_ok_def fresh_btt_def btt_view_def fun_eq_iff)
qed

end

end
