(* ===== verification/Btt_Check.thy ===== *)
theory Btt_Check
  imports Btt_Ops
begin

text \<open>
  \<open>btt_check\<close> decides whether every block of an arena is referenced exactly once, by the
  map or by the flog.  It reads the map through \<open>nsmap\<close> windows.
\<close>

locale ns_mapped =
  fixes cb :: "'ns ns_callback" and bytes :: "'ns \<Rightarrow> mem" and nsize :: "'ns \<Rightarrow> nat"
  assumes nsmap_ok:
      "unat off + unat len < nsize s \<Longrightarrow>
       nsmap cb s lane len off = Inr (mem_read (bytes s) (unat off) (unat len))"

section \<open>The bitmap\<close>

fun bitmap_adds :: "bool list \<times> bool \<Rightarrow> nat list \<Rightarrow> (bool list \<times> bool) option" where
  "bitmap_adds bc [] = Some bc"
| "bitmap_adds bc (n # xs) = (case bitmap_add bc n of None \<Rightarrow> None | Some bc' \<Rightarrow> bitmap_adds bc' xs)"

lemma bitmap_adds_append:
  "bitmap_adds bc (xs @ ys) = (case bitmap_adds bc xs of None \<Rightarrow> None | Some bc' \<Rightarrow> bitmap_adds bc' ys)"
  by (induction xs arbitrary: bc) (auto split: option.splits)

lemma bitmap_adds_in_range:
  "(\<forall>n\<in>set xs. n < length bm) \<Longrightarrow>
   \<exists>bm'. bitmap_adds (bm, c) xs = Some (bm', c \<and> distinct xs \<and> (\<forall>n\<in>set xs. \<not> bm ! n)) \<and> length bm' = length bm \<and>
     (\<forall>k < length bm. bm' ! k \<longleftrightarrow> bm ! k \<or> k \<in> set xs)"
proof (induction xs arbitrary: bm c)
  case (Cons n xs)
  show ?case
  proof (cases "bm ! n")
    case True
    then obtain bm' where "bitmap_adds (bm, False) xs = Some (bm', False)" "length bm' = length bm"
      "\<forall>k < length bm. bm' ! k \<longleftrightarrow> bm ! k \<or> k \<in> set xs"
      using Cons.IH [of bm False] Cons.prems by auto
    then show ?thesis using True Cons.prems by (auto simp: bitmap_add_def)
  next
    case False
    let ?bm = "bm[n := True]"
    obtain bm' where bm': "bitmap_adds (?bm, c) xs = Some (bm', c \<and> distinct xs \<and> (\<forall>n\<in>set xs. \<not> ?bm ! n))"
      "length bm' = length ?bm" "\<forall>k < length ?bm. bm' ! k \<longleftrightarrow> ?bm ! k \<or> k \<in> set xs"
      using Cons.IH [of ?bm c] Cons.prems by auto
    have "(\<forall>k\<in>set xs. \<not> ?bm ! k) \<longleftrightarrow> n \<notin> set xs \<and> (\<forall>k\<in>set xs. \<not> bm ! k)"
      using Cons.prems by (auto simp: nth_list_update)
    then show ?thesis using bm' False Cons.prems
      by (intro exI [of _ bm']) (auto simp: bitmap_add_def nth_list_update)
  qed
qed simp

lemma bitmap_adds_out:
  "\<exists>n\<in>set xs. length bm \<le> n \<Longrightarrow> bitmap_adds (bm, c) xs = None"
proof (induction xs arbitrary: bm c)
  case (Cons n xs)
  then show ?case by (cases "length bm \<le> n") (auto simp: bitmap_add_def)
qed simp

lemma check_flog_loop_eq:
  "check_flog_loop fs bc = bitmap_adds bc (map (\<lambda>f. unat (entry_lba (flog_old_map (frt_flog f)))) fs)"
  by (induction fs arbitrary: bc) (auto split: option.splits)

section \<open>The map window\<close>

lemma map_block_entry:
  assumes "arena_geom nf lb sz a" and "i < unat (external_nlba a)"
  shows "unat (if map_entry_is_initial (map_raw m a i) then of_nat i else entry_lba (map_raw m a i)) = map_block m a i"
proof -
  have i: "i < 2 ^ 30" using external_nlba_bound [OF assms] by simp
  have "entry_lba (of_nat i) = (of_nat i :: u32)" using entry_lba_norm_initial [OF assms] .
  then have "entry_lba (of_nat i OR BTT_MAP_ENTRY_NORMAL) = (of_nat i :: u32)"
    using entry_lba_build(1) [of "of_nat i"] by metis
  then show ?thesis by (simp add: map_block_def map_norm_def)
qed

lemma bitmap_add_length: "bitmap_add bc n = Some bc' \<Longrightarrow> length (fst bc') = length (fst bc)"
  by (cases bc) (auto simp: bitmap_add_def split: if_splits)

text \<open>
  With the window over the whole map, the loop adds every block of the map to the bitmap, or
  stops at an entry that is out of range.
\<close>

lemma check_map_window:
  fixes m :: mem
  assumes geom: "arena_geom nf lb sz a"
  defines "win \<equiv> mem_read m (unat (mapoff a)) (4 * unat (external_nlba a))"
  shows "i + n = unat (external_nlba a) \<Longrightarrow> unat (internal_nlba a) \<le> length (fst bc) \<Longrightarrow>
    check_map_loop n i a win i (4 * int n) off bc b =
      (if \<forall>j\<in>{i..<unat (external_nlba a)}. map_block m a j < unat (internal_nlba a)
       then (Ok (the (bitmap_adds bc (map (map_block m a) [i..<unat (external_nlba a)]))), b)
       else (Err EINVAL, b))"
proof (induction n arbitrary: i bc off)
  case 0
  then show ?case by simp
next
  case (Suc n)
  let ?E = "unat (external_nlba a)"
  have i: "i < ?E" using Suc.prems(1) by simp
  have raw: "le_at 4 win (4 * i) = map_raw m a i"
    using i by (simp add: win_def le_at_mem_read map_raw_def)
  have len: "\<not> length win < 4 * i + 4" using i by (simp add: win_def)
  let ?e = "if map_entry_is_initial (map_raw m a i) then of_nat i else entry_lba (map_raw m a i)"
  have e: "unat ?e = map_block m a i" using map_block_entry [OF geom i] .
  have upt: "[i..<?E] = i # [Suc i..<?E]" using i by (simp add: upt_conv_Cons)
  have range: "(\<forall>j\<in>{i..<?E}. P j) \<longleftrightarrow> P i \<and> (\<forall>j\<in>{Suc i..<?E}. P j)" for P
  proof -
    have "{i..<?E} = insert i {Suc i..<?E}" using i by auto
    then show ?thesis by simp
  qed
  show ?case
  proof (cases "map_block m a i < unat (internal_nlba a)")
    case False
    then have "internal_nlba a \<le> ?e" using e by (simp add: word_le_nat_alt)
    then show ?thesis using False range [of "\<lambda>j. map_block m a j < unat (internal_nlba a)"] raw len by (simp add: Let_def)
  next
    case True
    then have lt: "\<not> internal_nlba a \<le> ?e" using e by (simp add: word_le_nat_alt)
    obtain bc' where bc': "bitmap_add bc (map_block m a i) = Some bc'"
    proof -
      have "bitmap_add bc (map_block m a i) \<noteq> None"
        using True Suc.prems(2) by (cases bc) (auto simp: bitmap_add_def)
      then show thesis using that by blast
    qed
    have "check_map_loop (Suc n) i a win i (4 * int (Suc n)) off bc b =
        check_map_loop n (Suc i) a win (Suc i) (4 * int n) (off + 4) bc' b"
      using raw len lt bc' e by (simp add: Let_def)
    then show ?thesis
      using Suc.IH [of "Suc i" bc' "off + 4"] Suc.prems bitmap_add_length [OF bc'] True bc' upt
        range [of "\<lambda>j. map_block m a j < unat (internal_nlba a)"] by simp
  qed
qed

text \<open>The first request maps the window.\<close>

lemma check_map_first:
  assumes "nsmap (ns_cbp b) (ns b) 0 (ucast ((external_nlba a - of_nat i) :: u32) * 4) off = Inr win" and "win \<noteq> []"
  shows "check_map_loop (Suc n) i a w x 0 off bc b = check_map_loop (Suc n) i a win 0 (int (length win)) off bc b"
  using assms by (simp add: Let_def)

section \<open>The check decides\<close>

lemma blocks_exactly_once:
  assumes len: "length es = n" "length fs = k" and "n + k = t" and "distinct (es @ fs)" and "{..<t} \<subseteq> set (es @ fs)"
  shows "\<forall>x\<in>set (es @ fs). x < t"
proof -
  have "card (set (es @ fs)) = t" using assms(1-4) distinct_card [OF assms(4)] by simp
  then have "{..<t} = set (es @ fs)" using assms(5) by (intro card_subset_eq) auto
  then show ?thesis by auto
qed

lemma blocks_all_there:
  assumes "length es = n" "length fs = k" and "n + k = t" and "distinct (es @ fs)" and "\<forall>x\<in>set (es @ fs). x < t"
  shows "{..<t} \<subseteq> set (es @ fs)"
proof -
  have "card (set (es @ fs)) = t" using assms(1-4) distinct_card [OF assms(4)] by simp
  moreover have "set (es @ fs) \<subseteq> {..<t}" using assms(5) by auto
  ultimately have "set (es @ fs) = {..<t}" by (intro card_subset_eq) auto
  then show ?thesis by simp
qed

lemma distinct_map_upt: "distinct (map f [0..<n]) \<longleftrightarrow> inj_on f {..<n}"
  by (simp add: distinct_map atLeast0LessThan)

lemma disjoint_map_upt:
  "set (map f [0..<n]) \<inter> set (map g [0..<k]) = {} \<longleftrightarrow> (\<forall>i < n. \<forall>l < k. f i \<noteq> g l)"
  by (auto simp: disjoint_iff image_iff atLeast0LessThan)

lemma blocks_ok_lists:
  "blocks_ok nf m a \<longleftrightarrow>
     distinct (map (map_block m a) [0..<unat (external_nlba a)] @ map (free_block a) [0..<nf]) \<and>
     (\<forall>x\<in>set (map (map_block m a) [0..<unat (external_nlba a)] @ map (free_block a) [0..<nf]). x < unat (internal_nlba a))"
proof -
  have "set (map (map_block m a) [0..<unat (external_nlba a)]) \<inter> set (map (free_block a) [0..<nf]) = {} \<longleftrightarrow>
      (\<forall>i < unat (external_nlba a). \<forall>l < nf. map_block m a i \<noteq> free_block a l)"
    by (rule disjoint_map_upt)
  moreover have "(\<forall>x\<in>set (map (map_block m a) [0..<unat (external_nlba a)] @ map (free_block a) [0..<nf]). x < N) \<longleftrightarrow>
      (\<forall>i < unat (external_nlba a). map_block m a i < N) \<and> (\<forall>l < nf. free_block a l < N)" for N
    by (auto simp: atLeast0LessThan)
  ultimately show ?thesis
    unfolding blocks_ok_def distinct_append distinct_map_upt by blast
qed

context ns_mapped
begin

lemma check_arena_iff:
  assumes cb: "ns_cbp b = cb" and geom: "arena_geom (unat (nfree b)) lb (nsize (ns b)) a"
    and flen: "length (flogs a) = unat (nfree b)"
  shows "fst (check_arena a b) = Ok True \<longleftrightarrow> blocks_ok (unat (nfree b)) (bytes (ns b)) a"
    and "snd (check_arena a b) = b"
proof -
  let ?E = "unat (external_nlba a)" and ?N = "unat (internal_nlba a)" and ?nf = "unat (nfree b)" and ?m = "bytes (ns b)"
  let ?nbits = "(?N + 7) div 8 * 8" and ?win = "mem_read ?m (unat (mapoff a)) (4 * ?E)"
  let ?es = "map (map_block ?m a) [0..<?E]" and ?fs = "map (free_block a) [0..<?nf]"
  let ?bm = "replicate ?nbits False"
  have nbits: "?N \<le> ?nbits" using roundup_ge_nat [of 8 ?N] by simp
  obtain n where E: "?E = Suc n" using arena_geomD(14) [OF geom] gr0_implies_Suc by blast
  have ne: "?N = ?E + ?nf" using arena_geomD(12) [OF geom] .
  have "unat (ucast (external_nlba a) * (4 :: u64)) = 4 * ?E"
    using internal_nlba_bound [OF geom] ne by (simp add: unat_word_ariths unat_ucast_32_64)
  moreover have "unat (mapoff a) + 4 * ?E < nsize (ns b)" using arena_geomD(3,4,13) [OF geom] by simp
  ultimately have win: "nsmap cb (ns b) 0 (ucast (external_nlba a) * 4) (mapoff a) = Inr ?win"
    using nsmap_ok [of "mapoff a" "ucast (external_nlba a) * 4" "ns b" 0] by simp
  have "check_map_loop ?E 0 a [] 0 0 (mapoff a) (?bm, True) b = check_map_loop ?E 0 a ?win 0 (4 * int ?E) (mapoff a) (?bm, True) b"
    using check_map_first [where b = b and i = 0 and a = a and off = "mapoff a" and win = ?win and n = n] win cb E by simp
  also have "\<dots> = (if \<forall>j\<in>{0..<?E}. map_block ?m a j < ?N then (Ok (the (bitmap_adds (?bm, True) ?es)), b) else (Err EINVAL, b))"
    using nbits by (intro check_map_window [OF geom]) simp_all
  finally have loop: "check_map_loop ?E 0 a [] 0 0 (mapoff a) (?bm, True) b =
      (if \<forall>j\<in>{0..<?E}. map_block ?m a j < ?N then (Ok (the (bitmap_adds (?bm, True) ?es)), b) else (Err EINVAL, b))" .
  have flogs: "check_flog_loop (take ?nf (flogs a)) bc = bitmap_adds bc ?fs" for bc
  proof -
    have "map (\<lambda>f. unat (entry_lba (flog_old_map (frt_flog f)))) (take ?nf (flogs a)) = ?fs"
      using flen by (auto simp: list_eq_iff_nth_eq free_block_def)
    then show ?thesis by (simp only: check_flog_loop_eq)
  qed
  show "snd (check_arena a b) = b"
    by (simp add: check_arena_def Let_def andthen_def loop ret_def stuck_def split: option.splits prod.splits)
  show "fst (check_arena a b) = Ok True \<longleftrightarrow> blocks_ok ?nf ?m a"
  proof (cases "\<forall>j\<in>{0..<?E}. map_block ?m a j < ?N")
    case False
    then have "\<not> blocks_ok ?nf ?m a" by (auto simp: blocks_ok_def)
    moreover have "check_map_loop ?E 0 a [] 0 0 (mapoff a) (?bm, True) b = (Err EINVAL, b)"
      unfolding loop using False by (rule if_not_P)
    ultimately show ?thesis by (simp add: check_arena_def Let_def andthen_def)
  next
    case True
    then have "\<forall>n\<in>set ?es. n < length ?bm" using nbits by auto
    then obtain bm' c where adds: "bitmap_adds (?bm, True) ?es = Some (bm', c)"
      using bitmap_adds_in_range [of ?es ?bm True] by blast
    then have both: "bitmap_adds (?bm, True) (?es @ ?fs) = bitmap_adds (bm', c) ?fs" by (simp add: bitmap_adds_append)
    have run: "fst (check_arena a b) = (case bitmap_adds (?bm, True) (?es @ ?fs) of None \<Rightarrow> Stuck
        | Some (bm, c) \<Rightarrow> Ok (c \<and> list_all id (take ?N bm)))"
      using True unfolding both
      by (simp add: check_arena_def Let_def andthen_def loop adds flogs stuck_def ret_def split: option.splits prod.splits)
    have lens: "length ?es = ?E" "length ?fs = ?nf" "?E + ?nf = ?N" using ne by simp_all
    show ?thesis
    proof (cases "\<forall>x\<in>set (?es @ ?fs). x < length ?bm")
      case out: False
      then have "\<not> blocks_ok ?nf ?m a" using nbits unfolding blocks_ok_lists by fastforce
      moreover have "bitmap_adds (?bm, True) (?es @ ?fs) = None"
        using out by (intro bitmap_adds_out) (meson not_less)
      ultimately show ?thesis unfolding run by simp
    next
      case inside: True
      obtain bm2 where bm2: "bitmap_adds (?bm, True) (?es @ ?fs) =
          Some (bm2, True \<and> distinct (?es @ ?fs) \<and> (\<forall>x\<in>set (?es @ ?fs). \<not> ?bm ! x))"
        "length bm2 = length ?bm" "\<forall>k < length ?bm. bm2 ! k \<longleftrightarrow> ?bm ! k \<or> k \<in> set (?es @ ?fs)"
        using bitmap_adds_in_range [OF inside, of True] by blast
      have clear: "\<forall>x\<in>set (?es @ ?fs). \<not> ?bm ! x" using inside by (auto simp del: map_append)
      have "list_all id (take ?N bm2) \<longleftrightarrow> (\<forall>k < ?N. bm2 ! k)"
        using bm2(2) nbits by (simp add: list_all_length)
      also have "\<dots> \<longleftrightarrow> (\<forall>k < ?N. k \<in> set (?es @ ?fs))"
      proof -
        have "bm2 ! k \<longleftrightarrow> k \<in> set (?es @ ?fs)" if "k < ?N" for k
          using bm2(3) [rule_format, of k] that nbits by (simp only: length_replicate nth_replicate) simp
        then show ?thesis by blast
      qed
      also have "\<dots> \<longleftrightarrow> {..<?N} \<subseteq> set (?es @ ?fs)" by (simp only: subset_iff lessThan_iff)
      finally have "fst (check_arena a b) = Ok True \<longleftrightarrow> distinct (?es @ ?fs) \<and> {..<?N} \<subseteq> set (?es @ ?fs)"
        unfolding run bm2(1) using clear by simp
      then show ?thesis
        unfolding blocks_ok_lists using blocks_exactly_once [OF lens] blocks_all_there [OF lens] by blast
    qed
  qed
qed

text \<open>
  The verdict on a namespace with any number of arenas: the loop of the source never advances
  \<open>arenap\<close>, so it is that of the first one.
\<close>

lemma btt_check_loop_first:
  "check_arena (arenas b ! 0) b = (r, b) \<Longrightarrow> r \<noteq> Ok True \<Longrightarrow> 0 < n \<Longrightarrow>
   snd (btt_check_loop n c b) = b \<and> fst (btt_check_loop n c b) \<noteq> Ok True"
proof (induction n arbitrary: c)
  case (Suc n)
  have "fst (btt_check_loop k False b) \<noteq> Ok True \<and> snd (btt_check_loop k False b) = b" for k
    using Suc.prems(1) by (induction k) (cases r; simp add: andthen_def)+
  then show ?case using Suc.prems by (cases r) (auto simp: andthen_def)
qed simp

lemma btt_check_loop_ok:
  "check_arena (arenas b ! 0) b = (Ok True, b) \<Longrightarrow> btt_check_loop n True b = (Ok True, b)"
  by (induction n) (simp_all add: andthen_def)

lemma btt_check_iff:
  assumes "ns_cbp b = cb" and "laidout b" and "0 < narena b"
    and "arena_geom (unat (nfree b)) lb (nsize (ns b)) (arenas b ! 0)"
    and "length (flogs (arenas b ! 0)) = unat (nfree b)"
  shows "fst (btt_check b) = Ok True \<longleftrightarrow> blocks_ok (unat (nfree b)) (bytes (ns b)) (arenas b ! 0)"
    and "snd (btt_check b) = b"
proof -
  obtain r where r: "check_arena (arenas b ! 0) b = (r, b)"
    using check_arena_iff(2) [OF assms(1,4,5)] by (metis prod.collapse)
  have run: "btt_check b = btt_check_loop (narena b) True b"
    using assms(2) by (simp add: btt_check_def andthen_def gets_def)
  have "(fst (btt_check b) = Ok True \<longleftrightarrow> r = Ok True) \<and> snd (btt_check b) = b"
    unfolding run using btt_check_loop_first [OF r _ assms(3)] btt_check_loop_ok [of b] r by (cases "r = Ok True") auto
  then show "fst (btt_check b) = Ok True \<longleftrightarrow> blocks_ok (unat (nfree b)) (bytes (ns b)) (arenas b ! 0)" "snd (btt_check b) = b"
    using check_arena_iff(1) [OF assms(1,4,5)] r by simp_all
qed

end

end
