(* ===== verification/Blk.thy ===== *)
theory Blk
  imports Btt_Crash Btt_Format Btt_Check
begin

text \<open>
  The block pool library, \<open>src/libpmemblk/blk.c\<close>: the namespace callbacks over the mapped
  pool, lanes, the operations of the public interface, and creating, opening and checking a pool.
  The mapped pool is split where \<open>pbp->data\<close> points: the data area, with the run-time fields
  that the callbacks use, is the namespace \<open>blk_ns\<close> of the BTT handle, and the pages below it
  with the header, the block size and the run-time fields that opening stores there stay in
  \<open>blk_hdrs\<close>.  The one run-time field that changes afterwards, \<open>next_lane\<close>, is a field of the
  handle; \<open>pool_image\<close> puts it where the mapping has it.  The system's answers (the address of the
  mapping, of the BTT handle and of the lane locks, whether the range is persistent memory, the
  number of processors, the generated UUID, the time) are the record \<open>blk_env\<close>; memory allocation
  and lane locks succeed.

  The invariant \<open>pmemblk_inv\<close>, and with it every property that has it or \<open>btt_inv\<close> as a
  hypothesis, is about pools of one arena whose data blocks take at most 4 GiB (\<open>arena_geom\<close>):
  beyond 4 GiB the 32-bit product that \<open>btt.c\<close> computes for the offset of a block lets blocks alias.
\<close>

section \<open>The mapped pool as a namespace\<close>

record blk_ns =
  blk_area :: mem
  blk_datasize :: u64
  blk_is_pmem :: bool

definition blk_nsread :: "blk_ns \<Rightarrow> nat \<Rightarrow> u64 \<Rightarrow> u64 \<Rightarrow> errno + byte list" where
  "blk_nsread s lane count off =
     (if blk_datasize s < off + count then Inl EINVAL
      else Inr (mem_read (blk_area s) (unat off) (unat count)))"

definition blk_nswrite :: "blk_ns \<Rightarrow> nat \<Rightarrow> byte list \<Rightarrow> u64 \<Rightarrow> errno option \<times> blk_ns" where
  "blk_nswrite s lane buf off =
     (if blk_datasize s < off + of_nat (length buf) then (Some EINVAL, s)
      else (None, s\<lparr>blk_area := mem_write (blk_area s) (unat off) buf\<rparr>))"

definition blk_nsmap :: "blk_ns \<Rightarrow> nat \<Rightarrow> u64 \<Rightarrow> u64 \<Rightarrow> errno + byte list" where
  "blk_nsmap s lane len off =
     (if blk_datasize s \<le> off + len then Inl EINVAL
      else Inr (mem_read (blk_area s) (unat off) (unat len)))"

definition blk_nszero :: "blk_ns \<Rightarrow> nat \<Rightarrow> u64 \<Rightarrow> u64 \<Rightarrow> errno option \<times> blk_ns" where
  "blk_nszero s lane count off =
     (if blk_datasize s < off + count then (Some EINVAL, s)
      else (None, s\<lparr>blk_area := mem_write (blk_area s) (unat off) (replicate (unat count) 0)\<rparr>))"

definition ns_cb :: "bool \<Rightarrow> blk_ns ns_callback" where
  "ns_cb zeroed = \<lparr>nsread = blk_nsread, nswrite = blk_nswrite, nszero = blk_nszero, nsmap = blk_nsmap,
     ns_is_zeroed = zeroed\<rparr>"

section \<open>Pools\<close>

record pmemblk =
  blk_hdrs :: mem
  blk_rdonly :: bool
  bttp :: "blk_ns btt"
  blk_nlane :: nat
  next_lane :: u32

definition lane_enter :: "(pmemblk, nat) prog" where
  "lane_enter p = (Ok (unat (next_lane p) mod blk_nlane p), p\<lparr>next_lane := next_lane p + 1\<rparr>)"

text \<open>Running a step on the BTT handle of the pool.\<close>

definition on_bttp :: "(blk_ns btt, 'a) prog \<Rightarrow> (pmemblk, 'a) prog" where
  "on_bttp f p = (case f (bttp p) of (r, b) \<Rightarrow> (r, p\<lparr>bttp := b\<rparr>))"

definition pmemblk_nblock :: "pmemblk \<Rightarrow> u64" where
  "pmemblk_nblock p = btt_nlba (bttp p)"

definition pmemblk_read :: "u64 \<Rightarrow> (pmemblk, byte list) prog" where
  "pmemblk_read blockno = andthen lane_enter (\<lambda>lane. on_bttp (btt_read lane blockno))"

definition pmemblk_write :: "byte list \<Rightarrow> u64 \<Rightarrow> (pmemblk, unit) prog" where
  "pmemblk_write buf blockno =
     andthen (gets blk_rdonly) (\<lambda>ro.
     if ro then fail EROFS
     else andthen lane_enter (\<lambda>lane. on_bttp (btt_write lane blockno buf)))"

definition pmemblk_set_zero :: "u64 \<Rightarrow> (pmemblk, unit) prog" where
  "pmemblk_set_zero blockno =
     andthen (gets blk_rdonly) (\<lambda>ro.
     if ro then fail EROFS
     else andthen lane_enter (\<lambda>lane. on_bttp (btt_set_zero lane blockno)))"

definition pmemblk_set_error :: "u64 \<Rightarrow> (pmemblk, unit) prog" where
  "pmemblk_set_error blockno =
     andthen (gets blk_rdonly) (\<lambda>ro.
     if ro then fail EROFS
     else andthen lane_enter (\<lambda>lane. on_bttp (btt_set_error lane blockno)))"

section \<open>Mapping a pool\<close>

definition BLK_HDR_SIG :: "byte list" where "BLK_HDR_SIG = c_str ''PMEMBLK'' @ [0]"
definition BLK_FORMAT_MAJOR :: u32 where "BLK_FORMAT_MAJOR = 1"
definition BLK_FORMAT_COMPAT :: u32 where "BLK_FORMAT_COMPAT = 0"
definition BLK_FORMAT_INCOMPAT :: u32 where "BLK_FORMAT_INCOMPAT = 0"
definition BLK_FORMAT_RO_COMPAT :: u32 where "BLK_FORMAT_RO_COMPAT = 0"
definition BLK_FORMAT_DATA_ALIGN :: u64 where "BLK_FORMAT_DATA_ALIGN = 4096"
definition PMEMBLK_MIN_POOL :: nat where "PMEMBLK_MIN_POOL = 2 ^ 20 * 16 + 2 ^ 10 * 8"

text \<open>
  Offsets in \<open>struct pmemblk\<close>: the header page, the block size, the zeroed flag, and the
  size of the structure on x86-64 without \<open>DEBUG\<close>.
\<close>

definition BLK_BSIZE_OFF :: nat where "BLK_BSIZE_OFF = 4096"
definition BLK_ZEROED_OFF :: nat where "BLK_ZEROED_OFF = 4100"
definition SIZEOF_PMEMBLK :: u64 where "SIZEOF_PMEMBLK = 4176"

record blk_env =
  env_is_pmem :: bool
  env_ncpus :: int
  env_uuid :: "byte list"
  env_time :: u64
  env_addr :: u64
  env_bttp :: u64
  env_locks :: u64

text \<open>The metadata of an existing pool: its block size and whether it may only be read.\<close>

definition blk_check_hdr :: "mem \<Rightarrow> u64 \<Rightarrow> bool \<Rightarrow> errno + (u64 \<times> bool)" where
  "blk_check_hdr m bsize rdonly =
     (case util_convert_hdr (mem_read m 0 POOL_HDR_SIZE) of
        None \<Rightarrow> Inl EINVAL
      | Some hdr \<Rightarrow>
          if \<not> strncmp_eq (hdr_signature hdr) BLK_HDR_SIG POOL_HDR_SIG_LEN then Inl EINVAL
          else if hdr_major hdr \<noteq> BLK_FORMAT_MAJOR then Inl EINVAL
          else
            let hdr_bsize = ucast (le_dec (mem_read m BLK_BSIZE_OFF 4) :: u32) in
            if bsize \<noteq> 0 \<and> bsize \<noteq> hdr_bsize then Inl EINVAL
            else
              case util_feature_check hdr BLK_FORMAT_INCOMPAT BLK_FORMAT_RO_COMPAT BLK_FORMAT_COMPAT of
                Inl e \<Rightarrow> Inl e
              | Inr rw \<Rightarrow> Inr (hdr_bsize, rdonly \<or> \<not> rw))"

text \<open>The metadata of a new pool: block size and flag first, then the header.\<close>

definition blk_create_hdr :: "blk_env \<Rightarrow> mem \<Rightarrow> u64 \<Rightarrow> bool \<Rightarrow> errno + mem" where
  "blk_create_hdr env m bsize zeroed =
     (if \<not> util_is_zeroed (mem_read m 0 POOL_HDR_SIZE) then Inl EINVAL
      else if bsize = 0 then Inl EINVAL
      else
        let m1 = mem_write m BLK_BSIZE_OFF (le_enc 4 (ucast bsize :: u32));
            m2 = mem_write m1 BLK_ZEROED_OFF [if zeroed then 1 else 0] in
        Inr (mem_write m2 0 (new_pool_hdr BLK_HDR_SIG BLK_FORMAT_MAJOR BLK_FORMAT_COMPAT
               BLK_FORMAT_INCOMPAT BLK_FORMAT_RO_COMPAT (env_uuid env) (env_time env))))"

text \<open>The contents of the mapping: the pages below the data area and the data area.\<close>

definition BLK_DATA_OFF :: u64 where "BLK_DATA_OFF = roundup SIZEOF_PMEMBLK BLK_FORMAT_DATA_ALIGN"

definition join_pool :: "mem \<Rightarrow> mem \<Rightarrow> mem" where
  "join_pool hdrs area = (\<lambda>i. if i < unat BLK_DATA_OFF then hdrs i else area (i - unat BLK_DATA_OFF))"

definition data_area :: "mem \<Rightarrow> mem" where
  "data_area m = (\<lambda>i. m (unat BLK_DATA_OFF + i))"

text \<open>
  The run-time fields of \<open>struct pmemblk\<close>, behind the zeroed flag, in the order of the structure.
  They lie in the mapping, so a pool opened for writing has them in its file.  Nothing stores
  \<open>nlba\<close>, the eight bytes at 4144.
\<close>

definition BLK_ADDR_OFF :: nat where "BLK_ADDR_OFF = 4104"
definition BLK_SIZE_OFF :: nat where "BLK_SIZE_OFF = 4112"
definition BLK_IS_PMEM_OFF :: nat where "BLK_IS_PMEM_OFF = 4120"
definition BLK_RDONLY_OFF :: nat where "BLK_RDONLY_OFF = 4124"
definition BLK_DATAP_OFF :: nat where "BLK_DATAP_OFF = 4128"
definition BLK_DATASIZE_OFF :: nat where "BLK_DATASIZE_OFF = 4136"
definition BLK_BTTP_OFF :: nat where "BLK_BTTP_OFF = 4152"
definition BLK_NLANE_OFF :: nat where "BLK_NLANE_OFF = 4160"
definition BLK_NEXT_LANE_OFF :: nat where "BLK_NEXT_LANE_OFF = 4164"
definition BLK_LOCKS_OFF :: nat where "BLK_LOCKS_OFF = 4168"

fun put_fields :: "(nat \<times> byte list) list \<Rightarrow> mem \<Rightarrow> mem" where
  "put_fields [] m = m"
| "put_fields ((off, bs) # fs) m = put_fields fs (mem_write m off bs)"

text \<open>What is stored before \<open>btt_init\<close>, and what after it has succeeded.\<close>

definition blk_store_region :: "blk_env \<Rightarrow> u64 \<Rightarrow> bool \<Rightarrow> mem \<Rightarrow> mem" where
  "blk_store_region env poolsize rdonly = put_fields
     [(BLK_ADDR_OFF, le_enc 8 (env_addr env)),
      (BLK_SIZE_OFF, le_enc 8 poolsize),
      (BLK_RDONLY_OFF, le_enc 4 (of_bool rdonly :: u32)),
      (BLK_IS_PMEM_OFF, le_enc 4 (of_bool (env_is_pmem env) :: u32)),
      (BLK_DATAP_OFF, le_enc 8 (env_addr env + BLK_DATA_OFF)),
      (BLK_DATASIZE_OFF, le_enc 8 ((env_addr env + poolsize) - (env_addr env + BLK_DATA_OFF)))]"

definition blk_store_handle :: "blk_env \<Rightarrow> nat \<Rightarrow> mem \<Rightarrow> mem" where
  "blk_store_handle env lanes = put_fields
     [(BLK_BTTP_OFF, le_enc 8 (env_bttp env)),
      (BLK_NLANE_OFF, le_enc 4 (of_nat lanes :: u32)),
      (BLK_NEXT_LANE_OFF, le_enc 4 (0 :: u32)),
      (BLK_LOCKS_OFF, le_enc 8 (env_locks env))]"

text \<open>
  Everything after the metadata is in place; the result is the pool and the contents of the
  mapping.  The source never clears a run-time field it has stored, not on the error path either.
\<close>

definition blk_runtime :: "blk_env \<Rightarrow> mem \<Rightarrow> u64 \<Rightarrow> u64 \<Rightarrow> bool \<Rightarrow> pmemblk outcome \<times> mem" where
  "blk_runtime env m poolsize bsize rdonly =
     (let m1 = blk_store_region env poolsize rdonly m;
          s = \<lparr>blk_area = data_area m1, blk_datasize = poolsize - BLK_DATA_OFF, blk_is_pmem = env_is_pmem env\<rparr>;
          ncpus = (if env_ncpus env < 1 then 1 else nat (env_ncpus env));
          uuid = take 16 (drop 24 (mem_read m1 0 POOL_HDR_SIZE)) in
      case btt_init (blk_datasize s) (ucast bsize) uuid (ncpus * 2) s (ns_cb (m1 BLK_ZEROED_OFF \<noteq> 0)) of
        (Ok b, s') \<Rightarrow>
          (let m2 = blk_store_handle env (btt_nlane b) m1 in
           (Ok \<lparr>blk_hdrs = m2, blk_rdonly = rdonly, bttp = b, blk_nlane = btt_nlane b, next_lane = 0\<rparr>,
            join_pool m2 (blk_area s')))
      | (Err e, s') \<Rightarrow> (Err e, join_pool m1 (blk_area s'))
      | (Stuck, s') \<Rightarrow> (Stuck, join_pool m1 (blk_area s')))"

definition pmemblk_map_common ::
    "blk_env \<Rightarrow> mem \<Rightarrow> u64 \<Rightarrow> u64 \<Rightarrow> bool \<Rightarrow> bool \<Rightarrow> bool \<Rightarrow> pmemblk outcome \<times> mem" where
  "pmemblk_map_common env m poolsize bsize rdonly initialize zeroed =
     (if \<not> initialize then
        case blk_check_hdr m bsize rdonly of
          Inl e \<Rightarrow> (Err e, m)
        | Inr (bsize', rdonly') \<Rightarrow> blk_runtime env m poolsize bsize' rdonly'
      else if rdonly then (Stuck, m)
      else
        case blk_create_hdr env m bsize zeroed of
          Inl e \<Rightarrow> (Err e, m)
        | Inr m' \<Rightarrow> blk_runtime env m' poolsize bsize rdonly)"

text \<open>
  The mapping of a pool opened for writing is shared with its file; a read-only pool is mapped
  copy-on-write, so its file keeps its contents.  \<open>mmap\<close> may refuse with an error.
\<close>

definition blk_map_file :: "(nat \<Rightarrow> errno option) \<Rightarrow> blk_env \<Rightarrow> fs \<Rightarrow> string \<Rightarrow> nat \<Rightarrow> u64 \<Rightarrow> bool \<Rightarrow> bool \<Rightarrow> bool \<Rightarrow>
    pmemblk outcome \<times> fs" where
  "blk_map_file mmap env fs path poolsize bsize rdonly initialize zeroed =
     (case (mmap poolsize, fs path) of
        (None, Some f) \<Rightarrow>
          (case pmemblk_map_common env (file_data f) (of_nat poolsize) bsize rdonly initialize zeroed of
             (r, m) \<Rightarrow> (r, if rdonly then fs else fs(path \<mapsto> f\<lparr>file_data := m\<rparr>)))
      | (Some e, _) \<Rightarrow> (Err e, fs)
      | (None, None) \<Rightarrow> (Stuck, fs))"

definition pmemblk_create :: "(nat \<Rightarrow> errno option) \<Rightarrow> (nat \<Rightarrow> errno option) \<Rightarrow> blk_env \<Rightarrow> fs \<Rightarrow> string \<Rightarrow> u64 \<Rightarrow> nat \<Rightarrow>
    pmemblk outcome \<times> fs" where
  "pmemblk_create falloc mmap env fs path bsize poolsize =
     (if poolsize \<noteq> 0 then
        case util_pool_create falloc fs path poolsize PMEMBLK_MIN_POOL of
          (Inl e, fs') \<Rightarrow> (Err e, fs')
        | (Inr fd, fs') \<Rightarrow> blk_map_file mmap env fs' fd poolsize bsize False True True
      else
        case util_pool_open fs path PMEMBLK_MIN_POOL of
          Inl e \<Rightarrow> (Err e, fs)
        | Inr (fd, size') \<Rightarrow> blk_map_file mmap env fs fd size' bsize False True False)"

definition pmemblk_open :: "(nat \<Rightarrow> errno option) \<Rightarrow> blk_env \<Rightarrow> fs \<Rightarrow> string \<Rightarrow> u64 \<Rightarrow> pmemblk outcome \<times> fs" where
  "pmemblk_open mmap env fs path bsize =
     (case util_pool_open fs path PMEMBLK_MIN_POOL of
        Inl e \<Rightarrow> (Err e, fs)
      | Inr (fd, size') \<Rightarrow> blk_map_file mmap env fs fd size' bsize False False False)"

definition pmemblk_check :: "(nat \<Rightarrow> errno option) \<Rightarrow> blk_env \<Rightarrow> fs \<Rightarrow> string \<Rightarrow> bool outcome \<times> fs" where
  "pmemblk_check mmap env fs path =
     (case util_pool_open fs path PMEMBLK_MIN_POOL of
        Inl e \<Rightarrow> (Err e, fs)
      | Inr (fd, size') \<Rightarrow>
          (case blk_map_file mmap env fs fd size' 0 True False False of
             (Ok p, fs') \<Rightarrow> (fst (btt_check (bttp p)), fs')
           | (Err e, fs') \<Rightarrow> (Err e, fs')
           | (Stuck, fs') \<Rightarrow> (Stuck, fs')))"

section \<open>The callbacks provide the namespace interface\<close>

definition blk_bytes :: "blk_ns \<Rightarrow> mem" where
  "blk_bytes s = blk_area s"

definition blk_nsize :: "blk_ns \<Rightarrow> nat" where
  "blk_nsize s = unat (blk_datasize s)"

text \<open>The range checks of the source are in 64-bit arithmetic.\<close>

lemma range_no_wrap:
  fixes off count limit :: u64
  assumes "unat off + unat count \<le> unat limit"
  shows "\<not> limit < off + count" and "unat off + unat count < unat limit \<Longrightarrow> \<not> limit \<le> off + count"
  using assms unat_bound [of limit] by (simp_all add: word_less_nat_alt word_le_nat_alt unat_word_ariths)

lemma unat_of_length: "unat off + length buf \<le> unat (limit :: u64) \<Longrightarrow> unat (of_nat (length buf) :: u64) = length buf"
  using unat_bound [of limit] by (simp add: unat_of_nat)

interpretation blk: ns_reliable "ns_cb z" blk_bytes blk_nsize for z
proof
  fix off count :: u64 and s :: blk_ns and lane :: nat and buf :: "byte list"
  show "nsread (ns_cb z) s lane count off = Inr (mem_read (blk_bytes s) (unat off) (unat count))"
    if "unat off + unat count \<le> blk_nsize s"
    using that range_no_wrap(1) [of off count "blk_datasize s"]
    by (simp add: ns_cb_def blk_nsread_def blk_bytes_def blk_nsize_def)
  show "\<exists>s'. nszero (ns_cb z) s lane count off = (None, s') \<and> blk_nsize s' = blk_nsize s \<and>
      blk_bytes s' = mem_write (blk_bytes s) (unat off) (replicate (unat count) 0)"
    if "unat off + unat count \<le> blk_nsize s"
    using that range_no_wrap(1) [of off count "blk_datasize s"]
    by (simp add: ns_cb_def blk_nszero_def blk_bytes_def blk_nsize_def)
  show "(\<exists>s'. nswrite (ns_cb z) s lane buf off = (None, s') \<and> \<not> False \<and> blk_nsize s' = blk_nsize s \<and>
        blk_bytes s' = mem_write (blk_bytes s) (unat off) buf) \<or>
      (\<exists>e s'. nswrite (ns_cb z) s lane buf off = (Some e, s') \<and> False \<and> blk_nsize s' = blk_nsize s \<and>
        torn_write (blk_bytes s) (unat off) buf (blk_bytes s'))"
    if "unat off + length buf \<le> blk_nsize s"
    using that range_no_wrap(1) [of off "of_nat (length buf)" "blk_datasize s"]
      unat_of_length [of off buf "blk_datasize s"]
    by (simp add: ns_cb_def blk_nswrite_def blk_bytes_def blk_nsize_def)
  show "blk_nsize s < 2 ^ 64" using unat_bound [of "blk_datasize s"] by (simp add: blk_nsize_def)
qed simp

interpretation blk_map: ns_mapped "ns_cb z" blk_bytes blk_nsize for z
proof
  fix off len :: u64 and s :: blk_ns and lane :: nat
  show "nsmap (ns_cb z) s lane len off = Inr (mem_read (blk_bytes s) (unat off) (unat len))"
    if "unat off + unat len < blk_nsize s"
    using that range_no_wrap(2) [of off len "blk_datasize s"]
    by (simp add: ns_cb_def blk_nsmap_def blk_bytes_def blk_nsize_def)
qed

section \<open>Invariant and view of a pool\<close>

definition pmemblk_inv :: "pmemblk \<Rightarrow> bool" where
  "pmemblk_inv p \<longleftrightarrow> btt_ok (ns_cbp (bttp p)) blk_bytes blk_nsize (bttp p) \<and>
     (\<exists>z. ns_cbp (bttp p) = ns_cb z) \<and> blk_nlane p = nlane (bttp p) \<and> 0 < blk_nlane p"

definition pmemblk_view :: "pmemblk \<Rightarrow> nat \<Rightarrow> errno + byte list" where
  "pmemblk_view p = btt_view blk_bytes (bttp p)"

text \<open>The abstract block device: what each block holds, and how an operation changes it.\<close>

datatype blk_op = Read u64 | Write u64 "byte list" | Set_Zero u64 | Set_Error u64

fun blk_spec :: "nat \<Rightarrow> nat \<Rightarrow> bool \<Rightarrow> blk_op \<Rightarrow> (nat \<Rightarrow> errno + byte list) \<Rightarrow>
    byte list outcome \<times> (nat \<Rightarrow> errno + byte list)" where
  "blk_spec n bs ro (Read i) v = (view_outcome (v (unat i)), v)"
| "blk_spec n bs ro (Write i buf) v =
     (if ro then (Err EROFS, v) else if n \<le> unat i then (Err EINVAL, v) else (Ok [], v(unat i := Inr buf)))"
| "blk_spec n bs ro (Set_Zero i) v =
     (if ro then (Err EROFS, v) else if n \<le> unat i then (Err EINVAL, v) else (Ok [], v(unat i := Inr (replicate bs 0))))"
| "blk_spec n bs ro (Set_Error i) v =
     (if ro then (Err EROFS, v) else if n \<le> unat i then (Err EINVAL, v) else (Ok [], v(unat i := Inl EIO)))"

fun blk_step :: "blk_op \<Rightarrow> (pmemblk, byte list) prog" where
  "blk_step (Read i) p = pmemblk_read i p"
| "blk_step (Write i buf) p = andthen (pmemblk_write buf i) (\<lambda>_. ret []) p"
| "blk_step (Set_Zero i) p = andthen (pmemblk_set_zero i) (\<lambda>_. ret []) p"
| "blk_step (Set_Error i) p = andthen (pmemblk_set_error i) (\<lambda>_. ret []) p"

fun blk_run :: "blk_op list \<Rightarrow> pmemblk \<Rightarrow> byte list outcome list \<times> pmemblk" where
  "blk_run [] p = ([], p)"
| "blk_run (op # ops) p = (case blk_step op p of (r, p') \<Rightarrow> case blk_run ops p' of (rs, p'') \<Rightarrow> (r # rs, p''))"

fun blk_spec_run :: "nat \<Rightarrow> nat \<Rightarrow> bool \<Rightarrow> blk_op list \<Rightarrow> (nat \<Rightarrow> errno + byte list) \<Rightarrow>
    byte list outcome list \<times> (nat \<Rightarrow> errno + byte list)" where
  "blk_spec_run n bs ro [] v = ([], v)"
| "blk_spec_run n bs ro (op # ops) v =
     (case blk_spec n bs ro op v of (r, v') \<Rightarrow> case blk_spec_run n bs ro ops v' of (rs, v'') \<Rightarrow> (r # rs, v''))"

text \<open>A buffer has the size of a block.\<close>

fun op_buf_ok :: "nat \<Rightarrow> blk_op \<Rightarrow> bool" where
  "op_buf_ok bs (Write i buf) = (length buf = bs)"
| "op_buf_ok bs _ = True"

definition blk_bsize :: "pmemblk \<Rightarrow> nat" where
  "blk_bsize p = unat (lbasize (bttp p))"

lemma pmemblk_inv_lane: "pmemblk_inv p \<Longrightarrow> x mod blk_nlane p < nlane (bttp p)"
  by (simp add: pmemblk_inv_def)

text \<open>The frame that every operation keeps.\<close>

definition blk_frame :: "pmemblk \<Rightarrow> pmemblk \<Rightarrow> bool" where
  "blk_frame p p' \<longleftrightarrow> pmemblk_inv p' \<and> blk_bsize p' = blk_bsize p \<and> pmemblk_nblock p' = pmemblk_nblock p \<and>
     blk_rdonly p' = blk_rdonly p \<and> blk_hdrs p' = blk_hdrs p \<and> parent_uuid (bttp p') = parent_uuid (bttp p) \<and>
     rawsize (bttp p') = rawsize (bttp p) \<and> lbasize (bttp p') = lbasize (bttp p) \<and> ns_cbp (bttp p') = ns_cbp (bttp p) \<and>
     blk_datasize (ns (bttp p')) = blk_datasize (ns (bttp p))"

lemma next_lane_frame:
  assumes "pmemblk_inv p"
  shows "blk_frame p (p\<lparr>next_lane := k\<rparr>)" and "pmemblk_view (p\<lparr>next_lane := k\<rparr>) = pmemblk_view p"
  using assms by (simp_all add: blk_frame_def pmemblk_inv_def pmemblk_view_def blk_bsize_def pmemblk_nblock_def)

text \<open>Reading a block moves the lane counter and changes nothing else.\<close>

lemma pmemblk_read_view:
  assumes inv: "pmemblk_inv p"
  shows "pmemblk_read i p = (view_outcome (pmemblk_view p (unat i)), p\<lparr>next_lane := next_lane p + 1\<rparr>)"
proof -
  obtain z where "btt_ok (ns_cb z) blk_bytes blk_nsize (bttp p)" using inv by (auto simp: pmemblk_inv_def)
  from blk.ok_read [OF this pmemblk_inv_lane [OF inv], of "unat (next_lane p)" i] show ?thesis
    by (simp add: pmemblk_read_def lane_enter_def on_bttp_def andthen_def pmemblk_view_def)
qed

lemma pmemblk_inv_step:
  assumes inv: "pmemblk_inv p" and dev: "same_dev blk_nsize (bttp p) b'"
    and ok: "btt_ok (ns_cbp (bttp p)) blk_bytes blk_nsize b'"
  shows "blk_frame p (p\<lparr>next_lane := k, bttp := b'\<rparr>)"
proof -
  have "ns_cbp b' = ns_cbp (bttp p)"
    using ok by (auto simp: btt_ok_def btt_pristine_def Let_def dest: btt_invD(1))
  then show ?thesis
    using inv dev ok
    by (simp add: pmemblk_inv_def same_dev_def blk_frame_def blk_bsize_def pmemblk_nblock_def btt_nlba_def blk_nsize_def word_unat_eq_iff)
qed

text \<open>The operations that change a block have the same shape: the lock of a lane around a BTT call.\<close>

lemma mutator_refines:
  assumes inv: "pmemblk_inv p"
    and bad: "\<And>lane. nlba (bttp p) \<le> i \<Longrightarrow> f lane (bttp p) = (Err EINVAL, bttp p)"
    and good: "\<And>lane. lane < nlane (bttp p) \<Longrightarrow> i < nlba (bttp p) \<Longrightarrow>
      \<exists>b'. f lane (bttp p) = (Ok (), b') \<and> same_dev blk_nsize (bttp p) b' \<and>
        btt_ok (ns_cbp (bttp p)) blk_bytes blk_nsize b' \<and> btt_view blk_bytes b' = (btt_view blk_bytes (bttp p))(unat i := c)"
  shows "\<exists>p'. andthen (andthen (gets blk_rdonly) (\<lambda>ro. if ro then fail EROFS
        else andthen lane_enter (\<lambda>lane. on_bttp (f lane)))) (\<lambda>_. ret []) p =
      (if blk_rdonly p then Err EROFS else if unat (pmemblk_nblock p) \<le> unat i then Err EINVAL else Ok [], p') \<and>
    pmemblk_view p' = (if blk_rdonly p \<or> unat (pmemblk_nblock p) \<le> unat i then pmemblk_view p
      else (pmemblk_view p)(unat i := c)) \<and> blk_frame p p'"
proof -
  let ?lane = "unat (next_lane p) mod blk_nlane p" and ?k = "next_lane p + 1"
  note defs = lane_enter_def on_bttp_def andthen_def gets_def fail_def ret_def
  consider (ro) "blk_rdonly p" | (bad) "\<not> blk_rdonly p" "nlba (bttp p) \<le> i" | (good) "\<not> blk_rdonly p" "i < nlba (bttp p)"
    by (meson not_le)
  then show ?thesis
  proof cases
    case ro
    then show ?thesis using inv by (intro exI [of _ p]) (simp add: defs blk_frame_def)
  next
    case bad
    then show ?thesis
      using assms(2) [OF bad(2), of ?lane] next_lane_frame [OF inv, of ?k]
      by (intro exI [of _ "p\<lparr>next_lane := ?k\<rparr>"]) (simp add: defs pmemblk_nblock_def btt_nlba_def word_le_nat_alt)
  next
    case good
    obtain b' where b': "f ?lane (bttp p) = (Ok (), b')" "same_dev blk_nsize (bttp p) b'"
      "btt_ok (ns_cbp (bttp p)) blk_bytes blk_nsize b'"
      "btt_view blk_bytes b' = (btt_view blk_bytes (bttp p))(unat i := c)"
      using assms(3) [OF pmemblk_inv_lane [OF inv] good(2)] by blast
    then show ?thesis
      using pmemblk_inv_step [OF inv b'(2,3), of ?k] good
      by (intro exI [of _ "p\<lparr>next_lane := ?k, bttp := b'\<rparr>"])
        (simp add: defs pmemblk_nblock_def btt_nlba_def word_less_nat_alt pmemblk_view_def not_le)
  qed
qed

lemma blk_step_refines:
  assumes inv: "pmemblk_inv p" and buf: "op_buf_ok (blk_bsize p) op"
  shows "\<exists>p'. blk_step op p =
      (fst (blk_spec (unat (pmemblk_nblock p)) (blk_bsize p) (blk_rdonly p) op (pmemblk_view p)), p') \<and>
    pmemblk_view p' = snd (blk_spec (unat (pmemblk_nblock p)) (blk_bsize p) (blk_rdonly p) op (pmemblk_view p)) \<and>
    blk_frame p p'"
proof -
  let ?b = "bttp p"
  obtain z where z: "ns_cbp ?b = ns_cb z" using inv by (auto simp: pmemblk_inv_def)
  have ok: "btt_ok (ns_cb z) blk_bytes blk_nsize ?b" using inv z by (simp add: pmemblk_inv_def)
  show ?thesis
  proof (cases op)
    case (Read i)
    then show ?thesis
      using pmemblk_read_view [OF inv, of i] next_lane_frame [OF inv, of "next_lane p + 1"]
      by (intro exI [of _ "p\<lparr>next_lane := next_lane p + 1\<rparr>"]) simp
  next
    case (Write i buf)
    then have len: "length buf = unat (lbasize ?b)" using buf by (simp add: blk_bsize_def)
    have good: "\<exists>b'. btt_write lane i buf ?b = (Ok (), b') \<and> same_dev blk_nsize ?b b' \<and>
        btt_ok (ns_cbp ?b) blk_bytes blk_nsize b' \<and> btt_view blk_bytes b' = (btt_view blk_bytes ?b)(unat i := Inr buf)"
      if "lane < nlane ?b" "i < nlba ?b" for lane
      using blk.ok_write [OF ok that len] unfolding z by metis
    have "\<exists>p'. blk_step op p = (if blk_rdonly p then Err EROFS else if unat (pmemblk_nblock p) \<le> unat i then Err EINVAL else Ok [], p') \<and>
      pmemblk_view p' = (if blk_rdonly p \<or> unat (pmemblk_nblock p) \<le> unat i then pmemblk_view p
        else (pmemblk_view p)(unat i := Inr buf)) \<and> blk_frame p p'"
      unfolding Write blk_step.simps pmemblk_write_def
      by (rule mutator_refines [OF inv]; (rule blk.btt_write_invalid good; assumption))
    then show ?thesis by (auto simp: Write)
  next
    case (Set_Zero i)
    have good: "\<exists>b'. map_entry_setf lane i BTT_MAP_ENTRY_ZERO ?b = (Ok (), b') \<and> same_dev blk_nsize ?b b' \<and>
        btt_ok (ns_cbp ?b) blk_bytes blk_nsize b' \<and> btt_view blk_bytes b' = (btt_view blk_bytes ?b)(unat i := Inr (replicate (blk_bsize p) 0))"
      if "lane < nlane ?b" "i < nlba ?b" for lane
      using blk.ok_setf [OF ok that, of BTT_MAP_ENTRY_ZERO] unfolding z by (auto simp: blk_bsize_def map_entry_consts)
    have "\<exists>p'. blk_step op p = (if blk_rdonly p then Err EROFS else if unat (pmemblk_nblock p) \<le> unat i then Err EINVAL else Ok [], p') \<and>
      pmemblk_view p' = (if blk_rdonly p \<or> unat (pmemblk_nblock p) \<le> unat i then pmemblk_view p
        else (pmemblk_view p)(unat i := Inr (replicate (blk_bsize p) 0))) \<and> blk_frame p p'"
      unfolding Set_Zero blk_step.simps pmemblk_set_zero_def btt_set_zero_def
      by (rule mutator_refines [OF inv]; (rule blk.setf_invalid good; assumption))
    then show ?thesis by (auto simp: Set_Zero)
  next
    case (Set_Error i)
    have good: "\<exists>b'. map_entry_setf lane i BTT_MAP_ENTRY_ERROR ?b = (Ok (), b') \<and> same_dev blk_nsize ?b b' \<and>
        btt_ok (ns_cbp ?b) blk_bytes blk_nsize b' \<and> btt_view blk_bytes b' = (btt_view blk_bytes ?b)(unat i := Inl EIO)"
      if "lane < nlane ?b" "i < nlba ?b" for lane
      using blk.ok_setf [OF ok that, of BTT_MAP_ENTRY_ERROR] unfolding z by (auto simp: blk_bsize_def map_entry_consts)
    have "\<exists>p'. blk_step op p = (if blk_rdonly p then Err EROFS else if unat (pmemblk_nblock p) \<le> unat i then Err EINVAL else Ok [], p') \<and>
      pmemblk_view p' = (if blk_rdonly p \<or> unat (pmemblk_nblock p) \<le> unat i then pmemblk_view p
        else (pmemblk_view p)(unat i := Inl EIO)) \<and> blk_frame p p'"
      unfolding Set_Error blk_step.simps pmemblk_set_error_def btt_set_error_def
      by (rule mutator_refines [OF inv]; (rule blk.setf_invalid good; assumption))
    then show ?thesis by (auto simp: Set_Error)
  qed
qed

lemma blk_frame_trans: "blk_frame p q \<Longrightarrow> blk_frame q r \<Longrightarrow> blk_frame p r"
  by (simp add: blk_frame_def)

lemma blk_run_refines:
  assumes "pmemblk_inv p" and "\<forall>op\<in>set ops. op_buf_ok (blk_bsize p) op"
  shows "\<exists>p'. blk_run ops p =
      (fst (blk_spec_run (unat (pmemblk_nblock p)) (blk_bsize p) (blk_rdonly p) ops (pmemblk_view p)), p') \<and>
    pmemblk_view p' = snd (blk_spec_run (unat (pmemblk_nblock p)) (blk_bsize p) (blk_rdonly p) ops (pmemblk_view p)) \<and>
    blk_frame p p'"
  using assms
proof (induction ops arbitrary: p)
  case Nil
  then show ?case by (simp add: blk_frame_def)
next
  case (Cons op ops)
  let ?n = "unat (pmemblk_nblock p)" and ?bs = "blk_bsize p" and ?ro = "blk_rdonly p"
  obtain p1 where p1: "blk_step op p = (fst (blk_spec ?n ?bs ?ro op (pmemblk_view p)), p1)"
    "pmemblk_view p1 = snd (blk_spec ?n ?bs ?ro op (pmemblk_view p))" "blk_frame p p1"
    using blk_step_refines [of p op] Cons.prems by auto
  then have same: "pmemblk_inv p1" "unat (pmemblk_nblock p1) = ?n" "blk_bsize p1 = ?bs" "blk_rdonly p1 = ?ro"
    by (simp_all add: blk_frame_def)
  then obtain p2 where "blk_run ops p1 = (fst (blk_spec_run ?n ?bs ?ro ops (pmemblk_view p1)), p2)"
    "pmemblk_view p2 = snd (blk_spec_run ?n ?bs ?ro ops (pmemblk_view p1))" "blk_frame p1 p2"
    using Cons.IH [of p1] Cons.prems(2) by auto
  then show ?case using p1 blk_frame_trans [OF p1(3)]
    by (auto simp: split_beta intro!: exI [of _ p2])
qed

section \<open>The image of a pool\<close>

text \<open>
  The contents of the mapping of an open pool: the pages below the data area, with the lane
  counter as it stands, and the data area.
\<close>

definition pool_image :: "pmemblk \<Rightarrow> mem" where
  "pool_image p =
     join_pool (mem_write (blk_hdrs p) BLK_NEXT_LANE_OFF (le_enc 4 (next_lane p))) (blk_area (ns (bttp p)))"

text \<open>Two images that agree outside the run-time fields of \<open>struct pmemblk\<close>.\<close>

definition same_but_runtime :: "mem \<Rightarrow> mem \<Rightarrow> bool" where
  "same_but_runtime m m' \<longleftrightarrow> (\<forall>i. i < BLK_ADDR_OFF \<or> unat SIZEOF_PMEMBLK \<le> i \<longrightarrow> m' i = m i)"

text \<open>A pool whose header pages describe its handle.\<close>

definition blk_pool_ok :: "pmemblk \<Rightarrow> bool" where
  "blk_pool_ok p \<longleftrightarrow> pmemblk_inv p \<and> \<not> blk_rdonly p \<and>
     blk_check_hdr (blk_hdrs p) 0 False = Inr (ucast (lbasize (bttp p)), False) \<and>
     take 16 (drop 24 (mem_read (blk_hdrs p) 0 POOL_HDR_SIZE)) = parent_uuid (bttp p) \<and>
     ns_cbp (bttp p) = ns_cb (blk_hdrs p BLK_ZEROED_OFF \<noteq> 0) \<and>
     rawsize (bttp p) = blk_datasize (ns (bttp p))"

lemma blk_pool_ok_frame: "blk_pool_ok p \<Longrightarrow> blk_frame p p' \<Longrightarrow> blk_pool_ok p'"
  by (simp add: blk_pool_ok_def blk_frame_def)

lemma BLK_DATA_OFF_val: "BLK_DATA_OFF = 8192"
  by (simp add: BLK_DATA_OFF_def SIZEOF_PMEMBLK_def BLK_FORMAT_DATA_ALIGN_def roundup_def)

lemma mem_read_join: "off + n \<le> 8192 \<Longrightarrow> mem_read (join_pool h a) off n = mem_read h off n"
  by (rule mem_read_cong) (simp add: join_pool_def BLK_DATA_OFF_val)

lemma data_area_join [simp]: "data_area (join_pool h a) = a"
  by (simp add: data_area_def join_pool_def BLK_DATA_OFF_val)

lemma join_data_area [simp]: "join_pool m (data_area m) = m"
  by (auto simp: join_pool_def data_area_def fun_eq_iff)

lemma blk_check_hdr_join: "blk_check_hdr (join_pool h a) bsize ro = blk_check_hdr h bsize ro"
proof -
  have "mem_read (join_pool h a) 0 4096 = mem_read h 0 4096" "mem_read (join_pool h a) 4096 4 = mem_read h 4096 4"
    by (simp_all add: mem_read_join)
  then show ?thesis unfolding blk_check_hdr_def POOL_HDR_SIZE_def BLK_BSIZE_OFF_def by (simp only:)
qed

text \<open>The run-time fields and what they leave alone.\<close>

lemmas runtime_offsets = BLK_ADDR_OFF_def BLK_SIZE_OFF_def BLK_IS_PMEM_OFF_def BLK_RDONLY_OFF_def BLK_DATAP_OFF_def
  BLK_DATASIZE_OFF_def BLK_BTTP_OFF_def BLK_NLANE_OFF_def BLK_NEXT_LANE_OFF_def BLK_LOCKS_OFF_def SIZEOF_PMEMBLK_def

lemma same_but_runtime_refl [simp]: "same_but_runtime m m"
  by (simp add: same_but_runtime_def)

lemma same_but_runtime_trans: "same_but_runtime m m' \<Longrightarrow> same_but_runtime m' m'' \<Longrightarrow> same_but_runtime m m''"
  by (simp add: same_but_runtime_def)

lemma same_but_runtime_sym: "same_but_runtime m m' \<Longrightarrow> same_but_runtime m' m"
  by (simp add: same_but_runtime_def)

lemma put_fields_runtime:
  "\<forall>(off, bs)\<in>set fs. BLK_ADDR_OFF \<le> off \<and> off + length bs \<le> unat SIZEOF_PMEMBLK \<Longrightarrow> same_but_runtime m (put_fields fs m)"
  by (induction fs m rule: put_fields.induct) (auto simp: same_but_runtime_def mem_write_outside)

lemma store_region_runtime: "same_but_runtime m (blk_store_region env poolsize ro m)"
  unfolding blk_store_region_def by (rule put_fields_runtime) (simp add: runtime_offsets)

lemma store_handle_runtime: "same_but_runtime m (blk_store_handle env n m)"
  unfolding blk_store_handle_def by (rule put_fields_runtime) (simp add: runtime_offsets)

lemma store_handle_next_lane:
  "mem_write (blk_store_handle env n m) BLK_NEXT_LANE_OFF (le_enc 4 (0 :: u32)) = blk_store_handle env n m" (is "mem_write ?m _ _ = _")
proof -
  have "mem_read ?m BLK_NEXT_LANE_OFF 4 = le_enc 4 (0 :: u32)"
    by (simp add: blk_store_handle_def runtime_offsets mem_read_write_disjoint)
  then show ?thesis by (metis mem_write_read_id)
qed

lemma same_runtime_read: "same_but_runtime m m' \<Longrightarrow> off + n \<le> 4104 \<Longrightarrow> mem_read m' off n = mem_read m off n"
  by (rule mem_read_cong) (simp add: same_but_runtime_def runtime_offsets)

lemma same_runtime_facts:
  assumes "same_but_runtime m m'"
  shows "m' BLK_ZEROED_OFF = m BLK_ZEROED_OFF" and "data_area m' = data_area m"
    and "blk_check_hdr m' bsize ro = blk_check_hdr m bsize ro"
proof -
  have "mem_read m' 0 4096 = mem_read m 0 4096" "mem_read m' 4096 4 = mem_read m 4096 4"
    using assms by (simp_all add: same_runtime_read)
  then show "blk_check_hdr m' bsize ro = blk_check_hdr m bsize ro"
    unfolding blk_check_hdr_def POOL_HDR_SIZE_def BLK_BSIZE_OFF_def by (simp only:)
qed (use assms in \<open>simp_all add: same_but_runtime_def runtime_offsets BLK_ZEROED_OFF_def data_area_def BLK_DATA_OFF_val fun_eq_iff\<close>)

lemma join_runtime: "same_but_runtime h h' \<Longrightarrow> same_but_runtime (join_pool h a) (join_pool h' a)"
  by (simp add: same_but_runtime_def join_pool_def)

lemma pool_image_runtime: "same_but_runtime (join_pool (blk_hdrs p) (blk_area (ns (bttp p)))) (pool_image p)"
  unfolding pool_image_def
  by (rule join_runtime) (auto simp: same_but_runtime_def runtime_offsets mem_write_outside)

lemma pool_image_lane: "same_but_runtime (pool_image p) (pool_image (p\<lparr>next_lane := k\<rparr>))"
proof -
  have same: "blk_hdrs (p\<lparr>next_lane := k\<rparr>) = blk_hdrs p" "bttp (p\<lparr>next_lane := k\<rparr>) = bttp p" by simp_all
  have "same_but_runtime (join_pool (blk_hdrs p) (blk_area (ns (bttp p)))) (pool_image (p\<lparr>next_lane := k\<rparr>))"
    using pool_image_runtime [of "p\<lparr>next_lane := k\<rparr>"] unfolding same .
  then show ?thesis by (rule same_but_runtime_trans [OF same_but_runtime_sym [OF pool_image_runtime]])
qed

lemma pool_image_facts:
  "mem_read (pool_image p) 0 4096 = mem_read (blk_hdrs p) 0 4096"
  "pool_image p BLK_ZEROED_OFF = blk_hdrs p BLK_ZEROED_OFF"
  "data_area (pool_image p) = blk_area (ns (bttp p))"
  "blk_check_hdr (pool_image p) bsize ro = blk_check_hdr (blk_hdrs p) bsize ro"
  using same_runtime_facts [OF pool_image_runtime [of p]] same_runtime_read [OF pool_image_runtime [of p], of 0 4096]
  by (simp_all add: mem_read_join blk_check_hdr_join)
    (simp add: join_pool_def BLK_DATA_OFF_val BLK_ZEROED_OFF_def)

lemma blk_check_hdr_bsize:
  assumes "blk_check_hdr m 0 ro = Inr (bs, r)" and "bsize = 0 \<or> bsize = bs"
  shows "blk_check_hdr m bsize ro = Inr (bs, r)"
  using assms by (auto simp: blk_check_hdr_def Let_def split: option.splits if_splits sum.splits)

lemma btt_ok_same:
  assumes "btt_ok cb bytes nsize b" and "nsize s' = nsize (ns b)" and "bytes s' = bytes (ns b)"
  shows "btt_ok cb bytes nsize (b\<lparr>ns := s'\<rparr>)" and "btt_view bytes (b\<lparr>ns := s'\<rparr>) = btt_view bytes b"
proof -
  have "read_info (b\<lparr>ns := s'\<rparr>) bs = read_info b bs" for bs by (rule read_info_cong) simp
  then have "btt_pristine cb bytes nsize b \<Longrightarrow> btt_pristine cb bytes nsize (b\<lparr>ns := s'\<rparr>)"
    using assms(2,3) by (simp add: btt_pristine_def)
  then show "btt_ok cb bytes nsize (b\<lparr>ns := s'\<rparr>)"
    using assms btt_inv_same(1) by (auto simp: btt_ok_def)
  show "btt_view bytes (b\<lparr>ns := s'\<rparr>) = btt_view bytes b" by (rule ext) (simp add: btt_view_def assms(3))
qed

lemma ucast_lbasize: "(ucast (ucast (x :: u32) :: u64) :: u32) = x"
  using unat_bound [of x] by (simp add: word_unat_eq_iff unat_ucast_mod unat_ucast_32_64)

text \<open>The handle that opening an image builds.\<close>

lemma blk_runtime_reopen:
  assumes ok: "blk_pool_ok p" and size: "poolsize - BLK_DATA_OFF = blk_datasize (ns (bttp p))"
  obtains p' where "blk_runtime env (pool_image p) poolsize (ucast (lbasize (bttp p))) False = (Ok p', pool_image p')"
    "blk_pool_ok p'" "pmemblk_view p' = pmemblk_view p" "pmemblk_nblock p' = pmemblk_nblock p" "blk_bsize p' = blk_bsize p"
    "blk_datasize (ns (bttp p')) = blk_datasize (ns (bttp p))" "same_but_runtime (pool_image p) (pool_image p')"
proof -
  have inv: "pmemblk_inv p" and hdr: "blk_check_hdr (blk_hdrs p) 0 False = Inr (ucast (lbasize (bttp p)), False)"
    and uuid: "take 16 (drop 24 (mem_read (blk_hdrs p) 0 POOL_HDR_SIZE)) = parent_uuid (bttp p)"
    and cbp: "ns_cbp (bttp p) = ns_cb (blk_hdrs p BLK_ZEROED_OFF \<noteq> 0)" and raw: "rawsize (bttp p) = blk_datasize (ns (bttp p))"
    using ok by (auto simp: blk_pool_ok_def)
  let ?s = "\<lparr>blk_area = blk_area (ns (bttp p)), blk_datasize = blk_datasize (ns (bttp p)), blk_is_pmem = env_is_pmem env\<rparr>"
  let ?z = "blk_hdrs p BLK_ZEROED_OFF \<noteq> 0" and ?b = "(bttp p)\<lparr>ns := ?s\<rparr>"
  let ?lanes = "(if env_ncpus env < 1 then 1 else nat (env_ncpus env)) * 2"
  let ?m1 = "blk_store_region env poolsize False (pool_image p)"
  have btt: "btt_ok (ns_cb ?z) blk_bytes blk_nsize (bttp p)" using inv cbp by (metis pmemblk_inv_def)
  have same: "btt_ok (ns_cb ?z) blk_bytes blk_nsize ?b" "btt_view blk_bytes ?b = btt_view blk_bytes (bttp p)"
    using btt_ok_same [OF btt, of ?s] by (simp_all add: blk_nsize_def blk_bytes_def)
  obtain b' where b': "btt_init (rawsize ?b) (lbasize ?b) (parent_uuid ?b) ?lanes (ns ?b) (ns_cb ?z) = (Ok b', ns ?b)"
    "btt_ok (ns_cb ?z) blk_bytes blk_nsize b'" "btt_view blk_bytes b' = btt_view blk_bytes ?b" "ns b' = ns ?b"
    "nlba b' = nlba ?b" "lbasize b' = lbasize ?b" "rawsize b' = rawsize ?b" "parent_uuid b' = parent_uuid ?b" "0 < nlane b'"
    using blk.ok_reopen [OF same(1), where maxlane = ?lanes] by metis
  let ?m2 = "blk_store_handle env (btt_nlane b') ?m1"
  let ?p' = "\<lparr>blk_hdrs = ?m2, blk_rdonly = False, bttp = b', blk_nlane = btt_nlane b', next_lane = 0\<rparr>"
  have img1: "mem_read ?m1 0 4096 = mem_read (blk_hdrs p) 0 4096" "?m1 BLK_ZEROED_OFF = blk_hdrs p BLK_ZEROED_OFF"
    "data_area ?m1 = blk_area (ns (bttp p))"
    using same_runtime_facts [OF store_region_runtime] same_runtime_read [OF store_region_runtime, of 0 4096]
    by (simp_all add: pool_image_facts)
  have same2: "same_but_runtime (pool_image p) ?m2"
    using same_but_runtime_trans [OF store_region_runtime store_handle_runtime] .
  have img2: "mem_read ?m2 0 4096 = mem_read (blk_hdrs p) 0 4096" "?m2 BLK_ZEROED_OFF = blk_hdrs p BLK_ZEROED_OFF"
    "data_area ?m2 = blk_area (ns (bttp p))" "\<And>bs ro. blk_check_hdr ?m2 bs ro = blk_check_hdr (blk_hdrs p) bs ro"
    using same_runtime_facts [OF same2] same_runtime_read [OF same2, of 0 4096] by (simp_all add: pool_image_facts)
  have join2: "join_pool ?m2 (blk_area (ns (bttp p))) = ?m2" using join_data_area [of ?m2] unfolding img2(3) .
  have "pool_image ?p' = join_pool ?m2 (blk_area (ns b'))"
    unfolding pool_image_def by (simp add: store_handle_next_lane)
  then have image: "pool_image ?p' = ?m2" using b'(4) join2 by simp
  have run: "blk_runtime env (pool_image p) poolsize (ucast (lbasize (bttp p))) False = (Ok ?p', ?m2)"
    using b'(1) raw uuid join2
    by (simp add: blk_runtime_def Let_def img1 size POOL_HDR_SIZE_def ucast_lbasize)
  have cb': "ns_cbp b' = ns_cb ?z"
    using b'(2) by (auto simp: btt_ok_def btt_pristine_def Let_def dest: btt_invD(1))
  have "pmemblk_inv ?p'" using b'(2,9) cb' by (auto simp: pmemblk_inv_def btt_nlane_def)
  then have "blk_pool_ok ?p'"
    using b'(4,6,7,8) cb' hdr uuid raw by (simp add: blk_pool_ok_def img2 POOL_HDR_SIZE_def)
  then show thesis
    using run b'(3-6) same(2) same2
    by (intro that [of ?p']) (simp_all add: image pmemblk_view_def pmemblk_nblock_def btt_nlba_def blk_bsize_def)
qed

text \<open>A new pool in a file of zeros.\<close>

lemma blk_sig_facts: "strncmp_eq (strncpy BLK_HDR_SIG 8) BLK_HDR_SIG 8"
  by (simp add: BLK_HDR_SIG_def c_str_def strncpy_def numeral_eq_Suc)

lemma read_info_zero: "read_info b (mem_read (\<lambda>_. 0) 0 4096) = None"
proof -
  have "info_sig (info_of_bytes (mem_read (\<lambda>_. 0) 0 4096)) ! 0 \<noteq> Sig ! 0"
    by (simp add: info_of_bytes_def Sig_def c_str_def)
  then show ?thesis by (auto simp: read_info_def Let_def)
qed

lemma map_raw_zero: "map_raw (\<lambda>_. 0) a i = 0"
  by (simp add: map_raw_def mem_read_def numeral_eq_Suc upt_rec)

lemma blk_create_done:
  assumes size: "fmt_size_ok (poolsize - BLK_DATA_OFF) (ucast bsize)"
    and bsize: "bsize \<noteq> 0" "unat bsize < 2 ^ 32" and uuid: "length (env_uuid env) = 16"
  obtains p where "pmemblk_map_common env (\<lambda>_. 0) poolsize bsize False True True = (Ok p, pool_image p)"
    "blk_pool_ok p" "blk_bsize p = unat bsize" "poolsize - BLK_DATA_OFF = blk_datasize (ns (bttp p))"
    "unat (pmemblk_nblock p) = fmt_nlba (unat (poolsize - BLK_DATA_OFF)) (unat (layout_internal_lbasize (ucast bsize))) - 256"
    "\<And>i. i < unat (pmemblk_nblock p) \<Longrightarrow> pmemblk_view p i = Inr (replicate (unat bsize) 0)"
proof -
  let ?page = "new_pool_hdr BLK_HDR_SIG BLK_FORMAT_MAJOR BLK_FORMAT_COMPAT BLK_FORMAT_INCOMPAT BLK_FORMAT_RO_COMPAT
    (env_uuid env) (env_time env)"
  let ?m = "mem_write (mem_write (mem_write (\<lambda>_. 0) 4096 (le_enc 4 (ucast bsize :: u32))) 4100 [1]) 0 ?page"
  note page = new_pool_hdr_valid [OF uuid, of BLK_FORMAT_MAJOR BLK_HDR_SIG BLK_FORMAT_COMPAT BLK_FORMAT_INCOMPAT
    BLK_FORMAT_RO_COMPAT "env_time env"]
  have len: "length ?page = 4096" using page(1) by (simp add: BLK_FORMAT_MAJOR_def)
  have create: "blk_create_hdr env (\<lambda>_. 0) bsize True = Inr ?m"
    using bsize(1) by (simp add: blk_create_hdr_def util_is_zeroed_iff BLK_BSIZE_OFF_def BLK_ZEROED_OFF_def mem_read_def Let_def)
  have hdr: "mem_read ?m 0 4096 = ?page" using len by simp
  have bs: "le_dec (mem_read ?m 4096 4) = (ucast bsize :: u32)" using len by (simp add: mem_read_write_disjoint)
  have zero: "?m BLK_ZEROED_OFF \<noteq> 0" using len by (simp add: BLK_ZEROED_OFF_def mem_write_def)
  have area: "data_area ?m = (\<lambda>_. 0)" using len by (auto simp: data_area_def mem_write_def BLK_DATA_OFF_val fun_eq_iff)
  let ?s = "\<lparr>blk_area = (\<lambda>_. 0), blk_datasize = poolsize - BLK_DATA_OFF, blk_is_pmem = env_is_pmem env\<rparr>"
  let ?lanes = "(if env_ncpus env < 1 then 1 else nat (env_ncpus env)) * 2"
  let ?lb = "ucast bsize :: u32"
  let ?b = "(fresh_btt (poolsize - BLK_DATA_OFF) ?lb (env_uuid env) ?s (ns_cb True))\<lparr>nfree := 256, narena := 1,
    nlane := (if ?lanes \<noteq> 0 \<and> ?lanes < 256 then ?lanes else 256),
    nlba := ucast (external_nlba (fmt_arena (poolsize - BLK_DATA_OFF) (layout_internal_lbasize ?lb)))\<rparr>"
  have sz: "unat (poolsize - BLK_DATA_OFF) \<le> blk_nsize ?s" "blk_nsize ?s < 2 ^ 63"
    using size by (simp_all add: blk_nsize_def fmt_size_ok_def)
  have none: "read_info (fresh_btt (poolsize - BLK_DATA_OFF) ?lb (env_uuid env) ?s (ns_cb True)) (mem_read (blk_bytes ?s) 0 4096) = None"
    using read_info_zero by (simp add: blk_bytes_def)
  have "map_raw (blk_bytes ?s) a i = 0" for a i by (simp add: blk_bytes_def map_raw_zero)
  then have init: "btt_init (poolsize - BLK_DATA_OFF) ?lb (env_uuid env) ?lanes ?s (ns_cb True) = (Ok ?b, ?s)"
    "btt_pristine (ns_cb True) blk_bytes blk_nsize ?b"
    using blk.btt_init_pristine [OF size sz uuid none, of ?lanes] by simp_all
  let ?m1 = "blk_store_region env poolsize False ?m"
  let ?m2 = "blk_store_handle env (btt_nlane ?b) ?m1"
  let ?p = "\<lparr>blk_hdrs = ?m2, blk_rdonly = False, bttp = ?b, blk_nlane = btt_nlane ?b, next_lane = 0\<rparr>"
  have "take 16 (drop 24 ?page) = env_uuid env" using page(2) by (simp add: BLK_FORMAT_MAJOR_def)
  then have uuid': "take 16 (drop 24 (mem_read ?m 0 POOL_HDR_SIZE)) = env_uuid env"
    unfolding POOL_HDR_SIZE_def hdr .
  have same2: "same_but_runtime ?m ?m2" using same_but_runtime_trans [OF store_region_runtime store_handle_runtime] .
  note R1 = same_runtime_facts [OF store_region_runtime, of env poolsize False ?m] and R2 = same_runtime_facts [OF same2]
  have uuid1: "take 16 (drop 24 (mem_read ?m1 0 POOL_HDR_SIZE)) = env_uuid env"
    "take 16 (drop 24 (mem_read ?m2 0 POOL_HDR_SIZE)) = env_uuid env"
    using uuid' same_runtime_read [OF store_region_runtime, of 0 4096 env poolsize False ?m]
      same_runtime_read [OF same2, of 0 4096] by (simp_all add: POOL_HDR_SIZE_def)
  have join2: "join_pool ?m2 (\<lambda>_. 0) = ?m2" using join_data_area [of ?m2] unfolding R2(2) area .
  have image: "pool_image ?p = ?m2" using join2 by (simp add: pool_image_def store_handle_next_lane fresh_btt_def)
  have region: "(m1 = ?m1) \<Longrightarrow> data_area m1 = (\<lambda>_. 0) \<and> (m1 BLK_ZEROED_OFF \<noteq> 0) = True \<and>
      take 16 (drop 24 (mem_read m1 0 POOL_HDR_SIZE)) = env_uuid env" for m1
    using R1(1,2) area zero uuid1(1) by simp
  have "blk_runtime env ?m poolsize bsize False = (Ok ?p, ?m2)"
    using init(1) region [OF refl] join2 by (simp add: blk_runtime_def Let_def)
  then have run: "pmemblk_map_common env (\<lambda>_. 0) poolsize bsize False True True = (Ok ?p, pool_image ?p)"
    unfolding image using create by (simp add: pmemblk_map_common_def)
  have ubs: "(ucast ?lb :: u64) = bsize" "unat ?lb = unat bsize"
    using bsize(2) by (simp_all add: word_unat_eq_iff unat_ucast_32_64 unat_ucast_mod)
  have lb: "lbasize ?b = ?lb" by (simp add: fresh_btt_def)
  have check: "blk_check_hdr ?m 0 False = Inr (ucast (lbasize ?b), False)"
    unfolding lb blk_check_hdr_def POOL_HDR_SIZE_def BLK_BSIZE_OFF_def hdr bs
    using page(3) blk_sig_facts
    by (auto simp: BLK_FORMAT_MAJOR_def POOL_HDR_SIG_LEN_def util_feature_check_def BLK_FORMAT_INCOMPAT_def
        BLK_FORMAT_RO_COMPAT_def)
  have "pmemblk_inv ?p"
    using init(2) by (auto simp: pmemblk_inv_def btt_ok_def btt_nlane_def fresh_btt_def)
  then have "blk_pool_ok ?p"
    using check uuid1(2) zero R2(1,3) by (simp add: blk_pool_ok_def fresh_btt_def)
  then show thesis
    using run ubs fmt_arena_unat(1) [OF size] by (intro that [of ?p])
      (simp_all add: blk_bsize_def fresh_btt_def pmemblk_view_def pmemblk_nblock_def btt_nlba_def btt_view_def unat_ucast_32_64)
qed

section \<open>Properties\<close>

text \<open>
  C3 Any sequence of reads, writes, zeroings and error markings on a pool of one arena whose data
  blocks take at most 4 GiB (\<open>pmemblk_inv\<close>; laid out, or new and not yet written) returns what the
  abstract block device returns and leaves the pool showing the contents of that device, with the
  invariant kept: each block holds what was last put there, invalid block numbers give
  \<open>EINVAL\<close>, a block marked bad reads as \<open>EIO\<close>, and a read-only pool refuses changes with \<open>EROFS\<close>.
  Buffers have the size of a block.  Larger pools are outside: their blocks can alias.
\<close>

theorem blk_sequence_refines:
  assumes "pmemblk_inv p" and "\<forall>op\<in>set ops. op_buf_ok (blk_bsize p) op"
  shows "case blk_run ops p of (rs, p') \<Rightarrow>
    (rs, pmemblk_view p') = blk_spec_run (unat (pmemblk_nblock p)) (blk_bsize p) (blk_rdonly p) ops (pmemblk_view p) \<and>
    pmemblk_inv p'"
  using blk_run_refines [OF assms] by (auto simp: blk_frame_def)

text \<open>
  C5 Creating a block pool in a new file of one arena succeeds when the system calls do: the file
  is at least the minimum size, its data area (its size less 8 KiB) is a multiple of 64 of at least
  16 MiB and at most 4 GiB, and blocks are of 1 byte to 2 GiB, small enough for at least 512 internal
  blocks.  The file then holds the contents of the mapping: the header, the block size, the run-time fields of
  the open handle and the data area, which gets its layout with the first write; the pool is well formed, has the requested block size, and every block
  reads as zeros.
\<close>

theorem blk_create_formats:
  assumes env: "falloc poolsize = None" "mmap poolsize = None" "length (env_uuid env) = 16" and new: "fs path = None"
    and size: "PMEMBLK_MIN_POOL \<le> poolsize" "fmt_size_ok (of_nat poolsize - BLK_DATA_OFF) (ucast bsize)"
    and bsize: "bsize \<noteq> 0" "unat bsize < 2 ^ 32"
  shows "\<exists>p. pmemblk_create falloc mmap env fs path bsize poolsize =
      (Ok p, fs(path \<mapsto> \<lparr>file_size = poolsize, file_data = pool_image p\<rparr>)) \<and>
    blk_pool_ok p \<and> blk_bsize p = unat bsize \<and>
    (\<forall>i < unat (pmemblk_nblock p). pmemblk_view p i = Inr (replicate (unat bsize) 0))"
proof -
  obtain p where p: "pmemblk_map_common env (\<lambda>_. 0) (of_nat poolsize) bsize False True True = (Ok p, pool_image p)"
    "blk_pool_ok p" "blk_bsize p = unat bsize"
    "\<And>i. i < unat (pmemblk_nblock p) \<Longrightarrow> pmemblk_view p i = Inr (replicate (unat bsize) 0)"
    using blk_create_done [OF size(2) bsize env(3)] by metis
  have "poolsize \<noteq> 0" using size(1) by (auto simp: PMEMBLK_MIN_POOL_def)
  then show ?thesis
    using p env new size(1)
    by (intro exI [of _ p]) (simp add: pmemblk_create_def util_pool_create_def blk_map_file_def)
qed

lemma blk_reopen:
  assumes ok: "blk_pool_ok p" and there: "fs path = Some \<lparr>file_size = n, file_data = pool_image p\<rparr>"
    and size: "PMEMBLK_MIN_POOL \<le> n" "of_nat n - BLK_DATA_OFF = blk_datasize (ns (bttp p))"
    and bsize: "bsize = 0 \<or> bsize = ucast (lbasize (bttp p))" and env: "mmap n = None"
  shows "\<exists>p'. pmemblk_open mmap env fs path bsize = (Ok p', fs(path \<mapsto> \<lparr>file_size = n, file_data = pool_image p'\<rparr>)) \<and>
    same_but_runtime (pool_image p) (pool_image p') \<and> blk_pool_ok p' \<and>
    pmemblk_view p' = pmemblk_view p \<and> pmemblk_nblock p' = pmemblk_nblock p \<and> blk_bsize p' = blk_bsize p \<and>
    blk_datasize (ns (bttp p')) = blk_datasize (ns (bttp p))"
proof -
  obtain p' where p': "blk_runtime env (pool_image p) (of_nat n) (ucast (lbasize (bttp p))) False = (Ok p', pool_image p')"
    "blk_pool_ok p'" "pmemblk_view p' = pmemblk_view p" "pmemblk_nblock p' = pmemblk_nblock p" "blk_bsize p' = blk_bsize p"
    "blk_datasize (ns (bttp p')) = blk_datasize (ns (bttp p))" "same_but_runtime (pool_image p) (pool_image p')"
    using blk_runtime_reopen [OF ok size(2)] by metis
  have "blk_check_hdr (pool_image p) bsize False = Inr (ucast (lbasize (bttp p)), False)"
    using blk_check_hdr_bsize [OF _ bsize] ok by (simp add: blk_pool_ok_def pool_image_facts)
  then have "pmemblk_map_common env (pool_image p) (of_nat n) bsize False False False = (Ok p', pool_image p')"
    using p'(1) by (simp add: pmemblk_map_common_def)
  then show ?thesis
    using p' there size(1) env
    by (intro exI [of _ p']) (simp add: pmemblk_open_def util_pool_open_def blk_map_file_def)
qed

text \<open>
  C4 What a pool stores outlives its handle.  After any sequence of operations, with buffers of the size of
  a block, on a writable pool of one arena whose data blocks take at most 4 GiB, opening the file with the
  contents of its mapping again, when it can be mapped, gives a well-formed pool of the
  same geometry whose blocks are those of the abstract device after the sequence.  The file then
  holds the contents of the new mapping, and they differ from what was there only in the run-time
  fields of \<open>struct pmemblk\<close>, the bytes 4104 to 4175, which opening overwrites.
\<close>

theorem blk_durable:
  assumes ok: "blk_pool_ok p" and ops: "\<forall>op\<in>set ops. op_buf_ok (blk_bsize p) op" and run: "blk_run ops p = (rs, p1)"
    and there: "fs path = Some \<lparr>file_size = n, file_data = pool_image p1\<rparr>"
    and size: "PMEMBLK_MIN_POOL \<le> n" "of_nat n - BLK_DATA_OFF = blk_datasize (ns (bttp p))" and env: "mmap n = None"
  shows "\<exists>p'. pmemblk_open mmap env fs path 0 = (Ok p', fs(path \<mapsto> \<lparr>file_size = n, file_data = pool_image p'\<rparr>)) \<and>
    same_but_runtime (pool_image p1) (pool_image p') \<and> blk_pool_ok p' \<and>
    (rs, pmemblk_view p') = blk_spec_run (unat (pmemblk_nblock p)) (blk_bsize p) False ops (pmemblk_view p) \<and>
    pmemblk_nblock p' = pmemblk_nblock p \<and> blk_bsize p' = blk_bsize p"
proof -
  have inv: "pmemblk_inv p" and rw: "\<not> blk_rdonly p" using ok by (auto simp: blk_pool_ok_def)
  from blk_run_refines [OF inv ops] have frame: "blk_frame p p1"
    and spec: "(rs, pmemblk_view p1) = blk_spec_run (unat (pmemblk_nblock p)) (blk_bsize p) False ops (pmemblk_view p)"
    using run rw by auto
  have ds: "of_nat n - BLK_DATA_OFF = blk_datasize (ns (bttp p1))" using frame size(2) by (simp add: blk_frame_def)
  obtain p' where p': "pmemblk_open mmap env fs path 0 = (Ok p', fs(path \<mapsto> \<lparr>file_size = n, file_data = pool_image p'\<rparr>))"
    "same_but_runtime (pool_image p1) (pool_image p')" "blk_pool_ok p'" "pmemblk_view p' = pmemblk_view p1"
    "pmemblk_nblock p' = pmemblk_nblock p1" "blk_bsize p' = blk_bsize p1"
    using blk_reopen [where p = p1 and fs = fs and path = path and n = n and bsize = 0 and mmap = mmap and env = env,
        OF blk_pool_ok_frame [OF ok frame] there size(1) ds _ env] by blast
  show ?thesis
    by (rule exI [of _ p']) (use p' spec frame in \<open>simp add: blk_frame_def\<close>)
qed

text \<open>
  A pool whose header page was damaged in one aligned 4-byte word outside the checksum is not
  opened: \<open>pmemblk_open\<close> fails with \<open>EINVAL\<close> and does not touch the file.
\<close>

theorem blk_open_damaged:
  assumes ok: "blk_pool_ok p" and there: "fs path = Some \<lparr>file_size = n, file_data = m\<rparr>"
    and size: "PMEMBLK_MIN_POOL \<le> n" and env: "mmap n = None"
    and word: "q mod 4 = 0" "q < 4088" and same: "\<forall>i < 4096. i < q \<or> q + 4 \<le> i \<longrightarrow> m i = pool_image p i"
    and damage: "mem_read m q 4 \<noteq> mem_read (pool_image p) q 4"
  shows "pmemblk_open mmap env fs path bsize = (Err EINVAL, fs)"
proof -
  obtain h where "util_convert_hdr (mem_read (pool_image p) 0 4096) = Some h"
    using ok by (auto simp: blk_pool_ok_def pool_image_facts blk_check_hdr_def POOL_HDR_SIZE_def split: option.splits)
  moreover have "take 4 (drop q (mem_read x 0 4096)) = mem_read x q 4" for x
    using word by (intro nth_equalityI) (auto simp: mem_read_def)
  ultimately have "util_convert_hdr (mem_read m 0 4096) = None"
    using word same damage by (intro convert_hdr_damaged [of _ h _ q]) (auto simp: mem_read_def)
  then have "blk_check_hdr m bsize False = Inl EINVAL" by (simp add: blk_check_hdr_def POOL_HDR_SIZE_def)
  moreover have "fs(path \<mapsto> \<lparr>file_size = n, file_data = m\<rparr>) = fs" using there by auto
  ultimately show ?thesis
    using there size env by (simp add: pmemblk_open_def util_pool_open_def blk_map_file_def pmemblk_map_common_def)
qed

text \<open>
  C1 Power-fail atomicity of a write to a pool that is laid out (all but the first write), has one
  arena, and whose data blocks take at most 4 GiB (\<open>btt_inv\<close>, \<open>arena_geom\<close>): let the power fail at
  any of the media writes of \<open>btt_write\<close>, tearing that one at any of its aligned 8-byte words, and
  run \<open>btt_init\<close> on the namespace again.  It succeeds, and every block has its old contents, except
  that the block being written may have the new ones; and it has them if the write had returned.
  A power failure while the very first write lays the pool out is not covered, and neither is a
  pool with more than 4 GiB of blocks, where the 32-bit block offsets of \<open>btt.c\<close> let blocks alias.
\<close>

theorem blk_write_power_fail:
  assumes inv: "btt_inv (ns_cb z) blk_bytes blk_nsize b" and lba: "lba < nlba b" and lane: "lane < nlane b"
    and len: "length buf = unat (lbasize b)"
    and run: "btt_write lane lba buf (plug n tw b) = (r, c)"
  shows "\<exists>b'. btt_init (rawsize b) (lbasize b) (parent_uuid b) maxlane (inner (ns c)) (ns_cb z) = (Ok b', ns b') \<and>
    btt_inv (ns_cb z) blk_bytes blk_nsize b' \<and>
    (btt_view blk_bytes b' = btt_view blk_bytes b \<or>
     btt_view blk_bytes b' = (btt_view blk_bytes b)(unat lba := Inr buf)) \<and>
    (r = Ok () \<longrightarrow> btt_view blk_bytes b' = (btt_view blk_bytes b)(unat lba := Inr buf))"
proof -
  note W = blk.write_then_crash [OF inv lba lane len, of n tw, unfolded run, simplified]
  show ?thesis
  proof (cases "r = Ok ()")
    case True
    then show ?thesis
      using blk.reopened_complete [OF inv lba lane len W(1) W(3), of maxlane] by (metis ns_reopened)
  next
    case False
    then show ?thesis using blk.recovery_complete [OF inv lba lane len W(2,1), of maxlane] by metis
  qed
qed

text \<open>
  C2 Recovery can itself be interrupted any number of times, at any of its writes: after a write
  to a laid-out pool of one arena with at most 4 GiB of data blocks was interrupted, and any number
  of calls of \<open>btt_init\<close> after it, the last \<open>btt_init\<close> succeeds and shows the old or the new
  contents of the block, and the old contents of every other block.
\<close>

theorem blk_recovery_interrupted:
  assumes inv: "btt_inv (ns_cb z) blk_bytes blk_nsize b" and lba: "lba < nlba b" and lane: "lane < nlane b"
    and len: "length buf = unat (lbasize b)"
    and run: "btt_write lane lba buf (plug n tw b) = (r, c)"
  shows "\<exists>b'. btt_init (rawsize b) (lbasize b) (parent_uuid b) maxlane
      (inner (interrupted_inits (ns_cb z) (rawsize b) (lbasize b) (parent_uuid b) maxlane ps (ns c))) (ns_cb z) = (Ok b', ns b') \<and>
    btt_inv (ns_cb z) blk_bytes blk_nsize b' \<and>
    (btt_view blk_bytes b' = btt_view blk_bytes b \<or>
     btt_view blk_bytes b' = (btt_view blk_bytes b)(unat lba := Inr buf))"
proof -
  note W = blk.write_then_crash [OF inv lba lane len, of n tw, unfolded run, simplified]
  note I = blk.interrupted_inits_crash [OF inv lba lane len W(2,1), of maxlane ps]
  show ?thesis
    using blk.recovery_complete [OF inv lba lane len conjunct1 [OF I] conjunct2 [OF I], of maxlane] by metis
qed

text \<open>
  C6 The consistency check of a laid-out pool of one arena with at most 4 GiB of data blocks and
  one flog for each free block decides whether every block of the pool is referenced exactly once,
  by the map or by the flog, and changes nothing.
\<close>

theorem blk_check_decides:
  assumes "ns_cbp b = ns_cb z" and "laidout b" and one: "narena b = 1"
    and "arena_geom (unat (nfree b)) lb (blk_nsize (ns b)) (arenas b ! 0)"
    and "length (flogs (arenas b ! 0)) = unat (nfree b)"
  shows "(fst (btt_check b) = Ok True \<longleftrightarrow> blocks_ok (unat (nfree b)) (blk_bytes (ns b)) (arenas b ! 0)) \<and>
    snd (btt_check b) = b"
  using blk_map.btt_check_iff [OF assms(1,2) _ assms(4,5)] one by simp


text \<open>
  Every pool with its invariant passes the check; by the refinement theorem, so does every pool
  after any sequence of operations.
\<close>

theorem blk_check_passes:
  assumes "pmemblk_inv p"
  shows "btt_check (bttp p) = (Ok True, bttp p)"
proof -
  obtain z where z: "ns_cbp (bttp p) = ns_cb z" "btt_ok (ns_cb z) blk_bytes blk_nsize (bttp p)"
    using assms by (auto simp: pmemblk_inv_def)
  from z(2) show ?thesis unfolding btt_ok_def
  proof
    assume "btt_pristine (ns_cb z) blk_bytes blk_nsize (bttp p)"
    then show ?thesis using pristine_laidout by (auto simp: btt_check_def andthen_def gets_def ret_def)
  next
    assume inv: "btt_inv (ns_cb z) blk_bytes blk_nsize (bttp p)"
    note D = btt_invD [OF inv]
    have "fst (btt_check (bttp p)) = Ok True" "snd (btt_check (bttp p)) = bttp p"
      using blk_map.btt_check_iff [OF D(1,2) _ arena_invD(1,2) [OF D(12)]] D(3) arena_invD(5) [OF D(12)] by auto
    then show ?thesis by (simp add: prod_eq_iff)
  qed
qed

section \<open>The properties at a concrete pool\<close>

text \<open>A pool of 16 MiB and 8 KiB with blocks of 512 bytes, the smallest that the library makes.\<close>

abbreviation demo_blk_env :: blk_env where
  "demo_blk_env \<equiv> \<lparr>env_is_pmem = True, env_ncpus = 4, env_uuid = replicate 16 1, env_time = 0,
     env_addr = 0x7f0000000000, env_bttp = 0x55550000, env_locks = 0x55560000\<rparr>"

lemma demo_size: "fmt_size_ok (16785408 - BLK_DATA_OFF) (ucast (512 :: u64))"
  "fmt_nlba (unat (16785408 - BLK_DATA_OFF)) (unat (layout_internal_lbasize (ucast (512 :: u64)))) - 256 = 32202"
  by (simp_all add: fmt_size_ok_def BLK_DATA_OFF_val btt_consts layout_internal_lbasize_def roundup_def fmt_nlba_def)

lemma demo_pool:
  obtains p where "blk_pool_ok p" "blk_bsize p = 512" "unat (pmemblk_nblock p) = 32202"
    "(16785408 :: u64) - BLK_DATA_OFF = blk_datasize (ns (bttp p))"
    "\<And>i. i < 32202 \<Longrightarrow> pmemblk_view p i = Inr (replicate 512 0)"
proof -
  let ?env = "demo_blk_env"
  have pre: "(512 :: u64) \<noteq> 0" "unat (512 :: u64) < 2 ^ 32" "length (env_uuid ?env) = 16" by simp_all
  obtain p where p: "blk_pool_ok p" "blk_bsize p = unat (512 :: u64)" "(16785408 :: u64) - BLK_DATA_OFF = blk_datasize (ns (bttp p))"
    "unat (pmemblk_nblock p) = fmt_nlba (unat (16785408 - BLK_DATA_OFF)) (unat (layout_internal_lbasize (ucast (512 :: u64)))) - 256"
    "\<And>i. i < unat (pmemblk_nblock p) \<Longrightarrow> pmemblk_view p i = Inr (replicate (unat (512 :: u64)) 0)"
    using blk_create_done [OF demo_size(1) pre] by metis
  have n: "unat (pmemblk_nblock p) = 32202" using p(4) demo_size(2) by simp
  show thesis using that [OF p(1) _ n p(3)] p(2) p(5) [unfolded n] by simp
qed

lemma blk_pool_okD:
  assumes "blk_pool_ok p"
  shows "pmemblk_inv p" and "\<not> blk_rdonly p"
    and "btt_ok (ns_cb (blk_hdrs p BLK_ZEROED_OFF \<noteq> 0)) blk_bytes blk_nsize (bttp p)" and "0 < nlane (bttp p)"
  using assms unfolding blk_pool_ok_def pmemblk_inv_def by auto

lemma demo_handle:
  obtains z b where "btt_inv (ns_cb z) blk_bytes blk_nsize b" "0 < nlba b" "0 < nlane b" "unat (lbasize b) = 512"
proof -
  obtain p where p: "blk_pool_ok p" "blk_bsize p = 512" "unat (pmemblk_nblock p) = 32202" using demo_pool by metis
  obtain b where b: "btt_inv (ns_cb (blk_hdrs p BLK_ZEROED_OFF \<noteq> 0)) blk_bytes blk_nsize b" "same_dev blk_nsize (bttp p) b"
    using blk.ok_laid_out [OF blk_pool_okD(3,4) [OF p(1)]] by metis
  have "unat (nlba b) = 32202" using p(3) b(2) by (simp add: same_dev_def pmemblk_nblock_def btt_nlba_def)
  then have "0 < nlba b" by (simp add: word_less_nat_alt)
  then show thesis
    using that b p(2) blk_pool_okD(4) [OF p(1)] by (simp add: same_dev_def blk_bsize_def)
qed

theorem blk_sequence_refines_witness:
  "\<exists>p rs p'. pmemblk_inv p \<and> blk_run [Write 0 (replicate 512 7), Read 0, Set_Error 0, Read 0, Read 1, Read (- 1)] p = (rs, p') \<and>
    rs = [Ok [], Ok (replicate 512 7), Ok [], Err EIO, Ok (replicate 512 0), Err EINVAL]"
proof -
  obtain p where p: "blk_pool_ok p" "blk_bsize p = 512" "unat (pmemblk_nblock p) = 32202"
    "\<And>i. i < 32202 \<Longrightarrow> pmemblk_view p i = Inr (replicate 512 0)" using demo_pool by metis
  let ?ops = "[Write 0 (replicate 512 7), Read 0, Set_Error 0, Read 0, Read 1, Read (- 1)]"
  have "pmemblk_view p (unat (- 1 :: u64)) = Inl EINVAL"
    using p(3) by (simp add: pmemblk_view_def btt_view_def pmemblk_nblock_def btt_nlba_def unsigned_minus_1_eq_mask mask_eq_exp_minus_1)
  moreover have "unat (- 1 :: u64) \<noteq> 0" by (simp add: unsigned_minus_1_eq_mask mask_eq_exp_minus_1)
  moreover obtain rs p' where "blk_run ?ops p = (rs, p')" by fastforce
  ultimately show ?thesis
    using blk_sequence_refines [of p ?ops] blk_pool_okD(1,2) [OF p(1)] p(2-4)
    by (intro exI [of _ p]) (auto simp: view_outcome_def)
qed

theorem blk_create_formats_witness:
  "\<exists>p. pmemblk_create (\<lambda>_. None) (\<lambda>_. None) demo_blk_env
      Map.empty ''pool'' 512 16785408 =
      (Ok p, [''pool'' \<mapsto> \<lparr>file_size = 16785408, file_data = pool_image p\<rparr>]) \<and>
    blk_pool_ok p \<and> blk_bsize p = 512"
  using blk_create_formats [of "\<lambda>_. None" 16785408 "\<lambda>_. None"
      "demo_blk_env" Map.empty "''pool''" 512]
    demo_size(1) by (auto simp: PMEMBLK_MIN_POOL_def)

text \<open>The file that holds the demonstration pool after a write to its first block.\<close>

lemma demo_written:
  obtains p p1 rs where "blk_pool_ok p" "blk_bsize p = 512" "blk_run [Write 0 (replicate 512 7)] p = (rs, p1)"
    "(16785408 :: u64) - BLK_DATA_OFF = blk_datasize (ns (bttp p))"
  using demo_pool by (metis surj_pair)

theorem blk_durable_witness:
  "\<exists>p rs p1 p'. blk_pool_ok p \<and> blk_run [Write 0 (replicate 512 7)] p = (rs, p1) \<and>
    pmemblk_open (\<lambda>_. None) demo_blk_env
      [''pool'' \<mapsto> \<lparr>file_size = 16785408, file_data = pool_image p1\<rparr>] ''pool'' 0 =
      (Ok p', [''pool'' \<mapsto> \<lparr>file_size = 16785408, file_data = pool_image p'\<rparr>]) \<and>
    same_but_runtime (pool_image p1) (pool_image p') \<and> pmemblk_nblock p' = pmemblk_nblock p"
proof -
  obtain p p1 rs where p: "blk_pool_ok p" "blk_bsize p = 512" "blk_run [Write 0 (replicate 512 7)] p = (rs, p1)"
    "(16785408 :: u64) - BLK_DATA_OFF = blk_datasize (ns (bttp p))" using demo_written .
  let ?fs = "[''pool'' \<mapsto> \<lparr>file_size = 16785408, file_data = pool_image p1\<rparr>]"
  obtain p' where p': "pmemblk_open (\<lambda>_. None) demo_blk_env ?fs ''pool'' 0 =
      (Ok p', ?fs(''pool'' \<mapsto> \<lparr>file_size = 16785408, file_data = pool_image p'\<rparr>))"
    "same_but_runtime (pool_image p1) (pool_image p')" "pmemblk_nblock p' = pmemblk_nblock p"
    using blk_durable [OF p(1) _ p(3), of ?fs "''pool''" 16785408 "\<lambda>_. None" demo_blk_env] p
    by (auto simp: PMEMBLK_MIN_POOL_def)
  have upd: "?fs(''pool'' \<mapsto> x) = [''pool'' \<mapsto> x]" for x by simp
  from p'(1) have "pmemblk_open (\<lambda>_. None) demo_blk_env ?fs ''pool'' 0 =
      (Ok p', [''pool'' \<mapsto> \<lparr>file_size = 16785408, file_data = pool_image p'\<rparr>])" unfolding upd .
  then show ?thesis using p(1,3) p'(2,3) by blast
qed

theorem blk_open_damaged_witness:
  "\<exists>m. pmemblk_open (\<lambda>_. None) demo_blk_env
      [''pool'' \<mapsto> \<lparr>file_size = 16785408, file_data = m\<rparr>] ''pool'' 0 =
      (Err EINVAL, [''pool'' \<mapsto> \<lparr>file_size = 16785408, file_data = m\<rparr>])"
proof -
  obtain p where p: "blk_pool_ok p" using demo_pool by metis
  let ?m = "(pool_image p)(8 := pool_image p 8 + 1)"
  have "mem_read ?m 8 4 ! 0 \<noteq> mem_read (pool_image p) 8 4 ! 0" by (simp add: mem_read_def)
  then have "mem_read ?m 8 4 \<noteq> mem_read (pool_image p) 8 4" by metis
  then show ?thesis
    using blk_open_damaged [OF p, of "[''pool'' \<mapsto> \<lparr>file_size = 16785408, file_data = ?m\<rparr>]" "''pool''" 16785408 ?m
        "\<lambda>_. None" 8 "demo_blk_env" 0]
    by (auto simp: PMEMBLK_MIN_POOL_def)
qed

theorem blk_write_power_fail_witness:
  "\<exists>z b r c b'. btt_inv (ns_cb z) blk_bytes blk_nsize b \<and>
    btt_write 0 0 (replicate 512 7) (plug 2 (\<lambda>_. True) b) = (r, c) \<and>
    btt_init (rawsize b) (lbasize b) (parent_uuid b) 8 (inner (ns c)) (ns_cb z) = (Ok b', ns b') \<and>
    (btt_view blk_bytes b' = btt_view blk_bytes b \<or>
     btt_view blk_bytes b' = (btt_view blk_bytes b)(0 := Inr (replicate 512 7)))"
proof -
  obtain z b where b: "btt_inv (ns_cb z) blk_bytes blk_nsize b" "0 < nlba b" "0 < nlane b" "unat (lbasize b) = 512"
    using demo_handle .
  obtain r c where run: "btt_write 0 0 (replicate 512 7) (plug 2 (\<lambda>_. True) b) = (r, c)" by fastforce
  have "length (replicate 512 7 :: byte list) = unat (lbasize b)" using b(4) by simp
  from blk_write_power_fail [OF b(1-3) this run, of 8] b(1) run show ?thesis by (metis unat_0)
qed

theorem blk_recovery_interrupted_witness:
  "\<exists>z b r c b'. btt_inv (ns_cb z) blk_bytes blk_nsize b \<and>
    btt_write 0 0 (replicate 512 7) (plug 3 (\<lambda>_. False) b) = (r, c) \<and>
    btt_init (rawsize b) (lbasize b) (parent_uuid b) 8
      (inner (interrupted_inits (ns_cb z) (rawsize b) (lbasize b) (parent_uuid b) 8 [(0, \<lambda>_. False), (0, \<lambda>_. True)] (ns c)))
      (ns_cb z) = (Ok b', ns b') \<and>
    (btt_view blk_bytes b' = btt_view blk_bytes b \<or>
     btt_view blk_bytes b' = (btt_view blk_bytes b)(0 := Inr (replicate 512 7)))"
proof -
  obtain z b where b: "btt_inv (ns_cb z) blk_bytes blk_nsize b" "0 < nlba b" "0 < nlane b" "unat (lbasize b) = 512"
    using demo_handle .
  obtain r c where run: "btt_write 0 0 (replicate 512 7) (plug 3 (\<lambda>_. False) b) = (r, c)" by fastforce
  have "length (replicate 512 7 :: byte list) = unat (lbasize b)" using b(4) by simp
  from blk_recovery_interrupted [OF b(1-3) this run, of 8 "[(0, \<lambda>_. False), (0, \<lambda>_. True)]"] b(1) run
  show ?thesis by (metis unat_0)
qed

theorem blk_check_decides_witness:
  "\<exists>b. fst (btt_check b) = Ok True \<and> blocks_ok (unat (nfree b)) (blk_bytes (ns b)) (arenas b ! 0)"
proof -
  obtain z b where b: "btt_inv (ns_cb z) blk_bytes blk_nsize b" using demo_handle by metis
  note D = btt_invD [OF b]
  show ?thesis
    using blk_check_decides [OF D(1-3) arena_invD(1,2) [OF D(12)]] arena_invD(5) [OF D(12)] by blast
qed


theorem blk_check_passes_witness: "\<exists>p. pmemblk_inv p \<and> fst (btt_check (bttp p)) = Ok True"
proof -
  obtain p where "blk_pool_ok p" using demo_pool by metis
  then show ?thesis using blk_check_passes [of p] blk_pool_okD(1) [of p] by auto
qed

end
