(* ===== verification/Pmem_Machine.thy ===== *)
theory Pmem_Machine
  imports Prelude
begin

text \<open>
  The memory system that \<open>src/libpmem/pmem.c\<close> programs: what the processor's store, stream
  (\<open>MOVNT\<close>), cache flush and fence instructions do to what survives a power failure.  Loads see
  \<open>pm_view\<close>; \<open>pm_media\<close> survives.  A \<open>CLWB\<close>, \<open>CLFLUSHOPT\<close> or stream store
  puts bytes on their way (\<open>pm_inflight\<close>) until a fence; a \<open>CLFLUSH\<close> and a fence hand them to
  the memory controller (\<open>pm_accepted\<close>), from where \<open>PCOMMIT\<close> followed by a fence
  commits them (\<open>pm_marked\<close>).  On a platform with ADR the controller's buffers survive.
  At every instruction the cache may write any aligned 8-byte word back on its own (\<open>pm_evict\<close>),
  and from time \<open>pm_fail_at\<close> on the power is off and the media keeps what it has.
\<close>

record pmdev =
  pm_view :: mem
  pm_media :: mem
  pm_inflight :: "nat \<Rightarrow> byte option"
  pm_accepted :: "nat \<Rightarrow> byte option"
  pm_marked :: "nat \<Rightarrow> byte option"
  pm_adr :: bool
  pm_time :: nat
  pm_fail_at :: nat
  pm_evict :: "nat \<Rightarrow> nat \<Rightarrow> bool"

definition pm_failed :: "pmdev \<Rightarrow> bool" where
  "pm_failed d \<longleftrightarrow> pm_fail_at d \<le> pm_time d"

text \<open>The end of every instruction: time passes and the cache may write words back.\<close>

definition written_back :: "pmdev \<Rightarrow> nat \<Rightarrow> bool" where
  "written_back d i \<longleftrightarrow> \<not> pm_failed d \<and> pm_evict d (pm_time d) (i div 8)"

definition tick :: "pmdev \<Rightarrow> pmdev" where
  "tick d = d\<lparr>
     pm_media := (\<lambda>i. if written_back d i then pm_view d i else pm_media d i),
     pm_inflight := (\<lambda>i. if written_back d i then None else pm_inflight d i),
     pm_accepted := (\<lambda>i. if written_back d i then None else pm_accepted d i),
     pm_marked := (\<lambda>i. if written_back d i then None else pm_marked d i),
     pm_time := Suc (pm_time d)\<rparr>"

section \<open>Instructions\<close>

definition store :: "nat \<Rightarrow> byte list \<Rightarrow> pmdev \<Rightarrow> pmdev" where
  "store p bs d = tick (d\<lparr>pm_view := mem_write (pm_view d) p bs\<rparr>)"

definition stream :: "nat \<Rightarrow> byte list \<Rightarrow> pmdev \<Rightarrow> pmdev" where
  "stream p bs d = tick (d\<lparr>pm_view := mem_write (pm_view d) p bs,
     pm_inflight := (\<lambda>i. if p \<le> i \<and> i < p + length bs \<and> \<not> pm_failed d then Some (bs ! (i - p)) else pm_inflight d i)\<rparr>)"

definition in_line :: "nat \<Rightarrow> nat \<Rightarrow> bool" where
  "in_line p i \<longleftrightarrow> i div 64 = p div 64"

definition clwb :: "nat \<Rightarrow> pmdev \<Rightarrow> pmdev" where
  "clwb p d = tick (if pm_failed d then d
     else d\<lparr>pm_inflight := (\<lambda>i. if in_line p i then Some (pm_view d i) else pm_inflight d i)\<rparr>)"

definition clflushopt :: "nat \<Rightarrow> pmdev \<Rightarrow> pmdev" where
  "clflushopt p d = clwb p d"

definition clflush :: "nat \<Rightarrow> pmdev \<Rightarrow> pmdev" where
  "clflush p d = tick (if pm_failed d then d
     else if pm_adr d then
       d\<lparr>pm_media := (\<lambda>i. if in_line p i then pm_view d i else pm_media d i),
         pm_inflight := (\<lambda>i. if in_line p i then None else pm_inflight d i),
         pm_accepted := (\<lambda>i. if in_line p i then None else pm_accepted d i),
         pm_marked := (\<lambda>i. if in_line p i then None else pm_marked d i)\<rparr>
     else
       d\<lparr>pm_accepted := (\<lambda>i. if in_line p i then Some (pm_view d i) else pm_accepted d i),
         pm_inflight := (\<lambda>i. if in_line p i then None else pm_inflight d i)\<rparr>)"

text \<open>The value of a byte once a buffer has drained into what lies below it.\<close>

definition over :: "(nat \<Rightarrow> byte option) \<Rightarrow> mem \<Rightarrow> mem" where
  "over p m i = (case p i of Some v \<Rightarrow> v | None \<Rightarrow> m i)"

definition sfence :: "pmdev \<Rightarrow> pmdev" where
  "sfence d = tick (if pm_failed d then d
     else if pm_adr d then
       d\<lparr>pm_media := over (pm_inflight d) (over (pm_accepted d) (over (pm_marked d) (pm_media d))),
         pm_inflight := (\<lambda>_. None), pm_accepted := (\<lambda>_. None), pm_marked := (\<lambda>_. None)\<rparr>
     else
       d\<lparr>pm_media := over (pm_marked d) (pm_media d),
         pm_accepted := (\<lambda>i. case pm_inflight d i of Some v \<Rightarrow> Some v | None \<Rightarrow> pm_accepted d i),
         pm_inflight := (\<lambda>_. None), pm_marked := (\<lambda>_. None)\<rparr>)"

definition pcommit :: "pmdev \<Rightarrow> pmdev" where
  "pcommit d = tick (if pm_failed d then d
     else
       d\<lparr>pm_marked := (\<lambda>i. case pm_accepted d i of Some v \<Rightarrow> Some v | None \<Rightarrow> pm_marked d i),
         pm_accepted := (\<lambda>_. None)\<rparr>)"

text \<open>
  The system call that writes pages of a mapped file back: it takes whole pages from the page of
  the first byte to the page of the last.
\<close>

definition msync :: "nat \<Rightarrow> nat \<Rightarrow> nat \<Rightarrow> pmdev \<Rightarrow> pmdev" where
  "msync pagesize p len d =
     (let synced = (\<lambda>i. p div pagesize \<le> i div pagesize \<and> i div pagesize < (p + len + pagesize - 1) div pagesize) in
      tick (if pm_failed d then d
        else d\<lparr>pm_media := (\<lambda>i. if synced i then pm_view d i else pm_media d i),
          pm_inflight := (\<lambda>i. if synced i then None else pm_inflight d i),
          pm_accepted := (\<lambda>i. if synced i then None else pm_accepted d i),
          pm_marked := (\<lambda>i. if synced i then None else pm_marked d i)\<rparr>))"

lemmas instr_defs = store_def stream_def clwb_def clflushopt_def clflush_def sfence_def pcommit_def msync_def Let_def

section \<open>What every instruction keeps\<close>

lemma instr_adr [simp]:
  "pm_adr (tick d) = pm_adr d" "pm_adr (store p bs d) = pm_adr d" "pm_adr (stream p bs d) = pm_adr d"
  "pm_adr (clwb p d) = pm_adr d" "pm_adr (clflushopt p d) = pm_adr d" "pm_adr (clflush p d) = pm_adr d"
  "pm_adr (sfence d) = pm_adr d" "pm_adr (pcommit d) = pm_adr d" "pm_adr (msync k p n d) = pm_adr d"
  by (simp_all add: instr_defs tick_def)

lemma instr_view [simp]:
  "pm_view (tick d) = pm_view d" "pm_view (store p bs d) = mem_write (pm_view d) p bs"
  "pm_view (stream p bs d) = mem_write (pm_view d) p bs"
  "pm_view (clwb p d) = pm_view d" "pm_view (clflushopt p d) = pm_view d" "pm_view (clflush p d) = pm_view d"
  "pm_view (sfence d) = pm_view d" "pm_view (pcommit d) = pm_view d" "pm_view (msync k p n d) = pm_view d"
  by (simp_all add: instr_defs tick_def)

lemma instr_time [simp]:
  "pm_time (store p bs d) = Suc (pm_time d)" "pm_time (stream p bs d) = Suc (pm_time d)"
  "pm_time (clwb p d) = Suc (pm_time d)" "pm_time (clflushopt p d) = Suc (pm_time d)" "pm_time (clflush p d) = Suc (pm_time d)"
  "pm_time (sfence d) = Suc (pm_time d)" "pm_time (pcommit d) = Suc (pm_time d)" "pm_time (msync k p n d) = Suc (pm_time d)"
  by (simp_all add: instr_defs tick_def)

lemma instr_fail_at [simp]:
  "pm_fail_at (store p bs d) = pm_fail_at d" "pm_fail_at (stream p bs d) = pm_fail_at d"
  "pm_fail_at (clwb p d) = pm_fail_at d" "pm_fail_at (clflushopt p d) = pm_fail_at d" "pm_fail_at (clflush p d) = pm_fail_at d"
  "pm_fail_at (sfence d) = pm_fail_at d" "pm_fail_at (pcommit d) = pm_fail_at d" "pm_fail_at (msync k p n d) = pm_fail_at d"
  by (simp_all add: instr_defs tick_def)

text \<open>An operation that takes time: once the power is off, the media stays as it is.\<close>

definition frozen_by :: "(pmdev \<Rightarrow> pmdev) \<Rightarrow> bool" where
  "frozen_by f \<longleftrightarrow> (\<forall>d. pm_time d \<le> pm_time (f d) \<and> pm_fail_at (f d) = pm_fail_at d \<and>
     (pm_failed d \<longrightarrow> pm_media (f d) = pm_media d))"

lemma frozen_byD:
  assumes "frozen_by f"
  shows "pm_failed d \<Longrightarrow> pm_failed (f d)" and "pm_failed d \<Longrightarrow> pm_media (f d) = pm_media d"
  using assms by (auto simp: frozen_by_def pm_failed_def intro: order_trans)

lemma frozen_by_id [simp]: "frozen_by (\<lambda>d. d)"
  by (simp add: frozen_by_def)

lemma frozen_by_comp: "frozen_by f \<Longrightarrow> frozen_by g \<Longrightarrow> frozen_by (\<lambda>d. g (f d))"
  using frozen_byD [of f] unfolding frozen_by_def by (metis order_trans)

lemma frozen_by_instr [simp]:
  "frozen_by (store p bs)" "frozen_by (stream p bs)" "frozen_by (clwb p)" "frozen_by (clflushopt p)"
  "frozen_by (clflush p)" "frozen_by sfence" "frozen_by pcommit" "frozen_by (msync k p n)"
  by (auto simp: frozen_by_def instr_defs tick_def written_back_def pm_failed_def)

section \<open>The values that may be on the media\<close>

text \<open>
  On a set of bytes inside one aligned word, every copy in the memory system (the view, the media
  and the buffers) is one of the contents in \<open>A\<close>, as a whole.
\<close>

definition whole :: "nat set \<Rightarrow> mem set \<Rightarrow> mem \<Rightarrow> bool" where
  "whole X A m \<longleftrightarrow> (\<exists>a\<in>A. \<forall>i\<in>X. m i = a i)"

definition whole_opt :: "nat set \<Rightarrow> mem set \<Rightarrow> (nat \<Rightarrow> byte option) \<Rightarrow> bool" where
  "whole_opt X A p \<longleftrightarrow> (\<forall>i\<in>X. p i = None) \<or> (\<exists>a\<in>A. \<forall>i\<in>X. p i = Some (a i))"

definition one_word :: "nat set \<Rightarrow> bool" where
  "one_word X \<longleftrightarrow> (\<exists>w. \<forall>i\<in>X. i div 8 = w)"

definition poss :: "pmdev \<Rightarrow> nat set \<Rightarrow> mem set \<Rightarrow> bool" where
  "poss d X A \<longleftrightarrow> whole X A (pm_view d) \<and> whole X A (pm_media d) \<and>
     whole_opt X A (pm_inflight d) \<and> whole_opt X A (pm_accepted d) \<and> whole_opt X A (pm_marked d)"

text \<open>A byte whose value in the view will survive.\<close>

definition durable :: "pmdev \<Rightarrow> nat \<Rightarrow> bool" where
  "durable d i \<longleftrightarrow> pm_media d i = pm_view d i \<and> pm_inflight d i \<in> {None, Some (pm_view d i)} \<and>
     pm_accepted d i \<in> {None, Some (pm_view d i)} \<and> pm_marked d i \<in> {None, Some (pm_view d i)}"

lemma durable_poss: "durable d i \<longleftrightarrow> poss d {i} {pm_view d}"
  by (auto simp: durable_def poss_def whole_def whole_opt_def)

lemma poss_mono: "poss d X A \<Longrightarrow> A \<subseteq> B \<Longrightarrow> poss d X B"
  unfolding poss_def whole_def whole_opt_def by blast

lemma whole_if:
  "whole X A m \<Longrightarrow> whole X A m' \<Longrightarrow> (\<forall>i\<in>X. P i) \<or> (\<forall>i\<in>X. \<not> P i) \<Longrightarrow> whole X A (\<lambda>i. if P i then m i else m' i)"
  by (auto simp: whole_def)

lemma whole_opt_if:
  "whole_opt X A p \<Longrightarrow> whole_opt X A q \<Longrightarrow> (\<forall>i\<in>X. P i) \<or> (\<forall>i\<in>X. \<not> P i) \<Longrightarrow>
   whole_opt X A (\<lambda>i. if P i then p i else q i)"
  by (auto simp: whole_opt_def)

lemma whole_opt_cong: "\<forall>i\<in>X. q i = p i \<Longrightarrow> whole_opt X A p \<Longrightarrow> whole_opt X A q"
  unfolding whole_opt_def by (elim disjE) auto

lemma whole_opt_None [simp]: "whole_opt X A (\<lambda>_. None)"
  by (simp add: whole_opt_def)

lemma whole_opt_Some: "whole X A m \<Longrightarrow> whole_opt X A (\<lambda>i. Some (m i))"
  by (auto simp: whole_def whole_opt_def)

lemma whole_over: "whole_opt X A p \<Longrightarrow> whole X A m \<Longrightarrow> whole X A (over p m)"
  by (auto simp: whole_def whole_opt_def over_def)

lemma whole_opt_case:
  "whole_opt X A p \<Longrightarrow> whole_opt X A q \<Longrightarrow> whole_opt X A (\<lambda>i. case p i of Some v \<Rightarrow> Some v | None \<Rightarrow> q i)"
  unfolding whole_opt_def by (elim disjE) auto

lemma one_word_uniform:
  assumes "one_word X"
  shows "(\<forall>i\<in>X. written_back d i) \<or> (\<forall>i\<in>X. \<not> written_back d i)"
    and "(\<forall>i\<in>X. in_line p i) \<or> (\<forall>i\<in>X. \<not> in_line p i)"
proof -
  obtain w where w: "\<forall>i\<in>X. i div 8 = w" using assms by (auto simp: one_word_def)
  then show "(\<forall>i\<in>X. written_back d i) \<or> (\<forall>i\<in>X. \<not> written_back d i)" by (auto simp: written_back_def)
  have "i div 64 = w div 8" if "i \<in> X" for i
    using w that div_mult2_eq [of i 8 8] by simp
  then show "(\<forall>i\<in>X. in_line p i) \<or> (\<forall>i\<in>X. \<not> in_line p i)" by (simp add: in_line_def)
qed

lemma poss_tick: "one_word X \<Longrightarrow> poss d X A \<Longrightarrow> poss (tick d) X A"
  using one_word_uniform(1) [of X d] unfolding poss_def tick_def
  by (auto intro!: whole_if whole_opt_if)

lemma poss_flush:
  assumes "one_word X" and "poss d X A"
  shows "poss (clwb p d) X A" and "poss (clflushopt p d) X A" and "poss (clflush p d) X A"
proof -
  show "poss (clwb p d) X A"
    using assms one_word_uniform(2) [of X p] unfolding clwb_def
    by (intro poss_tick) (auto simp: poss_def intro!: whole_opt_if whole_opt_Some)
  then show "poss (clflushopt p d) X A" by (simp add: clflushopt_def)
  show "poss (clflush p d) X A"
    using assms one_word_uniform(2) [of X p] unfolding clflush_def
    by (intro poss_tick) (auto simp: poss_def intro!: whole_if whole_opt_if whole_opt_Some)
qed

lemma poss_fence: "one_word X \<Longrightarrow> poss d X A \<Longrightarrow> poss (sfence d) X A" "one_word X \<Longrightarrow> poss d X A \<Longrightarrow> poss (pcommit d) X A"
  unfolding sfence_def pcommit_def
  by (intro poss_tick; auto simp: poss_def intro!: whole_over whole_opt_case)+

lemma poss_msync:
  assumes "one_word X" and "8 dvd k" and "poss d X A"
  shows "poss (msync k p n d) X A"
proof -
  obtain w where w: "\<forall>i\<in>X. i div 8 = w" using assms by (auto simp: one_word_def)
  obtain c where "k = 8 * c" using assms(2) by (auto simp: dvd_def)
  then have "i div k = w div c" if "i \<in> X" for i using w that div_mult2_eq [of i 8 c] by simp
  then have "(\<forall>i\<in>X. P (i div k)) \<or> (\<forall>i\<in>X. \<not> P (i div k))" for P by auto
  from this [of "\<lambda>y. p div k \<le> y \<and> y < (p + n + k - 1) div k"] show ?thesis
    using assms unfolding msync_def Let_def
    by (intro poss_tick) (auto simp: poss_def intro!: whole_if whole_opt_if)
qed

lemma poss_view:
  "poss d X A \<Longrightarrow> whole X A v \<Longrightarrow> poss (d\<lparr>pm_view := v\<rparr>) X A"
  "poss d X A \<Longrightarrow> whole X A v \<Longrightarrow> whole_opt X A q \<Longrightarrow> poss (d\<lparr>pm_view := v, pm_inflight := q\<rparr>) X A"
  by (simp_all add: poss_def)

lemma whole_write_outside:
  assumes "whole X A m" and "\<And>i. i \<in> X \<Longrightarrow> i < p \<or> p + length bs \<le> i"
  shows "whole X A (mem_write m p bs)"
proof -
  obtain a where "a \<in> A" "\<forall>i\<in>X. m i = a i" using assms(1) unfolding whole_def by blast
  then have "\<forall>i\<in>X. mem_write m p bs i = a i" using assms(2) by (simp add: mem_write_outside)
  then show ?thesis unfolding whole_def using \<open>a \<in> A\<close> by blast
qed

lemma poss_store_outside:
  assumes "one_word X" and "poss d X A" and "\<And>i. i \<in> X \<Longrightarrow> i < p \<or> p + length bs \<le> i"
  shows "poss (store p bs d) X A"
  unfolding store_def using assms
  by (intro poss_tick poss_view(1) whole_write_outside) (simp_all add: poss_def)

lemma poss_stream_outside:
  assumes "one_word X" and "poss d X A" and out: "\<And>i. i \<in> X \<Longrightarrow> i < p \<or> p + length bs \<le> i"
  shows "poss (stream p bs d) X A"
proof -
  have "\<forall>i\<in>X. (if p \<le> i \<and> i < p + length bs \<and> \<not> pm_failed d then Some (bs ! (i - p)) else pm_inflight d i) = pm_inflight d i"
    using out by force
  moreover have "whole_opt X A (pm_inflight d)" using assms(2) by (simp add: poss_def)
  ultimately have "whole_opt X A (\<lambda>i. if p \<le> i \<and> i < p + length bs \<and> \<not> pm_failed d then Some (bs ! (i - p)) else pm_inflight d i)"
    by (rule whole_opt_cong)
  then show ?thesis
    using assms unfolding stream_def
    by (intro poss_tick poss_view(2) whole_write_outside) (simp_all add: poss_def)
qed

text \<open>A store over the whole set adds its contents to the possible ones.\<close>

lemma poss_store:
  assumes "one_word X" and "poss d X A"
  shows "poss (store p bs d) X (insert (mem_write (pm_view d) p bs) A)"
proof -
  have "poss d X (insert (mem_write (pm_view d) p bs) A)" by (rule poss_mono [OF assms(2)]) blast
  then show ?thesis unfolding store_def by (intro poss_tick assms(1) poss_view(1)) (auto simp: whole_def)
qed

end
