(* ===== verification/Pmem.thy ===== *)
theory Pmem
  imports Pmem_Machine Util
begin

text \<open>
  The persistence primitives of \<open>src/libpmem/pmem.c\<close>: flushing, draining, copying and setting
  ranges of persistent memory, detecting it, and the choice of instructions at load time.
  Addresses are natural numbers; where the source relies on the wrap-around of pointer
  subtraction it is written out.  The function pointers that \<open>pmem_init\<close> sets are the record
  \<open>pmem_lib\<close>.  The lines of \<open>/proc/self/smaps\<close> are taken as \<open>sscanf\<close> and
  \<open>strncmp\<close> classify them.
\<close>

section \<open>Function pointers\<close>

datatype fence_func = Predrain_fence_empty | Predrain_fence_sfence
datatype drain_func = Drain_no_pcommit | Drain_pcommit
datatype flush_func = Flush_clflush | Flush_clwb | Flush_clflushopt
datatype is_pmem_func = Is_pmem_never | Is_pmem_always | Is_pmem_proc
datatype copy_func = Nodrain_normal | Nodrain_movnt

record pmem_lib =
  Func_predrain_fence :: fence_func
  Func_drain :: drain_func
  Func_flush :: flush_func
  Func_is_pmem :: is_pmem_func
  Func_memmove_nodrain :: copy_func
  Func_memset_nodrain :: copy_func
  Has_hw_drain :: bool

section \<open>Draining and flushing\<close>

definition pmem_has_hw_drain :: "pmem_lib \<Rightarrow> bool" where
  "pmem_has_hw_drain c = Has_hw_drain c"

definition predrain_fence :: "pmem_lib \<Rightarrow> pmdev \<Rightarrow> pmdev" where
  "predrain_fence c d =
     (case Func_predrain_fence c of Predrain_fence_empty \<Rightarrow> d | Predrain_fence_sfence \<Rightarrow> sfence d)"

definition drain_no_pcommit :: "pmem_lib \<Rightarrow> pmdev \<Rightarrow> pmdev" where
  "drain_no_pcommit c d = predrain_fence c d"

definition drain_pcommit :: "pmem_lib \<Rightarrow> pmdev \<Rightarrow> pmdev" where
  "drain_pcommit c d = sfence (pcommit (predrain_fence c d))"

definition pmem_drain :: "pmem_lib \<Rightarrow> pmdev \<Rightarrow> pmdev" where
  "pmem_drain c d =
     (case Func_drain c of Drain_no_pcommit \<Rightarrow> drain_no_pcommit c d | Drain_pcommit \<Rightarrow> drain_pcommit c d)"

function flush_loop :: "(nat \<Rightarrow> pmdev \<Rightarrow> pmdev) \<Rightarrow> nat \<Rightarrow> nat \<Rightarrow> pmdev \<Rightarrow> pmdev" where
  "flush_loop ins uptr stop d = (if uptr < stop then flush_loop ins (uptr + 64) stop (ins uptr d) else d)"
  by pat_completeness auto
termination
  by (relation "measure (\<lambda>(ins, uptr, stop, d). stop - uptr)") auto

declare flush_loop.simps [simp del]

definition flush_clflush :: "nat \<Rightarrow> nat \<Rightarrow> pmdev \<Rightarrow> pmdev" where
  "flush_clflush addr len = flush_loop clflush (addr div 64 * 64) (addr + len)"

definition flush_clwb :: "nat \<Rightarrow> nat \<Rightarrow> pmdev \<Rightarrow> pmdev" where
  "flush_clwb addr len = flush_loop clwb (addr div 64 * 64) (addr + len)"

definition flush_clflushopt :: "nat \<Rightarrow> nat \<Rightarrow> pmdev \<Rightarrow> pmdev" where
  "flush_clflushopt addr len = flush_loop clflushopt (addr div 64 * 64) (addr + len)"

definition pmem_flush :: "pmem_lib \<Rightarrow> nat \<Rightarrow> nat \<Rightarrow> pmdev \<Rightarrow> pmdev" where
  "pmem_flush c addr len =
     (case Func_flush c of
        Flush_clflush \<Rightarrow> flush_clflush addr len
      | Flush_clwb \<Rightarrow> flush_clwb addr len
      | Flush_clflushopt \<Rightarrow> flush_clflushopt addr len)"

definition pmem_persist :: "pmem_lib \<Rightarrow> nat \<Rightarrow> nat \<Rightarrow> pmdev \<Rightarrow> pmdev" where
  "pmem_persist c addr len d = pmem_drain c (pmem_flush c addr len d)"

definition Pagesize :: nat where "Pagesize = 4096"

definition pmem_msync :: "nat \<Rightarrow> nat \<Rightarrow> pmdev \<Rightarrow> pmdev" where
  "pmem_msync addr len =
     (let len' = len + addr mod Pagesize; uptr = addr div Pagesize * Pagesize in msync Pagesize uptr len')"

section \<open>Detecting persistent memory\<close>

datatype smaps_line = Smaps_range u64 u64 | Smaps_vmflags bool | Smaps_other

text \<open>The arguments are the lines left to read, \<open>caddr\<close>, \<open>len\<close> and \<open>needmm\<close>.\<close>

fun is_pmem_loop :: "smaps_line list \<Rightarrow> u64 \<Rightarrow> u64 \<Rightarrow> bool \<Rightarrow> bool" where
  "is_pmem_loop [] caddr len needmm = False"
| "is_pmem_loop (Smaps_range lo hi # ls) caddr len needmm =
     (if needmm then False
      else if caddr < lo then False
      else if caddr < hi then
        let rangelen = hi - caddr in
        if rangelen < len then is_pmem_loop ls (caddr + rangelen) (len - rangelen) True
        else is_pmem_loop ls caddr 0 True
      else is_pmem_loop ls caddr len needmm)"
| "is_pmem_loop (Smaps_vmflags mm # ls) caddr len needmm =
     (if needmm then
        if mm then if len = 0 then True else is_pmem_loop ls caddr len False
        else False
      else is_pmem_loop ls caddr len needmm)"
| "is_pmem_loop (Smaps_other # ls) caddr len needmm = is_pmem_loop ls caddr len needmm"

definition is_pmem_proc :: "smaps_line list option \<Rightarrow> u64 \<Rightarrow> u64 \<Rightarrow> bool" where
  "is_pmem_proc smaps addr len = (case smaps of None \<Rightarrow> False | Some ls \<Rightarrow> is_pmem_loop ls addr len False)"

definition pmem_is_pmem :: "pmem_lib \<Rightarrow> smaps_line list option \<Rightarrow> u64 \<Rightarrow> u64 \<Rightarrow> bool" where
  "pmem_is_pmem c smaps addr len =
     (case Func_is_pmem c of
        Is_pmem_never \<Rightarrow> False | Is_pmem_always \<Rightarrow> True | Is_pmem_proc \<Rightarrow> is_pmem_proc smaps addr len)"

section \<open>Copying\<close>

text \<open>\<open>n\<close> units of \<open>sz\<close> bytes, upwards from the addresses or downwards below them.\<close>

fun copy_fwd :: "nat \<Rightarrow> (nat \<Rightarrow> byte list \<Rightarrow> pmdev \<Rightarrow> pmdev) \<Rightarrow> nat \<Rightarrow> nat \<Rightarrow> nat \<Rightarrow> pmdev \<Rightarrow> pmdev" where
  "copy_fwd sz wr 0 d s dev = dev"
| "copy_fwd sz wr (Suc n) d s dev = copy_fwd sz wr n (d + sz) (s + sz) (wr d (mem_read (pm_view dev) s sz) dev)"

fun copy_bwd :: "nat \<Rightarrow> (nat \<Rightarrow> byte list \<Rightarrow> pmdev \<Rightarrow> pmdev) \<Rightarrow> nat \<Rightarrow> nat \<Rightarrow> nat \<Rightarrow> pmdev \<Rightarrow> pmdev" where
  "copy_bwd sz wr 0 d s dev = dev"
| "copy_bwd sz wr (Suc n) d s dev =
     copy_bwd sz wr n (d - sz) (s - sz) (wr (d - sz) (mem_read (pm_view dev) (s - sz) sz) dev)"

text \<open>Eight registers of 16 bytes, streamed in the given order.\<close>

definition stream_regs :: "nat list \<Rightarrow> nat \<Rightarrow> byte list \<Rightarrow> pmdev \<Rightarrow> pmdev" where
  "stream_regs ks p bs = fold (\<lambda>k. stream (p + 16 * k) (take 16 (drop (16 * k) bs))) ks"

abbreviation regs_up :: "nat list" where "regs_up \<equiv> [0..<8]"
abbreviation regs_down :: "nat list" where "regs_down \<equiv> rev [0..<8]"

definition memmove_nodrain_normal :: "pmem_lib \<Rightarrow> nat \<Rightarrow> nat \<Rightarrow> nat \<Rightarrow> pmdev \<Rightarrow> nat \<times> pmdev" where
  "memmove_nodrain_normal c pmemdest src len dev =
     (pmemdest, pmem_flush c pmemdest len (store pmemdest (mem_read (pm_view dev) src len) dev))"

text \<open>
  The loop over the bytes up to the next cache line leaves \<open>d8\<close> behind the copied bytes, and
  that is the address the source passes to \<open>pmem_flush\<close>.
\<close>

definition movnt_forward :: "pmem_lib \<Rightarrow> nat \<Rightarrow> nat \<Rightarrow> nat \<Rightarrow> pmdev \<Rightarrow> pmdev" where
  "movnt_forward c dest src len dev =
     (let cnt = (if 0 < dest mod 64 then min (64 - dest mod 64) len else 0);
          dev1 = (if 0 < dest mod 64 then pmem_flush c (dest + cnt) cnt (copy_fwd 1 store cnt dest src dev) else dev);
          d1 = dest + cnt; s1 = src + cnt; len1 = len - cnt;
          dev2 = copy_fwd 128 (stream_regs regs_up) (len1 div 128) d1 s1 dev1;
          d2 = d1 + 128 * (len1 div 128); s2 = s1 + 128 * (len1 div 128); len2 = len1 mod 128;
          dev3 = copy_fwd 16 stream (len2 div 16) d2 s2 dev2;
          d3 = d2 + 16 * (len2 div 16); s3 = s2 + 16 * (len2 div 16); len3 = len2 mod 16;
          dev4 = copy_fwd 4 stream (len3 div 4) d3 s3 dev3;
          d4 = d3 + 4 * (len3 div 4); s4 = s3 + 4 * (len3 div 4); len4 = len3 mod 4 in
      if len3 = 0 then dev3
      else pmem_flush c (d4 + len4) len4 (copy_fwd 1 store len4 d4 s4 dev4))"

definition movnt_backward :: "pmem_lib \<Rightarrow> nat \<Rightarrow> nat \<Rightarrow> nat \<Rightarrow> pmdev \<Rightarrow> pmdev" where
  "movnt_backward c dest src len dev =
     (let cnt = min ((dest + len) mod 64) len;
          dev1 = (if 0 < (dest + len) mod 64
                  then pmem_flush c (dest + len - cnt) cnt (copy_bwd 1 store cnt (dest + len) (src + len) dev) else dev);
          d1 = dest + len - cnt; s1 = src + len - cnt; len1 = len - cnt;
          dev2 = copy_bwd 128 (stream_regs regs_down) (len1 div 128) d1 s1 dev1;
          d2 = d1 - 128 * (len1 div 128); s2 = s1 - 128 * (len1 div 128); len2 = len1 mod 128;
          dev3 = copy_bwd 16 stream (len2 div 16) d2 s2 dev2;
          d3 = d2 - 16 * (len2 div 16); s3 = s2 - 16 * (len2 div 16); len3 = len2 mod 16;
          dev4 = copy_bwd 4 stream (len3 div 4) d3 s3 dev3;
          d4 = d3 - 4 * (len3 div 4); s4 = s3 - 4 * (len3 div 4); len4 = len3 mod 4 in
      if len3 = 0 then dev3
      else pmem_flush c (d4 - len4) len4 (copy_bwd 1 store len4 d4 s4 dev4))"

text \<open>The result 0 is \<open>NULL\<close>.\<close>

definition memmove_nodrain_movnt :: "pmem_lib \<Rightarrow> nat \<Rightarrow> nat \<Rightarrow> nat \<Rightarrow> pmdev \<Rightarrow> nat \<times> pmdev" where
  "memmove_nodrain_movnt c pmemdest src len dev =
     (if len = 0 then (0, dev)
      else if src = pmemdest then (pmemdest, dev)
      else if len \<le> (2 ^ 64 + pmemdest - src) mod 2 ^ 64 then (pmemdest, movnt_forward c pmemdest src len dev)
      else (pmemdest, movnt_backward c pmemdest src len dev))"

definition pmem_memmove_nodrain :: "pmem_lib \<Rightarrow> nat \<Rightarrow> nat \<Rightarrow> nat \<Rightarrow> pmdev \<Rightarrow> nat \<times> pmdev" where
  "pmem_memmove_nodrain c pmemdest src len dev =
     (case Func_memmove_nodrain c of
        Nodrain_normal \<Rightarrow> memmove_nodrain_normal c pmemdest src len dev
      | Nodrain_movnt \<Rightarrow> memmove_nodrain_movnt c pmemdest src len dev)"

definition pmem_memcpy_nodrain :: "pmem_lib \<Rightarrow> nat \<Rightarrow> nat \<Rightarrow> nat \<Rightarrow> pmdev \<Rightarrow> nat \<times> pmdev" where
  "pmem_memcpy_nodrain c pmemdest src len dev = pmem_memmove_nodrain c pmemdest src len dev"

definition pmem_memmove_persist :: "pmem_lib \<Rightarrow> nat \<Rightarrow> nat \<Rightarrow> nat \<Rightarrow> pmdev \<Rightarrow> nat \<times> pmdev" where
  "pmem_memmove_persist c pmemdest src len dev =
     (case pmem_memmove_nodrain c pmemdest src len dev of (retval, dev') \<Rightarrow> (retval, pmem_drain c dev'))"

definition pmem_memcpy_persist :: "pmem_lib \<Rightarrow> nat \<Rightarrow> nat \<Rightarrow> nat \<Rightarrow> pmdev \<Rightarrow> nat \<times> pmdev" where
  "pmem_memcpy_persist c pmemdest src len dev =
     (case pmem_memcpy_nodrain c pmemdest src len dev of (retval, dev') \<Rightarrow> (retval, pmem_drain c dev'))"

section \<open>Setting\<close>

definition memset_nodrain_normal :: "pmem_lib \<Rightarrow> nat \<Rightarrow> byte \<Rightarrow> nat \<Rightarrow> pmdev \<Rightarrow> nat \<times> pmdev" where
  "memset_nodrain_normal c pmemdest v len dev =
     (pmemdest, pmem_flush c pmemdest len (store pmemdest (replicate len v) dev))"

fun set_fwd :: "nat \<Rightarrow> (nat \<Rightarrow> byte list \<Rightarrow> pmdev \<Rightarrow> pmdev) \<Rightarrow> byte \<Rightarrow> nat \<Rightarrow> nat \<Rightarrow> pmdev \<Rightarrow> pmdev" where
  "set_fwd sz wr v 0 d dev = dev"
| "set_fwd sz wr v (Suc n) d dev = set_fwd sz wr v n (d + sz) (wr d (replicate sz v) dev)"

definition memset_nodrain_movnt :: "pmem_lib \<Rightarrow> nat \<Rightarrow> byte \<Rightarrow> nat \<Rightarrow> pmdev \<Rightarrow> nat \<times> pmdev" where
  "memset_nodrain_movnt c pmemdest v len dev =
     (let cnt = (if pmemdest mod 64 \<noteq> 0 then min (64 - pmemdest mod 64) len else 0);
          dev1 = (if pmemdest mod 64 \<noteq> 0 then pmem_flush c pmemdest cnt (store pmemdest (replicate cnt v) dev) else dev);
          d1 = pmemdest + cnt; len1 = len - cnt;
          dev2 = set_fwd 128 (stream_regs regs_up) v (len1 div 128) d1 dev1;
          d2 = d1 + 128 * (len1 div 128); len2 = len1 mod 128;
          dev3 = set_fwd 16 stream v (len2 div 16) d2 dev2;
          d3 = d2 + 16 * (len2 div 16); len3 = len2 mod 16;
          dev4 = set_fwd 4 stream v (len3 div 4) d3 dev3;
          d4 = d3 + 4 * (len3 div 4); len4 = len3 mod 4 in
      (pmemdest, if len4 = 0 then dev4 else pmem_flush c d4 len4 (store d4 (replicate len4 v) dev4)))"

definition pmem_memset_nodrain :: "pmem_lib \<Rightarrow> nat \<Rightarrow> byte \<Rightarrow> nat \<Rightarrow> pmdev \<Rightarrow> nat \<times> pmdev" where
  "pmem_memset_nodrain c pmemdest v len dev =
     (case Func_memset_nodrain c of
        Nodrain_normal \<Rightarrow> memset_nodrain_normal c pmemdest v len dev
      | Nodrain_movnt \<Rightarrow> memset_nodrain_movnt c pmemdest v len dev)"

definition pmem_memset_persist :: "pmem_lib \<Rightarrow> nat \<Rightarrow> byte \<Rightarrow> nat \<Rightarrow> pmdev \<Rightarrow> nat \<times> pmdev" where
  "pmem_memset_persist c pmemdest v len dev =
     (case pmem_memset_nodrain c pmemdest v len dev of (retval, dev') \<Rightarrow> (retval, pmem_drain c dev'))"

section \<open>Load-time choices: pmem_init\<close>

fun strstr :: "string \<Rightarrow> string \<Rightarrow> bool" where
  "strstr [] needle = (needle = [])"
| "strstr (ch # hay) needle = (take (length needle) (ch # hay) = needle \<or> strstr hay needle)"

definition nl_to_space :: "string \<Rightarrow> string" where
  "nl_to_space line =
     (let nl = CHR 0x0A in
      if nl \<in> set line
      then rev (tl (dropWhile (\<lambda>ch. ch \<noteq> nl) (rev line))) @ '' '' @ rev (takeWhile (\<lambda>ch. ch \<noteq> nl) (rev line))
      else line)"

definition flags_prefix :: string where
  "flags_prefix = ''flags'' @ [CHR 0x09, CHR 0x09] @ '': ''"

definition initial_lib :: pmem_lib where
  "initial_lib = \<lparr>Func_predrain_fence = Predrain_fence_empty, Func_drain = Drain_no_pcommit, Func_flush = Flush_clflush,
     Func_is_pmem = Is_pmem_never, Func_memmove_nodrain = Nodrain_normal, Func_memset_nodrain = Nodrain_normal,
     Has_hw_drain = False\<rparr>"

text \<open>
  The features on the line of flags.  The inner variable \<open>flags\<close> hides the array of the same
  name, so that its size is that of a pointer and the search starts at the eighth character.
\<close>

definition init_features :: "(string \<Rightarrow> string option) \<Rightarrow> string \<Rightarrow> pmem_lib \<Rightarrow> pmem_lib" where
  "init_features getenv line c0 =
     (let flags = drop 7 (nl_to_space line);
          c1 = (if strstr flags '' clflush '' then c0\<lparr>Func_is_pmem := Is_pmem_proc\<rparr> else c0);
          c2 = (if strstr flags '' clwb '' \<and> getenv ''PMEM_NO_CLWB'' \<noteq> Some ''1''
                then c1\<lparr>Func_flush := Flush_clwb, Func_predrain_fence := Predrain_fence_sfence\<rparr> else c1);
          c3 = (if strstr flags '' clflushopt '' \<and> getenv ''PMEM_NO_CLFLUSHOPT'' \<noteq> Some ''1''
                then c2\<lparr>Func_flush := Flush_clflushopt, Func_predrain_fence := Predrain_fence_sfence\<rparr> else c2);
          c4 = (if strstr flags '' pcommit '' \<and> getenv ''PMEM_NO_PCOMMIT'' \<noteq> Some ''1''
                then c3\<lparr>Func_drain := Drain_pcommit, Has_hw_drain := True\<rparr> else c3);
          c5 = (if strstr flags '' sse2 '' \<and> getenv ''PMEM_NO_MOVNT'' \<noteq> Some ''1''
                then c4\<lparr>Func_memmove_nodrain := Nodrain_movnt, Func_memset_nodrain := Nodrain_movnt\<rparr> else c4) in
      c5)"

fun init_loop :: "(string \<Rightarrow> string option) \<Rightarrow> string list \<Rightarrow> pmem_lib \<Rightarrow> pmem_lib" where
  "init_loop getenv [] c = c"
| "init_loop getenv (line # ls) c =
     (if take 9 line = flags_prefix then init_features getenv line c else init_loop getenv ls c)"

text \<open>\<open>atoi\<close> gives the value of the forced setting.\<close>

definition pmem_init :: "(string \<Rightarrow> int) \<Rightarrow> (string \<Rightarrow> string option) \<Rightarrow> string list option \<Rightarrow> pmem_lib" where
  "pmem_init atoi getenv cpuinfo =
     (let c = (case cpuinfo of None \<Rightarrow> initial_lib | Some ls \<Rightarrow> init_loop getenv ls initial_lib) in
      case getenv ''PMEM_IS_PMEM_FORCE'' of
        None \<Rightarrow> c
      | Some v \<Rightarrow>
          if atoi v = 0 then c\<lparr>Func_is_pmem := Is_pmem_never\<rparr>
          else if atoi v = 1 then c\<lparr>Func_is_pmem := Is_pmem_always\<rparr>
          else c)"

end
