(* ===== verification/Pmem_Copy.thy ===== *)
theory Pmem_Copy
  imports Pmem_Persist
begin

text \<open>
  The streaming versions of \<open>memmove\<close> and \<open>memset\<close>: which bytes they write, in both
  copying directions and for overlapping ranges, and which of them a following drain makes
  durable.
\<close>

section \<open>Copying in parts\<close>

definition mcopy :: "nat \<Rightarrow> nat \<Rightarrow> nat \<Rightarrow> mem \<Rightarrow> mem" where
  "mcopy d s n v = mem_write v d (mem_read v s n)"

lemma mcopy_0 [simp]: "mcopy d s 0 v = v"
  by (simp add: mcopy_def)

lemma mcopy_fwd:
  assumes "d \<le> s \<or> s + (a + b) \<le> d"
  shows "mcopy (d + a) (s + a) b (mcopy d s a v) = mcopy d s (a + b) v"
proof -
  have "mem_read (mcopy d s a v) (s + a) b = mem_read v (s + a) b"
    using assms unfolding mcopy_def by (intro mem_read_cong) (auto simp: mem_write_outside)
  then show ?thesis by (simp add: mcopy_def mem_read_append mem_write_append)
qed

lemma mcopy_bwd:
  assumes "s \<le> d"
  shows "mcopy d s a (mcopy (d + a) (s + a) b v) = mcopy d s (a + b) v"
proof -
  have "mem_read (mcopy (d + a) (s + a) b v) s a = mem_read v s a"
    using assms unfolding mcopy_def by (intro mem_read_cong) (auto simp: mem_write_outside)
  then show ?thesis
    unfolding mcopy_def mem_read_append
    by (auto simp: fun_eq_iff mem_write_def nth_append add.commute)
qed

section \<open>Loops over units\<close>

text \<open>A way of writing a unit: it changes the view as a store does.\<close>

definition writer :: "nat \<Rightarrow> (nat \<Rightarrow> byte list \<Rightarrow> pmdev \<Rightarrow> pmdev) \<Rightarrow> bool" where
  "writer sz wr \<longleftrightarrow> (\<forall>p bs dev. length bs = sz \<longrightarrow> pm_view (wr p bs dev) = mem_write (pm_view dev) p bs \<and>
     (\<forall>c i. flushed c dev i \<and> (i < p \<or> p + sz \<le> i) \<longrightarrow> flushed c (wr p bs dev) i))"

text \<open>A way of writing that leaves nothing to flush when a fence precedes the drain.\<close>

definition streamer :: "nat \<Rightarrow> (nat \<Rightarrow> byte list \<Rightarrow> pmdev \<Rightarrow> pmdev) \<Rightarrow> bool" where
  "streamer sz wr \<longleftrightarrow> writer sz wr \<and> (\<forall>p bs dev c i. length bs = sz \<and> Func_predrain_fence c = Predrain_fence_sfence \<and>
     p \<le> i \<and> i < p + sz \<longrightarrow> flushed c (wr p bs dev) i)"

lemma writer_view: "writer sz wr \<Longrightarrow> length bs = sz \<Longrightarrow> pm_view (wr p bs dev) = mem_write (pm_view dev) p bs"
  by (simp add: writer_def)

lemma writer_store: "writer sz store"
  by (simp add: writer_def flushed_store)

lemma streamer_stream: "streamer sz stream"
  by (auto simp: streamer_def writer_def flushed_stream stream_flushed)

lemma streamer_writer: "streamer sz wr \<Longrightarrow> writer sz wr"
  by (simp add: streamer_def)

lemma copy_fwd_view:
  "writer sz wr \<Longrightarrow> d \<le> s \<or> s + sz * n \<le> d \<Longrightarrow>
   pm_view (copy_fwd sz wr n d s dev) = mcopy d s (sz * n) (pm_view dev)"
proof (induction n arbitrary: d s dev)
  case (Suc n)
  have "pm_view (copy_fwd sz wr (Suc n) d s dev) = mcopy (d + sz) (s + sz) (sz * n) (mcopy d s sz (pm_view dev))"
    using Suc.IH [OF Suc.prems(1), of "d + sz" "s + sz"] Suc.prems by (auto simp: writer_view mcopy_def)
  also have "\<dots> = mcopy d s (sz + sz * n) (pm_view dev)" using Suc.prems(2) by (intro mcopy_fwd) auto
  finally show ?case by simp
qed simp

lemma copy_bwd_view:
  "writer sz wr \<Longrightarrow> s \<le> d \<Longrightarrow> sz * n \<le> s \<Longrightarrow>
   pm_view (copy_bwd sz wr n d s dev) = mcopy (d - sz * n) (s - sz * n) (sz * n) (pm_view dev)"
proof (induction n arbitrary: d s dev)
  case (Suc n)
  have "pm_view (copy_bwd sz wr (Suc n) d s dev) =
      mcopy (d - sz - sz * n) (s - sz - sz * n) (sz * n) (mcopy (d - sz) (s - sz) sz (pm_view dev))"
    using Suc.prems by (simp add: Suc.IH writer_view mcopy_def)
  also have "\<dots> = mcopy (d - sz - sz * n) (s - sz - sz * n) (sz * n)
      (mcopy (d - sz - sz * n + sz * n) (s - sz - sz * n + sz * n) sz (pm_view dev))"
    using Suc.prems by simp
  also have "\<dots> = mcopy (d - sz - sz * n) (s - sz - sz * n) (sz * n + sz) (pm_view dev)"
    using Suc.prems by (intro mcopy_bwd) auto
  finally show ?case by (simp add: add.commute)
qed simp

lemma copy_fwd_keeps:
  "writer sz wr \<Longrightarrow> flushed c dev i \<Longrightarrow> i < d \<or> d + sz * n \<le> i \<Longrightarrow> flushed c (copy_fwd sz wr n d s dev) i"
  by (induction n arbitrary: d s dev) (auto simp: writer_def)

lemma copy_bwd_keeps:
  "writer sz wr \<Longrightarrow> flushed c dev i \<Longrightarrow> i < d - sz * n \<or> d \<le> i \<Longrightarrow> sz * n \<le> d \<Longrightarrow> flushed c (copy_bwd sz wr n d s dev) i"
proof (induction n arbitrary: d s dev)
  case (Suc n)
  have "i < d - sz \<or> d - sz + sz \<le> i" using Suc.prems(3,4) by auto
  then have "flushed c (wr (d - sz) (mem_read (pm_view dev) (s - sz) sz) dev) i"
    using Suc.prems(1,2) by (simp add: writer_def)
  then show ?case using Suc.prems by (auto intro!: Suc.IH)
qed simp

lemma copy_fwd_flushed:
  assumes "streamer sz wr" and "Func_predrain_fence c = Predrain_fence_sfence"
  shows "d \<le> i \<Longrightarrow> i < d + sz * n \<Longrightarrow> flushed c (copy_fwd sz wr n d s dev) i"
proof (induction n arbitrary: d s dev)
  case (Suc n)
  let ?dev = "wr d (mem_read (pm_view dev) s sz) dev"
  show ?case
  proof (cases "i < d + sz")
    case True
    then have "flushed c ?dev i" using assms Suc.prems(1) by (simp add: streamer_def)
    then show ?thesis using True copy_fwd_keeps [OF streamer_writer [OF assms(1)]] by simp
  next
    case False
    then show ?thesis using Suc.prems by (simp add: Suc.IH)
  qed
qed simp

lemma copy_bwd_flushed:
  assumes "streamer sz wr" and "Func_predrain_fence c = Predrain_fence_sfence"
  shows "d - sz * n \<le> i \<Longrightarrow> i < d \<Longrightarrow> sz * n \<le> d \<Longrightarrow> flushed c (copy_bwd sz wr n d s dev) i"
proof (induction n arbitrary: d s dev)
  case (Suc n)
  let ?dev = "wr (d - sz) (mem_read (pm_view dev) (s - sz) sz) dev"
  show ?case
  proof (cases "d - sz \<le> i")
    case True
    then have "flushed c ?dev i" using assms Suc.prems by (simp add: streamer_def)
    then show ?thesis using True Suc.prems(3) copy_bwd_keeps [OF streamer_writer [OF assms(1)]] by simp
  next
    case False
    then show ?thesis using Suc.prems by (simp add: Suc.IH)
  qed
qed simp

section \<open>Eight registers at a time\<close>

lemma stream_regs_view:
  assumes "\<And>k. k \<in> set ks \<Longrightarrow> 16 * k + 16 \<le> length bs"
  shows "pm_view (stream_regs ks p bs dev) i =
    (if \<exists>k\<in>set ks. p + 16 * k \<le> i \<and> i < p + 16 * k + 16 then bs ! (i - p) else pm_view dev i)"
  using assms
proof (induction ks arbitrary: dev)
  case (Cons k ks)
  let ?dev = "stream (p + 16 * k) (take 16 (drop (16 * k) bs)) dev"
  have "stream_regs (k # ks) p bs dev = stream_regs ks p bs ?dev" by (simp add: stream_regs_def)
  moreover have "pm_view ?dev i = (if p + 16 * k \<le> i \<and> i < p + 16 * k + 16 then bs ! (i - p) else pm_view dev i)"
    using Cons.prems [of k] by (auto simp: mem_write_def)
  ultimately show ?case using Cons by auto
qed (simp add: stream_regs_def)

lemma stream_regs_keeps:
  "flushed c dev i \<Longrightarrow> (\<And>k. k \<in> set ks \<Longrightarrow> 16 * k + 16 \<le> length bs) \<Longrightarrow> i < p \<or> p + length bs \<le> i \<Longrightarrow>
   flushed c (stream_regs ks p bs dev) i"
proof (induction ks arbitrary: dev)
  case (Cons k ks)
  have "flushed c (stream (p + 16 * k) (take 16 (drop (16 * k) bs)) dev) i"
    using Cons.prems(1,3) Cons.prems(2) [of k] by (intro flushed_stream) auto
  then show ?case using Cons by (simp add: stream_regs_def)
qed (simp add: stream_regs_def)

lemma stream_regs_flushed:
  assumes "Func_predrain_fence c = Predrain_fence_sfence"
  shows "(\<And>k. k \<in> set ks \<Longrightarrow> 16 * k + 16 \<le> length bs) \<Longrightarrow> flushed c dev i \<or> (\<exists>k\<in>set ks. p + 16 * k \<le> i \<and> i < p + 16 * k + 16) \<Longrightarrow>
   flushed c (stream_regs ks p bs dev) i"
proof (induction ks arbitrary: dev)
  case (Cons k ks)
  let ?dev = "stream (p + 16 * k) (take 16 (drop (16 * k) bs)) dev"
  have len: "length (take 16 (drop (16 * k) bs)) = 16" using Cons.prems(1) [of k] by simp
  have "flushed c ?dev i \<or> (\<exists>k\<in>set ks. p + 16 * k \<le> i \<and> i < p + 16 * k + 16)"
  proof (cases "p + 16 * k \<le> i \<and> i < p + 16 * k + 16")
    case True
    then show ?thesis using stream_flushed [OF assms, of "p + 16 * k" i "take 16 (drop (16 * k) bs)"] len by simp
  next
    case False
    then show ?thesis
      using Cons.prems(2) len flushed_stream [of c dev i "p + 16 * k" "take 16 (drop (16 * k) bs)"] by auto
  qed
  then show ?case using Cons by (simp add: stream_regs_def)
qed (simp add: stream_regs_def)

lemma regs_cover: "(\<exists>k\<in>{0..<8}. p + 16 * k \<le> i \<and> i < p + 16 * k + 16) \<longleftrightarrow> p \<le> i \<and> i < p + (128::nat)"
proof
  assume "p \<le> i \<and> i < p + 128"
  then have "(i - p) div 16 < 8" "p + 16 * ((i - p) div 16) \<le> i" "i < p + 16 * ((i - p) div 16) + 16" by auto
  then show "\<exists>k\<in>{0..<8}. p + 16 * k \<le> i \<and> i < p + 16 * k + 16" by (intro bexI [of _ "(i - p) div 16"]) auto
qed auto

lemma streamer_regs:
  assumes "set ks = {0..<8}"
  shows "streamer 128 (stream_regs ks)"
proof -
  have range: "16 * k + 16 \<le> (128::nat)" if "k \<in> set ks" for k using that assms by auto
  have "pm_view (stream_regs ks p bs dev) = mem_write (pm_view dev) p bs" if "length bs = 128" for p bs dev
    using stream_regs_view [of ks bs p dev] range that regs_cover [of p]
    by (simp add: fun_eq_iff mem_write_def assms)
  moreover have "flushed c (stream_regs ks p bs dev) i"
    if "length bs = 128" "Func_predrain_fence c = Predrain_fence_sfence" "p \<le> i" "i < p + 128" for c p bs dev i
    using stream_regs_flushed [OF that(2), of ks bs dev i p] that range regs_cover [of p i] by (simp add: assms)
  ultimately show ?thesis using stream_regs_keeps range unfolding streamer_def writer_def by simp
qed

section \<open>The view after a copy\<close>

lemmas unit_views = copy_fwd_view [OF writer_store] copy_fwd_view [OF streamer_writer [OF streamer_stream]]
  copy_fwd_view [OF streamer_writer [OF streamer_regs]]
  copy_bwd_view [OF writer_store] copy_bwd_view [OF streamer_writer [OF streamer_stream]]
  copy_bwd_view [OF streamer_writer [OF streamer_regs]]

text \<open>The parts of a length: whole registers of eight, registers, double words and bytes.\<close>

lemma length_parts: "(n::nat) = 128 * (n div 128) + (16 * (n mod 128 div 16) + (4 * (n mod 128 mod 16 div 4) + n mod 128 mod 16 mod 4))"
  by simp

lemma movnt_forward_view:
  assumes "dest \<le> src \<or> src + len \<le> dest"
  shows "pm_view (movnt_forward c dest src len dev) = mcopy dest src len (pm_view dev)"
proof -
  define cnt where "cnt = (if 0 < dest mod 64 then min (64 - dest mod 64) len else 0)"
  define n where "n = len - cnt"
  define a where "a = 128 * (n div 128)"
  define b where "b = 16 * (n mod 128 div 16)"
  define e where "e = 4 * (n mod 128 mod 16 div 4)"
  define f where "f = n mod 128 mod 16 mod 4"
  have n: "n = a + (b + (e + f))" unfolding a_def b_def e_def f_def by (rule length_parts)
  have len: "len = cnt + (a + (b + (e + f)))" using n unfolding n_def cnt_def by auto
  have ok: "dest + k \<le> src + k \<or> src + k + j \<le> dest + k" if "k + j \<le> len" for k j using assms that by auto
  have "pm_view (movnt_forward c dest src len dev) =
      mcopy (dest + cnt + a + b + e) (src + cnt + a + b + e) f (mcopy (dest + cnt + a + b) (src + cnt + a + b) e
        (mcopy (dest + cnt + a) (src + cnt + a) b (mcopy (dest + cnt) (src + cnt) a (mcopy dest src cnt (pm_view dev)))))"
  proof -
    have "pm_view (copy_fwd 1 store cnt dest src dev) = mcopy dest src cnt (pm_view dev)"
      using ok [of 0 cnt] len by (subst unit_views) auto
    moreover have "pm_view (copy_fwd 128 (stream_regs regs_up) (n div 128) (dest + cnt) (src + cnt) dev') =
        mcopy (dest + cnt) (src + cnt) a (pm_view dev')" for dev'
      using ok [of cnt a] len by (subst unit_views) (auto simp: a_def)
    moreover have "pm_view (copy_fwd 16 stream (n mod 128 div 16) (dest + cnt + a) (src + cnt + a) dev') =
        mcopy (dest + cnt + a) (src + cnt + a) b (pm_view dev')" for dev'
      using ok [of "cnt + a" b] len by (subst unit_views) (auto simp: b_def add.assoc)
    moreover have "pm_view (copy_fwd 4 stream (n mod 128 mod 16 div 4) (dest + cnt + a + b) (src + cnt + a + b) dev') =
        mcopy (dest + cnt + a + b) (src + cnt + a + b) e (pm_view dev')" for dev'
      using ok [of "cnt + a + b" e] len by (subst unit_views) (auto simp: e_def add.assoc)
    moreover have "pm_view (copy_fwd 1 store f (dest + cnt + a + b + e) (src + cnt + a + b + e) dev') =
        mcopy (dest + cnt + a + b + e) (src + cnt + a + b + e) f (pm_view dev')" for dev'
      using ok [of "cnt + a + b + e" f] len by (subst unit_views) (auto simp: add.assoc)
    moreover have "e = 0 \<and> f = 0" if "n mod 128 mod 16 = 0" using that by (simp add: e_def f_def)
    ultimately show ?thesis
      unfolding movnt_forward_def Let_def cnt_def [symmetric] n_def [symmetric] a_def [symmetric] b_def [symmetric]
        e_def [symmetric] f_def [symmetric]
      by (auto simp: cnt_def)
  qed
  also have "\<dots> = mcopy dest src len (pm_view dev)"
  proof -
    have step: "mcopy (dest + k) (src + k) j (mcopy dest src k v) = mcopy dest src (k + j) v" if "k + j \<le> len" for k j v
      using assms that by (intro mcopy_fwd) auto
    have "cnt + a \<le> len" "cnt + a + b \<le> len" "cnt + a + b + e \<le> len" "cnt + a + b + e + f = len" using len by auto
    then show ?thesis
      using step [of cnt a] step [of "cnt + a" b] step [of "cnt + a + b" e] step [of "cnt + a + b + e" f]
      by (simp add: add.assoc [symmetric])
  qed
  finally show ?thesis .
qed

lemma movnt_backward_view:
  assumes "src \<le> dest"
  shows "pm_view (movnt_backward c dest src len dev) = mcopy dest src len (pm_view dev)"
proof -
  define cnt where "cnt = min ((dest + len) mod 64) len"
  define n where "n = len - cnt"
  define a where "a = 128 * (n div 128)"
  define b where "b = 16 * (n mod 128 div 16)"
  define e where "e = 4 * (n mod 128 mod 16 div 4)"
  define f where "f = n mod 128 mod 16 mod 4"
  have n: "n = a + (b + (e + f))" unfolding a_def b_def e_def f_def by (rule length_parts)
  have len: "len = f + (e + (b + (a + cnt)))" using n unfolding n_def cnt_def by auto
  have at: "x + len - cnt = x + f + e + b + a" "x + len - cnt - a = x + f + e + b" "x + len - cnt - a - b = x + f + e"
    "x + len - cnt - a - b - e = x + f" "x + len - cnt - a - b - e - f = x" for x :: nat
    using len by auto
  have "pm_view (movnt_backward c dest src len dev) =
      mcopy dest src f (mcopy (dest + f) (src + f) e (mcopy (dest + f + e) (src + f + e) b
        (mcopy (dest + f + e + b) (src + f + e + b) a (mcopy (dest + f + e + b + a) (src + f + e + b + a) cnt (pm_view dev)))))"
  proof -
    have "pm_view (copy_bwd 1 store cnt (dest + len) (src + len) dev) =
        mcopy (dest + f + e + b + a) (src + f + e + b + a) cnt (pm_view dev)"
      using assms len by (subst unit_views) (auto simp: at add.assoc)
    moreover have "pm_view (copy_bwd 128 (stream_regs regs_down) (n div 128) (dest + f + e + b + a) (src + f + e + b + a) dev') =
        mcopy (dest + f + e + b) (src + f + e + b) a (pm_view dev')" for dev'
      using assms by (subst unit_views) (auto simp: a_def)
    moreover have "pm_view (copy_bwd 16 stream (n mod 128 div 16) (dest + f + e + b) (src + f + e + b) dev') =
        mcopy (dest + f + e) (src + f + e) b (pm_view dev')" for dev'
      using assms by (subst unit_views) (auto simp: b_def)
    moreover have "pm_view (copy_bwd 4 stream (n mod 128 mod 16 div 4) (dest + f + e) (src + f + e) dev') =
        mcopy (dest + f) (src + f) e (pm_view dev')" for dev'
      using assms by (subst unit_views) (auto simp: e_def)
    moreover have "pm_view (copy_bwd 1 store f (dest + f) (src + f) dev') = mcopy dest src f (pm_view dev')" for dev'
      using assms by (subst unit_views) auto
    moreover have "e = 0 \<and> f = 0" if "n mod 128 mod 16 = 0" using that by (simp add: e_def f_def)
    moreover have "cnt = 0" if "(dest + len) mod 64 = 0" using that by (simp add: cnt_def)
    ultimately show ?thesis
      unfolding movnt_backward_def Let_def cnt_def [symmetric] n_def [symmetric] a_def [symmetric] b_def [symmetric]
        e_def [symmetric] f_def [symmetric] at by auto
  qed
  also have "\<dots> = mcopy dest src len (pm_view dev)"
  proof -
    have step: "mcopy (dest + k) (src + k) j (mcopy (dest + k + j) (src + k + j) m v) = mcopy (dest + k) (src + k) (j + m) v" for k j m v
      using assms by (intro mcopy_bwd) auto
    show ?thesis
      using step [of "f + e + b" a cnt] step [of "f + e" b "a + cnt"] step [of f e "b + (a + cnt)"] step [of 0 f "e + (b + (a + cnt))"]
      by (simp add: add.assoc [symmetric] len)
  qed
  finally show ?thesis .
qed

text \<open>The test on the difference of the pointers chooses the direction that reads before it overwrites.\<close>

lemma direction:
  fixes dest src len :: nat
  assumes "dest + len \<le> 2 ^ 64" and "src + len \<le> 2 ^ 64" and "0 < len" and "src \<noteq> dest"
  shows "len \<le> (2 ^ 64 + dest - src) mod 2 ^ 64 \<longleftrightarrow> dest \<le> src \<or> src + len \<le> dest"
proof (cases "src < dest")
  case True
  then have eq: "2 ^ 64 + dest - src = (dest - src) + 2 ^ 64" by simp
  have "dest - src < 2 ^ 64" using assms True by simp
  then have "(2 ^ 64 + dest - src) mod 2 ^ 64 = dest - src" unfolding eq mod_add_self2 by simp
  then show ?thesis using True by auto
next
  case False
  then have "(2 ^ 64 + dest - src) mod 2 ^ 64 = 2 ^ 64 + dest - src" using assms by (intro mod_less) auto
  then show ?thesis using False assms by auto
qed

lemma memmove_nodrain_view:
  assumes "dest + len \<le> 2 ^ 64" and "src + len \<le> 2 ^ 64"
  shows "pm_view (snd (pmem_memmove_nodrain c dest src len dev)) = mcopy dest src len (pm_view dev)"
proof (cases "Func_memmove_nodrain c")
  case Nodrain_normal
  then show ?thesis by (simp add: pmem_memmove_nodrain_def memmove_nodrain_normal_def mcopy_def)
next
  case Nodrain_movnt
  consider "len = 0" | "src = dest" | "0 < len" "src \<noteq> dest" by auto
  then show ?thesis
  proof cases
    case 3
    note dir = direction [OF assms 3]
    show ?thesis
    proof (cases "dest \<le> src \<or> src + len \<le> dest")
      case True
      then show ?thesis
        using Nodrain_movnt 3 dir movnt_forward_view by (simp add: pmem_memmove_nodrain_def memmove_nodrain_movnt_def)
    next
      case False
      then show ?thesis
        using Nodrain_movnt 3 dir movnt_backward_view [of src dest] by (simp add: pmem_memmove_nodrain_def memmove_nodrain_movnt_def)
    qed
  qed (use Nodrain_movnt in \<open>auto simp: pmem_memmove_nodrain_def memmove_nodrain_movnt_def mcopy_def mem_write_read_id\<close>)
qed

section \<open>What a copy leaves to drain\<close>

lemma pmem_flush_line:
  "lib_ok c \<Longrightarrow> addr div 64 * 64 \<le> i \<Longrightarrow> i < addr + len \<Longrightarrow> flushed c (pmem_flush c addr len d) i"
  unfolding pmem_flush_loop by (rule flush_loop_covers) (use flush_instr_flushed in \<open>auto intro: le_less_trans [OF div_times_less_eq_dividend]\<close>)

lemmas unit_keeps = copy_fwd_keeps [OF writer_store] copy_fwd_keeps [OF streamer_writer [OF streamer_stream]]
  copy_fwd_keeps [OF streamer_writer [OF streamer_regs]]
  copy_bwd_keeps [OF writer_store] copy_bwd_keeps [OF streamer_writer [OF streamer_stream]]
  copy_bwd_keeps [OF streamer_writer [OF streamer_regs]]

lemmas unit_flushed = copy_fwd_flushed [OF streamer_stream] copy_fwd_flushed [OF streamer_regs]
  copy_bwd_flushed [OF streamer_stream] copy_bwd_flushed [OF streamer_regs]

lemma same_line_tail: "(d::nat) mod 4 = 0 \<Longrightarrow> f < 4 \<Longrightarrow> (d + f) div 64 * 64 \<le> d"
proof -
  assume "d mod 4 = 0" "f < 4"
  then obtain k where d: "d = 4 * k" and "(d + f) div 4 = k" by (auto elim!: dvdE simp: mod_eq_0_iff_dvd)
  then have "(d + f) div 64 = k div 16" using div_mult2_eq [of "d + f" 4 16] by simp
  moreover have "k div 16 * 16 \<le> k" by simp
  ultimately show ?thesis unfolding d by simp
qed

lemma div_stays: "(x::nat) mod n + y < n \<Longrightarrow> (x + y) div n = x div n"
proof -
  assume lt: "x mod n + y < n"
  have "x + y = n * (x div n) + (x mod n + y)" by simp
  then show ?thesis using lt by (metis add.right_neutral div_less div_mult_self4 less_nat_zero_code)
qed

text \<open>Forward, from the start of a cache line on.\<close>

lemma movnt_forward_flushed:
  assumes lib: "lib_ok c" and fence: "Func_predrain_fence c = Predrain_fence_sfence"
    and place: "dest mod 64 = 0 \<or> dest mod 64 + len < 64" and i: "dest \<le> i" "i < dest + len"
  shows "flushed c (movnt_forward c dest src len dev) i"
proof (cases "dest mod 64 = 0")
  case False
  then have "min (64 - dest mod 64) len = len" using place by simp
  moreover have "(dest + len) div 64 * 64 \<le> i"
  proof -
    have "(dest + len) div 64 = dest div 64" using place False by (intro div_stays) simp
    then show ?thesis using i(1) div_times_less_eq_dividend [of dest 64] by linarith
  qed
  ultimately show ?thesis
    using False i(2) pmem_flush_line [OF lib, of "dest + len" i len] by (simp add: movnt_forward_def Let_def)
next
  case True
  define a where "a = 128 * (len div 128)"
  define b where "b = 16 * (len mod 128 div 16)"
  define e where "e = 4 * (len mod 128 mod 16 div 4)"
  define f where "f = len mod 128 mod 16 mod 4"
  have len: "len = a + (b + (e + f))" unfolding a_def b_def e_def f_def by (rule length_parts)
  let ?dev2 = "copy_fwd 128 (stream_regs regs_up) (len div 128) dest src dev"
  let ?dev3 = "copy_fwd 16 stream (len mod 128 div 16) (dest + a) (src + a) ?dev2"
  let ?dev4 = "copy_fwd 4 stream (len mod 128 mod 16 div 4) (dest + a + b) (src + a + b) ?dev3"
  let ?dev5 = "copy_fwd 1 store f (dest + a + b + e) (src + a + b + e) ?dev4"
  have run: "movnt_forward c dest src len dev =
      (if len mod 128 mod 16 = 0 then ?dev3 else pmem_flush c (dest + a + b + e + f) f ?dev5)"
    using True by (simp add: movnt_forward_def Let_def a_def b_def e_def f_def)
  have three: "flushed c ?dev3 i" if "i < dest + a + b"
  proof (cases "i < dest + a")
    case True
    then have "flushed c ?dev2 i" using i fence by (intro unit_flushed) (auto simp: a_def)
    from unit_keeps(2) [OF this, of "dest + a" 16 "len mod 128 div 16" "src + a"] show ?thesis using True by simp
  next
    case False
    then show ?thesis using that fence by (intro unit_flushed) (auto simp: b_def)
  qed
  have "flushed c (pmem_flush c (dest + a + b + e + f) f ?dev5) i"
  proof (cases "i < dest + a + b + e")
    case True
    have "flushed c ?dev4 i"
    proof (cases "i < dest + a + b")
      case True
      from unit_keeps(2) [OF three [OF this], of "dest + a + b" 4 "len mod 128 mod 16 div 4" "src + a + b"] show ?thesis using True by simp
    next
      case False
      then show ?thesis using \<open>i < dest + a + b + e\<close> fence by (intro unit_flushed) (auto simp: e_def)
    qed
    from unit_keeps(1) [OF this, of "dest + a + b + e" 1 f "src + a + b + e"] show ?thesis
      using True lib by (intro pmem_flush_keeps) auto
  next
    case False
    have "(dest + a + b + e) mod 4 = 0"
    proof -
      have "(4::nat) dvd 64" by simp
      then have "4 dvd dest" using True by (meson dvd_trans mod_0_imp_dvd)
      then have "4 dvd (dest + a + b + e)" unfolding a_def b_def e_def by (intro dvd_add) (auto intro: dvd_mult2)
      then show ?thesis by simp
    qed
    then have "(dest + a + b + e + f) div 64 * 64 \<le> dest + a + b + e" by (rule same_line_tail) (simp add: f_def)
    then have "(dest + a + b + e + f) div 64 * 64 \<le> i" using False by linarith
    moreover have "i < dest + a + b + e + f + f" using i(2) len by linarith
    ultimately show ?thesis by (rule pmem_flush_line [OF lib])
  qed
  moreover have "i < dest + a + b" if "len mod 128 mod 16 = 0"
  proof -
    have "e = 0" "f = 0" using that by (simp_all add: e_def f_def)
    then show ?thesis using i(2) len by linarith
  qed
  ultimately show ?thesis unfolding run using three by simp
qed

text \<open>Backward, everything is on its way.\<close>

lemma movnt_backward_flushed:
  assumes lib: "lib_ok c" and fence: "Func_predrain_fence c = Predrain_fence_sfence" and i: "dest \<le> i" "i < dest + len"
  shows "flushed c (movnt_backward c dest src len dev) i"
proof -
  define cnt where "cnt = min ((dest + len) mod 64) len"
  define n where "n = len - cnt"
  define a where "a = 128 * (n div 128)"
  define b where "b = 16 * (n mod 128 div 16)"
  define e where "e = 4 * (n mod 128 mod 16 div 4)"
  define f where "f = n mod 128 mod 16 mod 4"
  have n: "n = a + (b + (e + f))" unfolding a_def b_def e_def f_def by (rule length_parts)
  have len: "len = f + (e + (b + (a + cnt)))" using n unfolding n_def cnt_def by auto
  have at: "x + len - cnt = x + f + e + b + a" "x + len - cnt - a = x + f + e + b" "x + len - cnt - a - b = x + f + e"
    "x + len - cnt - a - b - e = x + f" "x + len - cnt - a - b - e - f = x" for x :: nat
    using len by auto
  let ?dev1 = "if 0 < (dest + len) mod 64
    then pmem_flush c (dest + f + e + b + a) cnt (copy_bwd 1 store cnt (dest + len) (src + len) dev) else dev"
  let ?dev2 = "copy_bwd 128 (stream_regs regs_down) (n div 128) (dest + f + e + b + a) (src + f + e + b + a) ?dev1"
  let ?dev3 = "copy_bwd 16 stream (n mod 128 div 16) (dest + f + e + b) (src + f + e + b) ?dev2"
  let ?dev4 = "copy_bwd 4 stream (n mod 128 mod 16 div 4) (dest + f + e) (src + f + e) ?dev3"
  let ?dev5 = "copy_bwd 1 store f (dest + f) (src + f) ?dev4"
  have run: "movnt_backward c dest src len dev = (if n mod 128 mod 16 = 0 then ?dev3 else pmem_flush c dest f ?dev5)"
    unfolding movnt_backward_def Let_def cnt_def [symmetric] n_def [symmetric] a_def [symmetric] b_def [symmetric]
      e_def [symmetric] f_def [symmetric] at by simp
  have one: "flushed c ?dev1 i" if "dest + f + e + b + a \<le> i"
  proof (cases "(dest + len) mod 64 = 0")
    case True
    then have "cnt = 0" by (simp add: cnt_def)
    then show ?thesis using that i len by simp
  next
    case False
    then show ?thesis using that i len pmem_flush_covers [OF lib, of "dest + f + e + b + a" i cnt] by simp
  qed
  have two: "flushed c ?dev2 i" if "dest + f + e + b \<le> i"
  proof (cases "dest + f + e + b + a \<le> i")
    case True
    from unit_keeps(6) [OF _ one [OF this], of regs_down "dest + f + e + b + a" "n div 128"] True show ?thesis
      by (simp add: a_def)
  next
    case False
    then show ?thesis using that fence by (intro unit_flushed(4)) (auto simp: a_def)
  qed
  have three: "flushed c ?dev3 i" if "dest + f + e \<le> i"
  proof (cases "dest + f + e + b \<le> i")
    case True
    from unit_keeps(5) [OF two [OF this], of "dest + f + e + b" 16 "n mod 128 div 16"] True show ?thesis by (simp add: b_def)
  next
    case False
    then show ?thesis using that fence by (intro unit_flushed(3)) (auto simp: b_def)
  qed
  have four: "flushed c ?dev4 i" if "dest + f \<le> i"
  proof (cases "dest + f + e \<le> i")
    case True
    from unit_keeps(5) [OF three [OF this], of "dest + f + e" 4 "n mod 128 mod 16 div 4"] True show ?thesis by (simp add: e_def)
  next
    case False
    then show ?thesis using that fence by (intro unit_flushed(3)) (auto simp: e_def)
  qed
  have "flushed c (pmem_flush c dest f ?dev5) i"
  proof (cases "dest + f \<le> i")
    case True
    from unit_keeps(4) [OF four [OF this], of "dest + f" 1 f] True lib show ?thesis by (intro pmem_flush_keeps) auto
  next
    case False
    then show ?thesis using i lib by (intro pmem_flush_covers) auto
  qed
  moreover have "dest + f + e \<le> i" if "n mod 128 mod 16 = 0" using that i by (simp add: e_def f_def)
  ultimately show ?thesis unfolding run using three by simp
qed

end
