(* ===== verification/Pmem_Props.thy ===== *)
theory Pmem_Props
  imports Pmem_Copy
begin

text \<open>
  The properties of libpmem: persisting a range, moving and setting memory, detecting persistent
  memory and choosing instructions.  Two of them state where the streaming copy falls short.
\<close>

section \<open>Setting\<close>

lemma replicate_mem_write:
  "mem_write (mem_write m d (replicate a v)) (d + a) (replicate b v) = mem_write m d (replicate (a + b) v)"
  by (simp add: replicate_add mem_write_append)

lemma set_fwd_view:
  "writer sz wr \<Longrightarrow> pm_view (set_fwd sz wr v n d dev) = mem_write (pm_view dev) d (replicate (sz * n) v)"
proof (induction n arbitrary: d dev)
  case (Suc n)
  then show ?case by (simp add: writer_view replicate_mem_write)
qed simp

lemma set_fwd_keeps:
  "writer sz wr \<Longrightarrow> flushed c dev i \<Longrightarrow> i < d \<or> d + sz * n \<le> i \<Longrightarrow> flushed c (set_fwd sz wr v n d dev) i"
  by (induction n arbitrary: d dev) (auto simp: writer_def)

lemma set_fwd_flushed:
  assumes "streamer sz wr" and "Func_predrain_fence c = Predrain_fence_sfence"
  shows "d \<le> i \<Longrightarrow> i < d + sz * n \<Longrightarrow> flushed c (set_fwd sz wr v n d dev) i"
proof (induction n arbitrary: d dev)
  case (Suc n)
  show ?case
  proof (cases "i < d + sz")
    case True
    then have "flushed c (wr d (replicate sz v) dev) i" using assms Suc.prems(1) by (simp add: streamer_def)
    then show ?thesis using True set_fwd_keeps [OF streamer_writer [OF assms(1)]] by simp
  next
    case False
    then show ?thesis using Suc.prems by (simp add: Suc.IH)
  qed
qed simp

lemmas set_views = set_fwd_view [OF streamer_writer [OF streamer_stream]]
  set_fwd_view [OF streamer_writer [OF streamer_regs]]

lemma set_fwd_extends:
  assumes "streamer sz wr" and "Func_predrain_fence c = Predrain_fence_sfence"
    and "i < d \<Longrightarrow> flushed c dev i" and "i < d + sz * n"
  shows "flushed c (set_fwd sz wr v n d dev) i"
  using assms set_fwd_keeps [OF streamer_writer [OF assms(1)], of c dev i d n v] set_fwd_flushed [OF assms(1,2), of d i n v dev]
  by (cases "i < d") auto

text \<open>The streaming set, part by part.\<close>

lemma memset_movnt:
  shows "pm_view (snd (memset_nodrain_movnt c dest v len dev)) = mem_write (pm_view dev) dest (replicate len v)"
    and "lib_ok c \<Longrightarrow> Func_predrain_fence c = Predrain_fence_sfence \<Longrightarrow> dest \<le> i \<Longrightarrow> i < dest + len \<Longrightarrow>
      flushed c (snd (memset_nodrain_movnt c dest v len dev)) i"
proof -
  define cnt where "cnt = (if dest mod 64 \<noteq> 0 then min (64 - dest mod 64) len else 0)"
  define n where "n = len - cnt"
  define a where "a = 128 * (n div 128)"
  define b where "b = 16 * (n mod 128 div 16)"
  define e where "e = 4 * (n mod 128 mod 16 div 4)"
  define f where "f = n mod 128 mod 16 mod 4"
  have n: "n = a + (b + (e + f))" unfolding a_def b_def e_def f_def by (rule length_parts)
  have len: "len = cnt + n" unfolding n_def cnt_def by auto
  let ?dev1 = "if dest mod 64 \<noteq> 0 then pmem_flush c dest cnt (store dest (replicate cnt v) dev) else dev"
  let ?dev2 = "set_fwd 128 (stream_regs regs_up) v (n div 128) (dest + cnt) ?dev1"
  let ?dev3 = "set_fwd 16 stream v (n mod 128 div 16) (dest + cnt + a) ?dev2"
  let ?dev4 = "set_fwd 4 stream v (n mod 128 mod 16 div 4) (dest + cnt + a + b) ?dev3"
  let ?dev5 = "if f = 0 then ?dev4 else pmem_flush c (dest + cnt + a + b + e) f (store (dest + cnt + a + b + e) (replicate f v) ?dev4)"
  have run: "snd (memset_nodrain_movnt c dest v len dev) = ?dev5"
    unfolding memset_nodrain_movnt_def Let_def cnt_def [symmetric] n_def [symmetric] a_def [symmetric] b_def [symmetric]
      e_def [symmetric] f_def [symmetric] by simp
  have "pm_view ?dev1 = mem_write (pm_view dev) dest (replicate cnt v)" by (auto simp: cnt_def)
  then have "pm_view ?dev4 = mem_write (pm_view dev) dest (replicate (cnt + a + b + e) v)"
    by (simp add: set_views a_def [symmetric] b_def [symmetric] e_def [symmetric] replicate_mem_write add.assoc)
  then have view: "pm_view ?dev5 = mem_write (pm_view dev) dest (replicate len v)"
    using replicate_mem_write [of "pm_view dev" dest "cnt + a + b + e" v f] len n by (auto simp: add.assoc)
  show "flushed c (snd (memset_nodrain_movnt c dest v len dev)) i"
    if lib: "lib_ok c" and fence: "Func_predrain_fence c = Predrain_fence_sfence" and i: "dest \<le> i" "i < dest + len"
  proof -
    have 1: "flushed c ?dev1 i" if "i < dest + cnt"
    proof (cases "dest mod 64 = 0")
      case False
      then show ?thesis using that i(1) pmem_flush_covers [OF lib] by simp
    qed (use that i in \<open>simp add: cnt_def\<close>)
    have 2: "flushed c ?dev2 i" if "i < dest + cnt + a"
      by (rule set_fwd_extends [OF streamer_regs fence 1]) (use that in \<open>auto simp: a_def\<close>)
    have 3: "flushed c ?dev3 i" if "i < dest + cnt + a + b"
      by (rule set_fwd_extends [OF streamer_stream fence 2]) (use that in \<open>auto simp: b_def\<close>)
    have 4: "flushed c ?dev4 i" if "i < dest + cnt + a + b + e"
      by (rule set_fwd_extends [OF streamer_stream fence 3]) (use that in \<open>auto simp: e_def\<close>)
    have "flushed c (pmem_flush c (dest + cnt + a + b + e) f (store (dest + cnt + a + b + e) (replicate f v) ?dev4)) i"
    proof (cases "i < dest + cnt + a + b + e")
      case True
      then show ?thesis using 4 lib by (intro pmem_flush_keeps flushed_store) auto
    next
      case False
      then show ?thesis using lib i len n by (intro pmem_flush_covers) auto
    qed
    moreover have "i < dest + cnt + a + b + e" if "f = 0" using that i len n by linarith
    ultimately show ?thesis unfolding run using 4 by simp
  qed
  show "pm_view (snd (memset_nodrain_movnt c dest v len dev)) = mem_write (pm_view dev) dest (replicate len v)"
    unfolding run by (rule view)
qed

section \<open>Bytes that nothing moves to the media\<close>

text \<open>The cache evicts nothing, and no copy of the byte is on its way.\<close>

definition quiet :: "pmdev \<Rightarrow> nat \<Rightarrow> byte \<Rightarrow> bool" where
  "quiet d i m \<longleftrightarrow> (\<forall>t w. \<not> pm_evict d t w) \<and> pm_media d i = m \<and>
     pm_inflight d i = None \<and> pm_accepted d i = None \<and> pm_marked d i = None"

lemma quiet_tick: "quiet d i m \<Longrightarrow> quiet (tick d) i m"
  by (simp add: quiet_def tick_def written_back_def)

lemma quiet_store: "quiet d i m \<Longrightarrow> quiet (store p bs d) i m"
  unfolding store_def by (rule quiet_tick) (simp add: quiet_def)

lemma quiet_stream: "quiet d i m \<Longrightarrow> i < p \<Longrightarrow> quiet (stream p bs d) i m"
  unfolding stream_def by (rule quiet_tick) (simp add: quiet_def)

lemma quiet_line: "quiet d i m \<Longrightarrow> \<not> in_line p i \<Longrightarrow> quiet (clwb p d) i m" "quiet d i m \<Longrightarrow> \<not> in_line p i \<Longrightarrow> quiet (clflush p d) i m"
  unfolding clwb_def clflush_def by (rule quiet_tick; simp add: quiet_def)+

lemma quiet_flush_instr: "quiet d i m \<Longrightarrow> \<not> in_line p i \<Longrightarrow> quiet (flush_instr c p d) i m"
  by (cases "Func_flush c") (simp_all add: flush_instr_def clflushopt_def quiet_line)

lemma quiet_fence: "quiet d i m \<Longrightarrow> quiet (sfence d) i m" "quiet d i m \<Longrightarrow> quiet (pcommit d) i m"
  unfolding sfence_def pcommit_def by (rule quiet_tick; simp add: quiet_def over_def)+

lemma quiet_drain: "quiet d i m \<Longrightarrow> quiet (pmem_drain c d) i m"
  by (auto simp: pmem_drain_def drain_no_pcommit_def drain_pcommit_def predrain_fence_def quiet_fence
      split: drain_func.splits fence_func.splits)

lemma quiet_flush_loop:
  "quiet d i m \<Longrightarrow> uptr mod 64 = 0 \<Longrightarrow> i < uptr \<Longrightarrow> quiet (flush_loop (flush_instr c) uptr stop d) i m"
proof (induction "stop - uptr" arbitrary: uptr d rule: less_induct)
  case less
  show ?case
  proof (cases "uptr < stop")
    case True
    have "\<not> in_line uptr i"
    proof
      assume "in_line uptr i"
      then have "uptr = 64 * (i div 64)" using less.prems(2) by (auto simp: in_line_def)
      then show False using less.prems(3) by (simp add: not_less)
    qed
    then have "quiet (flush_loop (flush_instr c) (uptr + 64) stop (flush_instr c uptr d)) i m"
      using less.prems True by (intro less.hyps) (auto simp: quiet_flush_instr)
    then show ?thesis using True by (simp add: flush_loop_step)
  qed (simp add: flush_loop_step less.prems)
qed

lemma quiet_flush: "quiet d i m \<Longrightarrow> i < addr div 64 * 64 \<Longrightarrow> quiet (pmem_flush c addr len d) i m"
  unfolding pmem_flush_loop by (rule quiet_flush_loop) simp_all

lemma quiet_copy_store: "quiet dev i m \<Longrightarrow> quiet (copy_fwd 1 store n d s dev) i m"
  by (induction n arbitrary: d s dev) (simp_all add: quiet_store)

lemma quiet_regs: "quiet dev i m \<Longrightarrow> i < p \<Longrightarrow> quiet (stream_regs ks p bs dev) i m"
  unfolding stream_regs_def by (induction ks arbitrary: dev) (simp_all add: quiet_stream)

lemma quiet_copy:
  assumes "\<And>p bs dev. quiet dev i m \<Longrightarrow> i < p \<Longrightarrow> quiet (wr p bs dev) i m"
  shows "quiet dev i m \<Longrightarrow> i < d \<Longrightarrow> quiet (copy_fwd sz wr n d s dev) i m"
  by (induction n arbitrary: d s dev) (simp_all add: assms)

lemma movnt_forward_head:
  assumes q: "quiet dev i m" and far: "64 \<le> dest mod 64 + len" and un: "dest mod 64 \<noteq> 0"
    and i: "i < dest + (64 - dest mod 64)"
  shows "quiet (movnt_forward c dest src len dev) i m"
proof -
  let ?d1 = "dest + (64 - dest mod 64)"
  have cnt: "min (64 - dest mod 64) len = 64 - dest mod 64" using far by simp
  obtain q r where qr: "dest div 64 = q" "dest mod 64 = r" by blast
  have "q * 64 + r = dest" "r < 64" using qr by auto
  then have al: "?d1 = 64 * (dest div 64 + 1)" unfolding qr by auto
  have line: "i < x div 64 * 64" if "?d1 \<le> x" for x
  proof -
    have "?d1 div 64 * 64 = ?d1" unfolding al by simp
    then have "?d1 \<le> x div 64 * 64" using div_le_mono [OF that, of 64] by (metis mult_le_mono1)
    then show ?thesis using i by simp
  qed
  have A: "quiet (copy_fwd 128 (stream_regs ks) n d s dev) i m" if "quiet dev i m" "?d1 \<le> d" for ks n d s dev
    using that i by (intro quiet_copy) (simp_all add: quiet_regs)
  have B: "quiet (copy_fwd sz stream n d s dev) i m" if "quiet dev i m" "?d1 \<le> d" for sz n d s dev
    using that i by (intro quiet_copy) (simp_all add: quiet_stream)
  have F: "quiet (pmem_flush c addr k dev) i m" if "quiet dev i m" "?d1 \<le> addr" for addr k dev
    using that line by (intro quiet_flush) simp_all
  have "quiet (pmem_flush c ?d1 (64 - dest mod 64) (copy_fwd 1 store (64 - dest mod 64) dest src dev)) i m"
    by (intro F quiet_copy_store q) simp
  note dev1 = this
  define k where "k = 64 - dest mod 64"
  define n where "n = len - k"
  let ?dev1 = "pmem_flush c (dest + k) k (copy_fwd 1 store k dest src dev)"
  let ?dev2 = "copy_fwd 128 (stream_regs regs_up) (n div 128) (dest + k) (src + k) ?dev1"
  let ?d2 = "dest + k + 128 * (n div 128)" and ?s2 = "src + k + 128 * (n div 128)"
  let ?dev3 = "copy_fwd 16 stream (n mod 128 div 16) ?d2 ?s2 ?dev2"
  let ?d3 = "?d2 + 16 * (n mod 128 div 16)" and ?s3 = "?s2 + 16 * (n mod 128 div 16)"
  let ?dev4 = "copy_fwd 4 stream (n mod 128 mod 16 div 4) ?d3 ?s3 ?dev3"
  let ?d4 = "?d3 + 4 * (n mod 128 mod 16 div 4)" and ?s4 = "?s3 + 4 * (n mod 128 mod 16 div 4)"
  let ?f = "n mod 128 mod 16 mod 4"
  have cond: "(0 < dest mod 64) = True" "min k len = k" using un cnt by (simp_all add: k_def)
  have run: "movnt_forward c dest src len dev =
      (if n mod 128 mod 16 = 0 then ?dev3 else pmem_flush c (?d4 + ?f) ?f (copy_fwd 1 store ?f ?d4 ?s4 ?dev4))"
    unfolding movnt_forward_def Let_def cond if_True k_def [symmetric] cond(2) n_def [symmetric] by (rule refl)
  have 3: "quiet ?dev3 i m" using dev1 unfolding k_def [symmetric] by (intro B A) (simp_all add: k_def)
  have 4: "quiet ?dev4 i m" by (rule B [OF 3]) (simp add: k_def)
  have "quiet (pmem_flush c (?d4 + ?f) ?f (copy_fwd 1 store ?f ?d4 ?s4 ?dev4)) i m"
    by (rule F [OF quiet_copy_store [OF 4]]) (simp add: k_def)
  then show ?thesis unfolding run using 3 by presburger
qed

lemma unfenced_media:
  assumes "\<forall>t w. \<not> pm_evict dev t w"
  shows "pm_media (stream p bs dev) = pm_media dev \<and> pm_evict (stream p bs dev) = pm_evict dev"
    and "pm_media (stream_regs ks p bs dev) = pm_media dev \<and> pm_evict (stream_regs ks p bs dev) = pm_evict dev"
proof -
  have one: "pm_media (stream p bs dev) = pm_media dev \<and> pm_evict (stream p bs dev) = pm_evict dev"
    if "\<forall>t w. \<not> pm_evict dev t w" for p bs dev
    using that by (simp add: stream_def tick_def written_back_def)
  then show "pm_media (stream p bs dev) = pm_media dev \<and> pm_evict (stream p bs dev) = pm_evict dev" using assms by blast
  show "pm_media (stream_regs ks p bs dev) = pm_media dev \<and> pm_evict (stream_regs ks p bs dev) = pm_evict dev"
    unfolding stream_regs_def using assms by (induction ks arbitrary: dev) (simp_all add: one)
qed

lemma unfenced_copy:
  assumes "\<And>p bs dev. \<forall>t w. \<not> pm_evict dev t w \<Longrightarrow> pm_media (wr p bs dev) = pm_media dev \<and> pm_evict (wr p bs dev) = pm_evict dev"
  shows "\<forall>t w. \<not> pm_evict dev t w \<Longrightarrow>
    pm_media (copy_fwd sz wr n d s dev) = pm_media dev \<and> pm_evict (copy_fwd sz wr n d s dev) = pm_evict dev"
  by (induction n arbitrary: d s dev) (simp_all add: assms)

text \<open>The platform stays what it is.\<close>

lemma adr_regs [simp]: "pm_adr (stream_regs ks p bs dev) = pm_adr dev"
  unfolding stream_regs_def by (induction ks arbitrary: dev) simp_all

lemma adr_loops:
  assumes "\<And>p bs dev. pm_adr (wr p bs dev) = pm_adr dev"
  shows "pm_adr (copy_fwd sz wr n a b dev) = pm_adr dev" "pm_adr (copy_bwd sz wr n a b dev) = pm_adr dev"
    "pm_adr (set_fwd sz wr v n a dev) = pm_adr dev"
proof -
  show "pm_adr (copy_fwd sz wr n a b dev) = pm_adr dev" by (induction n arbitrary: a b dev) (simp_all add: assms)
  show "pm_adr (copy_bwd sz wr n a b dev) = pm_adr dev" by (induction n arbitrary: a b dev) (simp_all add: assms)
  show "pm_adr (set_fwd sz wr v n a dev) = pm_adr dev" by (induction n arbitrary: a dev) (simp_all add: assms)
qed

lemmas adr_units = adr_loops [of store, OF instr_adr(2)] adr_loops [of stream, OF instr_adr(3)]
  adr_loops [of "stream_regs ks" for ks, OF adr_regs]

lemma adr_movnt:
  "pm_adr (movnt_forward c dest src len d) = pm_adr d" "pm_adr (movnt_backward c dest src len d) = pm_adr d"
  "pm_adr (snd (memset_nodrain_movnt c dest v len d)) = pm_adr d"
  unfolding movnt_forward_def movnt_backward_def memset_nodrain_movnt_def Let_def
  by (simp_all only: adr_units pmem_flush_adr instr_adr snd_conv if_distrib [of pm_adr] if_cancel)

lemma fence_of_flush: "lib_ok c \<Longrightarrow> Func_flush c \<noteq> Flush_clflush \<Longrightarrow> Func_predrain_fence c = Predrain_fence_sfence"
  by (cases "Func_predrain_fence c") (auto simp: lib_ok_def)

section \<open>Ranges with the mixed map flag\<close>

text \<open>The flags that follow a range, and the addresses of the ranges that have the flag.\<close>

fun flags_mm :: "smaps_line list \<Rightarrow> bool" where
  "flags_mm [] = False"
| "flags_mm (Smaps_range lo hi # ls) = False"
| "flags_mm (Smaps_vmflags mm # ls) = mm"
| "flags_mm (Smaps_other # ls) = flags_mm ls"

fun mixed_map :: "smaps_line list \<Rightarrow> u64 \<Rightarrow> bool" where
  "mixed_map [] x = False"
| "mixed_map (Smaps_range lo hi # ls) x = (lo \<le> x \<and> x < hi \<and> flags_mm ls \<or> mixed_map ls x)"
| "mixed_map (Smaps_vmflags mm # ls) x = mixed_map ls x"
| "mixed_map (Smaps_other # ls) x = mixed_map ls x"

lemma is_pmem_loop_sound:
  assumes "is_pmem_loop ls caddr len needmm" and "unat caddr + unat len < 2 ^ 64"
  shows "(needmm \<longrightarrow> flags_mm ls) \<and> (\<forall>x. caddr \<le> x \<and> unat x < unat caddr + unat len \<longrightarrow> mixed_map ls x)"
  using assms
proof (induction ls caddr len needmm rule: is_pmem_loop.induct)
  case (2 lo hi ls caddr len needmm)
  then have need: "\<not> needmm" and lo: "lo \<le> caddr" by (auto split: if_splits)
  show ?case
  proof (cases "caddr < hi")
    case False
    then show ?thesis using 2 need lo by auto
  next
    case hi: True
    have r: "unat (hi - caddr) = unat hi - unat caddr" "unat caddr < unat hi"
      using hi unat_sub [of caddr hi] by (auto simp: word_less_nat_alt word_le_nat_alt)
    show ?thesis
    proof (cases "hi - caddr < len")
      case True
      have len': "unat (len - (hi - caddr)) = unat len - (unat hi - unat caddr)"
        using True unat_sub [of "hi - caddr" len] r by (auto simp: word_less_nat_alt word_le_nat_alt)
      have lt: "unat hi - unat caddr < unat len" using True r by (simp add: word_less_nat_alt)
      have next': "caddr + (hi - caddr) = hi" by simp
      have run: "is_pmem_loop ls hi (len - (hi - caddr)) True"
        using "2.prems"(1) need lo hi True by (auto simp: Let_def next' split: if_splits)
      have "(True \<longrightarrow> flags_mm ls) \<and> (\<forall>x. hi \<le> x \<and> unat x < unat hi + unat (len - (hi - caddr)) \<longrightarrow> mixed_map ls x)"
        using "2.IH"(1) [OF need _ hi refl True] lo run "2.prems"(2) len' r lt by (simp add: next' not_less)
      then have flags: "flags_mm ls" and rest: "\<And>x. hi \<le> x \<Longrightarrow> unat x < unat caddr + unat len \<Longrightarrow> mixed_map ls x"
        using len' r lt by auto
      have "mixed_map (Smaps_range lo hi # ls) x" if "caddr \<le> x" "unat x < unat caddr + unat len" for x
        using that flags rest [of x] lo by (cases "x < hi") (auto intro: order_trans simp: not_less)
      then show ?thesis using need by blast
    next
      case False
      have run: "is_pmem_loop ls caddr 0 True"
        using "2.prems"(1) need lo hi False by (auto simp: Let_def split: if_splits)
      then have flags: "flags_mm ls"
        using "2.IH"(2) [OF need _ hi refl False] lo unat_bound [of caddr] by (auto simp: not_less)
      have "x < hi" if "unat x < unat caddr + unat len" for x
        using that False r by (simp add: word_less_nat_alt not_less)
      then show ?thesis using need flags lo by (auto intro: order_trans)
    qed
  qed
next
  case (3 mm ls caddr len needmm)
  then show ?case by (auto split: if_splits simp: word_le_nat_alt)
qed auto

section \<open>Properties\<close>

text \<open>
  C37 Whatever processor features and environment settings are found when the library is loaded,
  \<open>pmem_persist\<close> makes its range durable: if the power is still on when it returns, and the
  platform keeps the memory controller's buffers or has \<open>PCOMMIT\<close> in use, every byte of the
  range survives with the value loads see, and loads see no change.
\<close>

theorem pmem_persist_durable:
  assumes lib: "c = pmem_init atoi getenv cpuinfo" and hw: "pm_adr d \<or> pmem_has_hw_drain c"
    and on: "\<not> pm_failed (pmem_persist c addr len d)"
  shows "pm_view (pmem_persist c addr len d) = pm_view d \<and>
    (\<forall>i. addr \<le> i \<and> i < addr + len \<longrightarrow> durable (pmem_persist c addr len d) i)"
  using pmem.persist_clean [of c d addr len] clean_durable pmem.persist_view pmem_init_ok hw on by (auto simp: lib can_persist_def)

text \<open>
  C38 Both versions of \<open>pmem_memmove_nodrain\<close>, the streaming one with its byte, 128-byte, 16-byte
  and 4-byte loops included, leave in memory what \<open>memmove\<close> leaves: the destination holds what the
  source held before the call, also when the ranges overlap in either direction.
\<close>

theorem memmove_moves:
  assumes "dest + len \<le> 2 ^ 64" and "src + len \<le> 2 ^ 64"
  shows "pm_view (snd (pmem_memmove_nodrain c dest src len d)) = mem_write (pm_view d) dest (mem_read (pm_view d) src len)"
  using memmove_nodrain_view [OF assms] by (simp add: mcopy_def)

text \<open>
  C39 On a processor where the library flushes with \<open>CLFLUSHOPT\<close> or \<open>CLWB\<close>, so that it fences before draining,
  \<open>pmem_memmove_persist\<close> makes what it copied durable if the power is still on when it returns, the
  platform keeps the memory controller's buffers or has \<open>PCOMMIT\<close> in use, source and destination differ, and the
  destination starts on a cache line, or ends before the last byte of the line it starts in
  (\<open>dest mod 64 + len < 64\<close>), or is copied backwards because it overlaps the source from above.
\<close>

theorem memmove_persist_durable:
  assumes lib: "c = pmem_init atoi getenv cpuinfo" and fence: "Func_flush c \<noteq> Flush_clflush"
    and hw: "pm_adr d \<or> pmem_has_hw_drain c" and bounds: "dest + len \<le> 2 ^ 64" "src + len \<le> 2 ^ 64" and diff: "src \<noteq> dest"
    and place: "dest mod 64 = 0 \<or> dest mod 64 + len < 64 \<or> src < dest \<and> dest < src + len"
    and on: "\<not> pm_failed (snd (pmem_memmove_persist c dest src len d))" and i: "dest \<le> i" "i < dest + len"
  shows "durable (snd (pmem_memmove_persist c dest src len d)) i"
proof -
  have ok: "lib_ok c" using pmem_init_ok lib by simp
  note sf = fence_of_flush [OF ok fence]
  let ?dev = "snd (pmem_memmove_nodrain c dest src len d)"
  have "0 < len" using i by simp
  note dir = direction [OF bounds this diff]
  have "flushed c ?dev i \<and> pm_adr ?dev = pm_adr d"
  proof (cases "Func_memmove_nodrain c")
    case Nodrain_normal
    then show ?thesis using pmem_flush_covers [OF ok i] by (simp add: pmem_memmove_nodrain_def memmove_nodrain_normal_def)
  next
    case Nodrain_movnt
    show ?thesis
    proof (cases "dest \<le> src \<or> src + len \<le> dest")
      case True
      then have "dest mod 64 = 0 \<or> dest mod 64 + len < 64" using place by auto
      from movnt_forward_flushed [OF ok sf this i] show ?thesis
        using True Nodrain_movnt diff dir i by (simp add: pmem_memmove_nodrain_def memmove_nodrain_movnt_def adr_movnt)
    next
      case False
      from movnt_backward_flushed [OF ok sf i] show ?thesis
        using False Nodrain_movnt diff dir i by (simp add: pmem_memmove_nodrain_def memmove_nodrain_movnt_def adr_movnt)
    qed
  qed
  then show ?thesis
    using drain_durable [OF ok, of ?dev i] on hw by (simp add: pmem_memmove_persist_def can_persist_def split_beta)
qed

text \<open>
  C40 Otherwise it does not: when a forward streaming copy starts inside a cache line and reaches the
  next one, the bytes before that line are flushed at the wrong address and need not reach the
  media; with a cache that evicts nothing they keep their old contents there.
\<close>

theorem memmove_head_lost:
  assumes movnt: "Func_memmove_nodrain c = Nodrain_movnt" and bounds: "dest + len \<le> 2 ^ 64" "src + len \<le> 2 ^ 64"
    and fwd: "src \<noteq> dest" "dest < src \<or> src + len \<le> dest" and place: "dest mod 64 \<noteq> 0" "64 \<le> dest mod 64 + len"
    and i: "dest \<le> i" "i < dest + (64 - dest mod 64)" and q: "quiet d i m"
  shows "pm_media (snd (pmem_memmove_persist c dest src len d)) i = m \<and>
    pm_view (snd (pmem_memmove_persist c dest src len d)) i = pm_view d (src + (i - dest))"
proof -
  have len: "0 < len" using place mod_less_divisor [of 64 dest] by linarith
  let ?dev = "movnt_forward c dest src len d"
  have run: "snd (pmem_memmove_persist c dest src len d) = pmem_drain c ?dev"
    using direction [OF bounds len fwd(1)] fwd len movnt
    by (auto simp: pmem_memmove_persist_def pmem_memmove_nodrain_def memmove_nodrain_movnt_def)
  have "quiet (pmem_drain c ?dev) i m" using movnt_forward_head [OF q place(2,1) i(2)] by (rule quiet_drain)
  moreover have "pm_view ?dev i = pm_view d (src + (i - dest))"
    using movnt_forward_view [of dest src len c d] fwd i place by (auto simp: mcopy_def mem_write_def)
  ultimately show ?thesis unfolding run by (simp add: quiet_def)
qed

text \<open>
  Nor is a streaming copy durable on a processor without \<open>CLWB\<close> and \<open>CLFLUSHOPT\<close>: the
  drain then has no fence, and the streamed stores may stay in the processor's buffers.
\<close>

theorem memmove_unfenced:
  assumes lib: "Func_flush c = Flush_clflush" "Func_predrain_fence c = Predrain_fence_empty" "Func_drain c = Drain_no_pcommit"
      "Func_memmove_nodrain c = Nodrain_movnt"
    and bounds: "dest + len \<le> 2 ^ 64" "src + len \<le> 2 ^ 64" and fwd: "src \<noteq> dest" "dest < src \<or> src + len \<le> dest"
    and place: "dest mod 64 = 0" "len mod 16 = 0" "0 < len" and quiet: "\<forall>t w. \<not> pm_evict d t w"
  shows "pm_media (snd (pmem_memmove_persist c dest src len d)) = pm_media d"
proof -
  have "len mod 128 mod 16 = 0" using place(2) by (simp add: mod_mod_cancel)
  then have "pm_media (movnt_forward c dest src len d) = pm_media d"
    using place(1) unfenced_copy [OF unfenced_media(2)] unfenced_copy [OF unfenced_media(1)] quiet
    by (simp add: movnt_forward_def Let_def)
  then show ?thesis
    using direction [OF bounds place(3) fwd(1)] fwd place(3) lib
    by (auto simp: pmem_memmove_persist_def pmem_memmove_nodrain_def memmove_nodrain_movnt_def pmem_drain_def
        drain_no_pcommit_def predrain_fence_def)
qed

text \<open>
  \<open>pmem_memset_persist\<close>, in both versions, fills exactly its range and makes it durable, given
  a fence before the drain.
\<close>

theorem memset_persist_durable:
  assumes lib: "c = pmem_init atoi getenv cpuinfo" and fence: "Func_flush c \<noteq> Flush_clflush"
    and hw: "pm_adr d \<or> pmem_has_hw_drain c" and on: "\<not> pm_failed (snd (pmem_memset_persist c dest v len d))"
  shows "pm_view (snd (pmem_memset_persist c dest v len d)) = mem_write (pm_view d) dest (replicate len v) \<and>
    (\<forall>i. dest \<le> i \<and> i < dest + len \<longrightarrow> durable (snd (pmem_memset_persist c dest v len d)) i)"
proof -
  have ok: "lib_ok c" using pmem_init_ok lib by simp
  note sf = fence_of_flush [OF ok fence]
  let ?dev = "snd (pmem_memset_nodrain c dest v len d)"
  have "pm_adr ?dev = pm_adr d" and view: "pm_view ?dev = mem_write (pm_view d) dest (replicate len v)"
    by (cases "Func_memset_nodrain c";
        simp add: pmem_memset_nodrain_def memset_nodrain_normal_def adr_movnt memset_movnt(1))+
  then have can: "can_persist c ?dev" using hw by (simp add: can_persist_def)
  have fl: "flushed c ?dev i" if "dest \<le> i" "i < dest + len" for i
    using that pmem_flush_covers [OF ok that] memset_movnt(2) [OF ok sf that]
    by (cases "Func_memset_nodrain c") (simp_all add: pmem_memset_nodrain_def memset_nodrain_normal_def)
  have run: "snd (pmem_memset_persist c dest v len d) = pmem_drain c ?dev" by (simp add: pmem_memset_persist_def split_beta)
  show ?thesis
    using drain_durable [OF ok can fl] on view unfolding run by simp
qed

text \<open>
  When \<open>pmem_is_pmem\<close> finds persistent memory by reading \<open>/proc/self/smaps\<close>, every byte of
  the range lies in a mapping with the mixed map flag: a gap, or one mapping without the flag,
  makes the answer false.
\<close>

theorem is_pmem_all_mapped:
  assumes "Func_is_pmem c = Is_pmem_proc" and "pmem_is_pmem c (Some ls) addr len" and "unat addr + unat len < 2 ^ 64"
    and "addr \<le> x" and "unat x < unat addr + unat len"
  shows "mixed_map ls x"
  using assms is_pmem_loop_sound [of ls addr len False] by (simp add: pmem_is_pmem_def is_pmem_proc_def)

text \<open>
  The choices made when the library is loaded fit together: a fence precedes the drain exactly
  when the flush instruction needs one, \<open>pmem_has_hw_drain\<close> tells whether draining commits, and
  copying and setting use the same stores.
\<close>

theorem pmem_init_consistent:
  "(Func_predrain_fence (pmem_init atoi getenv cpuinfo) = Predrain_fence_sfence) = (Func_flush (pmem_init atoi getenv cpuinfo) \<noteq> Flush_clflush) \<and>
   pmem_has_hw_drain (pmem_init atoi getenv cpuinfo) = (Func_drain (pmem_init atoi getenv cpuinfo) = Drain_pcommit) \<and>
   Func_memmove_nodrain (pmem_init atoi getenv cpuinfo) = Func_memset_nodrain (pmem_init atoi getenv cpuinfo)"
  using pmem_init_ok [of atoi getenv cpuinfo] fence_of_flush
  by (auto simp: lib_ok_def pmem_has_hw_drain_def)

text \<open>
  On a processor with both instructions the library flushes with \<open>CLFLUSHOPT\<close>, which evicts the
  lines from the cache, although \<open>CLWB\<close> is available.
\<close>

theorem clflushopt_wins:
  assumes "take 9 line = flags_prefix" and "strstr (drop 7 (nl_to_space line)) '' clwb ''"
    and "strstr (drop 7 (nl_to_space line)) '' clflushopt ''" and "getenv ''PMEM_NO_CLFLUSHOPT'' = None"
  shows "Func_flush (pmem_init atoi getenv (Some (line # ls))) = Flush_clflushopt"
  using assms by (simp add: pmem_init_def Let_def init_features_def split: option.splits)

section \<open>The properties at a concrete machine\<close>

definition demo_cpuinfo :: "string list" where
  "demo_cpuinfo = [''processor'', flags_prefix @ ''fpu clflush sse2 clwb pcommit'' @ [CHR 0x0A]]"

definition demo_dev :: pmdev where
  "demo_dev = \<lparr>pm_view = (\<lambda>i. of_nat i), pm_media = (\<lambda>_. 0), pm_inflight = (\<lambda>_. None), pm_accepted = (\<lambda>_. None),
     pm_marked = (\<lambda>_. None), pm_adr = False, pm_time = 0, pm_fail_at = 1000, pm_evict = (\<lambda>_ _. False)\<rparr>"

abbreviation demo_lib :: pmem_lib where
  "demo_lib \<equiv> pmem_init (\<lambda>_. 2) (\<lambda>_. None) (Some demo_cpuinfo)"

lemma demo_lib: "demo_lib = \<lparr>Func_predrain_fence = Predrain_fence_sfence, Func_drain = Drain_pcommit, Func_flush = Flush_clwb,
     Func_is_pmem = Is_pmem_proc, Func_memmove_nodrain = Nodrain_movnt, Func_memset_nodrain = Nodrain_movnt, Has_hw_drain = True\<rparr>"
  by code_simp

lemma demo_on:
  "\<not> pm_failed (pmem_persist demo_lib 100 8 demo_dev)"
  "\<not> pm_failed (snd (pmem_memmove_persist demo_lib 64 1000 16 demo_dev))"
  "\<not> pm_failed (snd (pmem_memset_persist demo_lib 60 7 8 demo_dev))"
  by (simp_all add: demo_lib demo_dev_def pm_failed_def pmem_persist_def pmem_flush_loop flush_instr_def flush_loop_step
      pmem_drain_def drain_pcommit_def predrain_fence_def pmem_memmove_persist_def pmem_memmove_nodrain_def
      memmove_nodrain_movnt_def movnt_forward_def Let_def pmem_memset_persist_def pmem_memset_nodrain_def
      memset_nodrain_movnt_def)

theorem pmem_persist_durable_witness: "durable (pmem_persist demo_lib 100 8 demo_dev) 103"
  using pmem_persist_durable [OF refl _ demo_on(1)] by (simp add: demo_lib pmem_has_hw_drain_def)

theorem memmove_moves_witness:
  "pm_view (snd (pmem_memmove_nodrain demo_lib 10 8 200 demo_dev)) =
    mem_write (pm_view demo_dev) 10 (mem_read (pm_view demo_dev) 8 200)"
  using memmove_moves [of 10 200 8] by simp

theorem memmove_persist_durable_witness: "durable (snd (pmem_memmove_persist demo_lib 64 1000 16 demo_dev)) 70"
  using memmove_persist_durable [where i = 70, OF refl _ _ _ _ _ _ demo_on(2)] by (simp add: demo_lib pmem_has_hw_drain_def)

theorem memmove_head_lost_witness:
  "pm_media (snd (pmem_memmove_persist demo_lib 8 1000 64 demo_dev)) 8 = 0 \<and>
   pm_view (snd (pmem_memmove_persist demo_lib 8 1000 64 demo_dev)) 8 = 232"
  using memmove_head_lost [of demo_lib 8 64 1000 8 demo_dev 0] by (simp add: demo_lib demo_dev_def quiet_def)

theorem memmove_unfenced_witness:
  "pm_media (snd (pmem_memmove_persist (demo_lib\<lparr>Func_flush := Flush_clflush, Func_predrain_fence := Predrain_fence_empty,
     Func_drain := Drain_no_pcommit\<rparr>) 64 1000 16 demo_dev)) = pm_media demo_dev"
  using memmove_unfenced [of "demo_lib\<lparr>Func_flush := Flush_clflush, Func_predrain_fence := Predrain_fence_empty,
     Func_drain := Drain_no_pcommit\<rparr>" 64 16 1000 demo_dev] by (simp add: demo_lib demo_dev_def)

theorem memset_persist_durable_witness: "durable (snd (pmem_memset_persist demo_lib 60 7 8 demo_dev)) 61"
  using memset_persist_durable [OF refl _ _ demo_on(3)] by (simp add: demo_lib pmem_has_hw_drain_def)

theorem is_pmem_all_mapped_witness:
  "pmem_is_pmem demo_lib (Some [Smaps_range 0x1000 0x3000, Smaps_other, Smaps_vmflags True]) 0x1800 0x800 \<and>
   mixed_map [Smaps_range 0x1000 0x3000, Smaps_other, Smaps_vmflags True] 0x1900"
  using is_pmem_all_mapped [where c = demo_lib and ls = "[Smaps_range 0x1000 0x3000, Smaps_other, Smaps_vmflags True]"
      and addr = "0x1800" and len = "0x800" and x = "0x1900"]
  by (simp add: demo_lib pmem_is_pmem_def is_pmem_proc_def)

theorem clflushopt_wins_witness:
  "Func_flush (pmem_init (\<lambda>_. 2) (\<lambda>_. None) (Some [flags_prefix @ ''clflush clflushopt clwb ''])) = Flush_clflushopt"
  using clflushopt_wins [of "flags_prefix @ ''clflush clflushopt clwb ''" "\<lambda>_. None" "\<lambda>_. 2" "[]"]
  by (simp add: flags_prefix_def nl_to_space_def)

end
