(* ===== verification/Log.thy ===== *)
theory Log
  imports Pmem_Persist
begin

text \<open>
  The log library, \<open>src/libpmemlog/log.c\<close>, on the memory system of \<open>Pmem_Machine\<close>
  and with the persistence primitives of libpmem.  A pool is mapped at a page boundary, so offsets
  in the pool stand for addresses.  The fields that \<open>pmemlog_map_common\<close> sets up at run time
  (\<open>size\<close>, \<open>is_pmem\<close>, \<open>rdonly\<close>) are fields of the record and not bytes of
  the mapping; the lock is left out (one thread) and the protections of the debug version too.  The
  source stores them, with the address of the mapping and of the lock, in the bytes 4120 to 4151 of the
  mapping, where a pool opened for writing leaves them in its file; no later opening uses what it finds
  there.  The model leaves these bytes of a file as they are.
  What the system answers when a pool is mapped is the record \<open>log_env\<close>.
\<close>

section \<open>Pools\<close>

definition LOG_HDR_SIG :: "byte list" where "LOG_HDR_SIG = c_str ''PMEMLOG'' @ [0]"
definition LOG_FORMAT_MAJOR :: u32 where "LOG_FORMAT_MAJOR = 1"
definition LOG_FORMAT_COMPAT :: u32 where "LOG_FORMAT_COMPAT = 0"
definition LOG_FORMAT_INCOMPAT :: u32 where "LOG_FORMAT_INCOMPAT = 0"
definition LOG_FORMAT_RO_COMPAT :: u32 where "LOG_FORMAT_RO_COMPAT = 0"
definition LOG_FORMAT_DATA_ALIGN :: u64 where "LOG_FORMAT_DATA_ALIGN = 4096"
definition PMEMLOG_MIN_POOL :: nat where "PMEMLOG_MIN_POOL = 1024 * 1024 * 2"

text \<open>Offsets of the fields of \<open>struct pmemlog\<close> and its size on x86-64.\<close>

definition LOG_START_OFF :: nat where "LOG_START_OFF = 4096"
definition LOG_END_OFF :: nat where "LOG_END_OFF = 4104"
definition LOG_WRITE_OFF :: nat where "LOG_WRITE_OFF = 4112"
definition SIZEOF_PMEMLOG :: u64 where "SIZEOF_PMEMLOG = 4152"

record pmemlog =
  log_dev :: pmdev
  log_size :: u64
  log_is_pmem :: bool
  log_rdonly :: bool

abbreviation log_mem :: "pmemlog \<Rightarrow> mem" where
  "log_mem p \<equiv> pm_view (log_dev p)"

definition log_field :: "mem \<Rightarrow> nat \<Rightarrow> u64" where
  "log_field m off = le_dec (mem_read m off 8)"

definition on_dev :: "(pmdev \<Rightarrow> pmdev) \<Rightarrow> pmemlog \<Rightarrow> pmemlog" where
  "on_dev f p = p\<lparr>log_dev := f (log_dev p)\<rparr>"

section \<open>Operations\<close>

text \<open>The copy of the C library, byte by byte: the power may fail between any two of them.\<close>

fun log_memcpy :: "nat \<Rightarrow> byte list \<Rightarrow> pmdev \<Rightarrow> pmdev" where
  "log_memcpy q [] d = d"
| "log_memcpy q (b # bs) d = log_memcpy (Suc q) bs (store q [b] d)"

text \<open>The choice between the two ways to persist that every function of the library makes.\<close>

definition log_sync :: "pmem_lib \<Rightarrow> bool \<Rightarrow> nat \<Rightarrow> nat \<Rightarrow> pmdev \<Rightarrow> pmdev" where
  "log_sync lib is_pmem = (if is_pmem then pmem_persist lib else pmem_msync)"

definition pmemlog_persist :: "pmem_lib \<Rightarrow> u64 \<Rightarrow> pmemlog \<Rightarrow> pmemlog" where
  "pmemlog_persist lib new_write_offset p =
     (let old_write_offset = log_field (log_mem p) LOG_WRITE_OFF;
          len = new_write_offset - old_write_offset;
          sync = log_sync lib (log_is_pmem p) in
      on_dev (\<lambda>d. sync LOG_WRITE_OFF 8 (store LOG_WRITE_OFF (le_enc 8 new_write_offset)
                    (sync (unat old_write_offset) (unat len) d))) p)"

definition pmemlog_nbyte :: "pmemlog \<Rightarrow> u64" where
  "pmemlog_nbyte p = log_field (log_mem p) LOG_END_OFF - log_field (log_mem p) LOG_START_OFF"

definition pmemlog_append :: "pmem_lib \<Rightarrow> byte list \<Rightarrow> (pmemlog, unit) prog" where
  "pmemlog_append lib buf p =
     (let count = of_nat (length buf);
          end_offset = log_field (log_mem p) LOG_END_OFF;
          write_offset = log_field (log_mem p) LOG_WRITE_OFF in
      if log_rdonly p then (Err EROFS, p)
      else if end_offset \<le> write_offset then (Err ENOSPC, p)
      else if end_offset - write_offset < count then (Err ENOSPC, p)
      else (Ok (), pmemlog_persist lib (write_offset + count) (on_dev (log_memcpy (unat write_offset) buf) p)))"

text \<open>The two loops over the vector: the space it needs, in 64 bits, and the copies.\<close>

fun iov_count :: "byte list list \<Rightarrow> u64 \<Rightarrow> u64" where
  "iov_count [] count = count"
| "iov_count (buf # iov) count = iov_count iov (count + of_nat (length buf))"

fun iov_copy :: "byte list list \<Rightarrow> u64 \<Rightarrow> pmdev \<Rightarrow> u64 \<times> pmdev" where
  "iov_copy [] write_offset d = (write_offset, d)"
| "iov_copy (buf # iov) write_offset d =
     iov_copy iov (write_offset + of_nat (length buf)) (log_memcpy (unat write_offset) buf d)"

definition pmemlog_appendv :: "pmem_lib \<Rightarrow> byte list list \<Rightarrow> (pmemlog, unit) prog" where
  "pmemlog_appendv lib iov p =
     (let end_offset = log_field (log_mem p) LOG_END_OFF;
          write_offset = log_field (log_mem p) LOG_WRITE_OFF in
      if iov = [] then (Stuck, p)
      else if log_rdonly p then (Err EROFS, p)
      else if end_offset \<le> write_offset then (Err ENOSPC, p)
      else if end_offset - write_offset < iov_count iov 0 then (Err ENOSPC, p)
      else
        case iov_copy iov write_offset (log_dev p) of
          (write_offset', d) \<Rightarrow> (Ok (), pmemlog_persist lib write_offset' (p\<lparr>log_dev := d\<rparr>)))"

text \<open>The result is an \<open>off_t\<close>, a signed 64-bit integer.\<close>

definition pmemlog_tell :: "pmemlog \<Rightarrow> int" where
  "pmemlog_tell p = sint (log_field (log_mem p) LOG_WRITE_OFF - log_field (log_mem p) LOG_START_OFF)"

definition pmemlog_rewind :: "pmem_lib \<Rightarrow> (pmemlog, unit) prog" where
  "pmemlog_rewind lib p =
     (if log_rdonly p then (Err EROFS, p)
      else (Ok (), on_dev (\<lambda>d. log_sync lib (log_is_pmem p) LOG_WRITE_OFF 8
              (store LOG_WRITE_OFF (mem_read (pm_view d) LOG_START_OFF 8) d)) p))"

text \<open>
  The walk calls \<open>process_chunk\<close>, whose own state is \<open>arg\<close>, with the place of the chunk in
  the mapping and its length.  Whether the loop ends is not obvious, since the offset is a 64-bit sum: a run that
  never ends is \<open>None\<close>.
\<close>

partial_function (option) walk_loop ::
    "(nat \<Rightarrow> nat \<Rightarrow> 'c \<Rightarrow> bool \<times> 'c) \<Rightarrow> u64 \<Rightarrow> u64 \<Rightarrow> u64 \<Rightarrow> 'c \<Rightarrow> 'c option" where
  "walk_loop process_chunk chunksize write_offset data_offset arg =
     (if data_offset < write_offset then
        let len = min chunksize (write_offset - data_offset) in
        case process_chunk (unat data_offset) (unat len) arg of
          (again, arg') \<Rightarrow>
            if \<not> again then Some arg'
            else walk_loop process_chunk chunksize write_offset (data_offset + chunksize) arg'
      else Some arg)"

definition pmemlog_walk :: "pmemlog \<Rightarrow> u64 \<Rightarrow> (nat \<Rightarrow> nat \<Rightarrow> 'c \<Rightarrow> bool \<times> 'c) \<Rightarrow> 'c \<Rightarrow> 'c option" where
  "pmemlog_walk p chunksize process_chunk arg =
     (let write_offset = log_field (log_mem p) LOG_WRITE_OFF;
          data_offset = log_field (log_mem p) LOG_START_OFF in
      if chunksize = 0 then Some (snd (process_chunk (unat data_offset) (unat (write_offset - data_offset)) arg))
      else walk_loop process_chunk chunksize write_offset data_offset arg)"

section \<open>Creating, opening and checking a pool\<close>

record log_env =
  le_lib :: pmem_lib
  le_is_pmem :: bool
  le_uuid :: "byte list"
  le_time :: u64
  le_adr :: bool
  le_fail_at :: nat
  le_evict :: "nat \<Rightarrow> nat \<Rightarrow> bool"

text \<open>A file that has just been mapped: nothing is waiting in the caches and buffers.\<close>

definition log_boot :: "log_env \<Rightarrow> mem \<Rightarrow> pmdev" where
  "log_boot env m = \<lparr>pm_view = m, pm_media = m, pm_inflight = (\<lambda>_. None), pm_accepted = (\<lambda>_. None),
     pm_marked = (\<lambda>_. None), pm_adr = le_adr env, pm_time = 0, pm_fail_at = le_fail_at env, pm_evict = le_evict env\<rparr>"

definition LOG_DATA_OFF :: u64 where "LOG_DATA_OFF = roundup SIZEOF_PMEMLOG LOG_FORMAT_DATA_ALIGN"

definition log_check_hdr :: "mem \<Rightarrow> u64 \<Rightarrow> bool \<Rightarrow> errno + bool" where
  "log_check_hdr m poolsize rdonly =
     (case util_convert_hdr (mem_read m 0 POOL_HDR_SIZE) of
        None \<Rightarrow> Inl EINVAL
      | Some hdr \<Rightarrow>
          if \<not> strncmp_eq (hdr_signature hdr) LOG_HDR_SIG POOL_HDR_SIG_LEN then Inl EINVAL
          else if hdr_major hdr \<noteq> LOG_FORMAT_MAJOR then Inl EINVAL
          else
            let hdr_start = log_field m LOG_START_OFF;
                hdr_end = log_field m LOG_END_OFF;
                hdr_write = log_field m LOG_WRITE_OFF in
            if hdr_start \<noteq> LOG_DATA_OFF \<or> hdr_end \<noteq> poolsize \<or> hdr_start > hdr_end then Inl EINVAL
            else if hdr_write > hdr_end \<or> hdr_write < hdr_start then Inl EINVAL
            else
              case util_feature_check hdr LOG_FORMAT_INCOMPAT LOG_FORMAT_RO_COMPAT LOG_FORMAT_COMPAT of
                Inl e \<Rightarrow> Inl e
              | Inr rw \<Rightarrow> Inr (rdonly \<or> \<not> rw))"

text \<open>
  A new pool: the three offsets are synced before the header is written, field by field, with
  the checksum computed over the page as it then is.
\<close>

definition log_store_hdr :: "log_env \<Rightarrow> pmdev \<Rightarrow> pmdev" where
  "log_store_hdr env d =
     (let d1 = store 0 (strncpy LOG_HDR_SIG POOL_HDR_SIG_LEN) d;
          d2 = store 8 (le_enc 4 LOG_FORMAT_MAJOR) d1;
          d3 = store 12 (le_enc 4 LOG_FORMAT_COMPAT) d2;
          d4 = store 16 (le_enc 4 LOG_FORMAT_INCOMPAT) d3;
          d5 = store 20 (le_enc 4 LOG_FORMAT_RO_COMPAT) d4;
          d6 = store 24 (le_uuid env) d5;
          d7 = store 40 (le_enc 8 (le_time env)) d6 in
      store POOL_HDR_CSUM (le_enc 8 (fletcher64 (mem_read (pm_view d7) 0 POOL_HDR_SIZE) POOL_HDR_CSUM)) d7)"

definition log_create_hdr :: "log_env \<Rightarrow> u64 \<Rightarrow> pmdev \<Rightarrow> (errno + pmdev)" where
  "log_create_hdr env poolsize d =
     (if \<not> util_is_zeroed (mem_read (pm_view d) 0 POOL_HDR_SIZE) then Inl EINVAL
      else
        let d1 = store LOG_START_OFF (le_enc 8 LOG_DATA_OFF) d;
            d2 = store LOG_END_OFF (le_enc 8 poolsize) d1;
            d3 = store LOG_WRITE_OFF (mem_read (pm_view d2) LOG_START_OFF 8) d2;
            d4 = pmem_msync LOG_START_OFF (3 * 8) d3 in
        Inr (pmem_msync 0 POOL_HDR_SIZE (log_store_hdr env d4)))"

definition pmemlog_map_common :: "log_env \<Rightarrow> pmdev \<Rightarrow> u64 \<Rightarrow> bool \<Rightarrow> bool \<Rightarrow> pmemlog outcome" where
  "pmemlog_map_common env d poolsize rdonly is_new =
     (if \<not> is_new then
        case log_check_hdr (pm_view d) poolsize rdonly of
          Inl e \<Rightarrow> Err e
        | Inr rdonly' \<Rightarrow> Ok \<lparr>log_dev = d, log_size = poolsize, log_is_pmem = le_is_pmem env, log_rdonly = rdonly'\<rparr>
      else if rdonly then Stuck
      else
        case log_create_hdr env poolsize d of
          Inl e \<Rightarrow> Err e
        | Inr d' \<Rightarrow> Ok \<lparr>log_dev = d', log_size = poolsize, log_is_pmem = le_is_pmem env, log_rdonly = rdonly\<rparr>)"

text \<open>
  Mapping the file: a pool opened for writing shares its contents with the file, which other
  mappings see at once; a pool that is only checked is mapped copy-on-write.
\<close>

definition log_map_file :: "(nat \<Rightarrow> errno option) \<Rightarrow> log_env \<Rightarrow> fs \<Rightarrow> string \<Rightarrow> nat \<Rightarrow> bool \<Rightarrow> bool \<Rightarrow>
    pmemlog outcome \<times> fs" where
  "log_map_file mmap env fs path poolsize rdonly is_new =
     (case (mmap poolsize, fs path) of
        (None, Some f) \<Rightarrow>
          (case pmemlog_map_common env (log_boot env (file_data f)) (of_nat poolsize) rdonly is_new of
             Ok p \<Rightarrow> (Ok p, if rdonly then fs else fs(path \<mapsto> f\<lparr>file_data := log_mem p\<rparr>))
           | r \<Rightarrow> (r, fs))
      | (Some e, _) \<Rightarrow> (Err e, fs)
      | (None, None) \<Rightarrow> (Stuck, fs))"

definition pmemlog_create :: "(nat \<Rightarrow> errno option) \<Rightarrow> (nat \<Rightarrow> errno option) \<Rightarrow> log_env \<Rightarrow> fs \<Rightarrow> string \<Rightarrow> nat \<Rightarrow>
    pmemlog outcome \<times> fs" where
  "pmemlog_create falloc mmap env fs path poolsize =
     (if poolsize \<noteq> 0 then
        case util_pool_create falloc fs path poolsize PMEMLOG_MIN_POOL of
          (Inl e, fs') \<Rightarrow> (Err e, fs')
        | (Inr fd, fs') \<Rightarrow> log_map_file mmap env fs' fd poolsize False True
      else
        case util_pool_open fs path PMEMLOG_MIN_POOL of
          Inl e \<Rightarrow> (Err e, fs)
        | Inr (fd, size') \<Rightarrow> log_map_file mmap env fs fd size' False True)"

definition pmemlog_open :: "(nat \<Rightarrow> errno option) \<Rightarrow> log_env \<Rightarrow> fs \<Rightarrow> string \<Rightarrow> pmemlog outcome \<times> fs" where
  "pmemlog_open mmap env fs path =
     (case util_pool_open fs path PMEMLOG_MIN_POOL of
        Inl e \<Rightarrow> (Err e, fs)
      | Inr (fd, size') \<Rightarrow> log_map_file mmap env fs fd size' False False)"

definition pmemlog_check :: "(nat \<Rightarrow> errno option) \<Rightarrow> log_env \<Rightarrow> fs \<Rightarrow> string \<Rightarrow> bool outcome \<times> fs" where
  "pmemlog_check mmap env fs path =
     (case util_pool_open fs path PMEMLOG_MIN_POOL of
        Inl e \<Rightarrow> (Err e, fs)
      | Inr (fd, size') \<Rightarrow>
          (case log_map_file mmap env fs fd size' True False of
             (Ok p, fs') \<Rightarrow>
               (let hdr_start = log_field (log_mem p) LOG_START_OFF;
                    hdr_end = log_field (log_mem p) LOG_END_OFF;
                    hdr_write = log_field (log_mem p) LOG_WRITE_OFF in
                (Ok (\<not> (hdr_start \<noteq> LOG_DATA_OFF \<or> hdr_end \<noteq> log_size p \<or> hdr_start > hdr_end \<or>
                         hdr_start > hdr_write \<or> hdr_write > hdr_end)), fs'))
           | (Err e, fs') \<Rightarrow> (Err e, fs')
           | (Stuck, fs') \<Rightarrow> (Stuck, fs')))"

end
