(* ===== verification/Log_Props.thy ===== *)
theory Log_Props
  imports Log
begin

text \<open>
  What a log pool promises: its operations refine a list of bytes with a capacity, and a power
  failure at any instant leaves on the media the contents after some prefix of the operations.
  The argument for the write point is made once for every way to persist, inside the interface
  \<open>persistence\<close>; the log uses it through the interpretation on its own choice.
\<close>

section \<open>Copying\<close>

lemma log_memcpy_view [simp]: "pm_view (log_memcpy q bs d) = mem_write (pm_view d) q bs"
proof (induction bs arbitrary: q d)
  case (Cons b bs)
  then show ?case using mem_write_append [of "pm_view d" q "[b]" bs] by simp
qed simp

lemma log_memcpy_append: "log_memcpy q (xs @ ys) d = log_memcpy (q + length xs) ys (log_memcpy q xs d)"
  by (induction xs arbitrary: q d) simp_all

lemma log_memcpy_frozen: "frozen_by (log_memcpy q bs)"
proof (induction bs arbitrary: q)
  case Nil
  then show ?case using frozen_by_id by (simp add: frozen_by_def)
next
  case (Cons b bs)
  have "frozen_by (\<lambda>d. log_memcpy (Suc q) bs (store q [b] d))"
    by (rule frozen_by_comp) (simp_all add: Cons)
  then show ?case by (simp add: frozen_by_def)
qed

lemma log_memcpy_poss:
  "one_word X \<Longrightarrow> poss d X A \<Longrightarrow> (\<And>i. i \<in> X \<Longrightarrow> i < q \<or> q + length bs \<le> i) \<Longrightarrow> poss (log_memcpy q bs d) X A"
proof (induction bs arbitrary: q d)
  case (Cons b bs)
  have out: "i < q \<or> q + Suc (length bs) \<le> i" if "i \<in> X" for i using Cons.prems(3) that by fastforce
  have "poss (store q [b] d) X A"
    by (rule poss_store_outside [OF Cons.prems(1,2)]) (use out in fastforce)
  then have "poss (log_memcpy (Suc q) bs (store q [b] d)) X A"
    by (rule Cons.IH [OF Cons.prems(1)]) (use out in fastforce)
  then show ?case by simp
qed simp

section \<open>Publishing data through one word\<close>

lemma poss_mediaD:
  "poss d X {v} \<Longrightarrow> i \<in> X \<Longrightarrow> pm_media d i = v i"
  "poss d X {v, v'} \<Longrightarrow> (\<forall>i\<in>X. pm_media d i = v i) \<or> (\<forall>i\<in>X. pm_media d i = v' i)"
  by (auto simp: poss_def whole_def)

lemma poss_cong:
  assumes "poss d X {v}" and "\<And>i. i \<in> X \<Longrightarrow> v' i = v i"
  shows "poss d X {v'}"
  using assms by (auto simp: poss_def whole_def whole_opt_def)

context persistence
begin

lemma able_memcpy: "able (log_memcpy q bs d) = able d"
  by (induction bs arbitrary: q d) (simp_all add: able_store)

text \<open>A word is stored and persisted: the media has it as it was or as it is now.\<close>

lemma commit_word:
  fixes bs :: "byte list"
  defines "X w \<equiv> {w..<w + length bs}" and "d' w d \<equiv> persist w (length bs) (store w bs d)"
  assumes X: "one_word (X w)" and old: "poss d (X w) {v}" and able: "able d"
  shows "pm_view (d' w d) = mem_write (pm_view d) w bs" and "able (d' w d)"
    and "poss (d' w d) (X w) {pm_view (d' w d), v}"
    and "\<not> pm_failed (d' w d) \<Longrightarrow> poss (d' w d) (X w) {pm_view (d' w d)}"
    and "pm_failed d \<Longrightarrow> pm_failed (d' w d) \<and> pm_media (d' w d) = pm_media d"
    and "one_word Y \<Longrightarrow> poss d Y A \<Longrightarrow> (\<And>i. i \<in> Y \<Longrightarrow> i < w \<or> w + length bs \<le> i) \<Longrightarrow> poss (d' w d) Y A"
proof -
  show view: "pm_view (d' w d) = mem_write (pm_view d) w bs" by (simp add: d'_def persist_view)
  show "able (d' w d)" using able by (simp add: d'_def able_persist able_store)
  have "poss (store w bs d) (X w) {mem_write (pm_view d) w bs, v}" using poss_store [OF X old] .
  then have "poss (d' w d) (X w) {mem_write (pm_view d) w bs, v}" unfolding d'_def by (rule persist_poss [OF X])
  then show "poss (d' w d) (X w) {pm_view (d' w d), v}" using view by simp
  show "poss (d' w d) (X w) {pm_view (d' w d)}" if "\<not> pm_failed (d' w d)"
    using persist_clean [of "store w bs d" w "length bs"] that able
    by (intro clean_poss) (auto simp: d'_def X_def able_store)
  have "frozen_by (\<lambda>d. persist w (length bs) (store w bs d))" by (rule frozen_by_comp) (simp_all add: persist_frozen)
  then show "pm_failed (d' w d) \<and> pm_media (d' w d) = pm_media d" if "pm_failed d"
    using frozen_byD [of "\<lambda>d. persist w (length bs) (store w bs d)" d] that by (simp add: d'_def)
  show "poss (d' w d) Y A" if Y: "one_word Y" "poss d Y A" "\<And>i. i \<in> Y \<Longrightarrow> i < w \<or> w + length bs \<le> i"
    unfolding d'_def by (intro persist_poss poss_store_outside Y)
qed

text \<open>
  Data is copied and persisted, then a word is stored and persisted.  The media keeps every byte
  that was durable, and it has the word as it was, or the new word and all the data.
\<close>

lemma publish:
  fixes ws bs :: "byte list" and q w :: nat and d :: pmdev and fixd :: "nat set"
  defines "d1 \<equiv> persist q (length bs) (log_memcpy q bs d)"
  defines "d2 \<equiv> persist w (length ws) (store w ws d1)"
  assumes able: "able d" and X: "one_word {w..<w + length ws}" "poss d {w..<w + length ws} {pm_view d}"
    and apart: "w + length ws \<le> q \<or> q + length bs \<le> w"
    and kept: "\<forall>i\<in>fixd. durable d i \<and> i \<notin> {q..<q + length bs} \<and> i \<notin> {w..<w + length ws}"
  shows "pm_view d2 = mem_write (mem_write (pm_view d) q bs) w ws" and "able d2"
    and "\<forall>i\<in>fixd. pm_media d2 i = pm_view d i"
    and "(\<forall>i\<in>{w..<w + length ws}. pm_media d2 i = pm_view d i) \<or>
      (\<forall>i\<in>{w..<w + length ws} \<union> {q..<q + length bs}. pm_media d2 i = pm_view d2 i)"
    and "\<not> pm_failed d2 \<Longrightarrow> (\<forall>i \<in> fixd \<union> {q..<q + length bs}. durable d2 i) \<and> poss d2 {w..<w + length ws} {pm_view d2}"
proof -
  let ?X = "{w..<w + length ws}" and ?v1 = "mem_write (pm_view d) q bs"
  have fixd: "durable d i" "i \<notin> {q..<q + length bs} \<and> i \<notin> {w..<w + length ws}" if "i \<in> fixd" for i
    using kept that by blast+
  have v1: "pm_view d1 = ?v1" by (simp add: d1_def persist_view)
  have able1: "able d1" using able by (simp add: d1_def able_persist able_memcpy)
  have keep1: "poss d1 Y A" if "one_word Y" "poss d Y A" "\<And>i. i \<in> Y \<Longrightarrow> i < q \<or> q + length bs \<le> i" for Y A
    unfolding d1_def by (intro persist_poss log_memcpy_poss that)
  have X1: "poss d1 ?X {pm_view d}" by (rule keep1 [OF X]) (use apart in auto)
  note commit = commit_word [OF X(1) X1 able1, folded d2_def]
  show v2: "pm_view d2 = mem_write ?v1 w ws" using commit(1) v1 by simp
  show "able d2" by (rule commit(2))
  have fix2: "poss d2 {i} {pm_view d}" if "i \<in> fixd" for i
  proof -
    have "poss d1 {i} {pm_view d}" using fixd [OF that] by (intro keep1) (auto simp: durable_poss)
    then show ?thesis using fixd(2) [OF that] by (intro commit(6)) auto
  qed
  then show "\<forall>i\<in>fixd. pm_media d2 i = pm_view d i" using poss_mediaD(1) by blast
  have data2: "poss d2 {i} {pm_view d2}" if on: "\<not> pm_failed d1" and i: "i \<in> {q..<q + length bs}" for i
  proof -
    have "clean d1 i" using persist_clean [of "log_memcpy q bs d" q "length bs"] on i able by (auto simp: d1_def able_memcpy)
    then have "poss d2 {i} {pm_view d1}" using i apart by (intro commit(6)) (auto intro: clean_poss)
    then show ?thesis by (rule poss_cong) (use i apart v1 v2 in \<open>auto simp: mem_write_outside\<close>)
  qed
  show "(\<forall>i\<in>?X. pm_media d2 i = pm_view d i) \<or> (\<forall>i\<in>?X \<union> {q..<q + length bs}. pm_media d2 i = pm_view d2 i)"
  proof (cases "pm_failed d1")
    case True
    then show ?thesis using commit(5) poss_mediaD(1) [OF X1] by auto
  next
    case False
    then show ?thesis using poss_mediaD(2) [OF commit(3)] poss_mediaD(1) [OF data2] by blast
  qed
  show "(\<forall>i \<in> fixd \<union> {q..<q + length bs}. durable d2 i) \<and> poss d2 ?X {pm_view d2}" if on: "\<not> pm_failed d2"
  proof -
    have on1: "\<not> pm_failed d1" using on commit(5) by blast
    have "durable d2 i" if "i \<in> fixd" for i
      unfolding durable_poss by (rule poss_cong [OF fix2 [OF that]]) (use fixd(2) [OF that] v2 in \<open>auto simp: mem_write_outside\<close>)
    then show ?thesis using data2 [OF on1] commit(4) [OF on] by (auto simp: durable_poss)
  qed
qed

end

text \<open>The choice that the log makes is such a way to persist.\<close>

definition log_able :: "pmem_lib \<Rightarrow> bool \<Rightarrow> pmdev \<Rightarrow> bool" where
  "log_able lib is_pmem d \<longleftrightarrow> (is_pmem \<longrightarrow> lib_ok lib \<and> can_persist lib d)"

interpretation log: persistence "log_sync lib is_pmem" "log_able lib is_pmem" for lib is_pmem
proof (cases is_pmem)
  case True
  then have "log_sync lib is_pmem = pmem_persist lib" "log_able lib is_pmem = (\<lambda>d. lib_ok lib \<and> can_persist lib d)"
    by (auto simp: log_sync_def log_able_def)
  then show "persistence (log_sync lib is_pmem) (log_able lib is_pmem)" using pmem.persistence_axioms by simp
next
  case False
  then have "log_sync lib is_pmem = pmem_msync" "log_able lib is_pmem = (\<lambda>_. True)"
    by (auto simp: log_sync_def log_able_def)
  then show "persistence (log_sync lib is_pmem) (log_able lib is_pmem)" using sync.persistence_axioms by simp
qed

section \<open>The log as a list of bytes\<close>

definition log_contents :: "pmemlog \<Rightarrow> byte list" where
  "log_contents p = mem_read (log_mem p) 8192 (unat (log_field (log_mem p) LOG_WRITE_OFF) - 8192)"

datatype log_op = Append "byte list" | Appendv "byte list list" | Rewind | Tell | Nbyte | Walk u64
datatype log_res = Done | Number int | Chunks "byte list list"

fun log_chunks :: "nat \<Rightarrow> byte list \<Rightarrow> byte list list" where
  "log_chunks n [] = []"
| "log_chunks n xs = (if n = 0 then [xs] else take n xs # log_chunks n (drop n xs))"

fun log_spec :: "nat \<Rightarrow> bool \<Rightarrow> log_op \<Rightarrow> byte list \<Rightarrow> log_res outcome \<times> byte list" where
  "log_spec cap ro (Append buf) c =
     (if ro then (Err EROFS, c) else if length c = cap \<or> cap < length c + length buf then (Err ENOSPC, c)
      else (Ok Done, c @ buf))"
| "log_spec cap ro (Appendv iov) c =
     (if iov = [] then (Stuck, c) else if ro then (Err EROFS, c)
      else if length c = cap \<or> cap < length c + length (concat iov) then (Err ENOSPC, c)
      else (Ok Done, c @ concat iov))"
| "log_spec cap ro Rewind c = (if ro then (Err EROFS, c) else (Ok Done, []))"
| "log_spec cap ro Tell c = (Ok (Number (int (length c))), c)"
| "log_spec cap ro Nbyte c = (Ok (Number (int cap)), c)"
| "log_spec cap ro (Walk n) c = (Ok (Chunks (if n = 0 then [c] else log_chunks (unat n) c)), c)"

fun log_spec_run :: "nat \<Rightarrow> bool \<Rightarrow> log_op list \<Rightarrow> byte list \<Rightarrow> log_res outcome list \<times> byte list" where
  "log_spec_run cap ro [] c = ([], c)"
| "log_spec_run cap ro (x # xs) c =
     (case log_spec cap ro x c of (r, c') \<Rightarrow> case log_spec_run cap ro xs c' of (rs, c'') \<Rightarrow> (r # rs, c''))"

text \<open>A walk that collects the chunks it is given.\<close>

definition collect :: "mem \<Rightarrow> nat \<Rightarrow> nat \<Rightarrow> byte list list \<Rightarrow> bool \<times> byte list list" where
  "collect m buf len acc = (True, acc @ [mem_read m buf len])"

fun log_step :: "pmem_lib \<Rightarrow> log_op \<Rightarrow> (pmemlog, log_res) prog" where
  "log_step lib (Append buf) p = andthen (pmemlog_append lib buf) (\<lambda>_. ret Done) p"
| "log_step lib (Appendv iov) p = andthen (pmemlog_appendv lib iov) (\<lambda>_. ret Done) p"
| "log_step lib Rewind p = andthen (pmemlog_rewind lib) (\<lambda>_. ret Done) p"
| "log_step lib Tell p = (Ok (Number (pmemlog_tell p)), p)"
| "log_step lib Nbyte p = (Ok (Number (uint (pmemlog_nbyte p))), p)"
| "log_step lib (Walk n) p =
     (case pmemlog_walk p n (collect (log_mem p)) [] of None \<Rightarrow> (Stuck, p) | Some cs \<Rightarrow> (Ok (Chunks cs), p))"

fun log_run :: "pmem_lib \<Rightarrow> log_op list \<Rightarrow> pmemlog \<Rightarrow> log_res outcome list \<times> pmemlog" where
  "log_run lib [] p = ([], p)"
| "log_run lib (x # xs) p = (case log_step lib x p of (r, p') \<Rightarrow> case log_run lib xs p' of (rs, p'') \<Rightarrow> (r # rs, p''))"

text \<open>Buffers are shorter than the address space, and chunk sizes do not make the offset wrap.\<close>

fun log_op_ok :: "log_op \<Rightarrow> bool" where
  "log_op_ok (Append buf) = (length buf < 2 ^ 64)"
| "log_op_ok (Appendv iov) = (length (concat iov) < 2 ^ 64)"
| "log_op_ok (Walk n) = (unat n \<le> 2 ^ 63)"
| "log_op_ok _ = True"

section \<open>Invariant\<close>

text \<open>The metadata of a mapped pool, read from memory \<open>m\<close>; a file is shorter than \<open>2 ^ 63\<close> bytes.\<close>

definition log_meta :: "u64 \<Rightarrow> mem \<Rightarrow> bool" where
  "log_meta sz m \<longleftrightarrow> log_field m LOG_START_OFF = LOG_DATA_OFF \<and> log_field m LOG_END_OFF = sz \<and>
     8192 \<le> unat (log_field m LOG_WRITE_OFF) \<and> log_field m LOG_WRITE_OFF \<le> sz \<and> unat sz < 2 ^ 63"

definition log_inv :: "pmemlog \<Rightarrow> bool" where
  "log_inv p \<longleftrightarrow> log_meta (log_size p) (log_mem p)"

text \<open>What the media must have for the contents to survive.\<close>

definition log_durable :: "pmem_lib \<Rightarrow> pmemlog \<Rightarrow> bool" where
  "log_durable lib p \<longleftrightarrow> log_able lib (log_is_pmem p) (log_dev p) \<and>
     (\<forall>i < 4112. durable (log_dev p) i) \<and> poss (log_dev p) {4112..<4120} {log_mem p} \<and>
     (\<forall>i. 8192 \<le> i \<longrightarrow> i < unat (log_field (log_mem p) LOG_WRITE_OFF) \<longrightarrow> durable (log_dev p) i)"

definition log_cap :: "pmemlog \<Rightarrow> nat" where
  "log_cap p = unat (log_size p) - 8192"

lemma LOG_DATA_OFF_val [simp]: "LOG_DATA_OFF = 8192"
  by (simp add: LOG_DATA_OFF_def roundup_def SIZEOF_PMEMLOG_def LOG_FORMAT_DATA_ALIGN_def)

lemmas log_offs = LOG_START_OFF_def LOG_END_OFF_def LOG_WRITE_OFF_def

lemma log_field_write: "off + length bs \<le> off' \<or> off' + 8 \<le> off \<Longrightarrow> log_field (mem_write m off bs) off' = log_field m off'"
  by (auto simp: log_field_def mem_read_write_disjoint)

lemma log_field_same [simp]: "log_field (mem_write m off (le_enc 8 (w::u64))) off = w"
  by (simp add: log_field_def)

text \<open>The write point in terms of the contents.\<close>

lemma log_write_point:
  assumes "log_inv p"
  shows "unat (log_field (log_mem p) LOG_WRITE_OFF) = 8192 + length (log_contents p)"
    and "length (log_contents p) \<le> log_cap p" and "log_cap p + 8192 < 2 ^ 63" and "unat (log_size p) = log_cap p + 8192"
  using assms by (auto simp: log_inv_def log_meta_def log_contents_def log_cap_def word_le_nat_alt)

section \<open>Each operation\<close>

text \<open>What a successful append does to the memory system.\<close>

definition log_published :: "pmem_lib \<Rightarrow> byte list \<Rightarrow> pmemlog \<Rightarrow> pmdev" where
  "log_published lib buf p =
     (let w = unat (log_field (log_mem p) LOG_WRITE_OFF); sync = log_sync lib (log_is_pmem p) in
      sync 4112 8 (store 4112 (le_enc 8 (log_field (log_mem p) LOG_WRITE_OFF + of_nat (length buf)))
        (sync w (length buf) (log_memcpy w buf (log_dev p)))))"

lemma unat_of_nat_u64: "n < 2 ^ 64 \<Longrightarrow> unat (of_nat n :: u64) = n"
  by (simp add: unat_of_nat)

lemma unat_add_of_nat: "unat (w::u64) + n < 2 ^ 64 \<Longrightarrow> unat (w + of_nat n) = unat w + n"
  by (simp add: unat_word_ariths unat_of_nat)

lemma log_persist_published:
  assumes inv: "log_inv p" and fits: "length (log_contents p) + length buf \<le> log_cap p"
  shows "pmemlog_persist lib (log_field (log_mem p) LOG_WRITE_OFF + of_nat (length buf))
      (on_dev (log_memcpy (unat (log_field (log_mem p) LOG_WRITE_OFF)) buf) p) = p\<lparr>log_dev := log_published lib buf p\<rparr>"
proof -
  let ?w = "log_field (log_mem p) LOG_WRITE_OFF"
  have "8192 \<le> unat ?w" using log_write_point [OF inv] by simp
  then have "log_field (mem_write (log_mem p) (unat ?w) buf) LOG_WRITE_OFF = ?w"
    by (intro log_field_write) (simp add: log_offs)
  moreover have "unat (of_nat (length buf) :: u64) = length buf"
    using fits log_write_point(3) [OF inv] by (intro unat_of_nat_u64) simp
  ultimately show ?thesis
    by (simp add: pmemlog_persist_def Let_def on_dev_def log_published_def log_offs)
qed

lemma log_append_outcome:
  assumes inv: "log_inv p" and len: "length buf < 2 ^ 64"
  shows "pmemlog_append lib buf p =
    (if log_rdonly p then (Err EROFS, p)
     else if length (log_contents p) = log_cap p \<or> log_cap p < length (log_contents p) + length buf then (Err ENOSPC, p)
     else (Ok (), p\<lparr>log_dev := log_published lib buf p\<rparr>))"
proof -
  let ?w = "log_field (log_mem p) LOG_WRITE_OFF"
  note wp = log_write_point [OF inv]
  have e: "log_field (log_mem p) LOG_END_OFF = log_size p" using inv by (simp add: log_inv_def log_meta_def)
  have full: "log_size p \<le> ?w \<longleftrightarrow> length (log_contents p) = log_cap p" using wp by (auto simp: word_le_nat_alt)
  have "unat (log_size p - ?w) = log_cap p - length (log_contents p)"
    using wp by (simp add: unat_sub word_le_nat_alt)
  then have over: "log_size p - ?w < of_nat (length buf) \<longleftrightarrow> log_cap p < length (log_contents p) + length buf"
    using wp(2) len by (auto simp: word_less_nat_alt unat_of_nat_u64)
  show ?thesis
    using log_persist_published [OF inv, of buf lib] unfolding pmemlog_append_def Let_def e full over by simp
qed

lemma iov_count_concat: "iov_count iov c = c + of_nat (length (concat iov))"
  by (induction iov arbitrary: c) (simp_all add: algebra_simps)

lemma iov_copy_concat:
  "unat w + length (concat iov) < 2 ^ 64 \<Longrightarrow>
   iov_copy iov w d = (w + of_nat (length (concat iov)), log_memcpy (unat w) (concat iov) d)"
proof (induction iov arbitrary: w d)
  case (Cons buf iov)
  have "unat (w + of_nat (length buf)) = unat w + length buf" using Cons.prems by (intro unat_add_of_nat) simp
  then show ?case using Cons by (simp add: log_memcpy_append algebra_simps)
qed simp

text \<open>A gathered append is an append of the concatenation.\<close>

lemma log_appendv_append:
  assumes inv: "log_inv p" and len: "length (concat iov) < 2 ^ 64" and ne: "iov \<noteq> []"
  shows "pmemlog_appendv lib iov p = pmemlog_append lib (concat iov) p"
proof -
  let ?w = "log_field (log_mem p) LOG_WRITE_OFF"
  note wp = log_write_point [OF inv]
  have e: "log_field (log_mem p) LOG_END_OFF = log_size p" using inv by (simp add: log_inv_def log_meta_def)
  have "unat (log_size p - ?w) = unat (log_size p) - unat ?w" using wp by (simp add: unat_sub word_le_nat_alt)
  then have "unat ?w + length (concat iov) < 2 ^ 64" if "\<not> log_size p - ?w < of_nat (length (concat iov))"
    using that len wp unat_of_nat_u64 [OF len] by (simp add: word_less_nat_alt)
  then show ?thesis
    using ne iov_copy_concat [of ?w iov] unfolding pmemlog_appendv_def pmemlog_append_def Let_def e
    by (auto simp: iov_count_concat on_dev_def)
qed

text \<open>The walk, when the offset does not wrap.\<close>

lemma log_chunks_mem:
  "0 < n \<Longrightarrow> 0 < k \<Longrightarrow> log_chunks n (mem_read m off k) = mem_read m off (min n k) # log_chunks n (mem_read m (off + n) (k - n))"
proof -
  assume nk: "0 < n" "0 < k"
  then have "mem_read m off k \<noteq> []" by (metis length_mem_read list.size(3) less_numeral_extra(3))
  then have "log_chunks n (mem_read m off k) = take n (mem_read m off k) # log_chunks n (drop n (mem_read m off k))"
    using nk by (cases "mem_read m off k") auto
  moreover have "take n (mem_read m off k) = mem_read m off (min n k)"
    by (auto simp: list_eq_iff_nth_eq)
  ultimately show ?thesis by (simp add: drop_mem_read)
qed

lemma walk_loop_collects:
  assumes n: "0 < n" and nowrap: "unat w + unat n \<le> 2 ^ 64"
  shows "unat x \<le> unat w + unat n \<Longrightarrow>
    walk_loop (collect m) n w x acc = Some (acc @ log_chunks (unat n) (mem_read m (unat x) (unat w - unat x)))"
proof (induction "unat w - unat x" arbitrary: x acc rule: less_induct)
  case less
  show ?case
  proof (cases "x < w")
    case True
    then have lt: "unat x < unat w" by (simp add: word_less_nat_alt)
    have n0: "0 < unat n" using n by (simp add: word_less_nat_alt)
    have len: "unat (min n (w - x)) = min (unat n) (unat w - unat x)"
      using lt by (simp add: min_def word_le_nat_alt unat_sub)
    have add: "unat (x + n) = unat x + unat n" using lt nowrap by (simp add: unat_word_ariths)
    then have "walk_loop (collect m) n w (x + n) (acc @ [mem_read m (unat x) (min (unat n) (unat w - unat x))]) =
        Some ((acc @ [mem_read m (unat x) (min (unat n) (unat w - unat x))]) @
          log_chunks (unat n) (mem_read m (unat x + unat n) (unat w - (unat x + unat n))))"
      using lt n0 less.hyps [of "x + n"] by simp
    then show ?thesis
      using True len log_chunks_mem [of "unat n" "unat w - unat x" m "unat x"] lt n0
      by (subst walk_loop.simps) (simp add: collect_def Let_def)
  next
    case False
    then have "unat w - unat x = 0" by (simp add: word_less_nat_alt)
    then show ?thesis using False by (subst walk_loop.simps) simp
  qed
qed

lemma log_walk_collects:
  assumes inv: "log_inv p" and n: "unat n \<le> 2 ^ 63"
  shows "pmemlog_walk p n (collect (log_mem p)) [] = Some (if n = 0 then [log_contents p] else log_chunks (unat n) (log_contents p))"
proof -
  let ?w = "log_field (log_mem p) LOG_WRITE_OFF"
  note wp = log_write_point [OF inv]
  have start: "log_field (log_mem p) LOG_START_OFF = 8192" using inv by (simp add: log_inv_def log_meta_def)
  have "unat (?w - 8192) = unat ?w - 8192" using wp by (simp add: unat_sub word_le_nat_alt)
  moreover have "walk_loop (collect (log_mem p)) n ?w 8192 [] = Some (log_chunks (unat n) (log_contents p))" if "n \<noteq> 0"
  proof -
    have "0 < n" using that by (simp add: word_greater_zero_iff)
    moreover have "(2::nat) ^ 64 = 2 ^ 63 + 2 ^ 63" by simp
    then have "unat ?w + unat n \<le> 2 ^ 64" using wp n by linarith
    moreover have "unat (8192 :: u64) \<le> unat ?w + unat n" using wp by simp
    ultimately show ?thesis using walk_loop_collects [of n ?w 8192 "log_mem p" "[]"] by (simp add: log_contents_def)
  qed
  ultimately show ?thesis by (simp add: pmemlog_walk_def Let_def start collect_def log_contents_def)
qed

section \<open>The media under every operation\<close>

text \<open>
  Memory \<open>m\<close> is the image of a log that holds \<open>c\<close>: the bytes before the write point are
  those of \<open>base\<close>, and the write point and the data give the contents.
\<close>

definition log_image :: "mem \<Rightarrow> mem \<Rightarrow> byte list \<Rightarrow> bool" where
  "log_image base m c \<longleftrightarrow> (\<forall>i < 4112. m i = base i) \<and>
     unat (log_field m LOG_WRITE_OFF) = 8192 + length c \<and> mem_read m 8192 (length c) = c"

lemma log_image_view: "log_inv p \<Longrightarrow> log_image (log_mem p) (log_mem p) (log_contents p)"
  using log_write_point(1) [of p] by (simp add: log_image_def log_contents_def)

lemma log_field_cong: "(\<And>i. off \<le> i \<Longrightarrow> i < off + 8 \<Longrightarrow> m' i = m i) \<Longrightarrow> log_field m' off = log_field m off"
  unfolding log_field_def by (rule arg_cong [of _ _ le_dec]) (rule mem_read_cong)

text \<open>The image depends on the metadata and the data alone.\<close>

lemma log_image_cong:
  assumes "log_image base m c" and "\<And>i. i < 4120 \<or> 8192 \<le> i \<and> i < 8192 + length c \<Longrightarrow> m' i = m i"
  shows "log_image base m' c"
proof -
  have "log_field m' LOG_WRITE_OFF = log_field m LOG_WRITE_OFF" using assms(2) by (intro log_field_cong) (simp add: log_offs)
  moreover have "mem_read m' 8192 (length c) = mem_read m 8192 (length c)" using assms(2) by (intro mem_read_cong) simp
  ultimately show ?thesis using assms by (simp add: log_image_def)
qed

text \<open>
  One step of a log whose power may fail: the frame it keeps, and the contents that the media
  may then have.
\<close>

definition log_frame :: "pmemlog \<Rightarrow> pmemlog \<Rightarrow> bool" where
  "log_frame p p' \<longleftrightarrow> log_inv p' \<and> log_size p' = log_size p \<and> log_is_pmem p' = log_is_pmem p \<and>
     log_rdonly p' = log_rdonly p \<and> (\<forall>i < 4112. log_mem p' i = log_mem p i)"

lemma log_published_effect:
  fixes lib :: pmem_lib
  assumes inv: "log_inv p" and fits: "length (log_contents p) + length buf \<le> log_cap p"
  defines "p' \<equiv> p\<lparr>log_dev := log_published lib buf p\<rparr>"
  shows "log_contents p' = log_contents p @ buf" and "log_frame p p'"
proof -
  let ?w = "log_field (log_mem p) LOG_WRITE_OFF" and ?n = "of_nat (length buf) :: u64"
  note wp = log_write_point [OF inv]
  have view: "log_mem p' = mem_write (mem_write (log_mem p) (unat ?w) buf) 4112 (le_enc 8 (?w + ?n))"
    by (simp add: p'_def log_published_def Let_def log.persist_view)
  have w': "log_field (log_mem p') LOG_WRITE_OFF = ?w + ?n" unfolding view by (simp add: log_offs)
  have n: "unat (?w + ?n) = 8192 + (length (log_contents p) + length buf)"
    using fits wp unat_add_of_nat [of ?w "length buf"] by simp
  have "mem_read (log_mem p') 8192 (length (log_contents p)) = log_contents p"
    unfolding view using wp(1) by (simp add: mem_read_write_disjoint) (simp add: log_contents_def)
  moreover have "mem_read (log_mem p') (8192 + length (log_contents p)) (length buf) = buf"
    unfolding view using wp(1) by (simp add: mem_read_write_disjoint)
  ultimately show "log_contents p' = log_contents p @ buf"
    unfolding log_contents_def [of p'] w' n by (simp add: mem_read_append)
  have "log_field (log_mem p') LOG_START_OFF = 8192" "log_field (log_mem p') LOG_END_OFF = log_size p"
    using inv wp(1) unfolding view by (simp_all add: log_field_write log_offs log_inv_def log_meta_def)
  then have "log_inv p'"
    using w' n wp fits unfolding log_inv_def log_meta_def by (simp add: p'_def word_le_nat_alt)
  moreover have "\<forall>i<4112. log_mem p' i = log_mem p i" unfolding view using wp(1) by (simp add: mem_write_outside)
  ultimately show "log_frame p p'" by (simp add: log_frame_def p'_def)
qed

lemma one_word_write_point: "one_word {4112..<4120}"
proof -
  have "i div 8 = 514" if "i \<in> {4112..<4120}" for i :: nat using that by (auto simp: div_nat_eqI)
  then show ?thesis by (auto simp: one_word_def)
qed

lemma log_published_media:
  fixes lib :: pmem_lib
  assumes inv: "log_inv p" and dur: "log_durable lib p" and fits: "length (log_contents p) + length buf \<le> log_cap p"
  defines "p' \<equiv> p\<lparr>log_dev := log_published lib buf p\<rparr>"
  shows "log_image (log_mem p) (pm_media (log_dev p')) (log_contents p) \<or>
      log_image (log_mem p) (pm_media (log_dev p')) (log_contents p @ buf)"
    and "\<not> pm_failed (log_dev p') \<Longrightarrow> log_durable lib p'"
proof -
  let ?w = "log_field (log_mem p) LOG_WRITE_OFF" and ?fixd = "{i. i < 4112} \<union> {8192..<unat (log_field (log_mem p) LOG_WRITE_OFF)}"
  let ?new = "le_enc 8 (?w + of_nat (length buf))" and ?m = "pm_media (log_dev p')"
  note wp = log_write_point [OF inv] and eff = log_published_effect [OF inv fits, where lib = lib, folded p'_def]
  have fixd: "durable (log_dev p) i" "i \<notin> {unat ?w..<unat ?w + length buf} \<and> i \<notin> {4112..<4120}" if "i \<in> ?fixd" for i
    using that dur wp(1) by (auto simp: log_durable_def)
  have dev: "log_dev p' = log_sync lib (log_is_pmem p) 4112 8 (store 4112 ?new
      (log_sync lib (log_is_pmem p) (unat ?w) (length buf) (log_memcpy (unat ?w) buf (log_dev p))))"
    by (simp add: p'_def log_published_def Let_def)
  have able: "log_able lib (log_is_pmem p) (log_dev p)" and X: "poss (log_dev p) {4112..<4120} {log_mem p}"
    using dur by (simp_all add: log_durable_def)
  have apart: "4112 + (8::nat) \<le> unat ?w \<or> unat ?w + length buf \<le> 4112" using wp(1) by simp
  have X': "one_word {4112..<4112 + length ?new}" "poss (log_dev p) {4112..<4112 + length ?new} {log_mem p}"
    using one_word_write_point X by simp_all
  have apart': "4112 + length ?new \<le> unat ?w \<or> unat ?w + length buf \<le> 4112" using apart by simp
  have fixd2: "i \<notin> {unat ?w..<unat ?w + length buf} \<and> i \<notin> {4112..<4112 + length ?new}" if "i \<in> ?fixd" for i
    using fixd(2) [OF that] by simp
  have kept: "\<forall>i\<in>?fixd. durable (log_dev p) i \<and> i \<notin> {unat ?w..<unat ?w + length buf} \<and> i \<notin> {4112..<4112 + length ?new}"
    using fixd(1) fixd2 by blast
  note pub = log.publish [OF able X' apart' kept, unfolded length_le_enc, folded dev]
  note p1 = pub(3) and p2 = pub(4) and p3 = pub(5) and p4 = pub(2)
  have fixm: "?m i = log_mem p i" if "i \<in> ?fixd" for i using p1 that by blast
  have word: "i < 4112 \<or> i \<in> {4112..<4120}" if "i < 4120" for i :: nat using that by auto
  show "log_image (log_mem p) ?m (log_contents p) \<or> log_image (log_mem p) ?m (log_contents p @ buf)"
    using p2
  proof (elim disjE)
    assume "\<forall>i\<in>{4112..<4112 + 8}. ?m i = log_mem p i"
    then have "?m i = log_mem p i" if "i < 4120 \<or> 8192 \<le> i \<and> i < 8192 + length (log_contents p)" for i
      using that fixm [of i] wp(1) word [of i] by auto
    then show ?thesis using log_image_cong [OF log_image_view [OF inv]] by blast
  next
    assume new: "\<forall>i\<in>{4112..<4112 + 8} \<union> {unat ?w..<unat ?w + length buf}. ?m i = log_mem p' i"
    have same: "log_mem p' i = log_mem p i" if "i \<in> ?fixd" for i
      using fixd2 [OF that] unfolding dev by (auto simp: log.persist_view mem_write_def)
    have "?m i = log_mem p' i" if "i < 4120 \<or> 8192 \<le> i \<and> i < 8192 + length (log_contents p @ buf)" for i
      using that fixm [of i] same [of i] new wp(1) word [of i] by fastforce
    moreover have "log_image (log_mem p) (log_mem p') (log_contents p @ buf)"
      using log_image_view [of p'] eff by (simp add: log_frame_def log_image_def)
    ultimately show ?thesis using log_image_cong by blast
  qed
  show "log_durable lib p'" if on: "\<not> pm_failed (log_dev p')"
  proof -
    have "unat (log_field (log_mem p') LOG_WRITE_OFF) = unat ?w + length buf"
      using log_write_point(1) [of p'] eff wp(1) by (simp add: log_frame_def)
    then have "i \<in> ?fixd \<union> {unat ?w..<unat ?w + length buf}"
      if "i < 4112 \<or> 8192 \<le> i \<and> i < unat (log_field (log_mem p') LOG_WRITE_OFF)" for i using that by auto
    then have "durable (log_dev p') i"
      if "i < 4112 \<or> 8192 \<le> i \<and> i < unat (log_field (log_mem p') LOG_WRITE_OFF)" for i using that p3 [OF on] by blast
    then show ?thesis using p3 [OF on] p4 by (simp add: log_durable_def) (simp add: p'_def)
  qed
qed

text \<open>A rewind moves the write point alone.\<close>

definition log_rewound :: "pmem_lib \<Rightarrow> pmemlog \<Rightarrow> pmdev" where
  "log_rewound lib p = log_sync lib (log_is_pmem p) 4112 8 (store 4112 (mem_read (log_mem p) 4096 8) (log_dev p))"

lemma log_rewound_effect:
  fixes lib :: pmem_lib
  assumes inv: "log_inv p"
  defines "p' \<equiv> p\<lparr>log_dev := log_rewound lib p\<rparr>"
  shows "log_contents p' = []" and "log_frame p p'"
proof -
  have view: "log_mem p' = mem_write (log_mem p) 4112 (mem_read (log_mem p) 4096 8)"
    by (simp add: p'_def log_rewound_def log.persist_view)
  have "log_field (log_mem p') LOG_WRITE_OFF = log_field (log_mem p) LOG_START_OFF"
    unfolding view by (simp add: log_field_def log_offs)
  then have w': "log_field (log_mem p') LOG_WRITE_OFF = 8192" using inv by (simp add: log_inv_def log_meta_def)
  then show "log_contents p' = []" by (simp add: log_contents_def)
  have "log_field (log_mem p') LOG_START_OFF = 8192" "log_field (log_mem p') LOG_END_OFF = log_size p"
    using inv unfolding view by (simp_all add: log_field_write log_offs log_inv_def log_meta_def)
  then have "log_inv p'"
    using w' log_write_point [OF inv] unfolding log_inv_def log_meta_def by (simp add: p'_def word_le_nat_alt)
  moreover have "\<forall>i<4112. log_mem p' i = log_mem p i" unfolding view by (simp add: mem_write_outside)
  ultimately show "log_frame p p'" by (simp add: log_frame_def p'_def)
qed

lemma log_rewound_media:
  fixes lib :: pmem_lib
  assumes inv: "log_inv p" and dur: "log_durable lib p"
  defines "p' \<equiv> p\<lparr>log_dev := log_rewound lib p\<rparr>"
  shows "log_image (log_mem p) (pm_media (log_dev p')) (log_contents p) \<or> log_image (log_mem p) (pm_media (log_dev p')) []"
    and "\<not> pm_failed (log_dev p') \<Longrightarrow> log_durable lib p'"
proof -
  let ?new = "mem_read (log_mem p) 4096 8" and ?m = "pm_media (log_dev p')"
  note wp = log_write_point [OF inv] and eff = log_rewound_effect [OF inv, where lib = lib, folded p'_def]
  have dev: "log_dev p' = log_sync lib (log_is_pmem p) 4112 8 (store 4112 ?new (log_dev p))"
    by (simp add: p'_def log_rewound_def)
  have able: "log_able lib (log_is_pmem p) (log_dev p)"
    and X: "one_word {4112..<4112 + length ?new}" "poss (log_dev p) {4112..<4112 + length ?new} {log_mem p}"
    using dur one_word_write_point by (simp_all add: log_durable_def)
  note commit = log.commit_word [OF X able, unfolded length_mem_read, folded dev]
  have fixm: "poss (log_dev p') {i} {log_mem p}" if "i < 4112 \<or> 8192 \<le> i \<and> i < 8192 + length (log_contents p)" for i
    using that dur wp(1) by (intro commit(6)) (auto simp: log_durable_def durable_poss)
  have word: "i < 4112 \<or> i \<in> {4112..<4112 + 8}" if "i < 4120" for i :: nat using that by auto
  have same: "log_mem p' i = log_mem p i" if "i < 4112" for i using eff(2) that by (simp add: log_frame_def)
  show "log_image (log_mem p) ?m (log_contents p) \<or> log_image (log_mem p) ?m []"
    using poss_mediaD(2) [OF commit(3)]
  proof (elim disjE)
    assume "\<forall>i\<in>{4112..<4112 + 8}. ?m i = log_mem p i"
    then have "?m i = log_mem p i" if "i < 4120 \<or> 8192 \<le> i \<and> i < 8192 + length (log_contents p)" for i
      using that poss_mediaD(1) [OF fixm, of i i] word [of i] by auto
    then show ?thesis using log_image_cong [OF log_image_view [OF inv]] by blast
  next
    assume "\<forall>i\<in>{4112..<4112 + 8}. ?m i = log_mem p' i"
    then have "?m i = log_mem p' i" if "i < 4120" for i
      using that poss_mediaD(1) [OF fixm, of i i] same [of i] word [of i] by auto
    moreover have "log_image (log_mem p) (log_mem p') []"
      using log_image_view [of p'] eff by (simp add: log_frame_def log_image_def)
    ultimately have "log_image (log_mem p) ?m []" by (auto intro: log_image_cong)
    then show ?thesis ..
  qed
  show "log_durable lib p'" if on: "\<not> pm_failed (log_dev p')"
  proof -
    have "durable (log_dev p') i" if "i < 4112" for i
      unfolding durable_poss by (rule poss_cong [OF fixm]) (use that same in auto)
    moreover have "unat (log_field (log_mem p') LOG_WRITE_OFF) = 8192"
      using log_write_point(1) [of p'] eff by (simp add: log_frame_def)
    ultimately show ?thesis using commit(2) commit(4) [OF on] by (simp add: log_durable_def) (simp add: p'_def)
  qed
qed

text \<open>Once the power is off, the media stays as it is.\<close>

lemma log_frozen:
  assumes "pm_failed (log_dev p)"
  shows "pm_failed (log_published lib buf p) \<and> pm_media (log_published lib buf p) = pm_media (log_dev p)"
    and "pm_failed (log_rewound lib p) \<and> pm_media (log_rewound lib p) = pm_media (log_dev p)"
proof -
  let ?sync = "log_sync lib (log_is_pmem p)" and ?w = "log_field (log_mem p) LOG_WRITE_OFF"
  have "frozen_by (\<lambda>d. ?sync 4112 8 (store 4112 (le_enc 8 (?w + of_nat (length buf)))
      (?sync (unat ?w) (length buf) (log_memcpy (unat ?w) buf d))))"
    by (rule frozen_by_comp [OF frozen_by_comp [OF frozen_by_comp [OF log_memcpy_frozen log.persist_frozen] frozen_by_instr(1)] log.persist_frozen])
  then show "pm_failed (log_published lib buf p) \<and> pm_media (log_published lib buf p) = pm_media (log_dev p)"
    using assms frozen_byD unfolding log_published_def Let_def by blast
  have "frozen_by (\<lambda>d. ?sync 4112 8 (store 4112 (mem_read (log_mem p) 4096 8) d))"
    by (rule frozen_by_comp [OF frozen_by_instr(1) log.persist_frozen])
  then show "pm_failed (log_rewound lib p) \<and> pm_media (log_rewound lib p) = pm_media (log_dev p)"
    using assms frozen_byD unfolding log_rewound_def by blast
qed

section \<open>Sequences of operations\<close>

lemma pmemlog_rewind_outcome:
  "pmemlog_rewind lib p = (if log_rdonly p then (Err EROFS, p) else (Ok (), p\<lparr>log_dev := log_rewound lib p\<rparr>))"
  by (simp add: pmemlog_rewind_def on_dev_def log_rewound_def log_offs)

lemma log_tell_nbyte:
  assumes inv: "log_inv p"
  shows "pmemlog_tell p = int (length (log_contents p))" and "uint (pmemlog_nbyte p) = int (log_cap p)"
proof -
  let ?w = "log_field (log_mem p) LOG_WRITE_OFF"
  note wp = log_write_point [OF inv]
  have f: "log_field (log_mem p) LOG_START_OFF = 8192" "log_field (log_mem p) LOG_END_OFF = log_size p"
    using inv by (simp_all add: log_inv_def log_meta_def)
  have "unat (?w - 8192) = length (log_contents p)" using wp by (simp add: unat_sub word_le_nat_alt)
  moreover have "length (log_contents p) < 2 ^ 63" using wp by linarith
  then have "int (length (log_contents p)) < 2 ^ 63" by simp
  then have "signed_take_bit 63 (int (length (log_contents p))) = int (length (log_contents p))"
    by (intro signed_take_bit_int_eq_self) auto
  moreover have "uint (?w - 8192) = int (length (log_contents p))"
    using \<open>unat (?w - 8192) = length (log_contents p)\<close> by (metis uint_nat)
  ultimately show "pmemlog_tell p = int (length (log_contents p))"
    by (simp add: pmemlog_tell_def f sint_uint)
  have "unat (log_size p - 8192) = log_cap p" using wp by (simp add: unat_sub word_le_nat_alt)
  then show "uint (pmemlog_nbyte p) = int (log_cap p)" by (simp add: pmemlog_nbyte_def f uint_nat)
qed

text \<open>A step leaves the pool alone, publishes data or rewinds, with the outcome the list prescribes.\<close>

lemma log_step_cases:
  assumes inv: "log_inv p" and ok: "log_op_ok x"
  obtains "log_step lib x p = (fst (log_spec (log_cap p) (log_rdonly p) x (log_contents p)), p)"
      "snd (log_spec (log_cap p) (log_rdonly p) x (log_contents p)) = log_contents p"
  | buf where "length (log_contents p) + length buf \<le> log_cap p"
      "log_step lib x p = (fst (log_spec (log_cap p) (log_rdonly p) x (log_contents p)), p\<lparr>log_dev := log_published lib buf p\<rparr>)"
      "snd (log_spec (log_cap p) (log_rdonly p) x (log_contents p)) = log_contents p @ buf"
  | "log_step lib x p = (fst (log_spec (log_cap p) (log_rdonly p) x (log_contents p)), p\<lparr>log_dev := log_rewound lib p\<rparr>)"
      "snd (log_spec (log_cap p) (log_rdonly p) x (log_contents p)) = []"
proof (cases x)
  case (Append buf)
  then show thesis
    using log_append_outcome [OF inv, of buf lib] ok that(1) that(2) [of buf]
    by (auto simp: andthen_def ret_def split: if_splits)
next
  case (Appendv iov)
  then show thesis
    using log_append_outcome [OF inv, of "concat iov" lib] log_appendv_append [OF inv, of iov lib] ok that(1) that(2) [of "concat iov"]
    by (cases "iov = []") (auto simp: andthen_def ret_def pmemlog_appendv_def Let_def split: if_splits)
next
  case Rewind
  then show thesis using that(1,3) pmemlog_rewind_outcome [of lib p] by (cases "log_rdonly p") (auto simp: andthen_def ret_def)
next
  case (Walk n)
  then show thesis using log_walk_collects [OF inv, of n] ok that(1) by auto
qed (use log_tell_nbyte [OF inv] that(1) in auto)

lemma log_step_refines:
  assumes inv: "log_inv p" and ok: "log_op_ok x"
  shows "\<exists>p'. log_step lib x p = (fst (log_spec (log_cap p) (log_rdonly p) x (log_contents p)), p') \<and>
    log_contents p' = snd (log_spec (log_cap p) (log_rdonly p) x (log_contents p)) \<and> log_frame p p'"
  using inv ok
proof (cases rule: log_step_cases [where lib = lib])
  case 1
  then show ?thesis using inv by (auto simp: log_frame_def)
qed (use inv log_published_effect log_rewound_effect in auto)

lemma log_step_media:
  assumes inv: "log_inv p" and dur: "log_durable lib p" and ok: "log_op_ok x"
  defines "p' \<equiv> snd (log_step lib x p)"
  shows "log_image (log_mem p) (pm_media (log_dev p')) (log_contents p) \<or>
      log_image (log_mem p) (pm_media (log_dev p')) (snd (log_spec (log_cap p) (log_rdonly p) x (log_contents p)))"
    and "\<not> pm_failed (log_dev p') \<Longrightarrow> log_durable lib p'"
proof -
  have media: "log_image (log_mem p) (pm_media (log_dev p)) (log_contents p)"
  proof (rule log_image_cong [OF log_image_view [OF inv]])
    fix i assume i: "i < 4120 \<or> 8192 \<le> i \<and> i < 8192 + length (log_contents p)"
    show "pm_media (log_dev p) i = log_mem p i"
    proof (cases "i \<in> {4112..<4120}")
      case True
      then show ?thesis using dur poss_mediaD(1) by (fastforce simp: log_durable_def)
    next
      case False
      then show ?thesis using i dur log_write_point(1) [OF inv] by (auto simp: log_durable_def durable_def)
    qed
  qed
  have "(log_image (log_mem p) (pm_media (log_dev p')) (log_contents p) \<or>
      log_image (log_mem p) (pm_media (log_dev p')) (snd (log_spec (log_cap p) (log_rdonly p) x (log_contents p)))) \<and>
      (\<not> pm_failed (log_dev p') \<longrightarrow> log_durable lib p')"
    using inv ok
  proof (cases rule: log_step_cases [where lib = lib])
    case 1
    then show ?thesis using media dur by (simp add: p'_def)
  next
    case (2 buf)
    then show ?thesis using log_published_media(1,2) [OF inv dur 2(1)] by (simp add: p'_def)
  next
    case 3
    then show ?thesis using log_rewound_media(1,2) [OF inv dur] by (simp add: p'_def)
  qed
  then show "log_image (log_mem p) (pm_media (log_dev p')) (log_contents p) \<or>
      log_image (log_mem p) (pm_media (log_dev p')) (snd (log_spec (log_cap p) (log_rdonly p) x (log_contents p)))"
    and "\<not> pm_failed (log_dev p') \<Longrightarrow> log_durable lib p'" by blast+
qed

lemma log_step_frozen:
  assumes inv: "log_inv p" and ok: "log_op_ok x" and off: "pm_failed (log_dev p)"
  shows "pm_failed (log_dev (snd (log_step lib x p))) \<and> pm_media (log_dev (snd (log_step lib x p))) = pm_media (log_dev p)"
  using inv ok by (cases rule: log_step_cases [where lib = lib]) (simp_all add: off log_frozen)

lemma log_frame_trans: "log_frame p q \<Longrightarrow> log_frame q r \<Longrightarrow> log_frame p r"
  by (simp add: log_frame_def)

lemma log_run_refines:
  "log_inv p \<Longrightarrow> \<forall>x\<in>set xs. log_op_ok x \<Longrightarrow>
   fst (log_run lib xs p) = fst (log_spec_run (log_cap p) (log_rdonly p) xs (log_contents p)) \<and>
   log_contents (snd (log_run lib xs p)) = snd (log_spec_run (log_cap p) (log_rdonly p) xs (log_contents p)) \<and>
   log_frame p (snd (log_run lib xs p))"
proof (induction xs arbitrary: p)
  case Nil
  then show ?case by (simp add: log_frame_def)
next
  case (Cons x xs)
  let ?s = "log_spec (log_cap p) (log_rdonly p) x (log_contents p)"
  have "log_op_ok x" using Cons.prems by simp
  then obtain p' where p': "log_step lib x p = (fst ?s, p')" "log_contents p' = snd ?s" "log_frame p p'"
    using log_step_refines [OF Cons.prems(1), of x lib] by blast
  then have same: "log_inv p'" "log_cap p' = log_cap p" "log_rdonly p' = log_rdonly p"
    by (simp_all add: log_frame_def log_cap_def)
  from Cons.IH [OF same(1)] Cons.prems(2) show ?case
    using p' same log_frame_trans [OF p'(3)] by (auto split: prod.splits)
qed

lemma log_run_frozen:
  "log_inv p \<Longrightarrow> \<forall>x\<in>set xs. log_op_ok x \<Longrightarrow> pm_failed (log_dev p) \<Longrightarrow>
   pm_failed (log_dev (snd (log_run lib xs p))) \<and> pm_media (log_dev (snd (log_run lib xs p))) = pm_media (log_dev p)"
proof (induction xs arbitrary: p)
  case (Cons x xs)
  then have x: "log_op_ok x" and xs: "\<forall>x\<in>set xs. log_op_ok x" by simp_all
  obtain r p' where p': "log_step lib x p = (r, p')" by (cases "log_step lib x p")
  have "log_inv p'" using log_step_refines [OF Cons.prems(1) x, of lib] p' by (auto simp: log_frame_def)
  then show ?case using Cons.IH [OF _ xs, of p'] log_step_frozen [OF Cons.prems(1) x Cons.prems(3), of lib] p'
    by (auto split: prod.splits)
qed simp

text \<open>
  A power failure at any instant of a sequence: the media has the contents after some prefix of
  it, and after all of it when the power stayed on.
\<close>

lemma log_run_media:
  "log_inv p \<Longrightarrow> log_durable lib p \<Longrightarrow> \<forall>x\<in>set xs. log_op_ok x \<Longrightarrow>
   \<exists>k \<le> length xs.
     log_image (log_mem p) (pm_media (log_dev (snd (log_run lib xs p))))
       (snd (log_spec_run (log_cap p) (log_rdonly p) (take k xs) (log_contents p))) \<and>
     (\<not> pm_failed (log_dev (snd (log_run lib xs p))) \<longrightarrow> k = length xs)"
proof (induction xs arbitrary: p)
  case Nil
  then show ?case using log_step_media(1) [of p lib Tell] by simp
next
  case (Cons x xs)
  let ?s = "log_spec (log_cap p) (log_rdonly p) x (log_contents p)"
  have x: "log_op_ok x" and xs: "\<forall>x\<in>set xs. log_op_ok x" using Cons.prems by simp_all
  obtain p' where p': "log_step lib x p = (fst ?s, p')" "log_contents p' = snd ?s" "log_frame p p'"
    using log_step_refines [OF Cons.prems(1) x, of lib] by blast
  have run: "snd (log_run lib (x # xs) p) = snd (log_run lib xs p')" using p'(1) by (simp split: prod.splits)
  have same: "log_inv p'" "log_cap p' = log_cap p" "log_rdonly p' = log_rdonly p" "\<forall>i<4112. log_mem p' i = log_mem p i"
    using p'(3) by (simp_all add: log_frame_def log_cap_def)
  show ?case
  proof (cases "pm_failed (log_dev p')")
    case True
    have fr: "pm_failed (log_dev (snd (log_run lib xs p')))"
      "pm_media (log_dev (snd (log_run lib xs p'))) = pm_media (log_dev p')"
      using log_run_frozen [OF same(1) xs True, of lib] by blast+
    have "log_image (log_mem p) (pm_media (log_dev p')) (log_contents p) \<or> log_image (log_mem p) (pm_media (log_dev p')) (snd ?s)"
      using log_step_media(1) [OF Cons.prems(1,2) x] p'(1) by simp
    then show ?thesis
    proof (elim disjE)
      assume "log_image (log_mem p) (pm_media (log_dev p')) (log_contents p)"
      then show ?thesis using fr unfolding run by (intro exI [of _ 0]) simp
    next
      assume "log_image (log_mem p) (pm_media (log_dev p')) (snd ?s)"
      then show ?thesis using fr unfolding run by (intro exI [of _ 1]) (auto split: prod.splits)
    qed
  next
    case False
    then have "log_durable lib p'" using log_step_media(2) [OF Cons.prems(1,2) x] p'(1) by simp
    from Cons.IH [OF same(1) this xs] obtain k where "k \<le> length xs"
      "log_image (log_mem p') (pm_media (log_dev (snd (log_run lib xs p'))))
        (snd (log_spec_run (log_cap p) (log_rdonly p) (take k xs) (snd ?s)))"
      "\<not> pm_failed (log_dev (snd (log_run lib xs p'))) \<longrightarrow> k = length xs"
      unfolding same(2,3) p'(2) by blast
    then show ?thesis
      unfolding run using same(4) by (intro exI [of _ "Suc k"]) (auto simp: log_image_def split: prod.splits)
  qed
qed

end
