(* ===== verification/Log_Facts.thy ===== *)
theory Log_Facts
  imports Log_Props
begin

text \<open>
  Properties of the log library: refinement of a list of bytes, power failures, creation, the
  walk and the consistency check, each applied to a concrete pool at the end.
\<close>

section \<open>Reopening an image\<close>

lemma log_check_hdr_InrD:
  assumes "log_check_hdr m sz ro = Inr r"
  shows "log_field m LOG_START_OFF = 8192" "log_field m LOG_END_OFF = sz" "8192 \<le> unat (log_field m LOG_WRITE_OFF)"
    "log_field m LOG_WRITE_OFF \<le> sz"
proof -
  obtain hdr where "util_convert_hdr (mem_read m 0 POOL_HDR_SIZE) = Some hdr"
    using assms by (cases "util_convert_hdr (mem_read m 0 POOL_HDR_SIZE)") (auto simp: log_check_hdr_def)
  then have "log_field m LOG_START_OFF = 8192 \<and> log_field m LOG_END_OFF = sz \<and> \<not> log_field m LOG_WRITE_OFF < 8192 \<and>
      \<not> sz < log_field m LOG_WRITE_OFF"
    using assms by (simp add: log_check_hdr_def Let_def split: if_splits)
  then show "log_field m LOG_START_OFF = 8192" "log_field m LOG_END_OFF = sz" "8192 \<le> unat (log_field m LOG_WRITE_OFF)"
    "log_field m LOG_WRITE_OFF \<le> sz" by (simp_all add: word_less_nat_alt not_less word_le_nat_alt)
qed

lemma log_check_hdr_image:
  assumes base: "log_check_hdr base sz ro = Inr r" and img: "log_image base m c" and fits: "8192 + length c \<le> unat sz"
  shows "log_check_hdr m sz ro = Inr r"
proof -
  note b = log_check_hdr_InrD [OF base]
  have hdr: "mem_read m 0 POOL_HDR_SIZE = mem_read base 0 POOL_HDR_SIZE"
    using img by (intro mem_read_cong) (simp add: log_image_def POOL_HDR_SIZE_def)
  have "log_field m LOG_START_OFF = log_field base LOG_START_OFF" "log_field m LOG_END_OFF = log_field base LOG_END_OFF"
    using img by (auto intro!: log_field_cong simp: log_image_def log_offs)
  moreover have "\<not> log_field m LOG_WRITE_OFF < 8192" "\<not> sz < log_field m LOG_WRITE_OFF"
    using img fits by (simp_all add: log_image_def word_less_nat_alt)
  moreover have "\<not> log_field base LOG_WRITE_OFF < 8192" "\<not> sz < log_field base LOG_WRITE_OFF" "\<not> sz < 8192"
    using b by (simp_all add: word_less_nat_alt word_le_nat_alt)
  ultimately show ?thesis
    using base b unfolding log_check_hdr_def hdr
    by (cases "util_convert_hdr (mem_read base 0 POOL_HDR_SIZE)") (simp_all add: Let_def split: if_splits)
qed

definition log_env_ok :: "log_env \<Rightarrow> bool" where
  "log_env_ok env \<longleftrightarrow> (le_is_pmem env \<longrightarrow> lib_ok (le_lib env) \<and> (le_adr env \<or> pmem_has_hw_drain (le_lib env)))"

lemma log_boot_simps [simp]: "pm_view (log_boot env m) = m" "pm_media (log_boot env m) = m" "clean (log_boot env m) i"
  by (simp_all add: log_boot_def clean_def)

lemma log_boot_able: "log_able (le_lib env) (le_is_pmem env) (log_boot env m) \<longleftrightarrow> log_env_ok env"
  by (auto simp: log_able_def log_env_ok_def can_persist_def log_boot_def)

text \<open>A pool file that holds an image opens with its contents.\<close>

lemma log_open_image:
  assumes base: "log_check_hdr base sz False = Inr r" and img: "log_image base m c" and fits: "8192 + length c \<le> unat sz"
    and sz: "PMEMLOG_MIN_POOL \<le> unat sz" "unat sz < 2 ^ 63"
    and fs: "fs path = Some \<lparr>file_size = unat sz, file_data = m\<rparr>" and mmap: "mmap (unat sz) = None"
  shows "\<exists>q. pmemlog_open mmap env fs path = (Ok q, fs) \<and> log_inv q \<and> log_contents q = c \<and>
    log_size q = sz \<and> log_rdonly q = r \<and> (log_env_ok env \<longrightarrow> log_durable (le_lib env) q)"
proof -
  let ?q = "\<lparr>log_dev = log_boot env m, log_size = sz, log_is_pmem = le_is_pmem env, log_rdonly = r\<rparr>"
  have chk: "log_check_hdr m sz False = Inr r" by (rule log_check_hdr_image [OF base img fits])
  note f = log_check_hdr_InrD [OF chk]
  have inv: "log_inv ?q" using f sz by (simp add: log_inv_def log_meta_def)
  have "unat (log_field m LOG_WRITE_OFF) = 8192 + length c" using img by (simp add: log_image_def)
  then have "log_contents ?q = c" using img by (simp add: log_contents_def log_image_def)
  moreover have "poss (log_boot env m) {4112..<4120} {m}" using clean_poss [of "{4112..<4120}" "log_boot env m"] by simp
  then have "log_durable (le_lib env) ?q" if "log_env_ok env"
    using that log_boot_able [of env m] by (auto simp: log_durable_def intro!: clean_durable)
  moreover have "pmemlog_open mmap env fs path = (Ok ?q, fs)"
    using fs mmap sz(1) chk
    by (auto simp: pmemlog_open_def util_pool_open_def log_map_file_def pmemlog_map_common_def fun_eq_iff)
  ultimately show ?thesis using inv by (intro exI [of _ ?q]) simp
qed

section \<open>A new pool\<close>

lemma zero_page_write:
  assumes "\<forall>i<n. v i = 0" and "length bs \<le> n"
  shows "mem_read (mem_write v 0 bs) 0 n = bs @ replicate (n - length bs) 0"
  using assms by (intro nth_equalityI) (auto simp: nth_append mem_write_def)

lemma le_enc_0: "le_enc n (0 :: 'a::len word) = replicate n 0"
  by (simp add: le_enc_def map_replicate_const)

lemma with_csum_mem:
  assumes bs: "mem_read v 0 n = bs" and c: "c + 8 \<le> n"
  shows "mem_read (mem_write v c (le_enc 8 (fletcher64 bs c))) 0 n = with_csum c bs"
proof (rule nth_equalityI)
  have len: "length bs = n" using bs by auto
  then show "length (mem_read (mem_write v c (le_enc 8 (fletcher64 bs c))) 0 n) = length (with_csum c bs)" using c by simp
  fix i assume "i < length (mem_read (mem_write v c (le_enc 8 (fletcher64 bs c))) 0 n)"
  then have i: "i < n" by simp
  then have v: "v i = bs ! i" using bs by auto
  show "mem_read (mem_write v c (le_enc 8 (fletcher64 bs c))) 0 n ! i = with_csum c bs ! i"
  proof (cases "c \<le> i \<and> i < c + 8")
    case True
    then have "i - c < 8" by auto
    then show ?thesis using True i len c by (simp add: mem_write_def util_checksum_def Let_def nth_append)
  next
    case False
    then show ?thesis using i v c len nth_with_csum [of c bs i] by (auto simp: mem_write_def)
  qed
qed

lemma log_store_hdr_view:
  assumes zero: "\<forall>i<4096. pm_view d i = 0" and uuid: "length (le_uuid env) = 16"
  shows "mem_read (pm_view (log_store_hdr env d)) 0 4096 = new_pool_hdr LOG_HDR_SIG LOG_FORMAT_MAJOR LOG_FORMAT_COMPAT
      LOG_FORMAT_INCOMPAT LOG_FORMAT_RO_COMPAT (le_uuid env) (le_time env)"
    and "4096 \<le> i \<Longrightarrow> pm_view (log_store_hdr env d) i = pm_view d i"
proof -
  let ?bs = "strncpy LOG_HDR_SIG 8 @ le_enc 4 LOG_FORMAT_MAJOR @ le_enc 4 LOG_FORMAT_COMPAT @ le_enc 4 LOG_FORMAT_INCOMPAT
    @ le_enc 4 LOG_FORMAT_RO_COMPAT @ le_uuid env @ le_enc 8 (le_time env)"
  let ?v = "mem_write (pm_view d) 0 ?bs"
  have len: "length ?bs = 48" using uuid by simp
  have page: "mem_read ?v 0 4096 = ?bs @ replicate 4048 0" using zero_page_write [OF zero, of ?bs] len by simp
  have view: "pm_view (log_store_hdr env d) = mem_write ?v 4088 (le_enc 8 (fletcher64 (?bs @ replicate 4048 0) 4088))"
    using uuid page
    by (simp add: log_store_hdr_def Let_def mem_write_append POOL_HDR_SIG_LEN_def POOL_HDR_SIZE_def POOL_HDR_CSUM_def)
  have "replicate 4048 0 = replicate 4040 (0::byte) @ le_enc 8 (0::u64)"
    unfolding le_enc_0 by (simp flip: replicate_add)
  then have hdr: "new_pool_hdr LOG_HDR_SIG LOG_FORMAT_MAJOR LOG_FORMAT_COMPAT LOG_FORMAT_INCOMPAT LOG_FORMAT_RO_COMPAT
      (le_uuid env) (le_time env) = with_csum 4088 (?bs @ replicate 4048 0)"
    by (simp add: new_pool_hdr_def bytes_of_hdr_def POOL_HDR_SIG_LEN_def POOL_HDR_CSUM_def)
  have "length (?bs @ replicate 4048 0) = 4096" using len by simp
  then show "mem_read (pm_view (log_store_hdr env d)) 0 4096 = new_pool_hdr LOG_HDR_SIG LOG_FORMAT_MAJOR LOG_FORMAT_COMPAT
      LOG_FORMAT_INCOMPAT LOG_FORMAT_RO_COMPAT (le_uuid env) (le_time env)"
    unfolding hdr view by (intro with_csum_mem page) simp_all
  show "4096 \<le> i \<Longrightarrow> pm_view (log_store_hdr env d) i = pm_view d i"
    unfolding view using len by (simp add: mem_write_outside)
qed

lemma log_hdr_stores_poss:
  assumes "one_word X" and "poss d X A" and "\<And>i. i \<in> X \<Longrightarrow> 4096 \<le> i" and "length (le_uuid env) = 16"
  shows "poss (log_store_hdr env d) X A"
proof -
  have out: "i < p \<or> p + n \<le> i" if "i \<in> X" "p + n \<le> 4096" for i p n :: nat using assms(3) [OF that(1)] that(2) by simp
  show ?thesis
    unfolding log_store_hdr_def Let_def
    by (intro poss_store_outside assms(1,2) out; assumption?)
      (simp_all add: assms(4) POOL_HDR_CSUM_def POOL_HDR_SIG_LEN_def)
qed

lemma log_create_hdr_done:
  fixes sz :: u64
  assumes zero: "\<forall>i<4096. m i = 0" and uuid: "length (le_uuid env) = 16"
    and sz: "8192 \<le> unat sz" "unat sz < 2 ^ 63" and env: "log_env_ok env"
  shows "\<exists>d. log_create_hdr env sz (log_boot env m) = Inr d \<and> log_check_hdr (pm_view d) sz False = Inr False \<and>
    log_field (pm_view d) LOG_WRITE_OFF = 8192 \<and>
    (\<not> pm_failed d \<longrightarrow> log_durable (le_lib env) \<lparr>log_dev = d, log_size = sz, log_is_pmem = le_is_pmem env, log_rdonly = False\<rparr>)"
proof -
  define d2 where "d2 = store LOG_END_OFF (le_enc 8 sz) (store LOG_START_OFF (le_enc 8 LOG_DATA_OFF) (log_boot env m))"
  define d3 where "d3 = store LOG_WRITE_OFF (mem_read (pm_view d2) LOG_START_OFF 8) d2"
  define d4 where "d4 = pmem_msync LOG_START_OFF (3 * 8) d3"
  define d5 where "d5 = log_store_hdr env d4"
  define d where "d = pmem_msync 0 POOL_HDR_SIZE d5"
  have "util_is_zeroed (mem_read m 0 POOL_HDR_SIZE)"
    using zero by (auto simp: util_is_zeroed_iff in_set_conv_nth POOL_HDR_SIZE_def)
  then have create: "log_create_hdr env sz (log_boot env m) = Inr d"
    by (simp add: log_create_hdr_def Let_def d_def d5_def d4_def d3_def d2_def)
  have v2: "pm_view d2 = mem_write (mem_write m 4096 (le_enc 8 (8192::u64))) 4104 (le_enc 8 sz)" by (simp add: d2_def log_offs)
  have "mem_read (pm_view d2) 4096 8 = le_enc 8 (8192::u64)" unfolding v2 by (simp add: mem_read_write_disjoint)
  then have v4: "pm_view d4 = mem_write (mem_write (mem_write m 4096 (le_enc 8 (8192::u64))) 4104 (le_enc 8 sz)) 4112 (le_enc 8 (8192::u64))"
    by (simp add: d4_def d3_def sync.persist_view log_offs v2)
  have zero4: "\<forall>i<4096. pm_view d4 i = 0" unfolding v4 using zero by (simp add: mem_write_outside)
  note hdr = log_store_hdr_view [OF zero4 uuid, folded d5_def]
  have v: "pm_view d = pm_view d5" by (simp add: d_def sync.persist_view)
  have field: "log_field (pm_view d) off = log_field (pm_view d4) off" if "4096 \<le> off" for off
    using that hdr(2) unfolding v by (intro log_field_cong) simp
  have f: "log_field (pm_view d) 4096 = 8192" "log_field (pm_view d) 4104 = sz" "log_field (pm_view d) 4112 = 8192"
    by (simp_all add: field v4 log_field_write)
  have sig: "strncmp_eq (strncpy LOG_HDR_SIG 8) LOG_HDR_SIG 8"
    by (simp add: LOG_HDR_SIG_def c_str_def strncpy_def eval_nat_numeral)
  have "\<exists>h. util_convert_hdr (mem_read (pm_view d) 0 4096) = Some h \<and> hdr_signature h = strncpy LOG_HDR_SIG 8 \<and>
      hdr_major h = 1 \<and> hdr_incompat_features h = 0 \<and> hdr_ro_compat_features h = 0"
    unfolding v hdr(1) using new_pool_hdr_valid(3) [OF uuid, of LOG_FORMAT_MAJOR LOG_HDR_SIG LOG_FORMAT_COMPAT LOG_FORMAT_INCOMPAT
      LOG_FORMAT_RO_COMPAT "le_time env"] by (auto simp: LOG_FORMAT_MAJOR_def LOG_FORMAT_INCOMPAT_def LOG_FORMAT_RO_COMPAT_def)
  then have check: "log_check_hdr (pm_view d) sz False = Inr False"
    using sz f sig
    by (auto simp: log_check_hdr_def Let_def log_offs util_feature_check_def POOL_HDR_SIZE_def POOL_HDR_SIG_LEN_def
        LOG_FORMAT_MAJOR_def word_less_nat_alt)
  have "log_durable (le_lib env) \<lparr>log_dev = d, log_size = sz, log_is_pmem = le_is_pmem env, log_rdonly = False\<rparr>" if on: "\<not> pm_failed d"
  proof -
    have adr: "pm_adr d = le_adr env"
      by (simp add: d_def d5_def d4_def d3_def d2_def pmem_msync_def log_store_hdr_def Let_def log_boot_def)
    have on5: "\<not> pm_failed d5" using on frozen_byD(1) [OF sync.persist_frozen] unfolding d_def by blast
    then have on4: "\<not> pm_failed d4" by (auto simp: d5_def pm_failed_def log_store_hdr_def Let_def)
    have late: "poss d X {pm_view d}" if X: "one_word X" "X \<subseteq> {4096..<4120}" for X
    proof -
      have "clean d4 i" if "i \<in> X" for i
        using sync.persist_clean [of 4096 24 d3 i] on4 that X(2) by (auto simp: d4_def log_offs)
      then have "poss d4 X {pm_view d4}" by (rule clean_poss)
      then have "poss d5 X {pm_view d4}" unfolding d5_def using X by (intro log_hdr_stores_poss uuid) auto
      then have "poss d X {pm_view d4}" unfolding d_def by (rule sync.persist_poss [OF X(1)])
      then show ?thesis by (rule poss_cong) (use X(2) hdr(2) v in auto)
    qed
    have "durable d i" if "i < 4112" for i
    proof (cases "i < 4096")
      case True
      then show ?thesis
        using sync.persist_clean [of 0 4096 d5 i] on by (intro clean_durable) (simp add: d_def POOL_HDR_SIZE_def)
    next
      case False
      then show ?thesis using late [of "{i}"] that by (simp add: durable_poss)
    qed
    moreover have "poss d {4112..<4120} {pm_view d}" by (rule late) (use one_word_write_point in auto)
    ultimately show ?thesis
      using env adr f by (auto simp: log_durable_def log_able_def log_env_ok_def can_persist_def log_offs)
  qed
  then show ?thesis using create check f by (intro exI [of _ d]) (simp add: log_offs)
qed

section \<open>The walk\<close>

text \<open>Up to half of the address space the offset grows; above it, the sum wraps and the offset shrinks.\<close>

lemma walk_loop_grows:
  fixes n w x :: u64
  assumes n: "n \<noteq> 0" and nowrap: "unat w + unat n \<le> 2 ^ 64"
  shows "\<exists>r. walk_loop f n w x arg = Some r"
proof (induction "unat w - unat x" arbitrary: x arg rule: less_induct)
  case less
  show ?case
  proof (cases "x < w")
    case True
    then have "unat (x + n) = unat x + unat n" using nowrap by (simp add: word_less_nat_alt unat_word_ariths)
    moreover have "0 < unat n" using n by (simp add: unat_gt_0)
    ultimately have "unat w - unat (x + n) < unat w - unat x" using True by (simp add: word_less_nat_alt)
    then have "\<exists>r. walk_loop f n w (x + n) arg' = Some r" for arg' using less by blast
    then show ?thesis by (subst walk_loop.simps) (auto simp: Let_def split: prod.splits)
  qed (subst walk_loop.simps, simp)
qed

lemma walk_loop_shrinks:
  fixes n w x :: u64
  assumes w: "unat w \<le> 2 ^ 63" and n: "2 ^ 63 \<le> unat n"
  shows "\<exists>r. walk_loop f n w x arg = Some r"
proof (induction "unat x" arbitrary: x arg rule: less_induct)
  case less
  show ?case
  proof (cases "x < w")
    case True
    then have x: "unat x < 2 ^ 63" using w by (simp add: word_less_nat_alt)
    have "\<exists>r. walk_loop f n w (x + n) arg' = Some r" for arg'
    proof (cases "unat x + unat n < 2 ^ 64")
      case True
      then have "unat (x + n) = unat x + unat n" by (simp add: unat_word_ariths)
      then have "\<not> x + n < w" using w n by (simp add: word_less_nat_alt)
      then show ?thesis by (subst walk_loop.simps) simp
    next
      case False
      then have "unat (x + n) = unat x + unat n - 2 ^ 64"
        using x unat_bound [of n] by (simp add: unat_word_ariths le_mod_geq)
      then have "unat (x + n) < unat x" using False unat_bound [of n] by simp
      then show ?thesis using less by blast
    qed
    then show ?thesis by (subst walk_loop.simps) (auto simp: Let_def split: prod.splits)
  qed (subst walk_loop.simps, simp)
qed

text \<open>A chunk size of \<open>SIZE_MAX\<close> makes the offset go down by one after every chunk.\<close>

lemma walk_loop_backwards:
  "x < w \<Longrightarrow> walk_loop (collect m) (- 1) w x acc =
     Some (acc @ map (\<lambda>k. mem_read m (unat x - k) (unat w - (unat x - k))) [0..<Suc (unat x)])"
proof (induction "unat x" arbitrary: x acc)
  case 0
  then have x: "x = 0" by (simp add: unat_eq_0)
  then have "\<not> - 1 < w" by (simp add: not_less)
  moreover have "min (- 1) w = w" by simp
  ultimately show ?case
    using 0 x walk_loop.simps [of "collect m" "- 1" w "- 1"]
    by (subst walk_loop.simps) (simp add: Let_def collect_def)
next
  case (Suc i)
  have x1: "unat (x + - 1) = i" using Suc.hyps(2) by (metis unat_minus_one diff_conv_add_uminus unat_0 Zero_not_Suc diff_Suc_1)
  have lt: "x + - 1 < w" using Suc.prems Suc.hyps(2) x1 by (simp add: word_less_nat_alt)
  have min: "min (- 1) (w - x) = w - x" by simp
  have len: "unat (w - x) = unat w - unat x" using Suc.prems by (simp add: unat_sub)
  have "map (\<lambda>k. mem_read m (unat x - k) (unat w - (unat x - k))) [0..<Suc (unat x)] =
      mem_read m (unat x) (unat w - unat x) # map (\<lambda>k. mem_read m (i - k) (unat w - (i - k))) [0..<Suc i]"
    unfolding Suc.hyps(2) [symmetric] by (subst upt_conv_Cons) (simp_all add: map_Suc_upt [symmetric] del: upt_Suc)
  then show ?case
    using Suc.hyps(1) [of "x + - 1"] x1 lt Suc.prems
    by (subst walk_loop.simps) (simp add: Let_def collect_def min len del: upt_Suc)
qed

section \<open>Properties\<close>

text \<open>
  C8 Any sequence of appends and gathered appends of fewer than 2 ^ 64 bytes each, rewinds, walks in chunks of
  at most 2 ^ 63 bytes (or of the whole log) and queries on a mapped log returns
  exactly what a list of bytes of bounded length would return, errors included, and leaves the log
  well-formed with the contents of that list.  Walks in larger chunks are left out, because there the walk
  pointer wraps around and they return something else.
\<close>

theorem log_sequence_refines:
  assumes "log_inv p" and "\<forall>x\<in>set xs. log_op_ok x"
  shows "fst (log_run lib xs p) = fst (log_spec_run (log_cap p) (log_rdonly p) xs (log_contents p)) \<and>
    log_contents (snd (log_run lib xs p)) = snd (log_spec_run (log_cap p) (log_rdonly p) xs (log_contents p)) \<and>
    log_inv (snd (log_run lib xs p))"
  using log_run_refines [OF assms] by (simp add: log_frame_def)

text \<open>
  C7 A power failure at any instant of a sequence of operations, with the caches writing words back
  in any order, leaves a pool file that opens again with the contents after some prefix of the
  operations, and after all of them if the power was on until the end: appended data is never torn
  and never precedes what was appended before it.
\<close>

theorem log_power_fail:
  assumes inv: "log_inv p" and dur: "log_durable lib p" and ok: "\<forall>x\<in>set xs. log_op_ok x"
    and hdr: "log_check_hdr (log_mem p) (log_size p) False = Inr r" and size: "PMEMLOG_MIN_POOL \<le> unat (log_size p)"
    and fs: "fs path = Some \<lparr>file_size = unat (log_size p), file_data = pm_media (log_dev (snd (log_run lib xs p)))\<rparr>"
    and mmap: "mmap (unat (log_size p)) = None"
  shows "\<exists>k \<le> length xs. \<exists>q. pmemlog_open mmap env fs path = (Ok q, fs) \<and> log_inv q \<and>
    log_contents q = snd (log_spec_run (log_cap p) (log_rdonly p) (take k xs) (log_contents p)) \<and>
    (\<not> pm_failed (log_dev (snd (log_run lib xs p))) \<longrightarrow> k = length xs)"
proof -
  let ?c = "\<lambda>k. snd (log_spec_run (log_cap p) (log_rdonly p) (take k xs) (log_contents p))"
  obtain k where k: "k \<le> length xs" "log_image (log_mem p) (pm_media (log_dev (snd (log_run lib xs p)))) (?c k)"
    "\<not> pm_failed (log_dev (snd (log_run lib xs p))) \<longrightarrow> k = length xs"
    using log_run_media [OF inv dur ok] by blast
  have "\<forall>x\<in>set (take k xs). log_op_ok x" using ok by (auto dest: in_set_takeD)
  then have "length (?c k) \<le> log_cap p"
    using log_run_refines [OF inv, of "take k xs" lib] log_write_point(2) [of "snd (log_run lib (take k xs) p)"]
    by (simp add: log_frame_def log_cap_def)
  then have fits: "8192 + length (?c k) \<le> unat (log_size p)" and lt: "unat (log_size p) < 2 ^ 63"
    using log_write_point(3,4) [OF inv] by linarith+
  have "\<exists>q. pmemlog_open mmap env fs path = (Ok q, fs) \<and> log_inv q \<and> log_contents q = ?c k"
    using log_open_image [where fs = fs and path = path and mmap = mmap and env = env, OF hdr k(2) fits size lt fs mmap] by blast
  then show ?thesis using k(1,3) by blast
qed

text \<open>The new pool and the file it leaves.\<close>

lemma log_create_pool:
  assumes "fs path = None" and "falloc poolsize = None" and "mmap poolsize = None"
    and "PMEMLOG_MIN_POOL \<le> poolsize" and "poolsize < 2 ^ 63" and "length (le_uuid env) = 16" and "log_env_ok env"
  obtains p where "pmemlog_create falloc mmap env fs path poolsize =
      (Ok p, fs(path \<mapsto> \<lparr>file_size = poolsize, file_data = log_mem p\<rparr>))"
    and "log_inv p" "log_contents p = []" "log_size p = of_nat poolsize" "\<not> log_rdonly p"
    and "log_check_hdr (log_mem p) (of_nat poolsize) False = Inr False"
    and "\<not> pm_failed (log_dev p) \<longrightarrow> log_durable (le_lib env) p"
proof -
  let ?sz = "of_nat poolsize :: u64"
  have sz: "unat ?sz = poolsize" using assms(5) by (simp add: unat_of_nat)
  have min: "8192 \<le> unat ?sz" "unat ?sz < 2 ^ 63" using assms(4,5) by (auto simp: sz PMEMLOG_MIN_POOL_def)
  obtain d where d: "log_create_hdr env ?sz (log_boot env (\<lambda>_. 0)) = Inr d" "log_check_hdr (pm_view d) ?sz False = Inr False"
    "log_field (pm_view d) LOG_WRITE_OFF = 8192"
    "\<not> pm_failed d \<longrightarrow> log_durable (le_lib env) \<lparr>log_dev = d, log_size = ?sz, log_is_pmem = le_is_pmem env, log_rdonly = False\<rparr>"
    using log_create_hdr_done [of "\<lambda>_. 0" env ?sz] min assms(6,7) by auto
  let ?p = "\<lparr>log_dev = d, log_size = ?sz, log_is_pmem = le_is_pmem env, log_rdonly = False\<rparr>"
  have "pmemlog_create falloc mmap env fs path poolsize =
      (Ok ?p, fs(path \<mapsto> \<lparr>file_size = poolsize, file_data = log_mem ?p\<rparr>))"
    using assms(1-4) d(1)
    by (simp add: pmemlog_create_def util_pool_create_def Let_def log_map_file_def pmemlog_map_common_def PMEMLOG_MIN_POOL_def)
  moreover have "log_inv ?p" using log_check_hdr_InrD [OF d(2)] min by (simp add: log_inv_def log_meta_def)
  ultimately show thesis
    using d sz that [of ?p] by (simp add: log_contents_def)
qed

text \<open>
  C9 A new log pool is empty, has room for the file less two pages, may be written, is accepted by
  the checks that opening it makes, and is durable when the power is still on.
\<close>

theorem log_created:
  assumes "fs path = None" and "falloc poolsize = None" and "mmap poolsize = None"
    and "PMEMLOG_MIN_POOL \<le> poolsize" and "poolsize < 2 ^ 63" and "length (le_uuid env) = 16" and "log_env_ok env"
  shows "\<exists>p fs'. pmemlog_create falloc mmap env fs path poolsize = (Ok p, fs') \<and> log_inv p \<and> log_contents p = [] \<and>
    log_cap p = poolsize - 8192 \<and> \<not> log_rdonly p \<and> log_check_hdr (log_mem p) (of_nat poolsize) False = Inr False \<and>
    (\<not> pm_failed (log_dev p) \<longrightarrow> log_durable (le_lib env) p) \<and>
    fs' = fs(path \<mapsto> \<lparr>file_size = poolsize, file_data = log_mem p\<rparr>)"
proof -
  obtain p where p: "pmemlog_create falloc mmap env fs path poolsize =
      (Ok p, fs(path \<mapsto> \<lparr>file_size = poolsize, file_data = log_mem p\<rparr>))"
    "log_inv p" "log_contents p = []" "log_size p = of_nat poolsize" "\<not> log_rdonly p"
    "log_check_hdr (log_mem p) (of_nat poolsize) False = Inr False" "\<not> pm_failed (log_dev p) \<longrightarrow> log_durable (le_lib env) p"
    using log_create_pool [where fs = fs and path = path and falloc = falloc and mmap = mmap and env = env, OF assms] by blast
  moreover have "log_cap p = poolsize - 8192" using p(4) assms(5) by (simp add: log_cap_def unat_of_nat)
  ultimately show ?thesis by blast
qed

text \<open>
  C10 A walk over a log returns for every chunk size and every callback, although the offset is a
  64-bit sum that may wrap.
\<close>

theorem log_walk_ends:
  assumes inv: "log_inv p"
  shows "\<exists>r. pmemlog_walk p chunksize process_chunk arg = Some r"
proof (cases "unat chunksize \<le> 2 ^ 63")
  case True
  have "(2::nat) ^ 64 = 2 ^ 63 + 2 ^ 63" by simp
  then have "unat (log_field (log_mem p) LOG_WRITE_OFF) + unat chunksize \<le> 2 ^ 64"
    using True log_write_point [OF inv] by linarith
  then show ?thesis
    using walk_loop_grows [of chunksize "log_field (log_mem p) LOG_WRITE_OFF"] unfolding pmemlog_walk_def Let_def by auto
next
  case False
  have "unat (log_field (log_mem p) LOG_WRITE_OFF) \<le> 2 ^ 63" using log_write_point [OF inv] by linarith
  moreover have "2 ^ 63 \<le> unat chunksize" using False by linarith
  ultimately show ?thesis using walk_loop_shrinks [of _ chunksize] unfolding pmemlog_walk_def Let_def by auto
qed

text \<open>
  C11 With the chunk size \<open>SIZE_MAX\<close> the wrap shows: after all the data the walk hands out 8192
  more chunks, each starting one byte earlier, down through the pool descriptor and the header.
\<close>

theorem log_walk_wraps:
  assumes inv: "log_inv p" and ne: "log_contents p \<noteq> []"
  shows "pmemlog_walk p (- 1) (collect (log_mem p)) [] =
    Some (map (\<lambda>k. mem_read (log_mem p) (8192 - k) (length (log_contents p) + k)) [0..<8193])"
proof -
  let ?w = "log_field (log_mem p) LOG_WRITE_OFF"
  have start: "log_field (log_mem p) LOG_START_OFF = 8192" using inv by (simp add: log_inv_def log_meta_def)
  have w: "unat ?w = 8192 + length (log_contents p)" by (rule log_write_point(1) [OF inv])
  have "0 < length (log_contents p)" using ne by simp
  then have lt: "8192 < ?w" using w by (simp add: word_less_nat_alt)
  have "map (\<lambda>k. mem_read (log_mem p) (unat (8192::u64) - k) (unat ?w - (unat (8192::u64) - k))) [0..<Suc (unat (8192::u64))] =
      map (\<lambda>k. mem_read (log_mem p) (8192 - k) (length (log_contents p) + k)) [0..<8193]"
    by (rule map_cong) (auto simp: w)
  then show ?thesis
    using walk_loop_backwards [OF lt, of "log_mem p" "[]"] by (simp only: pmemlog_walk_def Let_def start) simp
qed

text \<open>
  C12 The consistency check answers 1 exactly when the pool would open, and otherwise fails with the
  error of opening: it never answers 0, and it never changes the file.
\<close>

theorem log_check_result:
  "pmemlog_check mmap env fs path =
     (case fst (pmemlog_open mmap env fs path) of Ok q \<Rightarrow> Ok True | Err e \<Rightarrow> Err e | Stuck \<Rightarrow> Stuck, fs)"
proof (cases "\<exists>f. fs path = Some f \<and> PMEMLOG_MIN_POOL \<le> file_size f \<and> mmap (file_size f) = None")
  case True
  then obtain f where f: "fs path = Some f" "PMEMLOG_MIN_POOL \<le> file_size f" "mmap (file_size f) = None" by blast
  have ro: "log_check_hdr m sz True = map_sum id (\<lambda>_. True) (log_check_hdr m sz False)" for m sz
    by (simp add: log_check_hdr_def Let_def split: option.splits sum.splits)
  have ok: "log_check_hdr m sz True = Inr r \<Longrightarrow> log_field m LOG_START_OFF = LOG_DATA_OFF \<and> log_field m LOG_END_OFF = sz \<and>
      \<not> sz < LOG_DATA_OFF \<and> \<not> log_field m LOG_WRITE_OFF < LOG_DATA_OFF \<and> \<not> sz < log_field m LOG_WRITE_OFF" for m sz r
    using log_check_hdr_InrD [of m sz True r] by (auto simp: word_less_nat_alt word_le_nat_alt)
  show ?thesis
    using f ok [of "file_data f" "of_nat (file_size f)"]
    by (cases "log_check_hdr (file_data f) (of_nat (file_size f)) False")
      (auto simp: pmemlog_check_def pmemlog_open_def util_pool_open_def log_map_file_def pmemlog_map_common_def ro Let_def)
next
  case False
  then show ?thesis
    by (auto simp: pmemlog_check_def pmemlog_open_def util_pool_open_def log_map_file_def not_le
        split: option.splits)
qed

section \<open>The properties at a concrete pool\<close>

definition demo_env :: log_env where
  "demo_env = \<lparr>le_lib = initial_lib, le_is_pmem = True, le_uuid = replicate 16 5, le_time = 77, le_adr = True,
     le_fail_at = 20, le_evict = (\<lambda>t w. even (t + w))\<rparr>"

lemma demo_env_ok: "log_env_ok demo_env" "length (le_uuid demo_env) = 16"
  by (simp_all add: demo_env_def log_env_ok_def lib_ok_def initial_lib_def)

theorem log_created_witness:
  "\<exists>p fs'. pmemlog_create (\<lambda>_. None) (\<lambda>_. None) demo_env (\<lambda>_. None) ''log'' 2097152 = (Ok p, fs') \<and>
    log_inv p \<and> log_cap p = 2088960"
  using log_created [of "\<lambda>_. None" "''log''" "\<lambda>_. None" 2097152 "\<lambda>_. None" demo_env] demo_env_ok
  by (auto simp: PMEMLOG_MIN_POOL_def)

text \<open>An image of an empty log, and the pool that opening it gives.\<close>

lemma demo_image:
  obtains m where "log_check_hdr m 2097152 False = Inr False" "log_image m m []"
proof -
  have "8192 \<le> unat (2097152 :: u64)" "unat (2097152 :: u64) < 2 ^ 63" "\<forall>i<4096. (\<lambda>_. 0 :: byte) i = 0" by simp_all
  from log_create_hdr_done [OF this(3) demo_env_ok(2) this(1,2) demo_env_ok(1)]
  obtain d :: pmdev where "log_check_hdr (pm_view d) 2097152 False = Inr False" "log_field (pm_view d) LOG_WRITE_OFF = 8192" by blast
  then show thesis using that [of "pm_view d"] by (simp add: log_image_def)
qed

lemma demo_log:
  obtains p where "log_inv p" "log_durable initial_lib p" "log_contents p = []" "log_size p = 2097152" "\<not> log_rdonly p"
    "log_check_hdr (log_mem p) (log_size p) False = Inr False"
proof -
  obtain m where m: "log_check_hdr m 2097152 False = Inr False" "log_image m m []" by (rule demo_image)
  let ?p = "\<lparr>log_dev = log_boot demo_env m, log_size = 2097152, log_is_pmem = True, log_rdonly = False\<rparr>"
  note f = log_check_hdr_InrD [OF m(1)]
  have "log_inv ?p" using f by (simp add: log_inv_def log_meta_def)
  moreover have "poss (log_boot demo_env m) {4112..<4120} {m}"
    using clean_poss [of "{4112..<4120}" "log_boot demo_env m"] by simp
  moreover have "log_able initial_lib True (log_boot demo_env m)"
    using log_boot_able [of demo_env m] demo_env_ok by (simp add: demo_env_def)
  moreover have "unat (log_field m LOG_WRITE_OFF) = 8192" using m(2) by (simp add: log_image_def)
  moreover have "durable (log_boot demo_env m) i" for i by (rule clean_durable) simp
  ultimately show thesis using that [of ?p] m(1) by (simp add: log_durable_def log_contents_def)
qed

theorem log_sequence_refines_witness:
  "\<exists>p. log_inv p \<and> fst (log_run initial_lib [Append [1, 2, 3], Appendv [[4], [5]], Tell, Walk 2] p) =
    [Ok Done, Ok Done, Ok (Number 5), Ok (Chunks [[1, 2], [3, 4], [5]])]"
proof -
  obtain p where p: "log_inv p" "log_contents p = []" "log_size p = 2097152" "\<not> log_rdonly p" by (rule demo_log)
  let ?xs = "[Append [1, 2, 3], Appendv [[4], [5]], Tell, Walk 2]"
  have "fst (log_spec_run (log_cap p) (log_rdonly p) ?xs (log_contents p)) =
      [Ok Done, Ok Done, Ok (Number 5), Ok (Chunks [[1, 2], [3, 4], [5]])]"
    using p by (simp add: log_cap_def)
  moreover have "\<forall>x\<in>set ?xs. log_op_ok x" by simp
  ultimately show ?thesis using log_sequence_refines [OF p(1), of ?xs initial_lib] p(1) by metis
qed

theorem log_power_fail_witness:
  "\<exists>p fs k q. log_inv p \<and> k \<le> 2 \<and> pmemlog_open (\<lambda>_. None) demo_env fs ''log'' = (Ok q, fs) \<and>
    log_contents q = snd (log_spec_run (log_cap p) False (take k [Append [1, 2, 3], Append [4]]) [])"
proof -
  obtain p where p: "log_inv p" "log_durable initial_lib p" "log_contents p = []" "log_size p = 2097152" "\<not> log_rdonly p"
    "log_check_hdr (log_mem p) (log_size p) False = Inr False" by (rule demo_log)
  let ?xs = "[Append [1, 2, 3], Append [4]]"
  let ?fs = "[''log'' \<mapsto> \<lparr>file_size = unat (log_size p), file_data = pm_media (log_dev (snd (log_run initial_lib ?xs p)))\<rparr>]"
  have "\<forall>x\<in>set ?xs. log_op_ok x" "PMEMLOG_MIN_POOL \<le> unat (log_size p)"
    "?fs ''log'' = Some \<lparr>file_size = unat (log_size p), file_data = pm_media (log_dev (snd (log_run initial_lib ?xs p)))\<rparr>"
    using p(4) by (simp_all add: PMEMLOG_MIN_POOL_def)
  from log_power_fail [where fs = ?fs and path = "''log''" and mmap = "\<lambda>_. None" and env = demo_env,
      OF p(1,2) this(1) p(6) this(2,3)] p
  obtain k q where "k \<le> length ?xs" "pmemlog_open (\<lambda>_. None) demo_env ?fs ''log'' = (Ok q, ?fs)"
    "log_contents q = snd (log_spec_run (log_cap p) False (take k ?xs) [])" by auto
  then show ?thesis using p(1) by (intro exI [of _ p] exI [of _ ?fs] exI [of _ k] exI [of _ q]) simp
qed

theorem log_walk_ends_witness:
  "\<exists>p. log_inv p \<and> (\<exists>r. pmemlog_walk p (2 ^ 63 + 5) (collect (log_mem p)) [] = Some r)"
  using demo_log log_walk_ends [of _ "2 ^ 63 + 5" "collect (log_mem _)" "[]"] by metis

theorem log_walk_wraps_witness:
  "\<exists>p. log_contents p = [7] \<and> pmemlog_walk p (- 1) (collect (log_mem p)) [] =
    Some (map (\<lambda>k. mem_read (log_mem p) (8192 - k) (1 + k)) [0..<8193])"
proof -
  obtain p where p: "log_inv p" "log_contents p = []" "log_size p = 2097152" "\<not> log_rdonly p" by (rule demo_log)
  obtain q where "log_inv q" "log_contents q = [7]"
    using log_step_refines [OF p(1), of "Append [7]" initial_lib] p by (auto simp: log_frame_def log_cap_def)
  then show ?thesis using log_walk_wraps [of q] by (intro exI [of _ q]) simp
qed

end
