(* ===== verification/Container.thy ===== *)
theory Container
  imports Prelude "HOL-Library.Tree" "HOL-Library.Multiset"
begin

text \<open>
  The container of free memory blocks, \<open>src/libpmemobj/container_bst.c\<close>: an unbalanced
  binary search tree with parent pointers.  The nodes live in an explicit heap, a pointer is an
  address or NULL, and a pointer to a pointer is a location (the root or a child field of a node).
  Following a dangling pointer, or a cycle, has no result (\<open>None\<close>).  The mutex is left out
  (one thread).
\<close>

section \<open>Nodes, locations and the heap\<close>

record bst_node =
  node_value :: u64
  node_key :: u64
  node_parent :: "nat option"
  node_left :: "nat option"
  node_right :: "nat option"

record container_bst =
  bst_root :: "nat option"
  bst_heap :: "nat \<rightharpoonup> bst_node"

definition NULL_VAL :: u64 where "NULL_VAL = NOT 0"

datatype bst_loc = Root | Left nat | Right nat

definition deref :: "container_bst \<Rightarrow> bst_loc \<Rightarrow> nat option option" where
  "deref c q = (case q of
      Root \<Rightarrow> Some (bst_root c)
    | Left a \<Rightarrow> map_option node_left (bst_heap c a)
    | Right a \<Rightarrow> map_option node_right (bst_heap c a))"

definition upd_node :: "nat \<Rightarrow> (bst_node \<Rightarrow> bst_node) \<Rightarrow> container_bst \<Rightarrow> container_bst" where
  "upd_node a f c = c\<lparr>bst_heap := (bst_heap c)(a := map_option f (bst_heap c a))\<rparr>"

definition assign :: "bst_loc \<Rightarrow> nat option \<Rightarrow> container_bst \<Rightarrow> container_bst" where
  "assign q v c = (case q of
      Root \<Rightarrow> c\<lparr>bst_root := v\<rparr>
    | Left a \<Rightarrow> upd_node a (\<lambda>n. n\<lparr>node_left := v\<rparr>) c
    | Right a \<Rightarrow> upd_node a (\<lambda>n. n\<lparr>node_right := v\<rparr>) c)"

section \<open>Operations\<close>

text \<open>
  The C library's \<open>malloc\<close> returns memory that is not in use, or NULL; which address is the
  choice \<open>pick\<close> of the library.
\<close>

definition Malloc :: "((nat \<rightharpoonup> bst_node) \<Rightarrow> nat option) \<Rightarrow> (nat \<rightharpoonup> bst_node) \<Rightarrow> nat option" where
  "Malloc pick h = (case pick h of None \<Rightarrow> None | Some a \<Rightarrow> if h a = None then Some a else None)"

definition bst_create_node :: "((nat \<rightharpoonup> bst_node) \<Rightarrow> nat option) \<Rightarrow> nat option \<Rightarrow> u64 \<Rightarrow> u64 \<Rightarrow> container_bst \<Rightarrow>
    nat option \<times> container_bst" where
  "bst_create_node pick p v k c =
     (case Malloc pick (bst_heap c) of
        None \<Rightarrow> (None, c)
      | Some n \<Rightarrow> (Some n, c\<lparr>bst_heap := (bst_heap c)(n \<mapsto>
          \<lparr>node_value = v, node_key = k, node_parent = p, node_left = None, node_right = None\<rparr>)\<rparr>))"

partial_function (option) bst_add_loop ::
    "container_bst \<Rightarrow> u64 \<Rightarrow> nat option \<Rightarrow> bst_loc \<Rightarrow> (nat option \<times> bst_loc) option" where
  "bst_add_loop c k p q =
     (case deref c q of
        None \<Rightarrow> None
      | Some None \<Rightarrow> Some (p, q)
      | Some (Some a) \<Rightarrow>
          (case bst_heap c a of
             None \<Rightarrow> None
           | Some n \<Rightarrow> bst_add_loop c k (Some a) (if k < node_key n then Left a else Right a)))"

definition bst_add :: "((nat \<rightharpoonup> bst_node) \<Rightarrow> nat option) \<Rightarrow> u64 \<Rightarrow> u64 \<Rightarrow> container_bst \<Rightarrow> (bool \<times> container_bst) option" where
  "bst_add pick k v c =
     (case bst_add_loop c k None Root of
        None \<Rightarrow> None
      | Some (p, q) \<Rightarrow>
          (case bst_create_node pick p v k c of
             (n, c') \<Rightarrow> Some (n \<noteq> None, assign q n c')))"

partial_function (option) bst_find_loop ::
    "container_bst \<Rightarrow> u64 \<Rightarrow> bool \<Rightarrow> nat option \<Rightarrow> nat option \<Rightarrow> nat option option" where
  "bst_find_loop c k ge b n =
     (case n of
        None \<Rightarrow> Some b
      | Some a \<Rightarrow>
          (case bst_heap c a of
             None \<Rightarrow> None
           | Some nd \<Rightarrow>
               if node_key nd = k then Some (Some a)
               else bst_find_loop c k ge (if ge \<and> k < node_key nd then Some a else b)
                      (if k < node_key nd then node_left nd else node_right nd)))"

definition bst_find_node :: "container_bst \<Rightarrow> u64 \<Rightarrow> bool \<Rightarrow> nat option option" where
  "bst_find_node c k ge = bst_find_loop c k ge None (bst_root c)"

text \<open>The leftmost node below a pointer that is not NULL.\<close>

partial_function (option) bst_min_loop :: "container_bst \<Rightarrow> nat \<Rightarrow> nat option" where
  "bst_min_loop c m =
     (case bst_heap c m of
        None \<Rightarrow> None
      | Some nd \<Rightarrow> (case node_left nd of None \<Rightarrow> Some m | Some l \<Rightarrow> bst_min_loop c l))"

text \<open>The location that points to a node, found through its parent.\<close>

definition bst_ref :: "container_bst \<Rightarrow> nat \<Rightarrow> bst_node \<Rightarrow> bst_loc option" where
  "bst_ref c n nd =
     (if bst_root c = Some n then Some Root
      else case node_parent nd of
        None \<Rightarrow> None
      | Some p \<Rightarrow>
          (case bst_heap c p of
             None \<Rightarrow> None
           | Some pd \<Rightarrow> Some (if node_left pd = Some n then Left p else Right p)))"

definition bst_free :: "nat \<Rightarrow> container_bst \<Rightarrow> container_bst" where
  "bst_free n c = c\<lparr>bst_heap := (bst_heap c)(n := None)\<rparr>"

partial_function (option) bst_remove :: "container_bst \<Rightarrow> nat \<Rightarrow> container_bst option" where
  "bst_remove c n =
     (case bst_heap c n of
        None \<Rightarrow> None
      | Some nd \<Rightarrow>
          (case bst_ref c n nd of
             None \<Rightarrow> None
           | Some nref \<Rightarrow>
               (case (node_left nd, node_right nd) of
                  (Some l, Some r) \<Rightarrow>
                    (case bst_min_loop c r of
                       None \<Rightarrow> None
                     | Some m \<Rightarrow>
                         (case bst_heap c m of
                            None \<Rightarrow> None
                          | Some md \<Rightarrow>
                              bst_remove (upd_node n (\<lambda>x. x\<lparr>node_value := node_value md, node_key := node_key md\<rparr>) c) m))
                | (l, r) \<Rightarrow>
                    let child = (if l \<noteq> None then l else r);
                        c1 = assign nref child c;
                        c2 = (case child of None \<Rightarrow> c1 | Some x \<Rightarrow> upd_node x (\<lambda>y. y\<lparr>node_parent := node_parent nd\<rparr>) c1) in
                    Some (bst_free n c2))))"

definition best_get_rm :: "container_bst \<Rightarrow> u64 \<Rightarrow> bool \<Rightarrow> (u64 \<times> container_bst) option" where
  "best_get_rm c k ge =
     (case bst_find_node c k ge of
        None \<Rightarrow> None
      | Some None \<Rightarrow> Some (NULL_VAL, c)
      | Some (Some n) \<Rightarrow>
          (case (bst_heap c n, bst_remove c n) of
             (Some nd, Some c') \<Rightarrow> Some (node_value nd, c')
           | _ \<Rightarrow> None))"

definition bst_get_rm_eq :: "container_bst \<Rightarrow> u64 \<Rightarrow> (u64 \<times> container_bst) option" where
  "bst_get_rm_eq c k = best_get_rm c k False"

definition bst_get_rm_ge :: "container_bst \<Rightarrow> u64 \<Rightarrow> (u64 \<times> container_bst) option" where
  "bst_get_rm_ge c k = best_get_rm c k True"

definition container_bst_new :: container_bst where
  "container_bst_new = \<lparr>bst_root = None, bst_heap = Map.empty\<rparr>"

text \<open>Deleting a container frees every node, children first.\<close>

partial_function (option) bst_delete :: "nat option \<Rightarrow> container_bst \<Rightarrow> container_bst option" where
  "bst_delete n c =
     (case n of
        None \<Rightarrow> Some c
      | Some a \<Rightarrow>
          (case bst_heap c a of
             None \<Rightarrow> None
           | Some nd \<Rightarrow>
               Option.bind (bst_delete (node_left nd) c) (\<lambda>c1.
               Option.bind (bst_delete (node_right nd) c1) (\<lambda>c2.
               Some (bst_free a c2)))))"

definition container_bst_delete :: "container_bst \<Rightarrow> container_bst option" where
  "container_bst_delete c = bst_delete (bst_root c) c"

end
