(* ===== verification/Obj.thy ===== *)
theory Obj
  imports Util Container "HOL-Library.Monad_Syntax"
begin

text \<open>
  The persistent memory allocator of libpmemobj: the backend that keeps zones of chunks in a pool
  (\<open>backend_persistent.c\<close>), buckets of free chunks (\<open>bucket.c\<close>), arenas
  (\<open>arena.c\<close>), the pool (\<open>pool.c\<close>) and the interface (\<open>pmalloc.c\<close>), in the view of
  one thread and in program order.  A failed \<open>ASSERT\<close> and a loop that never ends are \<open>None\<close>.
  Chunk headers, info slots and pool headers are separate parts of the state; the rest of the pool, with
  the data of the chunks and the locations that hold allocations, is byte memory addressed by the
  offset in the pool.  Bucket structures are in a store, since arenas share the pool's first bucket.
\<close>

section \<open>Constants and structures\<close>

definition MAX_INFO_SLOT :: nat where "MAX_INFO_SLOT = 1024"
definition MAX_CHUNK :: nat where "MAX_CHUNK = 65535"
definition CHUNKSIZE :: nat where "CHUNKSIZE = 1024 * 256"
definition CHUNK_HEADER_MAGIC :: u32 where "CHUNK_HEADER_MAGIC = 0xC3F0"
definition ZONE_MIN_SIZE :: nat where "ZONE_MIN_SIZE = 32 * CHUNKSIZE"
definition CHUNK_FLAG_USED :: u16 where "CHUNK_FLAG_USED = 1"
definition CHUNK_TYPE_UNKNOWN :: u16 where "CHUNK_TYPE_UNKNOWN = 0"
definition CHUNK_TYPE_BASE :: u16 where "CHUNK_TYPE_BASE = 1"
definition MAX_CHUNK_TYPE :: u16 where "MAX_CHUNK_TYPE = 4"
definition MAX_INFO_SLOT_TYPE :: u32 where "MAX_INFO_SLOT_TYPE = 4"
definition MAX_BUCKETS :: nat where "MAX_BUCKETS = 1024"
definition MAX_ARENAS :: nat where "MAX_ARENAS = 10"
definition NULL_OFFSET :: u64 where "NULL_OFFSET = 0"

text \<open>Sizes of the structures in bytes.\<close>

definition SIZEOF_HEADER :: nat where "SIZEOF_HEADER = 1024"
definition SIZEOF_SLOT :: nat where "SIZEOF_SLOT = 32"
definition SIZEOF_CHUNK_HEADER :: nat where "SIZEOF_CHUNK_HEADER = 16"
definition SIZEOF_ZONE :: nat where
  "SIZEOF_ZONE = SIZEOF_HEADER + SIZEOF_CHUNK_HEADER * MAX_CHUNK + CHUNKSIZE * MAX_CHUNK"

record backend_chunk_header =
  ch_magic :: u32
  ch_type_specific :: u32
  ch_type :: u16
  ch_flags :: u16
  ch_size_idx :: u32

text \<open>
  The three layouts of an info slot have the same shape: the type, a reserved word, an address, a second
  word (the old allocation, or reserved) and a reserved word.
\<close>

record backend_info_slot =
  slot_type :: u32
  slot_reserved :: u32
  slot_addr :: u64
  slot_old_alloc :: u64
  slot_reserved_e :: u64

definition zero_slot :: backend_info_slot where
  "zero_slot = \<lparr>slot_type = 0, slot_reserved = 0, slot_addr = 0, slot_old_alloc = 0, slot_reserved_e = 0\<rparr>"

datatype guard_type = GUARD_TYPE_MALLOC | GUARD_TYPE_REALLOC | GUARD_TYPE_FREE

definition slot_type_of :: "guard_type \<Rightarrow> u32" where
  "slot_type_of g = (case g of GUARD_TYPE_MALLOC \<Rightarrow> 1 | GUARD_TYPE_REALLOC \<Rightarrow> 2 | GUARD_TYPE_FREE \<Rightarrow> 3)"

record bucket_object =
  obj_real_size :: u64
  obj_data_offset :: u64
  obj_size_idx :: u32
  obj_unique_id :: u32

definition zero_obj :: bucket_object where
  "zero_obj = \<lparr>obj_real_size = 0, obj_data_offset = 0, obj_size_idx = 0, obj_unique_id = 0\<rparr>"

record bucket =
  bk_unit_size :: nat
  bk_objects :: container_bst

record obj_arena =
  oa_threads :: int
  oa_buckets :: "nat \<Rightarrow> nat option"

text \<open>
  The pool with its backend.  \<open>malloc_pick\<close> is the choice of the C library for the nodes of the
  containers; \<open>thread_arena\<close> is the thread's \<open>arena_id\<close>.
\<close>

record pmalloc_pool =
  bp_primary :: "byte list"
  bp_backup :: "nat \<Rightarrow> byte list"
  bp_chunk :: "nat \<Rightarrow> nat \<Rightarrow> backend_chunk_header"
  bp_slot :: "nat \<Rightarrow> backend_info_slot"
  bp_mem :: mem
  bp_pool_size :: u64
  bp_max_zone :: nat
  bp_zones_exhausted :: nat
  bucket_classes :: "nat \<Rightarrow> nat"
  bucket_store :: "nat \<rightharpoonup> bucket"
  pool_buckets :: "nat \<Rightarrow> nat option"
  pool_arenas :: "nat \<Rightarrow> obj_arena option"
  thread_arena :: "nat option"
  malloc_pick :: "(nat \<rightharpoonup> bst_node) \<Rightarrow> nat option"

type_synonym 'a pprog = "pmalloc_pool \<Rightarrow> ('a \<times> pmalloc_pool) option"

section \<open>Unique ids and offsets\<close>

definition UID_PACK :: "nat \<Rightarrow> nat \<Rightarrow> u32" where
  "UID_PACK c z = push_bit 16 (of_nat c) OR of_nat z"

definition UID_CHUNK_IDX :: "u32 \<Rightarrow> nat" where
  "UID_CHUNK_IDX u = unat (ucast (drop_bit 16 (u AND 0xFFFF0000)) :: u16)"

definition UID_ZONE_IDX :: "u32 \<Rightarrow> nat" where
  "UID_ZONE_IDX u = unat (ucast (u AND 0xFFFF) :: u16)"

text \<open>The offset of \<open>zone[z].chunk_data[i]\<close> from the start of the pool.\<close>

definition chunk_data_offset :: "nat \<Rightarrow> nat \<Rightarrow> u64" where
  "chunk_data_offset z i = of_nat (SIZEOF_HEADER + SIZEOF_SLOT * MAX_INFO_SLOT + z * SIZEOF_ZONE +
     (SIZEOF_HEADER + SIZEOF_CHUNK_HEADER * MAX_CHUNK + i * CHUNKSIZE))"

text \<open>The result is the zone and the chunk; both indices are 16 bits wide.\<close>

definition get_chunk_by_offset :: "u64 \<Rightarrow> u64 \<Rightarrow> (nat \<times> nat) option" where
  "get_chunk_by_offset pool_size data_offset =
     (if \<not> data_offset < pool_size then None
      else
        let off = data_offset - of_nat (SIZEOF_HEADER + SIZEOF_SLOT * MAX_INFO_SLOT);
            max_zone_size = of_nat SIZEOF_ZONE;
            zone_idx = unat (ucast (off div max_zone_size) :: u16);
            zone_offset = off - of_nat zone_idx * max_zone_size - of_nat SIZEOF_HEADER - of_nat (SIZEOF_CHUNK_HEADER * MAX_CHUNK) in
        if zone_offset mod of_nat CHUNKSIZE \<noteq> 0 then None
        else Some (zone_idx, unat (ucast (zone_offset div of_nat CHUNKSIZE) :: u16)))"

function get_max_zones :: "nat \<Rightarrow> nat" where
  "get_max_zones rawsize =
     (let zone_max_size = SIZEOF_ZONE + MAX_CHUNK * CHUNKSIZE in
      if ZONE_MIN_SIZE < rawsize then Suc (get_max_zones (rawsize - (if rawsize < zone_max_size then rawsize else zone_max_size)))
      else 0)"
  by pat_completeness auto
termination
  by (relation "measure id") (auto simp: Let_def SIZEOF_ZONE_def MAX_CHUNK_def CHUNKSIZE_def SIZEOF_HEADER_def SIZEOF_CHUNK_HEADER_def)

declare get_max_zones.simps [simp del]

definition get_zone_size_idx :: "nat \<Rightarrow> nat \<Rightarrow> u64 \<Rightarrow> u32" where
  "get_zone_size_idx zone_idx max_zone pool_size =
     (if int zone_idx < int max_zone - 1 then of_nat MAX_CHUNK
      else
        let zone_raw_size = pool_size - of_nat zone_idx * of_nat SIZEOF_ZONE -
              of_nat (SIZEOF_HEADER + SIZEOF_CHUNK_HEADER * MAX_CHUNK) in
        ucast (zone_raw_size div of_nat CHUNKSIZE))"

section \<open>Chunk headers\<close>

definition upd_chunk :: "nat \<Rightarrow> nat \<Rightarrow> (backend_chunk_header \<Rightarrow> backend_chunk_header) \<Rightarrow> pmalloc_pool \<Rightarrow> pmalloc_pool" where
  "upd_chunk z i f p = p\<lparr>bp_chunk := (bp_chunk p)(z := (bp_chunk p z)(i := f (bp_chunk p z i)))\<rparr>"

definition set_chunk_flag :: "nat \<Rightarrow> nat \<Rightarrow> u16 \<Rightarrow> pmalloc_pool \<Rightarrow> bool \<times> pmalloc_pool" where
  "set_chunk_flag z i flag p =
     (if ch_flags (bp_chunk p z i) AND flag \<noteq> 0 then (False, p)
      else (True, upd_chunk z i (\<lambda>c. c\<lparr>ch_flags := ch_flags c OR flag\<rparr>) p))"

definition clear_chunk_flag :: "nat \<Rightarrow> nat \<Rightarrow> u16 \<Rightarrow> pmalloc_pool \<Rightarrow> bool \<times> pmalloc_pool" where
  "clear_chunk_flag z i flag p =
     (if ch_flags (bp_chunk p z i) AND flag = 0 then (False, p)
      else (True, upd_chunk z i (\<lambda>c. c\<lparr>ch_flags := ch_flags c AND NOT flag\<rparr>) p))"

definition write_chunk_header :: "nat \<Rightarrow> nat \<Rightarrow> u32 \<Rightarrow> pmalloc_pool \<Rightarrow> pmalloc_pool" where
  "write_chunk_header z i size_idx p =
     upd_chunk z i (\<lambda>c. c\<lparr>ch_magic := CHUNK_HEADER_MAGIC\<rparr>)
       (upd_chunk z i (\<lambda>_. \<lparr>ch_magic = 0, ch_type_specific = 0, ch_type = CHUNK_TYPE_BASE, ch_flags = 0, ch_size_idx = size_idx\<rparr>) p)"

definition set_chunk_size :: "nat \<Rightarrow> nat \<Rightarrow> u32 \<Rightarrow> bool pprog" where
  "set_chunk_size z i new_size p =
     (if \<not> sint new_size > 0 then None
      else Some (True, upd_chunk z i (\<lambda>c. c\<lparr>ch_size_idx := new_size\<rparr>) p))"

text \<open>The product is 32 bits wide and then widened.\<close>

definition chunk_real_size :: "u32 \<Rightarrow> u64" where
  "chunk_real_size size_idx = ucast (of_nat CHUNKSIZE * size_idx)"

section \<open>Buckets\<close>

definition get_bucket_class_id_by_size :: "u64 \<Rightarrow> nat" where
  "get_bucket_class_id_by_size size_bytes = 0"

text \<open>The first free entry of the array of classes.\<close>

fun register_loop :: "nat \<Rightarrow> nat \<Rightarrow> nat \<Rightarrow> pmalloc_pool \<Rightarrow> nat option \<times> pmalloc_pool" where
  "register_loop 0 i unit_size p = (None, p)"
| "register_loop (Suc n) i unit_size p =
     (if bucket_classes p i = 0 then (Some i, p\<lparr>bucket_classes := (bucket_classes p)(i := unit_size)\<rparr>)
      else register_loop n (Suc i) unit_size p)"

definition bucket_register_class :: "nat \<Rightarrow> pmalloc_pool \<Rightarrow> nat option \<times> pmalloc_pool" where
  "bucket_register_class unit_size p = register_loop MAX_BUCKETS 0 unit_size p"

definition bucket_unregister_class :: "nat \<Rightarrow> pmalloc_pool \<Rightarrow> bool \<times> pmalloc_pool" where
  "bucket_unregister_class class_id p =
     (if bucket_classes p class_id = 0 then (False, p)
      else (True, p\<lparr>bucket_classes := (bucket_classes p)(class_id := 0)\<rparr>))"

text \<open>A bucket is new at an address of the store that is not in use; its allocation succeeds.\<close>

definition bucket_new :: "nat \<Rightarrow> nat \<Rightarrow> nat pprog" where
  "bucket_new addr class_id p =
     (if bucket_classes p class_id = 0 then None
      else Some (addr, p\<lparr>bucket_store := (bucket_store p)(addr \<mapsto>
        \<lparr>bk_unit_size = bucket_classes p class_id, bk_objects = container_bst_new\<rparr>)\<rparr>))"

definition bucket_calc_units :: "bucket \<Rightarrow> u64 \<Rightarrow> u32" where
  "bucket_calc_units b size_bytes = ucast ((size_bytes - 1) div of_nat (bk_unit_size b))"

definition OBJ_KEY :: "u32 \<Rightarrow> u32 \<Rightarrow> u64" where
  "OBJ_KEY u s = push_bit 32 (ucast u) OR ucast s"

definition bucket_add_object :: "nat \<Rightarrow> bucket_object \<Rightarrow> bool pprog" where
  "bucket_add_object ba obj p =
     (case bucket_store p ba of
        None \<Rightarrow> None
      | Some b \<Rightarrow>
          (case bst_add (malloc_pick p) (OBJ_KEY (obj_unique_id obj) (obj_size_idx obj)) (ucast (obj_unique_id obj)) (bk_objects b) of
             None \<Rightarrow> None
           | Some (ok, c) \<Rightarrow> Some (ok, p\<lparr>bucket_store := (bucket_store p)(ba \<mapsto> b\<lparr>bk_objects := c\<rparr>)\<rparr>)))"

section \<open>The backend's operations on buckets\<close>

definition add_chunk :: "nat \<Rightarrow> nat \<Rightarrow> u64 \<Rightarrow> unit pprog" where
  "add_chunk z i data_offset p =
     (let sz = ch_size_idx (bp_chunk p z i);
          obj = \<lparr>obj_real_size = chunk_real_size sz, obj_data_offset = data_offset, obj_size_idx = sz, obj_unique_id = UID_PACK i z\<rparr> in
      case pool_buckets p (get_bucket_class_id_by_size (obj_real_size obj)) of
        None \<Rightarrow> None
      | Some ba \<Rightarrow> do { (_, p') \<leftarrow> bucket_add_object ba obj p; Some ((), p') })"

text \<open>The index of the loop is 32 bits wide.\<close>

partial_function (option) fill_loop :: "nat \<Rightarrow> nat \<Rightarrow> nat \<Rightarrow> pmalloc_pool \<Rightarrow> pmalloc_pool option" where
  "fill_loop z zone_size_idx i p =
     (if i < zone_size_idx then
        if ch_magic (bp_chunk p z i) \<noteq> CHUNK_HEADER_MAGIC \<and> i \<noteq> 0 then None
        else
          let p1 = (if ch_magic (bp_chunk p z i) \<noteq> CHUNK_HEADER_MAGIC then write_chunk_header z i (of_nat zone_size_idx) p else p) in
          case (if ch_flags (bp_chunk p1 z i) AND CHUNK_FLAG_USED = 0 then add_chunk z i (chunk_data_offset z i) p1 else Some ((), p1)) of
            None \<Rightarrow> None
          | Some (_, p2) \<Rightarrow> fill_loop z zone_size_idx ((i + unat (ch_size_idx (bp_chunk p2 z i))) mod 2 ^ 32) p2
      else Some p)"

definition persistent_fill_buckets :: "unit pprog" where
  "persistent_fill_buckets p =
     (let idx = bp_zones_exhausted p;
          zone_size_idx = get_zone_size_idx idx (bp_max_zone p) (bp_pool_size p) in
      do { p' \<leftarrow> fill_loop idx (unat zone_size_idx) 0 (p\<lparr>bp_zones_exhausted := Suc idx\<rparr>); Some ((), p') })"

definition persistent_bucket_classes :: "unit pprog" where
  "persistent_bucket_classes p =
     (case bucket_register_class CHUNKSIZE p of
        (None, p') \<Rightarrow> None
      | (Some _, p') \<Rightarrow> Some ((), p'))"

text \<open>The object is cut out of its chunk; the rest becomes a free chunk.\<close>

definition persistent_init_bucket_obj :: "bucket_object \<Rightarrow> bucket_object pprog" where
  "persistent_init_bucket_obj obj p =
     (let i = UID_CHUNK_IDX (obj_unique_id obj); z = UID_ZONE_IDX (obj_unique_id obj) in
      if \<not> z < bp_max_zone p \<or> \<not> i < MAX_CHUNK then None
      else
        do { p2 \<leftarrow>
               (if obj_size_idx obj < ch_size_idx (bp_chunk p z i) then
                  let nsize = ch_size_idx (bp_chunk p z i) - obj_size_idx obj;
                      nc_idx = unat (of_nat i + obj_size_idx obj);
                      p1 = write_chunk_header z nc_idx nsize p in
                  do { (ok, p2) \<leftarrow> set_chunk_size z i (obj_size_idx obj) p1;
                       if ok then do { (_, p3) \<leftarrow> add_chunk z nc_idx (chunk_data_offset z nc_idx) p2; Some p3 }
                       else Some p2 }
                else Some p);
             let sz = ch_size_idx (bp_chunk p2 z i) in
             Some (obj\<lparr>obj_size_idx := sz, obj_real_size := chunk_real_size sz, obj_data_offset := chunk_data_offset z i\<rparr>, p2) })"

datatype bucket_obj_state = BUCKET_OBJ_STATE_ALLOCATED | BUCKET_OBJ_STATE_FREE

definition persistent_set_bucket_obj_state :: "bucket_object \<Rightarrow> bucket_obj_state \<Rightarrow> bool pprog" where
  "persistent_set_bucket_obj_state obj state p =
     (let i = UID_CHUNK_IDX (obj_unique_id obj); z = UID_ZONE_IDX (obj_unique_id obj) in
      if \<not> i < MAX_CHUNK \<or> \<not> z < bp_max_zone p then None
      else
        case state of
          BUCKET_OBJ_STATE_ALLOCATED \<Rightarrow>
            Some (set_chunk_flag z i CHUNK_FLAG_USED
              (p\<lparr>bp_mem := mem_write (bp_mem p) (unat (chunk_data_offset z i)) (replicate (unat (obj_real_size obj)) 0)\<rparr>))
        | BUCKET_OBJ_STATE_FREE \<Rightarrow> Some (clear_chunk_flag z i CHUNK_FLAG_USED p))"

definition persistent_locate_bucket_obj :: "u64 \<Rightarrow> pmalloc_pool \<Rightarrow> bucket_object option option" where
  "persistent_locate_bucket_obj data_offset p =
     (if \<not> data_offset < bp_pool_size p then None
      else
        case get_chunk_by_offset (bp_pool_size p) data_offset of
          None \<Rightarrow> None
        | Some (z, i) \<Rightarrow>
            if ch_magic (bp_chunk p z i) \<noteq> CHUNK_HEADER_MAGIC then Some None
            else if ch_flags (bp_chunk p z i) AND CHUNK_FLAG_USED = 0 then Some None
            else
              let sz = ch_size_idx (bp_chunk p z i) in
              Some (Some \<lparr>obj_real_size = chunk_real_size sz, obj_data_offset = data_offset, obj_size_idx = sz,
                obj_unique_id = UID_PACK i z\<rparr>))"

definition persistent_get_direct :: "u64 \<Rightarrow> pmalloc_pool \<Rightarrow> u64 option" where
  "persistent_get_direct ptr p = (if \<not> ptr < bp_pool_size p then None else Some ptr)"

definition persistent_copy_content :: "bucket_object \<Rightarrow> bucket_object \<Rightarrow> unit pprog" where
  "persistent_copy_content dest src p =
     (if \<not> obj_size_idx src \<le> obj_size_idx dest then None
      else Some ((), p\<lparr>bp_mem := mem_write (bp_mem p) (unat (obj_data_offset dest))
        (mem_read (bp_mem p) (unat (obj_data_offset src)) (unat (obj_real_size src)))\<rparr>))"

section \<open>Taking objects from a bucket\<close>

definition bucket_get_object :: "nat \<Rightarrow> u32 \<Rightarrow> bucket_object \<Rightarrow> (bool \<times> bucket_object) pprog" where
  "bucket_get_object ba units obj p =
     (case bucket_store p ba of
        None \<Rightarrow> None
      | Some b \<Rightarrow>
          (case bst_get_rm_ge (bk_objects b) (OBJ_KEY 0 units) of
             None \<Rightarrow> None
           | Some (v, c) \<Rightarrow>
               let p1 = p\<lparr>bucket_store := (bucket_store p)(ba \<mapsto> b\<lparr>bk_objects := c\<rparr>)\<rparr>;
                   obj1 = obj\<lparr>obj_unique_id := ucast v, obj_size_idx := units\<rparr> in
               if obj_unique_id obj1 = ucast NULL_VAL then Some ((False, obj1), p1)
               else
                 do { (obj2, p2) \<leftarrow> persistent_init_bucket_obj obj1 p1;
                      if units \<le> obj_size_idx obj2 then Some ((True, obj2), p2)
                      else do { (_, p3) \<leftarrow> bucket_add_object ba obj2 p2; Some ((False, obj2), p3) } }))"

definition bucket_mark_allocated :: "bucket_object \<Rightarrow> bool pprog" where
  "bucket_mark_allocated obj = persistent_set_bucket_obj_state obj BUCKET_OBJ_STATE_ALLOCATED"

section \<open>Guards and pointers\<close>

definition read_ptr :: "nat \<Rightarrow> pmalloc_pool \<Rightarrow> u64" where
  "read_ptr ptr p = le_dec (mem_read (bp_mem p) ptr 8)"

definition persistent_set_alloc_ptr :: "nat \<Rightarrow> u64 \<Rightarrow> pmalloc_pool \<Rightarrow> pmalloc_pool" where
  "persistent_set_alloc_ptr ptr v p = p\<lparr>bp_mem := mem_write (bp_mem p) ptr (le_enc 8 v)\<rparr>"

definition set_slot :: "guard_type \<Rightarrow> u64 \<Rightarrow> u64 \<Rightarrow> backend_info_slot \<Rightarrow> backend_info_slot option" where
  "set_slot g rptr v s =
     (if slot_addr s \<noteq> 0 then None
      else case g of
        GUARD_TYPE_MALLOC \<Rightarrow> Some (s\<lparr>slot_addr := rptr\<rparr>)
      | GUARD_TYPE_REALLOC \<Rightarrow> if slot_old_alloc s \<noteq> 0 then None else Some (s\<lparr>slot_addr := rptr, slot_old_alloc := v\<rparr>)
      | GUARD_TYPE_FREE \<Rightarrow> Some (s\<lparr>slot_addr := rptr\<rparr>))"

definition persistent_set_guard :: "nat \<Rightarrow> guard_type \<Rightarrow> nat \<Rightarrow> unit pprog" where
  "persistent_set_guard aid g ptr p =
     (if slot_type (bp_slot p aid) \<noteq> 0 then None
      else do { s \<leftarrow> set_slot g (of_nat ptr) (read_ptr ptr p) ((bp_slot p aid)\<lparr>slot_type := slot_type_of g\<rparr>);
                Some ((), p\<lparr>bp_slot := (bp_slot p)(aid := s)\<rparr>) })"

definition persistent_clear_guard :: "nat \<Rightarrow> pmalloc_pool \<Rightarrow> pmalloc_pool" where
  "persistent_clear_guard aid p = p\<lparr>bp_slot := (bp_slot p)(aid := zero_slot)\<rparr>"

section \<open>Arenas and the pool\<close>

text \<open>
  Structures of one owner have addresses of their own: the pool's buckets come first, then those of
  each arena.
\<close>

definition arena_bucket_addr :: "nat \<Rightarrow> nat \<Rightarrow> nat" where
  "arena_bucket_addr aid class_id = MAX_BUCKETS * Suc aid + class_id"

definition arena_new :: "pmalloc_pool \<Rightarrow> obj_arena" where
  "arena_new p = \<lparr>oa_threads = 0, oa_buckets = (\<lambda>i. if i = 0 then pool_buckets p 0 else None)\<rparr>"

fun select_arena_loop :: "nat \<Rightarrow> nat \<Rightarrow> int \<Rightarrow> int \<Rightarrow> pmalloc_pool \<Rightarrow> int" where
  "select_arena_loop 0 i best min_threads p = best"
| "select_arena_loop (Suc n) i best min_threads p =
     (case pool_arenas p i of
        None \<Rightarrow> int i
      | Some a \<Rightarrow>
          if oa_threads a < min_threads then select_arena_loop n (Suc i) (int i) (oa_threads a) p
          else select_arena_loop n (Suc i) best min_threads p)"

definition select_arena_id :: "pmalloc_pool \<Rightarrow> int" where
  "select_arena_id p = select_arena_loop MAX_ARENAS 0 (- 1) (- 1) p"

definition select_thread_arena_slow :: "nat pprog" where
  "select_thread_arena_slow p =
     (let aid = (case thread_arena p of None \<Rightarrow> select_arena_id p | Some a \<Rightarrow> int a) in
      if aid < 0 then None
      else
        let i = nat aid;
            a = (case pool_arenas p i of None \<Rightarrow> arena_new p | Some a \<Rightarrow> a) in
        Some (i, p\<lparr>thread_arena := Some i, pool_arenas := (pool_arenas p)(i \<mapsto> a\<lparr>oa_threads := oa_threads a + 1\<rparr>)\<rparr>))"

definition pool_select_arena :: "nat pprog" where
  "pool_select_arena p =
     (case thread_arena p of
        None \<Rightarrow> select_thread_arena_slow p
      | Some i \<Rightarrow> if pool_arenas p i = None then select_thread_arena_slow p else Some (i, p))"

definition arena_guard_up :: "nat \<Rightarrow> nat \<Rightarrow> guard_type \<Rightarrow> unit pprog" where
  "arena_guard_up aid ptr g = persistent_set_guard aid g ptr"

definition arena_guard_down :: "nat \<Rightarrow> pmalloc_pool \<Rightarrow> pmalloc_pool" where
  "arena_guard_down aid p = persistent_clear_guard aid p"

definition arena_select_bucket :: "nat \<Rightarrow> u64 \<Rightarrow> nat pprog" where
  "arena_select_bucket aid size_bytes p =
     (let class_id = get_bucket_class_id_by_size size_bytes in
      case pool_arenas p aid of
        None \<Rightarrow> None
      | Some a \<Rightarrow>
          (case oa_buckets a class_id of
             Some ba \<Rightarrow> Some (ba, p)
           | None \<Rightarrow>
               do { (ba, p1) \<leftarrow> bucket_new (arena_bucket_addr aid class_id) class_id p;
                    Some (ba, p1\<lparr>pool_arenas := (pool_arenas p1)(aid \<mapsto> a\<lparr>oa_buckets := (oa_buckets a)(class_id \<mapsto> ba)\<rparr>)\<rparr>) }))"

definition pool_recycle_object :: "bucket_object \<Rightarrow> bool pprog" where
  "pool_recycle_object obj p =
     (let class_id = get_bucket_class_id_by_size (obj_real_size obj) in
      do { (ba, p1) \<leftarrow> (case pool_buckets p class_id of
                          Some ba \<Rightarrow> Some (ba, p)
                        | None \<Rightarrow> do { (ba, p1) \<leftarrow> bucket_new class_id class_id p;
                                       Some (ba, p1\<lparr>pool_buckets := (pool_buckets p1)(class_id \<mapsto> ba)\<rparr>) });
           (ok, p2) \<leftarrow> persistent_set_bucket_obj_state obj BUCKET_OBJ_STATE_FREE p1;
           if \<not> ok then Some (False, p2)
           else if obj_unique_id obj \<noteq> ucast NULL_VAL then bucket_add_object ba obj p2
           else Some (True, p2) })"

section \<open>Allocating and freeing\<close>

definition alloc_from_bucket :: "nat \<Rightarrow> nat \<Rightarrow> u64 \<Rightarrow> bucket_object pprog" where
  "alloc_from_bucket ba ptr size_bytes p =
     (case bucket_store p ba of
        None \<Rightarrow> None
      | Some b \<Rightarrow>
          do { ((ok, obj), p1) \<leftarrow> bucket_get_object ba (bucket_calc_units b size_bytes) zero_obj p;
               if \<not> ok then Some (obj, p1)
               else do { (_, p2) \<leftarrow> bucket_mark_allocated obj (persistent_set_alloc_ptr ptr (obj_data_offset obj) p1);
                         Some (obj, p2) } })"

definition pmalloc :: "nat \<Rightarrow> u64 \<Rightarrow> unit pprog" where
  "pmalloc ptr size_bytes p =
     (if read_ptr ptr p \<noteq> NULL_OFFSET then None
      else
        do { (aid, p1) \<leftarrow> pool_select_arena p;
             (_, p2) \<leftarrow> arena_guard_up aid ptr GUARD_TYPE_MALLOC p1;
             (ba, p3) \<leftarrow> arena_select_bucket aid size_bytes p2;
             (_, p4) \<leftarrow> alloc_from_bucket ba ptr size_bytes p3;
             Some ((), arena_guard_down aid p4) })"

definition pfree :: "nat \<Rightarrow> unit pprog" where
  "pfree ptr p =
     (if read_ptr ptr p = NULL_OFFSET then Some ((), p)
      else
        do { (aid, p1) \<leftarrow> pool_select_arena p;
             located \<leftarrow> persistent_locate_bucket_obj (read_ptr ptr p1) p1;
             (case located of
                None \<Rightarrow> Some ((), p1)
              | Some obj \<Rightarrow>
                  do { (_, p2) \<leftarrow> arena_guard_up aid ptr GUARD_TYPE_FREE p1;
                       (ok, p3) \<leftarrow> pool_recycle_object obj p2;
                       Some ((), arena_guard_down aid (if ok then persistent_set_alloc_ptr ptr NULL_OFFSET p3 else p3)) }) })"

definition prealloc :: "nat \<Rightarrow> u64 \<Rightarrow> unit pprog" where
  "prealloc ptr size_bytes p =
     (if size_bytes = 0 then pfree ptr p
      else if read_ptr ptr p = NULL_OFFSET then pmalloc ptr size_bytes p
      else
        do { located \<leftarrow> persistent_locate_bucket_obj (read_ptr ptr p) p;
             let obj = (case located of None \<Rightarrow> zero_obj | Some obj \<Rightarrow> obj) in
             if size_bytes \<le> obj_real_size obj then Some ((), p)
             else
               do { (aid, p1) \<leftarrow> pool_select_arena p;
                    (_, p2) \<leftarrow> arena_guard_up aid ptr GUARD_TYPE_REALLOC p1;
                    (ba, p3) \<leftarrow> arena_select_bucket aid size_bytes p2;
                    (new_obj, p4) \<leftarrow> alloc_from_bucket ba ptr size_bytes p3;
                    if obj_size_idx new_obj = 0 then Some ((), arena_guard_down aid p4)
                    else
                      do { (_, p5) \<leftarrow> persistent_copy_content new_obj obj p4;
                           (_, p6) \<leftarrow> pool_recycle_object obj p5;
                           Some ((), arena_guard_down aid p6) } } })"

definition pdirect :: "u64 \<Rightarrow> pmalloc_pool \<Rightarrow> u64 option" where
  "pdirect ptr p = persistent_get_direct ptr p"

section \<open>Pool headers\<close>

definition POOL_SIGNATURE :: "byte list" where "POOL_SIGNATURE = c_str ''MEMORY_POOL_HDR'' @ [0]"
definition HEADER_CSUM :: nat where "HEADER_CSUM = 1016"
definition PERSISTENT_BACKEND_MAJOR :: u64 where "PERSISTENT_BACKEND_MAJOR = 1"
definition PERSISTENT_BACKEND_MINOR :: u64 where "PERSISTENT_BACKEND_MINOR = 0"
definition POOL_STATE_OPEN :: u32 where "POOL_STATE_OPEN = 1"
definition POOL_STATE_CLOSED :: u32 where "POOL_STATE_CLOSED = 2"

text \<open>\<open>struct backend_pool_header\<close> is kept as its 1024 bytes.\<close>

definition backend_pool_header :: "u32 \<Rightarrow> u32 \<Rightarrow> u64 \<Rightarrow> u64 \<Rightarrow> u64 \<Rightarrow> u64 \<Rightarrow> u64 \<Rightarrow> byte list" where
  "backend_pool_header flags state major_v minor_v pool_size chunk_size chunks_per_zone =
     POOL_SIGNATURE @ le_enc 4 flags @ le_enc 4 state @ le_enc 8 major_v @ le_enc 8 minor_v @ le_enc 8 pool_size @
     le_enc 8 chunk_size @ le_enc 8 chunks_per_zone @ replicate 952 0 @ le_enc 8 (0 :: u64)"

definition hdr_state :: "byte list \<Rightarrow> u32" where "hdr_state h = le_at 4 h 20"
definition hdr_be_major :: "byte list \<Rightarrow> u64" where "hdr_be_major h = le_at 8 h 24"
definition hdr_be_size :: "byte list \<Rightarrow> u64" where "hdr_be_size h = le_at 8 h 40"
definition hdr_chunk_size :: "byte list \<Rightarrow> u64" where "hdr_chunk_size h = le_at 8 h 48"
definition hdr_chunks_per_zone :: "byte list \<Rightarrow> u64" where "hdr_chunks_per_zone h = le_at 8 h 56"

definition verify_header :: "byte list \<Rightarrow> bool" where
  "verify_header h \<longleftrightarrow> fst (util_checksum h HEADER_CSUM False) \<and> take 16 h = POOL_SIGNATURE"

fun recover_header_loop :: "nat \<Rightarrow> nat \<Rightarrow> pmalloc_pool \<Rightarrow> bool \<times> pmalloc_pool" where
  "recover_header_loop 0 i p = (False, p)"
| "recover_header_loop (Suc n) i p =
     (if verify_header (bp_backup p i) then (True, p\<lparr>bp_primary := bp_backup p i\<rparr>)
      else recover_header_loop n (Suc i) p)"

definition recover_primary_header :: "pmalloc_pool \<Rightarrow> bool \<times> pmalloc_pool" where
  "recover_primary_header p = recover_header_loop (bp_max_zone p) 0 p"

definition zero_info_slots :: "pmalloc_pool \<Rightarrow> pmalloc_pool" where
  "zero_info_slots p = p\<lparr>bp_slot := (\<lambda>i. if i < MAX_INFO_SLOT then zero_slot else bp_slot p i)\<rparr>"

definition write_primary_pool_header :: "pmalloc_pool \<Rightarrow> pmalloc_pool" where
  "write_primary_pool_header p = p\<lparr>bp_primary :=
     snd (util_checksum (backend_pool_header 0 POOL_STATE_CLOSED PERSISTENT_BACKEND_MAJOR PERSISTENT_BACKEND_MINOR
       (bp_pool_size p) (of_nat CHUNKSIZE) (of_nat MAX_CHUNK)) HEADER_CSUM True)\<rparr>"

definition write_backup_pool_headers :: "pmalloc_pool \<Rightarrow> pmalloc_pool" where
  "write_backup_pool_headers p = p\<lparr>bp_backup := (\<lambda>i. if i < bp_max_zone p then bp_primary p else bp_backup p i)\<rparr>"

definition write_pool_layout :: "pmalloc_pool \<Rightarrow> pmalloc_pool" where
  "write_pool_layout p = write_backup_pool_headers (write_primary_pool_header (zero_info_slots p))"

definition set_pool_state :: "u32 \<Rightarrow> pmalloc_pool \<Rightarrow> pmalloc_pool" where
  "set_pool_state state p =
     (let h = bp_primary p;
          h1 = take 20 h @ le_enc 4 state @ drop 24 h in
      write_backup_pool_headers (p\<lparr>bp_primary := snd (util_checksum h1 HEADER_CSUM True)\<rparr>))"

definition can_open_pool :: "pmalloc_pool \<Rightarrow> bool" where
  "can_open_pool p \<longleftrightarrow> hdr_be_size (bp_primary p) = bp_pool_size p \<and> hdr_be_major (bp_primary p) = PERSISTENT_BACKEND_MAJOR \<and>
     hdr_chunk_size (bp_primary p) = of_nat CHUNKSIZE \<and> hdr_chunks_per_zone (bp_primary p) = of_nat MAX_CHUNK"

section \<open>Recovery of interrupted operations\<close>

definition recover_slot_unknown :: "nat \<Rightarrow> pmalloc_pool \<Rightarrow> pmalloc_pool" where
  "recover_slot_unknown s p = p\<lparr>bp_slot := (bp_slot p)(s := zero_slot)\<rparr>"

definition recover_slot_alloc :: "nat \<Rightarrow> unit pprog" where
  "recover_slot_alloc s p =
     (let ptr = unat (slot_addr (bp_slot p s)) in
      if read_ptr ptr p \<noteq> 0 then
        case get_chunk_by_offset (bp_pool_size p) (read_ptr ptr p) of
          None \<Rightarrow> None
        | Some (z, i) \<Rightarrow>
            Some ((), recover_slot_unknown s (persistent_set_alloc_ptr ptr NULL_OFFSET (snd (clear_chunk_flag z i CHUNK_FLAG_USED p))))
      else Some ((), recover_slot_unknown s p))"

definition recover_slot_realloc :: "nat \<Rightarrow> unit pprog" where
  "recover_slot_realloc s p =
     (let ptr = unat (slot_addr (bp_slot p s)); old_alloc = slot_old_alloc (bp_slot p s) in
      if read_ptr ptr p \<noteq> 0 \<and> old_alloc \<noteq> 0 \<and> read_ptr ptr p \<noteq> old_alloc then
        case get_chunk_by_offset (bp_pool_size p) (read_ptr ptr p) of
          None \<Rightarrow> None
        | Some (z, i) \<Rightarrow>
            Some ((), recover_slot_unknown s (persistent_set_alloc_ptr ptr old_alloc (snd (clear_chunk_flag z i CHUNK_FLAG_USED p))))
      else Some ((), recover_slot_unknown s p))"

definition recover_slot_free :: "nat \<Rightarrow> unit pprog" where
  "recover_slot_free s p =
     (let ptr = unat (slot_addr (bp_slot p s)) in
      if read_ptr ptr p \<noteq> 0 then
        case get_chunk_by_offset (bp_pool_size p) (read_ptr ptr p) of
          None \<Rightarrow> None
        | Some (z, i) \<Rightarrow> Some ((), recover_slot_unknown s (snd (set_chunk_flag z i CHUNK_FLAG_USED p)))
      else Some ((), recover_slot_unknown s p))"

definition recover_info_slot :: "nat \<Rightarrow> unit pprog" where
  "recover_info_slot s p =
     (let t = slot_type (bp_slot p s) in
      if \<not> t < MAX_INFO_SLOT_TYPE then None
      else if t = 0 \<and> bp_slot p s = zero_slot then Some ((), p)
      else if t = 0 then Some ((), recover_slot_unknown s p)
      else if t = 1 then recover_slot_alloc s p
      else if t = 2 then recover_slot_realloc s p
      else recover_slot_free s p)"

fun recover_slots_loop :: "nat \<Rightarrow> nat \<Rightarrow> unit pprog" where
  "recover_slots_loop 0 i p = Some ((), p)"
| "recover_slots_loop (Suc n) i p = do { (_, p1) \<leftarrow> recover_info_slot i p; recover_slots_loop n (Suc i) p1 }"

text \<open>The result tells whether the storage could be opened.\<close>

definition open_pmem_storage :: "bool pprog" where
  "open_pmem_storage p0 =
     (if \<not> of_nat ZONE_MIN_SIZE < bp_pool_size p0 then None
      else
        let p = p0\<lparr>bp_max_zone := get_max_zones (unat (bp_pool_size p0))\<rparr>;
            (valid, p1) = (if verify_header (bp_primary p) then (True, p) else recover_primary_header p) in
        if valid \<and> \<not> can_open_pool p1 then Some (False, p1)
        else
          let p2 = (if valid then p1 else write_pool_layout p1) in
          if hdr_state (bp_primary p2) = POOL_STATE_CLOSED then
            if \<not> (\<forall>i \<in> set [0..<MAX_INFO_SLOT]. slot_type (bp_slot p2 i) = 0) then None
            else Some (True, set_pool_state POOL_STATE_OPEN p2)
          else if hdr_state (bp_primary p2) = POOL_STATE_OPEN then
            do { (_, p3) \<leftarrow> recover_slots_loop MAX_INFO_SLOT 0 p2; Some (True, write_backup_pool_headers p3) }
          else None)"

definition close_pmem_storage :: "unit pprog" where
  "close_pmem_storage p =
     (if \<not> (\<forall>i \<in> set [0..<MAX_INFO_SLOT]. slot_type (bp_slot p i) = 0) then None
      else if hdr_state (bp_primary p) \<noteq> POOL_STATE_OPEN then None
      else Some ((), set_pool_state POOL_STATE_CLOSED p))"

section \<open>Opening a pool\<close>

fun create_buckets_loop :: "nat \<Rightarrow> nat \<Rightarrow> unit pprog" where
  "create_buckets_loop 0 i p = Some ((), p)"
| "create_buckets_loop (Suc n) i p =
     (if bucket_classes p i \<noteq> 0 then
        if pool_buckets p i \<noteq> None then None
        else do { (ba, p1) \<leftarrow> bucket_new i i p;
                  create_buckets_loop n (Suc i) (p1\<lparr>pool_buckets := (pool_buckets p1)(i \<mapsto> ba)\<rparr>) }
      else create_buckets_loop n (Suc i) p)"

definition create_default_buckets :: "unit pprog" where
  "create_default_buckets p = create_buckets_loop MAX_BUCKETS 0 p"

text \<open>The argument holds the contents of the memory region; the result is None inside when the backend refuses it.\<close>

definition pool_new :: "bool pprog" where
  "pool_new p0 =
     do { (ok, p1) \<leftarrow> open_pmem_storage (p0\<lparr>bp_zones_exhausted := 0\<rparr>);
          if \<not> ok then Some (False, p1)
          else
            do { (_, p2) \<leftarrow> persistent_bucket_classes (p1\<lparr>bucket_classes := (\<lambda>_. 0), pool_buckets := (\<lambda>_. None), pool_arenas := (\<lambda>_. None)\<rparr>);
                 (_, p3) \<leftarrow> create_default_buckets p2;
                 (_, p4) \<leftarrow> persistent_fill_buckets p3;
                 Some (True, p4) } }"

definition pool_open :: "bool pprog" where
  "pool_open p = pool_new p"

section \<open>Closing a pool\<close>

definition bucket_delete :: "nat \<Rightarrow> unit pprog" where
  "bucket_delete ba p =
     (case bucket_store p ba of
        None \<Rightarrow> None
      | Some b \<Rightarrow> do { _ \<leftarrow> container_bst_delete (bk_objects b); Some ((), p\<lparr>bucket_store := (bucket_store p)(ba := None)\<rparr>) })"

fun delete_buckets_loop :: "(nat \<Rightarrow> nat option) \<Rightarrow> nat \<Rightarrow> nat \<Rightarrow> unit pprog" where
  "delete_buckets_loop bs 0 i p = Some ((), p)"
| "delete_buckets_loop bs (Suc n) i p =
     (case bs i of
        None \<Rightarrow> delete_buckets_loop bs n (Suc i) p
      | Some ba \<Rightarrow> do { (_, p1) \<leftarrow> bucket_delete ba p; delete_buckets_loop bs n (Suc i) p1 })"

text \<open>Bucket 0 of an arena is the pool's and stays.\<close>

definition arena_delete :: "obj_arena \<Rightarrow> unit pprog" where
  "arena_delete a p = delete_buckets_loop (oa_buckets a) (MAX_BUCKETS - 1) 1 p"

fun delete_arenas_loop :: "nat \<Rightarrow> nat \<Rightarrow> unit pprog" where
  "delete_arenas_loop 0 i p = Some ((), p)"
| "delete_arenas_loop (Suc n) i p =
     (case pool_arenas p i of
        None \<Rightarrow> delete_arenas_loop n (Suc i) p
      | Some a \<Rightarrow> do { (_, p1) \<leftarrow> arena_delete a p; delete_arenas_loop n (Suc i) p1 })"

definition pool_delete :: "unit pprog" where
  "pool_delete p =
     do { (_, p1) \<leftarrow> delete_buckets_loop (pool_buckets p) MAX_BUCKETS 0 p;
          (_, p2) \<leftarrow> delete_arenas_loop MAX_ARENAS 0 p1;
          close_pmem_storage p2 }"

definition pool_close :: "unit pprog" where
  "pool_close p = pool_delete p"

section \<open>Consistency check\<close>

partial_function (option) check_zone_loop :: "(nat \<Rightarrow> backend_chunk_header) \<Rightarrow> u32 \<Rightarrow> nat \<Rightarrow> bool option" where
  "check_zone_loop chunks size_idx i =
     (if i < unat size_idx then
        let c = chunks i in
        if ch_magic c \<noteq> CHUNK_HEADER_MAGIC then Some (i = 0)
        else if ch_type c > MAX_CHUNK_TYPE \<or> ch_type c = CHUNK_TYPE_UNKNOWN then Some False
        else if ch_size_idx c > size_idx then Some False
        else if ch_size_idx c = 0 then Some False
        else check_zone_loop chunks size_idx ((i + unat (ch_size_idx c)) mod 2 ^ 32)
      else Some (i = unat size_idx))"

definition check_zone :: "pmalloc_pool \<Rightarrow> nat \<Rightarrow> u32 \<Rightarrow> bool option" where
  "check_zone p z size_idx = check_zone_loop (bp_chunk p z) size_idx 0"

definition check_slot_alloc :: "backend_info_slot \<Rightarrow> u64 \<Rightarrow> bool" where
  "check_slot_alloc s pool_size \<longleftrightarrow> \<not> (slot_reserved s \<noteq> 0 \<or> slot_old_alloc s \<noteq> 0 \<or> slot_reserved_e s \<noteq> 0) \<and> \<not> slot_addr s > pool_size"

definition check_slot_realloc :: "backend_info_slot \<Rightarrow> u64 \<Rightarrow> bool" where
  "check_slot_realloc s pool_size \<longleftrightarrow> \<not> (slot_reserved s \<noteq> 0 \<or> slot_reserved_e s \<noteq> 0) \<and> \<not> slot_addr s > pool_size \<and> \<not> slot_old_alloc s > pool_size"

definition check_slot_free :: "backend_info_slot \<Rightarrow> u64 \<Rightarrow> bool" where
  "check_slot_free s pool_size \<longleftrightarrow> \<not> (slot_reserved s \<noteq> 0 \<or> slot_old_alloc s \<noteq> 0 \<or> slot_reserved_e s \<noteq> 0) \<and> \<not> slot_addr s > pool_size"

definition check_info_slot :: "pmalloc_pool \<Rightarrow> nat \<Rightarrow> u64 \<Rightarrow> bool" where
  "check_info_slot p i pool_size =
     (let s = bp_slot p i in
      if \<not> slot_type s < MAX_INFO_SLOT_TYPE then False
      else if slot_type s = 0 then True
      else if slot_type s = 1 then check_slot_alloc s pool_size
      else if slot_type s = 2 then check_slot_realloc s pool_size
      else check_slot_free s pool_size)"

fun check_zones_loop :: "pmalloc_pool \<Rightarrow> u64 \<Rightarrow> nat \<Rightarrow> nat \<Rightarrow> nat \<Rightarrow> bool \<times> bool \<Rightarrow> (bool \<times> bool) option" where
  "check_zones_loop p pool_size max_zone 0 i acc = Some acc"
| "check_zones_loop p pool_size max_zone (Suc n) i (ok, valid_header) =
     do { zone_ok \<leftarrow> check_zone p i (get_zone_size_idx i max_zone pool_size);
          check_zones_loop p pool_size max_zone n (Suc i) (ok \<and> zone_ok, valid_header \<or> verify_header (bp_backup p i)) }"

definition backend_persistent_consistency_check :: "pmalloc_pool \<Rightarrow> u64 \<Rightarrow> bool option" where
  "backend_persistent_consistency_check p pool_size =
     (let ok = (\<forall>i \<in> set [0..<MAX_INFO_SLOT]. check_info_slot p i pool_size);
          max_zone = get_max_zones (unat pool_size) in
      map_option (\<lambda>(ok, valid_header). ok \<and> valid_header)
        (check_zones_loop p pool_size max_zone max_zone 0 (ok, verify_header (bp_primary p))))"

definition pool_check :: "pmalloc_pool \<Rightarrow> u64 \<Rightarrow> bool option" where
  "pool_check p pool_size = backend_persistent_consistency_check p pool_size"

end
