(* ===== verification/Container_Props.thy ===== *)
theory Container_Props
  imports Container
begin

text \<open>
  The heap of a container holds a binary search tree: its shape, with the parent pointers, is a
  tree of addresses, and a position in it is a context around a subtree.  The operations are
  followed on contexts and shown to be the operations of a finite multiset of key and value pairs.
\<close>

section \<open>Shapes and contexts\<close>

fun shape :: "(nat \<rightharpoonup> bst_node) \<Rightarrow> nat option \<Rightarrow> nat option \<Rightarrow> nat tree \<Rightarrow> bool" where
  "shape h p par Leaf \<longleftrightarrow> p = None"
| "shape h p par (Node l a r) \<longleftrightarrow> p = Some a \<and>
     (\<exists>nd. h a = Some nd \<and> node_parent nd = par \<and> shape h (node_left nd) (Some a) l \<and> shape h (node_right nd) (Some a) r)"

datatype bst_step = In_Left nat "nat tree" | In_Right "nat tree" nat

type_synonym bst_ctx = "bst_step list"

fun fill :: "bst_ctx \<Rightarrow> nat tree \<Rightarrow> nat tree" where
  "fill [] t = t"
| "fill (In_Left a r # cs) t = fill cs (Node t a r)"
| "fill (In_Right l a # cs) t = fill cs (Node l a t)"

fun loc_of :: "bst_ctx \<Rightarrow> bst_loc" where
  "loc_of [] = Root"
| "loc_of (In_Left a r # cs) = Left a"
| "loc_of (In_Right l a # cs) = Right a"

fun par_of :: "bst_ctx \<Rightarrow> nat option" where
  "par_of [] = None"
| "par_of (In_Left a r # cs) = Some a"
| "par_of (In_Right l a # cs) = Some a"

fun ctx_addrs :: "bst_ctx \<Rightarrow> nat set" where
  "ctx_addrs [] = {}"
| "ctx_addrs (In_Left a r # cs) = insert a (set_tree r \<union> ctx_addrs cs)"
| "ctx_addrs (In_Right l a # cs) = insert a (set_tree l \<union> ctx_addrs cs)"

text \<open>The part of the heap around a position.\<close>

fun ctx_ok :: "container_bst \<Rightarrow> bst_ctx \<Rightarrow> bool" where
  "ctx_ok c [] \<longleftrightarrow> True"
| "ctx_ok c (In_Left a r # cs) \<longleftrightarrow> deref c (loc_of cs) = Some (Some a) \<and>
     (\<exists>nd. bst_heap c a = Some nd \<and> node_parent nd = par_of cs \<and> shape (bst_heap c) (node_right nd) (Some a) r) \<and> ctx_ok c cs"
| "ctx_ok c (In_Right l a # cs) \<longleftrightarrow> deref c (loc_of cs) = Some (Some a) \<and>
     (\<exists>nd. bst_heap c a = Some nd \<and> node_parent nd = par_of cs \<and> shape (bst_heap c) (node_left nd) (Some a) l) \<and> ctx_ok c cs"

lemma deref_loc [simp]:
  "deref c Root = Some (bst_root c)"
  "bst_heap c a = Some nd \<Longrightarrow> deref c (Left a) = Some (node_left nd)"
  "bst_heap c a = Some nd \<Longrightarrow> deref c (Right a) = Some (node_right nd)"
  by (simp_all add: deref_def)

text \<open>The tree at a position and the context around it.\<close>

definition at_pos :: "container_bst \<Rightarrow> bst_ctx \<Rightarrow> nat tree \<Rightarrow> bool" where
  "at_pos c cs t \<longleftrightarrow> ctx_ok c cs \<and> (\<exists>p. deref c (loc_of cs) = Some p \<and> shape (bst_heap c) p (par_of cs) t)"

lemma at_pos_step:
  "at_pos c (In_Left a r # cs) t \<longleftrightarrow> at_pos c cs (Node t a r)"
  "at_pos c (In_Right l a # cs) t \<longleftrightarrow> at_pos c cs (Node l a t)"
  by (auto simp: at_pos_def)

lemma at_pos_fill: "at_pos c cs t \<longleftrightarrow> at_pos c [] (fill cs t)"
  by (induction cs t rule: fill.induct) (simp_all add: at_pos_step)

lemma set_fill [simp]: "set_tree (fill cs t) = ctx_addrs cs \<union> set_tree t"
  by (induction cs t rule: fill.induct) auto

text \<open>The addresses before and after a position, from left to right.\<close>

fun before :: "bst_ctx \<Rightarrow> nat list" where
  "before [] = []"
| "before (In_Left a r # cs) = before cs"
| "before (In_Right l a # cs) = before cs @ inorder l @ [a]"

fun after :: "bst_ctx \<Rightarrow> nat list" where
  "after [] = []"
| "after (In_Left a r # cs) = a # inorder r @ after cs"
| "after (In_Right l a # cs) = after cs"

lemma inorder_fill: "inorder (fill cs t) = before cs @ inorder t @ after cs"
  by (induction cs t rule: fill.induct) simp_all

lemma ctx_addrs_sides: "ctx_addrs cs = set (before cs) \<union> set (after cs)"
  by (induction cs rule: ctx_addrs.induct) auto

text \<open>Shapes depend on the nodes of their tree alone.\<close>

lemma shape_cong: "shape h p par t \<Longrightarrow> \<forall>a\<in>set_tree t. h' a = h a \<Longrightarrow> shape h' p par t"
  by (induction t arbitrary: p par) auto

lemma shape_root: "shape h p par t \<Longrightarrow> p = (case t of Leaf \<Rightarrow> None | Node l a r \<Rightarrow> Some a)"
  by (cases t) auto

lemma shape_in_heap: "shape h p par t \<Longrightarrow> a \<in> set_tree t \<Longrightarrow> h a \<noteq> None"
  by (induction t arbitrary: p par) auto

lemma shape_det: "shape h p par t \<Longrightarrow> shape h p par' t' \<Longrightarrow> t' = t"
proof (induction t arbitrary: p par par' t')
  case Leaf
  then show ?case by (cases t') auto
next
  case (Node l a r)
  then show ?case by (cases t') fastforce+
qed

section \<open>The contents of a container\<close>

definition tree_of :: "container_bst \<Rightarrow> nat tree \<Rightarrow> bool" where
  "tree_of c t \<longleftrightarrow> at_pos c [] t \<and> distinct (inorder t)"

definition node_kv :: "container_bst \<Rightarrow> nat \<Rightarrow> u64 \<times> u64" where
  "node_kv c a = (case bst_heap c a of Some nd \<Rightarrow> (node_key nd, node_value nd) | None \<Rightarrow> (0, 0))"

definition bst_inv :: "container_bst \<Rightarrow> bool" where
  "bst_inv c \<longleftrightarrow> (\<exists>t. tree_of c t \<and> sorted (map (fst \<circ> node_kv c) (inorder t)))"

definition bst_tree :: "container_bst \<Rightarrow> nat tree" where
  "bst_tree c = (THE t. at_pos c [] t)"

definition bst_list :: "container_bst \<Rightarrow> (u64 \<times> u64) list" where
  "bst_list c = map (node_kv c) (inorder (bst_tree c))"

lemma bst_tree_eq: "at_pos c [] t \<Longrightarrow> bst_tree c = t"
  unfolding bst_tree_def by (rule the_equality) (auto simp: at_pos_def dest: shape_det)

lemma bst_invE:
  assumes "bst_inv c"
  obtains t where "at_pos c [] t" "distinct (inorder t)" "sorted (map fst (bst_list c))" "bst_list c = map (node_kv c) (inorder t)"
  using assms by (auto simp: bst_inv_def tree_of_def bst_list_def dest: bst_tree_eq)

lemma bst_invI:
  "at_pos c [] t \<Longrightarrow> distinct (inorder t) \<Longrightarrow> map (node_kv c) (inorder t) = kvs \<Longrightarrow> sorted (map fst kvs) \<Longrightarrow>
   bst_inv c \<and> bst_list c = kvs"
  by (auto simp: bst_inv_def tree_of_def bst_list_def dest: bst_tree_eq)

section \<open>Adding\<close>

lemma bst_add_loop_at:
  "at_pos c cs t \<Longrightarrow> sorted (map (fst \<circ> node_kv c) (inorder (fill cs t))) \<Longrightarrow>
   \<forall>a\<in>set (before cs). fst (node_kv c a) \<le> k \<Longrightarrow> \<forall>a\<in>set (after cs). k < fst (node_kv c a) \<Longrightarrow>
   \<exists>cs'. bst_add_loop c k (par_of cs) (loc_of cs) = Some (par_of cs', loc_of cs') \<and> fill cs' Leaf = fill cs t \<and>
     (\<forall>a\<in>set (before cs'). fst (node_kv c a) \<le> k) \<and> (\<forall>a\<in>set (after cs'). k < fst (node_kv c a))"
proof (induction t arbitrary: cs)
  case Leaf
  then show ?case by (intro exI [of _ cs]) (subst bst_add_loop.simps, auto simp: at_pos_def)
next
  case (Node l a r)
  then obtain nd where nd: "bst_heap c a = Some nd" "deref c (loc_of cs) = Some (Some a)" by (auto simp: at_pos_def)
  then have key: "fst (node_kv c a) = node_key nd" by (simp add: node_kv_def)
  have srt: "\<forall>x\<in>set (inorder l). fst (node_kv c x) \<le> node_key nd" "\<forall>x\<in>set (inorder r). node_key nd \<le> fst (node_kv c x)"
    using Node.prems(2) key by (auto simp: inorder_fill sorted_append)
  show ?case
  proof (cases "k < node_key nd")
    case True
    have "\<exists>cs'. bst_add_loop c k (par_of (In_Left a r # cs)) (loc_of (In_Left a r # cs)) = Some (par_of cs', loc_of cs') \<and>
        fill cs' Leaf = fill (In_Left a r # cs) l \<and>
        (\<forall>a\<in>set (before cs'). fst (node_kv c a) \<le> k) \<and> (\<forall>a\<in>set (after cs'). k < fst (node_kv c a))"
      using Node.prems srt True key by (intro Node.IH(1)) (auto simp: at_pos_step)
    then show ?thesis using True nd by (subst bst_add_loop.simps) simp
  next
    case False
    have "\<exists>cs'. bst_add_loop c k (par_of (In_Right l a # cs)) (loc_of (In_Right l a # cs)) = Some (par_of cs', loc_of cs') \<and>
        fill cs' Leaf = fill (In_Right l a # cs) r \<and>
        (\<forall>a\<in>set (before cs'). fst (node_kv c a) \<le> k) \<and> (\<forall>a\<in>set (after cs'). k < fst (node_kv c a))"
      using Node.prems srt False key by (intro Node.IH(2)) (fastforce simp: at_pos_step)+
    then show ?thesis using False nd by (subst bst_add_loop.simps) simp
  qed
qed

text \<open>The context around a position depends on its own nodes and on the root.\<close>

lemma deref_cong:
  "bst_root c' = bst_root c \<Longrightarrow> \<forall>a\<in>ctx_addrs cs. bst_heap c' a = bst_heap c a \<Longrightarrow> deref c' (loc_of cs) = deref c (loc_of cs)"
  by (induction cs rule: loc_of.induct) (auto simp: deref_def)

lemma ctx_ok_cong:
  "ctx_ok c cs \<Longrightarrow> bst_root c' = bst_root c \<Longrightarrow> \<forall>a\<in>ctx_addrs cs. bst_heap c' a = bst_heap c a \<Longrightarrow> ctx_ok c' cs"
proof (induction cs rule: ctx_addrs.induct)
  case (2 a r cs)
  have "deref c' (loc_of cs) = deref c (loc_of cs)" using 2 by (intro deref_cong) auto
  then show ?case using 2 shape_cong [of "bst_heap c" _ "Some a" r "bst_heap c'"] by auto
next
  case (3 l a cs)
  have "deref c' (loc_of cs) = deref c (loc_of cs)" using 3 by (intro deref_cong) auto
  then show ?case using 3 shape_cong [of "bst_heap c" _ "Some a" l "bst_heap c'"] by auto
qed simp

lemma ctx_in_heap: "ctx_ok c cs \<Longrightarrow> a \<in> ctx_addrs cs \<Longrightarrow> bst_heap c a \<noteq> None"
  by (induction cs rule: ctx_addrs.induct) (auto dest: shape_in_heap)

lemma par_in_ctx: "par_of cs = Some a \<Longrightarrow> a \<in> ctx_addrs cs"
  by (induction cs rule: loc_of.induct) auto

lemma loc_par: "loc_of cs = Left a \<or> loc_of cs = Right a \<Longrightarrow> par_of cs = Some a"
  by (induction cs rule: loc_of.induct) auto

lemma assign_frame:
  "par_of cs \<noteq> Some a \<Longrightarrow> bst_heap (assign (loc_of cs) v c) a = bst_heap c a"
  "cs \<noteq> [] \<Longrightarrow> bst_root (assign (loc_of cs) v c) = bst_root c"
  by (cases cs rule: loc_of.cases; simp add: assign_def upd_node_def)+

lemma deref_assign: "ctx_ok c cs \<Longrightarrow> deref (assign (loc_of cs) v c) (loc_of cs) = Some v"
  by (cases cs rule: loc_of.cases) (auto simp: assign_def upd_node_def deref_def)

lemma assign_kv: "ctx_ok c cs \<Longrightarrow> node_kv (assign (loc_of cs) v c) = node_kv c"
  by (cases cs rule: loc_of.cases) (auto simp: assign_def upd_node_def node_kv_def fun_eq_iff)

lemma ctx_ok_assign:
  assumes ok: "ctx_ok c cs" and dist: "distinct (before cs @ after cs)"
  shows "ctx_ok (assign (loc_of cs) v c) cs"
proof (cases cs rule: loc_of.cases)
  case (2 a r cs')
  let ?c = "assign (Left a) v c"
  have out: "a \<notin> ctx_addrs cs'" "a \<notin> set_tree r" using dist by (auto simp: 2 ctx_addrs_sides)
  obtain nd where nd: "bst_heap c a = Some nd" "node_parent nd = par_of cs'" "shape (bst_heap c) (node_right nd) (Some a) r"
    "deref c (loc_of cs') = Some (Some a)" "ctx_ok c cs'" using ok by (auto simp: 2)
  have same: "\<forall>x. x \<noteq> a \<longrightarrow> bst_heap ?c x = bst_heap c x" "bst_root ?c = bst_root c" by (simp_all add: assign_def upd_node_def)
  have "deref ?c (loc_of cs') = Some (Some a)" using out same nd(4) deref_cong [of ?c c cs'] by fastforce
  moreover have "ctx_ok ?c cs'" by (rule ctx_ok_cong [OF nd(5)]) (use out same in auto)
  moreover have "shape (bst_heap ?c) (node_right nd) (Some a) r" by (rule shape_cong [OF nd(3)]) (use out same in auto)
  moreover have "bst_heap ?c a = Some (nd\<lparr>node_left := v\<rparr>)" using nd(1) by (simp add: assign_def upd_node_def)
  ultimately show ?thesis using nd(2) by (simp add: 2)
next
  case (3 l a cs')
  let ?c = "assign (Right a) v c"
  have out: "a \<notin> ctx_addrs cs'" "a \<notin> set_tree l" using dist by (auto simp: 3 ctx_addrs_sides)
  obtain nd where nd: "bst_heap c a = Some nd" "node_parent nd = par_of cs'" "shape (bst_heap c) (node_left nd) (Some a) l"
    "deref c (loc_of cs') = Some (Some a)" "ctx_ok c cs'" using ok by (auto simp: 3)
  have same: "\<forall>x. x \<noteq> a \<longrightarrow> bst_heap ?c x = bst_heap c x" "bst_root ?c = bst_root c" by (simp_all add: assign_def upd_node_def)
  have "deref ?c (loc_of cs') = Some (Some a)" using out same nd(4) deref_cong [of ?c c cs'] by fastforce
  moreover have "ctx_ok ?c cs'" by (rule ctx_ok_cong [OF nd(5)]) (use out same in auto)
  moreover have "shape (bst_heap ?c) (node_left nd) (Some a) l" by (rule shape_cong [OF nd(3)]) (use out same in auto)
  moreover have "bst_heap ?c a = Some (nd\<lparr>node_right := v\<rparr>)" using nd(1) by (simp add: assign_def upd_node_def)
  ultimately show ?thesis using nd(2) by (simp add: 3)
qed simp

text \<open>A new pointer at a position, to a tree that is already there.\<close>

lemma at_pos_assign:
  assumes ok: "ctx_ok c cs" and dist: "distinct (before cs @ inorder t @ after cs)" and t: "shape (bst_heap c) p (par_of cs) t"
  shows "at_pos (assign (loc_of cs) p c) cs t"
proof -
  have "\<forall>a\<in>set_tree t. bst_heap (assign (loc_of cs) p c) a = bst_heap c a"
    using dist par_in_ctx [of cs] by (intro ballI assign_frame(1)) (auto simp: ctx_addrs_sides)
  then have "shape (bst_heap (assign (loc_of cs) p c)) p (par_of cs) t" using t shape_cong by blast
  moreover have "distinct (before cs @ after cs)" using dist by auto
  ultimately show ?thesis using ctx_ok_assign [OF ok, of p] deref_assign [OF ok] by (simp add: at_pos_def)
qed

definition kv_insert :: "u64 \<Rightarrow> u64 \<Rightarrow> (u64 \<times> u64) list \<Rightarrow> (u64 \<times> u64) list" where
  "kv_insert k v kvs = takeWhile (\<lambda>p. fst p \<le> k) kvs @ (k, v) # dropWhile (\<lambda>p. fst p \<le> k) kvs"

lemma kv_insert_at:
  "\<forall>p\<in>set xs. fst p \<le> k \<Longrightarrow> \<forall>p\<in>set ys. k < fst p \<Longrightarrow> kv_insert k v (xs @ ys) = xs @ (k, v) # ys"
  by (cases ys) (auto simp: kv_insert_def takeWhile_append dropWhile_append)

lemma bst_add_correct:
  assumes inv: "bst_inv c"
  shows "case Malloc pick (bst_heap c) of
      None \<Rightarrow> bst_add pick k v c = Some (False, c)
    | Some n \<Rightarrow> \<exists>c'. bst_add pick k v c = Some (True, c') \<and> bst_inv c' \<and> bst_list c' = kv_insert k v (bst_list c)"
proof -
  obtain t where t: "at_pos c [] t" "distinct (inorder t)" "sorted (map fst (bst_list c))" "bst_list c = map (node_kv c) (inorder t)"
    by (rule bst_invE [OF inv])
  have "sorted (map (fst \<circ> node_kv c) (inorder (fill [] t)))" using t(3,4) by simp
  then obtain cs where cs: "bst_add_loop c k None Root = Some (par_of cs, loc_of cs)" "fill cs Leaf = t"
    "\<forall>a\<in>set (before cs). fst (node_kv c a) \<le> k" "\<forall>a\<in>set (after cs). k < fst (node_kv c a)"
    using bst_add_loop_at [OF t(1), of k] by auto
  have pos: "at_pos c cs Leaf" using t(1) cs(2) by (simp add: at_pos_fill [of c cs])
  have ord: "inorder t = before cs @ after cs" using inorder_fill [of cs Leaf] cs(2) by simp
  show ?thesis
  proof (cases "Malloc pick (bst_heap c)")
    case None
    have "deref c (loc_of cs) = Some None" using pos by (auto simp: at_pos_def)
    then have "assign (loc_of cs) None c = c"
      by (cases cs rule: loc_of.cases) (auto simp: assign_def upd_node_def deref_def fun_upd_idem)
    then show ?thesis using None cs(1) by (simp add: bst_add_def bst_create_node_def)
  next
    case (Some n)
    then have new: "bst_heap c n = None" by (auto simp: Malloc_def split: option.splits if_splits)
    define c1 where "c1 = c\<lparr>bst_heap := (bst_heap c)(n \<mapsto>
      \<lparr>node_value = v, node_key = k, node_parent = par_of cs, node_left = None, node_right = None\<rparr>)\<rparr>"
    have fresh: "n \<notin> ctx_addrs cs" using ctx_in_heap [of c cs n] new pos by (auto simp: at_pos_def)
    have ok1: "ctx_ok c1 cs" by (rule ctx_ok_cong [of c]) (use pos fresh in \<open>auto simp: at_pos_def c1_def\<close>)
    have dist: "distinct (before cs @ inorder (Node Leaf n Leaf) @ after cs)" using t(2) ord fresh by (auto simp: ctx_addrs_sides)
    have "at_pos (assign (loc_of cs) (Some n) c1) cs (Node Leaf n Leaf)"
      by (rule at_pos_assign [OF ok1 dist]) (simp add: c1_def)
    then have pos': "at_pos (assign (loc_of cs) (Some n) c1) [] (fill cs (Node Leaf n Leaf))"
      by (simp add: at_pos_fill [of _ cs])
    have kv: "node_kv (assign (loc_of cs) (Some n) c1) = (node_kv c)(n := (k, v))"
      unfolding assign_kv [OF ok1] by (auto simp: c1_def node_kv_def fun_eq_iff)
    have same: "map ((node_kv c)(n := (k, v))) xs = map (node_kv c) xs" if "set xs \<subseteq> ctx_addrs cs" for xs
      using that fresh by auto
    have ins: "kv_insert k v (bst_list c) = map (node_kv c) (before cs) @ (k, v) # map (node_kv c) (after cs)"
      unfolding t(4) ord map_append by (rule kv_insert_at) (use cs(3,4) in auto)
    have list: "map (node_kv (assign (loc_of cs) (Some n) c1)) (inorder (fill cs (Node Leaf n Leaf))) = kv_insert k v (bst_list c)"
      unfolding inorder_fill kv ins using same [of "before cs"] same [of "after cs"] by (simp add: ctx_addrs_sides)
    have "sorted (map fst (bst_list c))" by (rule t(3))
    then have "sorted (map fst (kv_insert k v (bst_list c)))"
      unfolding ins using cs(3,4) unfolding t(4) ord by (auto simp: sorted_append less_imp_le)
    moreover have "distinct (inorder (fill cs (Node Leaf n Leaf)))" using dist by (simp add: inorder_fill)
    ultimately have "bst_inv (assign (loc_of cs) (Some n) c1) \<and> bst_list (assign (loc_of cs) (Some n) c1) = kv_insert k v (bst_list c)"
      using bst_invI [OF pos' _ list] by blast
    then show ?thesis using Some cs(1) by (simp add: bst_add_def bst_create_node_def c1_def)
  qed
qed

section \<open>Finding\<close>

text \<open>
  The search keeps the smaller keys before its position and the greater ones after it; the node it
  remembers is the first one after it.
\<close>

definition found :: "container_bst \<Rightarrow> u64 \<Rightarrow> bool \<Rightarrow> nat list \<Rightarrow> nat option \<Rightarrow> bool" where
  "found c k ge ns r = (case r of
     None \<Rightarrow> \<exists>xs ys. ns = xs @ ys \<and> (\<forall>a\<in>set xs. fst (node_kv c a) < k) \<and> (\<forall>a\<in>set ys. k < fst (node_kv c a)) \<and> (ge \<longrightarrow> ys = [])
   | Some a \<Rightarrow> \<exists>xs ys. ns = xs @ a # ys \<and>
       (fst (node_kv c a) = k \<or> ge \<and> k < fst (node_kv c a) \<and> (\<forall>x\<in>set xs. fst (node_kv c x) < k)))"

lemma bst_find_loop_at:
  "at_pos c cs t \<Longrightarrow> sorted (map (fst \<circ> node_kv c) (inorder (fill cs t))) \<Longrightarrow>
   \<forall>a\<in>set (before cs). fst (node_kv c a) < k \<Longrightarrow> \<forall>a\<in>set (after cs). k < fst (node_kv c a) \<Longrightarrow>
   deref c (loc_of cs) = Some n \<Longrightarrow> b = (if ge \<and> after cs \<noteq> [] then Some (hd (after cs)) else None) \<Longrightarrow>
   \<exists>r. bst_find_loop c k ge b n = Some r \<and> found c k ge (inorder (fill cs t)) r"
proof (induction t arbitrary: cs n b)
  case Leaf
  then have "n = None" by (auto simp: at_pos_def)
  then have res: "bst_find_loop c k ge b n = Some b" by (subst bst_find_loop.simps) simp
  have ord: "inorder (fill cs Leaf) = before cs @ after cs" by (simp add: inorder_fill)
  show ?case
  proof (cases "ge \<and> after cs \<noteq> []")
    case True
    then obtain a ys where after: "after cs = a # ys" by (cases "after cs") auto
    then have "inorder (fill cs Leaf) = before cs @ a # ys \<and>
        (fst (node_kv c a) = k \<or> ge \<and> k < fst (node_kv c a) \<and> (\<forall>x\<in>set (before cs). fst (node_kv c x) < k))" and "b = Some a"
      using True Leaf.prems ord by auto
    then show ?thesis using res unfolding found_def by (intro exI [of _ b]) (simp, blast)
  next
    case False
    then have "b = None" "ge \<longrightarrow> after cs = []" using Leaf.prems(6) by auto
    then show ?thesis using res ord Leaf.prems(3,4) unfolding found_def by (intro exI [of _ b]) (simp, blast)
  qed
next
  case (Node l a r)
  then obtain nd where nd: "bst_heap c a = Some nd" "n = Some a" by (auto simp: at_pos_def)
  then have key: "fst (node_kv c a) = node_key nd" by (simp add: node_kv_def)
  have srt: "\<forall>x\<in>set (inorder l). fst (node_kv c x) \<le> node_key nd" "\<forall>x\<in>set (inorder r). node_key nd \<le> fst (node_kv c x)"
    using Node.prems(2) key by (auto simp: inorder_fill sorted_append)
  consider (eq) "node_key nd = k" | (less) "k < node_key nd" | (greater) "node_key nd < k" by (meson linorder_less_linear)
  then show ?case
  proof cases
    case eq
    have "\<exists>xs ys. inorder (fill cs (Node l a r)) = xs @ a # ys"
      by (rule exI [of _ "before cs @ inorder l"], rule exI [of _ "inorder r @ after cs"]) (simp add: inorder_fill)
    moreover have "bst_find_loop c k ge b n = Some (Some a)" using eq nd by (subst bst_find_loop.simps) simp
    ultimately show ?thesis using eq key unfolding found_def by (intro exI [of _ "Some a"]) simp
  next
    case less
    have "bst_find_loop c k ge b n = bst_find_loop c k ge (if ge \<and> after (In_Left a r # cs) \<noteq> [] then Some (hd (after (In_Left a r # cs))) else None) (node_left nd)"
      using less nd Node.prems(6) by (subst bst_find_loop.simps) auto
    moreover have "\<forall>x\<in>set (after (In_Left a r # cs)). k < fst (node_kv c x)" using Node.prems(4) srt(2) less key by auto
    moreover have "deref c (loc_of (In_Left a r # cs)) = Some (node_left nd)" using nd by simp
    ultimately show ?thesis
      using Node.IH(1) [of "In_Left a r # cs" "node_left nd" "if ge \<and> after (In_Left a r # cs) \<noteq> [] then Some (hd (after (In_Left a r # cs))) else None"]
        Node.prems(1,2,3) by (simp only: at_pos_step fill.simps before.simps)
  next
    case greater
    have "bst_find_loop c k ge b n = bst_find_loop c k ge (if ge \<and> after (In_Right l a # cs) \<noteq> [] then Some (hd (after (In_Right l a # cs))) else None) (node_right nd)"
      using greater nd Node.prems(6) by (subst bst_find_loop.simps) auto
    moreover have "\<forall>x\<in>set (before (In_Right l a # cs)). fst (node_kv c x) < k" using Node.prems(3) srt(1) greater key by auto
    moreover have "deref c (loc_of (In_Right l a # cs)) = Some (node_right nd)" using nd by simp
    ultimately show ?thesis
      using Node.IH(2) [of "In_Right l a # cs" "node_right nd" "if ge \<and> after (In_Right l a # cs) \<noteq> [] then Some (hd (after (In_Right l a # cs))) else None"]
        Node.prems(1,2,4) by (simp only: at_pos_step fill.simps after.simps)
  qed
qed

section \<open>Removing\<close>

lemma bst_min_loop_at:
  "shape (bst_heap c) (Some m) par t \<Longrightarrow>
   \<exists>a cs r. bst_min_loop c m = Some a \<and> t = fill cs (Node Leaf a r) \<and> before cs = []"
proof (induction t arbitrary: m par)
  case (Node l a r)
  then obtain nd where nd: "bst_heap c m = Some nd" "m = a" "shape (bst_heap c) (node_left nd) (Some a) l" by auto
  show ?case
  proof (cases "node_left nd")
    case None
    then have "l = Leaf" using nd(3) by (cases l) auto
    then show ?thesis
      using None nd by (subst bst_min_loop.simps) (intro exI [of _ a] exI [of _ "[]"] exI [of _ r], simp)
  next
    case (Some m')
    then obtain b cs s where b: "bst_min_loop c m' = Some b" "l = fill cs (Node Leaf b s)" "before cs = []"
      using Node.IH(1) [OF nd(3) [unfolded Some]] by blast
    have "fill (cs @ [In_Left a r]) t = Node (fill cs t) a r" for t
      by (induction cs t rule: fill.induct) simp_all
    moreover have "before (cs @ [In_Left a r]) = before cs" by (induction cs rule: before.induct) simp_all
    ultimately show ?thesis
      using Some nd b by (subst bst_min_loop.simps) (intro exI [of _ b] exI [of _ "cs @ [In_Left a r]"] exI [of _ s], simp)
  qed
qed simp

lemma fill_append: "fill cs (fill cs' t) = fill (cs' @ cs) t"
  by (induction cs' t rule: fill.induct) simp_all

lemma before_append: "before (cs' @ cs) = before cs @ before cs'"
  by (induction cs' rule: before.induct) simp_all

text \<open>The reference to a node is found again through its parent.\<close>

lemma ctx_root: "ctx_ok c cs \<Longrightarrow> cs \<noteq> [] \<Longrightarrow> \<exists>a\<in>ctx_addrs cs. bst_root c = Some a"
proof (induction cs rule: ctx_addrs.induct)
  case (2 a r cs)
  then show ?case by (cases "cs = []") auto
next
  case (3 l a cs)
  then show ?case by (cases "cs = []") auto
qed simp

lemma bst_ref_at:
  assumes pos: "at_pos c cs (Node l n r)" and dist: "distinct (inorder (fill cs (Node l n r)))" and nd: "bst_heap c n = Some nd"
  shows "bst_ref c n nd = Some (loc_of cs)"
proof -
  have out: "n \<notin> ctx_addrs cs" using dist by (auto simp: inorder_fill ctx_addrs_sides)
  have ok: "ctx_ok c cs" and here: "deref c (loc_of cs) = Some (Some n)" and par: "node_parent nd = par_of cs"
    using pos nd by (auto simp: at_pos_def)
  show ?thesis
  proof (cases cs rule: loc_of.cases)
    case 1
    then show ?thesis using here by (simp add: bst_ref_def)
  next
    case (2 a s cs')
    then have "bst_root c \<noteq> Some n" using ctx_root [OF ok] out by auto
    then show ?thesis using 2 ok here par by (auto simp: bst_ref_def)
  next
    case (3 s a cs')
    then have "bst_root c \<noteq> Some n" using ctx_root [OF ok] out by auto
    moreover obtain pd where pd: "bst_heap c a = Some pd" "shape (bst_heap c) (node_left pd) (Some a) s" using 3 ok by auto
    have "n \<notin> set_tree s" using out 3 by auto
    then have "node_left pd \<noteq> Some n" using shape_root [OF pd(2)] by (cases s) auto
    ultimately show ?thesis using 3 pd par by (simp add: bst_ref_def)
  qed
qed

text \<open>A node with at most one child: its child takes its place.\<close>

definition set_parent :: "nat option \<Rightarrow> nat option \<Rightarrow> container_bst \<Rightarrow> container_bst" where
  "set_parent child par c = (case child of None \<Rightarrow> c | Some x \<Rightarrow> upd_node x (\<lambda>y. y\<lparr>node_parent := par\<rparr>) c)"

lemma set_parent_assign: "set_parent x par (assign q v c) = assign q v (set_parent x par c)"
proof -
  have "(\<lambda>n :: bst_node. n\<lparr>node_left := v, node_parent := par\<rparr>) = (\<lambda>n. n\<lparr>node_parent := par, node_left := v\<rparr>)"
    "(\<lambda>n :: bst_node. n\<lparr>node_right := v, node_parent := par\<rparr>) = (\<lambda>n. n\<lparr>node_parent := par, node_right := v\<rparr>)" by auto
  then show ?thesis
    by (cases q; cases x) (auto simp: set_parent_def assign_def upd_node_def option.map_comp comp_def fun_upd_twist)
qed

lemma bst_free_assign: "par_of cs \<noteq> Some n \<Longrightarrow> bst_free n (assign (loc_of cs) v c) = assign (loc_of cs) v (bst_free n c)"
  by (cases cs rule: loc_of.cases) (auto simp: bst_free_def assign_def upd_node_def fun_upd_twist)

lemma shape_set_parent:
  assumes "shape (bst_heap c) p par t" and "distinct (inorder t)"
  shows "shape (bst_heap (set_parent p par' c)) p par' t"
proof (cases t)
  case Leaf
  then show ?thesis using assms by (simp add: set_parent_def)
next
  case (Node l a r)
  then obtain nd where nd: "p = Some a" "bst_heap c a = Some nd" "shape (bst_heap c) (node_left nd) (Some a) l"
    "shape (bst_heap c) (node_right nd) (Some a) r" using assms by auto
  have "a \<notin> set_tree l" "a \<notin> set_tree r" using assms(2) Node by auto
  then show ?thesis
    using nd shape_cong [OF nd(3)] shape_cong [OF nd(4)] by (auto simp: Node set_parent_def upd_node_def)
qed

lemma set_parent_other: "x \<noteq> Some a \<Longrightarrow> bst_heap (set_parent x par c) a = bst_heap c a" "bst_root (set_parent x par c) = bst_root c"
  by (auto simp: set_parent_def upd_node_def split: option.splits)

lemma set_parent_kv: "node_kv (set_parent x par c) = node_kv c"
  by (auto simp: set_parent_def upd_node_def node_kv_def fun_eq_iff split: option.splits)

lemma bst_remove_simple:
  assumes pos: "at_pos c cs (Node l n r)" and dist: "distinct (inorder (fill cs (Node l n r)))" and one: "l = Leaf \<or> r = Leaf"
  defines "t \<equiv> if l \<noteq> Leaf then l else r"
  shows "\<exists>c'. bst_remove c n = Some c' \<and> at_pos c' [] (fill cs t) \<and> (\<forall>a. a \<noteq> n \<longrightarrow> node_kv c' a = node_kv c a)"
proof -
  obtain nd where nd: "bst_heap c n = Some nd" "node_parent nd = par_of cs" "shape (bst_heap c) (node_left nd) (Some n) l"
    "shape (bst_heap c) (node_right nd) (Some n) r" and ok: "ctx_ok c cs" using pos by (auto simp: at_pos_def)
  let ?child = "if node_left nd \<noteq> None then node_left nd else node_right nd"
  define c0 where "c0 = bst_free n (set_parent ?child (par_of cs) c)"
  have Ls: "node_left nd = None \<longleftrightarrow> l = Leaf" "node_right nd = None \<longleftrightarrow> r = Leaf"
    using nd(3,4) by (cases l; cases r; auto)+
  have child: "shape (bst_heap c) ?child (Some n) t" using nd(3,4) Ls by (auto simp: t_def)
  have d: "distinct (inorder t)" "set_tree t \<inter> ctx_addrs cs = {}" "n \<notin> set_tree t" "n \<notin> ctx_addrs cs"
    using dist one by (auto simp: t_def inorder_fill ctx_addrs_sides)
  have out: "?child \<noteq> Some a" if "a \<in> ctx_addrs cs" for a using shape_root [OF child] d(2) that by (cases t) auto
  have par: "par_of cs \<noteq> Some n" using par_in_ctx d(4) by blast
  have "bst_remove c n = Some (bst_free n (set_parent ?child (par_of cs) (assign (loc_of cs) ?child c)))"
    using nd bst_ref_at [OF pos dist nd(1)] Ls one
    by (subst bst_remove.simps) (auto simp: set_parent_def Let_def split: option.splits)
  then have rm: "bst_remove c n = Some (assign (loc_of cs) ?child c0)"
    unfolding set_parent_assign bst_free_assign [OF par] c0_def .
  have ok0: "ctx_ok c0 cs"
    by (rule ctx_ok_cong [OF ok]) (use out d(4) in \<open>auto simp: c0_def bst_free_def set_parent_other\<close>)
  have "shape (bst_heap (set_parent ?child (par_of cs) c)) ?child (par_of cs) t" by (rule shape_set_parent [OF child d(1)])
  then have "shape (bst_heap c0) ?child (par_of cs) t" by (rule shape_cong) (use d(3) in \<open>auto simp: c0_def bst_free_def\<close>)
  then have "at_pos (assign (loc_of cs) ?child c0) cs t"
    using dist one by (intro at_pos_assign ok0) (auto simp: t_def inorder_fill)
  then have "at_pos (assign (loc_of cs) ?child c0) [] (fill cs t)" by (simp add: at_pos_fill [of _ cs])
  moreover have "node_kv (assign (loc_of cs) ?child c0) a = node_kv c a" if "a \<noteq> n" for a
    unfolding assign_kv [OF ok0] using that fun_cong [OF set_parent_kv, of ?child "par_of cs" c a]
    by (simp add: c0_def bst_free_def node_kv_def)
  ultimately show ?thesis using rm by blast
qed

lemma shape_upd_kv:
  "shape (bst_heap c) p par t \<Longrightarrow> shape (bst_heap (upd_node n (\<lambda>x. x\<lparr>node_value := v, node_key := k\<rparr>) c)) p par t"
  by (induction t arbitrary: p par) (auto simp: upd_node_def)

lemma at_pos_upd_kv:
  "at_pos c cs t \<Longrightarrow> at_pos (upd_node n (\<lambda>x. x\<lparr>node_value := v, node_key := k\<rparr>) c) cs t"
  unfolding at_pos_fill [of _ cs] using shape_upd_kv [where k = k and v = v and n = n, of c "bst_root c" None "fill cs t"]
  by (simp add: at_pos_def) (simp add: upd_node_def)

text \<open>Any node: with two children it takes the entry of the next node, which is removed instead.\<close>

lemma bst_remove_at:
  assumes pos: "at_pos c cs (Node l n r)" and dist: "distinct (inorder (fill cs (Node l n r)))"
  shows "\<exists>c' t'. bst_remove c n = Some c' \<and> at_pos c' [] t' \<and> distinct (inorder t') \<and>
    map (node_kv c') (inorder t') = map (node_kv c) (before cs @ inorder l @ inorder r @ after cs)"
proof (cases "l = Leaf \<or> r = Leaf")
  case True
  then obtain c' where c': "bst_remove c n = Some c'" "at_pos c' [] (fill cs (if l \<noteq> Leaf then l else r))"
    "\<forall>a. a \<noteq> n \<longrightarrow> node_kv c' a = node_kv c a" using bst_remove_simple [OF pos dist] by blast
  have ord: "inorder (fill cs (if l \<noteq> Leaf then l else r)) = before cs @ inorder l @ inorder r @ after cs"
    using True by (auto simp: inorder_fill)
  have "n \<notin> set (before cs @ inorder l @ inorder r @ after cs)" using dist by (auto simp: inorder_fill)
  then have "map (node_kv c') (before cs @ inorder l @ inorder r @ after cs) = map (node_kv c) (before cs @ inorder l @ inorder r @ after cs)"
    using c'(3) by (intro map_cong) auto
  moreover have "distinct (before cs @ inorder l @ inorder r @ after cs)" using dist by (auto simp: inorder_fill)
  ultimately show ?thesis using c'(1,2) ord by metis
next
  case False
  obtain nd where nd: "bst_heap c n = Some nd" "shape (bst_heap c) (node_left nd) (Some n) l"
    "shape (bst_heap c) (node_right nd) (Some n) r" using pos by (auto simp: at_pos_def)
  obtain la ra where child: "node_left nd = Some la" "node_right nd = Some ra"
    using False shape_root [OF nd(2)] shape_root [OF nd(3)] by (auto split: tree.splits)
  obtain m rcs s where m: "bst_min_loop c ra = Some m" "r = fill rcs (Node Leaf m s)" "before rcs = []"
    using bst_min_loop_at [OF nd(3) [unfolded child(2)]] by blast
  let ?cs = "rcs @ In_Right l n # cs"
  have whole: "fill cs (Node l n r) = fill ?cs (Node Leaf m s)" using m(2) by (simp add: fill_append [symmetric])
  have sides: "before ?cs = before cs @ inorder l @ [n]" "after ?cs = after rcs @ after cs"
    using m(3) by (simp_all add: before_append) (induction rcs rule: after.induct, simp_all)
  have pos_m: "at_pos c ?cs (Node Leaf m s)" using pos whole by (metis at_pos_fill)
  then obtain md where md: "bst_heap c m = Some md" by (auto simp: at_pos_def)
  define c1 where "c1 = upd_node n (\<lambda>x. x\<lparr>node_value := node_value md, node_key := node_key md\<rparr>) c"
  have mn: "m \<noteq> n" using dist m(2) by (auto simp: inorder_fill)
  have kv1: "node_kv c1 = (node_kv c)(n := node_kv c m)"
    using nd(1) md by (auto simp: c1_def upd_node_def node_kv_def fun_eq_iff)
  have pos1: "at_pos c1 ?cs (Node Leaf m s)"
    unfolding c1_def by (rule at_pos_upd_kv [OF pos_m])
  have dist1: "distinct (inorder (fill ?cs (Node Leaf m s)))" using dist whole by simp
  obtain c' where c': "bst_remove c1 m = Some c'" "at_pos c' [] (fill ?cs s)" "\<forall>a. a \<noteq> m \<longrightarrow> node_kv c' a = node_kv c1 a"
    using bst_remove_simple [OF pos1 dist1] by auto
  have rm: "bst_remove c n = Some c'"
    using nd(1) bst_ref_at [OF pos dist nd(1)] child m(1) md c'(1) by (subst bst_remove.simps) (simp add: c1_def)
  have ord: "inorder (fill ?cs s) = before cs @ inorder l @ n # inorder s @ after rcs @ after cs"
    by (simp add: inorder_fill sides)
  have ord_r: "inorder r = m # inorder s @ after rcs" using m(2,3) by (simp add: inorder_fill)
  have d: "distinct (before cs @ inorder l @ n # m # inorder s @ after rcs @ after cs)"
    using dist ord_r by (simp add: inorder_fill)
  have same: "map (node_kv c') xs = map (node_kv c) xs" if "n \<notin> set xs" "m \<notin> set xs" for xs
    using c'(3) kv1 that by (intro map_cong) auto
  have "node_kv c' n = node_kv c m" using c'(3) kv1 mn by auto
  then have "map (node_kv c') (inorder (fill ?cs s)) = map (node_kv c) (before cs @ inorder l @ inorder r @ after cs)"
    using same [of "before cs @ inorder l"] same [of "inorder s @ after rcs @ after cs"] d unfolding ord ord_r by simp
  moreover have "distinct (inorder (fill ?cs s))" using d unfolding ord by simp
  ultimately show ?thesis using rm c'(2) by blast
qed

lemma tree_split: "a \<in> set_tree t \<Longrightarrow> \<exists>cs l r. t = fill cs (Node l a r)"
proof (induction t)
  case (Node l b r)
  have "\<exists>cs l' r'. Node l b r = fill cs (Node l' a r')" if "l = fill cs (Node l' a r')" for cs l' r'
    using that fill_append [of "[In_Left b r]" cs "Node l' a r'"] by (metis fill.simps(1,2))
  moreover have "\<exists>cs l' r'. Node l b r = fill cs (Node l' a r')" if "r = fill cs (Node l' a r')" for cs l' r'
    using that fill_append [of "[In_Right l b]" cs "Node l' a r'"] by (metis fill.simps(1,3))
  moreover have "\<exists>cs l' r'. Node l b r = fill cs (Node l' b r')" by (metis fill.simps(1))
  moreover consider "a = b" | "a \<in> set_tree l" | "a \<in> set_tree r" using Node.prems by auto
  ultimately show ?case using Node.IH by metis
qed simp

lemma split_unique: "xs @ a # ys = xs' @ a # ys' \<Longrightarrow> distinct (xs @ a # ys) \<Longrightarrow> xs = xs' \<and> ys = ys'"
proof -
  assume eq: "xs @ a # ys = xs' @ a # ys'" and dist: "distinct (xs @ a # ys)"
  from dist have "a \<notin> set xs" "a \<notin> set ys" by auto
  then show ?thesis using eq append_Cons_eq_iff by metis
qed

lemma best_get_rm_correct:
  assumes inv: "bst_inv c"
  obtains (hit) xs k' v ys c' where "bst_list c = xs @ (k', v) # ys" "best_get_rm c k ge = Some (v, c')" "bst_inv c'"
      "bst_list c' = xs @ ys" "k' = k \<or> ge \<and> k < k' \<and> (\<forall>p\<in>set xs. fst p < k)"
  | (miss) "best_get_rm c k ge = Some (NULL_VAL, c)" "\<forall>p\<in>set (bst_list c). fst p \<noteq> k \<and> (ge \<longrightarrow> fst p < k)"
proof -
  obtain t where t: "at_pos c [] t" "distinct (inorder t)" "sorted (map fst (bst_list c))" "bst_list c = map (node_kv c) (inorder t)"
    by (rule bst_invE [OF inv])
  have srt: "sorted (map (fst \<circ> node_kv c) (inorder (fill [] t)))" using t(3,4) by simp
  obtain res where res: "bst_find_node c k ge = Some res" "found c k ge (inorder t) res"
    using bst_find_loop_at [OF t(1) srt, of k "bst_root c" None ge] by (auto simp: bst_find_node_def)
  show thesis
  proof (cases res)
    case None
    then have "best_get_rm c k ge = Some (NULL_VAL, c)" using res(1) by (simp add: best_get_rm_def)
    moreover have "\<forall>a\<in>set (inorder t). fst (node_kv c a) \<noteq> k \<and> (ge \<longrightarrow> fst (node_kv c a) < k)"
      using res(2) None by (auto simp: found_def simp del: set_inorder)
    then have "\<forall>p\<in>set (bst_list c). fst p \<noteq> k \<and> (ge \<longrightarrow> fst p < k)" unfolding t(4) by (simp del: set_inorder)
    ultimately show thesis by (rule miss)
  next
    case (Some n)
    then obtain xs ys where n: "inorder t = xs @ n # ys"
      "fst (node_kv c n) = k \<or> ge \<and> k < fst (node_kv c n) \<and> (\<forall>x\<in>set xs. fst (node_kv c x) < k)"
      using res(2) by (auto simp: found_def)
    then obtain cs l r where cs: "t = fill cs (Node l n r)" using tree_split [of n t] by (metis in_set_conv_decomp set_inorder)
    have pos: "at_pos c cs (Node l n r)" using t(1) cs by (metis at_pos_fill)
    have dist: "distinct (inorder (fill cs (Node l n r)))" using t(2) cs by simp
    obtain nd where nd: "bst_heap c n = Some nd" using pos by (auto simp: at_pos_def)
    obtain c' t' where c': "bst_remove c n = Some c'" "at_pos c' [] t'" "distinct (inorder t')"
      "map (node_kv c') (inorder t') = map (node_kv c) (before cs @ inorder l @ inorder r @ after cs)"
      using bst_remove_at [OF pos dist] by blast
    have "before cs @ inorder l = xs \<and> inorder r @ after cs = ys"
      using n(1) t(2) unfolding cs inorder_fill by (intro split_unique [of _ n]) (auto simp: inorder_fill)
    then have list': "map (node_kv c') (inorder t') = map (node_kv c) xs @ map (node_kv c) ys" using c'(4) by (metis append.assoc map_append)
    have list: "bst_list c = map (node_kv c) xs @ (fst (node_kv c n), node_value nd) # map (node_kv c) ys"
      unfolding t(4) n(1) using nd by (simp add: node_kv_def)
    have "sorted (map fst (map (node_kv c) xs @ map (node_kv c) ys))"
      using t(3) unfolding list by (auto simp: sorted_append)
    then have "bst_inv c' \<and> bst_list c' = map (node_kv c) xs @ map (node_kv c) ys" by (rule bst_invI [OF c'(2,3) list'])
    moreover have "best_get_rm c k ge = Some (node_value nd, c')" using res(1) Some nd c'(1) by (simp add: best_get_rm_def)
    ultimately show thesis using list n(2) by (intro hit [of "map (node_kv c) xs" _ "node_value nd" "map (node_kv c) ys" c']) auto
  qed
qed

section \<open>The interface of a container\<close>

text \<open>
  What \<open>container.h\<close> promises of its operations, over the multiset of key and value pairs:
  the clients rely on nothing else.
\<close>

datatype container_op = Add u64 u64 | Get_Eq u64 | Get_Ge u64

text \<open>A sequence of operations, each with the answer of the allocator at that call.\<close>

type_synonym 'p container_ops = "('p \<times> container_op) list"

fun added :: "'p container_ops \<Rightarrow> u64 multiset" where
  "added [] = {#}"
| "added ((_, Add k v) # xs) = add_mset v (added xs)"
| "added ((_, _) # xs) = added xs"

text \<open>The values other than the one that stands for nothing found.\<close>

definition real_vals :: "u64 multiset \<Rightarrow> u64 multiset" where
  "real_vals M = filter_mset (\<lambda>v. v \<noteq> NULL_VAL) M"

locale container =
  fixes inv :: "'c \<Rightarrow> bool" and contents :: "'c \<Rightarrow> (u64 \<times> u64) multiset"
    and add :: "'p \<Rightarrow> u64 \<Rightarrow> u64 \<Rightarrow> 'c \<Rightarrow> (bool \<times> 'c) option"
    and get_rm_eq :: "'c \<Rightarrow> u64 \<Rightarrow> (u64 \<times> 'c) option" and get_rm_ge :: "'c \<Rightarrow> u64 \<Rightarrow> (u64 \<times> 'c) option"
  assumes add_law: "inv c \<Longrightarrow> \<exists>ok c'. add al k v c = Some (ok, c') \<and> inv c' \<and>
      contents c' = (if ok then add_mset (k, v) (contents c) else contents c)"
    and get_rm_eq_law: "inv c \<Longrightarrow>
      (\<exists>v c'. get_rm_eq c k = Some (v, c') \<and> inv c' \<and> contents c = add_mset (k, v) (contents c')) \<or>
      get_rm_eq c k = Some (NULL_VAL, c) \<and> (\<forall>p\<in>#contents c. fst p \<noteq> k)"
    and get_rm_ge_law: "inv c \<Longrightarrow>
      (\<exists>k' v c'. get_rm_ge c k = Some (v, c') \<and> inv c' \<and> contents c = add_mset (k', v) (contents c') \<and>
         k \<le> k' \<and> (\<forall>p\<in>#contents c. k \<le> fst p \<longrightarrow> k' \<le> fst p)) \<or>
      get_rm_ge c k = Some (NULL_VAL, c) \<and> (\<forall>p\<in>#contents c. fst p < k)"
begin

text \<open>
  Sequences of operations: the values that were accepted and the values that came out, in order.
\<close>

fun run :: "'p container_ops \<Rightarrow> 'c \<Rightarrow> (u64 list \<times> u64 list \<times> 'c) option" where
  "run [] c = Some ([], [], c)"
| "run ((al, Add k v) # xs) c =
     Option.bind (add al k v c) (\<lambda>(ok, c'). map_option (apfst (if ok then Cons v else id)) (run xs c'))"
| "run ((al, Get_Eq k) # xs) c = Option.bind (get_rm_eq c k) (\<lambda>(v, c'). map_option (apsnd (apfst (Cons v))) (run xs c'))"
| "run ((al, Get_Ge k) # xs) c = Option.bind (get_rm_ge c k) (\<lambda>(v, c'). map_option (apsnd (apfst (Cons v))) (run xs c'))"

abbreviation vals :: "'c \<Rightarrow> u64 multiset" where
  "vals c \<equiv> real_vals (image_mset snd (contents c))"

lemma get_rm_conserves:
  assumes "inv c" and "get c k = Some (v, c1)" and "get = get_rm_eq \<or> get = get_rm_ge"
  shows "inv c1 \<and> real_vals {#v#} + real_vals (image_mset snd (contents c1)) = real_vals (image_mset snd (contents c))"
proof -
  have "v = NULL_VAL \<and> c1 = c \<or> inv c1 \<and> (\<exists>k'. contents c = add_mset (k', v) (contents c1))"
    using assms(3)
  proof
    assume "get = get_rm_eq"
    then show ?thesis using get_rm_eq_law [OF assms(1), of k] assms(2) by auto
  next
    assume "get = get_rm_ge"
    then show ?thesis using get_rm_ge_law [OF assms(1), of k] assms(2) by auto
  qed
  then show ?thesis using assms(1) by (elim disjE conjE exE) (simp_all add: real_vals_def)
qed

lemma get_rm_returns: "inv c \<Longrightarrow> get = get_rm_eq \<or> get = get_rm_ge \<Longrightarrow> \<exists>v c1. get c k = Some (v, c1)"
  using get_rm_eq_law [of c k] get_rm_ge_law [of c k] by blast

lemma get_step:
  assumes get: "get = get_rm_eq \<or> get = get_rm_ge" and inv: "inv c"
    and rest: "\<And>c. inv c \<Longrightarrow> \<exists>ins outs c'. run xs c = Some (ins, outs, c') \<and> inv c' \<and> mset ins \<subseteq># added xs \<and>
      real_vals (mset outs) + vals c' = vals c + real_vals (mset ins)"
  shows "\<exists>v c1 ins outs c'. get c k = Some (v, c1) \<and> run xs c1 = Some (ins, outs, c') \<and> inv c' \<and> mset ins \<subseteq># added xs \<and>
    real_vals (mset (v # outs)) + vals c' = vals c + real_vals (mset ins)"
proof -
  obtain v c1 where c1: "get c k = Some (v, c1)" using get_rm_returns [OF inv get] by blast
  then have inv1: "inv c1" and eq: "vals c = real_vals {#v#} + vals c1"
    using get_rm_conserves [where get = get, OF inv c1 get] by simp_all
  obtain ins outs c' where run: "run xs c1 = Some (ins, outs, c')" "inv c'" "mset ins \<subseteq># added xs"
    "real_vals (mset outs) + vals c' = vals c1 + real_vals (mset ins)"
    using rest [OF inv1] by blast
  have "real_vals (mset (v # outs)) = real_vals {#v#} + real_vals (mset outs)" by (simp add: real_vals_def)
  then have "real_vals (mset (v # outs)) + vals c' = vals c + real_vals (mset ins)"
    unfolding eq using run(4) by (simp add: union_assoc)
  then show ?thesis using c1 run(1-3) by blast
qed

lemma run_conserves:
  "inv c \<Longrightarrow> \<exists>ins outs c'. run xs c = Some (ins, outs, c') \<and> inv c' \<and> mset ins \<subseteq># added xs \<and>
    real_vals (mset outs) + vals c' = vals c + real_vals (mset ins)"
proof (induction xs arbitrary: c)
  case (Cons x xs)
  obtain al op where x: "x = (al, op)" by fastforce
  show ?case
  proof (cases op)
    case (Add k v)
    obtain ok c1 where c1: "add al k v c = Some (ok, c1)" "inv c1" "contents c1 = (if ok then add_mset (k, v) (contents c) else contents c)"
      using add_law [OF Cons.prems] by blast
    obtain ins outs c' where run: "run xs c1 = Some (ins, outs, c')" "inv c'" "mset ins \<subseteq># added xs"
      "real_vals (mset outs) + vals c' = vals c1 + real_vals (mset ins)"
      using Cons.IH [OF c1(2)] by blast
    let ?ins = "if ok then v # ins else ins"
    have "run (x # xs) c = Some (?ins, outs, c')" using x Add c1(1) run(1) by simp
    moreover have "mset ?ins \<subseteq># added (x # xs)"
      using x Add run(3) by (cases ok) (simp_all add: subset_mset.le_add_same_cancel2 subset_mset.order_trans [OF run(3)])
    moreover have "real_vals (mset outs) + vals c' = vals c + real_vals (mset ?ins)"
      using run(4) c1(3) by (simp add: real_vals_def)
    ultimately show ?thesis using run(2) by blast
  next
    case (Get_Eq k)
    then show ?thesis using get_step [where get = get_rm_eq and k = k, OF _ Cons.prems Cons.IH] x by fastforce
  next
    case (Get_Ge k)
    then show ?thesis using get_step [where get = get_rm_ge and k = k, OF _ Cons.prems Cons.IH] x by fastforce
  qed
qed (simp add: real_vals_def)

end

interpretation bst: container bst_inv "\<lambda>c. mset (bst_list c)" bst_add bst_get_rm_eq bst_get_rm_ge
proof
  fix pick c k v assume inv: "bst_inv c"
  have "mset (bst_list c) = mset (takeWhile (\<lambda>p. fst p \<le> k) (bst_list c)) + mset (dropWhile (\<lambda>p. fst p \<le> k) (bst_list c))"
    by (simp flip: mset_append)
  then have "mset (kv_insert k v (bst_list c)) = add_mset (k, v) (mset (bst_list c))" by (simp add: kv_insert_def)
  then show "\<exists>ok c'. bst_add pick k v c = Some (ok, c') \<and> bst_inv c' \<and>
      mset (bst_list c') = (if ok then add_mset (k, v) (mset (bst_list c)) else mset (bst_list c))"
    using bst_add_correct [OF inv, of pick k v] inv by (cases "Malloc pick (bst_heap c)") auto
next
  fix c k assume inv: "bst_inv c"
  show "(\<exists>v c'. bst_get_rm_eq c k = Some (v, c') \<and> bst_inv c' \<and> mset (bst_list c) = add_mset (k, v) (mset (bst_list c'))) \<or>
      bst_get_rm_eq c k = Some (NULL_VAL, c) \<and> (\<forall>p\<in>#mset (bst_list c). fst p \<noteq> k)"
    using inv by (cases rule: best_get_rm_correct [where k = k and ge = False]) (auto simp: bst_get_rm_eq_def)
next
  fix c k assume inv: "bst_inv c"
  have srt: "sorted (map fst (bst_list c))" by (rule bst_invE [OF inv])
  show "(\<exists>k' v c'. bst_get_rm_ge c k = Some (v, c') \<and> bst_inv c' \<and> mset (bst_list c) = add_mset (k', v) (mset (bst_list c')) \<and>
         k \<le> k' \<and> (\<forall>p\<in>#mset (bst_list c). k \<le> fst p \<longrightarrow> k' \<le> fst p)) \<or>
      bst_get_rm_ge c k = Some (NULL_VAL, c) \<and> (\<forall>p\<in>#mset (bst_list c). fst p < k)"
    using inv
  proof (cases rule: best_get_rm_correct [where k = k and ge = True])
    case (hit xs k' v ys c')
    have "k' \<le> fst p" if "p \<in> set (bst_list c)" "k \<le> fst p" for p
      using that hit(1,5) srt by (auto simp: sorted_append)
    moreover have "k \<le> k'" using hit(5) by auto
    ultimately show ?thesis using hit by (intro disjI1 exI [of _ k'] exI [of _ v] exI [of _ c']) (auto simp: bst_get_rm_ge_def)
  next
    case miss
    then show ?thesis by (auto simp: bst_get_rm_ge_def)
  qed
qed

section \<open>Deleting a container\<close>

lemma bst_delete_tree:
  "shape (bst_heap c) p par t \<Longrightarrow> distinct (inorder t) \<Longrightarrow> bst_delete p c = Some (c\<lparr>bst_heap := bst_heap c |` (- set_tree t)\<rparr>)"
proof (induction t arbitrary: p par c)
  case Leaf
  have "bst_heap c |` UNIV = bst_heap c" by (simp add: restrict_map_def)
  then show ?case using Leaf by (subst bst_delete.simps) simp
next
  case (Node l a r)
  then obtain nd where nd: "p = Some a" "bst_heap c a = Some nd" "shape (bst_heap c) (node_left nd) (Some a) l"
    "shape (bst_heap c) (node_right nd) (Some a) r" by auto
  let ?c1 = "c\<lparr>bst_heap := bst_heap c |` (- set_tree l)\<rparr>"
  have d: "distinct (inorder l)" "distinct (inorder r)" "set_tree l \<inter> set_tree r = {}" using Node.prems(2) by auto
  have "shape (bst_heap ?c1) (node_right nd) (Some a) r"
    by (rule shape_cong [OF nd(4)]) (use d(3) in \<open>auto simp: restrict_map_def\<close>)
  then have del: "bst_delete (node_left nd) c = Some ?c1"
    "bst_delete (node_right nd) ?c1 = Some (?c1\<lparr>bst_heap := bst_heap ?c1 |` (- set_tree r)\<rparr>)"
    using Node.IH(1) [OF nd(3) d(1)] Node.IH(2) d(2) by blast+
  have "bst_free a (?c1\<lparr>bst_heap := bst_heap ?c1 |` (- set_tree r)\<rparr>) = c\<lparr>bst_heap := bst_heap c |` (- set_tree (Node l a r))\<rparr>"
    by (auto simp: bst_free_def restrict_map_def fun_eq_iff intro!: arg_cong [of _ _ "\<lambda>h. c\<lparr>bst_heap := h\<rparr>"])
  then show ?case using nd(1,2) del by (subst bst_delete.simps) simp
qed

section \<open>Properties\<close>

text \<open>Sequences of operations on the tree; each allocation has its own answer.\<close>

type_synonym bst_ops = "((nat \<rightharpoonup> bst_node) \<Rightarrow> nat option) container_ops"

fun bst_run :: "bst_ops \<Rightarrow> container_bst \<Rightarrow> (u64 list \<times> u64 list \<times> container_bst) option" where
  "bst_run [] c = Some ([], [], c)"
| "bst_run ((pick, Add k v) # xs) c =
     Option.bind (bst_add pick k v c) (\<lambda>(ok, c'). map_option (apfst (if ok then Cons v else id)) (bst_run xs c'))"
| "bst_run ((pick, Get_Eq k) # xs) c =
     Option.bind (bst_get_rm_eq c k) (\<lambda>(v, c'). map_option (apsnd (apfst (Cons v))) (bst_run xs c'))"
| "bst_run ((pick, Get_Ge k) # xs) c =
     Option.bind (bst_get_rm_ge c k) (\<lambda>(v, c'). map_option (apsnd (apfst (Cons v))) (bst_run xs c'))"

lemma bst_run_eq: "bst_run xs c = bst.run xs c"
  by (induction xs c rule: bst_run.induct) (auto intro!: Option.bind_cong simp del: bind_split)

lemma bst_new_inv: "bst_inv container_bst_new" "bst_list container_bst_new = []"
  using bst_invI [of container_bst_new Leaf "[]"] by (simp_all add: at_pos_def container_bst_new_def)

text \<open>
  C34 Looking for a memory block takes the best fit out of the tree of free blocks: the entry with the
  least key that is not below the one asked for, and no other; when there is none the container
  answers \<open>NULL_VAL\<close> and stays as it is.  The search and the removal return on every well-formed
  heap, with its parent pointers.
\<close>

theorem bst_best_fit:
  assumes "bst_inv c"
  shows "(\<exists>k' v c'. bst_get_rm_ge c k = Some (v, c') \<and> bst_inv c' \<and> mset (bst_list c) = add_mset (k', v) (mset (bst_list c')) \<and>
      k \<le> k' \<and> (\<forall>p\<in>set (bst_list c). k \<le> fst p \<longrightarrow> k' \<le> fst p)) \<or>
    bst_get_rm_ge c k = Some (NULL_VAL, c) \<and> (\<forall>p\<in>set (bst_list c). fst p < k)"
  using bst.get_rm_ge_law [OF assms, of k] by simp

text \<open>
  C35 Whatever is added to a new container and taken out of it, in any order, and with each allocation
  of a node free to fail, also when the same call succeeds at another time, every call returns and
  the heap stays a search tree with correct parent pointers.  The values that came out and those still in
  the tree are exactly those whose addition succeeded, each as often as it was added: no free block is
  lost or handed out twice.  (\<open>NULL_VAL\<close>, the answer when nothing is found, is not counted.)
\<close>

theorem bst_run_conserves:
  "\<exists>ins outs c'. bst_run xs container_bst_new = Some (ins, outs, c') \<and> bst_inv c' \<and> mset ins \<subseteq># added xs \<and>
    real_vals (mset outs) + real_vals (image_mset snd (mset (bst_list c'))) = real_vals (mset ins)"
  using bst.run_conserves [OF bst_new_inv(1), of xs] by (simp add: bst_run_eq bst_new_inv(2) real_vals_def)

text \<open>
  Deleting a container returns and frees every node of its tree, and nothing else.
\<close>

theorem bst_delete_frees:
  assumes "bst_inv c"
  shows "\<exists>c' ns. container_bst_delete c = Some c' \<and> length ns = length (bst_list c) \<and> distinct ns \<and>
    bst_list c = map (node_kv c) ns \<and> (\<forall>a. bst_heap c' a = (if a \<in> set ns then None else bst_heap c a))"
proof -
  obtain t where t: "at_pos c [] t" "distinct (inorder t)" "bst_list c = map (node_kv c) (inorder t)" by (rule bst_invE [OF assms])
  then have "shape (bst_heap c) (bst_root c) None t" by (simp add: at_pos_def)
  then have "container_bst_delete c = Some (c\<lparr>bst_heap := bst_heap c |` (- set_tree t)\<rparr>)"
    using bst_delete_tree t(2) by (simp add: container_bst_delete_def)
  then show ?thesis using t(2,3) by (intro exI [of _ "c\<lparr>bst_heap := bst_heap c |` (- set_tree t)\<rparr>"] exI [of _ "inorder t"])
    (auto simp: restrict_map_def)
qed

text \<open>A container with one entry.\<close>

lemma demo_container:
  obtains c where "bst_inv c" "bst_list c = [(7, 70)]"
proof -
  have "Malloc (\<lambda>_. Some 0) (bst_heap container_bst_new) = Some 0" by (simp add: Malloc_def container_bst_new_def)
  then show thesis
    using bst_add_correct [OF bst_new_inv(1), of "\<lambda>_. Some 0" 7 70] that by (auto simp: bst_new_inv(2) kv_insert_def)
qed

theorem bst_best_fit_witness:
  "\<exists>c c'. bst_list c = [(7, 70)] \<and> bst_get_rm_ge c 5 = Some (70, c') \<and> bst_list c' = []"
proof -
  obtain c where c: "bst_inv c" "bst_list c = [(7, 70)]" by (rule demo_container)
  then show ?thesis using bst_best_fit [OF c(1), of 5] by auto
qed

theorem bst_delete_frees_witness:
  "\<exists>c c' a. bst_list c = [(7, 70)] \<and> container_bst_delete c = Some c' \<and> bst_heap c' a = None"
proof -
  obtain c where c: "bst_inv c" "bst_list c = [(7, 70)]" by (rule demo_container)
  obtain c' ns where "container_bst_delete c = Some c'" "length ns = 1" "\<forall>a. bst_heap c' a = (if a \<in> set ns then None else bst_heap c a)"
    using bst_delete_frees [OF c(1)] c(2) by auto
  then show ?thesis using c(2) by (intro exI [of _ c] exI [of _ c'] exI [of _ "hd ns"]) (cases ns, auto)
qed

end
