(* ===== verification/Obj_Props.thy ===== *)
theory Obj_Props
  imports Obj Container_Props
begin

text \<open>
  The allocator keeps its zones: the chunk headers of a zone tile it, every entry of the bucket of
  free chunks stands for one free chunk with its size, and allocating and freeing change the set of
  allocated chunks by exactly one chunk.  The arithmetic of sizes, ids and offsets comes first.
\<close>

section \<open>Ids and offsets\<close>

lemma obj_consts [simp]: "SIZEOF_ZONE = 17180656624" "SIZEOF_SLOT = 32" "MAX_INFO_SLOT = 1024" "SIZEOF_CHUNK_HEADER = 16"
  "CHUNKSIZE = 262144" "MAX_CHUNK = 65535" "SIZEOF_HEADER = 1024" "ZONE_MIN_SIZE = 8388608" "MAX_BUCKETS = 1024" "MAX_ARENAS = 10"
  by (simp_all add: SIZEOF_ZONE_def SIZEOF_HEADER_def SIZEOF_SLOT_def SIZEOF_CHUNK_HEADER_def CHUNKSIZE_def MAX_CHUNK_def MAX_INFO_SLOT_def
    ZONE_MIN_SIZE_def MAX_BUCKETS_def MAX_ARENAS_def)

lemma chunk_data_offset_eq: "chunk_data_offset z i = of_nat (1083376 + z * 17180656624 + i * 262144)"
  unfolding chunk_data_offset_def by (rule arg_cong [where f = of_nat]) simp

lemma unat_chunk_data_offset:
  assumes "z < 65536" and "i < 65536"
  shows "unat (chunk_data_offset z i) = 1083376 + z * 17180656624 + i * 262144"
proof -
  have "z * 17180656624 \<le> 65535 * 17180656624" "i * 262144 \<le> 65535 * 262144" using assms by simp_all
  then have "1083376 + z * 17180656624 + i * 262144 < 2 ^ 64" by simp
  then show ?thesis unfolding chunk_data_offset_eq by (subst unat_of_nat) (rule mod_less, simp)
qed

lemma chunk_data_offset_inj:
  assumes "z < 65536" "i < 65535" "z' < 65536" "i' < 65535" and "chunk_data_offset z i = chunk_data_offset z' i'"
  shows "z = z' \<and> i = i'"
proof -
  have e: "z * 17180656624 + i * 262144 = z' * 17180656624 + i' * 262144"
    using arg_cong [OF assms(5), of unat] assms(1-4) by (simp add: unat_chunk_data_offset)
  have i: "i * 262144 < 17180656624" "i' * 262144 < 17180656624" using assms by simp_all
  have "(z * 17180656624 + i * 262144) div 17180656624 = z" "(z' * 17180656624 + i' * 262144) div 17180656624 = z'"
    using i by simp_all
  then have "z = z'" using e by metis
  then show ?thesis using e by simp
qed

lemma bit_small: "bit (i :: nat) n \<Longrightarrow> i < 65536 \<Longrightarrow> n < 16"
  using bit_take_bit_iff [of 16 i n] take_bit_nat_eq_self [of i 16] by simp

lemma uid_unpack:
  assumes "i < 65536" and "z < 65536"
  shows "UID_CHUNK_IDX (UID_PACK i z) = i" and "UID_ZONE_IDX (UID_PACK i z) = z"
proof -
  have z: "unat (of_nat z :: u32) = z" and i: "unat (of_nat i :: u32) = i" using assms by (simp_all add: unat_of_nat)
  have small: "\<not> bit z (16 + n)" "bit i n \<Longrightarrow> n < 16" "bit z n \<Longrightarrow> n < 16" for n
    using bit_small [of z "16 + n"] bit_small [of i n] bit_small [of z n] assms by auto
  have hi: "(0xFFFF0000 :: u32) = push_bit 16 (mask 16)" "(0xFFFF :: u32) = mask 16" by (simp_all add: mask_eq_exp_minus_1)
  have "drop_bit 16 (UID_PACK i z AND 0xFFFF0000) = of_nat i"
    unfolding UID_PACK_def hi by (rule bit_word_eqI) (auto simp: bit_simps small(1) dest: small(2))
  then show "UID_CHUNK_IDX (UID_PACK i z) = i" using i assms by (simp add: UID_CHUNK_IDX_def unat_ucast_mod)
  have "UID_PACK i z AND 0xFFFF = of_nat z"
    unfolding UID_PACK_def hi by (rule bit_word_eqI) (auto simp: bit_simps dest: small(3))
  then show "UID_ZONE_IDX (UID_PACK i z) = z" using z assms by (simp add: UID_ZONE_IDX_def unat_ucast_mod)
qed

lemma uid_inj: "i < 65536 \<Longrightarrow> z < 65536 \<Longrightarrow> i' < 65536 \<Longrightarrow> z' < 65536 \<Longrightarrow> UID_PACK i z = UID_PACK i' z' \<Longrightarrow> i = i' \<and> z = z'"
  using uid_unpack by metis

lemma uid_not_null:
  assumes "i < 65535" and "z < 65536"
  shows "(ucast (ucast (UID_PACK i z) :: u64) :: u32) \<noteq> ucast NULL_VAL" and "ucast (ucast (UID_PACK i z) :: u64) = UID_PACK i z"
proof -
  have up: "(ucast (ucast (u :: u32) :: u64) :: u32) = u" for u by (rule bit_word_eqI) (simp add: bit_simps)
  show "ucast (ucast (UID_PACK i z) :: u64) = UID_PACK i z" by (rule up)
  have "UID_CHUNK_IDX 0xFFFFFFFF = 65535" by (simp add: UID_CHUNK_IDX_def)
  moreover have "(ucast NULL_VAL :: u32) = 0xFFFFFFFF" by (simp add: NULL_VAL_def unsigned_minus_1_eq_mask mask_eq_exp_minus_1)
  ultimately have "UID_CHUNK_IDX (ucast NULL_VAL) = 65535" by simp
  then show "(ucast (ucast (UID_PACK i z) :: u64) :: u32) \<noteq> ucast NULL_VAL"
    using uid_unpack(1) [of i z] assms unfolding up by auto
qed

lemma OBJ_KEY_size: "OBJ_KEY u s = OBJ_KEY u' s' \<longleftrightarrow> u = u' \<and> s = s'"
proof
  assume e: "OBJ_KEY u s = OBJ_KEY u' s'"
  have "s = s'"
  proof (rule bit_word_eqI)
    fix n assume "n < LENGTH(32)"
    then show "bit s n \<longleftrightarrow> bit s' n" using arg_cong [OF e, of "\<lambda>w. bit w n"] by (simp add: OBJ_KEY_def bit_simps)
  qed
  moreover have "u = u'"
  proof (rule bit_word_eqI)
    fix n assume "n < LENGTH(32)"
    then show "bit u n \<longleftrightarrow> bit u' n"
      using arg_cong [OF e, of "\<lambda>w. bit w (32 + n)"] bit_imp_le_length [of s "32 + n"] bit_imp_le_length [of s' "32 + n"]
      by (auto simp: OBJ_KEY_def bit_simps)
  qed
  ultimately show "u = u' \<and> s = s'" by simp
qed simp

lemma get_chunk_by_offset_data:
  assumes "z < 65536" and "i < 65535" and "chunk_data_offset z i < pool_size"
  shows "get_chunk_by_offset pool_size (chunk_data_offset z i) = Some (z, i)"
proof -
  have u: "unat (chunk_data_offset z i) = 1083376 + z * 17180656624 + i * 262144"
    using assms(1,2) by (simp add: unat_chunk_data_offset)
  have sub: "unat (w - of_nat k :: u64) = unat w - k" if "k \<le> unat w" "k < 2 ^ 64" for w :: u64 and k
    using that by (simp add: unat_sub word_le_nat_alt unat_of_nat)
  let ?off = "chunk_data_offset z i - of_nat (SIZEOF_HEADER + SIZEOF_SLOT * MAX_INFO_SLOT)"
  have off: "unat ?off = 1049584 + z * 17180656624 + i * 262144" unfolding obj_consts by (subst sub) (simp_all add: u)
  have "unat (?off div of_nat SIZEOF_ZONE) = z" unfolding unat_div off using assms(2) by (simp add: unat_of_nat)
  then have z: "unat (ucast (?off div of_nat SIZEOF_ZONE) :: u16) = z" using assms(1) by (simp add: unat_ucast_mod)
  have zz: "(of_nat z :: u64) * of_nat SIZEOF_ZONE = of_nat (z * 17180656624)" by simp
  have big: "z * 17180656624 < 2 ^ 64" using assms(1) by simp
  let ?zo = "?off - of_nat z * of_nat SIZEOF_ZONE - of_nat SIZEOF_HEADER - of_nat (SIZEOF_CHUNK_HEADER * MAX_CHUNK)"
  have s1: "unat (?off - of_nat z * of_nat SIZEOF_ZONE) = 1049584 + i * 262144"
    unfolding zz by (subst sub) (use big off in simp_all)
  have s2: "unat (?off - of_nat z * of_nat SIZEOF_ZONE - of_nat SIZEOF_HEADER) = 1048560 + i * 262144"
    by (subst sub) (use s1 in simp_all)
  have zo: "unat ?zo = i * 262144" by (subst sub) (use s2 in simp_all)
  have "?zo mod of_nat CHUNKSIZE = 0" unfolding unat_eq_zero [symmetric] unat_mod zo by (simp add: unat_of_nat)
  moreover have "unat (?zo div of_nat CHUNKSIZE) = i" unfolding unat_div zo by (simp add: unat_of_nat)
  then have "unat (ucast (?zo div of_nat CHUNKSIZE) :: u16) = i" using assms(2) by (simp add: unat_ucast_mod)
  ultimately show ?thesis using assms(3) z unfolding get_chunk_by_offset_def Let_def by (simp del: obj_consts)
qed

end
