(* ===== verification/Obj_Heap.thy ===== *)
theory Obj_Heap
  imports Obj_Props
begin

text \<open>
  The zone of the allocator as a list of blocks.  A block is the index of its first chunk, its length
  in chunks and whether it is allocated; \<open>tiles\<close> says that the chunk headers of a zone read as a
  given list, and \<open>heap_ok\<close> adds that the entries of the shared bucket are free blocks of it.
  The operations change this list by cutting a block from a free one and by freeing a block.
\<close>

section \<open>Blocks\<close>

type_synonym block = "nat \<times> nat \<times> bool"

definition chunk_ok :: "backend_chunk_header \<Rightarrow> nat \<Rightarrow> bool \<Rightarrow> bool" where
  "chunk_ok c l u \<longleftrightarrow> ch_magic c = CHUNK_HEADER_MAGIC \<and> ch_type c \<noteq> CHUNK_TYPE_UNKNOWN \<and> ch_type c \<le> MAX_CHUNK_TYPE \<and>
     unat (ch_size_idx c) = l \<and> u = (ch_flags c AND CHUNK_FLAG_USED \<noteq> 0)"

fun tiles :: "(nat \<Rightarrow> backend_chunk_header) \<Rightarrow> nat \<Rightarrow> block list \<Rightarrow> nat \<Rightarrow> bool" where
  "tiles ch i [] n \<longleftrightarrow> i = n"
| "tiles ch i ((x, l, u) # bs) n \<longleftrightarrow> x = i \<and> l \<noteq> 0 \<and> chunk_ok (ch i) l u \<and> tiles ch (i + l) bs n"

lemma tiles_append: "tiles ch i (as @ bs) n \<longleftrightarrow> (\<exists>m. tiles ch i as m \<and> tiles ch m bs n)"
  by (induction ch i as n rule: tiles.induct) auto

lemma tiles_le: "tiles ch i bs n \<Longrightarrow> i \<le> n"
  by (induction ch i bs n rule: tiles.induct) auto

lemma tiles_bounds: "tiles ch i bs n \<Longrightarrow> (x, l, u) \<in> set bs \<Longrightarrow> i \<le> x \<and> x + l \<le> n \<and> 0 < l \<and> chunk_ok (ch x) l u"
  by (induction ch i bs n rule: tiles.induct) (auto dest: tiles_le)

lemma tiles_cong: "tiles ch i bs n \<Longrightarrow> (\<And>x. i \<le> x \<Longrightarrow> x < n \<Longrightarrow> ch' x = ch x) \<Longrightarrow> tiles ch' i bs n"
proof (induction ch i bs n rule: tiles.induct)
  case (2 ch i x l u bs n)
  then have "i < n" using tiles_le [of ch "i + l" bs n] by auto
  then show ?case using 2 by auto
qed simp

text \<open>One block of a tiling is replaced by a tiling of its chunks.\<close>

lemma tiles_replace:
  assumes "tiles ch i (as @ (x, l, u) # cs) n" and "tiles ch' x new (x + l)"
    and "\<And>y. y < x \<or> x + l \<le> y \<Longrightarrow> ch' y = ch y"
  shows "tiles ch' i (as @ new @ cs) n"
proof -
  from assms(1) have parts: "tiles ch i as x" "tiles ch (x + l) cs n" by (auto simp: tiles_append)
  have "tiles ch' i as x" by (rule tiles_cong [OF parts(1)]) (simp add: assms(3))
  moreover have "tiles ch' (x + l) cs n" by (rule tiles_cong [OF parts(2)]) (simp add: assms(3))
  ultimately show ?thesis using assms(2) by (auto simp: tiles_append)
qed

section \<open>The bucket of free blocks\<close>

definition entry :: "block \<Rightarrow> u64 \<times> u64" where
  "entry b = (OBJ_KEY (UID_PACK (fst b) 0) (of_nat (fst (snd b))), ucast (UID_PACK (fst b) 0))"

definition free_entries :: "block list \<Rightarrow> (u64 \<times> u64) multiset" where
  "free_entries bs = mset (map entry (filter (\<lambda>b. \<not> snd (snd b)) bs))"

lemma free_entries_simps [simp]: "free_entries [] = {#}"
  "free_entries ((x, l, u) # bs) = (if u then free_entries bs else add_mset (entry (x, l, u)) (free_entries bs))"
  "free_entries (as @ bs) = free_entries as + free_entries bs"
  by (simp_all add: free_entries_def)

definition bucket_has :: "(u64 \<times> u64) multiset \<Rightarrow> nat \<Rightarrow> (nat \<rightharpoonup> bucket) \<Rightarrow> bool" where
  "bucket_has M ba S \<longleftrightarrow> (\<exists>b. S ba = Some b \<and> bk_unit_size b = CHUNKSIZE \<and> bst_inv (bk_objects b) \<and> mset (bst_list (bk_objects b)) \<subseteq># M)"

lemma bucket_has_mono: "bucket_has M ba S \<Longrightarrow> M \<subseteq># N \<Longrightarrow> bucket_has N ba S"
  by (auto simp: bucket_has_def intro: subset_mset.order_trans)

lemma bucket_add_has:
  assumes "bucket_has M ba (bucket_store p)"
  obtains ok S where "bucket_add_object ba obj p = Some (ok, p\<lparr>bucket_store := S\<rparr>)"
    "bucket_has (add_mset (OBJ_KEY (obj_unique_id obj) (obj_size_idx obj), ucast (obj_unique_id obj)) M) ba S"
proof -
  let ?k = "OBJ_KEY (obj_unique_id obj) (obj_size_idx obj)" and ?v = "ucast (obj_unique_id obj) :: u64"
  obtain b where b: "bucket_store p ba = Some b" "bk_unit_size b = CHUNKSIZE" "bst_inv (bk_objects b)" "mset (bst_list (bk_objects b)) \<subseteq># M"
    using assms by (auto simp: bucket_has_def)
  obtain ok c where c: "bst_add (malloc_pick p) ?k ?v (bk_objects b) = Some (ok, c)" "bst_inv c"
    "mset (bst_list c) = (if ok then add_mset (?k, ?v) (mset (bst_list (bk_objects b))) else mset (bst_list (bk_objects b)))"
    using bst.add_law [OF b(3)] by blast
  have "mset (bst_list c) \<subseteq># add_mset (?k, ?v) M" using c(3) b(4)
    by (cases ok) (auto intro: subset_mset.order_trans)
  then have "bucket_has (add_mset (?k, ?v) M) ba ((bucket_store p)(ba \<mapsto> b\<lparr>bk_objects := c\<rparr>))"
    using b(2) c(2) by (simp add: bucket_has_def)
  then show thesis using that b(1) c(1) by (simp add: bucket_add_object_def)
qed

definition listed :: "nat \<Rightarrow> (nat \<rightharpoonup> bucket) \<Rightarrow> (u64 \<times> u64) set" where
  "listed ba S = (case S ba of None \<Rightarrow> {} | Some b \<Rightarrow> set (bst_list (bk_objects b)))"

lemma bucket_take_has:
  assumes "bucket_has M ba S"
  obtains (hit) b k v c where "S ba = Some b" "bst_get_rm_ge (bk_objects b) key = Some (v, c)" "(k, v) \<in># M"
      "bucket_has (M - {#(k, v)#}) ba (S(ba \<mapsto> b\<lparr>bk_objects := c\<rparr>))"
      "(k, v) \<in> listed ba S" "key \<le> k" "\<forall>e\<in>listed ba S. key \<le> fst e \<longrightarrow> k \<le> fst e"
  | (miss) b where "S ba = Some b" "bst_get_rm_ge (bk_objects b) key = Some (NULL_VAL, bk_objects b)" "\<forall>e\<in>listed ba S. fst e < key"
proof -
  obtain b where b: "S ba = Some b" "bk_unit_size b = CHUNKSIZE" "bst_inv (bk_objects b)" "mset (bst_list (bk_objects b)) \<subseteq># M"
    using assms by (auto simp: bucket_has_def)
  consider k v c where "bst_get_rm_ge (bk_objects b) key = Some (v, c)" "bst_inv c"
      "mset (bst_list (bk_objects b)) = add_mset (k, v) (mset (bst_list c))" "key \<le> k" "\<forall>e\<in>listed ba S. key \<le> fst e \<longrightarrow> k \<le> fst e"
    | "bst_get_rm_ge (bk_objects b) key = Some (NULL_VAL, bk_objects b)" "\<forall>e\<in>listed ba S. fst e < key"
    using bst.get_rm_ge_law [OF b(3), of key] b(1) unfolding listed_def set_mset_mset by auto
  then show thesis
  proof cases
    case (1 k v c)
    then have "add_mset (k, v) (mset (bst_list c)) \<subseteq># M" using b(4) by simp
    then have "(k, v) \<in># M" "mset (bst_list c) \<subseteq># M - {#(k, v)#}" by (auto simp: insert_subset_eq_iff)
    moreover have "(k, v) \<in> listed ba S" using 1(3) b(1) unfolding listed_def by (metis option.simps(5) set_mset_mset union_single_eq_member)
    ultimately show thesis using 1 b by (intro hit [of b v c k]) (simp_all add: bucket_has_def)
  qed (rule miss [OF b(1)])
qed

text \<open>The block whose entry has the least key from \<open>OBJ_KEY 0 k\<close> on.\<close>

definition chosen :: "u32 \<Rightarrow> nat \<Rightarrow> (nat \<rightharpoonup> bucket) \<Rightarrow> nat \<Rightarrow> nat \<Rightarrow> bool" where
  "chosen k ba S x l \<longleftrightarrow> entry (x, l, False) \<in> listed ba S \<and> OBJ_KEY 0 k \<le> fst (entry (x, l, False)) \<and>
     (\<forall>e\<in>listed ba S. OBJ_KEY 0 k \<le> fst e \<longrightarrow> fst (entry (x, l, False)) \<le> fst e)"

lemma chosen_unique:
  assumes "chosen k ba S x l" "chosen k ba S x' l'" "l < 65536" "l' < 65536"
  shows "l = l'"
proof -
  have "fst (entry (x, l, False)) = fst (entry (x', l', False))" using assms(1,2) unfolding chosen_def by (meson antisym)
  then have "unat (of_nat l :: u32) = unat (of_nat l' :: u32)" by (simp add: entry_def OBJ_KEY_size)
  then show ?thesis using assms(3,4) by (simp add: unat_of_nat)
qed

lemma entry_free: "e \<in># free_entries bs \<Longrightarrow> \<exists>as x l cs. bs = as @ (x, l, False) # cs \<and> e = entry (x, l, False)"
proof -
  assume "e \<in># free_entries bs"
  then obtain b where "b \<in> set bs" "\<not> snd (snd b)" "e = entry b" by (auto simp: free_entries_def)
  moreover then obtain as cs where "bs = as @ b # cs" by (meson split_list)
  ultimately show ?thesis by (metis prod.collapse)
qed

section \<open>Cutting a block\<close>

definition rest_block :: "nat \<Rightarrow> nat \<Rightarrow> nat \<Rightarrow> block list" where
  "rest_block x l k = (if k < l then [(x + k, l - k, False)] else [])"

lemma add_chunk_has:
  assumes "pool_buckets p 0 = Some ba" and "bucket_has M ba (bucket_store p)"
  obtains S where "add_chunk 0 i off p = Some ((), p\<lparr>bucket_store := S\<rparr>)"
    "bucket_has (add_mset (entry (i, unat (ch_size_idx (bp_chunk p 0 i)), False)) M) ba S"
proof -
  let ?sz = "ch_size_idx (bp_chunk p 0 i)"
  let ?obj = "\<lparr>obj_real_size = chunk_real_size ?sz, obj_data_offset = off, obj_size_idx = ?sz, obj_unique_id = UID_PACK i 0\<rparr>"
  obtain ok S where "bucket_add_object ba ?obj p = Some (ok, p\<lparr>bucket_store := S\<rparr>)"
    "bucket_has (add_mset (OBJ_KEY (obj_unique_id ?obj) (obj_size_idx ?obj), ucast (obj_unique_id ?obj)) M) ba S"
    by (rule bucket_add_has [OF assms(2)])
  then show thesis using that assms(1) by (simp add: add_chunk_def get_bucket_class_id_by_size_def entry_def)
qed

lemma init_obj_same:
  assumes "x < 65535" and "0 < bp_max_zone p" and "ch_size_idx (bp_chunk p 0 x) \<le> k"
  shows "persistent_init_bucket_obj (obj\<lparr>obj_unique_id := UID_PACK x 0, obj_size_idx := k\<rparr>) p =
    Some (\<lparr>obj_real_size = chunk_real_size (ch_size_idx (bp_chunk p 0 x)), obj_data_offset = chunk_data_offset 0 x,
      obj_size_idx = ch_size_idx (bp_chunk p 0 x), obj_unique_id = UID_PACK x 0\<rparr>, p)"
  using assms leD [OF assms(3)] by (cases obj) (simp add: persistent_init_bucket_obj_def uid_unpack Let_def)

definition cut :: "(nat \<Rightarrow> backend_chunk_header) \<Rightarrow> nat \<Rightarrow> u32 \<Rightarrow> nat \<Rightarrow> backend_chunk_header" where
  "cut ch x k =
     (let c = ch x in
      ch(x + unat k := \<lparr>ch_magic = CHUNK_HEADER_MAGIC, ch_type_specific = 0, ch_type = CHUNK_TYPE_BASE, ch_flags = 0,
           ch_size_idx = ch_size_idx c - k\<rparr>,
         x := c\<lparr>ch_size_idx := k\<rparr>))"

lemma init_obj_split:
  assumes x: "x + unat (ch_size_idx (bp_chunk p 0 x)) \<le> 65535" and mz: "0 < bp_max_zone p"
    and k: "k < ch_size_idx (bp_chunk p 0 x)" "k \<noteq> 0"
    and bucket: "pool_buckets p 0 = Some ba" "bucket_has M ba (bucket_store p)"
  obtains S where "persistent_init_bucket_obj (obj\<lparr>obj_unique_id := UID_PACK x 0, obj_size_idx := k\<rparr>) p =
      Some (\<lparr>obj_real_size = chunk_real_size k, obj_data_offset = chunk_data_offset 0 x, obj_size_idx = k, obj_unique_id = UID_PACK x 0\<rparr>,
        p\<lparr>bp_chunk := (bp_chunk p)(0 := cut (bp_chunk p 0) x k), bucket_store := S\<rparr>)"
    "bucket_has (add_mset (entry (x + unat k, unat (ch_size_idx (bp_chunk p 0 x)) - unat k, False)) M) ba S"
proof -
  let ?sz = "ch_size_idx (bp_chunk p 0 x)"
  let ?p2 = "p\<lparr>bp_chunk := (bp_chunk p)(0 := cut (bp_chunk p 0) x k)\<rparr>"
  have kn: "unat k < unat ?sz" "0 < unat k" using k by (simp_all add: word_less_nat_alt unat_gt_0)
  then have k16: "unat k < 65536" and x16: "x < 65535" using x by simp_all
  have nc: "unat (of_nat x + k) = x + unat k" using k16 x16 by (simp add: unat_word_ariths unat_of_nat)
  have "uint k < 65536" using k16 unfolding unat_eq_nat_uint by linarith
  then have "sint k = uint k" unfolding sint_uint by (intro signed_take_bit_int_eq_self) (simp_all add: order_trans [OF _ uint_ge_0])
  moreover have "0 < uint k" using kn(2) unfolding unat_eq_nat_uint by linarith
  ultimately have pos: "0 < sint k" by simp
  have diff: "unat (?sz - k) = unat ?sz - unat k" using k(1) by (simp add: unat_sub less_imp_le)
  have cut: "fst (cut (bp_chunk p 0) x k (x + unat k), ()) = \<lparr>ch_magic = CHUNK_HEADER_MAGIC, ch_type_specific = 0, ch_type = CHUNK_TYPE_BASE,
      ch_flags = 0, ch_size_idx = ?sz - k\<rparr>" "ch_size_idx (cut (bp_chunk p 0) x k x) = k"
    using kn by (simp_all add: cut_def Let_def)
  obtain S where S: "add_chunk 0 (x + unat k) (chunk_data_offset 0 (x + unat k)) ?p2 = Some ((), ?p2\<lparr>bucket_store := S\<rparr>)"
    "bucket_has (add_mset (entry (x + unat k, unat (ch_size_idx (bp_chunk ?p2 0 (x + unat k))), False)) M) ba S"
    by (rule add_chunk_has [of ?p2 ba M]) (use bucket in simp_all)
  have "upd_chunk 0 x (\<lambda>c. c\<lparr>ch_size_idx := k\<rparr>) (write_chunk_header 0 (x + unat k) (?sz - k) p) = ?p2"
    using kn by (simp add: upd_chunk_def write_chunk_header_def cut_def Let_def fun_upd_twist)
  then have "persistent_init_bucket_obj (obj\<lparr>obj_unique_id := UID_PACK x 0, obj_size_idx := k\<rparr>) p =
      Some (\<lparr>obj_real_size = chunk_real_size k, obj_data_offset = chunk_data_offset 0 x, obj_size_idx = k, obj_unique_id = UID_PACK x 0\<rparr>,
        ?p2\<lparr>bucket_store := S\<rparr>)"
    using x16 mz k S(1) pos cut(2) by (cases obj) (simp add: persistent_init_bucket_obj_def uid_unpack set_chunk_size_def nc Let_def)
  then show thesis using S(2) cut(1) diff by (intro that [of S]) simp_all
qed

lemma tiles_cut:
  assumes "tiles ch i (as @ (x, l, False) # cs) n" and "0 < unat k" and "unat k < l"
  shows "tiles (cut ch x k) i (as @ ((x, unat k, False) # rest_block x l (unat k)) @ cs) n"
proof (rule tiles_replace [OF assms(1)])
  have ok: "chunk_ok (ch x) l False" using tiles_bounds [OF assms(1), of x l False] by simp
  then have sz: "unat (ch_size_idx (ch x)) = l" by (simp add: chunk_ok_def)
  then have "k < ch_size_idx (ch x)" using assms(3) by (simp add: word_less_nat_alt)
  then have "unat (ch_size_idx (ch x) - k) = l - unat k" using sz by (simp add: unat_sub less_imp_le)
  then show "tiles (cut ch x k) x ((x, unat k, False) # rest_block x l (unat k)) (x + l)"
    using ok assms(2,3) by (simp add: rest_block_def cut_def Let_def chunk_ok_def CHUNK_TYPE_BASE_def CHUNK_TYPE_UNKNOWN_def MAX_CHUNK_TYPE_def)
  show "cut ch x k y = ch y" if "y < x \<or> x + l \<le> y" for y using that assms(2,3) by (auto simp: cut_def Let_def)
qed

section \<open>Taking a block out of the bucket\<close>

lemma entry_uid: "x < 65535 \<Longrightarrow> (ucast (snd (entry (x, l, u))) :: u32) = UID_PACK x 0 \<and> (ucast (snd (entry (x, l, u))) :: u32) \<noteq> ucast NULL_VAL"
  using uid_not_null [of x 0] by (simp add: entry_def)

lemma bucket_get_has:
  assumes t: "tiles (bp_chunk p 0) 0 bs n" and n: "n \<le> 65535" and mz: "0 < bp_max_zone p"
    and pb: "pool_buckets p 0 = Some ba" and has: "bucket_has (free_entries bs) ba (bucket_store p)" and k: "k \<noteq> 0"
  obtains (none) obj S where "bucket_get_object ba k zero_obj p = Some ((False, obj), p\<lparr>bucket_store := S\<rparr>)"
      "bucket_has (free_entries bs) ba S"
      "\<And>x l. (x, l, False) \<in> set bs \<Longrightarrow> chosen k ba (bucket_store p) x l \<Longrightarrow> l < unat k"
  | (some) as x l cs C S where "bs = as @ (x, l, False) # cs" "chosen k ba (bucket_store p) x l" "unat k \<le> l"
      "bucket_get_object ba k zero_obj p = Some ((True, \<lparr>obj_real_size = chunk_real_size k, obj_data_offset = chunk_data_offset 0 x,
         obj_size_idx = k, obj_unique_id = UID_PACK x 0\<rparr>), p\<lparr>bp_chunk := (bp_chunk p)(0 := C), bucket_store := S\<rparr>)"
      "tiles C 0 (as @ (x, unat k, False) # rest_block x l (unat k) @ cs) n"
      "bucket_has (free_entries (as @ rest_block x l (unat k) @ cs)) ba S"
  using has
proof (cases rule: bucket_take_has [where key = "OBJ_KEY 0 k"])
  case (miss b)
  then have "bucket_get_object ba k zero_obj p = Some ((False, zero_obj\<lparr>obj_unique_id := ucast NULL_VAL, obj_size_idx := k\<rparr>), p\<lparr>bucket_store := bucket_store p\<rparr>)"
    by (simp add: bucket_get_object_def map_upd_triv)
  moreover have "\<not> chosen k ba (bucket_store p) x l" for x l using miss(3) unfolding chosen_def by (meson leD)
  ultimately show thesis using has none by blast
next
  case (hit b key v c)
  let ?S1 = "(bucket_store p)(ba \<mapsto> b\<lparr>bk_objects := c\<rparr>)"
  let ?p1 = "p\<lparr>bucket_store := ?S1\<rparr>"
  obtain as x l cs where bs: "bs = as @ (x, l, False) # cs" "(key, v) = entry (x, l, False)" using entry_free [OF hit(3)] by blast
  have x: "x + l \<le> n" "0 < l" "chunk_ok (bp_chunk p 0 x) l False" using tiles_bounds [OF t, of x l False] bs(1) by simp_all
  have x16: "x < 65535" using x n by simp
  have sz: "unat (ch_size_idx (bp_chunk p 0 x)) = l" using x(3) by (simp add: chunk_ok_def)
  have uid: "(ucast v :: u32) = UID_PACK x 0" "(ucast v :: u32) \<noteq> ucast NULL_VAL"
    using entry_uid [OF x16, of l False] bs(2) by (metis snd_conv)+
  have has1: "bucket_has (free_entries (as @ cs)) ba (bucket_store ?p1)" using hit(4) bs by simp
  have kn: "0 < unat k" using k by (simp add: unat_gt_0)
  have ch: "chosen k ba (bucket_store p) x l" using hit(5-7) bs(2) unfolding chosen_def by (metis fst_conv)
  have get: "bucket_get_object ba k zero_obj p =
      do { (obj2, p2) \<leftarrow> persistent_init_bucket_obj (zero_obj\<lparr>obj_unique_id := UID_PACK x 0, obj_size_idx := k\<rparr>) ?p1;
           if k \<le> obj_size_idx obj2 then Some ((True, obj2), p2)
           else do { (_, p3) \<leftarrow> bucket_add_object ba obj2 p2; Some ((False, obj2), p3) } }"
    using hit(1,2) uid by (simp add: bucket_get_object_def Let_def)
  show thesis
  proof (cases "k < ch_size_idx (bp_chunk p 0 x)")
    case True
    have x': "x + unat (ch_size_idx (bp_chunk ?p1 0 x)) \<le> 65535" using x n sz by simp
    obtain S where S: "persistent_init_bucket_obj (zero_obj\<lparr>obj_unique_id := UID_PACK x 0, obj_size_idx := k\<rparr>) ?p1 =
        Some (\<lparr>obj_real_size = chunk_real_size k, obj_data_offset = chunk_data_offset 0 x, obj_size_idx = k, obj_unique_id = UID_PACK x 0\<rparr>,
          ?p1\<lparr>bp_chunk := (bp_chunk ?p1)(0 := cut (bp_chunk ?p1 0) x k), bucket_store := S\<rparr>)"
      "bucket_has (add_mset (entry (x + unat k, unat (ch_size_idx (bp_chunk ?p1 0 x)) - unat k, False)) (free_entries (as @ cs))) ba S"
      by (rule init_obj_split [OF x', of k ba "free_entries (as @ cs)"]) (use mz True k pb has1 in simp_all)
    have kl: "unat k < l" using True sz by (simp add: word_less_nat_alt)
    show thesis
    proof (rule some [OF bs(1) ch, where C = "cut (bp_chunk p 0) x k" and S = S])
      show "tiles (cut (bp_chunk p 0) x k) 0 (as @ (x, unat k, False) # rest_block x l (unat k) @ cs) n"
        using tiles_cut [OF t [unfolded bs(1)] kn kl] by simp
      show "bucket_has (free_entries (as @ rest_block x l (unat k) @ cs)) ba S" using S(2) kl sz by (simp add: rest_block_def)
    qed (use kl in \<open>simp_all add: get S(1)\<close>)
  next
    case False
    let ?obj = "\<lparr>obj_real_size = chunk_real_size (ch_size_idx (bp_chunk p 0 x)), obj_data_offset = chunk_data_offset 0 x,
      obj_size_idx = ch_size_idx (bp_chunk p 0 x), obj_unique_id = UID_PACK x 0\<rparr>"
    have init: "persistent_init_bucket_obj (zero_obj\<lparr>obj_unique_id := UID_PACK x 0, obj_size_idx := k\<rparr>) ?p1 = Some (?obj, ?p1)"
      using init_obj_same [of x ?p1 k zero_obj] x16 mz False by simp
    show thesis
    proof (cases "k = ch_size_idx (bp_chunk p 0 x)")
      case True
      have "bucket_get_object ba k zero_obj p = Some ((True, ?obj), ?p1)" unfolding get init using True by simp
      then show thesis
        by (intro some [OF bs(1) ch, where C = "bp_chunk p 0" and S = ?S1]) (use True sz t bs(1) has1 in \<open>simp_all add: rest_block_def\<close>)
    next
      case less: False
      obtain ok S where S: "bucket_add_object ba ?obj ?p1 = Some (ok, ?p1\<lparr>bucket_store := S\<rparr>)"
        "bucket_has (add_mset (OBJ_KEY (obj_unique_id ?obj) (obj_size_idx ?obj), ucast (obj_unique_id ?obj)) (free_entries (as @ cs))) ba S"
        by (rule bucket_add_has [OF has1])
      have "of_nat l = ch_size_idx (bp_chunk p 0 x)" unfolding sz [symmetric] by simp
      then have "bucket_has (free_entries bs) ba S" using S(2) bs(1) by (simp add: entry_def)
      moreover have "l' < unat k" if "(x', l', False) \<in> set bs" "chosen k ba (bucket_store p) x' l'" for x' l'
      proof -
        have "l = l'" using chosen_unique [OF ch that(2)] tiles_bounds [OF t that(1)] x n by simp
        moreover have "ch_size_idx (bp_chunk p 0 x) < k" using False less by (metis linorder_neqE)
        ultimately show ?thesis using sz by (simp add: word_less_nat_alt)
      qed
      ultimately show thesis using False less S(1) by (intro none [of ?obj S]) (simp_all add: get init)
    qed
  qed
qed

text \<open>A request for no units stops at the assertion in \<open>set_chunk_size\<close> as soon as there is a free block.\<close>

lemma init_obj_zero:
  assumes "x < 65535" and "0 < bp_max_zone p" and "ch_size_idx (bp_chunk p 0 x) \<noteq> 0"
  shows "persistent_init_bucket_obj (obj\<lparr>obj_unique_id := UID_PACK x 0, obj_size_idx := 0\<rparr>) p = None"
  using assms by (cases obj) (simp add: persistent_init_bucket_obj_def uid_unpack set_chunk_size_def word_neq_0_conv Let_def)

lemma bucket_get_zero:
  assumes t: "tiles (bp_chunk p 0) 0 bs n" and n: "n \<le> 65535" and mz: "0 < bp_max_zone p"
    and has: "bucket_has (free_entries bs) ba (bucket_store p)"
  shows "if \<exists>x l. chosen 0 ba (bucket_store p) x l then bucket_get_object ba 0 zero_obj p = None
    else \<exists>obj. bucket_get_object ba 0 zero_obj p = Some ((False, obj), p)"
  using has
proof (cases rule: bucket_take_has [where key = "OBJ_KEY 0 0"])
  case (miss b)
  then have "bucket_get_object ba 0 zero_obj p = Some ((False, zero_obj\<lparr>obj_unique_id := ucast NULL_VAL, obj_size_idx := 0\<rparr>), p)"
    by (simp add: bucket_get_object_def map_upd_triv)
  moreover have "\<not> chosen 0 ba (bucket_store p) x l" for x l using miss(3) unfolding chosen_def by (meson leD)
  ultimately show ?thesis by auto
next
  case (hit b key v c)
  let ?p1 = "p\<lparr>bucket_store := (bucket_store p)(ba \<mapsto> b\<lparr>bk_objects := c\<rparr>)\<rparr>"
  obtain as x l cs where bs: "bs = as @ (x, l, False) # cs" "(key, v) = entry (x, l, False)" using entry_free [OF hit(3)] by blast
  have x: "x + l \<le> n" "0 < l" "chunk_ok (bp_chunk p 0 x) l False" using tiles_bounds [OF t, of x l False] bs(1) by simp_all
  have x16: "x < 65535" using x n by simp
  have uid: "(ucast v :: u32) = UID_PACK x 0" "(ucast v :: u32) \<noteq> ucast NULL_VAL"
    using entry_uid [OF x16, of l False] bs(2) by (metis snd_conv)+
  have ch: "chosen 0 ba (bucket_store p) x l" using hit(5-7) bs(2) unfolding chosen_def by (metis fst_conv)
  have "ch_size_idx (bp_chunk p 0 x) \<noteq> 0" using x(2,3) by (auto simp: chunk_ok_def)
  then have "persistent_init_bucket_obj (zero_obj\<lparr>obj_unique_id := UID_PACK x 0, obj_size_idx := 0\<rparr>) ?p1 = None"
    using init_obj_zero [of x ?p1 zero_obj] x16 mz by simp
  then have "bucket_get_object ba 0 zero_obj p = None"
    using hit(1,2) uid by (simp add: bucket_get_object_def Let_def)
  then show ?thesis using ch by auto
qed

section \<open>Marking blocks\<close>

lemma tiles_flag:
  assumes "tiles ch i (as @ (x, l, u) # cs) n" and "\<And>y. y \<noteq> x \<Longrightarrow> ch' y = ch y" and "ch' x = (ch x)\<lparr>ch_flags := f\<rparr>"
  shows "tiles ch' i (as @ (x, l, f AND CHUNK_FLAG_USED \<noteq> 0) # cs) n"
proof -
  have "chunk_ok (ch x) l u" "0 < l" using tiles_bounds [OF assms(1), of x l u] by simp_all
  then have "tiles ch' x [(x, l, f AND CHUNK_FLAG_USED \<noteq> 0)] (x + l)" using assms(3) by (simp add: chunk_ok_def)
  then show ?thesis using tiles_replace [OF assms(1), of ch'] assms(2) \<open>0 < l\<close> by fastforce
qed

lemma mark_used:
  assumes "tiles (bp_chunk p 0) 0 (as @ (x, l, False) # cs) n" and "n \<le> 65535" and "0 < bp_max_zone p" and "obj_unique_id obj = UID_PACK x 0"
  obtains C where "persistent_set_bucket_obj_state obj BUCKET_OBJ_STATE_ALLOCATED p =
      Some (True, p\<lparr>bp_chunk := (bp_chunk p)(0 := C),
        bp_mem := mem_write (bp_mem p) (unat (chunk_data_offset 0 x)) (replicate (unat (obj_real_size obj)) 0)\<rparr>)"
    "tiles C 0 (as @ (x, l, True) # cs) n"
proof -
  have x: "x + l \<le> n" "0 < l" "chunk_ok (bp_chunk p 0 x) l False" using tiles_bounds [OF assms(1), of x l False] by simp_all
  have x16: "x < 65535" using x assms(2) by simp
  let ?C = "(bp_chunk p 0)(x := (bp_chunk p 0 x)\<lparr>ch_flags := ch_flags (bp_chunk p 0 x) OR CHUNK_FLAG_USED\<rparr>)"
  have "(ch_flags (bp_chunk p 0 x) OR CHUNK_FLAG_USED) AND CHUNK_FLAG_USED = CHUNK_FLAG_USED"
    by (rule bit_word_eqI) (auto simp: bit_simps)
  then have "(ch_flags (bp_chunk p 0 x) OR CHUNK_FLAG_USED) AND CHUNK_FLAG_USED \<noteq> 0" by (simp add: CHUNK_FLAG_USED_def)
  then have "tiles ?C 0 (as @ (x, l, True) # cs) n" using tiles_flag [OF assms(1), of ?C] by fastforce
  moreover have "persistent_set_bucket_obj_state obj BUCKET_OBJ_STATE_ALLOCATED p =
      Some (True, p\<lparr>bp_chunk := (bp_chunk p)(0 := ?C),
        bp_mem := mem_write (bp_mem p) (unat (chunk_data_offset 0 x)) (replicate (unat (obj_real_size obj)) 0)\<rparr>)"
    using x16 x(3) assms(3,4) by (simp add: persistent_set_bucket_obj_state_def uid_unpack set_chunk_flag_def upd_chunk_def chunk_ok_def)
  ultimately show thesis using that by blast
qed

lemma mark_free:
  assumes "tiles (bp_chunk p 0) 0 (as @ (x, l, True) # cs) n" and "n \<le> 65535" and "0 < bp_max_zone p" and "obj_unique_id obj = UID_PACK x 0"
  obtains C where "persistent_set_bucket_obj_state obj BUCKET_OBJ_STATE_FREE p = Some (True, p\<lparr>bp_chunk := (bp_chunk p)(0 := C)\<rparr>)"
    "tiles C 0 (as @ (x, l, False) # cs) n"
proof -
  have x: "x + l \<le> n" "0 < l" "chunk_ok (bp_chunk p 0 x) l True" using tiles_bounds [OF assms(1), of x l True] by simp_all
  have x16: "x < 65535" using x assms(2) by simp
  let ?C = "(bp_chunk p 0)(x := (bp_chunk p 0 x)\<lparr>ch_flags := ch_flags (bp_chunk p 0 x) AND NOT CHUNK_FLAG_USED\<rparr>)"
  have "(ch_flags (bp_chunk p 0 x) AND NOT CHUNK_FLAG_USED) AND CHUNK_FLAG_USED = 0" by (simp add: and.assoc)
  then have "tiles ?C 0 (as @ (x, l, False) # cs) n" using tiles_flag [OF assms(1), of ?C] by fastforce
  moreover have "persistent_set_bucket_obj_state obj BUCKET_OBJ_STATE_FREE p = Some (True, p\<lparr>bp_chunk := (bp_chunk p)(0 := ?C)\<rparr>)"
    using x16 x(3) assms(3,4) by (simp add: persistent_set_bucket_obj_state_def uid_unpack clear_chunk_flag_def upd_chunk_def chunk_ok_def)
  ultimately show thesis using that by blast
qed

end
