(* ===== verification/Obj_Facts.thy ===== *)
theory Obj_Facts
  imports Obj_Heap
begin

text \<open>
  Allocating and freeing refine operations on the list of blocks, and opening a pool establishes it.
\<close>

section \<open>The state of the allocator\<close>

definition zone_len :: "pmalloc_pool \<Rightarrow> nat" where
  "zone_len p = unat (get_zone_size_idx 0 (bp_max_zone p) (bp_pool_size p))"

definition zone_ok :: "pmalloc_pool \<Rightarrow> bool" where
  "zone_ok p \<longleftrightarrow> zone_len p \<le> MAX_CHUNK \<and> 0 < bp_max_zone p \<and>
     SIZEOF_HEADER + SIZEOF_CHUNK_HEADER * MAX_CHUNK + zone_len p * CHUNKSIZE \<le> unat (bp_pool_size p)"

definition arenas_ok :: "pmalloc_pool \<Rightarrow> bool" where
  "arenas_ok p \<longleftrightarrow> (\<forall>i a. pool_arenas p i = Some a \<longrightarrow> oa_buckets a 0 = pool_buckets p 0) \<and>
     (case thread_arena p of None \<Rightarrow> \<exists>i<MAX_ARENAS. pool_arenas p i = None | Some i \<Rightarrow> i < MAX_ARENAS)"

definition slots_ok :: "pmalloc_pool \<Rightarrow> bool" where
  "slots_ok p \<longleftrightarrow> (\<forall>i<MAX_INFO_SLOT. bp_slot p i = zero_slot)"

definition heap_ok :: "block list \<Rightarrow> pmalloc_pool \<Rightarrow> bool" where
  "heap_ok bs p \<longleftrightarrow> zone_ok p \<and> tiles (bp_chunk p 0) 0 bs (zone_len p) \<and> arenas_ok p \<and> slots_ok p \<and>
     (\<exists>ba. pool_buckets p 0 = Some ba \<and> bucket_has (free_entries bs) ba (bucket_store p))"



text \<open>The parts of the state that the operations leave alone.\<close>

lemma ok_cong:
  "bp_max_zone p' = bp_max_zone p \<Longrightarrow> bp_pool_size p' = bp_pool_size p \<Longrightarrow> zone_len p' = zone_len p \<and> zone_ok p' = zone_ok p"
  by (simp add: zone_len_def zone_ok_def)

section \<open>Arenas and guards\<close>

lemma select_arena_loop_free:
  "i \<le> j \<Longrightarrow> j < i + n \<Longrightarrow> pool_arenas p j = None \<Longrightarrow> \<exists>k<i + n. select_arena_loop n i best m p = int k"
proof (induction n i best m p rule: select_arena_loop.induct)
  case (2 n i best m p)
  show ?case
  proof (cases "pool_arenas p i")
    case (Some a)
    then have "Suc i \<le> j" using 2(3,5) by (metis le_neq_implies_less option.distinct(1) Suc_leI)
    then have "\<exists>k<Suc i + n. select_arena_loop n (Suc i) b' m' p = int k"
      if "b' = int i \<and> m' = oa_threads a \<and> oa_threads a < m \<or> b' = best \<and> m' = m \<and> \<not> oa_threads a < m" for b' m'
      using that 2(1) [OF Some] 2(2) [OF Some] 2(4,5) by auto
    then show ?thesis using Some by auto
  qed auto
qed simp

lemma pool_select_arena_ok:
  assumes "arenas_ok p"
  obtains aid A a where "aid < 10" "pool_select_arena p = Some (aid, p\<lparr>thread_arena := Some aid, pool_arenas := A\<rparr>)" "A aid = Some a"
    "oa_buckets a 0 = pool_buckets p 0" "\<forall>i a. A i = Some a \<longrightarrow> oa_buckets a 0 = pool_buckets p 0"
proof -
  note pick = that
  have slow: thesis if "aid < 10" "(case thread_arena p of None \<Rightarrow> select_arena_id p | Some a \<Rightarrow> int a) = int aid"
    "pool_select_arena p = select_thread_arena_slow p" for aid
  proof -
    define a where "a = (case pool_arenas p aid of None \<Rightarrow> arena_new p | Some a \<Rightarrow> a)"
    define A where "A = (pool_arenas p)(aid \<mapsto> a\<lparr>oa_threads := oa_threads a + 1\<rparr>)"
    have a: "oa_buckets a 0 = pool_buckets p 0"
      using assms by (auto simp: a_def arenas_ok_def arena_new_def split: option.split)
    have "pool_select_arena p = Some (aid, p\<lparr>thread_arena := Some aid, pool_arenas := A\<rparr>)"
      unfolding that(3) select_thread_arena_slow_def Let_def that(2) by (simp add: A_def a_def)
    moreover have "\<forall>i a'. A i = Some a' \<longrightarrow> oa_buckets a' 0 = pool_buckets p 0"
      using assms a by (auto simp: A_def arenas_ok_def)
    ultimately show thesis using that(1) a
      by (intro pick [of aid A "a\<lparr>oa_threads := oa_threads a + 1\<rparr>"]) (simp_all add: A_def)
  qed
  show thesis
  proof (cases "thread_arena p")
    case None
    then obtain j where j: "j < 10" "pool_arenas p j = None" using assms by (auto simp: arenas_ok_def)
    then obtain aid where "aid < 10" "select_arena_id p = int aid"
      using select_arena_loop_free [of 0 j 10 p] by (auto simp: select_arena_id_def)
    then show thesis using None by (intro slow [of aid]) (simp_all add: pool_select_arena_def)
  next
    case (Some i)
    then have i: "i < 10" using assms by (simp add: arenas_ok_def)
    show thesis
    proof (cases "pool_arenas p i")
      case None
      then show thesis using Some i by (intro slow [of i]) (simp_all add: pool_select_arena_def)
    next
      case a: (Some a)
      then show thesis using Some i assms by (intro that [of i "pool_arenas p" a]) (simp_all add: pool_select_arena_def arenas_ok_def)
    qed
  qed
qed

lemma guard_up_ok:
  assumes "bp_slot p aid = zero_slot"
  obtains s where "arena_guard_up aid ptr g p = Some ((), p\<lparr>bp_slot := (bp_slot p)(aid := s)\<rparr>)"
  using assms that by (cases g) (simp_all add: arena_guard_up_def persistent_set_guard_def set_slot_def zero_slot_def)

lemma guard_down_up:
  "bp_slot p aid = zero_slot \<Longrightarrow> bp_slot q = (bp_slot p)(aid := s) \<Longrightarrow> arena_guard_down aid q = q\<lparr>bp_slot := bp_slot p\<rparr>"
  by (simp add: arena_guard_down_def persistent_clear_guard_def) (metis fun_upd_triv)

section \<open>Allocating\<close>



lemma heap_okE:
  assumes "heap_ok bs p"
  obtains ba where "tiles (bp_chunk p 0) 0 bs (zone_len p)" "zone_len p \<le> 65535" "0 < bp_max_zone p" "pool_buckets p 0 = Some ba"
    "bucket_has (free_entries bs) ba (bucket_store p)" "arenas_ok p" "\<And>i. i < 1024 \<Longrightarrow> bp_slot p i = zero_slot"
    "1049584 + zone_len p * 262144 \<le> unat (bp_pool_size p)"
  using assms by (auto simp: heap_ok_def zone_ok_def slots_ok_def)

text \<open>The state after an operation of a thread that has an arena, with the given parts.\<close>

lemma heap_okI:
  assumes "heap_ok bs p" and "pool_buckets p 0 = Some ba" and "tiles (bp_chunk p' 0) 0 bs' (zone_len p)"
    and "bucket_has (free_entries bs') ba (bucket_store p')" and "bp_slot p' = bp_slot p" and "pool_buckets p' = pool_buckets p"
    and "bp_max_zone p' = bp_max_zone p" and "bp_pool_size p' = bp_pool_size p"
    and "thread_arena p' = Some aid" and "aid < 10" and "\<forall>i a. pool_arenas p' i = Some a \<longrightarrow> oa_buckets a 0 = pool_buckets p 0"
  shows "heap_ok bs' p'"
  using assms ok_cong [OF assms(7,8)] by (simp add: heap_ok_def arenas_ok_def slots_ok_def)


definition heap_free :: "nat \<Rightarrow> nat \<Rightarrow> block list \<Rightarrow> block list \<Rightarrow> bool" where
  "heap_free x l bs bs' \<longleftrightarrow> (\<exists>as cs. bs = as @ (x, l, True) # cs \<and> bs' = as @ (x, l, False) # cs)"




lemma read_ptr_set: "read_ptr ptr (p\<lparr>bp_mem := mem_write m ptr (le_enc 8 v)\<rparr>) = v"
  by (simp add: read_ptr_def)






section \<open>Freeing\<close>

definition node_available :: "pmalloc_pool \<Rightarrow> bool" where
  "node_available p \<longleftrightarrow> (\<exists>ba b. pool_buckets p 0 = Some ba \<and> bucket_store p ba = Some b \<and> Malloc (malloc_pick p) (bst_heap (bk_objects b)) \<noteq> None)"

lemma bucket_add_result:
  assumes "bucket_has M ba (bucket_store p)" and "bucket_add_object ba obj p = Some (ok, p')" and "pool_buckets p 0 = Some ba"
  shows "ok \<longleftrightarrow> node_available p"
proof -
  obtain b where b: "bucket_store p ba = Some b" "bst_inv (bk_objects b)" using assms(1) by (auto simp: bucket_has_def)
  show ?thesis
    using bst_add_correct [OF b(2), of "malloc_pick p" "OBJ_KEY (obj_unique_id obj) (obj_size_idx obj)" "ucast (obj_unique_id obj)"] assms(2,3) b(1)
    by (cases "Malloc (malloc_pick p) (bst_heap (bk_objects b))") (auto simp: bucket_add_object_def node_available_def)
qed

lemma locate_block:
  assumes ok: "heap_ok bs p" and x: "(x, l, True) \<in> set bs"
  shows "persistent_locate_bucket_obj (chunk_data_offset 0 x) p = Some (Some \<lparr>obj_real_size = chunk_real_size (of_nat l),
      obj_data_offset = chunk_data_offset 0 x, obj_size_idx = of_nat l, obj_unique_id = UID_PACK x 0\<rparr>)"
    and "chunk_data_offset 0 x \<noteq> NULL_OFFSET"
proof -
  have h: "tiles (bp_chunk p 0) 0 bs (zone_len p)" "zone_len p \<le> 65535" "1049584 + zone_len p * 262144 \<le> unat (bp_pool_size p)"
    using ok by (auto elim: heap_okE)
  have b: "x + l \<le> zone_len p" "0 < l" "chunk_ok (bp_chunk p 0 x) l True" using tiles_bounds [OF h(1) x] by simp_all
  have x16: "x < 65535" "x + 1 \<le> zone_len p" using b h(2) by simp_all
  have u: "unat (chunk_data_offset 0 x) = 1083376 + x * 262144" using x16 by (simp add: unat_chunk_data_offset)
  have "(x + 1) * 262144 \<le> zone_len p * 262144" using x16(2) by (rule mult_right_mono) simp
  then have lt: "chunk_data_offset 0 x < bp_pool_size p" using h(3) u by (simp add: word_less_nat_alt)
  have l: "unat (ch_size_idx (bp_chunk p 0 x)) = l" using b(3) by (simp add: chunk_ok_def)
  have sz: "ch_size_idx (bp_chunk p 0 x) = of_nat l" unfolding l [symmetric] by simp
  show "persistent_locate_bucket_obj (chunk_data_offset 0 x) p = Some (Some \<lparr>obj_real_size = chunk_real_size (of_nat l),
      obj_data_offset = chunk_data_offset 0 x, obj_size_idx = of_nat l, obj_unique_id = UID_PACK x 0\<rparr>)"
    using get_chunk_by_offset_data [OF _ x16(1) lt] lt b(3) sz by (simp add: persistent_locate_bucket_obj_def chunk_ok_def Let_def)
  show "chunk_data_offset 0 x \<noteq> NULL_OFFSET"
  proof
    assume "chunk_data_offset 0 x = NULL_OFFSET"
    then show False using u by (simp add: NULL_OFFSET_def)
  qed
qed

lemma locate_cong:
  "bp_chunk q = bp_chunk p \<Longrightarrow> bp_pool_size q = bp_pool_size p \<Longrightarrow> persistent_locate_bucket_obj d q = persistent_locate_bucket_obj d p"
  by (simp add: persistent_locate_bucket_obj_def split: option.split)

lemma recycle_block:
  assumes t: "tiles (bp_chunk p 0) 0 (as @ (x, l, True) # cs) n" and n: "n \<le> 65535" and mz: "0 < bp_max_zone p"
    and pb: "pool_buckets p 0 = Some ba" and has: "bucket_has (free_entries (as @ cs)) ba (bucket_store p)"
    and obj: "obj_unique_id obj = UID_PACK x 0" "obj_size_idx obj = of_nat l"
  obtains S C where "pool_recycle_object obj p = Some (node_available p, p\<lparr>bp_chunk := (bp_chunk p)(0 := C), bucket_store := S\<rparr>)"
    "tiles C 0 (as @ (x, l, False) # cs) n" "bucket_has (free_entries (as @ (x, l, False) # cs)) ba S"
proof -
  have x16: "x < 65535" using tiles_bounds [OF t, of x l True] n by simp
  then have "UID_PACK x 0 \<noteq> ucast NULL_VAL" using uid_not_null [of x 0] by simp
  obtain C where C: "persistent_set_bucket_obj_state obj BUCKET_OBJ_STATE_FREE p = Some (True, p\<lparr>bp_chunk := (bp_chunk p)(0 := C)\<rparr>)"
    "tiles C 0 (as @ (x, l, False) # cs) n"
    by (rule mark_free [OF t n mz obj(1)])
  let ?p1 = "p\<lparr>bp_chunk := (bp_chunk p)(0 := C)\<rparr>"
  have has1: "bucket_has (free_entries (as @ cs)) ba (bucket_store ?p1)" using has by simp
  obtain ok S where S: "bucket_add_object ba obj ?p1 = Some (ok, ?p1\<lparr>bucket_store := S\<rparr>)"
    "bucket_has (add_mset (OBJ_KEY (obj_unique_id obj) (obj_size_idx obj), ucast (obj_unique_id obj)) (free_entries (as @ cs))) ba S"
    by (rule bucket_add_has [OF has1])
  have "ok \<longleftrightarrow> node_available p" using bucket_add_result [OF has1 S(1)] pb by (simp add: node_available_def)
  then have "pool_recycle_object obj p = Some (node_available p, ?p1\<lparr>bucket_store := S\<rparr>)"
    using C(1) S(1) pb obj(1) \<open>UID_PACK x 0 \<noteq> ucast NULL_VAL\<close>
    by (simp add: pool_recycle_object_def get_bucket_class_id_by_size_def)
  then show thesis using that C(2) S(2) obj by (simp add: entry_def)
qed

text \<open>
  C31 Freeing an allocated block frees exactly that block, and nothing else of the zone changes.  When the
  container has room for its entry the location is reset to the null offset; otherwise the block is
  free but the location still refers to it.  No other byte of the pool changes.
\<close>

theorem pfree_refines:
  assumes ok: "heap_ok bs p" and x: "(x, l, True) \<in> set bs" and ptr: "read_ptr ptr p = chunk_data_offset 0 x"
  shows "\<exists>p' bs'. pfree ptr p = Some ((), p') \<and> heap_free x l bs bs' \<and> heap_ok bs' p' \<and>
    read_ptr ptr p' = (if node_available p then NULL_OFFSET else chunk_data_offset 0 x) \<and>
    (\<forall>a. a < ptr \<or> ptr + 8 \<le> a \<longrightarrow> bp_mem p' a = bp_mem p a)"
proof -
  obtain ba where h: "tiles (bp_chunk p 0) 0 bs (zone_len p)" "zone_len p \<le> 65535" "0 < bp_max_zone p" "pool_buckets p 0 = Some ba"
    "bucket_has (free_entries bs) ba (bucket_store p)" "arenas_ok p" "\<And>i. i < 1024 \<Longrightarrow> bp_slot p i = zero_slot"
    using ok by (auto elim: heap_okE)
  obtain as cs where bs: "bs = as @ (x, l, True) # cs" using x by (meson split_list)
  obtain aid A a where sel: "aid < 10" "pool_select_arena p = Some (aid, p\<lparr>thread_arena := Some aid, pool_arenas := A\<rparr>)"
    "\<forall>i a. A i = Some a \<longrightarrow> oa_buckets a 0 = pool_buckets p 0"
    by (rule pool_select_arena_ok [OF h(6)])
  let ?p1 = "p\<lparr>thread_arena := Some aid, pool_arenas := A\<rparr>"
  have z: "bp_slot p aid = zero_slot" using h(7) sel(1) by simp
  then obtain s where s: "arena_guard_up aid ptr GUARD_TYPE_FREE ?p1 = Some ((), ?p1\<lparr>bp_slot := (bp_slot ?p1)(aid := s)\<rparr>)"
    using guard_up_ok [of ?p1 aid] by auto
  let ?q = "?p1\<lparr>bp_slot := (bp_slot ?p1)(aid := s)\<rparr>"
  let ?obj = "\<lparr>obj_real_size = chunk_real_size (of_nat l), obj_data_offset = chunk_data_offset 0 x, obj_size_idx = of_nat l,
    obj_unique_id = UID_PACK x 0\<rparr>"
  have loc: "persistent_locate_bucket_obj (read_ptr ptr ?p1) ?p1 = Some (Some ?obj)"
    using locate_block(1) [OF ok x] ptr locate_cong [of ?p1 p] by (simp add: read_ptr_def)
  have t: "tiles (bp_chunk ?q 0) 0 (as @ (x, l, True) # cs) (zone_len p)" using h(1) bs by simp
  obtain S C where r: "pool_recycle_object ?obj ?q = Some (node_available ?q, ?q\<lparr>bp_chunk := (bp_chunk ?q)(0 := C), bucket_store := S\<rparr>)"
    "tiles C 0 (as @ (x, l, False) # cs) (zone_len p)" "bucket_has (free_entries (as @ (x, l, False) # cs)) ba S"
    by (rule recycle_block [OF t h(2), where obj = ?obj and ba = ba]) (use h bs in simp_all)
  have av: "node_available ?q = node_available p" by (simp add: node_available_def)
  define p' where "p' = ?p1\<lparr>bp_chunk := (bp_chunk p)(0 := C), bucket_store := S,
    bp_mem := (if node_available p then mem_write (bp_mem p) ptr (le_enc 8 NULL_OFFSET) else bp_mem p)\<rparr>"
  have down: "arena_guard_down aid q' = q'\<lparr>bp_slot := bp_slot p\<rparr>" if "bp_slot q' = bp_slot ?q" for q'
    by (rule guard_down_up [OF z, of q' s]) (use that in simp)
  have "pfree ptr p = Some ((), p')"
    using ptr locate_block(2) [OF ok x] sel(2) loc s r(1) av
    by (simp add: pfree_def down persistent_set_alloc_ptr_def p'_def)
  moreover have "heap_free x l bs (as @ (x, l, False) # cs)" using bs by (auto simp: heap_free_def)
  moreover have "heap_ok (as @ (x, l, False) # cs) p'"
    by (rule heap_okI [OF ok h(4)]) (use h sel r(2,3) in \<open>simp_all add: p'_def\<close>)
  moreover have "read_ptr ptr p' = (if node_available p then NULL_OFFSET else chunk_data_offset 0 x)"
    using ptr by (simp add: p'_def read_ptr_def)
  moreover have "\<forall>a. a < ptr \<or> ptr + 8 \<le> a \<longrightarrow> bp_mem p' a = bp_mem p a" by (auto simp: p'_def mem_write_def)
  ultimately show ?thesis by blast
qed

section \<open>A pool of 16 megabytes\<close>

text \<open>Its zone is one block of 59 chunks, free or allocated at location 0.\<close>

definition demo_pool :: "bool \<Rightarrow> container_bst \<Rightarrow> pmalloc_pool" where
  "demo_pool u c =
     \<lparr>bp_primary = replicate 1024 0, bp_backup = (\<lambda>_. replicate 1024 0),
      bp_chunk = (\<lambda>_ _. \<lparr>ch_magic = CHUNK_HEADER_MAGIC, ch_type_specific = 0, ch_type = CHUNK_TYPE_BASE, ch_flags = (if u then 1 else 0), ch_size_idx = 59\<rparr>),
      bp_slot = (\<lambda>_. zero_slot), bp_mem = (if u then mem_write (\<lambda>_. 0) 0 (le_enc 8 (chunk_data_offset 0 0)) else (\<lambda>_. 0)),
      bp_pool_size = 16777216, bp_max_zone = 1, bp_zones_exhausted = 1, bucket_classes = (\<lambda>_. 0)(0 := CHUNKSIZE),
      bucket_store = [0 \<mapsto> \<lparr>bk_unit_size = CHUNKSIZE, bk_objects = c\<rparr>], pool_buckets = [0 \<mapsto> 0], pool_arenas = (\<lambda>_. None), thread_arena = None,
      malloc_pick = (\<lambda>_. Some 0)\<rparr>"

lemma demo_zone: "zone_len (demo_pool u c) = 59"
  by (simp add: zone_len_def demo_pool_def get_zone_size_idx_def unat_ucast_mod unat_div)

lemma demo_ok:
  assumes "bst_inv c" and "mset (bst_list c) \<subseteq># free_entries [(0, 59, u)]"
  shows "heap_ok [(0, 59, u)] (demo_pool u c)"
proof -
  have "tiles (bp_chunk (demo_pool u c) 0) 0 [(0, 59, u)] 59"
    by (simp add: demo_pool_def chunk_ok_def CHUNK_TYPE_BASE_def CHUNK_TYPE_UNKNOWN_def MAX_CHUNK_TYPE_def CHUNK_FLAG_USED_def)
  moreover have "arenas_ok (demo_pool u c)" by (auto simp: arenas_ok_def demo_pool_def intro: exI [of _ 0])
  moreover have "bucket_has (free_entries [(0, 59, u)]) 0 (bucket_store (demo_pool u c))"
    using assms by (simp add: bucket_has_def demo_pool_def del: free_entries_simps)
  moreover have "zone_ok (demo_pool u c)" unfolding zone_ok_def demo_zone by (simp add: demo_pool_def)
  moreover have "slots_ok (demo_pool u c)" "pool_buckets (demo_pool u c) 0 = Some 0" by (simp_all add: slots_ok_def demo_pool_def)
  ultimately show ?thesis unfolding heap_ok_def demo_zone by blast
qed


theorem pfree_refines_witness:
  "\<exists>p p'. heap_ok [(0, 59, True)] p \<and> pfree 0 p = Some ((), p') \<and> read_ptr 0 p' = NULL_OFFSET \<and> heap_ok [(0, 59, False)] p'"
proof -
  let ?p = "demo_pool True container_bst_new"
  have ok: "heap_ok [(0, 59, True)] ?p" by (rule demo_ok) (simp_all add: bst_new_inv)
  have ptr: "read_ptr 0 ?p = chunk_data_offset 0 0" by (simp add: read_ptr_def demo_pool_def)
  have "node_available ?p" by (simp add: node_available_def demo_pool_def Malloc_def container_bst_new_def)
  then obtain p' bs' where "pfree 0 ?p = Some ((), p')" "heap_free 0 59 [(0, 59, True)] bs'" "heap_ok bs' p'" "read_ptr 0 p' = NULL_OFFSET"
    using pfree_refines [OF ok _ ptr, of 59] by auto
  moreover then have "bs' = [(0, 59, False)]" by (auto simp: heap_free_def append_eq_Cons_conv Cons_eq_append_conv)
  ultimately show ?thesis using ok by blast
qed

end
