(* ===== verification/Obj_Open.thy ===== *)
theory Obj_Open
  imports Obj_Facts
begin

text \<open>
  Opening a pool: the sizes of zones, the consistency check of a zone, the filling of the bucket from
  the chunk headers, and the headers of the pool.
\<close>

section \<open>Zones\<close>

lemma get_max_zones_one: "8388608 < n \<Longrightarrow> n \<le> 34368652272 \<Longrightarrow> get_max_zones n = 1"
  by (subst get_max_zones.simps) (subst get_max_zones.simps, simp add: Let_def not_less le_diff_conv)

lemma get_max_zones_more: "34368652272 < n \<Longrightarrow> 2 \<le> get_max_zones n"
  by (subst get_max_zones.simps) (subst get_max_zones.simps, simp add: Let_def)

lemma zone_size_single:
  assumes "8388608 < unat sz" and "unat sz \<le> 34368652272"
  shows "unat (get_zone_size_idx 0 1 sz) = (unat sz - 1049584) div 262144"
proof -
  have le: "(1049584 :: u64) \<le> sz" using assms(1) by (simp add: word_le_nat_alt)
  have "unat ((sz - 1049584) div 262144) = (unat sz - 1049584) div 262144" using le by (simp add: unat_div unat_sub)
  then show ?thesis using assms(2) by (simp add: get_zone_size_idx_def unat_ucast_mod)
qed

lemma zone_size_many: "2 \<le> mz \<Longrightarrow> unat (get_zone_size_idx 0 mz sz) = 65535"
  by (simp add: get_zone_size_idx_def)

text \<open>The first zone of a pool lies in it, up to the headers in front of it.\<close>

lemma zone_ok_opened:
  assumes "8388608 < unat (bp_pool_size p)" and "bp_max_zone p = get_max_zones (unat (bp_pool_size p))" and "zone_len p \<le> MAX_CHUNK"
  shows "zone_ok p"
proof (cases "unat (bp_pool_size p) \<le> 34368652272")
  case True
  then have mz: "bp_max_zone p = 1" using assms get_max_zones_one by simp
  then have "zone_len p = (unat (bp_pool_size p) - 1049584) div 262144" using zone_size_single [OF assms(1) True] by (simp add: zone_len_def)
  then have "zone_len p * 262144 \<le> unat (bp_pool_size p) - 1049584" by (metis div_times_less_eq_dividend)
  then show ?thesis using assms(1,3) mz by (simp add: zone_ok_def)
next
  case False
  then have "2 \<le> bp_max_zone p" using assms(2) get_max_zones_more by simp
  moreover then have "zone_len p = 65535" using zone_size_many by (simp add: zone_len_def)
  ultimately show ?thesis using False by (simp add: zone_ok_def)
qed

text \<open>
  A pool of one zone may have more chunks than the zone's arrays have room for: the count of zones
  adds the data of the chunks to a size that has them already.
\<close>

lemma zone_len_too_long:
  assumes "17180918768 \<le> unat (bp_pool_size p)" and "unat (bp_pool_size p) \<le> 34368652272"
    and "bp_max_zone p = get_max_zones (unat (bp_pool_size p))"
  shows "MAX_CHUNK < zone_len p"
proof -
  have "bp_max_zone p = 1" using assms get_max_zones_one by simp
  then have "zone_len p = (unat (bp_pool_size p) - 1049584) div 262144" using zone_size_single assms(1,2) by (simp add: zone_len_def)
  moreover have "65536 * 262144 \<le> unat (bp_pool_size p) - 1049584" using assms(1) by simp
  ultimately show ?thesis by (simp add: less_eq_div_iff_mult_less_eq less_eq_Suc_le [symmetric])
qed

section \<open>The check of a zone\<close>

lemma check_zone_tiles:
  assumes "check_zone_loop ch s i = Some True" and "i \<le> unat s" and "unat s \<le> 65535"
  shows "ch_magic (ch 0) \<noteq> CHUNK_HEADER_MAGIC \<and> i = 0 \<and> s \<noteq> 0 \<or> (\<exists>bs. tiles ch i bs (unat s))"
  using assms(1,2)
proof (induction "unat s - i" arbitrary: i rule: less_induct)
  case less
  let ?c = "ch i"
  show ?case
  proof (cases "i < unat s \<and> ch_magic ?c = CHUNK_HEADER_MAGIC")
    case True
    have c: "\<not> MAX_CHUNK_TYPE < ch_type ?c" "ch_type ?c \<noteq> CHUNK_TYPE_UNKNOWN" "ch_size_idx ?c \<le> s" "ch_size_idx ?c \<noteq> 0"
      "check_zone_loop ch s ((i + unat (ch_size_idx ?c)) mod 2 ^ 32) = Some True"
      using less(2) True by (subst (asm) check_zone_loop.simps; auto simp: Let_def not_less split: if_splits)+
    have sz: "0 < unat (ch_size_idx ?c)" "unat (ch_size_idx ?c) \<le> 65535" using c(3,4) assms(3) by (simp_all add: unat_gt_0 word_le_nat_alt)
    then have next_i: "(i + unat (ch_size_idx ?c)) mod 2 ^ 32 = i + unat (ch_size_idx ?c)" using less(3) assms(3) by simp
    have "i + unat (ch_size_idx ?c) \<le> unat s"
    proof (rule ccontr)
      assume "\<not> i + unat (ch_size_idx ?c) \<le> unat s"
      then show False using c(5) unfolding next_i by (subst (asm) check_zone_loop.simps) simp
    qed
    then obtain bs where "tiles ch (i + unat (ch_size_idx ?c)) bs (unat s)"
      using less(1) [OF _ c(5)] True sz(1) unfolding next_i by fastforce
    then have "tiles ch i ((i, unat (ch_size_idx ?c), ch_flags ?c AND CHUNK_FLAG_USED \<noteq> 0) # bs) (unat s)"
      using True c sz by (simp add: chunk_ok_def not_less)
    then show ?thesis by blast
  next
    case False
    show ?thesis
    proof (cases "i < unat s")
      case True
      then have "i = 0" using False less(2) by (subst (asm) check_zone_loop.simps) (simp add: Let_def)
      then show ?thesis using True False by auto
    next
      case not: False
      then have "tiles ch i [] (unat s)" using less(3) by simp
      then show ?thesis by blast
    qed
  qed
qed

section \<open>Filling the bucket\<close>

lemma fill_loop_tiles:
  assumes "tiles (bp_chunk p 0) i bs n" and "n \<le> 65535" and "pool_buckets p 0 = Some ba" and "bucket_has M ba (bucket_store p)"
  shows "\<exists>S. fill_loop 0 n i p = Some (p\<lparr>bucket_store := S\<rparr>) \<and> bucket_has (M + free_entries bs) ba S"
  using assms(1,3,4)
proof (induction bs arbitrary: i p M)
  case Nil
  then show ?case by (subst fill_loop.simps) (auto intro: exI [of _ "bucket_store p"])
next
  case (Cons b bs)
  obtain l u where b: "b = (i, l, u)" using Cons.prems(1) by (cases b) auto
  have h: "0 < l" "chunk_ok (bp_chunk p 0 i) l u" "tiles (bp_chunk p 0) (i + l) bs n" using Cons.prems(1) b by simp_all
  have step: "i < n" "(i + l) mod 2 ^ 32 = i + l" using tiles_le [OF h(3)] h(1) assms(2) by simp_all
  define q where "q = (if u then Some ((), p) else add_chunk 0 i (chunk_data_offset 0 i) p)"
  have "\<exists>S. q = Some ((), p\<lparr>bucket_store := S\<rparr>) \<and> bucket_has (M + free_entries [b]) ba S"
  proof (cases u)
    case True
    then show ?thesis using Cons.prems(3) b by (intro exI [of _ "bucket_store p"]) (simp add: q_def)
  next
    case False
    obtain S where "add_chunk 0 i (chunk_data_offset 0 i) p = Some ((), p\<lparr>bucket_store := S\<rparr>)"
      "bucket_has (add_mset (entry (i, unat (ch_size_idx (bp_chunk p 0 i)), False)) M) ba S"
      by (rule add_chunk_has [OF Cons.prems(2,3)])
    then show ?thesis using False h(2) b by (auto simp: q_def chunk_ok_def)
  qed
  then obtain S where S: "q = Some ((), p\<lparr>bucket_store := S\<rparr>)" "bucket_has (M + free_entries [b]) ba S" by blast
  have "fill_loop 0 n i p = fill_loop 0 n (i + l) (p\<lparr>bucket_store := S\<rparr>)"
    using step h(2) S(1) by (subst fill_loop.simps) (auto simp: chunk_ok_def Let_def q_def)
  moreover obtain S' where "fill_loop 0 n (i + l) (p\<lparr>bucket_store := S\<rparr>) = Some (p\<lparr>bucket_store := S'\<rparr>)"
    "bucket_has (M + free_entries [b] + free_entries bs) ba S'"
    using Cons.IH [of "p\<lparr>bucket_store := S\<rparr>" "i + l" "M + free_entries [b]"] h(3) S(2) Cons.prems(2) by auto
  ultimately show ?case using free_entries_simps(3) [of "[b]" bs] by (auto simp: union_assoc)
qed

text \<open>The zone of a pool: never used, or tiled by its chunk headers.\<close>

definition zone_reads :: "pmalloc_pool \<Rightarrow> nat \<Rightarrow> block list \<Rightarrow> bool" where
  "zone_reads p n bs \<longleftrightarrow> ch_magic (bp_chunk p 0 0) \<noteq> CHUNK_HEADER_MAGIC \<and> n \<noteq> 0 \<and> bs = [(0, n, False)] \<or> tiles (bp_chunk p 0) 0 bs n"

lemma fill_zone:
  assumes "zone_reads p n bs" and "n \<le> 65535" and "pool_buckets p 0 = Some ba" and "bucket_has {#} ba (bucket_store p)"
  shows "\<exists>C S. fill_loop 0 n 0 p = Some (p\<lparr>bp_chunk := (bp_chunk p)(0 := C), bucket_store := S\<rparr>) \<and>
    tiles C 0 bs n \<and> bucket_has (free_entries bs) ba S \<and> (tiles (bp_chunk p 0) 0 bs n \<longrightarrow> C = bp_chunk p 0)"
proof (cases "tiles (bp_chunk p 0) 0 bs n")
  case True
  then show ?thesis
    using fill_loop_tiles [OF True assms(2-4)] by (intro exI [of _ "bp_chunk p 0"]) auto
next
  case False
  then have m: "ch_magic (bp_chunk p 0 0) \<noteq> CHUNK_HEADER_MAGIC" "n \<noteq> 0" "bs = [(0, n, False)]" using assms(1) by (auto simp: zone_reads_def)
  let ?C = "(bp_chunk p 0)(0 := \<lparr>ch_magic = CHUNK_HEADER_MAGIC, ch_type_specific = 0, ch_type = CHUNK_TYPE_BASE, ch_flags = 0, ch_size_idx = of_nat n\<rparr>)"
  let ?p1 = "p\<lparr>bp_chunk := (bp_chunk p)(0 := ?C)\<rparr>"
  have w: "write_chunk_header 0 0 (of_nat n) p = ?p1" by (simp add: write_chunk_header_def upd_chunk_def)
  have t: "tiles ?C 0 bs n"
    using m(2,3) assms(2) by (simp add: chunk_ok_def CHUNK_TYPE_BASE_def CHUNK_TYPE_UNKNOWN_def MAX_CHUNK_TYPE_def unat_of_nat)
  have "fill_loop 0 n 0 p = fill_loop 0 n 0 ?p1"
    using m(1,2) w by (subst (1 2) fill_loop.simps) (simp add: Let_def)
  moreover obtain S where "fill_loop 0 n 0 ?p1 = Some (?p1\<lparr>bucket_store := S\<rparr>)" "bucket_has ({#} + free_entries bs) ba S"
    using fill_loop_tiles [of ?p1 0 bs n ba "{#}"] t assms(2-4) by auto
  ultimately show ?thesis using t False by (intro exI [of _ ?C] exI [of _ S]) auto
qed

section \<open>Creating the buckets\<close>

lemma create_none: "\<forall>j. i \<le> j \<longrightarrow> bucket_classes p j = 0 \<Longrightarrow> create_buckets_loop n i p = Some ((), p)"
  by (induction n arbitrary: i) auto

lemma create_buckets:
  assumes "bucket_classes p = (\<lambda>_. 0)" and "pool_buckets p = (\<lambda>_. None)"
  shows "do { (_, p2) \<leftarrow> persistent_bucket_classes p; create_default_buckets p2 } =
    Some ((), p\<lparr>bucket_classes := (\<lambda>_. 0)(0 := CHUNKSIZE), bucket_store := (bucket_store p)(0 \<mapsto> \<lparr>bk_unit_size = CHUNKSIZE, bk_objects = container_bst_new\<rparr>),
      pool_buckets := (\<lambda>_. None)(0 \<mapsto> 0)\<rparr>)"
proof -
  obtain n where n: "MAX_BUCKETS = Suc n" by (cases MAX_BUCKETS) simp_all
  have reg: "persistent_bucket_classes p = Some ((), p\<lparr>bucket_classes := (\<lambda>_. 0)(0 := CHUNKSIZE)\<rparr>)"
    unfolding persistent_bucket_classes_def bucket_register_class_def n using assms(1) by simp
  then show ?thesis
    using assms(2) unfolding create_default_buckets_def n by (simp add: bucket_new_def create_none)
qed

section \<open>Opening the storage\<close>

definition same_base :: "pmalloc_pool \<Rightarrow> pmalloc_pool \<Rightarrow> bool" where
  "same_base p p' \<longleftrightarrow> bp_zones_exhausted p' = bp_zones_exhausted p \<and> bp_pool_size p' = bp_pool_size p \<and> bp_max_zone p' = bp_max_zone p \<and>
     thread_arena p' = thread_arena p \<and> bucket_store p' = bucket_store p"

lemma same_base_refl [simp]: "same_base p p"
  by (simp add: same_base_def)

lemma same_base_trans: "same_base p q \<Longrightarrow> same_base q r \<Longrightarrow> same_base p r"
  by (simp add: same_base_def)

lemma recover_slot_base: "recover_info_slot s p = Some ((), p') \<Longrightarrow> same_base p p' \<and> bp_slot p' = (bp_slot p)(s := zero_slot)"
  by (auto simp: recover_info_slot_def recover_slot_alloc_def recover_slot_realloc_def recover_slot_free_def recover_slot_unknown_def
      same_base_def Let_def persistent_set_alloc_ptr_def clear_chunk_flag_def set_chunk_flag_def upd_chunk_def fun_upd_idem
      split: if_splits option.splits)

lemma recover_loop_base:
  "recover_slots_loop n i p = Some ((), p') \<Longrightarrow> same_base p p' \<and> (\<forall>j. bp_slot p' j = (if i \<le> j \<and> j < i + n then zero_slot else bp_slot p j))"
proof (induction n arbitrary: i p)
  case (Suc n)
  then obtain q where q: "recover_info_slot i p = Some ((), q)" "recover_slots_loop n (Suc i) q = Some ((), p')"
    by (auto split: Option.bind_splits)
  show ?case using recover_slot_base [OF q(1)] Suc.IH [OF q(2)] by (auto intro: same_base_trans)
qed auto

lemma recover_header_base: "same_base p (snd (recover_header_loop n i p)) \<and> bp_slot (snd (recover_header_loop n i p)) = bp_slot p"
  by (induction n i p rule: recover_header_loop.induct) (simp_all add: same_base_def)

lemma layout_base [simp]: "same_base p (write_pool_layout p)" "same_base p (set_pool_state st p)" "same_base p (write_backup_pool_headers p)"
  by (simp_all add: write_pool_layout_def write_backup_pool_headers_def write_primary_pool_header_def zero_info_slots_def set_pool_state_def
      same_base_def Let_def)

text \<open>Opening the storage settles the number of zones; an interrupted pool has its slots cleared.\<close>

lemma open_storage_base:
  assumes "open_pmem_storage p = Some (True, p1)"
  shows "same_base (p\<lparr>bp_max_zone := get_max_zones (unat (bp_pool_size p))\<rparr>) p1" and "8388608 < unat (bp_pool_size p)"
proof -
  let ?p = "p\<lparr>bp_max_zone := get_max_zones (unat (bp_pool_size p))\<rparr>"
  show big: "8388608 < unat (bp_pool_size p)"
    using assms by (auto simp: open_pmem_storage_def word_less_nat_alt unat_of_nat split: if_splits)
  obtain valid q where q: "(if verify_header (bp_primary ?p) then (True, ?p) else recover_primary_header ?p) = (valid, q)" by (metis surj_pair)
  have b1: "same_base ?p q" using q recover_header_base [of ?p] unfolding recover_primary_header_def
    by (metis prod.sel(2) same_base_refl)
  let ?r = "if valid then q else write_pool_layout q"
  have b2: "same_base ?p ?r" using b1 same_base_trans layout_base(1) by auto
  consider "p1 = set_pool_state POOL_STATE_OPEN ?r" | p3 where "recover_slots_loop MAX_INFO_SLOT 0 ?r = Some ((), p3)" "p1 = write_backup_pool_headers p3"
    using assms big unfolding open_pmem_storage_def Let_def q
    by (auto simp: word_less_nat_alt split: if_splits Option.bind_splits)
  then show "same_base ?p p1"
    by cases (use b2 recover_loop_base same_base_trans layout_base in blast)+
qed

text \<open>
  The header that opening finds in a pool, if there is a valid one: the primary one or the first valid
  backup.
\<close>

definition found_header :: "pmalloc_pool \<Rightarrow> byte list option" where
  "found_header p =
     (if verify_header (bp_primary p) then Some (bp_primary p)
      else case recover_header_loop (get_max_zones (unat (bp_pool_size p))) 0 p of
        (valid, q) \<Rightarrow> if valid then Some (bp_primary q) else None)"

lemma recover_header_same:
  "bp_backup q = bp_backup p \<Longrightarrow> fst (recover_header_loop n i q) = fst (recover_header_loop n i p) \<and>
     (fst (recover_header_loop n i p) \<longrightarrow> bp_primary (snd (recover_header_loop n i q)) = bp_primary (snd (recover_header_loop n i p)))"
  by (induction n arbitrary: i) simp_all

lemma found_header_zones [simp]: "found_header (p\<lparr>bp_zones_exhausted := k\<rparr>) = found_header p"
  using recover_header_same [of "p\<lparr>bp_zones_exhausted := k\<rparr>" p "get_max_zones (unat (bp_pool_size p))" 0]
  by (auto simp: found_header_def split_beta)

text \<open>After opening no slot is pending: a new pool has none, and those of a pool left open are recovered.\<close>

lemma open_storage_slots:
  assumes op: "open_pmem_storage p = Some (True, p1)"
    and closed: "\<And>h. found_header p = Some h \<Longrightarrow> hdr_state h = POOL_STATE_CLOSED \<Longrightarrow> slots_ok p"
  shows "slots_ok p1"
proof -
  let ?p = "p\<lparr>bp_max_zone := get_max_zones (unat (bp_pool_size p))\<rparr>"
  have big: "8388608 < unat (bp_pool_size p)" using open_storage_base(2) [OF op] .
  obtain valid q where q: "(if verify_header (bp_primary ?p) then (True, ?p) else recover_primary_header ?p) = (valid, q)" by (metis surj_pair)
  have slot: "bp_slot q = bp_slot p"
  proof (cases "verify_header (bp_primary ?p)")
    case False
    then have "q = snd (recover_header_loop (bp_max_zone ?p) 0 ?p)" using q by (simp add: recover_primary_header_def)
    then show ?thesis using recover_header_base [of ?p] by simp
  qed (use q in auto)
  have found: "found_header p = Some (bp_primary q)" if valid
    using q that recover_header_same [of ?p p "get_max_zones (unat (bp_pool_size p))" 0]
    by (cases "verify_header (bp_primary p)") (auto simp: found_header_def recover_primary_header_def split_beta prod_eq_iff)
  let ?r = "if valid then q else write_pool_layout q"
  have new: "slots_ok ?r" if "\<not> valid"
    using that by (simp add: slots_ok_def write_pool_layout_def write_backup_pool_headers_def write_primary_pool_header_def zero_info_slots_def)
  consider (closed) "hdr_state (bp_primary ?r) = POOL_STATE_CLOSED" "p1 = set_pool_state POOL_STATE_OPEN ?r"
    | (left) p3 where "recover_slots_loop MAX_INFO_SLOT 0 ?r = Some ((), p3)" "p1 = write_backup_pool_headers p3"
    using op big unfolding open_pmem_storage_def Let_def q
    by (auto simp: word_less_nat_alt split: if_splits Option.bind_splits)
  then show ?thesis
  proof cases
    case closed
    have "slots_ok ?r"
    proof (cases valid)
      case True
      then have "slots_ok p" using assms(2) [OF found] closed(1) by simp
      then show ?thesis using True slot by (simp add: slots_ok_def)
    qed (use new in blast)
    then show ?thesis
      using closed(2) by (simp add: slots_ok_def set_pool_state_def write_backup_pool_headers_def Let_def)
  next
    case left
    then show ?thesis using recover_loop_base [OF left(1)] by (simp add: slots_ok_def write_backup_pool_headers_def)
  qed
qed

lemma pool_new_opens:
  assumes op: "open_pmem_storage (p0\<lparr>bp_zones_exhausted := 0\<rparr>) = Some (True, p1)" and slots: "slots_ok p1"
    and z: "zone_reads p1 (zone_len p1) bs" and len: "zone_len p1 \<le> MAX_CHUNK"
    and thread: "\<And>i. thread_arena p0 = Some i \<Longrightarrow> i < MAX_ARENAS"
  shows "\<exists>p. pool_new p0 = Some (True, p) \<and> heap_ok bs p \<and> zone_len p = zone_len p1 \<and> bp_mem p = bp_mem p1 \<and>
    (tiles (bp_chunk p1 0) 0 bs (zone_len p1) \<longrightarrow> bp_chunk p = bp_chunk p1)"
proof -
  have base: "bp_zones_exhausted p1 = 0" "bp_pool_size p1 = bp_pool_size p0" "bp_max_zone p1 = get_max_zones (unat (bp_pool_size p1))"
    "thread_arena p1 = thread_arena p0" "8388608 < unat (bp_pool_size p1)"
    using open_storage_base [OF op] by (simp_all add: same_base_def)
  let ?p2 = "p1\<lparr>bucket_classes := (\<lambda>_. 0), pool_buckets := (\<lambda>_. None), pool_arenas := (\<lambda>_. None)\<rparr>"
  define p3 where "p3 = ?p2\<lparr>bucket_classes := (\<lambda>_. 0)(0 := CHUNKSIZE),
    bucket_store := (bucket_store ?p2)(0 \<mapsto> \<lparr>bk_unit_size = CHUNKSIZE, bk_objects = container_bst_new\<rparr>), pool_buckets := (\<lambda>_. None)(0 \<mapsto> 0)\<rparr>"
  have create: "do { (_, p2) \<leftarrow> persistent_bucket_classes ?p2; create_default_buckets p2 } = Some ((), p3)"
    unfolding p3_def by (rule create_buckets) simp_all
  then obtain p2' where p2': "persistent_bucket_classes ?p2 = Some ((), p2')" "create_default_buckets p2' = Some ((), p3)"
    by (auto split: Option.bind_splits)
  have has: "bucket_has {#} 0 (bucket_store (p3\<lparr>bp_zones_exhausted := Suc 0\<rparr>))"
    using bst_new_inv by (simp add: p3_def bucket_has_def)
  have pb: "pool_buckets (p3\<lparr>bp_zones_exhausted := Suc 0\<rparr>) 0 = Some 0" by (simp add: p3_def)
  have z3: "zone_reads (p3\<lparr>bp_zones_exhausted := Suc 0\<rparr>) (zone_len p1) bs" using z by (simp add: zone_reads_def p3_def)
  obtain C S where C: "fill_loop 0 (zone_len p1) 0 (p3\<lparr>bp_zones_exhausted := Suc 0\<rparr>) =
      Some (p3\<lparr>bp_zones_exhausted := Suc 0, bp_chunk := (bp_chunk p3)(0 := C), bucket_store := S\<rparr>)"
    "tiles C 0 bs (zone_len p1)" "bucket_has (free_entries bs) 0 S" "tiles (bp_chunk p1 0) 0 bs (zone_len p1) \<longrightarrow> C = bp_chunk p1 0"
    using fill_zone [OF z3 _ pb has] len by (auto simp: p3_def)
  let ?p = "p3\<lparr>bp_zones_exhausted := Suc 0, bp_chunk := (bp_chunk p3)(0 := C), bucket_store := S\<rparr>"
  have fb: "persistent_fill_buckets p3 = Some ((), ?p)"
    using C(1) base(1) by (simp add: persistent_fill_buckets_def Let_def p3_def zone_len_def)
  have "pool_new p0 = Some (True, ?p)" using op p2' fb by (simp add: pool_new_def)
  moreover have "zone_ok p1" using zone_ok_opened [of p1] base len by simp
  then have "heap_ok bs ?p"
    using C(2,3) slots thread base(4) by (auto simp: heap_ok_def zone_ok_def zone_len_def p3_def arenas_ok_def slots_ok_def intro: exI [of _ "0 :: nat"] split: option.split)
  ultimately show ?thesis using C(4) by (intro exI [of _ ?p]) (auto simp: p3_def zone_len_def)
qed

section \<open>A new pool\<close>

lemma length_POOL_SIGNATURE [simp]: "length POOL_SIGNATURE = 16"
  by (simp add: POOL_SIGNATURE_def c_str_def)

lemma length_backend_pool_header [simp]: "length (backend_pool_header fl st ma mi ps cs cz) = 1024"
  by (simp add: backend_pool_header_def)

lemma hdr_state_header: "hdr_state (backend_pool_header fl st ma mi ps cs cz) = st"
  by (simp add: hdr_state_def backend_pool_header_def le_at_def)

lemma hdr_state_csum: "length h = 1024 \<Longrightarrow> hdr_state (with_csum HEADER_CSUM h) = hdr_state h"
  unfolding hdr_state_def by (rule le_at_cong) (simp_all add: HEADER_CSUM_def nth_with_csum)

lemma open_new_storage:
  assumes "8388608 < unat (bp_pool_size p)" and "\<not> verify_header (bp_primary p)" and "\<And>i. \<not> verify_header (bp_backup p i)"
  shows "open_pmem_storage p = Some (True, set_pool_state POOL_STATE_OPEN (write_pool_layout (p\<lparr>bp_max_zone := get_max_zones (unat (bp_pool_size p))\<rparr>)))"
proof -
  let ?p = "p\<lparr>bp_max_zone := get_max_zones (unat (bp_pool_size p))\<rparr>"
  have rec: "recover_header_loop n i q = (False, q)" if "bp_backup q = bp_backup p" for n i q
    using that assms(3) by (induction n arbitrary: i) simp_all
  have st: "hdr_state (bp_primary (write_pool_layout ?p)) = POOL_STATE_CLOSED"
    by (simp add: write_pool_layout_def write_backup_pool_headers_def write_primary_pool_header_def hdr_state_csum hdr_state_header)
  have sl: "\<forall>i\<in>set [0..<MAX_INFO_SLOT]. slot_type (bp_slot (write_pool_layout ?p) i) = 0"
    by (simp add: write_pool_layout_def write_backup_pool_headers_def write_primary_pool_header_def zero_info_slots_def zero_slot_def)
  show ?thesis
    using assms(1,2) rec [of ?p] st sl unfolding open_pmem_storage_def recover_primary_header_def Let_def
    by (simp add: word_less_nat_alt del: obj_consts(3) set_upt)
qed

section \<open>Properties\<close>

text \<open>
  C33 A pool whose storage opens and whose first zone passes the consistency check and has at most 65535
  chunks (\<open>MAX_CHUNK\<close>; this leaves out pools of 16 to 32 GiB, whose only zone the source gives more chunks than
  it has headers for) is ready for use by a thread with an arena number below \<open>MAX_ARENAS\<close>: opening it returns, and the
  allocator's blocks are those the chunk headers of the zone describe; a zone that was never used becomes
  one free block.  Nothing that was allocated is lost or handed out again.  The pool may be new, closed, or
  left open by a crash: the operations that were pending then are rolled back before the zone is checked.
  Only of a pool whose header says that it was closed is it assumed that its info slots are empty (the source
  asserts it of their types).
\<close>

theorem pool_new_usable:
  assumes op: "open_pmem_storage (p0\<lparr>bp_zones_exhausted := 0\<rparr>) = Some (True, p1)"
    and closed: "\<And>h. found_header p0 = Some h \<Longrightarrow> hdr_state h = POOL_STATE_CLOSED \<Longrightarrow> slots_ok p0"
    and check: "check_zone p1 0 (get_zone_size_idx 0 (bp_max_zone p1) (bp_pool_size p1)) = Some True"
    and len: "zone_len p1 \<le> MAX_CHUNK" and thread: "\<And>i. thread_arena p0 = Some i \<Longrightarrow> i < MAX_ARENAS"
  shows "\<exists>p bs. pool_new p0 = Some (True, p) \<and> heap_ok bs p \<and> zone_reads p1 (zone_len p1) bs \<and> bp_mem p = bp_mem p1 \<and>
    (tiles (bp_chunk p1 0) 0 bs (zone_len p1) \<longrightarrow> bp_chunk p = bp_chunk p1)"
proof -
  have slots: "slots_ok p1"
    by (rule open_storage_slots [OF op]) (use closed in \<open>simp add: slots_ok_def\<close>)
  have "ch_magic (bp_chunk p1 0 0) \<noteq> CHUNK_HEADER_MAGIC \<and> zone_len p1 \<noteq> 0 \<or> (\<exists>bs. tiles (bp_chunk p1 0) 0 bs (zone_len p1))"
    using check_zone_tiles [OF check [unfolded check_zone_def]] len by (auto simp: zone_len_def unat_eq_zero)
  then obtain bs where "zone_reads p1 (zone_len p1) bs" by (auto simp: zone_reads_def)
  then show ?thesis using pool_new_opens [OF op slots _ len thread] by blast
qed

text \<open>
  The number of units computed for an allocation is always too small: the units never hold the
  requested number of bytes.
\<close>

theorem calc_units_short:
  assumes "size_bytes \<noteq> 0" and "bk_unit_size b < 2 ^ 64" and "bk_unit_size b \<noteq> 0"
  shows "unat (bucket_calc_units b size_bytes) * bk_unit_size b < unat size_bytes"
proof -
  have "unat (bucket_calc_units b size_bytes) \<le> unat ((size_bytes - 1) div of_nat (bk_unit_size b))"
    by (simp add: bucket_calc_units_def unat_ucast_mod)
  also have "\<dots> = (unat size_bytes - 1) div bk_unit_size b"
    using assms by (simp add: unat_div unat_of_nat unat_minus_one)
  finally have "unat (bucket_calc_units b size_bytes) * bk_unit_size b \<le> (unat size_bytes - 1) div bk_unit_size b * bk_unit_size b"
    by (rule mult_right_mono) simp
  also have "\<dots> \<le> unat size_bytes - 1" by (rule div_times_less_eq_dividend)
  also have "\<dots> < unat size_bytes" using assms(1) by (simp add: unat_gt_0)
  finally show ?thesis .
qed

theorem pool_new_usable_witness:
  "\<exists>p0 p. \<not> verify_header (bp_primary p0) \<and> pool_new p0 = Some (True, p) \<and> heap_ok [(0, 59, False)] p"
proof -
  let ?c0 = "\<lparr>ch_magic = 0, ch_type_specific = 0, ch_type = 0, ch_flags = 0, ch_size_idx = 0\<rparr> :: backend_chunk_header"
  let ?p0 = "demo_pool False container_bst_new\<lparr>bp_chunk := (\<lambda>_ _. ?c0), bp_zones_exhausted := 0\<rparr>"
  define p1 where "p1 = set_pool_state POOL_STATE_OPEN (write_pool_layout (?p0\<lparr>bp_max_zone := get_max_zones (unat (bp_pool_size ?p0))\<rparr>))"
  have "POOL_SIGNATURE ! 0 \<noteq> take 16 (replicate 1024 0) ! 0" by (simp add: POOL_SIGNATURE_def c_str_def)
  then have bad: "\<not> verify_header (replicate 1024 0)" unfolding verify_header_def by metis
  have size: "unat (bp_pool_size ?p0) = 16777216" by (simp add: demo_pool_def)
  have op: "open_pmem_storage (?p0\<lparr>bp_zones_exhausted := 0\<rparr>) = Some (True, p1)"
    using open_new_storage [of ?p0] size bad by (simp add: p1_def demo_pool_def)
  have mz: "get_max_zones 16777216 = 1" using get_max_zones_one by simp
  have len: "zone_len p1 = 59"
    using demo_zone [of False container_bst_new] mz size unfolding p1_def
    by (simp add: zone_len_def set_pool_state_def write_pool_layout_def write_backup_pool_headers_def write_primary_pool_header_def zero_info_slots_def
        demo_pool_def Let_def)
  have slots: "slots_ok ?p0" by (simp add: slots_ok_def demo_pool_def)
  have ch: "bp_chunk p1 0 0 = ?c0" unfolding p1_def
    by (simp add: set_pool_state_def write_pool_layout_def write_backup_pool_headers_def write_primary_pool_header_def zero_info_slots_def Let_def)
  have cz: "check_zone p1 0 (get_zone_size_idx 0 (bp_max_zone p1) (bp_pool_size p1)) = Some True"
    unfolding check_zone_def using ch len by (subst check_zone_loop.simps) (simp add: zone_len_def Let_def CHUNK_HEADER_MAGIC_def)
  have th: "i < MAX_ARENAS" if "thread_arena ?p0 = Some i" for i using that by (simp add: demo_pool_def)
  obtain p bs where p: "pool_new ?p0 = Some (True, p)" "heap_ok bs p" "zone_reads p1 (zone_len p1) bs"
    using pool_new_usable [OF op slots cz _ th] len by auto
  have "bs = [(0, 59, False)]" using p(3) ch len by (cases bs) (auto simp: zone_reads_def chunk_ok_def CHUNK_HEADER_MAGIC_def)
  then show ?thesis using p bad by (intro exI [of _ ?p0] exI [of _ p]) (simp add: demo_pool_def)
qed

theorem calc_units_short_witness:
  "bucket_calc_units \<lparr>bk_unit_size = 4096, bk_objects = container_bst_new\<rparr> 11264 = 2 \<and> 2 * 4096 < (11264 :: nat)"
proof -
  let ?b = "\<lparr>bk_unit_size = 4096, bk_objects = container_bst_new\<rparr>"
  have u: "bucket_calc_units ?b 11264 = 2" by (simp add: bucket_calc_units_def)
  then show ?thesis using calc_units_short [of 11264 ?b] by simp
qed

end
