(* ===== verification/Obj_Pool.thy ===== *)
theory Obj_Pool
  imports Util
begin

text \<open>
  The pool files of the object store, \<open>src/libpmemobj/obj.c\<close>: mapping a pool with its header, layout name
  and run-time fields, creating, opening, closing and checking it.  The kernel's answers (where the pool is
  mapped, whether the range is persistent memory, the generated UUID, the time) are the record \<open>obj_env\<close>.
  A layout name is a C string, of which the bytes before the terminator count, or \<open>None\<close> for \<open>NULL\<close>.
\<close>

definition OBJ_HDR_SIG :: "byte list" where "OBJ_HDR_SIG = c_str ''OBJPOOL'' @ [0]"
definition OBJ_FORMAT_MAJOR :: u32 where "OBJ_FORMAT_MAJOR = 1"
definition OBJ_FORMAT_COMPAT :: u32 where "OBJ_FORMAT_COMPAT = 0"
definition OBJ_FORMAT_INCOMPAT :: u32 where "OBJ_FORMAT_INCOMPAT = 0"
definition OBJ_FORMAT_RO_COMPAT :: u32 where "OBJ_FORMAT_RO_COMPAT = 0"
definition PMEMOBJ_MIN_POOL :: nat where "PMEMOBJ_MIN_POOL = 2 ^ 21"
definition PMEMOBJ_LAYOUT_MAX :: nat where "PMEMOBJ_LAYOUT_MAX = 1024"

text \<open>
  Offsets in \<open>struct pmemobjpool\<close>: the layout name after the header page, then the run-time fields
  \<open>addr\<close>, \<open>size\<close>, \<open>is_pmem\<close> and \<open>rdonly\<close>, which are part of the mapped file.
\<close>

definition OBJ_LAYOUT_OFF :: nat where "OBJ_LAYOUT_OFF = 4096"
definition OBJ_ADDR_OFF :: nat where "OBJ_ADDR_OFF = 5120"
definition OBJ_SIZE_OFF :: nat where "OBJ_SIZE_OFF = 5128"
definition OBJ_IS_PMEM_OFF :: nat where "OBJ_IS_PMEM_OFF = 5136"
definition OBJ_RDONLY_OFF :: nat where "OBJ_RDONLY_OFF = 5140"

record obj_env =
  oe_addr :: u64
  oe_is_pmem :: bool
  oe_uuid :: "byte list"
  oe_time :: u64

definition strlen :: "byte list \<Rightarrow> nat" where
  "strlen str = length (takeWhile (\<lambda>b. b \<noteq> 0) str)"

definition obj_layout :: "mem \<Rightarrow> byte list" where
  "obj_layout m = mem_read m OBJ_LAYOUT_OFF PMEMOBJ_LAYOUT_MAX"

text \<open>The checks on an existing pool; the result says whether it may only be read.\<close>

definition obj_check_hdr :: "mem \<Rightarrow> byte list option \<Rightarrow> bool \<Rightarrow> errno + bool" where
  "obj_check_hdr m layout rdonly =
     (case util_convert_hdr (mem_read m 0 POOL_HDR_SIZE) of
        None \<Rightarrow> Inl EINVAL
      | Some hdr \<Rightarrow>
          if \<not> strncmp_eq (hdr_signature hdr) OBJ_HDR_SIG POOL_HDR_SIG_LEN then Inl EINVAL
          else if hdr_major hdr \<noteq> OBJ_FORMAT_MAJOR then Inl EINVAL
          else if (case layout of None \<Rightarrow> False | Some l \<Rightarrow> \<not> strncmp_eq (obj_layout m) l PMEMOBJ_LAYOUT_MAX)
          then Inl EINVAL
          else
            case util_feature_check hdr OBJ_FORMAT_INCOMPAT OBJ_FORMAT_RO_COMPAT OBJ_FORMAT_COMPAT of
              Inl e \<Rightarrow> Inl e
            | Inr rw \<Rightarrow> Inr (rdonly \<or> \<not> rw))"

text \<open>The metadata of a new pool: the layout name, if there is one, then the header.\<close>

definition obj_create_hdr :: "obj_env \<Rightarrow> mem \<Rightarrow> byte list option \<Rightarrow> errno + mem" where
  "obj_create_hdr env m layout =
     (if \<not> util_is_zeroed (mem_read m 0 POOL_HDR_SIZE) then Inl EINVAL
      else if (case layout of None \<Rightarrow> False | Some l \<Rightarrow> PMEMOBJ_LAYOUT_MAX \<le> strlen l) then Inl EINVAL
      else
        let m1 = (case layout of None \<Rightarrow> m
                  | Some l \<Rightarrow> mem_write m OBJ_LAYOUT_OFF (strncpy l (PMEMOBJ_LAYOUT_MAX - 1))) in
        Inr (mem_write m1 0 (new_pool_hdr OBJ_HDR_SIG OBJ_FORMAT_MAJOR OBJ_FORMAT_COMPAT OBJ_FORMAT_INCOMPAT
               OBJ_FORMAT_RO_COMPAT (oe_uuid env) (oe_time env))))"

text \<open>A mapped pool is the contents of the mapping: the handle points to its start.\<close>

type_synonym pmemobjpool = mem

definition pop_addr :: "pmemobjpool \<Rightarrow> u64" where "pop_addr p = le_dec (mem_read p OBJ_ADDR_OFF 8)"
definition pop_size :: "pmemobjpool \<Rightarrow> u64" where "pop_size p = le_dec (mem_read p OBJ_SIZE_OFF 8)"
definition pop_is_pmem :: "pmemobjpool \<Rightarrow> u32" where "pop_is_pmem p = le_dec (mem_read p OBJ_IS_PMEM_OFF 4)"
definition pop_rdonly :: "pmemobjpool \<Rightarrow> u32" where "pop_rdonly p = le_dec (mem_read p OBJ_RDONLY_OFF 4)"

definition obj_runtime :: "obj_env \<Rightarrow> mem \<Rightarrow> u64 \<Rightarrow> bool \<Rightarrow> pmemobjpool" where
  "obj_runtime env m poolsize rdonly =
     (let m1 = mem_write m OBJ_ADDR_OFF (le_enc 8 (oe_addr env));
          m2 = mem_write m1 OBJ_SIZE_OFF (le_enc 8 poolsize);
          m3 = mem_write m2 OBJ_RDONLY_OFF (le_enc 4 (of_bool rdonly :: u32)) in
      mem_write m3 OBJ_IS_PMEM_OFF (le_enc 4 (of_bool (oe_is_pmem env) :: u32)))"

definition pmemobj_map_common :: "obj_env \<Rightarrow> mem \<Rightarrow> byte list option \<Rightarrow> u64 \<Rightarrow> bool \<Rightarrow> bool \<Rightarrow> pmemobjpool outcome" where
  "pmemobj_map_common env m layout poolsize rdonly is_new =
     (if \<not> is_new then
        case obj_check_hdr m layout rdonly of
          Inl e \<Rightarrow> Err e
        | Inr rdonly' \<Rightarrow> Ok (obj_runtime env m poolsize rdonly')
      else if rdonly then Stuck
      else
        case obj_create_hdr env m layout of
          Inl e \<Rightarrow> Err e
        | Inr m' \<Rightarrow> Ok (obj_runtime env m' poolsize rdonly))"

text \<open>
  A pool mapped for writing shares its contents with the file, its run-time fields included; a pool that is
  only checked is mapped copy-on-write.  A refusal leaves the mapping as it was.
\<close>

definition obj_map_file :: "(nat \<Rightarrow> errno option) \<Rightarrow> obj_env \<Rightarrow> fs \<Rightarrow> string \<Rightarrow> byte list option \<Rightarrow> nat \<Rightarrow> bool \<Rightarrow> bool \<Rightarrow>
    pmemobjpool outcome \<times> fs" where
  "obj_map_file mmap env fs path layout poolsize rdonly is_new =
     (case (mmap poolsize, fs path) of
        (None, Some f) \<Rightarrow>
          (case pmemobj_map_common env (file_data f) layout (of_nat poolsize) rdonly is_new of
             Ok p \<Rightarrow> (Ok p, if rdonly then fs else fs(path \<mapsto> f\<lparr>file_data := p\<rparr>))
           | r \<Rightarrow> (r, fs))
      | (Some e, _) \<Rightarrow> (Err e, fs)
      | (None, None) \<Rightarrow> (Stuck, fs))"

definition pmemobj_create :: "(nat \<Rightarrow> errno option) \<Rightarrow> (nat \<Rightarrow> errno option) \<Rightarrow> obj_env \<Rightarrow> fs \<Rightarrow> string \<Rightarrow>
    byte list option \<Rightarrow> nat \<Rightarrow> pmemobjpool outcome \<times> fs" where
  "pmemobj_create falloc mmap env fs path layout poolsize =
     (if poolsize \<noteq> 0 then
        case util_pool_create falloc fs path poolsize PMEMOBJ_MIN_POOL of
          (Inl e, fs') \<Rightarrow> (Err e, fs')
        | (Inr fd, fs') \<Rightarrow> obj_map_file mmap env fs' fd layout poolsize False True
      else
        case util_pool_open fs path PMEMOBJ_MIN_POOL of
          Inl e \<Rightarrow> (Err e, fs)
        | Inr (fd, size') \<Rightarrow> obj_map_file mmap env fs fd layout size' False True)"

definition pmemobj_open :: "(nat \<Rightarrow> errno option) \<Rightarrow> obj_env \<Rightarrow> fs \<Rightarrow> string \<Rightarrow> byte list option \<Rightarrow>
    pmemobjpool outcome \<times> fs" where
  "pmemobj_open mmap env fs path layout =
     (case util_pool_open fs path PMEMOBJ_MIN_POOL of
        Inl e \<Rightarrow> (Err e, fs)
      | Inr (fd, size') \<Rightarrow> obj_map_file mmap env fs fd layout size' False False)"

text \<open>Closing gives the range to \<open>util_unmap\<close> that the run-time fields name.\<close>

definition pmemobj_close :: "pmemobjpool \<Rightarrow> u64 \<times> u64" where
  "pmemobj_close p = (pop_addr p, pop_size p)"

definition pmemobj_check :: "(nat \<Rightarrow> errno option) \<Rightarrow> obj_env \<Rightarrow> fs \<Rightarrow> string \<Rightarrow> byte list option \<Rightarrow> bool outcome \<times> fs" where
  "pmemobj_check mmap env fs path layout =
     (case util_pool_open fs path PMEMOBJ_MIN_POOL of
        Inl e \<Rightarrow> (Err e, fs)
      | Inr (fd, size') \<Rightarrow>
          (case obj_map_file mmap env fs fd layout size' True False of
             (Ok p, fs') \<Rightarrow> (let consistent = True in (Ok consistent, fs'))
           | (Err e, fs') \<Rightarrow> (Err e, fs')
           | (Stuck, fs') \<Rightarrow> (Stuck, fs')))"

section \<open>Layout names\<close>

lemma takeWhile_strncpy: "takeWhile (\<lambda>b. b \<noteq> 0) (strncpy l n) = take n (takeWhile (\<lambda>b. b \<noteq> 0) l)"
proof -
  let ?s = "takeWhile (\<lambda>b. b \<noteq> 0) l"
  have "takeWhile (\<lambda>b. b \<noteq> 0) (take n ?s @ replicate k 0) = take n ?s @ takeWhile (\<lambda>b. b \<noteq> 0) (replicate k 0)" for k
    by (rule takeWhile_append2) (auto dest: in_set_takeD set_takeWhileD)
  moreover have "takeWhile (\<lambda>b. b \<noteq> 0) (replicate k (0::byte)) = []" for k by (cases k) auto
  ultimately show ?thesis by (simp add: strncpy_def Let_def)
qed

definition layout_name :: "byte list option \<Rightarrow> byte list" where
  "layout_name layout = (case layout of None \<Rightarrow> [] | Some l \<Rightarrow> takeWhile (\<lambda>b. b \<noteq> 0) l)"

text \<open>The name in the pool and the name asked for are compared up to the size of the field.\<close>

lemma layout_differs:
  assumes "takeWhile (\<lambda>b. b \<noteq> 0) (obj_layout m) = nm" and "length nm < PMEMOBJ_LAYOUT_MAX"
  shows "(case layout of None \<Rightarrow> False | Some l \<Rightarrow> \<not> strncmp_eq (obj_layout m) l PMEMOBJ_LAYOUT_MAX)
    \<longleftrightarrow> layout \<noteq> None \<and> layout_name layout \<noteq> nm"
proof -
  have "take n nm = take n xs \<longleftrightarrow> xs = nm" if "length nm < n" for xs and n :: nat
    using that by (metis length_take min.absorb2 min.absorb_iff1 min.cobounded2 nat_less_le not_le order.strict_implies_order take_all_iff)
  then show ?thesis using assms by (auto simp: strncmp_eq_takeWhile layout_name_def split: option.splits)
qed

section \<open>Pools that open\<close>

definition obj_ready :: "mem \<Rightarrow> byte list \<Rightarrow> bool" where
  "obj_ready m nm \<longleftrightarrow> obj_check_hdr m None False = Inr False \<and>
     takeWhile (\<lambda>b. b \<noteq> 0) (obj_layout m) = nm \<and> length nm < PMEMOBJ_LAYOUT_MAX"

lemma obj_check_ready:
  assumes "obj_ready m nm"
  shows "obj_check_hdr m layout rdonly = (if layout \<noteq> None \<and> layout_name layout \<noteq> nm then Inl EINVAL else Inr rdonly)"
  using assms layout_differs [of m nm layout]
  by (auto simp: obj_ready_def obj_check_hdr_def split: option.splits if_splits sum.splits)

lemma obj_ready_cong:
  assumes "obj_ready m nm" and "\<And>i. i < OBJ_ADDR_OFF \<Longrightarrow> m' i = m i"
  shows "obj_ready m' nm"
proof -
  have same: "mem_read m' 0 POOL_HDR_SIZE = mem_read m 0 POOL_HDR_SIZE" "obj_layout m' = obj_layout m"
    using assms(2)
    by (auto intro!: mem_read_cong simp: obj_layout_def POOL_HDR_SIZE_def OBJ_ADDR_OFF_def OBJ_LAYOUT_OFF_def PMEMOBJ_LAYOUT_MAX_def)
  show ?thesis using assms(1) unfolding obj_ready_def obj_check_hdr_def same .
qed

lemmas obj_off_defs = OBJ_ADDR_OFF_def OBJ_SIZE_OFF_def OBJ_IS_PMEM_OFF_def OBJ_RDONLY_OFF_def OBJ_LAYOUT_OFF_def

lemma obj_runtime_fields:
  "pop_addr (obj_runtime env m sz ro) = oe_addr env" "pop_size (obj_runtime env m sz ro) = sz"
  "pop_is_pmem (obj_runtime env m sz ro) = of_bool (oe_is_pmem env)" "pop_rdonly (obj_runtime env m sz ro) = of_bool ro"
  by (simp_all add: pop_addr_def pop_size_def pop_is_pmem_def pop_rdonly_def obj_runtime_def Let_def obj_off_defs mem_simps)

lemma obj_runtime_below: "i < OBJ_ADDR_OFF \<Longrightarrow> obj_runtime env m sz ro i = m i"
  by (simp add: obj_runtime_def Let_def obj_off_defs mem_simps)

lemma obj_ready_runtime: "obj_ready m nm \<Longrightarrow> obj_ready (obj_runtime env m sz ro) nm"
  by (erule obj_ready_cong) (rule obj_runtime_below)

lemma obj_sig_facts: "strncmp_eq (strncpy OBJ_HDR_SIG 8) OBJ_HDR_SIG 8"
  by (simp add: OBJ_HDR_SIG_def c_str_def strncpy_def)

lemma obj_new_hdr_accepted:
  assumes "length (oe_uuid env) = 16"
  shows "obj_check_hdr (mem_write m 0 (new_pool_hdr OBJ_HDR_SIG OBJ_FORMAT_MAJOR OBJ_FORMAT_COMPAT OBJ_FORMAT_INCOMPAT
           OBJ_FORMAT_RO_COMPAT (oe_uuid env) (oe_time env))) None False = Inr False"
proof -
  have "OBJ_FORMAT_MAJOR \<noteq> 0" by (simp add: OBJ_FORMAT_MAJOR_def)
  note new = new_pool_hdr_valid [OF assms this, where sig = OBJ_HDR_SIG and cmpt = OBJ_FORMAT_COMPAT
      and incompat = OBJ_FORMAT_INCOMPAT and ro_cmpt = OBJ_FORMAT_RO_COMPAT and t = "oe_time env"]
  obtain c where "util_convert_hdr (new_pool_hdr OBJ_HDR_SIG OBJ_FORMAT_MAJOR OBJ_FORMAT_COMPAT OBJ_FORMAT_INCOMPAT
      OBJ_FORMAT_RO_COMPAT (oe_uuid env) (oe_time env)) = Some \<lparr>hdr_signature = strncpy OBJ_HDR_SIG 8, hdr_major = OBJ_FORMAT_MAJOR,
       hdr_compat_features = OBJ_FORMAT_COMPAT, hdr_incompat_features = OBJ_FORMAT_INCOMPAT,
       hdr_ro_compat_features = OBJ_FORMAT_RO_COMPAT, hdr_uuid = oe_uuid env, hdr_crtime = oe_time env,
       hdr_unused = replicate 4040 0, hdr_checksum = c\<rparr>"
    using new(3) by blast
  then show ?thesis
    using new(1) obj_sig_facts
    by (simp add: obj_check_hdr_def POOL_HDR_SIZE_def POOL_HDR_SIG_LEN_def util_feature_check_def
        OBJ_FORMAT_INCOMPAT_def OBJ_FORMAT_RO_COMPAT_def)
qed

text \<open>
  What the field holds after creation: the name cut at 1023 bytes and the last byte that was there before; or,
  without a name, all that was there before.
\<close>

lemma obj_create_hdr_layout:
  assumes "obj_create_hdr env m layout = Inr m'" and "length (oe_uuid env) = 16"
  shows "obj_check_hdr m' None False = Inr False"
    and "obj_layout m' = (case layout of None \<Rightarrow> obj_layout m | Some l \<Rightarrow> strncpy l 1023 @ [m 5119])"
proof -
  let ?m1 = "case layout of None \<Rightarrow> m | Some l \<Rightarrow> mem_write m OBJ_LAYOUT_OFF (strncpy l (PMEMOBJ_LAYOUT_MAX - 1))"
  let ?page = "new_pool_hdr OBJ_HDR_SIG OBJ_FORMAT_MAJOR OBJ_FORMAT_COMPAT OBJ_FORMAT_INCOMPAT
               OBJ_FORMAT_RO_COMPAT (oe_uuid env) (oe_time env)"
  have m': "m' = mem_write ?m1 0 ?page" using assms(1) by (auto simp: obj_create_hdr_def Let_def split: if_splits)
  show "obj_check_hdr m' None False = Inr False" unfolding m' by (rule obj_new_hdr_accepted [OF assms(2)])
  have len: "length ?page = 4096" by (rule new_pool_hdr_valid(1)) (simp_all add: assms(2) OBJ_FORMAT_MAJOR_def)
  have eq: "obj_layout m' = obj_layout ?m1"
    unfolding m' by (simp add: obj_layout_def OBJ_LAYOUT_OFF_def mem_read_write_disjoint len)
  show "obj_layout m' = (case layout of None \<Rightarrow> obj_layout m | Some l \<Rightarrow> strncpy l 1023 @ [m 5119])"
  proof (cases layout)
    case (Some l)
    have "obj_layout ?m1 = mem_read ?m1 4096 1023 @ mem_read ?m1 (4096 + 1023) 1"
      using mem_read_append [of ?m1 4096 1023 1] by (simp add: obj_layout_def OBJ_LAYOUT_OFF_def PMEMOBJ_LAYOUT_MAX_def)
    also have "\<dots> = strncpy l 1023 @ [m 5119]"
      by (simp add: Some OBJ_LAYOUT_OFF_def PMEMOBJ_LAYOUT_MAX_def mem_simps) (simp add: mem_read_def)
    finally show ?thesis using eq Some by simp
  qed (simp add: eq)
qed

lemma obj_created_ready:
  assumes "obj_create_hdr env m layout = Inr m'" and "length (oe_uuid env) = 16" and "m 5119 = 0"
    and "layout = None \<longrightarrow> util_is_zeroed (obj_layout m)"
  shows "obj_ready m' (layout_name layout)"
proof (cases layout)
  case None
  have "obj_layout m' = obj_layout m" using obj_create_hdr_layout(2) [OF assms(1,2)] None by simp
  moreover have "takeWhile (\<lambda>b. b \<noteq> 0) (obj_layout m) = []"
    using assms(4) None by (cases "obj_layout m") (auto split: if_splits)
  ultimately show ?thesis
    using obj_create_hdr_layout(1) [OF assms(1,2)] None by (simp add: obj_ready_def layout_name_def PMEMOBJ_LAYOUT_MAX_def)
next
  case (Some l)
  let ?nm = "takeWhile (\<lambda>b. b \<noteq> 0) l"
  have short: "length ?nm < 1024" using assms(1) Some
    by (auto simp: obj_create_hdr_def strlen_def PMEMOBJ_LAYOUT_MAX_def split: if_splits)
  have "takeWhile (\<lambda>b. b \<noteq> 0) (strncpy l 1023 @ [0]) = takeWhile (\<lambda>b. b \<noteq> 0) (strncpy l 1023)"
    by (rule takeWhile_tail) simp
  then have "takeWhile (\<lambda>b. b \<noteq> 0) (obj_layout m') = ?nm"
    using obj_create_hdr_layout(2) [OF assms(1,2)] Some assms(3) short by (simp add: takeWhile_strncpy)
  then show ?thesis
    using obj_create_hdr_layout(1) [OF assms(1,2)] Some short by (simp add: obj_ready_def layout_name_def PMEMOBJ_LAYOUT_MAX_def)
qed

text \<open>Opening a pool again and again, each time somewhere else and with a name of the caller.\<close>

fun obj_opens :: "(nat \<Rightarrow> errno option) \<Rightarrow> string \<Rightarrow> (obj_env \<times> byte list option) list \<Rightarrow> fs \<Rightarrow>
    (u64 \<times> u64) outcome list \<times> fs" where
  "obj_opens mmap path [] fs = ([], fs)"
| "obj_opens mmap path ((env, layout) # xs) fs =
     (case pmemobj_open mmap env fs path layout of
        (r, fs') \<Rightarrow> case obj_opens mmap path xs fs' of
          (rs, fs'') \<Rightarrow> ((case r of Ok p \<Rightarrow> Ok (pmemobj_close p) | Err e \<Rightarrow> Err e | Stuck \<Rightarrow> Stuck) # rs, fs''))"

lemma obj_open_ready:
  assumes "fs path = Some f" "obj_ready (file_data f) nm" "PMEMOBJ_MIN_POOL \<le> file_size f" "mmap (file_size f) = None"
  shows "pmemobj_open mmap env fs path layout =
    (if layout \<noteq> None \<and> layout_name layout \<noteq> nm then (Err EINVAL, fs)
     else let p = obj_runtime env (file_data f) (of_nat (file_size f)) False in (Ok p, fs(path \<mapsto> f\<lparr>file_data := p\<rparr>)))"
  using assms
  by (simp add: pmemobj_open_def util_pool_open_def obj_map_file_def pmemobj_map_common_def obj_check_ready Let_def)

lemma obj_opens_ready:
  assumes "fs path = Some f" "obj_ready (file_data f) nm" "PMEMOBJ_MIN_POOL \<le> file_size f" "mmap (file_size f) = None"
  shows "fst (obj_opens mmap path xs fs) =
      map (\<lambda>(env, layout). if layout \<noteq> None \<and> layout_name layout \<noteq> nm then Err EINVAL
                           else Ok (oe_addr env, of_nat (file_size f))) xs \<and>
    (\<exists>g. snd (obj_opens mmap path xs fs) path = Some g \<and> obj_ready (file_data g) nm \<and> file_size g = file_size f)"
  using assms
proof (induction mmap path xs fs arbitrary: f rule: obj_opens.induct)
  case (2 mmap path env layout xs fs)
  note op = obj_open_ready [of fs path f nm mmap env layout, OF "2.prems"]
  show ?case
  proof (cases "layout \<noteq> None \<and> layout_name layout \<noteq> nm")
    case True
    then have op': "pmemobj_open mmap env fs path layout = (Err EINVAL, fs)" using op by simp
    from "2.IH" [OF op' [symmetric], of f] "2.prems" show ?thesis using op' True by (auto split: prod.split)
  next
    case False
    let ?p = "obj_runtime env (file_data f) (of_nat (file_size f)) False"
    let ?fs = "fs(path \<mapsto> f\<lparr>file_data := ?p\<rparr>)"
    have op': "pmemobj_open mmap env fs path layout = (Ok ?p, ?fs)" using op False by (simp add: Let_def)
    have "?fs path = Some (f\<lparr>file_data := ?p\<rparr>)" "obj_ready (file_data (f\<lparr>file_data := ?p\<rparr>)) nm"
        "PMEMOBJ_MIN_POOL \<le> file_size (f\<lparr>file_data := ?p\<rparr>)" "mmap (file_size (f\<lparr>file_data := ?p\<rparr>)) = None"
      using "2.prems" obj_ready_runtime by simp_all
    note ih = "2.IH" [OF op' [symmetric] this]
    have "file_size (f\<lparr>file_data := ?p\<rparr>) = file_size f" by simp
    then show ?thesis
      using ih op' False
      by (cases "obj_opens mmap path xs ?fs") (simp add: obj_runtime_fields pmemobj_close_def cong: if_cong del: fun_upd_apply)
  qed
qed simp

section \<open>Properties\<close>

text \<open>
  C32 A new object pool keeps its layout name: however often the file is opened and wherever it is mapped, opening
  succeeds when no name is given or the name of the creation, fails with \<open>EINVAL\<close> for any other name, and
  closing unmaps the range of that mapping.  A name of 1024 bytes or more is refused at creation, but the empty
  file stays behind.
\<close>

theorem obj_layout_kept:
  assumes "fs path = None" and "falloc poolsize = None" and "mmap poolsize = None"
    and "PMEMOBJ_MIN_POOL \<le> poolsize" and "length (oe_uuid env) = 16"
  shows "if length (layout_name layout) < PMEMOBJ_LAYOUT_MAX
    then \<exists>p fs'. pmemobj_create falloc mmap env fs path layout poolsize = (Ok p, fs') \<and>
           pmemobj_close p = (oe_addr env, of_nat poolsize) \<and>
           fst (obj_opens mmap path xs fs') =
             map (\<lambda>(env', layout'). if layout' \<noteq> None \<and> layout_name layout' \<noteq> layout_name layout then Err EINVAL
                                   else Ok (oe_addr env', of_nat poolsize)) xs
    else pmemobj_create falloc mmap env fs path layout poolsize =
           (Err EINVAL, fs(path \<mapsto> \<lparr>file_size = poolsize, file_data = \<lambda>_. 0\<rparr>))"
proof -
  let ?f = "\<lparr>file_size = poolsize, file_data = \<lambda>_. 0 :: byte\<rparr>"
  have "poolsize \<noteq> 0" using assms(4) by (auto simp: PMEMOBJ_MIN_POOL_def)
  then have create: "pmemobj_create falloc mmap env fs path layout poolsize =
      obj_map_file mmap env (fs(path \<mapsto> ?f)) path layout poolsize False True"
    using assms(1,2,4) by (simp add: pmemobj_create_def util_pool_create_def Let_def)
  have zero: "util_is_zeroed (mem_read (\<lambda>_. 0) a n)" for a n by (auto simp: util_is_zeroed_iff mem_read_def)
  have long: "(case layout of None \<Rightarrow> False | Some l \<Rightarrow> PMEMOBJ_LAYOUT_MAX \<le> strlen l) \<longleftrightarrow>
      \<not> length (layout_name layout) < PMEMOBJ_LAYOUT_MAX"
    by (auto simp: layout_name_def strlen_def PMEMOBJ_LAYOUT_MAX_def split: option.splits)
  show ?thesis
  proof (cases "length (layout_name layout) < PMEMOBJ_LAYOUT_MAX")
    case True
    then obtain m' where m': "obj_create_hdr env (\<lambda>_. 0) layout = Inr m'" using long zero by (simp add: obj_create_hdr_def Let_def)
    let ?p = "obj_runtime env m' (of_nat poolsize) False"
    let ?fs = "fs(path \<mapsto> ?f\<lparr>file_data := ?p\<rparr>)"
    have "obj_ready ?p (layout_name layout)"
      using obj_created_ready [OF m' assms(5)] zero by (intro obj_ready_runtime) (simp add: obj_layout_def)
    moreover have "pmemobj_create falloc mmap env fs path layout poolsize = (Ok ?p, ?fs)"
      unfolding create using assms(3) m' by (simp add: obj_map_file_def pmemobj_map_common_def)
    ultimately show ?thesis
      using True obj_opens_ready [of ?fs path "?f\<lparr>file_data := ?p\<rparr>" "layout_name layout" mmap xs] assms(3,4)
      by (auto simp: pmemobj_close_def obj_runtime_fields)
  next
    case False
    then show ?thesis
      unfolding create using assms(3) long zero
      by (simp add: obj_map_file_def pmemobj_map_common_def obj_create_hdr_def)
  qed
qed

theorem obj_layout_kept_witness:
  "let env = \<lparr>oe_addr = 4096, oe_is_pmem = True, oe_uuid = replicate 16 5, oe_time = 7\<rparr>
   in \<exists>p fs'. pmemobj_create (\<lambda>_. None) (\<lambda>_. None) env (\<lambda>_. None) ''p'' (Some (c_str ''tree'')) 2097152 = (Ok p, fs') \<and>
        fst (obj_opens (\<lambda>_. None) ''p'' [(env, None), (env, Some (c_str ''list'')), (env, Some (c_str ''tree''))] fs') =
          [Ok (4096, 2097152), Err EINVAL, Ok (4096, 2097152)]"
proof -
  let ?env = "\<lparr>oe_addr = 4096, oe_is_pmem = True, oe_uuid = replicate 16 5, oe_time = 7\<rparr>"
  have "length (layout_name (Some (c_str ''tree''))) < PMEMOBJ_LAYOUT_MAX" "PMEMOBJ_MIN_POOL \<le> 2097152"
    by (simp_all add: layout_name_def c_str_def PMEMOBJ_LAYOUT_MAX_def PMEMOBJ_MIN_POOL_def)
  then show ?thesis
    using obj_layout_kept [of "\<lambda>_. None" "''p''" "\<lambda>_. None" 2097152 "\<lambda>_. None" ?env "Some (c_str ''tree'')"
        "[(?env, None), (?env, Some (c_str ''list'')), (?env, Some (c_str ''tree''))]"]
    by (auto simp: Let_def layout_name_def c_str_def)
qed

end
