(* ===== verification/Tool_Common.thy ===== *)
theory Tool_Common
  imports Blk Log
begin

text \<open>
  The functions that the commands of the \<open>pmempool\<close> tool share,
  \<open>src/tools/pmempool/common.c\<close>: the pool type, the parsers of sizes, modes and ranges,
  the list of ranges, the largest block size of a file, and the questions asked on the terminal.
  A C string is a HOL string without its terminator.  What the tool uses of \<open>sscanf\<close> is
  written out.  An access to freed memory and a write outside an array are \<open>Stuck\<close>, and so is
  a question asked again for ever.
\<close>

section \<open>Pool types\<close>

datatype pmem_pool_type = PMEM_POOL_TYPE_NONE | PMEM_POOL_TYPE_LOG | PMEM_POOL_TYPE_BLK |
  PMEM_POOL_TYPE_OBJ | PMEM_POOL_TYPE_ALL | PMEM_POOL_TYPE_UNKNOWN

definition pmem_pool_type_parse_hdr :: "byte list \<Rightarrow> pmem_pool_type" where
  "pmem_pool_type_parse_hdr hdr =
     (if strncmp_eq (hdr_signature (hdr_of_bytes hdr)) LOG_HDR_SIG POOL_HDR_SIG_LEN then PMEM_POOL_TYPE_LOG
      else if strncmp_eq (hdr_signature (hdr_of_bytes hdr)) BLK_HDR_SIG POOL_HDR_SIG_LEN then PMEM_POOL_TYPE_BLK
      else PMEM_POOL_TYPE_UNKNOWN)"

definition pmem_pool_type_parse_str :: "string \<Rightarrow> pmem_pool_type" where
  "pmem_pool_type_parse_str str =
     (if str = ''blk'' then PMEM_POOL_TYPE_BLK
      else if str = ''log'' then PMEM_POOL_TYPE_LOG
      else PMEM_POOL_TYPE_UNKNOWN)"

definition util_validate_checksum :: "byte list \<Rightarrow> nat \<Rightarrow> bool \<times> byte list" where
  "util_validate_checksum bs csump =
     (let csum_valid = fst (util_checksum bs csump False) in
      (csum_valid, if \<not> csum_valid then with_csum csump bs else bs))"

section \<open>Sizes and modes\<close>

text \<open>
  \<open>sscanf\<close> with \<open>%lu\<close> skips blanks, takes an optional sign and at least one decimal
  digit, saturates at the largest value and negates modulo the width.
\<close>

definition isspace :: "char \<Rightarrow> bool" where
  "isspace c \<longleftrightarrow> (of_char c :: nat) = 32 \<or> 9 \<le> (of_char c :: nat) \<and> (of_char c :: nat) \<le> 13"

definition isdigit :: "char \<Rightarrow> bool" where
  "isdigit c \<longleftrightarrow> 48 \<le> (of_char c :: nat) \<and> (of_char c :: nat) \<le> 57"

definition digits_value :: "string \<Rightarrow> nat" where
  "digits_value ds = foldl (\<lambda>n c. 10 * n + (of_char c - 48)) 0 ds"

definition ulong_value :: "bool \<Rightarrow> string \<Rightarrow> u64" where
  "ulong_value neg ds =
     (if 2 ^ 64 \<le> digits_value ds then - 1
      else if neg then - of_nat (digits_value ds) else of_nat (digits_value ds))"

definition scan_lu :: "string \<Rightarrow> (u64 \<times> string) option" where
  "scan_lu str =
     (let s = dropWhile isspace str;
          neg = (s \<noteq> [] \<and> hd s = CHR ''-'');
          t = (if s \<noteq> [] \<and> (hd s = CHR ''-'' \<or> hd s = CHR ''+'') then tl s else s);
          ds = takeWhile isdigit t in
      if ds = [] then None else Some (ulong_value neg ds, dropWhile isdigit t))"

text \<open>\<open>%3s\<close>: at most three characters up to the next blank; none at the end of the string.\<close>

definition scan_3s :: "string \<Rightarrow> string option" where
  "scan_3s str =
     (let s = take 3 (takeWhile (\<lambda>c. \<not> isspace c) (dropWhile isspace str)) in
      if s = [] then None else Some s)"

text \<open>
  The shift of a unit.  The array \<open>unit\<close> has three characters: a unit of three characters
  leaves no room for the terminator that \<open>sscanf\<close> stores.
\<close>

definition unit_shift :: "string \<Rightarrow> nat option outcome" where
  "unit_shift u =
     (if 3 \<le> length u then Stuck
      else if length u = 2 \<and> u ! 1 \<noteq> CHR ''B'' then Ok None
      else if hd u = CHR ''K'' then Ok (Some 10)
      else if hd u = CHR ''M'' then Ok (Some 20)
      else if hd u = CHR ''G'' then Ok (Some 30)
      else if hd u = CHR ''T'' then Ok (Some 40)
      else if hd u = CHR ''P'' then Ok (Some 50)
      else Ok None)"

text \<open>The value stored through \<open>sizep\<close>, \<open>None\<close> when the function returns -1.\<close>

definition util_parse_size :: "string \<Rightarrow> u64 option outcome" where
  "util_parse_size str =
     (case scan_lu str of
        None \<Rightarrow> Ok None
      | Some (size', rest) \<Rightarrow>
          (case scan_3s rest of
             None \<Rightarrow> Ok (Some size')
           | Some u \<Rightarrow>
               (case unit_shift u of
                  Ok (Some shift) \<Rightarrow> Ok (Some (push_bit shift size'))
                | Ok None \<Rightarrow> Ok None
                | Err e \<Rightarrow> Err e
                | Stuck \<Rightarrow> Stuck)))"

fun parse_octal :: "nat \<Rightarrow> u32 \<Rightarrow> string \<Rightarrow> u32 option" where
  "parse_octal digits m [] = Some m"
| "parse_octal digits m (c # str) =
     (if digits < 3 then
        if (of_char c :: nat) < 48 \<or> 55 < (of_char c :: nat) then None
        else parse_octal (Suc digits) (push_bit 3 m OR of_nat (of_char c - 48)) str
      else None)"

definition util_parse_mode :: "string \<Rightarrow> u32 option" where
  "util_parse_mode str = parse_octal 0 0 (dropWhile (\<lambda>c. c = CHR ''0'') str)"

section \<open>Ranges\<close>

record prange =
  range_first :: u64
  range_last :: u64

text \<open>
  The parsers fill the range they are given, which \<open>malloc\<close> returned: fields that are not
  written keep what was there.  The result says whether the C function returns 0.
\<close>

definition parse_first :: "string \<Rightarrow> (prange, bool) prog" where
  "parse_first str r =
     (case util_parse_size str of
        Ok (Some v) \<Rightarrow> (Ok True, r\<lparr>range_first := v\<rparr>)
      | Ok None \<Rightarrow> (Ok False, r)
      | Err e \<Rightarrow> (Err e, r)
      | Stuck \<Rightarrow> (Stuck, r))"

definition parse_last :: "string \<Rightarrow> (prange, bool) prog" where
  "parse_last str r =
     (case util_parse_size str of
        Ok (Some v) \<Rightarrow> (Ok True, r\<lparr>range_last := v\<rparr>)
      | Ok None \<Rightarrow> (Ok False, r)
      | Err e \<Rightarrow> (Err e, r)
      | Stuck \<Rightarrow> (Stuck, r))"

definition dash_split :: "string \<Rightarrow> (string \<times> string) option" where
  "dash_split str =
     (let s1 = takeWhile (\<lambda>c. c \<noteq> CHR ''-'') str; rest = dropWhile (\<lambda>c. c \<noteq> CHR ''-'') str in
      if s1 = [] \<or> rest = [] then None else Some (s1, tl rest))"

definition util_parse_range_from_to :: "string \<Rightarrow> prange \<Rightarrow> (prange, bool) prog" where
  "util_parse_range_from_to str entire =
     (case dash_split str of
        None \<Rightarrow> ret False
      | Some (str1, rest) \<Rightarrow>
          let str2 = takeWhile (\<lambda>c. c \<noteq> CHR ''-'') rest in
          if str2 = [] then ret False
          else
            andthen (andthen (parse_first str1) (\<lambda>ok. if ok then parse_last str2 else ret False)) (\<lambda>ok.
            andthen (gets id) (\<lambda>r.
            if range_last entire < range_first r \<or> range_last entire < range_last r then ret False
            else if range_last r < range_first r
            then andthen (update (\<lambda>r. \<lparr>range_first = range_last r, range_last = range_first r\<rparr>)) (\<lambda>_. ret ok)
            else ret ok)))"

definition util_parse_range_from :: "string \<Rightarrow> prange \<Rightarrow> (prange, bool) prog" where
  "util_parse_range_from str entire =
     (case dash_split str of
        None \<Rightarrow> ret False
      | Some (str1, _) \<Rightarrow>
          andthen (parse_first str1) (\<lambda>ok.
          if ok then andthen (update (range_last_update (\<lambda>_. range_last entire))) (\<lambda>_. ret True)
          else ret False))"

definition util_parse_range_to :: "string \<Rightarrow> prange \<Rightarrow> (prange, bool) prog" where
  "util_parse_range_to str entire =
     (let str1 = takeWhile (\<lambda>c. c \<noteq> CHR ''-'') (tl str) in
      if str = [] \<or> hd str \<noteq> CHR ''-'' \<or> str1 = [] then ret False
      else
        andthen (parse_last str1) (\<lambda>ok.
        if ok then
          andthen (update (range_first_update (\<lambda>_. range_first entire))) (\<lambda>_.
          andthen (gets id) (\<lambda>r. ret (\<not> range_last entire < range_last r)))
        else ret False))"

definition util_parse_range_number :: "string \<Rightarrow> prange \<Rightarrow> (prange, bool) prog" where
  "util_parse_range_number str entire =
     andthen (parse_first str) (\<lambda>_.
     andthen (gets id) (\<lambda>r.
     if range_last entire < range_first r \<or> range_last entire < range_last r then ret False
     else andthen (update (range_last_update (\<lambda>_. range_first r))) (\<lambda>_. ret True)))"

definition util_parse_range :: "string \<Rightarrow> prange \<Rightarrow> (prange, bool) prog" where
  "util_parse_range str entire =
     andthen (util_parse_range_from_to str entire) (\<lambda>ok. if ok then ret True else
     andthen (util_parse_range_from str entire) (\<lambda>ok. if ok then ret True else
     andthen (util_parse_range_to str entire) (\<lambda>ok. if ok then ret True else
     util_parse_range_number str entire)))"

definition util_ranges_overlap :: "prange \<Rightarrow> prange \<Rightarrow> bool" where
  "util_ranges_overlap r1 r2 \<longleftrightarrow>
     \<not> (range_last r1 + 1 < range_first r2 \<or> range_last r2 + 1 < range_first r1)"

fun insert_range :: "prange \<Rightarrow> prange list \<Rightarrow> prange list option" where
  "insert_range r [] = None"
| "insert_range r (cur # rs) =
     (if range_first cur < range_first r then Some (cur # r # rs)
      else map_option ((#) cur) (insert_range r rs))"

text \<open>
  The first loop frees an overlapping range and then reads its successor from the freed memory.
\<close>

definition util_ranges_add_range :: "prange \<Rightarrow> (prange list, unit) prog" where
  "util_ranges_add_range r rs =
     (if list_ex (\<lambda>cur. util_ranges_overlap cur r) rs then (Stuck, rs)
      else (Ok (), case insert_range r rs of Some rs' \<Rightarrow> rs' | None \<Rightarrow> r # rs))"

definition util_ranges_add :: "u64 \<Rightarrow> u64 \<Rightarrow> (prange list, unit) prog" where
  "util_ranges_add first' last' = util_ranges_add_range \<lparr>range_first = first', range_last = last'\<rparr>"

definition util_ranges_clear :: "(prange list, unit) prog" where
  "util_ranges_clear rs = (Ok (), [])"

text \<open>\<open>garbage k\<close> is what the k-th \<open>malloc\<close> returns.\<close>

function util_parse_ranges :: "(nat \<Rightarrow> prange) \<Rightarrow> nat \<Rightarrow> string \<Rightarrow> prange \<Rightarrow> (prange list, bool) prog" where
  "util_parse_ranges garbage k str entire rs =
     (let s = takeWhile (\<lambda>c. c \<noteq> CHR '','') str; rest = dropWhile (\<lambda>c. c \<noteq> CHR '','') str in
      case util_parse_range s entire (garbage k) of
        (Ok True, r) \<Rightarrow>
          (case util_ranges_add_range r rs of
             (Ok (), rs') \<Rightarrow>
               if rest = [] then (Ok True, rs')
               else util_parse_ranges garbage (Suc k) (tl rest) entire rs'
           | (Err e, rs') \<Rightarrow> (Err e, rs')
           | (Stuck, rs') \<Rightarrow> (Stuck, rs'))
      | (Ok False, r) \<Rightarrow> (Ok False, rs)
      | (Err e, r) \<Rightarrow> (Err e, rs)
      | (Stuck, r) \<Rightarrow> (Stuck, rs))"
  by pat_completeness auto
termination
proof (relation "measure (\<lambda>(garbage, k, str, entire, rs). length str)", goal_cases)
  case (2 garbage k str)
  have "length (dropWhile (\<lambda>c. c \<noteq> CHR '','') str) \<le> length str" by (rule length_dropWhile_le)
  with 2 show ?case by (cases "dropWhile (\<lambda>c. c \<noteq> CHR '','') str") auto
qed simp

declare util_parse_ranges.simps [simp del]

section \<open>Pool files\<close>

definition pmem_pool_get_min_size :: "pmem_pool_type \<Rightarrow> nat" where
  "pmem_pool_get_min_size t =
     (case t of
        PMEM_POOL_TYPE_LOG \<Rightarrow> PMEMLOG_MIN_POOL
      | PMEM_POOL_TYPE_BLK \<Rightarrow> PMEMBLK_MIN_POOL
      | _ \<Rightarrow> 0)"

text \<open>
  \<open>pread\<close> returns what the file has from the offset on, up to the requested count; an
  offset that is negative as \<open>off_t\<close> is refused.
\<close>

definition pread :: "pfile \<Rightarrow> nat \<Rightarrow> u64 \<Rightarrow> byte list" where
  "pread f n off =
     (if 2 ^ 63 \<le> unat off then []
      else mem_read (file_data f) (unat off) (min n (file_size f - unat off)))"

text \<open>The type, and what is stored through \<open>sizep\<close> and \<open>bsizep\<close> when they are given.\<close>

definition pmem_pool_parse_params :: "fs \<Rightarrow> string \<Rightarrow> pmem_pool_type \<times> u64 option \<times> u64 option" where
  "pmem_pool_parse_params fs fname =
     (case fs fname of
        None \<Rightarrow> (PMEM_POOL_TYPE_NONE, None, None)
      | Some f \<Rightarrow>
          let hdr = pread f POOL_HDR_SIZE 0;
              t = (if length hdr = POOL_HDR_SIZE then pmem_pool_type_parse_hdr hdr else PMEM_POOL_TYPE_UNKNOWN);
              pb = pread f (unat SIZEOF_PMEMBLK) 0 in
          (t, Some (of_nat (file_size f)),
           if t = PMEM_POOL_TYPE_BLK \<and> length pb = unat SIZEOF_PMEMBLK
           then Some (ucast (le_at 4 pb BLK_BSIZE_OFF :: u32)) else None))"

fun util_check_memory :: "byte list \<Rightarrow> byte \<Rightarrow> bool" where
  "util_check_memory [] val = True"
| "util_check_memory (b # buff) val = (if b \<noteq> val then False else util_check_memory buff val)"

definition util_get_max_bsize :: "u64 \<Rightarrow> u32" where
  "util_get_max_bsize fsize =
     (if fsize = 0 then 0
      else
        let nfree = BTT_DEFAULT_NFREE;
            internal_nlba = 2 * nfree;
            flog_size = layout_flog_size nfree;
            arena_size = fsize - SIZEOF_PMEMBLK;
            arena_size = (if BTT_MAX_ARENA < arena_size then BTT_MAX_ARENA else arena_size);
            arena_size = arena_size - 2 * 4096;
            arena_size = arena_size - flog_size;
            lbasize = ucast ((arena_size - BTT_ALIGNMENT) div ucast internal_nlba - ucast BTT_MAP_ENTRY_SIZE) :: u32;
            lbasize = (if lbasize < BTT_MIN_LBA_SIZE then BTT_MIN_LBA_SIZE else lbasize) in
        roundup lbasize BTT_INTERNAL_LBA_ALIGNMENT - BTT_INTERNAL_LBA_ALIGNMENT)"

text \<open>The C function returns 0 for a block size that fits.\<close>

definition util_check_bsize :: "u32 \<Rightarrow> u64 \<Rightarrow> bool" where
  "util_check_bsize bsize fsize \<longleftrightarrow> bsize < util_get_max_bsize fsize"

section \<open>Questions\<close>

text \<open>
  The state is what is left on the standard input.  At its end every \<open>getchar\<close> fails and
  the question is asked again for ever.  The value 0 is among the answers, because
  \<open>strchr\<close> finds the terminator.
\<close>

definition tolower :: "char \<Rightarrow> char" where
  "tolower c = (if 65 \<le> (of_char c :: nat) \<and> (of_char c :: nat) \<le> 90 then char_of (of_char c + 32 :: nat) else c)"

function ask_loop :: "string \<Rightarrow> char \<Rightarrow> (string, char) prog" where
  "ask_loop answers def_ans [] = (Stuck, [])"
| "ask_loop answers def_ans (c # input) =
     (let ans = tolower c in
      if ans = CHR 0x0A then (Ok def_ans, input)
      else if ans \<in> set answers \<or> ans = CHR 0x00 then (Ok ans, tl input)
      else ask_loop answers def_ans (tl input))"
  by pat_completeness auto
termination
  by (relation "measure (\<lambda>(answers, def_ans, input). length input)") auto

definition ask :: "char \<Rightarrow> string \<Rightarrow> char \<Rightarrow> (string, char) prog" where
  "ask oper answers def_ans = (if oper \<noteq> CHR ''?'' then ret oper else ask_loop answers def_ans)"

definition ask_yn :: "char \<Rightarrow> char \<Rightarrow> (string, char) prog" where
  "ask_yn oper def_ans = ask oper ''yn'' def_ans"

definition ask_Yn :: "char \<Rightarrow> (string, char) prog" where
  "ask_Yn oper = ask_yn oper CHR ''y''"

definition ask_yN :: "char \<Rightarrow> (string, char) prog" where
  "ask_yN oper = ask_yn oper CHR ''n''"

end
