(* ===== verification/Tool_Check.thy ===== *)
theory Tool_Check
  imports Tool_Common
begin

text \<open>
  The command \<open>pmempool check\<close>, \<open>src/tools/pmempool/check.c\<close>, in the order of the
  file: the steps that check and repair the pool header, the log header, the block pool header,
  the arena info blocks and the maps and flogs, the steps that write what was repaired, and the
  driver.  The state is \<open>struct pmempool_check\<close> with the opened file and the standard
  input.  The union of headers and every structure read from the file are kept as bytes, so
  the conversions between host and little-endian order are the identity.  A call that crashes or
  never returns is \<open>Stuck\<close>.
\<close>

section \<open>The context of the command\<close>

text \<open>
  \<open>struct arena\<close>: the info block as bytes; \<open>None\<close> for the map and the flog before
  they are read.
\<close>

record tarena =
  ta_info :: "byte list"
  ta_id :: u32
  ta_valid :: bool
  ta_offset :: u64
  ta_flog :: "byte list option"
  ta_map :: "byte list option"

definition zero_tarena :: tarena where
  "zero_tarena = \<lparr>ta_info = replicate 4096 0, ta_id = 0, ta_valid = False, ta_offset = 0,
     ta_flog = None, ta_map = None\<rparr>"

abbreviation tinfo :: "tarena \<Rightarrow> btt_info" where
  "tinfo a \<equiv> info_of_bytes (ta_info a)"

datatype uuid_op = UUID_NOP | UUID_FROM_BTT | UUID_REGENERATED

text \<open>
  Besides the fields of the structure: the opened file and its modification time, the standard
  input, the UUID that \<open>uuid_generate\<close> returns, for each coming \<open>pwrite\<close> and
  \<open>fsync\<close> whether it fails (none fails after the end of the list), and for how many arenas
  there is memory.
\<close>

record pmempool_check =
  pc_repair :: bool
  pc_backup :: bool
  pc_exec :: bool
  pc_ptype :: pmem_pool_type
  pc_hdr :: "byte list"
  pc_uuid_op :: uuid_op
  pc_bttc :: tarena
  pc_arenas :: "tarena list"
  pc_ans :: char
  pc_file :: pfile
  pc_mtime :: u64
  pc_stdin :: string
  pc_uuid :: "byte list"
  pc_io :: "bool list"
  pc_room :: nat

type_synonym 'a pcheck = "(pmempool_check, 'a) prog"

datatype check_result = CHECK_RESULT_CONSISTENT | CHECK_RESULT_CONSISTENT_BREAK |
  CHECK_RESULT_NOT_CONSISTENT | CHECK_RESULT_REPAIRED | CHECK_RESULT_CANNOT_REPAIR |
  CHECK_RESULT_ERROR | CHECK_RESULT_OTHER

text \<open>\<open>CHECK_RESULT_OTHER\<close> stands for the value -1, which is none of the enumerators.\<close>

section \<open>Calls of the system\<close>

definition pc_ask :: "char pcheck" where
  "pc_ask s = (case ask_Yn (pc_ans s) (pc_stdin s) of (r, input) \<Rightarrow> (r, s\<lparr>pc_stdin := input\<rparr>))"

definition pc_pread :: "nat \<Rightarrow> u64 \<Rightarrow> byte list pcheck" where
  "pc_pread n off = gets (\<lambda>s. pread (pc_file s) n off)"

text \<open>Whether the call succeeds; a write behind the end fills the gap with zeros.\<close>

definition io_ok :: "bool pcheck" where
  "io_ok s = (Ok (pc_io s = [] \<or> \<not> hd (pc_io s)), s\<lparr>pc_io := tl (pc_io s)\<rparr>)"

definition file_write :: "byte list \<Rightarrow> nat \<Rightarrow> pfile \<Rightarrow> pfile" where
  "file_write bs off f =
     f\<lparr>file_size := max (file_size f) (off + length bs),
       file_data := mem_write (\<lambda>i. if i < file_size f then file_data f i else 0) off bs\<rparr>"

definition pc_pwrite :: "byte list \<Rightarrow> u64 \<Rightarrow> bool pcheck" where
  "pc_pwrite bs off =
     andthen io_ok (\<lambda>ok.
     if \<not> ok \<or> 2 ^ 63 \<le> unat off then ret False
     else andthen (update (pc_file_update (file_write bs (unat off)))) (\<lambda>_. ret True))"

text \<open>Storing into a field of the header union.\<close>

definition splice :: "nat \<Rightarrow> byte list \<Rightarrow> byte list \<Rightarrow> byte list" where
  "splice off new bs = take off bs @ new @ drop (off + length new) bs"

definition hdr_put :: "nat \<Rightarrow> byte list \<Rightarrow> unit pcheck" where
  "hdr_put off new = update (pc_hdr_update (splice off new))"

abbreviation pc_pool :: "pmempool_check \<Rightarrow> byte list" where
  "pc_pool s \<equiv> take POOL_HDR_SIZE (pc_hdr s)"

section \<open>Callbacks for the BTT functions\<close>

text \<open>
  \<open>struct btt_context\<close>: the mapped area and its length.  The table of callbacks has no
  \<open>nszero\<close>; calling it jumps to address 0, which \<open>btc_crashed\<close> records.
\<close>

record btt_context =
  btc_area :: mem
  btc_len :: u64
  btc_crashed :: bool

definition pmempool_check_nsread :: "btt_context \<Rightarrow> nat \<Rightarrow> u64 \<Rightarrow> u64 \<Rightarrow> errno + byte list" where
  "pmempool_check_nsread nsc lane count off =
     (if btc_len nsc < off + count then Inl EINVAL
      else Inr (mem_read (btc_area nsc) (unat off) (unat count)))"

definition pmempool_check_nswrite :: "btt_context \<Rightarrow> nat \<Rightarrow> byte list \<Rightarrow> u64 \<Rightarrow> errno option \<times> btt_context" where
  "pmempool_check_nswrite nsc lane buf off =
     (if btc_len nsc < off + of_nat (length buf) then (Some EINVAL, nsc)
      else (None, nsc\<lparr>btc_area := mem_write (btc_area nsc) (unat off) buf\<rparr>))"

definition pmempool_check_nsmap :: "btt_context \<Rightarrow> nat \<Rightarrow> u64 \<Rightarrow> u64 \<Rightarrow> errno + byte list" where
  "pmempool_check_nsmap nsc lane len off =
     (if btc_len nsc \<le> off + len then Inl EINVAL
      else Inr (mem_read (btc_area nsc) (unat off) (unat len)))"

definition null_nszero :: "btt_context \<Rightarrow> nat \<Rightarrow> u64 \<Rightarrow> u64 \<Rightarrow> errno option \<times> btt_context" where
  "null_nszero nsc lane count off = (Some EINVAL, nsc\<lparr>btc_crashed := True\<rparr>)"

definition pmempool_check_btt_ns_callback :: "btt_context ns_callback" where
  "pmempool_check_btt_ns_callback = \<lparr>nsread = pmempool_check_nsread, nswrite = pmempool_check_nswrite,
     nszero = null_nszero, nsmap = pmempool_check_nsmap, ns_is_zeroed = False\<rparr>"

section \<open>The backup\<close>

text \<open>
  \<open>sendfile\<close> copies all of the file; \<open>open\<close> without \<open>O_TRUNC\<close> keeps what an
  older, longer backup has behind it.  \<open>can_create\<close> says whether the directory lets the
  file be opened for writing.
\<close>

definition pmempool_check_cp :: "(string \<Rightarrow> bool) \<Rightarrow> string \<Rightarrow> string \<Rightarrow> (fs, bool) prog" where
  "pmempool_check_cp can_create fsrc fdst fs =
     (case fs fsrc of
        None \<Rightarrow> (Stuck, fs)
      | Some f \<Rightarrow>
          if \<not> can_create fdst then (Ok False, fs)
          else
            let d = (case fs fdst of Some d \<Rightarrow> d | None \<Rightarrow> \<lparr>file_size = 0, file_data = (\<lambda>_. 0)\<rparr>) in
            (Ok True, fs(fdst \<mapsto> file_write (mem_read (file_data f) 0 (file_size f)) 0 d)))"

definition BACKUP_SUFFIX :: string where "BACKUP_SUFFIX = ''.bak''"

definition pmempool_check_create_backup :: "(string \<Rightarrow> bool) \<Rightarrow> string \<Rightarrow> (fs, bool) prog" where
  "pmempool_check_create_backup can_create fname =
     pmempool_check_cp can_create fname (fname @ BACKUP_SUFFIX)"

section \<open>Looking for arena info blocks\<close>

text \<open>The buffer after a read: a short read leaves the rest of it as it was.\<close>

definition fill_buf :: "byte list \<Rightarrow> byte list \<Rightarrow> byte list" where
  "fill_buf new buf = new @ drop (length new) buf"

definition btt_info_valid :: "byte list \<Rightarrow> bool" where
  "btt_info_valid bs \<longleftrightarrow> info_sig (info_of_bytes bs) = Sig \<and> fst (util_checksum bs BTT_INFO_CSUM False)"

text \<open>The offset of the first valid info block (0 for none) and the buffer.\<close>

function pmempool_check_get_first_valid_btt :: "pfile \<Rightarrow> byte list \<Rightarrow> u64 \<Rightarrow> u64 \<times> byte list" where
  "pmempool_check_get_first_valid_btt f infop offset =
     (let bs = pread f 4096 offset in
      if length bs \<noteq> 4096 then (0, fill_buf bs infop)
      else if btt_info_valid bs then (offset, bs)
      else pmempool_check_get_first_valid_btt f bs (offset + BTT_ALIGNMENT))"
  by pat_completeness auto
termination
proof (relation "measure (\<lambda>(f, infop, offset). file_size f - unat offset)", goal_cases)
  case (2 f infop offset bs)
  then have "unat offset < 2 ^ 63" "unat offset + 4096 \<le> file_size f"
    by (auto simp: pread_def split: if_splits)
  moreover have "unat (offset + BTT_ALIGNMENT) = unat offset + 4096"
    using calculation(1) by (subst unat_plus_if') (simp_all add: BTT_ALIGNMENT_def)
  ultimately show ?case by simp
qed simp

declare pmempool_check_get_first_valid_btt.simps [simp del]

definition pmempool_check_get_first_valid_arena :: "bool pcheck" where
  "pmempool_check_get_first_valid_arena s =
     (case pmempool_check_get_first_valid_btt (pc_file s) (ta_info (pc_bttc s)) (2 * BTT_ALIGNMENT) of
        (offset, bs) \<Rightarrow>
          if offset \<noteq> 0
          then (Ok True, s\<lparr>pc_bttc := (pc_bttc s)\<lparr>ta_info := bs, ta_valid := True, ta_offset := offset\<rparr>\<rparr>)
          else (Ok False, s\<lparr>pc_bttc := (pc_bttc s)\<lparr>ta_info := bs\<rparr>\<rparr>))"

definition pmempool_check_clear_arenas :: "unit pcheck" where
  "pmempool_check_clear_arenas = update (pc_arenas_update (\<lambda>_. []))"

definition pmempool_check_insert_arena :: "tarena \<Rightarrow> unit pcheck" where
  "pmempool_check_insert_arena a = update (pc_arenas_update (\<lambda>as. as @ [a]))"

section \<open>The pool header\<close>

text \<open>A question about one field: the field changes when the answer is yes.\<close>

definition ask_put :: "bool \<Rightarrow> nat \<Rightarrow> byte list \<Rightarrow> unit pcheck" where
  "ask_put bad off new =
     (if bad then andthen pc_ask (\<lambda>c. if c = CHR ''y'' then hdr_put off new else ret ()) else ret ())"

definition fix_u32 :: "nat \<Rightarrow> u32 \<Rightarrow> unit pcheck" where
  "fix_u32 off v = andthen (gets (\<lambda>s. le_at 4 (pc_hdr s) off \<noteq> v)) (\<lambda>bad. ask_put bad off (le_enc 4 v))"

text \<open>An early return: \<open>Some\<close> is the value returned.\<close>

definition or_return :: "'a option pcheck \<Rightarrow> 'a pcheck \<Rightarrow> 'a pcheck" where
  "or_return p k = andthen p (\<lambda>r. case r of Some x \<Rightarrow> ret x | None \<Rightarrow> k)"

definition hdr_pool_type :: "check_result option pcheck" where
  "hdr_pool_type =
     andthen (update (\<lambda>s. s\<lparr>pc_ptype := pmem_pool_type_parse_hdr (pc_pool s)\<rparr>)) (\<lambda>_.
     andthen (gets pc_ptype) (\<lambda>t.
     if t \<noteq> PMEM_POOL_TYPE_UNKNOWN then ret None
     else
       andthen pmempool_check_get_first_valid_arena (\<lambda>found.
       if \<not> found then ret (Some CHECK_RESULT_CANNOT_REPAIR)
       else
         andthen pc_ask (\<lambda>c.
         if c = CHR ''y'' then
           andthen (hdr_put 0 (strncpy BLK_HDR_SIG POOL_HDR_SIG_LEN)) (\<lambda>_.
           andthen (update (pc_ptype_update (\<lambda>_. PMEM_POOL_TYPE_BLK))) (\<lambda>_. ret None))
         else ret (Some CHECK_RESULT_CANNOT_REPAIR)))))"

definition hdr_defaults :: "unit pcheck" where
  "hdr_defaults =
     andthen (gets pc_ptype) (\<lambda>t.
     let log = (t = PMEM_POOL_TYPE_LOG) in
     andthen (fix_u32 8 (if log then LOG_FORMAT_MAJOR else BLK_FORMAT_MAJOR)) (\<lambda>_.
     andthen (fix_u32 12 (if log then LOG_FORMAT_COMPAT else BLK_FORMAT_COMPAT)) (\<lambda>_.
     andthen (fix_u32 16 (if log then LOG_FORMAT_INCOMPAT else BLK_FORMAT_INCOMPAT)) (\<lambda>_.
     andthen (fix_u32 20 (if log then LOG_FORMAT_RO_COMPAT else BLK_FORMAT_RO_COMPAT)) (\<lambda>_.
     andthen (gets (\<lambda>s. \<not> util_check_memory (hdr_unused (hdr_of_bytes (pc_pool s))) 0)) (\<lambda>bad.
     ask_put bad 48 (replicate 4040 0)))))))"

definition hdr_uuid_from_btt :: "unit pcheck" where
  "hdr_uuid_from_btt =
     andthen (gets id) (\<lambda>s.
     let uuid = info_parent_uuid (tinfo (pc_bttc s)) in
     if pc_ptype s = PMEM_POOL_TYPE_BLK \<and> ta_valid (pc_bttc s) \<and> hdr_uuid (hdr_of_bytes (pc_pool s)) \<noteq> uuid then
       andthen pc_ask (\<lambda>c.
       if c = CHR ''y'' then
         andthen (hdr_put 24 uuid) (\<lambda>_. update (pc_uuid_op_update (\<lambda>_. UUID_FROM_BTT)))
       else ret ())
     else ret ())"

definition hdr_checksum_ok :: "pmempool_check \<Rightarrow> bool" where
  "hdr_checksum_ok s \<longleftrightarrow> fst (util_checksum (pc_pool s) POOL_HDR_CSUM False)"

definition hdr_crtime_step :: "check_result option pcheck" where
  "hdr_crtime_step =
     andthen (gets id) (\<lambda>s.
     if pc_mtime s < hdr_crtime (hdr_of_bytes (pc_pool s)) then
       andthen pc_ask (\<lambda>c.
       if c = CHR ''y'' then andthen (hdr_put 40 (le_enc 8 (pc_mtime s))) (\<lambda>_. ret None)
       else ret (Some CHECK_RESULT_CANNOT_REPAIR))
     else ret None)"

definition hdr_uuid_step :: "check_result option pcheck" where
  "hdr_uuid_step =
     andthen (gets id) (\<lambda>s.
     if pc_uuid_op s = UUID_NOP then
       andthen pc_ask (\<lambda>c.
       if c = CHR ''y'' then
         andthen (hdr_put 24 (pc_uuid s)) (\<lambda>_.
         andthen (update (pc_uuid_op_update (\<lambda>_. UUID_REGENERATED))) (\<lambda>_. ret None))
       else ret (Some CHECK_RESULT_CANNOT_REPAIR))
     else ret (Some CHECK_RESULT_CANNOT_REPAIR))"

definition hdr_regenerate :: "check_result pcheck" where
  "hdr_regenerate =
     or_return hdr_crtime_step
     (or_return hdr_uuid_step
     (andthen pc_ask (\<lambda>c.
      if c = CHR ''n'' then ret CHECK_RESULT_CANNOT_REPAIR
      else
        andthen (update (\<lambda>s. s\<lparr>pc_hdr := with_csum POOL_HDR_CSUM (pc_pool s) @ drop POOL_HDR_SIZE (pc_hdr s)\<rparr>))
          (\<lambda>_. ret CHECK_RESULT_REPAIRED))))"

definition hdr_repair :: "check_result pcheck" where
  "hdr_repair =
     or_return hdr_pool_type
     (andthen hdr_defaults (\<lambda>_.
      andthen hdr_uuid_from_btt (\<lambda>_.
      andthen (gets hdr_checksum_ok) (\<lambda>ok.
      if \<not> ok then hdr_regenerate else ret CHECK_RESULT_REPAIRED))))"

definition pmempool_check_pool_hdr :: "check_result pcheck" where
  "pmempool_check_pool_hdr =
     andthen (pc_pread POOL_HDR_SIZE 0) (\<lambda>bs.
     andthen (update (pc_hdr_update (fill_buf bs))) (\<lambda>_.
     if length bs \<noteq> POOL_HDR_SIZE then ret CHECK_RESULT_ERROR
     else
       andthen (gets id) (\<lambda>s.
       if \<not> util_check_memory (pc_pool s) 0 then
         if hdr_checksum_ok s then ret CHECK_RESULT_CONSISTENT
         else if \<not> pc_repair s then ret CHECK_RESULT_NOT_CONSISTENT
         else hdr_repair
       else if \<not> pc_repair s then ret CHECK_RESULT_NOT_CONSISTENT
       else hdr_repair)))"

section \<open>The log and block pool headers\<close>

text \<open>The part of the structure behind the pool header; false when the file is too short.\<close>

definition read_tail :: "nat \<Rightarrow> bool pcheck" where
  "read_tail sz =
     andthen (pc_pread (sz - POOL_HDR_SIZE) (of_nat POOL_HDR_SIZE)) (\<lambda>bs.
     andthen (hdr_put POOL_HDR_SIZE bs) (\<lambda>_.
     ret (length bs = sz - POOL_HDR_SIZE)))"

definition pmempool_check_read_pmemlog :: "bool pcheck" where
  "pmempool_check_read_pmemlog = read_tail (unat SIZEOF_PMEMLOG)"

definition pmempool_check_read_pmemblk :: "bool pcheck" where
  "pmempool_check_read_pmemblk = read_tail (unat SIZEOF_PMEMBLK)"

text \<open>One offset of the log header: \<open>Some\<close> is an early return, \<open>None\<close> carries on.\<close>

definition log_fix :: "nat \<Rightarrow> bool \<Rightarrow> u64 \<Rightarrow> check_result \<Rightarrow> (check_result + check_result) pcheck" where
  "log_fix off bad v res =
     (if \<not> bad then ret (Inr res)
      else
        andthen (gets pc_repair) (\<lambda>repair.
        if \<not> repair then ret (Inl CHECK_RESULT_NOT_CONSISTENT)
        else
          andthen pc_ask (\<lambda>c.
          if c = CHR ''y'' then andthen (hdr_put off (le_enc 8 v)) (\<lambda>_. ret (Inr CHECK_RESULT_REPAIRED))
          else ret (Inl CHECK_RESULT_CANNOT_REPAIR))))"

definition with_log_fix :: "nat \<Rightarrow> (u64 \<Rightarrow> bool) \<Rightarrow> u64 \<Rightarrow> check_result \<Rightarrow> (check_result \<Rightarrow> check_result pcheck) \<Rightarrow>
    check_result pcheck" where
  "with_log_fix off bad v res k =
     andthen (gets (\<lambda>s. bad (le_at 8 (pc_hdr s) off))) (\<lambda>b.
     andthen (log_fix off b v res) (\<lambda>r. case r of Inl x \<Rightarrow> ret x | Inr res' \<Rightarrow> k res'))"

definition pmempool_check_pmemlog :: "check_result pcheck" where
  "pmempool_check_pmemlog =
     andthen pmempool_check_read_pmemlog (\<lambda>ok.
     if \<not> ok then ret CHECK_RESULT_ERROR
     else
       andthen (gets (\<lambda>s. of_nat (file_size (pc_file s)))) (\<lambda>st_size.
       with_log_fix LOG_START_OFF (\<lambda>x. x \<noteq> LOG_DATA_OFF) LOG_DATA_OFF CHECK_RESULT_CONSISTENT (\<lambda>r1.
       with_log_fix LOG_END_OFF (\<lambda>x. x \<noteq> st_size) st_size r1 (\<lambda>r2.
       with_log_fix LOG_WRITE_OFF (\<lambda>x. x < LOG_DATA_OFF \<or> st_size < x) st_size r2 ret))))"

definition pmempool_check_pmemblk :: "check_result pcheck" where
  "pmempool_check_pmemblk =
     andthen pmempool_check_read_pmemblk (\<lambda>ok.
     if \<not> ok then ret CHECK_RESULT_ERROR
     else
       andthen (gets (\<lambda>s. ta_valid (pc_bttc s))) (\<lambda>valid.
       andthen (if valid then ret True else pmempool_check_get_first_valid_arena) (\<lambda>_.
       andthen (gets id) (\<lambda>s.
       let bsize = le_at 4 (pc_hdr s) BLK_BSIZE_OFF; btt_bsize = info_external_lbasize (tinfo (pc_bttc s)) in
       if ta_valid (pc_bttc s) then
         if bsize \<noteq> btt_bsize then
           if pc_repair s then
             andthen pc_ask (\<lambda>c.
             if c = CHR ''y'' then andthen (hdr_put BLK_BSIZE_OFF (le_enc 4 btt_bsize)) (\<lambda>_. ret CHECK_RESULT_REPAIRED)
             else ret CHECK_RESULT_CANNOT_REPAIR)
           else ret CHECK_RESULT_NOT_CONSISTENT
         else ret CHECK_RESULT_CONSISTENT
       else if bsize < BTT_MIN_LBA_SIZE \<or> \<not> util_check_bsize bsize (of_nat (file_size (pc_file s)))
       then ret CHECK_RESULT_CANNOT_REPAIR
       else ret CHECK_RESULT_CONSISTENT))))"

section \<open>The arena info blocks\<close>

definition pmempool_check_check_btt :: "byte list \<Rightarrow> int" where
  "pmempool_check_check_btt infop =
     (if info_sig (info_of_bytes infop) = Sig
      then (if fst (util_checksum infop BTT_INFO_CSUM False) then 1 else 0)
      else - 1)"

text \<open>
  \<open>mmap\<close> refuses an empty or an impossible length and an offset that is not a multiple of
  the page size.
\<close>

definition mmap_refuses :: "u64 \<Rightarrow> u64 \<Rightarrow> bool" where
  "mmap_refuses len off \<longleftrightarrow> len = 0 \<or> 2 ^ 47 \<le> unat len \<or> unat off mod 4096 \<noteq> 0"

text \<open>The loop that adds the new arenas to the list; the value is the offset of the last one.\<close>

fun add_arenas :: "nat \<Rightarrow> mem \<Rightarrow> u64 \<Rightarrow> u64 \<Rightarrow> u64 option pcheck" where
  "add_arenas 0 area start offset = stuck"
| "add_arenas (Suc n) area start offset =
     (let infop = mem_read area (unat offset) 4096; noff = info_nextoff (info_of_bytes infop) in
      if pmempool_check_check_btt infop \<noteq> 1 then ret None
      else
        andthen (gets (\<lambda>s. length (pc_arenas s))) (\<lambda>k.
        andthen (pmempool_check_insert_arena (zero_tarena\<lparr>ta_offset := offset + start, ta_valid := True,
            ta_id := of_nat k, ta_info := infop\<rparr>)) (\<lambda>_.
        if 0 < noff then add_arenas n area start (offset + noff) else ret (Some offset))))"

text \<open>
  Between two valid arenas the last new one gets the offset of its successor.
\<close>

definition link_last :: "u64 \<Rightarrow> u64 \<Rightarrow> u64 \<Rightarrow> bool pcheck" where
  "link_last start offset endoff s =
     (let a = last (pc_arenas s);
          noff = endoff - (start + offset);
          bs = with_csum BTT_INFO_CSUM (splice 64 (le_enc 8 noff) (ta_info a)) in
      if noff \<noteq> info_infooff (tinfo a) + 4096 then (Ok False, s)
      else (Ok True, s\<lparr>pc_arenas := butlast (pc_arenas s) @ [a\<lparr>ta_info := bs\<rparr>]\<rparr>))"

text \<open>
  The whole area is mapped, shared with the file only when the repair is executed.  The block
  that \<open>btt_write\<close> writes is the beginning of the area.
\<close>

definition pmempool_check_btt_info_advanced_repair :: "u64 \<Rightarrow> u64 \<Rightarrow> bool pcheck" where
  "pmempool_check_btt_info_advanced_repair start endoff0 s =
     (let eof = (endoff0 = 0);
          endoff = (if eof then of_nat (file_size (pc_file s)) else endoff0);
          rsize = endoff - start;
          lbsize = le_at 4 (pc_hdr s) BLK_BSIZE_OFF;
          nsc = \<lparr>btc_area = (\<lambda>i. file_data (pc_file s) (unat start + i)), btc_len = rsize, btc_crashed = False\<rparr> in
      if mmap_refuses rsize start then (Ok False, s)
      else
        case btt_init rsize lbsize (hdr_uuid (hdr_of_bytes (pc_pool s))) (unat BTT_DEFAULT_NFREE) nsc
               pmempool_check_btt_ns_callback of
          (Err e, _) \<Rightarrow> (Ok False, s)
        | (Stuck, _) \<Rightarrow> (Stuck, s)
        | (Ok b, nsc') \<Rightarrow>
            (case btt_write 0 0 (mem_read (btc_area nsc') 0 (unat lbsize)) b of (r, b') \<Rightarrow>
               let area = btc_area (ns b');
                   s' = (if pc_repair s \<and> pc_exec s
                         then s\<lparr>pc_file := (pc_file s)\<lparr>file_data := (\<lambda>i.
                                if unat start \<le> i \<and> i < unat start + unat rsize then area (i - unat start)
                                else file_data (pc_file s) i)\<rparr>\<rparr>
                         else s) in
               if btc_crashed (ns b') then (Stuck, s')
               else
                 case r of
                   Err e \<Rightarrow> (Ok False, s')
                 | Stuck \<Rightarrow> (Stuck, s')
                 | Ok _ \<Rightarrow>
                     andthen (add_arenas (pc_room s) area start 0) (\<lambda>lst.
                     case lst of
                       None \<Rightarrow> ret False
                     | Some offset \<Rightarrow> if eof then ret True else link_last start offset endoff) s'))"

text \<open>
  The loop over the arenas.  The fuel is the number of arenas there is memory for: when it is used
  up, \<open>calloc\<close> fails and the command exits.  After the layout was written anew the source
  assigns \<open>CHECK_RESULT_REPAIRED\<close> to the inner variable \<open>ret\<close> and not to
  \<open>result\<close>.
\<close>

fun btt_info_loop :: "nat \<Rightarrow> u64 \<Rightarrow> check_result \<Rightarrow> check_result pcheck" where
  "btt_info_loop 0 offset result = stuck"
| "btt_info_loop (Suc n) offset result =
     (let next_arena = (\<lambda>noff result'. if 0 < noff then btt_info_loop n (offset + noff) result' else ret result');
          keep = (\<lambda>k bs. pmempool_check_insert_arena (zero_tarena\<lparr>ta_info := bs, ta_id := of_nat k,
                    ta_offset := offset, ta_valid := True\<rparr>)) in
      andthen (pc_pread 4096 offset) (\<lambda>bs.
      andthen (gets id) (\<lambda>s.
      if length bs \<noteq> 4096 then ret CHECK_RESULT_ERROR
      else if util_check_memory bs 0 then ret CHECK_RESULT_CONSISTENT_BREAK
      else if pmempool_check_check_btt bs = 1 then
        andthen (keep (length (pc_arenas s)) bs) (\<lambda>_. next_arena (info_nextoff (info_of_bytes bs)) result)
      else if \<not> pc_repair s then ret CHECK_RESULT_NOT_CONSISTENT
      else
        case pmempool_check_get_first_valid_btt (pc_file s) (ta_info (pc_bttc s)) (offset + BTT_MIN_SIZE - 4096) of
          (b_off, buf) \<Rightarrow>
            andthen (update (pc_bttc_update (ta_info_update (\<lambda>_. buf)))) (\<lambda>_.
            if b_off \<noteq> 0 \<and> offset + info_infooff (info_of_bytes buf) = b_off then
              andthen pc_ask (\<lambda>c.
              if c = CHR ''n'' then ret CHECK_RESULT_CANNOT_REPAIR
              else
                andthen (keep (length (pc_arenas s)) buf) (\<lambda>_.
                next_arena (info_nextoff (info_of_bytes buf)) CHECK_RESULT_REPAIRED))
            else
              andthen pc_ask (\<lambda>c.
              if c = CHR ''n'' then ret CHECK_RESULT_CANNOT_REPAIR
              else
                andthen (pmempool_check_btt_info_advanced_repair offset b_off) (\<lambda>ok.
                if \<not> ok then ret CHECK_RESULT_CANNOT_REPAIR
                else next_arena (if b_off \<noteq> 0 then b_off - offset else 0) result))))))"

definition pmempool_check_btt_info :: "check_result pcheck" where
  "pmempool_check_btt_info =
     andthen (gets pc_room) (\<lambda>n. btt_info_loop n (2 * BTT_ALIGNMENT) CHECK_RESULT_CONSISTENT)"

section \<open>Maps and flogs\<close>

text \<open>The lists of numbers: the counter is the length, and the first element is popped by pattern matching.\<close>

definition list_insert :: "u32 list \<Rightarrow> u32 \<Rightarrow> u32 list" where
  "list_insert l val = val # l"

definition pmempool_check_check_flog :: "btt_flog \<Rightarrow> btt_flog \<Rightarrow> btt_flog option" where
  "pmempool_check_check_flog flog_alpha flog_beta =
     (let seqc = ucast (push_bit 4 (flog_seq flog_alpha AND 0xf) OR (flog_seq flog_beta AND 0xf)) :: byte in
      if seqc = 0x10 \<or> seqc = 0x21 then Some flog_alpha
      else if seqc = 0x01 \<or> seqc = 0x12 then Some flog_beta
      else None)"

definition pmempool_check_write_flog :: "tarena \<Rightarrow> bool pcheck" where
  "pmempool_check_write_flog a =
     (case ta_flog a of
        None \<Rightarrow> ret False
      | Some flog \<Rightarrow>
          andthen (pc_pwrite flog (ta_offset a + info_flogoff (tinfo a))) (\<lambda>_.
          andthen io_ok (\<lambda>_. ret True)))"

definition flog_area_size :: "u32 \<Rightarrow> u64" where
  "flog_area_size n = roundup (ucast n * roundup (2 * 16) BTT_FLOG_PAIR_ALIGN) BTT_ALIGNMENT"

definition pmempool_check_read_flog :: "pfile \<Rightarrow> tarena \<Rightarrow> bool \<times> tarena" where
  "pmempool_check_read_flog f a =
     (let flogsize = unat (flog_area_size (info_nfree (tinfo a)));
          bs = pread f flogsize (ta_offset a + info_flogoff (tinfo a)) in
      (length bs = flogsize, a\<lparr>ta_flog := Some bs\<rparr>))"

definition pmempool_check_write_map :: "tarena \<Rightarrow> bool pcheck" where
  "pmempool_check_write_map a =
     (case ta_map a of
        None \<Rightarrow> ret False
      | Some mp \<Rightarrow>
          andthen (pc_pwrite mp (ta_offset a + info_mapoff (tinfo a))) (\<lambda>ok1.
          andthen io_ok (\<lambda>ok2. ret (ok1 \<and> ok2))))"

definition map_area_size :: "u32 \<Rightarrow> u32" where
  "map_area_size n = roundup (n * BTT_MAP_ENTRY_SIZE) (ucast BTT_ALIGNMENT)"

definition pmempool_check_read_map :: "pfile \<Rightarrow> tarena \<Rightarrow> bool \<times> tarena" where
  "pmempool_check_read_map f a =
     (let mapsize = unat (map_area_size (info_external_nlba (tinfo a)));
          bs = pread f mapsize (ta_offset a + info_mapoff (tinfo a)) in
      (length bs = mapsize, a\<lparr>ta_map := Some bs\<rparr>))"

definition map_entry_block :: "byte list \<Rightarrow> nat \<Rightarrow> u32" where
  "map_entry_block mp i =
     (let entry = le_at 4 mp (4 * i) in
      if entry AND NOT BTT_MAP_ENTRY_LBA_MASK = 0 then of_nat i else entry_lba entry)"

text \<open>The three scans; \<open>None\<close> is an access outside the map or the bitmap.\<close>

fun scan_map :: "byte list \<Rightarrow> u32 \<Rightarrow> nat list \<Rightarrow> bool list \<times> u32 list \<Rightarrow> (bool list \<times> u32 list) option" where
  "scan_map mp inlba [] acc = Some acc"
| "scan_map mp inlba (i # is) (bitmap, inval) =
     (if length mp < 4 * i + 4 then None
      else
        let entry = map_entry_block mp i in
        if entry < inlba then
          if length bitmap \<le> unat entry then None
          else if bitmap ! unat entry then scan_map mp inlba is (bitmap, list_insert inval (of_nat i))
          else scan_map mp inlba is (bitmap[unat entry := True], inval)
        else scan_map mp inlba is (bitmap, list_insert inval (of_nat i)))"

definition flog_pair_cur :: "byte list \<Rightarrow> nat \<Rightarrow> btt_flog option" where
  "flog_pair_cur flog i = pmempool_check_check_flog (flog_at flog (64 * i)) (flog_at flog (64 * i + 16))"

fun scan_flog :: "byte list \<Rightarrow> nat list \<Rightarrow> bool list \<times> u32 list \<Rightarrow> (bool list \<times> u32 list) option" where
  "scan_flog flog [] acc = Some acc"
| "scan_flog flog (i # is) (bitmap, inval) =
     (case flog_pair_cur flog i of
        Some flog_cur \<Rightarrow>
          let entry = entry_lba (flog_old_map flog_cur) in
          if length bitmap \<le> unat entry then None
          else if bitmap ! unat entry then scan_flog flog is (bitmap, list_insert inval (of_nat i))
          else scan_flog flog is (bitmap[unat entry := True], inval)
      | None \<Rightarrow> scan_flog flog is (bitmap, list_insert inval (of_nat i)))"

fun scan_unmap :: "bool list \<Rightarrow> nat list \<Rightarrow> u32 list \<Rightarrow> u32 list option" where
  "scan_unmap bitmap [] unmap = Some unmap"
| "scan_unmap bitmap (i # is) unmap =
     (if length bitmap \<le> i then None
      else scan_unmap bitmap is (if bitmap ! i then unmap else list_insert unmap (of_nat i)))"

text \<open>
  The two repair loops: the area, the unmapped blocks that are left, and whether there was one for
  every invalid entry.
\<close>

fun repair_map :: "byte list \<Rightarrow> u32 list \<Rightarrow> u32 list \<Rightarrow> byte list \<times> u32 list \<times> bool" where
  "repair_map mp [] unmap = (mp, unmap, True)"
| "repair_map mp (i # inval) [] = (mp, [], False)"
| "repair_map mp (i # inval) (u # unmap) =
     repair_map (splice (4 * unat i) (le_enc 4 (u OR BTT_MAP_ENTRY_ERROR)) mp) inval unmap"

definition flog_put :: "byte list \<Rightarrow> nat \<Rightarrow> u32 \<Rightarrow> byte list" where
  "flog_put flog i u =
     (let entry = u OR BTT_MAP_ENTRY_ERROR in
      splice (64 * i) (bytes_of_flog \<lparr>flog_lba = 0, flog_old_map = entry, flog_new_map = entry, flog_seq = 1\<rparr>)
        (splice (64 * i + 16) (replicate 16 0) flog))"

fun repair_flog :: "byte list \<Rightarrow> u32 list \<Rightarrow> u32 list \<Rightarrow> byte list \<times> u32 list \<times> bool" where
  "repair_flog flog [] unmap = (flog, unmap, True)"
| "repair_flog flog (i # inval) [] = (flog, [], False)"
| "repair_flog flog (i # inval) (u # unmap) = repair_flog (flog_put flog (unat i) u) inval unmap"

text \<open>
  One arena.  The C function goes through the pointer into the list of arenas; here the arena is
  given by its position.  The result 0 is \<open>CHECK_RESULT_CONSISTENT\<close>, also after a repair.
\<close>

definition repair_arena :: "tarena \<Rightarrow> byte list \<Rightarrow> byte list \<Rightarrow> u32 list \<Rightarrow> u32 list \<Rightarrow> u32 list \<Rightarrow>
    check_result \<times> tarena" where
  "repair_arena a mp flog inval flog_inval unmap =
     (case repair_map mp inval unmap of
        (mp', unmap', ok) \<Rightarrow>
          if \<not> ok then (CHECK_RESULT_ERROR, a\<lparr>ta_map := Some mp'\<rparr>)
          else
            case repair_flog flog flog_inval unmap' of
              (flog', _, ok') \<Rightarrow>
                (if ok' then CHECK_RESULT_CONSISTENT else CHECK_RESULT_ERROR,
                 a\<lparr>ta_map := Some mp', ta_flog := Some flog'\<rparr>))"

text \<open>The bitmap and the lists of invalid map entries, invalid flog entries and unmapped blocks.\<close>

definition arena_scan :: "btt_info \<Rightarrow> byte list \<Rightarrow> byte list \<Rightarrow> (u32 list \<times> u32 list \<times> u32 list) option" where
  "arena_scan info mp flog =
     (let bitmapsize = (info_internal_nlba info + 7) div 8 in
      case scan_map mp (info_internal_nlba info) [0..<unat (info_external_nlba info)]
             (replicate (8 * unat bitmapsize) False, []) of
        None \<Rightarrow> None
      | Some (bitmap1, inval) \<Rightarrow>
          (case scan_flog flog [0..<unat (info_nfree info)] (bitmap1, []) of
             None \<Rightarrow> None
           | Some (bitmap2, flog_inval) \<Rightarrow>
               map_option (\<lambda>unmap. (inval, flog_inval, unmap))
                 (scan_unmap bitmap2 [0..<unat (info_internal_nlba info)] [])))"

definition ask_unless_empty :: "u32 list \<Rightarrow> bool pcheck" where
  "ask_unless_empty l = (if l = [] then ret True else andthen pc_ask (\<lambda>c. ret (c \<noteq> CHR ''n'')))"

definition set_arena :: "nat \<Rightarrow> tarena \<Rightarrow> unit pcheck" where
  "set_arena k a = update (pc_arenas_update (\<lambda>as. as[k := a]))"

definition pmempool_check_arena_map_flog :: "nat \<Rightarrow> check_result pcheck" where
  "pmempool_check_arena_map_flog k =
     andthen (gets id) (\<lambda>s.
     case pmempool_check_read_flog (pc_file s) (pc_arenas s ! k) of (ok1, a1) \<Rightarrow>
     if \<not> ok1 then andthen (set_arena k a1) (\<lambda>_. ret CHECK_RESULT_ERROR)
     else
       case pmempool_check_read_map (pc_file s) a1 of (ok2, a) \<Rightarrow>
       andthen (set_arena k a) (\<lambda>_.
       if \<not> ok2 then ret CHECK_RESULT_ERROR
       else
         let mp = the (ta_map a); flog = the (ta_flog a) in
         case arena_scan (tinfo a) mp flog of
           None \<Rightarrow> stuck
         | Some (inval, flog_inval, unmap) \<Rightarrow>
             if \<not> pc_repair s \<and> 0 < length unmap then ret CHECK_RESULT_NOT_CONSISTENT
             else if length unmap \<noteq> length inval + length flog_inval then ret CHECK_RESULT_CANNOT_REPAIR
             else
               andthen (ask_unless_empty inval) (\<lambda>yes1.
               if \<not> yes1 then ret CHECK_RESULT_CANNOT_REPAIR
               else
                 andthen (ask_unless_empty flog_inval) (\<lambda>yes2.
                 if \<not> yes2 then ret CHECK_RESULT_CANNOT_REPAIR
                 else
                   case repair_arena a mp flog inval flog_inval unmap of (res, a') \<Rightarrow>
                   andthen (set_arena k a') (\<lambda>_. ret res)))))"

text \<open>The loop stops at the first arena whose result is not \<open>CHECK_RESULT_CONSISTENT\<close>.\<close>

fun map_flog_loop :: "nat list \<Rightarrow> check_result \<Rightarrow> check_result pcheck" where
  "map_flog_loop [] res = ret res"
| "map_flog_loop (k # ks) res =
     andthen (pmempool_check_arena_map_flog k) (\<lambda>res'.
     if res' \<noteq> CHECK_RESULT_CONSISTENT then ret res' else map_flog_loop ks res')"

definition pmempool_check_btt_map_flog :: "check_result pcheck" where
  "pmempool_check_btt_map_flog =
     andthen (gets (\<lambda>s. length (pc_arenas s))) (\<lambda>n. map_flog_loop [0..<n] CHECK_RESULT_ERROR)"

section \<open>Writing what was repaired\<close>

definition pmempool_check_write_log :: "check_result pcheck" where
  "pmempool_check_write_log =
     andthen (gets id) (\<lambda>s.
     if \<not> pc_repair s \<or> \<not> pc_exec s then ret CHECK_RESULT_CONSISTENT
     else
       andthen (pc_pwrite (take (unat SIZEOF_PMEMLOG) (pc_hdr s)) 0) (\<lambda>ok1.
       andthen io_ok (\<lambda>ok2.
       ret (if ok1 \<and> ok2 then CHECK_RESULT_CONSISTENT else CHECK_RESULT_OTHER))))"

text \<open>One arena: the info block with the new UUID, its backup, the flog and the map.\<close>

definition written_info :: "pmempool_check \<Rightarrow> tarena \<Rightarrow> byte list" where
  "written_info s a =
     (if pc_uuid_op s = UUID_REGENERATED
      then with_csum BTT_INFO_CSUM (splice 16 (hdr_uuid (hdr_of_bytes (pc_pool s))) (ta_info a))
      else ta_info a)"

definition write_blk_arena :: "nat \<Rightarrow> bool pcheck" where
  "write_blk_arena k =
     andthen (update (\<lambda>s. s\<lparr>pc_arenas := (pc_arenas s)[k := (pc_arenas s ! k)\<lparr>ta_info := written_info s (pc_arenas s ! k)\<rparr>]\<rparr>)) (\<lambda>_.
     andthen (gets (\<lambda>s. pc_arenas s ! k)) (\<lambda>a.
     andthen (pc_pwrite (ta_info a) (ta_offset a)) (\<lambda>ok.
     if \<not> ok then ret False
     else
       andthen (pc_pwrite (ta_info a) (ta_offset a + info_infooff (tinfo a))) (\<lambda>_.
       andthen (pmempool_check_write_flog a) (\<lambda>ok1.
       if \<not> ok1 then ret False else pmempool_check_write_map a)))))"

fun write_blk_loop :: "nat list \<Rightarrow> bool pcheck" where
  "write_blk_loop [] = ret True"
| "write_blk_loop (k # ks) = andthen (write_blk_arena k) (\<lambda>ok. if ok then write_blk_loop ks else ret False)"

definition pmempool_check_write_blk :: "check_result pcheck" where
  "pmempool_check_write_blk =
     andthen (gets id) (\<lambda>s.
     if \<not> pc_repair s \<or> \<not> pc_exec s then ret CHECK_RESULT_CONSISTENT
     else
       andthen (pc_pwrite (take (unat SIZEOF_PMEMBLK) (pc_hdr s)) 0) (\<lambda>ok.
       if \<not> ok then ret CHECK_RESULT_OTHER
       else
         andthen (write_blk_loop [0..<length (pc_arenas s)]) (\<lambda>ok1.
         if \<not> ok1 then ret CHECK_RESULT_OTHER
         else andthen io_ok (\<lambda>ok2. ret (if ok2 then CHECK_RESULT_CONSISTENT else CHECK_RESULT_OTHER)))))"

section \<open>The steps\<close>

text \<open>The pool types of a step, as the bits of the enumeration.\<close>

fun type_bits :: "pmem_pool_type \<Rightarrow> byte" where
  "type_bits PMEM_POOL_TYPE_NONE = 0"
| "type_bits PMEM_POOL_TYPE_LOG = 1"
| "type_bits PMEM_POOL_TYPE_BLK = 2"
| "type_bits PMEM_POOL_TYPE_OBJ = 4"
| "type_bits PMEM_POOL_TYPE_ALL = 0x0f"
| "type_bits PMEM_POOL_TYPE_UNKNOWN = 0x80"

type_synonym check_step = "byte \<times> check_result pcheck"

definition pmempool_check_steps :: "check_step list" where
  "pmempool_check_steps =
     [(type_bits PMEM_POOL_TYPE_ALL OR type_bits PMEM_POOL_TYPE_UNKNOWN, pmempool_check_pool_hdr),
      (type_bits PMEM_POOL_TYPE_LOG, pmempool_check_pmemlog),
      (type_bits PMEM_POOL_TYPE_BLK, pmempool_check_pmemblk),
      (type_bits PMEM_POOL_TYPE_BLK, pmempool_check_btt_info),
      (type_bits PMEM_POOL_TYPE_BLK, pmempool_check_btt_map_flog),
      (type_bits PMEM_POOL_TYPE_LOG, pmempool_check_write_log),
      (type_bits PMEM_POOL_TYPE_BLK, pmempool_check_write_blk)]"

text \<open>Whether to stop, and the result so far.\<close>

definition pmempool_check_single_step :: "check_step \<Rightarrow> check_result \<Rightarrow> (bool \<times> check_result) pcheck" where
  "pmempool_check_single_step step res =
     andthen (gets id) (\<lambda>s0.
     if fst step AND type_bits (pc_ptype s0) = 0 then ret (False, res)
     else
       andthen (snd step) (\<lambda>r.
       andthen (gets pc_repair) (\<lambda>repair.
       ret (case r of
              CHECK_RESULT_CONSISTENT \<Rightarrow> (False, res)
            | CHECK_RESULT_REPAIRED \<Rightarrow> (False, r)
            | CHECK_RESULT_NOT_CONSISTENT \<Rightarrow> (\<not> repair, r)
            | CHECK_RESULT_CONSISTENT_BREAK \<Rightarrow> (True, r)
            | CHECK_RESULT_CANNOT_REPAIR \<Rightarrow> (True, r)
            | CHECK_RESULT_ERROR \<Rightarrow> (True, r)
            | CHECK_RESULT_OTHER \<Rightarrow> (True, res)))))"

fun run_steps :: "check_step list \<Rightarrow> check_result \<Rightarrow> check_result pcheck" where
  "run_steps [] res = ret res"
| "run_steps (st # sts) res =
     andthen (pmempool_check_single_step st res) (\<lambda>(stop, res'). if stop then ret res' else run_steps sts res')"

text \<open>
  All the steps, with the backup before them.  \<open>can_open\<close> says whether the file can be opened
  for the access the command needs.
\<close>

definition pmempool_check_all_steps :: "(string \<Rightarrow> bool) \<Rightarrow> (string \<Rightarrow> bool) \<Rightarrow> string \<Rightarrow> pmempool_check \<Rightarrow> fs \<Rightarrow>
    check_result outcome \<times> pmempool_check \<times> fs" where
  "pmempool_check_all_steps can_create can_open fname pc fs =
     (case (if pc_repair pc \<and> pc_backup pc then pmempool_check_create_backup can_create fname fs
            else (Ok True, fs)) of
        (Err e, fs1) \<Rightarrow> (Err e, pc, fs1)
      | (Stuck, fs1) \<Rightarrow> (Stuck, pc, fs1)
      | (Ok False, fs1) \<Rightarrow> (Ok CHECK_RESULT_OTHER, pc, fs1)
      | (Ok True, fs1) \<Rightarrow>
          (case fs1 fname of
             None \<Rightarrow> (Ok CHECK_RESULT_OTHER, pc, fs1)
           | Some f \<Rightarrow>
               if \<not> can_open fname then (Ok CHECK_RESULT_OTHER, pc, fs1)
               else
                 case run_steps pmempool_check_steps CHECK_RESULT_CONSISTENT (pc\<lparr>pc_file := f\<rparr>) of
                   (r, pc') \<Rightarrow> (r, pc', fs1(fname \<mapsto> pc_file pc'))))"

text \<open>
  The arguments: what \<open>getopt_long\<close> reports, with \<open>optopt\<close>, in its order, and the
  first operand; \<open>Inl\<close> is the status the command exits with.
\<close>

definition parse_opt :: "char \<times> char \<Rightarrow> pmempool_check \<Rightarrow> int + pmempool_check" where
  "parse_opt opt pc =
     (case opt of (c, optopt) \<Rightarrow>
      if c = CHR ''r'' then Inr (pc\<lparr>pc_repair := True\<rparr>)
      else if c = CHR ''y'' then Inr (pc\<lparr>pc_ans := CHR ''y''\<rparr>)
      else if c = CHR ''N'' then Inr (pc\<lparr>pc_exec := False\<rparr>)
      else if c = CHR ''b'' then Inr (pc\<lparr>pc_backup := True\<rparr>)
      else if c = CHR ''q'' \<or> c = CHR ''v'' then Inr pc
      else if c = CHR ''?'' \<and> optopt = CHR 0x00 then Inl 0
      else Inl 1)"

fun parse_opts :: "(char \<times> char) list \<Rightarrow> pmempool_check \<Rightarrow> int + pmempool_check" where
  "parse_opts [] pc = Inr pc"
| "parse_opts (opt # opts) pc = (case parse_opt opt pc of Inl e \<Rightarrow> Inl e | Inr pc' \<Rightarrow> parse_opts opts pc')"

definition pmempool_check_parse_args :: "(char \<times> char) list \<Rightarrow> string option \<Rightarrow> pmempool_check \<Rightarrow>
    int + (pmempool_check \<times> string)" where
  "pmempool_check_parse_args opts operand pc =
     (case parse_opts opts pc of
        Inl e \<Rightarrow> Inl e
      | Inr pc' \<Rightarrow>
          (case operand of
             None \<Rightarrow> Inl 1
           | Some fname \<Rightarrow>
               if \<not> pc_repair pc' \<and> \<not> pc_exec pc' then Inl 1
               else if \<not> pc_repair pc' \<and> pc_backup pc' then Inl 1
               else Inr (pc', fname)))"

text \<open>What the environment gives the command, and the state it starts from.\<close>

record check_env =
  ce_mtime :: u64
  ce_stdin :: string
  ce_uuid :: "byte list"
  ce_io :: "bool list"
  ce_room :: nat
  ce_can_create :: "string \<Rightarrow> bool"
  ce_can_open :: "string \<Rightarrow> bool"

definition pmempool_check_default :: "check_env \<Rightarrow> pmempool_check" where
  "pmempool_check_default env = \<lparr>pc_repair = False, pc_backup = False, pc_exec = True,
     pc_ptype = PMEM_POOL_TYPE_UNKNOWN, pc_hdr = replicate (unat SIZEOF_PMEMBLK) 0, pc_uuid_op = UUID_NOP,
     pc_bttc = zero_tarena, pc_arenas = [], pc_ans = CHR ''?'', pc_file = \<lparr>file_size = 0, file_data = (\<lambda>_. 0)\<rparr>,
     pc_mtime = ce_mtime env, pc_stdin = ce_stdin env, pc_uuid = ce_uuid env, pc_io = ce_io env,
     pc_room = ce_room env\<rparr>"

text \<open>
  The exit status of the switch.  The value -1 has no case, so \<open>ret\<close> keeps the 0 it had after
  the arguments were parsed.
\<close>

definition result_status :: "check_result \<Rightarrow> int" where
  "result_status res =
     (case res of
        CHECK_RESULT_CONSISTENT \<Rightarrow> 0
      | CHECK_RESULT_CONSISTENT_BREAK \<Rightarrow> 0
      | CHECK_RESULT_NOT_CONSISTENT \<Rightarrow> - 1
      | CHECK_RESULT_REPAIRED \<Rightarrow> 0
      | CHECK_RESULT_CANNOT_REPAIR \<Rightarrow> - 1
      | CHECK_RESULT_ERROR \<Rightarrow> - 1
      | CHECK_RESULT_OTHER \<Rightarrow> 0)"

definition pmempool_check_func :: "check_env \<Rightarrow> (char \<times> char) list \<Rightarrow> string option \<Rightarrow> fs \<Rightarrow> int outcome \<times> fs" where
  "pmempool_check_func env opts operand fs =
     (case pmempool_check_parse_args opts operand (pmempool_check_default env) of
        Inl e \<Rightarrow> (Ok e, fs)
      | Inr (pc, fname) \<Rightarrow>
          let ptype = fst (pmem_pool_parse_params fs fname) in
          if ptype = PMEM_POOL_TYPE_NONE then (Ok (- 1), fs)
          else
            case pmempool_check_all_steps (ce_can_create env) (ce_can_open env) fname (pc\<lparr>pc_ptype := ptype\<rparr>) fs of
              (Ok res, pc', fs') \<Rightarrow> (Ok (result_status res), fs')
            | (Err e, pc', fs') \<Rightarrow> (Err e, fs')
            | (Stuck, pc', fs') \<Rightarrow> (Stuck, fs'))"

end
