(* ===== verification/Tool_Check_Props.thy ===== *)
theory Tool_Check_Props
  imports Tool_Check
begin

text \<open>
  What every step of \<open>pmempool check\<close> keeps: a small logic of predicates that programs preserve, and
  with it that a dry run changes no file.
\<close>

section \<open>What a step keeps\<close>

definition keeps :: "('s \<Rightarrow> bool) \<Rightarrow> ('s, 'a) prog \<Rightarrow> bool" where
  "keeps P p \<longleftrightarrow> (\<forall>s. P s \<longrightarrow> P (snd (p s)))"

named_theorems keeps_rules \<open>which programs keep a predicate on the state\<close>

lemma keepsD: "keeps P p \<Longrightarrow> P s \<Longrightarrow> P (snd (p s))"
  by (simp add: keeps_def)

lemma keeps_simple [keeps_rules]:
  "keeps P (ret x)" "keeps P (fail e)" "keeps P stuck" "keeps P (gets g)" "keeps P (assert b)"
  by (simp_all add: keeps_def prog_simps)

lemma keeps_andthen [keeps_rules]: "keeps P p \<Longrightarrow> (\<And>x. keeps P (f x)) \<Longrightarrow> keeps P (andthen p f)"
  by (fastforce simp: keeps_def andthen_def split: prod.splits outcome.splits)

lemma keeps_gets: "(\<And>s. P s \<Longrightarrow> P (snd (f (g s) s))) \<Longrightarrow> keeps P (andthen (gets g) f)"
  by (simp add: keeps_def)

lemma keeps_update [keeps_rules]: "(\<And>s. P s \<Longrightarrow> P (g s)) \<Longrightarrow> keeps P (update g)"
  by (simp add: keeps_def update_def)

lemma keeps_if [keeps_rules]: "(b \<Longrightarrow> keeps P p) \<Longrightarrow> (\<not> b \<Longrightarrow> keeps P q) \<Longrightarrow> keeps P (if b then p else q)"
  by simp

lemma keeps_case [keeps_rules]:
  "(x = None \<Longrightarrow> keeps P p) \<Longrightarrow> (\<And>y. x = Some y \<Longrightarrow> keeps P (q y)) \<Longrightarrow> keeps P (case x of None \<Rightarrow> p | Some y \<Rightarrow> q y)"
  "(\<And>a b. z = (a, b) \<Longrightarrow> keeps P (h a b)) \<Longrightarrow> keeps P (case z of (a, b) \<Rightarrow> h a b)"
  "(\<And>a. w = Inl a \<Longrightarrow> keeps P (l a)) \<Longrightarrow> (\<And>b. w = Inr b \<Longrightarrow> keeps P (r b)) \<Longrightarrow>
   keeps P (case w of Inl a \<Rightarrow> l a | Inr b \<Rightarrow> r b)"
  by (auto split: option.split prod.split sum.split)

lemma keeps_Let [keeps_rules]: "(\<And>x. x = e \<Longrightarrow> keeps P (f x)) \<Longrightarrow> keeps P (Let e f)"
  by simp

section \<open>A dry run leaves the file alone\<close>

text \<open>No repair, or no execution of it, and the file is as it was.\<close>

definition dry :: "pfile \<Rightarrow> pmempool_check \<Rightarrow> bool" where
  "dry f s \<longleftrightarrow> pc_file s = f \<and> \<not> (pc_repair s \<and> pc_exec s)"

lemma dry_ask [keeps_rules]: "keeps (dry f) pc_ask"
  by (auto simp: keeps_def pc_ask_def dry_def split: prod.splits)

lemma dry_pread [keeps_rules]: "keeps (dry f) (pc_pread n off)"
  by (simp add: pc_pread_def keeps_rules)

lemma dry_hdr_put [keeps_rules]: "keeps (dry f) (hdr_put off new)"
  unfolding hdr_put_def by (intro keeps_rules) (simp add: dry_def)

lemma dry_first_arena [keeps_rules]: "keeps (dry f) pmempool_check_get_first_valid_arena"
  by (auto simp: keeps_def pmempool_check_get_first_valid_arena_def dry_def split: prod.splits)

lemma dry_insert [keeps_rules]: "keeps (dry f) (pmempool_check_insert_arena a)"
  unfolding pmempool_check_insert_arena_def by (intro keeps_rules) (simp add: dry_def)

lemma dry_set_arena [keeps_rules]: "keeps (dry f) (set_arena k a)"
  unfolding set_arena_def by (intro keeps_rules) (simp add: dry_def)

lemma dry_pool_hdr [keeps_rules]: "keeps (dry f) pmempool_check_pool_hdr"
  unfolding pmempool_check_pool_hdr_def hdr_repair_def hdr_regenerate_def hdr_uuid_step_def
    hdr_crtime_step_def hdr_uuid_from_btt_def hdr_defaults_def hdr_pool_type_def or_return_def
    fix_u32_def ask_put_def
  by (intro keeps_rules) (simp_all add: dry_def)

lemma dry_pmemlog [keeps_rules]: "keeps (dry f) pmempool_check_pmemlog"
  unfolding pmempool_check_pmemlog_def pmempool_check_read_pmemlog_def read_tail_def with_log_fix_def
    log_fix_def
  by (intro keeps_rules)

lemma dry_pmemblk [keeps_rules]: "keeps (dry f) pmempool_check_pmemblk"
  unfolding pmempool_check_pmemblk_def pmempool_check_read_pmemblk_def read_tail_def
  by (intro keeps_rules)

lemma dry_add_arenas [keeps_rules]: "keeps (dry f) (add_arenas n area start off)"
  by (induction n area start off rule: add_arenas.induct) (auto simp: Let_def intro!: keeps_rules)

lemma dry_link_last [keeps_rules]: "keeps (dry f) (link_last start off endoff)"
  by (auto simp: keeps_def link_last_def dry_def Let_def)

lemma dry_advanced [keeps_rules]: "keeps (dry f) (pmempool_check_btt_info_advanced_repair start endoff)"
proof (unfold keeps_def, intro allI impI)
  fix s assume s: "dry f s"
  have tail: "dry f (snd (andthen (add_arenas n area st off) k s))" if "\<And>x. keeps (dry f) (k x)" for n area st off k
    by (rule keepsD [where P = "dry f", OF _ s]) (intro keeps_rules that)
  have none: "\<not> (pc_repair s \<and> pc_exec s)" using s by (simp add: dry_def)
  show "dry f (snd (pmempool_check_btt_info_advanced_repair start endoff s))"
    unfolding pmempool_check_btt_info_advanced_repair_def Let_def if_not_P [OF none]
    using s by (auto split: prod.split outcome.split intro!: tail keeps_rules)
qed

lemma dry_btt_info [keeps_rules]: "keeps (dry f) pmempool_check_btt_info"
proof -
  have "keeps (dry f) (btt_info_loop n off res)" for n off res
    by (induction n arbitrary: off res)
      (auto simp: Let_def dry_def intro!: keeps_rules)
  then show ?thesis unfolding pmempool_check_btt_info_def by (intro keeps_rules)
qed

lemma dry_map_flog [keeps_rules]: "keeps (dry f) pmempool_check_btt_map_flog"
proof -
  have arena: "keeps (dry f) (pmempool_check_arena_map_flog k)" for k
    unfolding pmempool_check_arena_map_flog_def ask_unless_empty_def Let_def
    by (intro keeps_rules)
  have "keeps (dry f) (map_flog_loop ks res)" for ks res
    by (induction ks arbitrary: res) (auto intro!: keeps_rules arena)
  then show ?thesis unfolding pmempool_check_btt_map_flog_def by (intro keeps_rules)
qed

lemma dry_write [keeps_rules]: "keeps (dry f) pmempool_check_write_log" "keeps (dry f) pmempool_check_write_blk"
  unfolding pmempool_check_write_log_def pmempool_check_write_blk_def
  by (rule keeps_gets; auto simp: dry_def ret_def)+

lemma dry_steps: "keeps (dry f) (run_steps pmempool_check_steps res)"
proof -
  have "keeps (dry f) (run_steps sts res)" if "\<forall>st \<in> set sts. keeps (dry f) (snd st)" for sts res
    using that
    by (induction sts arbitrary: res)
      (auto simp: pmempool_check_single_step_def intro!: keeps_rules)
  note steps = this
  show ?thesis by (rule steps) (simp add: pmempool_check_steps_def keeps_rules)
qed

lemma parse_opt_flags:
  assumes "parse_opt opt pc = Inr pc'"
  shows "pc_repair pc' \<longleftrightarrow> pc_repair pc \<or> fst opt = CHR ''r''"
    and "pc_exec pc' \<longleftrightarrow> pc_exec pc \<and> fst opt \<noteq> CHR ''N''"
  using assms by (auto simp: parse_opt_def split: prod.splits if_splits)

lemma parse_opts_flags:
  "parse_opts opts pc = Inr pc' \<Longrightarrow>
   (pc_repair pc' \<longleftrightarrow> pc_repair pc \<or> CHR ''r'' \<in> fst ` set opts) \<and>
   (pc_exec pc' \<longleftrightarrow> pc_exec pc \<and> CHR ''N'' \<notin> fst ` set opts)"
proof (induction opts arbitrary: pc)
  case (Cons opt opts)
  then obtain pc1 where "parse_opt opt pc = Inr pc1" "parse_opts opts pc1 = Inr pc'"
    by (auto split: sum.splits)
  then show ?case using Cons.IH [of pc1] parse_opt_flags [of opt pc pc1] by auto
qed simp

lemma all_steps_dry:
  assumes "\<not> (pc_repair pc \<and> pc_exec pc)"
    and "pmempool_check_all_steps can_create can_open fname pc fs = (r, pc', fs')"
    and "p \<noteq> fname @ BACKUP_SUFFIX"
  shows "fs' p = fs p"
proof -
  have backup: "fs1 p = fs p \<and> fs1 fname = fs fname"
    if "pmempool_check_create_backup can_create fname fs = (r', fs1)" for r' fs1
    using that assms(3)
    by (auto simp: pmempool_check_create_backup_def pmempool_check_cp_def BACKUP_SUFFIX_def Let_def
        split: option.splits if_splits)
  have "pc_file (snd (run_steps pmempool_check_steps CHECK_RESULT_CONSISTENT (pc\<lparr>pc_file := f\<rparr>))) = f" for f
    using keepsD [OF dry_steps, of f "pc\<lparr>pc_file := f\<rparr>"] assms(1) by (simp add: dry_def)
  then have same: "pc_file s = f" if "run_steps pmempool_check_steps CHECK_RESULT_CONSISTENT (pc\<lparr>pc_file := f\<rparr>) = (r', s)" for f r' s
    using that by (metis snd_conv)
  show ?thesis
    using assms(2) unfolding pmempool_check_all_steps_def
    by (auto split: if_splits prod.splits outcome.splits bool.splits option.splits dest!: backup same)
qed

text \<open>
  C16 Without the option \<open>-r\<close>, or with \<open>-N\<close>, the command changes no file except the
  backup it may create, whatever the pool holds, whatever is answered and whether it ends or not.
\<close>

theorem check_dry_run:
  assumes "CHR ''r'' \<notin> fst ` set opts \<or> CHR ''N'' \<in> fst ` set opts"
    and "p \<noteq> fname @ BACKUP_SUFFIX"
  shows "snd (pmempool_check_func env opts (Some fname) fs) p = fs p"
proof (cases "pmempool_check_parse_args opts (Some fname) (pmempool_check_default env)")
  case (Inl e)
  then show ?thesis by (simp add: pmempool_check_func_def)
next
  case (Inr q)
  then obtain pc where pc: "parse_opts opts (pmempool_check_default env) = Inr pc" and q: "q = (pc, fname)"
    by (auto simp: pmempool_check_parse_args_def split: sum.splits if_splits)
  have dry: "\<not> (pc_repair pc \<and> pc_exec pc)"
    using parse_opts_flags [OF pc] assms(1) by (auto simp: pmempool_check_default_def)
  show ?thesis
    using Inr dry assms(2)
    by (auto simp: pmempool_check_func_def q Let_def split: prod.splits outcome.splits
        intro: all_steps_dry [rotated])
qed

theorem check_dry_run_witness:
  "\<forall>env fs. snd (pmempool_check_func env [(CHR ''r'', CHR 0x00), (CHR ''N'', CHR 0x00)] (Some ''pool'') fs) ''pool'' = fs ''pool''"
  using check_dry_run [of "[(CHR ''r'', CHR 0x00), (CHR ''N'', CHR 0x00)]" "''pool''" "''pool''"]
  by (simp add: BACKUP_SUFFIX_def)

end
