(* ===== verification/Tool_Repair.thy ===== *)
theory Tool_Repair
  imports Tool_Check
begin

text \<open>
  The repair of maps and flogs: the scans of \<open>pmempool_check_arena_map_flog\<close> as one generic
  scan, and what holds of the arena after the repair.
\<close>

section \<open>The scan of a column of block numbers\<close>

text \<open>
  \<open>key i\<close> is the block that entry \<open>i\<close> names, \<open>None\<close> when the entry is invalid.
\<close>

fun gscan :: "(nat \<Rightarrow> nat option) \<Rightarrow> nat list \<Rightarrow> bool list \<times> u32 list \<Rightarrow> (bool list \<times> u32 list) option" where
  "gscan key [] acc = Some acc"
| "gscan key (i # is) (bm, inval) =
     (case key i of
        None \<Rightarrow> gscan key is (bm, of_nat i # inval)
      | Some n \<Rightarrow>
          if length bm \<le> n then None
          else if bm ! n then gscan key is (bm, of_nat i # inval)
          else gscan key is (bm[n := True], inval))"

definition map_key :: "byte list \<Rightarrow> u32 \<Rightarrow> nat \<Rightarrow> nat option" where
  "map_key mp inlba i = (if map_entry_block mp i < inlba then Some (unat (map_entry_block mp i)) else None)"

definition flog_key :: "byte list \<Rightarrow> nat \<Rightarrow> nat option" where
  "flog_key flog i = map_option (\<lambda>c. unat (entry_lba (flog_old_map c))) (flog_pair_cur flog i)"

lemma scan_map_gscan:
  "scan_map mp inlba is acc = Some r \<longleftrightarrow>
   (\<forall>i \<in> set is. 4 * i + 4 \<le> length mp) \<and> gscan (map_key mp inlba) is acc = Some r"
  by (induction mp inlba "is" acc rule: scan_map.induct)
    (auto simp: map_key_def list_insert_def Let_def)

lemma scan_flog_gscan: "scan_flog flog is acc = gscan (flog_key flog) is acc"
  by (induction flog "is" acc rule: scan_flog.induct)
    (auto simp: flog_key_def list_insert_def Let_def split: option.splits)

lemma scan_unmap_filter:
  "scan_unmap bm is unmap = Some r \<longleftrightarrow>
   (\<forall>i \<in> set is. i < length bm) \<and> r = rev (map of_nat (filter (\<lambda>i. \<not> bm ! i) is)) @ unmap"
  by (induction bm "is" unmap rule: scan_unmap.induct) (auto simp: list_insert_def)

text \<open>
  The entries that the scan keeps name distinct blocks, not marked before; the others are listed in
  reverse order.
\<close>

definition marked :: "bool list \<Rightarrow> nat set" where
  "marked bm = {n. n < length bm \<and> bm ! n}"

lemma marked_update: "n < length bm \<Longrightarrow> marked (bm[n := True]) = insert n (marked bm)"
  by (auto simp: marked_def nth_list_update)

lemma gscan_spec:
  assumes "gscan key is (bm, inval) = Some (bm', inval')" and "distinct is"
  shows "\<exists>bad. inval' = rev (map of_nat bad) @ inval \<and> distinct bad \<and> set bad \<subseteq> set is
     \<and> length bm' = length bm
     \<and> (\<forall>i \<in> set is - set bad. \<exists>n. key i = Some n \<and> n < length bm \<and> \<not> bm ! n)
     \<and> inj_on key (set is - set bad)
     \<and> marked bm' = marked bm \<union> (the \<circ> key) ` (set is - set bad)"
  using assms
proof (induction "is" arbitrary: bm inval)
  case Nil
  then show ?case by (intro exI [of _ "[]"]) auto
next
  case (Cons i "is")
  show ?case
  proof (cases "\<exists>n. key i = Some n \<and> n < length bm \<and> \<not> bm ! n")
    case True
    then obtain n where n: "key i = Some n" "n < length bm" "\<not> bm ! n" by blast
    then have "gscan key is (bm[n := True], inval) = Some (bm', inval')" using Cons.prems by simp
    then obtain bad where bad: "inval' = rev (map of_nat bad) @ inval" "distinct bad" "set bad \<subseteq> set is"
        "length bm' = length bm"
        "\<forall>j \<in> set is - set bad. \<exists>m. key j = Some m \<and> m < length bm \<and> \<not> bm[n := True] ! m"
        "inj_on key (set is - set bad)"
        "marked bm' = marked (bm[n := True]) \<union> (the \<circ> key) ` (set is - set bad)"
      using Cons.IH Cons.prems(2) by fastforce
    let ?R = "insert i (set is - set bad)"
    have rest: "set (i # is) - set bad = ?R" and "i \<notin> set is" using bad(3) Cons.prems(2) by auto
    have fresh: "\<exists>m. key j = Some m \<and> m < length bm \<and> \<not> bm ! m \<and> m \<noteq> n" if "j \<in> set is - set bad" for j
      using bad(5) that n(2) by (force simp: nth_list_update split: if_splits)
    then have "key i \<notin> key ` (set is - set bad)" using n(1) by fastforce
    then have inj: "inj_on key ?R" using bad(6) by auto
    have "\<forall>j \<in> ?R. \<exists>m. key j = Some m \<and> m < length bm \<and> \<not> bm ! m" using n fresh by blast
    moreover have "marked bm' = marked bm \<union> (the \<circ> key) ` ?R"
      using bad(7) n by (auto simp: marked_update)
    moreover have "set bad \<subseteq> set (i # is)" using bad(3) by auto
    ultimately show ?thesis
      using bad(1,2,4) inj by - (intro exI [of _ bad] conjI; (subst rest)?; assumption)
  next
    case False
    then have "gscan key is (bm, of_nat i # inval) = Some (bm', inval')"
      using Cons.prems(1) by (auto split: option.splits if_splits)
    then obtain bad where bad: "inval' = rev (map of_nat bad) @ of_nat i # inval" "distinct bad" "set bad \<subseteq> set is"
        "length bm' = length bm"
        "\<forall>j \<in> set is - set bad. \<exists>m. key j = Some m \<and> m < length bm \<and> \<not> bm ! m"
        "inj_on key (set is - set bad)"
        "marked bm' = marked bm \<union> (the \<circ> key) ` (set is - set bad)"
      using Cons.IH Cons.prems(2) by fastforce
    have rest: "set (i # is) - set (i # bad) = set is - set bad" using bad(3) Cons.prems(2) by auto
    have "inval' = rev (map of_nat (i # bad)) @ inval" "distinct (i # bad)" "set (i # bad) \<subseteq> set (i # is)"
      using bad(1-3) Cons.prems(2) by auto
    then show ?thesis using bad(4-7) by (metis rest)
  qed
qed

text \<open>Conversely, entries that name distinct unmarked blocks are all kept.\<close>

lemma gscan_clean:
  assumes "distinct is"
    and "\<forall>i \<in> set is. \<exists>n. key i = Some n \<and> n < length bm \<and> \<not> bm ! n"
    and "inj_on key (set is)"
  shows "\<exists>bm'. gscan key is (bm, inval) = Some (bm', inval) \<and> length bm' = length bm
     \<and> marked bm' = marked bm \<union> (the \<circ> key) ` set is"
  using assms
proof (induction "is" arbitrary: bm)
  case Nil
  then show ?case by simp
next
  case (Cons i "is")
  obtain n where n: "key i = Some n" "n < length bm" "\<not> bm ! n" using Cons.prems(2) by auto
  have "\<forall>j \<in> set is. \<exists>m. key j = Some m \<and> m < length (bm[n := True]) \<and> \<not> bm[n := True] ! m"
  proof
    fix j assume j: "j \<in> set is"
    then obtain m where m: "key j = Some m" "m < length bm" "\<not> bm ! m" using Cons.prems(2) by auto
    have "key i \<noteq> key j" using Cons.prems(1,3) j by (auto simp: inj_on_def)
    then show "\<exists>m. key j = Some m \<and> m < length (bm[n := True]) \<and> \<not> bm[n := True] ! m" using m n by auto
  qed
  then obtain bm' where "gscan key is (bm[n := True], inval) = Some (bm', inval)" "length bm' = length bm"
      "marked bm' = marked (bm[n := True]) \<union> (the \<circ> key) ` set is"
    using Cons.IH [of "bm[n := True]"] Cons.prems(1,3) by auto
  then show ?case using n by (auto simp: marked_update)
qed

section \<open>Changing single entries\<close>

lemma length_splice [simp]: "off + length new \<le> length bs \<Longrightarrow> length (splice off new bs) = length bs"
  by (simp add: splice_def)

lemma splice_disjoint:
  assumes "off + length new \<le> length bs" and "a + n \<le> off \<or> off + length new \<le> a"
  shows "take n (drop a (splice off new bs)) = take n (drop a bs)"
proof (rule nth_equalityI)
  show "length (take n (drop a (splice off new bs))) = length (take n (drop a bs))" using assms(1) by simp
  fix i assume "i < length (take n (drop a (splice off new bs)))"
  then have i: "i < n" "a + i < length bs" using assms(1) by auto
  moreover from i(1) have "a + i < off \<or> off + length new \<le> a + i" using assms(2) by auto
  ultimately have "splice off new bs ! (a + i) = bs ! (a + i)"
    using assms(1) by (auto simp: splice_def nth_append)
  then show "take n (drop a (splice off new bs)) ! i = take n (drop a bs) ! i" using i assms(1) by simp
qed

lemma splice_here: "off + length new \<le> length bs \<Longrightarrow> take (length new) (drop off (splice off new bs)) = new"
  by (simp add: splice_def)

lemma le_at_splice:
  "off + length new \<le> length bs \<Longrightarrow> a + n \<le> off \<or> off + length new \<le> a \<Longrightarrow>
   le_at n (splice off new bs) a = le_at n bs a"
  by (simp add: le_at_def splice_disjoint)

lemma le_at_splice_here:
  assumes "off + n \<le> length bs" and "8 * n = LENGTH('a)"
  shows "le_at n (splice off (le_enc n (w :: 'a::len word)) bs) off = w"
  using splice_here [of off "le_enc n w" bs] assms by (simp add: le_at_def)

lemma entry_error:
  assumes "unat u < 2 ^ 30"
  shows "entry_lba (u OR BTT_MAP_ENTRY_ERROR) = u" and "(u OR BTT_MAP_ENTRY_ERROR) AND NOT BTT_MAP_ENTRY_LBA_MASK \<noteq> 0"
  using entry_lba_build(3) [of u] flags_build(3) [of u] entry_lba_small [OF assms]
  by (simp_all add: map_entry_consts)

lemma map_block_splice:
  assumes "4 * i + 4 \<le> length mp" and "unat u < 2 ^ 30"
  shows "map_entry_block (splice (4 * i) (le_enc 4 (u OR BTT_MAP_ENTRY_ERROR)) mp) j = (if j = i then u else map_entry_block mp j)"
proof (cases "j = i")
  case True
  have "le_at 4 (splice (4 * i) (le_enc 4 (u OR BTT_MAP_ENTRY_ERROR)) mp) (4 * i) = u OR BTT_MAP_ENTRY_ERROR"
    using assms(1) by (intro le_at_splice_here) auto
  then show ?thesis using True entry_error [OF assms(2)] by (simp add: map_entry_block_def Let_def)
next
  case False
  then have "4 * j + 4 \<le> 4 * i \<or> 4 * i + 4 \<le> 4 * j" by auto
  then show ?thesis using False assms(1) by (simp add: map_entry_block_def le_at_splice)
qed

lemma flog_at_splice:
  "off + length new \<le> length bs \<Longrightarrow> a + 16 \<le> off \<or> off + length new \<le> a \<Longrightarrow>
   flog_at (splice off new bs) a = flog_at bs a"
  by (auto simp: flog_at_def le_at_splice)

lemma flog_at_splice_here:
  "off + 16 \<le> length bs \<Longrightarrow> flog_at (splice off (bytes_of_flog f) bs) off = f"
  by (simp add: splice_def flog_at_bytes)

lemma flog_at_zero:
  assumes "off + 16 \<le> length bs"
  shows "flog_at (splice off (replicate 16 0) bs) off = Zflog"
proof -
  have "replicate 16 0 = bytes_of_flog Zflog"
    by (simp add: bytes_of_flog_def Zflog_def le_enc_def numeral_eq_Suc)
  then show ?thesis using flog_at_splice_here [OF assms] by metis
qed

lemma length_flog_put [simp]: "64 * i + 64 \<le> length flog \<Longrightarrow> length (flog_put flog i u) = length flog"
  by (simp add: flog_put_def Let_def)

lemma flog_key_put:
  assumes "64 * i + 64 \<le> length flog" and "unat u < 2 ^ 30"
  shows "flog_key (flog_put flog i u) j = (if j = i then Some (unat u) else flog_key flog j)"
proof (cases "j = i")
  case True
  let ?f = "\<lparr>flog_lba = 0, flog_old_map = u OR BTT_MAP_ENTRY_ERROR, flog_new_map = u OR BTT_MAP_ENTRY_ERROR, flog_seq = 1\<rparr>"
  have "flog_at (flog_put flog i u) (64 * i) = ?f"
    using assms(1) by (simp add: flog_put_def Let_def flog_at_splice_here)
  moreover have "flog_at (flog_put flog i u) (64 * i + 16) = Zflog"
    using assms(1) by (simp add: flog_put_def Let_def flog_at_splice flog_at_zero)
  ultimately have "flog_pair_cur (flog_put flog i u) i = Some ?f"
    by (simp add: flog_pair_cur_def pmempool_check_check_flog_def Zflog_def)
  then show ?thesis using True entry_error(1) [OF assms(2)] by (simp add: flog_key_def)
next
  case False
  then have "64 * j + 64 \<le> 64 * i \<or> 64 * i + 64 \<le> 64 * j" by auto
  then show ?thesis using False assms(1)
    by (auto simp: flog_key_def flog_pair_cur_def flog_put_def Let_def flog_at_splice)
qed

section \<open>The repair loops\<close>

lemma repair_map_spec:
  assumes "distinct (map unat inval)" and "\<forall>i \<in> set inval. 4 * unat i + 4 \<le> length mp"
    and "length inval \<le> length unmap" and "\<forall>u \<in> set unmap. unat u < 2 ^ 30"
  shows "\<exists>mp'. repair_map mp inval unmap = (mp', drop (length inval) unmap, True) \<and> length mp' = length mp
     \<and> (\<forall>j. map_entry_block mp' j = (case map_of (zip (map unat inval) unmap) j of Some u \<Rightarrow> u | None \<Rightarrow> map_entry_block mp j))"
  using assms
proof (induction mp inval unmap rule: repair_map.induct)
  case (3 mp i inval u unmap)
  let ?mp = "splice (4 * unat i) (le_enc 4 (u OR BTT_MAP_ENTRY_ERROR)) mp"
  have len: "length ?mp = length mp" using "3.prems"(2) by simp
  obtain mp' where mp': "repair_map ?mp inval unmap = (mp', drop (length inval) unmap, True)" "length mp' = length mp"
      "\<forall>j. map_entry_block mp' j = (case map_of (zip (map unat inval) unmap) j of Some u \<Rightarrow> u | None \<Rightarrow> map_entry_block ?mp j)"
    using "3.IH" "3.prems" len by auto
  have none: "map_of (zip (map unat inval) unmap) (unat i) = None"
    using "3.prems"(1,3) by (auto simp: map_of_eq_None_iff dest: set_zip_leftD)
  have "map_entry_block mp' j = (case map_of (zip (map unat (i # inval)) (u # unmap)) j of Some u \<Rightarrow> u | None \<Rightarrow> map_entry_block mp j)" for j
    using mp'(3) none "3.prems"(2,4) by (auto simp: map_block_splice split: option.splits)
  then show ?case using mp'(1,2) by auto
qed auto

lemma repair_flog_spec:
  assumes "distinct (map unat inval)" and "\<forall>i \<in> set inval. 64 * unat i + 64 \<le> length flog"
    and "length inval \<le> length unmap" and "\<forall>u \<in> set unmap. unat u < 2 ^ 30"
  shows "\<exists>flog'. repair_flog flog inval unmap = (flog', drop (length inval) unmap, True) \<and> length flog' = length flog
     \<and> (\<forall>j. flog_key flog' j = (case map_of (zip (map unat inval) unmap) j of Some u \<Rightarrow> Some (unat u) | None \<Rightarrow> flog_key flog j))"
  using assms
proof (induction flog inval unmap rule: repair_flog.induct)
  case (3 flog i inval u unmap)
  let ?fl = "flog_put flog (unat i) u"
  have len: "length ?fl = length flog" using "3.prems"(2) by simp
  obtain fl where fl: "repair_flog ?fl inval unmap = (fl, drop (length inval) unmap, True)" "length fl = length flog"
      "\<forall>j. flog_key fl j = (case map_of (zip (map unat inval) unmap) j of Some u \<Rightarrow> Some (unat u) | None \<Rightarrow> flog_key ?fl j)"
    using "3.IH" "3.prems" len by auto
  have none: "map_of (zip (map unat inval) unmap) (unat i) = None"
    using "3.prems"(1,3) by (auto simp: map_of_eq_None_iff dest: set_zip_leftD)
  have "flog_key fl j = (case map_of (zip (map unat (i # inval)) (u # unmap)) j of Some u \<Rightarrow> Some (unat u) | None \<Rightarrow> flog_key flog j)" for j
    using fl(3) none "3.prems"(2,4) by (auto simp: flog_key_put split: option.splits)
  then show ?case using fl(1,2) by auto
qed auto

section \<open>The scan after the repair\<close>

lemma zip_take_length: "zip xs (take (length xs) ys) = zip xs ys"
  by (induction xs arbitrary: ys) (simp, case_tac ys, auto)

lemma map_of_zip_cases:
  assumes "distinct xs" and "length xs = length us"
  shows "j \<in> set xs \<Longrightarrow> \<exists>p < length us. j = xs ! p \<and> map_of (zip xs us) j = Some (us ! p)"
    and "j \<notin> set xs \<Longrightarrow> map_of (zip xs us) j = None"
  using map_of_zip_nth [OF assms(2,1)] assms(2)
  by (metis in_set_conv_nth, auto simp: map_of_eq_None_iff dest: set_zip_leftD)

text \<open>
  Entries outside \<open>xs\<close> keep their keys, the entries \<open>xs\<close> get the values \<open>us\<close>: all keys stay distinct when
  the values are fresh.
\<close>

lemma patched_keys:
  fixes us :: "u32 list"
  assumes "distinct xs" "length xs = length us" "set xs \<subseteq> I" "distinct (map unat us)"
    and "inj_on key (I - set xs)" "\<forall>j \<in> I - set xs. \<exists>m. key j = Some m"
    and "unat ` set us \<inter> (the \<circ> key) ` (I - set xs) = {}"
    and "\<forall>j \<in> I. key' j = (case map_of (zip xs us) j of Some u \<Rightarrow> Some (unat u) | None \<Rightarrow> key j)"
  shows "inj_on key' I" and "(the \<circ> key') ` I = (the \<circ> key) ` (I - set xs) \<union> unat ` set us"
    and "\<forall>j \<in> I. \<exists>m. key' j = Some m"
proof -
  note at = map_of_zip_cases [OF assms(1,2)]
  have fresh: "\<exists>p < length us. j = xs ! p \<and> key' j = Some (unat (us ! p))" if "j \<in> set xs" for j
  proof -
    have "j \<in> I" using that assms(3) by auto
    then show ?thesis using at(1) [OF that] assms(8) by fastforce
  qed
  have kept: "key' j = key j" if "j \<in> I - set xs" for j
    using at(2) [of j] that assms(8) by simp
  have apart: "key' i \<noteq> key' j" if i: "i \<in> set xs" and j: "j \<in> I - set xs" for i j
  proof -
    obtain p where p: "p < length us" "key' i = Some (unat (us ! p))" using fresh [OF i] by blast
    obtain m where m: "key j = Some m" using assms(6) j by blast
    have "m \<in> (the \<circ> key) ` (I - set xs)" using m j by (force intro: image_eqI [of _ _ j])
    then have "m \<noteq> unat (us ! p)" using assms(7) p(1) by (metis IntI empty_iff image_eqI nth_mem)
    then show ?thesis using p m kept [OF j] by simp
  qed
  have same: "i = j" if "i \<in> set xs" "j \<in> set xs" "key' i = key' j" for i j
    using fresh [OF that(1)] fresh [OF that(2)] that(3) assms(4) by (auto simp: distinct_conv_nth) metis
  show "inj_on key' I"
  proof (rule inj_onI)
    fix i j assume "i \<in> I" "j \<in> I" "key' i = key' j"
    then show "i = j"
      using same [of i j] apart [of i j] apart [of j i] kept [of i] kept [of j] inj_onD [OF assms(5), of i j]
      by (cases "i \<in> set xs"; cases "j \<in> set xs") auto
  qed
  show "\<forall>j \<in> I. \<exists>m. key' j = Some m"
  proof
    fix j assume "j \<in> I"
    then show "\<exists>m. key' j = Some m" using fresh [of j] kept [of j] assms(6) by (cases "j \<in> set xs") auto
  qed
  have "I = (I - set xs) \<union> set xs" using assms(3) by auto
  then have "(the \<circ> key') ` I = (the \<circ> key') ` (I - set xs) \<union> (the \<circ> key') ` set xs" by blast
  also have "(the \<circ> key') ` (I - set xs) = (the \<circ> key) ` (I - set xs)"
    by (rule image_cong) (simp_all add: kept)
  also have "(the \<circ> key') ` set xs = unat ` set us"
  proof (intro equalityI subsetI)
    fix m assume "m \<in> (the \<circ> key') ` set xs"
    then show "m \<in> unat ` set us" using fresh by force
  next
    fix m assume "m \<in> unat ` set us"
    then obtain p where p: "p < length us" "m = unat (us ! p)" by (metis in_set_conv_nth imageE)
    have "xs ! p \<in> set xs" using p(1) assms(2) by simp
    moreover from this have "key' (xs ! p) = Some m"
      using fresh [of "xs ! p"] assms(1,2) p by (auto simp: nth_eq_iff_index_eq)
    ultimately show "m \<in> (the \<circ> key') ` set xs" by force
  qed
  finally show "(the \<circ> key') ` I = (the \<circ> key) ` (I - set xs) \<union> unat ` set us" .
qed

text \<open>
  One column of the arena: its invalid entries get the blocks \<open>us\<close>, and the bitmap starts with
  additional marks \<open>F\<close>.
\<close>

lemma gscan_repaired:
  assumes g: "gscan key [0..<n] (bm, []) = Some (bm', inval)" and n: "n \<le> 2 ^ 32"
    and us: "length us = length inval" "distinct (map unat us)" "\<forall>u \<in> set us. unat u < length bm \<and> unat u \<notin> marked bm'"
    and bm2: "length bm2 = length bm" "marked bm2 = marked bm \<union> F" "F \<inter> marked bm' = {}" "F \<inter> unat ` set us = {}"
    and key': "\<forall>j<n. key' j = (case map_of (zip (map unat inval) us) j of Some u \<Rightarrow> Some (unat (u::u32)) | None \<Rightarrow> key j)"
  shows "\<exists>bm2'. gscan key' [0..<n] (bm2, []) = Some (bm2', []) \<and> length bm2' = length bm
     \<and> marked bm2' = marked bm' \<union> F \<union> unat ` set us"
proof -
  let ?I = "set [0..<n]"
  obtain bad where bad: "inval = rev (map of_nat bad)" "distinct bad" "set bad \<subseteq> ?I"
      "length bm' = length bm"
      "\<forall>i \<in> ?I - set bad. \<exists>m. key i = Some m \<and> m < length bm \<and> \<not> bm ! m"
      "inj_on key (?I - set bad)"
      "marked bm' = marked bm \<union> (the \<circ> key) ` (?I - set bad)"
    using gscan_spec [OF g] by auto
  have "map (unat \<circ> (of_nat :: nat \<Rightarrow> u32)) bad = bad"
    using bad(3) n by (intro map_idI) (auto simp: unsigned_of_nat take_bit_nat_eq_self_iff)
  then have xs: "map unat inval = rev bad" by (simp add: bad(1) rev_map [symmetric])
  have new: "unat ` set us \<inter> (the \<circ> key) ` (?I - set bad) = {}" using us(3) bad(7) by auto
  have "distinct (rev bad)" "length (rev bad) = length us" "set (rev bad) \<subseteq> ?I" "inj_on key (?I - set (rev bad))"
      "\<forall>j \<in> ?I - set (rev bad). \<exists>m. key j = Some m" "unat ` set us \<inter> (the \<circ> key) ` (?I - set (rev bad)) = {}"
      "\<forall>j \<in> ?I. key' j = (case map_of (zip (rev bad) us) j of Some u \<Rightarrow> Some (unat u) | None \<Rightarrow> key j)"
    using bad(1-3,5,6) us(1) new key' [unfolded xs] by auto
  from patched_keys [OF this(1-3) us(2) this(4-7)]
  have keys: "inj_on key' ?I" "(the \<circ> key') ` ?I = (the \<circ> key) ` (?I - set bad) \<union> unat ` set us"
      "\<forall>j \<in> ?I. \<exists>m. key' j = Some m"
    by simp_all
  have ok: "\<exists>m. key' i = Some m \<and> m < length bm2 \<and> \<not> bm2 ! m" if i: "i \<in> ?I" for i
  proof -
    obtain m where m: "key' i = Some m" using keys(3) i by blast
    have "m \<in> (the \<circ> key') ` ?I" using i m by (force intro: image_eqI [of _ _ i])
    then have "m \<in> (the \<circ> key) ` (?I - set bad) \<or> m \<in> unat ` set us" unfolding keys(2) by blast
    then have "m < length bm \<and> m \<notin> marked bm2"
    proof
      assume r: "m \<in> (the \<circ> key) ` (?I - set bad)"
      then have "m \<in> marked bm'" using bad(7) by blast
      moreover obtain j where "j \<in> ?I - set bad" "m = the (key j)" using r by auto
      then have "m < length bm \<and> m \<notin> marked bm" using bad(5) by (force simp: marked_def)
      ultimately show ?thesis using bm2(2,3) by auto
    next
      assume "m \<in> unat ` set us"
      then show ?thesis using us(3) bm2(2,4) bad(7) by auto
    qed
    then show ?thesis using m bm2(1) by (auto simp: marked_def)
  qed
  obtain bm2' where "gscan key' [0..<n] (bm2, []) = Some (bm2', [])" "length bm2' = length bm2"
      "marked bm2' = marked bm2 \<union> (the \<circ> key') ` ?I"
    using gscan_clean [of "[0..<n]" key' bm2 "[]"] ok keys(1) by auto
  then show ?thesis using bm2(1,2) bad(7) keys(2) by auto
qed

section \<open>A repaired arena\<close>

lemma gscan_inval:
  assumes "gscan key [0..<n] (bm, []) = Some (bm', inval)" and "n \<le> 2 ^ 32"
  shows "distinct (map unat inval)" and "set (map unat inval) \<subseteq> {0..<n}" and "marked bm \<subseteq> marked bm'"
    and "length bm' = length bm"
proof -
  obtain bad where bad: "inval = rev (map of_nat bad)" "distinct bad" "set bad \<subseteq> set [0..<n]"
      "length bm' = length bm" "marked bm' = marked bm \<union> (the \<circ> key) ` (set [0..<n] - set bad)"
    using gscan_spec [OF assms(1)] by auto
  have "map (unat \<circ> (of_nat :: nat \<Rightarrow> u32)) bad = bad"
    using bad(3) assms(2) by (intro map_idI) (auto simp: unsigned_of_nat take_bit_nat_eq_self_iff)
  then have xs: "map unat inval = rev bad" by (simp add: bad(1) rev_map [symmetric])
  show "distinct (map unat inval)" "set (map unat inval) \<subseteq> {0..<n}" "marked bm \<subseteq> marked bm'" "length bm' = length bm"
    using bad unfolding xs by auto
qed

lemma scan_unmap_blocks:
  assumes "scan_unmap bm [0..<n] [] = Some unmap" and "n \<le> 2 ^ 32"
  shows "distinct (map unat unmap)" and "unat ` set unmap = {0..<n} - marked bm" and "n \<le> length bm"
proof -
  have r: "unmap = rev (map of_nat (filter (\<lambda>i. \<not> bm ! i) [0..<n]))" and len: "\<forall>i<n. i < length bm"
    using assms(1) by (auto simp: scan_unmap_filter)
  let ?xs = "filter (\<lambda>i. \<not> bm ! i) [0..<n]"
  have "map (unat \<circ> (of_nat :: nat \<Rightarrow> u32)) ?xs = ?xs"
    using assms(2) by (intro map_idI) (auto simp: unsigned_of_nat take_bit_nat_eq_self_iff)
  then have xs: "map unat unmap = rev ?xs" by (simp add: r rev_map [symmetric])
  then show "distinct (map unat unmap)" by simp
  have "unat ` set unmap = set (map unat unmap)" by simp
  also have "\<dots> = {0..<n} - marked bm" unfolding xs using len by (auto simp: marked_def)
  finally show "unat ` set unmap = {0..<n} - marked bm" .
  show "n \<le> length bm" using len by (meson leI less_irrefl)
qed

lemma arena_scanE:
  assumes "arena_scan info mp flog = Some (inval, flog_inval, unmap)"
  obtains bm1 bm2 where "\<forall>i < unat (info_external_nlba info). 4 * i + 4 \<le> length mp"
    and "gscan (map_key mp (info_internal_nlba info)) [0..<unat (info_external_nlba info)]
       (replicate (8 * unat ((info_internal_nlba info + 7) div 8)) False, []) = Some (bm1, inval)"
    and "gscan (flog_key flog) [0..<unat (info_nfree info)] (bm1, []) = Some (bm2, flog_inval)"
    and "scan_unmap bm2 [0..<unat (info_internal_nlba info)] [] = Some unmap"
  using assms unfolding arena_scan_def Let_def
  by (auto simp: scan_map_gscan scan_flog_gscan split: option.splits prod.splits)

lemma arena_scanI:
  assumes "\<forall>i < unat (info_external_nlba info). 4 * i + 4 \<le> length mp"
    and "gscan (map_key mp (info_internal_nlba info)) [0..<unat (info_external_nlba info)]
       (replicate (8 * unat ((info_internal_nlba info + 7) div 8)) False, []) = Some (bm1, inval)"
    and "gscan (flog_key flog) [0..<unat (info_nfree info)] (bm1, []) = Some (bm2, flog_inval)"
    and "scan_unmap bm2 [0..<unat (info_internal_nlba info)] [] = Some unmap"
  shows "arena_scan info mp flog = Some (inval, flog_inval, unmap)"
proof -
  have "scan_map mp (info_internal_nlba info) [0..<unat (info_external_nlba info)]
      (replicate (8 * unat ((info_internal_nlba info + 7) div 8)) False, []) = Some (bm1, inval)"
    using assms(1,2) by (simp add: scan_map_gscan)
  then show ?thesis using assms(3,4) by (simp add: arena_scan_def Let_def scan_flog_gscan)
qed

lemma unat_u32_le: "unat (w :: u32) \<le> 2 ^ 32"
  using unat_bound [of w] by simp

lemma repair_arena_clean:
  assumes scan: "arena_scan info mp flog = Some (inval, flog_inval, unmap)"
    and cnt: "length unmap = length inval + length flog_inval"
    and small: "unat (info_internal_nlba info) \<le> 2 ^ 30"
    and room: "64 * unat (info_nfree info) \<le> length flog"
  shows "\<exists>mp' flog'. repair_arena a mp flog inval flog_inval unmap =
       (CHECK_RESULT_CONSISTENT, a\<lparr>ta_map := Some mp', ta_flog := Some flog'\<rparr>)
     \<and> length mp' = length mp \<and> length flog' = length flog
     \<and> arena_scan info mp' flog' = Some ([], [], [])
     \<and> (\<forall>i. of_nat i \<notin> set inval \<longrightarrow> map_entry_block mp' i = map_entry_block mp i)"
proof -
  let ?inl = "unat (info_internal_nlba info)" and ?ext = "unat (info_external_nlba info)" and ?nf = "unat (info_nfree info)"
  let ?bm0 = "replicate (8 * unat ((info_internal_nlba info + 7) div 8)) False"
  obtain bm1 bm2 where mlen: "\<forall>i < ?ext. 4 * i + 4 \<le> length mp"
    and g1: "gscan (map_key mp (info_internal_nlba info)) [0..<?ext] (?bm0, []) = Some (bm1, inval)"
    and g2: "gscan (flog_key flog) [0..<?nf] (bm1, []) = Some (bm2, flog_inval)"
    and un: "scan_unmap bm2 [0..<?inl] [] = Some unmap"
    by (rule arena_scanE [OF scan])
  note i1 = gscan_inval [OF g1 unat_u32_le] and i2 = gscan_inval [OF g2 unat_u32_le]
  note bl = scan_unmap_blocks [OF un unat_u32_le]
  let ?us1 = "take (length inval) unmap" and ?us2 = "drop (length inval) unmap"
  have parts: "set unmap = set ?us1 \<union> set ?us2" by (metis append_take_drop_id set_append)
  have "distinct (map unat ?us1 @ map unat ?us2)" using bl(1) by (metis append_take_drop_id map_append)
  then have dist: "distinct (map unat ?us1)" "distinct (map unat ?us2)" "unat ` set ?us1 \<inter> unat ` set ?us2 = {}"
    by auto
  have new: "unat u < ?inl" "unat u \<notin> marked bm2" if "u \<in> set unmap" for u using bl(2) that by auto
  then have low: "unat u < 2 ^ 30" if "u \<in> set unmap" for u using that small by fastforce
  have bound1: "\<forall>i \<in> set inval. 4 * unat i + 4 \<le> length mp" using i1(2) mlen by (auto simp: image_subset_iff)
  obtain mp' where mp': "repair_map mp inval unmap = (mp', ?us2, True)" "length mp' = length mp"
      "\<forall>j. map_entry_block mp' j = (case map_of (zip (map unat inval) unmap) j of Some u \<Rightarrow> u | None \<Rightarrow> map_entry_block mp j)"
    using repair_map_spec [OF i1(1) bound1, of unmap] cnt low by auto
  have bound2: "\<forall>i \<in> set flog_inval. 64 * unat i + 64 \<le> length flog" using i2(2) room by fastforce
  obtain flog' where flog': "repair_flog flog flog_inval ?us2 = (flog', drop (length flog_inval) ?us2, True)"
      "length flog' = length flog"
      "\<forall>j. flog_key flog' j = (case map_of (zip (map unat flog_inval) ?us2) j of Some u \<Rightarrow> Some (unat u) | None \<Rightarrow> flog_key flog j)"
    using repair_flog_spec [OF i2(1) bound2, of ?us2] cnt low parts by auto
  have z1: "zip (map unat inval) unmap = zip (map unat inval) ?us1"
    using zip_take_length [of "map unat inval" unmap] by simp
  have k1: "\<forall>j < ?ext. map_key mp' (info_internal_nlba info) j =
      (case map_of (zip (map unat inval) ?us1) j of Some u \<Rightarrow> Some (unat u) | None \<Rightarrow> map_key mp (info_internal_nlba info) j)"
  proof (intro allI impI)
    fix j
    have "unat u < ?inl" if "map_of (zip (map unat inval) ?us1) j = Some u" for u
      using new(1) parts set_zip_rightD [OF map_of_SomeD [OF that]] by blast
    then show "map_key mp' (info_internal_nlba info) j =
        (case map_of (zip (map unat inval) ?us1) j of Some u \<Rightarrow> Some (unat u) | None \<Rightarrow> map_key mp (info_internal_nlba info) j)"
      using mp'(3) unfolding z1 map_key_def word_less_nat_alt by (auto split: option.splits)
  qed
  have f1: "\<forall>u \<in> set ?us1. unat u < length ?bm0 \<and> unat u \<notin> marked bm1"
    using new bl(3) i1(4) i2(3,4) parts by fastforce
  obtain bm1' where b1: "gscan (map_key mp' (info_internal_nlba info)) [0..<?ext] (?bm0, []) = Some (bm1', [])"
      "length bm1' = length ?bm0" "marked bm1' = marked bm1 \<union> {} \<union> unat ` set ?us1"
    using gscan_repaired [OF g1 unat_u32_le _ dist(1) f1 refl _ _ _ k1, of "{}"] cnt by auto
  have f2: "\<forall>u \<in> set ?us2. unat u < length bm1 \<and> unat u \<notin> marked bm2"
    using new bl(3) i2(4) parts by fastforce
  have apart: "unat ` set ?us1 \<inter> marked bm2 = {}" using new(2) parts by auto
  obtain bm2' where b2: "gscan (flog_key flog') [0..<?nf] (bm1', []) = Some (bm2', [])"
      "length bm2' = length bm1" "marked bm2' = marked bm2 \<union> unat ` set ?us1 \<union> unat ` set ?us2"
    using gscan_repaired [OF g2 unat_u32_le _ dist(2) f2, of bm1' "unat ` set ?us1" "flog_key flog'"]
      b1(2,3) i1(4) apart dist(3) flog'(3) cnt by auto
  have "{0..<?inl} \<subseteq> marked bm2'" using b2(3) bl(2) parts by auto
  then have "scan_unmap bm2' [0..<?inl] [] = Some []" by (auto simp: scan_unmap_filter marked_def filter_empty_conv)
  then have clean: "arena_scan info mp' flog' = Some ([], [], [])"
    using mlen b1(1) b2(1) by (intro arena_scanI) (simp_all add: mp'(2))
  have "map_entry_block mp' i = map_entry_block mp i" if "of_nat i \<notin> set inval" for i
  proof -
    have "i \<notin> set (map unat inval)" using that by force
    then have "map_of (zip (map unat inval) unmap) i = None" by (auto simp: map_of_eq_None_iff dest: set_zip_leftD)
    then show ?thesis using mp'(3) by simp
  qed
  moreover have "repair_arena a mp flog inval flog_inval unmap =
      (CHECK_RESULT_CONSISTENT, a\<lparr>ta_map := Some mp', ta_flog := Some flog'\<rparr>)"
    using mp'(1) flog'(1) by (simp add: repair_arena_def)
  ultimately show ?thesis using mp'(2) flog'(2) clean by blast
qed

section \<open>The blocks of an arena without faults\<close>

text \<open>The blocks that the map and the valid halves of the flog name.\<close>

definition arena_blocks :: "btt_info \<Rightarrow> byte list \<Rightarrow> byte list \<Rightarrow> nat list" where
  "arena_blocks info mp flog =
     map (\<lambda>i. unat (map_entry_block mp i)) [0..<unat (info_external_nlba info)] @
     map (\<lambda>i. the (flog_key flog i)) [0..<unat (info_nfree info)]"

lemma gscan_no_inval:
  assumes "gscan key [0..<n] (bm, []) = Some (bm', [])"
  shows "\<forall>i<n. \<exists>m. key i = Some m \<and> m < length bm \<and> \<not> bm ! m" and "inj_on key {0..<n}"
    and "marked bm' = marked bm \<union> (the \<circ> key) ` {0..<n}" and "length bm' = length bm"
  using gscan_spec [OF assms] by auto

lemma distinct_keys:
  assumes "\<forall>i<n. \<exists>m. key i = Some m" and "inj_on key {0..<n}"
  shows "distinct (map (\<lambda>i. the (key i)) [0..<n])"
proof -
  have "inj_on (\<lambda>i. the (key i)) {0..<n}"
  proof (rule inj_onI)
    fix x y assume xy: "x \<in> {0..<n}" "y \<in> {0..<n}" "the (key x) = the (key y)"
    then have "key x = key y" using assms(1) by (metis atLeastLessThan_iff option.sel)
    then show "x = y" using inj_onD [OF assms(2)] xy by blast
  qed
  then show ?thesis by (simp add: distinct_map)
qed

lemma clean_scan_partition:
  assumes "arena_scan info mp flog = Some ([], [], [])"
  shows "distinct (arena_blocks info mp flog)"
    and "{0..<unat (info_internal_nlba info)} \<subseteq> set (arena_blocks info mp flog)"
    and "\<forall>i < unat (info_nfree info). flog_pair_cur flog i \<noteq> None"
proof -
  let ?inl = "unat (info_internal_nlba info)" and ?ext = "unat (info_external_nlba info)" and ?nf = "unat (info_nfree info)"
  let ?mk = "map_key mp (info_internal_nlba info)"
  obtain bm1 bm2 where
    g1: "gscan ?mk [0..<?ext] (replicate (8 * unat ((info_internal_nlba info + 7) div 8)) False, []) = Some (bm1, [])"
    and g2: "gscan (flog_key flog) [0..<?nf] (bm1, []) = Some (bm2, [])"
    and un: "scan_unmap bm2 [0..<?inl] [] = Some []"
    by (rule arena_scanE [OF assms])
  note n1 = gscan_no_inval [OF g1] and n2 = gscan_no_inval [OF g2]
  have m1: "?mk i = Some (unat (map_entry_block mp i))" if "i < ?ext" for i
    using n1(1) that by (auto simp: map_key_def split: if_splits)
  have img1: "(the \<circ> ?mk) ` {0..<?ext} = set (map (\<lambda>i. unat (map_entry_block mp i)) [0..<?ext])"
    using m1 by (auto intro!: image_cong)
  have "map (\<lambda>i. unat (map_entry_block mp i)) [0..<?ext] = map (\<lambda>i. the (?mk i)) [0..<?ext]"
    by (rule map_cong) (simp_all add: m1)
  moreover have "distinct (map (\<lambda>i. the (?mk i)) [0..<?ext])" using m1 n1(2) by (intro distinct_keys) auto
  ultimately have d1: "distinct (map (\<lambda>i. unat (map_entry_block mp i)) [0..<?ext])" by metis
  have d2: "distinct (map (\<lambda>i. the (flog_key flog i)) [0..<?nf])"
    using n2(1,2) by (intro distinct_keys) blast+
  have bm1: "marked bm1 = set (map (\<lambda>i. unat (map_entry_block mp i)) [0..<?ext])"
    using n1(3) img1 by (auto simp: marked_def)
  have "the (flog_key flog i) \<notin> marked bm1" if "i < ?nf" for i
    using n2(1) that by (force simp: marked_def)
  then have "set (map (\<lambda>i. unat (map_entry_block mp i)) [0..<?ext]) \<inter> set (map (\<lambda>i. the (flog_key flog i)) [0..<?nf]) = {}"
    unfolding bm1 by force
  then show "distinct (arena_blocks info mp flog)"
    using d1 d2 by (simp add: arena_blocks_def)
  have "{0..<?inl} \<subseteq> marked bm2" using un by (auto simp: scan_unmap_filter filter_empty_conv marked_def)
  then show "{0..<?inl} \<subseteq> set (arena_blocks info mp flog)"
    unfolding n2(3) bm1 by (auto simp: arena_blocks_def)
  show "\<forall>i < ?nf. flog_pair_cur flog i \<noteq> None" using n2(1) by (auto simp: flog_key_def)
qed

lemma flog_area_room:
  assumes "pmempool_check_read_flog f a = (True, a1)"
  shows "64 * unat (info_nfree (tinfo a)) \<le> length (the (ta_flog a1))"
proof -
  let ?n = "info_nfree (tinfo a)"
  have r32: "roundup (2 * 16) BTT_FLOG_PAIR_ALIGN = (64 :: u64)"
    by (simp add: roundup_def BTT_FLOG_PAIR_ALIGN_def)
  have "unat ?n < 2 ^ 32" using unat_bound [of ?n] by simp
  then have n: "unat (ucast ?n * 64 :: u64) = 64 * unat ?n"
    by (subst unat_word_ariths) (simp add: unat_ucast_32_64)
  then have "unat (flog_area_size ?n) = (64 * unat ?n + 4095) div 4096 * 4096"
    using \<open>unat ?n < 2 ^ 32\<close> unfolding flog_area_size_def r32
    by (subst unat_roundup) (simp_all add: BTT_ALIGNMENT_def)
  then have "64 * unat ?n \<le> unat (flog_area_size ?n)" by linarith
  then show ?thesis using assms by (auto simp: pmempool_check_read_flog_def Let_def)
qed

lemma read_areas:
  "pmempool_check_read_flog f a = (ok, a1) \<Longrightarrow> \<exists>bs. a1 = a\<lparr>ta_flog := Some bs\<rparr>"
  "pmempool_check_read_map f a = (ok, a1) \<Longrightarrow> \<exists>bs. a1 = a\<lparr>ta_map := Some bs\<rparr>"
  by (auto simp: pmempool_check_read_flog_def pmempool_check_read_map_def Let_def)

lemma ask_arenas: "pc_ask s = (Ok c, s') \<Longrightarrow> pc_arenas s' = pc_arenas s"
  by (auto simp: pc_ask_def split: prod.splits)

lemma ask_unless_arenas: "ask_unless_empty l s = (Ok y, s') \<Longrightarrow> pc_arenas s' = pc_arenas s"
  by (auto simp: ask_unless_empty_def ret_def elim!: andthen_OkE dest: ask_arenas split: if_splits)

text \<open>When the step ends well, it has read, scanned and repaired the arena.\<close>

lemma arena_map_flog_OkE:
  assumes "pmempool_check_arena_map_flog k s = (Ok CHECK_RESULT_CONSISTENT, s')" and "k < length (pc_arenas s)"
  obtains a1 a inval flog_inval unmap a'
  where "pmempool_check_read_flog (pc_file s) (pc_arenas s ! k) = (True, a1)"
    and "pmempool_check_read_map (pc_file s) a1 = (True, a)"
    and "arena_scan (tinfo a) (the (ta_map a)) (the (ta_flog a)) = Some (inval, flog_inval, unmap)"
    and "length unmap = length inval + length flog_inval"
    and "repair_arena a (the (ta_map a)) (the (ta_flog a)) inval flog_inval unmap = (CHECK_RESULT_CONSISTENT, a')"
    and "pc_arenas s' ! k = a'"
  using assms unfolding pmempool_check_arena_map_flog_def Let_def
  by (auto simp: ret_def gets_def stuck_def set_arena_def update_def elim!: andthen_OkE dest!: ask_unless_arenas
      split: prod.splits if_splits option.splits)

text \<open>
  C15 When the step on the map and the flog of an arena ends without complaint, the arena in memory has
  no fault left: a second scan finds no invalid entry and no unmapped block, every flog pair has a
  current half, and the map and the flog together name every block of the arena, none of them
  twice.
\<close>

theorem arena_map_flog_repairs:
  assumes "pmempool_check_arena_map_flog k s = (Ok CHECK_RESULT_CONSISTENT, s')" and "k < length (pc_arenas s)"
    and "unat (info_internal_nlba (tinfo (pc_arenas s ! k))) \<le> 2 ^ 30"
  shows "\<exists>mp flog. pc_arenas s' ! k = (pc_arenas s ! k)\<lparr>ta_flog := Some flog, ta_map := Some mp\<rparr>
     \<and> arena_scan (tinfo (pc_arenas s ! k)) mp flog = Some ([], [], [])
     \<and> distinct (arena_blocks (tinfo (pc_arenas s ! k)) mp flog)
     \<and> {0..<unat (info_internal_nlba (tinfo (pc_arenas s ! k)))} \<subseteq> set (arena_blocks (tinfo (pc_arenas s ! k)) mp flog)
     \<and> (\<forall>i < unat (info_nfree (tinfo (pc_arenas s ! k))). flog_pair_cur flog i \<noteq> None)"
proof -
  let ?a = "pc_arenas s ! k"
  obtain a1 a inval flog_inval unmap a' where
    rf: "pmempool_check_read_flog (pc_file s) ?a = (True, a1)" and
    rm: "pmempool_check_read_map (pc_file s) a1 = (True, a)" and
    sc: "arena_scan (tinfo a) (the (ta_map a)) (the (ta_flog a)) = Some (inval, flog_inval, unmap)" and
    cnt: "length unmap = length inval + length flog_inval" and
    re: "repair_arena a (the (ta_map a)) (the (ta_flog a)) inval flog_inval unmap = (CHECK_RESULT_CONSISTENT, a')"
      "pc_arenas s' ! k = a'"
    by (rule arena_map_flog_OkE [OF assms(1,2)])
  obtain fl mp0 where a: "a1 = ?a\<lparr>ta_flog := Some fl\<rparr>" "a = ?a\<lparr>ta_flog := Some fl, ta_map := Some mp0\<rparr>"
    using read_areas(1) [OF rf] read_areas(2) [OF rm] by auto
  have "64 * unat (info_nfree (tinfo a)) \<le> length (the (ta_flog a))"
    using flog_area_room [OF rf] by (simp add: a)
  then obtain mp flog where r: "repair_arena a (the (ta_map a)) (the (ta_flog a)) inval flog_inval unmap =
      (CHECK_RESULT_CONSISTENT, a\<lparr>ta_map := Some mp, ta_flog := Some flog\<rparr>)"
    and clean: "arena_scan (tinfo ?a) mp flog = Some ([], [], [])"
    using repair_arena_clean [OF sc cnt, of a] assms(3) by (fastforce simp: a(2))
  have "pc_arenas s' ! k = ?a\<lparr>ta_flog := Some flog, ta_map := Some mp\<rparr>"
    using r re a(2) by auto
  then show ?thesis using clean clean_scan_partition [OF clean] by blast
qed

text \<open>
  An arena of two blocks, one lane and a single map entry, whose file holds zeros: the map entry names
  block 0, the flog pair is invalid, and the repair gives it the unmapped block 1.
\<close>

definition demo_info :: btt_info where
  "demo_info = \<lparr>info_sig = Sig, info_parent_uuid = replicate 16 0,
     info_flags = 0, info_major = 1, info_minor = 1, info_external_lbasize = 512, info_external_nlba = 1,
     info_internal_lbasize = 512, info_internal_nlba = 2, info_nfree = 1, info_infosize = 4096, info_nextoff = 0,
     info_dataoff = 4096, info_mapoff = 8192, info_flogoff = 12288, info_infooff = 16384,
     info_unused = replicate 3984 0, info_checksum = 0\<rparr>"

definition demo_tarena :: tarena where
  "demo_tarena = zero_tarena\<lparr>ta_info := bytes_of_info demo_info, ta_valid := True, ta_offset := 8192\<rparr>"

definition demo_check :: pmempool_check where
  "demo_check = \<lparr>pc_repair = True, pc_backup = False, pc_exec = True, pc_ptype = PMEM_POOL_TYPE_BLK,
     pc_hdr = [], pc_uuid_op = UUID_NOP, pc_bttc = zero_tarena, pc_arenas = [demo_tarena], pc_ans = CHR ''y'',
     pc_file = \<lparr>file_size = 32768, file_data = (\<lambda>_. 0)\<rparr>, pc_mtime = 0, pc_stdin = [], pc_uuid = [], pc_io = [],
     pc_room = 1\<rparr>"

lemma demo_tinfo: "tinfo demo_tarena = demo_info" "ta_offset demo_tarena = 8192"
  by (simp_all add: demo_tarena_def demo_info_def wf_info_def Sig_def c_str_def info_of_bytes_of_info)

lemma zeros: "mem_read (\<lambda>_. 0) a n = replicate n 0" "le_dec (replicate n 0) = 0"
  "le_at k (replicate n 0) off = 0"
proof -
  show dec: "le_dec (replicate n 0) = 0" for n by (induction n) simp_all
  show "mem_read (\<lambda>_. 0) a n = replicate n 0" by (simp add: mem_read_def map_replicate_const)
  show "le_at k (replicate n 0) off = 0" by (simp add: le_at_def dec)
qed

lemma demo_scan: "arena_scan demo_info (replicate 4096 0) (replicate 4096 0) = Some ([], [0], [1])"
proof -
  have "map_entry_block (replicate 4096 0) 0 = 0" by (simp add: map_entry_block_def zeros)
  moreover have "flog_pair_cur (replicate 4096 0) 0 = None"
    by (simp add: flog_pair_cur_def pmempool_check_check_flog_def flog_at_def zeros)
  moreover have "[0..<Suc 0] = [0]" "[0..<2] = [0, Suc 0]" by (simp_all add: upt_rec)
  ultimately show ?thesis
    by (simp add: arena_scan_def demo_info_def list_insert_def)
qed

theorem arena_map_flog_repairs_witness:
  "\<exists>s' mp flog. pmempool_check_arena_map_flog 0 demo_check = (Ok CHECK_RESULT_CONSISTENT, s')
     \<and> pc_arenas s' ! 0 = demo_tarena\<lparr>ta_flog := Some flog, ta_map := Some mp\<rparr>
     \<and> distinct (arena_blocks (tinfo demo_tarena) mp flog)
     \<and> {0..<2} \<subseteq> set (arena_blocks (tinfo demo_tarena) mp flog)"
proof -
  have sizes: "unat (flog_area_size 1) = 4096" "unat (map_area_size 1) = 4096"
    by (simp_all add: flog_area_size_def map_area_size_def roundup_def btt_consts)
  have "\<exists>s'. pmempool_check_arena_map_flog 0 demo_check = (Ok CHECK_RESULT_CONSISTENT, s')"
    unfolding pmempool_check_arena_map_flog_def
    by (simp add: demo_check_def pmempool_check_read_flog_def pmempool_check_read_map_def demo_tinfo demo_info_def sizes pread_def
        zeros demo_scan [unfolded demo_info_def] set_arena_def ask_unless_empty_def repair_arena_def ret_def
        pc_ask_def ask_Yn_def ask_yn_def ask_def andthen_def gets_def update_def Let_def)
  then obtain s' where s': "pmempool_check_arena_map_flog 0 demo_check = (Ok CHECK_RESULT_CONSISTENT, s')" ..
  have "0 < length (pc_arenas demo_check)" "unat (info_internal_nlba (tinfo (pc_arenas demo_check ! 0))) \<le> 2 ^ 30"
    by (simp_all add: demo_check_def demo_tinfo demo_info_def)
  from arena_map_flog_repairs [OF s' this] show ?thesis
    using s' by (auto simp: demo_check_def demo_tinfo demo_info_def)
qed

end
