(* ===== verification/Tool_Btt.thy ===== *)
theory Tool_Btt
  imports Tool_Repair
begin

text \<open>
  Where the command meets the block translation table: rebuilding a layout through the BTT
  functions, and the choice of the current flog entry, compared with \<open>btt.c\<close>.
\<close>

section \<open>Rebuilding a layout\<close>

abbreviation check_cb :: "btt_context ns_callback" where
  "check_cb \<equiv> pmempool_check_btt_ns_callback"

lemma check_ns_zero:
  assumes "ns_cbp b = check_cb"
  shows "ns_zero lane n off b = (Err EINVAL, b\<lparr>ns := (ns b)\<lparr>btc_crashed := True\<rparr>\<rparr>)"
  using assms by (simp add: ns_zero_def pmempool_check_btt_ns_callback_def null_nszero_def)

lemma check_ns_read:
  assumes "ns_cbp b = check_cb" and "btc_len (ns b) = rs" and "2 ^ 24 \<le> unat rs"
  shows "ns_read lane 4096 0 b = (Ok (mem_read (btc_area (ns b)) 0 4096), b)"
  using assms by (simp add: ns_read_def pmempool_check_btt_ns_callback_def pmempool_check_nsread_def word_less_nat_alt)

lemma read_info_invalid:
  assumes "pmempool_check_check_btt bs \<noteq> 1"
  shows "read_info b bs = None"
  using assms by (auto simp: pmempool_check_check_btt_def read_info_def Let_def split: if_splits)

lemma mem_read_shift: "mem_read (\<lambda>i. m (a + i)) 0 n = mem_read m a n"
  by (auto simp: list_eq_iff_nth_eq)

text \<open>Laying out the arena stops at the first \<open>nszero\<close>.\<close>

lemma check_layout_crash:
  assumes "ns_cbp b = check_cb" and "fmt_size_ok (rawsize b) (lbasize b)" and "nfree b = 256"
  shows "\<exists>e b'. write_layout lane True b = (Err e, b') \<and> btc_crashed (ns b')"
proof -
  let ?b = "b\<lparr>narena := 1\<rparr>"
  let ?ilb = "layout_internal_lbasize (lbasize b)"
  let ?inlba = "(rawsize b - 2 * 4096 - 16384 - BTT_ALIGNMENT) div ucast (?ilb + BTT_MAP_ENTRY_SIZE)"
  let ?c = "?b\<lparr>ns := (ns b)\<lparr>btc_crashed := True\<rparr>\<rparr>"
  note w = layout_words [OF assms(2)] and one = one_arena [OF assms(2)]
  have minsize: "\<not> BTT_MIN_SIZE \<le> 0" by (simp add: btt_consts)
  have off: "rawsize b - 4096 - 16384 = rawsize b - 2 * 4096 - 16384 + 4096" by simp
  have zeroed: "ns_is_zeroed check_cb = False" by (simp add: pmempool_check_btt_ns_callback_def)
  have arena: "layout_arena lane 16384 ?ilb 0 (rawsize b) ?inlba 0 ?b = (Err EINVAL, ?c)"
    using w(7,8) w(6) [symmetric] assms(1,3) check_ns_zero [of ?b lane]
    by (simp add: layout_arena_def Let_def zeroed andthen_def assert_def)
  have enough: "\<not> ?inlba < ucast (2 * nfree b)"
    using w(1) fmt_arena_unat(10) [OF assms(2)] assms(3) by (simp add: word_less_nat_alt)
  have "layout_loop lane True 16384 ?ilb (rawsize b) 0 0 0 ?b = (Err EINVAL, ?c)"
    using enough arena one(2,3) by (subst layout_loop.simps) (simp add: Let_def)
  then show ?thesis using write_layout_eq [OF assms(2,3), of lane True] by simp
qed

lemma check_btt_init:
  assumes "fmt_size_ok rs lb" and "btc_len nsc = rs" and "pmempool_check_check_btt (mem_read (btc_area nsc) 0 4096) \<noteq> 1"
  shows "\<exists>b. btt_init rs lb uuid maxlane nsc check_cb = (Ok b, nsc) \<and> ns_cbp b = check_cb \<and> ns b = nsc
     \<and> rawsize b = rs \<and> lbasize b = lb \<and> nfree b = 256 \<and> \<not> laidout b \<and> nlba b \<noteq> 0"
proof -
  let ?b = "(fresh_btt rs lb uuid nsc check_cb)\<lparr>nfree := 256\<rparr>"
  let ?E = "ucast (external_nlba (fmt_arena rs (layout_internal_lbasize lb))) :: u64"
  have R: "2 ^ 24 \<le> unat rs" "\<not> rs < BTT_MIN_SIZE" "BTT_MIN_SIZE \<le> rs"
    using fmt_size_min [OF assms(1)] one_arena(3) [OF assms(1)] by (auto simp: not_less)
  have rd: "ns_read 0 4096 0 ?b = (Ok (mem_read (btc_area nsc) 0 4096), ?b)"
    using check_ns_read [of ?b rs 0] R(1) assms(2) by (simp add: fresh_btt_def)
  have none: "read_info ?b (mem_read (btc_area nsc) 0 4096) = None" by (rule read_info_invalid [OF assms(3)])
  have scan: "read_layout_loop 0 rs 0 0 (- 1) 0 ?b = (Ok NoLayout, ?b)"
    using R(2) rd none by (subst read_layout_loop.simps) simp
  have lay: "write_layout 0 False ?b = (Ok (), ?b\<lparr>narena := 1, nlba := ?E\<rparr>)"
    using write_layout_eq [of ?b 0 False] layout_loop_one(1) [of "?b\<lparr>narena := 1\<rparr>" 0] assms(1)
    by (simp add: fresh_btt_def)
  have "read_layout 0 (fresh_btt rs lb uuid nsc check_cb) = (Ok (), ?b\<lparr>narena := 1, nlba := ?E\<rparr>)"
    using scan lay R(3) by (simp add: read_layout_def andthen_def gets_def assert_def update_def BTT_DEFAULT_NFREE_def fresh_btt_def)
  moreover have "unat ?E \<noteq> 0"
    using fmt_arena_unat(1,10) [OF assms(1)] by (simp add: unat_ucast_32_64)
  then have "?E \<noteq> 0" by (metis unat_0)
  ultimately show ?thesis using R(2) by (simp add: btt_init_def fresh_btt_def)
qed

text \<open>
  C19 When neither the info block of an arena nor its backup is valid, the command offers to
  restore the BTT layout from the arena up to the next valid info block at \<open>endoff\<close>, or up to the end of the
  file when there is none (\<open>endoff = 0\<close>).  When the area can be mapped and is that of one arena
  (a multiple of 64 of at least 16 MiB and at most 4 GiB, blocks of at most 2 GiB, at least 512 internal blocks) this
  never succeeds, in either case: the callbacks it hands to the BTT functions have no \<open>nszero\<close>, and
  writing the layout calls it.
\<close>

theorem advanced_repair_crashes:
  assumes "pmempool_check_check_btt (mem_read (file_data (pc_file s)) (unat start) 4096) \<noteq> 1"
    and e: "e = (if endoff = 0 then of_nat (file_size (pc_file s)) else endoff)"
    and "\<not> mmap_refuses (e - start) start"
    and "fmt_size_ok (e - start) (le_at 4 (pc_hdr s) BLK_BSIZE_OFF)"
  shows "fst (pmempool_check_btt_info_advanced_repair start endoff s) = Stuck"
proof -
  let ?lb = "le_at 4 (pc_hdr s) BLK_BSIZE_OFF :: u32"
  let ?nsc = "\<lparr>btc_area = (\<lambda>i. file_data (pc_file s) (unat start + i)), btc_len = e - start, btc_crashed = False\<rparr>"
  have inv: "pmempool_check_check_btt (mem_read (btc_area ?nsc) 0 4096) \<noteq> 1"
    using assms(1) mem_read_shift [of "file_data (pc_file s)" "unat start" 4096] by simp
  obtain b where b: "btt_init (e - start) ?lb (hdr_uuid (hdr_of_bytes (pc_pool s))) (unat BTT_DEFAULT_NFREE) ?nsc check_cb
      = (Ok b, ?nsc)" "ns_cbp b = check_cb" "rawsize b = e - start" "lbasize b = ?lb" "nfree b = 256" "\<not> laidout b" "nlba b \<noteq> 0"
    using check_btt_init [OF assms(4) _ inv] by auto
  obtain e b' where w: "write_layout 0 True b = (Err e, b')" "btc_crashed (ns b')"
    using check_layout_crash [of b 0] b assms(4) by auto
  have "btt_write 0 0 buf b = (Err e, b')" for buf
    using w(1) b(6,7) by (simp add: btt_write_def ensure_layout_def invalid_lba_def andthen_def gets_def)
  then show ?thesis
    using assms(3) b(1) w(2) by (simp add: pmempool_check_btt_info_advanced_repair_def Let_def e [symmetric])
qed

section \<open>The current flog entry\<close>

text \<open>
  C18 For sequence numbers below 4, the only ones that \<open>btt.c\<close> writes: whenever the command takes a half
  of a flog pair for the current one, \<open>btt.c\<close> does too; but
  of the three states a pair goes through while blocks are written, where one half holds the
  sequence number after that of the other, the command accepts a single one and calls the two others
  invalid, although \<open>btt.c\<close> reads them.  From 4 on the two can
  differ, because the command looks at the low four bits of a number and \<open>btt.c\<close> at two: of the numbers 0x21
  and 0x12 the command takes the half with the second and \<open>btt.c\<close> the one with the first.
\<close>

theorem check_flog_choice:
  "(flog_seq f0 < 4 \<and> flog_seq f1 < 4 \<and> pmempool_check_check_flog f0 f1 = Some c \<longrightarrow>
      (\<exists>n. flog_current f0 f1 = Some (c, n)))
   \<and> (s \<in> {1, 2, 3} \<and> flog_seq g0 = s \<and> flog_seq g1 = NSEQ s \<longrightarrow>
      flog_current g0 g1 = Some (g1, 0) \<and> flog_current g1 g0 = Some (g1, 1) \<and>
      pmempool_check_check_flog g0 g1 = (if s = 1 then Some g1 else None) \<and>
      pmempool_check_check_flog g1 g0 = (if s = 1 then Some g1 else None))
   \<and> (flog_seq h0 = 0x21 \<and> flog_seq h1 = 0x12 \<longrightarrow>
      flog_current h0 h1 = Some (h0, 1) \<and> pmempool_check_check_flog h0 h1 = Some h1)"
proof -
  have seq: "q = 0 \<or> q = 1 \<or> q = 2 \<or> q = 3" if "q < 4" for q :: u32
  proof -
    have "unat q < 4" using that by (simp add: word_less_nat_alt)
    then have "unat q = unat (0::u32) \<or> unat q = unat (1::u32) \<or> unat q = unat (2::u32) \<or> unat q = unat (3::u32)" by auto
    then show ?thesis by (simp only: word_unat_eq_iff)
  qed
  have "\<exists>n. flog_current f0 f1 = Some (c, n)"
    if "flog_seq f0 < 4" "flog_seq f1 < 4" "pmempool_check_check_flog f0 f1 = Some c"
    using seq [OF that(1)] seq [OF that(2)] that(3)
    by (auto simp: pmempool_check_check_flog_def flog_current_def split: if_splits)
  moreover have "flog_current g0 g1 = Some (g1, 0) \<and> flog_current g1 g0 = Some (g1, 1) \<and>
      pmempool_check_check_flog g0 g1 = (if s = 1 then Some g1 else None) \<and>
      pmempool_check_check_flog g1 g0 = (if s = 1 then Some g1 else None)"
    if "s \<in> {1, 2, 3}" "flog_seq g0 = s" "flog_seq g1 = NSEQ s"
    using that by (auto simp: pmempool_check_check_flog_def flog_current_def)
  moreover have "flog_current h0 h1 = Some (h0, 1) \<and> pmempool_check_check_flog h0 h1 = Some h1"
    if "flog_seq h0 = 0x21" "flog_seq h1 = 0x12"
    using that by (simp add: pmempool_check_check_flog_def flog_current_def NSEQ_def Nseq_def)
  ultimately show ?thesis by blast
qed

theorem check_flog_choice_witness:
  "\<exists>f0 f1 g0 g1. (\<exists>n. flog_current f0 f1 = Some (f1, n)) \<and> pmempool_check_check_flog f0 f1 = Some f1
     \<and> flog_current g0 g1 = Some (g1, 0) \<and> pmempool_check_check_flog g0 g1 = None
     \<and> (\<exists>h0 h1. flog_current h0 h1 = Some (h0, 1) \<and> pmempool_check_check_flog h0 h1 = Some h1)"
proof -
  define f :: "u32 \<Rightarrow> btt_flog" where "f q = Zflog\<lparr>flog_seq := q\<rparr>" for q
  have f: "flog_seq (f q) = q" for q by (simp add: f_def)
  have "pmempool_check_check_flog (f 1) (f 2) = Some (f 2)" by (simp add: pmempool_check_check_flog_def f)
  then show ?thesis
    using check_flog_choice [of "f 1" "f 2" "f 2" 2 "f 2" "f 3" "f 0x21" "f 0x12"] f
    by (intro exI [of _ "f 1"] exI [of _ "f 2"] exI [of _ "f 2"] exI [of _ "f 3"]) auto
qed

text \<open>
  A file of ones, whose only arena of 16 MB has lost both info blocks, so that the area goes up to the end of
  the file.
\<close>

theorem advanced_repair_crashes_witness:
  "fst (pmempool_check_btt_info_advanced_repair 8192 0
     (demo_check\<lparr>pc_file := \<lparr>file_size = 16785408, file_data = (\<lambda>_. 1)\<rparr>,
        pc_hdr := replicate 4096 0 @ le_enc 4 (512 :: u32)\<rparr>)) = Stuck"
proof -
  have ones: "mem_read (\<lambda>_. 1 :: byte) a n = replicate n 1" for a n by (simp add: mem_read_def map_replicate_const)
  have "take 16 (replicate 4096 (1 :: byte)) \<noteq> Sig"
    by (simp add: Sig_def c_str_def numeral_eq_Suc)
  then have info: "pmempool_check_check_btt (replicate 4096 1) \<noteq> 1"
    by (simp add: pmempool_check_check_btt_def info_of_bytes_def)
  have bsize: "le_at 4 (replicate 4096 0 @ le_enc 4 (512 :: u32)) BLK_BSIZE_OFF = (512 :: u32)"
    by (simp add: le_at_def BLK_BSIZE_OFF_def)
  have ilb: "layout_internal_lbasize 512 = 512"
    by (simp add: layout_internal_lbasize_def roundup_def btt_consts)
  have fmt: "fmt_size_ok 16777216 512"
    by (simp add: fmt_size_ok_def ilb fmt_nlba_def btt_consts)
  show ?thesis
    by (rule advanced_repair_crashes [where e = 16785408]) (simp_all add: ones info bsize fmt mmap_refuses_def)
qed

end
