(* ===== verification/Tool_Log.thy ===== *)
theory Tool_Log
  imports Tool_Repair
begin

text \<open>
  The repair of a log pool: every step of the command answered with yes, up to the file that
  \<open>libpmemlog\<close> opens again.
\<close>

section \<open>Headers changed by field\<close>

lemma splice_same: "off + length new \<le> length bs \<Longrightarrow> take (length new) (drop off bs) = new \<Longrightarrow> splice off new bs = bs"
  unfolding splice_def by (metis append_take_drop_id drop_drop add.commute)

lemma splice_le_same:
  assumes "off + n \<le> length bs" and "8 * n = LENGTH('a)" and "le_at n bs off = (w :: 'a::len word)"
  shows "splice off (le_enc n w) bs = bs"
proof (rule splice_same)
  show "off + length (le_enc n w) \<le> length bs" using assms(1) by simp
  show "take (length (le_enc n w)) (drop off bs) = le_enc n w"
    using assms le_enc_dec [of n "take n (drop off bs)", where 'a = 'a] by (simp add: le_at_def)
qed

section \<open>Answering yes\<close>

lemma ask_yes: "pc_ans s = CHR ''y'' \<Longrightarrow> pc_ask s = (Ok CHR ''y'', s)"
  by (simp add: pc_ask_def ask_Yn_def ask_yn_def ask_def ret_def)

lemma hdr_put_eq: "hdr_put off new s = (Ok (), s\<lparr>pc_hdr := splice off new (pc_hdr s)\<rparr>)"
  by (simp add: hdr_put_def update_def)

lemma fix_u32_yes:
  assumes "pc_ans s = CHR ''y''" and "off + 4 \<le> length (pc_hdr s)"
  shows "fix_u32 off v s = (Ok (), s\<lparr>pc_hdr := splice off (le_enc 4 v) (pc_hdr s)\<rparr>)"
proof (cases "le_at 4 (pc_hdr s) off = v")
  case True
  then show ?thesis
    using assms splice_le_same [of off 4 "pc_hdr s" v]
    by (simp add: fix_u32_def ask_put_def ret_def)
next
  case False
  then show ?thesis
    using assms by (simp add: fix_u32_def ask_put_def ask_yes andthen_def hdr_put_def update_def gets_def)
qed

text \<open>The header with the default values of its type, and zeros in the unused bytes when they are not.\<close>

definition log_defaults :: "byte list \<Rightarrow> byte list" where
  "log_defaults h =
     splice 20 (le_enc 4 LOG_FORMAT_RO_COMPAT) (splice 16 (le_enc 4 LOG_FORMAT_INCOMPAT)
       (splice 12 (le_enc 4 LOG_FORMAT_COMPAT) (splice 8 (le_enc 4 LOG_FORMAT_MAJOR) h)))"

lemma hdr_defaults_log:
  assumes "pc_ans s = CHR ''y''" and "4096 \<le> length (pc_hdr s)" and "pc_ptype s = PMEM_POOL_TYPE_LOG"
  shows "\<exists>h. hdr_defaults s = (Ok (), s\<lparr>pc_hdr := h\<rparr>)
     \<and> (h = log_defaults (pc_hdr s) \<or> h = splice 48 (replicate 4040 0) (log_defaults (pc_hdr s)))"
proof -
  let ?s = "\<lambda>h. s\<lparr>pc_hdr := h\<rparr>"
  have "hdr_defaults s = andthen (gets (\<lambda>s. \<not> util_check_memory (hdr_unused (hdr_of_bytes (pc_pool s))) 0))
      (\<lambda>bad. ask_put bad 48 (replicate 4040 0)) (?s (log_defaults (pc_hdr s)))"
    using assms
    by (simp add: hdr_defaults_def andthen_Ok [OF fix_u32_yes] log_defaults_def)
  then show ?thesis
    using assms by (auto simp: ask_put_def ask_yes andthen_def gets_def hdr_put_def update_def ret_def comp_def)
qed

section \<open>The pool header\<close>

text \<open>A header whose type, version and features \<open>libpmemlog\<close> accepts.\<close>

definition log_hdr_ok :: "byte list \<Rightarrow> bool" where
  "log_hdr_ok h \<longleftrightarrow> length h = unat SIZEOF_PMEMBLK \<and> strncmp_eq (take 8 h) LOG_HDR_SIG POOL_HDR_SIG_LEN \<and>
     le_at 4 h 8 = LOG_FORMAT_MAJOR \<and> le_at 4 h 16 = (0 :: u32) \<and> le_at 4 h 20 = (0 :: u32)"

lemma log_hdr_ok_splice:
  assumes "log_hdr_ok h" and "24 \<le> off" and "off + length new \<le> length h"
  shows "log_hdr_ok (splice off new h)"
proof -
  have "take 8 (splice off new h) = take 8 h" using splice_disjoint [of off new h 0 8] assms by simp
  then show ?thesis using assms by (simp add: log_hdr_ok_def le_at_splice)
qed

lemma log_defaults_ok:
  assumes "length h = unat SIZEOF_PMEMBLK" and "strncmp_eq (take 8 h) LOG_HDR_SIG POOL_HDR_SIG_LEN"
  shows "log_hdr_ok (log_defaults h)"
proof -
  have len: "length h = 4176" using assms(1) by (simp add: SIZEOF_PMEMBLK_def)
  have "take 8 (splice off new h') = take 8 h'" if "8 \<le> off" "off + length new \<le> length h'" for off new h'
    using splice_disjoint [of off new h' 0 8] that by simp
  then have "take 8 (log_defaults h) = take 8 h" using len by (simp add: log_defaults_def)
  moreover have "le_at 4 (log_defaults h) 8 = LOG_FORMAT_MAJOR"
      "le_at 4 (log_defaults h) 16 = LOG_FORMAT_INCOMPAT" "le_at 4 (log_defaults h) 20 = LOG_FORMAT_RO_COMPAT"
    using len by (simp_all add: log_defaults_def le_at_splice le_at_splice_here)
  moreover have "length (log_defaults h) = length h" using len by (simp add: log_defaults_def)
  ultimately show ?thesis
    using assms by (simp add: log_hdr_ok_def LOG_FORMAT_INCOMPAT_def LOG_FORMAT_RO_COMPAT_def)
qed

definition csum_ok :: "byte list \<Rightarrow> bool" where
  "csum_ok h \<longleftrightarrow> fst (util_checksum (take POOL_HDR_SIZE h) POOL_HDR_CSUM False)"

text \<open>Storing the checksum is a change of the checksum field.\<close>

lemma csum_splice:
  assumes "4096 \<le> length h"
  defines "h' \<equiv> with_csum POOL_HDR_CSUM (take POOL_HDR_SIZE h) @ drop POOL_HDR_SIZE h"
  shows "\<exists>c. h' = splice 4088 (le_enc 8 (c :: u64)) h" and "csum_ok h'"
proof -
  let ?c = "fletcher64 (take 4096 h) 4088"
  have "h' = splice 4088 (le_enc 8 ?c) h"
    using assms(1) by (simp add: h'_def util_checksum_def splice_def POOL_HDR_CSUM_def POOL_HDR_SIZE_def min_def)
  then show "\<exists>c. h' = splice 4088 (le_enc 8 (c :: u64)) h" ..
  have "take POOL_HDR_SIZE h' = with_csum POOL_HDR_CSUM (take POOL_HDR_SIZE h)"
    using assms(1) by (simp add: h'_def POOL_HDR_SIZE_def POOL_HDR_CSUM_def)
  then show "csum_ok h'"
    using assms(1) verify_with_csum [of POOL_HDR_CSUM "take POOL_HDR_SIZE h"]
    by (simp add: csum_ok_def POOL_HDR_SIZE_def POOL_HDR_CSUM_def)
qed

text \<open>The state while the header is repaired: what changes is the header and the note about the UUID.\<close>

definition hdr_step :: "pmempool_check \<Rightarrow> pmempool_check \<Rightarrow> bool" where
  "hdr_step s s' \<longleftrightarrow> (\<exists>h u. s' = s\<lparr>pc_hdr := h, pc_uuid_op := u\<rparr>) \<and> log_hdr_ok (pc_hdr s')"

lemma hdr_stepI: "log_hdr_ok h \<Longrightarrow> hdr_step s (s\<lparr>pc_hdr := h\<rparr>)"
proof -
  have "s\<lparr>pc_hdr := h\<rparr> = s\<lparr>pc_hdr := h, pc_uuid_op := pc_uuid_op s\<rparr>" by simp
  then show "log_hdr_ok h \<Longrightarrow> hdr_step s (s\<lparr>pc_hdr := h\<rparr>)" unfolding hdr_step_def by fastforce
qed

lemma hdr_regenerate_log:
  assumes "pc_ans s = CHR ''y''" and "log_hdr_ok (pc_hdr s)" and "pc_uuid_op s = UUID_NOP" and "length (pc_uuid s) = 16"
  shows "\<exists>s'. hdr_regenerate s = (Ok CHECK_RESULT_REPAIRED, s') \<and> hdr_step s s' \<and> csum_ok (pc_hdr s')"
proof -
  have len: "length h = 4176" if "log_hdr_ok h" for h using that by (simp add: log_hdr_ok_def SIZEOF_PMEMBLK_def)
  obtain h1 where c: "hdr_crtime_step s = (Ok None, s\<lparr>pc_hdr := h1\<rparr>)" "log_hdr_ok h1"
  proof (cases "pc_mtime s < hdr_crtime (hdr_of_bytes (pc_pool s))")
    case True
    then show ?thesis
      using assms len [OF assms(2)] log_hdr_ok_splice [OF assms(2), of 40 "le_enc 8 (pc_mtime s)"]
      by (intro that [of "splice 40 (le_enc 8 (pc_mtime s)) (pc_hdr s)"])
        (simp_all add: hdr_crtime_step_def ask_yes andthen_def gets_def hdr_put_def update_def ret_def)
  next
    case False
    then show ?thesis
      using assms by (intro that [of "pc_hdr s"]) (simp_all add: hdr_crtime_step_def ret_def)
  qed
  let ?h2 = "splice 24 (pc_uuid s) h1"
  have h2: "log_hdr_ok ?h2" using c(2) len [OF c(2)] assms(4) by (intro log_hdr_ok_splice) auto
  have u: "hdr_uuid_step (s\<lparr>pc_hdr := h1\<rparr>) = (Ok None, s\<lparr>pc_hdr := ?h2, pc_uuid_op := UUID_REGENERATED\<rparr>)"
    using assms by (simp add: hdr_uuid_step_def ask_yes andthen_def gets_def hdr_put_def update_def ret_def comp_def)
  let ?h3 = "with_csum POOL_HDR_CSUM (take POOL_HDR_SIZE ?h2) @ drop POOL_HDR_SIZE ?h2"
  obtain k where "?h3 = splice 4088 (le_enc 8 (k :: u64)) ?h2" "csum_ok ?h3"
    using csum_splice [of ?h2] len [OF h2] by auto
  then have h3: "log_hdr_ok ?h3" "csum_ok ?h3"
    using log_hdr_ok_splice [OF h2, of 4088 "le_enc 8 k"] len [OF h2] by auto
  have "hdr_regenerate s = (Ok CHECK_RESULT_REPAIRED, s\<lparr>pc_hdr := ?h3, pc_uuid_op := UUID_REGENERATED\<rparr>)"
    using assms(1) c(1) u by (simp add: hdr_regenerate_def or_return_def andthen_def ask_yes update_def ret_def)
  then show ?thesis using h3 by (auto simp: hdr_step_def)
qed

lemma hdr_repair_log:
  assumes "pc_ans s = CHR ''y''" and "length (pc_hdr s) = unat SIZEOF_PMEMBLK"
    and "strncmp_eq (take 8 (pc_hdr s)) LOG_HDR_SIG POOL_HDR_SIG_LEN"
    and "pc_uuid_op s = UUID_NOP" and "length (pc_uuid s) = 16" and "pc_ptype s = PMEM_POOL_TYPE_LOG"
  shows "\<exists>s'. hdr_repair s = (Ok CHECK_RESULT_REPAIRED, s') \<and> hdr_step s s' \<and> csum_ok (pc_hdr s')"
proof -
  have len: "length (pc_hdr s) = 4176" using assms(2) by (simp add: SIZEOF_PMEMBLK_def)
  have "pmem_pool_type_parse_hdr (pc_pool s) = PMEM_POOL_TYPE_LOG"
    using assms(3) by (simp add: pmem_pool_type_parse_hdr_def hdr_of_bytes_def POOL_HDR_SIZE_def min_def)
  then have t: "hdr_pool_type s = (Ok None, s)"
    using assms(6) by (simp add: hdr_pool_type_def ret_def)
  obtain h where d: "hdr_defaults s = (Ok (), s\<lparr>pc_hdr := h\<rparr>)"
    "h = log_defaults (pc_hdr s) \<or> h = splice 48 (replicate 4040 0) (log_defaults (pc_hdr s))"
    using hdr_defaults_log [OF assms(1) _ assms(6)] len by auto
  have ld: "log_hdr_ok (log_defaults (pc_hdr s))" using log_defaults_ok assms by blast
  then have h: "log_hdr_ok h"
    using d(2) log_hdr_ok_splice [OF ld, of 48 "replicate 4040 0"] by (auto simp: log_hdr_ok_def SIZEOF_PMEMBLK_def)
  let ?s = "s\<lparr>pc_hdr := h\<rparr>"
  have u: "hdr_uuid_from_btt ?s = (Ok (), ?s)"
    using assms(6) by (simp add: hdr_uuid_from_btt_def Let_def ret_def)
  have run: "hdr_repair s = (if csum_ok h then (Ok CHECK_RESULT_REPAIRED, ?s) else hdr_regenerate ?s)"
    using t d(1) u by (simp add: hdr_repair_def or_return_def andthen_def gets_def hdr_checksum_ok_def csum_ok_def ret_def)
  show ?thesis
  proof (cases "csum_ok h")
    case True
    then show ?thesis using run hdr_stepI [OF h] by simp
  next
    case False
    obtain s' where "hdr_regenerate ?s = (Ok CHECK_RESULT_REPAIRED, s')" "hdr_step ?s s'" "csum_ok (pc_hdr s')"
      using hdr_regenerate_log [of ?s] assms h by auto
    then show ?thesis using run False by (auto simp: hdr_step_def)
  qed
qed

text \<open>What the repair of a log pool starts from.\<close>

definition log_start :: "pmempool_check \<Rightarrow> bool" where
  "log_start s \<longleftrightarrow> pc_ans s = CHR ''y'' \<and> pc_repair s \<and> pc_exec s \<and> pc_io s = [] \<and>
     pc_ptype s = PMEM_POOL_TYPE_LOG \<and> pc_uuid_op s = UUID_NOP \<and> length (pc_uuid s) = 16 \<and>
     length (pc_hdr s) = unat SIZEOF_PMEMBLK \<and> unat LOG_DATA_OFF \<le> file_size (pc_file s) \<and> file_size (pc_file s) < 2 ^ 63"

text \<open>A file of type log whose header, when its checksum is right, is one of this version.\<close>

definition log_file :: "pfile \<Rightarrow> bool" where
  "log_file f \<longleftrightarrow> (let h = mem_read (file_data f) 0 POOL_HDR_SIZE in
     strncmp_eq (take 8 h) LOG_HDR_SIG POOL_HDR_SIG_LEN \<and>
     (csum_ok h \<longrightarrow> le_at 4 h 8 = LOG_FORMAT_MAJOR \<and> le_at 4 h 16 = (0 :: u32) \<and> le_at 4 h 20 = (0 :: u32)))"

lemma pool_hdr_log:
  assumes "log_start s" and "log_file (pc_file s)"
  shows "\<exists>res s'. pmempool_check_pool_hdr s = (Ok res, s') \<and> res \<in> {CHECK_RESULT_CONSISTENT, CHECK_RESULT_REPAIRED}
     \<and> hdr_step s s' \<and> csum_ok (pc_hdr s')"
proof -
  let ?bs = "mem_read (file_data (pc_file s)) 0 POOL_HDR_SIZE"
  let ?h = "?bs @ drop POOL_HDR_SIZE (pc_hdr s)"
  let ?s = "s\<lparr>pc_hdr := ?h\<rparr>"
  have data: "unat LOG_DATA_OFF = 8192" by (simp add: LOG_DATA_OFF_def roundup_def SIZEOF_PMEMLOG_def LOG_FORMAT_DATA_ALIGN_def)
  have rd: "pread (pc_file s) POOL_HDR_SIZE 0 = ?bs"
    using assms(1) data by (simp add: pread_def log_start_def POOL_HDR_SIZE_def)
  have len: "length ?h = unat SIZEOF_PMEMBLK" using assms(1) by (simp add: log_start_def POOL_HDR_SIZE_def SIZEOF_PMEMBLK_def)
  have pool: "take POOL_HDR_SIZE ?h = ?bs" by simp
  have sig: "strncmp_eq (take 8 ?h) LOG_HDR_SIG POOL_HDR_SIG_LEN"
    using assms(2) by (simp add: log_file_def Let_def POOL_HDR_SIZE_def)
  have ok: "log_hdr_ok ?h" if "csum_ok ?h"
  proof -
    have "csum_ok ?bs" using that pool by (simp add: csum_ok_def)
    then show ?thesis
      using assms(2) len sig by (simp add: log_hdr_ok_def log_file_def Let_def le_at_append1 POOL_HDR_SIZE_def)
  qed
  have fill: "pc_hdr_update (fill_buf ?bs) s = ?s" "take POOL_HDR_SIZE (fill_buf ?bs (pc_hdr s)) = ?bs"
    by (simp_all add: fill_buf_def)
  have run: "pmempool_check_pool_hdr s =
      (if \<not> util_check_memory ?bs 0 \<and> csum_ok ?h then (Ok CHECK_RESULT_CONSISTENT, ?s) else hdr_repair ?s)"
    using assms(1) pool
    by (simp add: pmempool_check_pool_hdr_def pc_pread_def rd fill hdr_checksum_ok_def csum_ok_def
        log_start_def ret_def andthen_def gets_def update_def)
  show ?thesis
  proof (cases "\<not> util_check_memory ?bs 0 \<and> csum_ok ?h")
    case True
    then show ?thesis
      using run hdr_stepI [OF ok] by (intro exI [of _ CHECK_RESULT_CONSISTENT] exI [of _ ?s]) simp
  next
    case False
    obtain s' where "hdr_repair ?s = (Ok CHECK_RESULT_REPAIRED, s')" "hdr_step ?s s'" "csum_ok (pc_hdr s')"
      using hdr_repair_log [of ?s] assms(1) len sig by (auto simp: log_start_def)
    then show ?thesis using run False by (auto simp: hdr_step_def)
  qed
qed

section \<open>The log header\<close>

text \<open>The three offsets of the log header.\<close>

definition log_offs_ok :: "byte list \<Rightarrow> u64 \<Rightarrow> bool" where
  "log_offs_ok h sz \<longleftrightarrow> le_at 8 h LOG_START_OFF = LOG_DATA_OFF \<and> le_at 8 h LOG_END_OFF = sz \<and>
     LOG_DATA_OFF \<le> le_at 8 h LOG_WRITE_OFF \<and> le_at 8 h LOG_WRITE_OFF \<le> sz"

lemma with_log_fix_yes:
  assumes "pc_ans s = CHR ''y''" and "pc_repair s"
  shows "with_log_fix off bad v res k s =
    (if bad (le_at 8 (pc_hdr s) off) then k CHECK_RESULT_REPAIRED (s\<lparr>pc_hdr := splice off (le_enc 8 v) (pc_hdr s)\<rparr>)
     else k res s)"
  using assms
  by (simp add: with_log_fix_def log_fix_def ask_yes andthen_def gets_def hdr_put_eq ret_def)

lemma with_log_fix_eq:
  assumes "pc_ans s = CHR ''y''" and "pc_repair s" and "off + 8 \<le> length (pc_hdr s)"
  shows "with_log_fix off (\<lambda>x. x \<noteq> v) v res k s =
    k (if le_at 8 (pc_hdr s) off = v then res else CHECK_RESULT_REPAIRED) (s\<lparr>pc_hdr := splice off (le_enc 8 v) (pc_hdr s)\<rparr>)"
  using assms splice_le_same [of off 8 "pc_hdr s" v] by (simp add: with_log_fix_yes)

lemma pmemlog_log:
  assumes ans: "pc_ans s = CHR ''y''" "pc_repair s" and ok: "log_hdr_ok (pc_hdr s)" "csum_ok (pc_hdr s)"
    and size: "8192 \<le> file_size (pc_file s)" "file_size (pc_file s) < 2 ^ 63"
  defines "sz \<equiv> of_nat (file_size (pc_file s)) :: u64" and "w \<equiv> log_field (file_data (pc_file s)) LOG_WRITE_OFF"
  shows "\<exists>res h. pmempool_check_pmemlog s = (Ok res, s\<lparr>pc_hdr := h\<rparr>) \<and> res \<in> {CHECK_RESULT_CONSISTENT, CHECK_RESULT_REPAIRED}
     \<and> log_hdr_ok h \<and> csum_ok h \<and> log_offs_ok h sz
     \<and> (LOG_DATA_OFF \<le> w \<and> w \<le> sz \<longrightarrow> le_at 8 h LOG_WRITE_OFF = w)"
proof -
  let ?t = "mem_read (file_data (pc_file s)) 4096 56"
  let ?h0 = "splice 4096 ?t (pc_hdr s)"
  have len: "length (pc_hdr s) = 4176" using ok(1) by (simp add: log_hdr_ok_def SIZEOF_PMEMBLK_def)
  have data: "LOG_DATA_OFF = 8192" by (simp add: LOG_DATA_OFF_def roundup_def SIZEOF_PMEMLOG_def LOG_FORMAT_DATA_ALIGN_def)
  have usz: "unat sz = file_size (pc_file s)" using size(2) by (simp add: sz_def unsigned_of_nat take_bit_nat_eq_self_iff)
  have "LOG_DATA_OFF \<le> sz" using usz size(1) by (simp add: word_le_nat_alt data)
  have rd: "pmempool_check_read_pmemlog s = (Ok True, s\<lparr>pc_hdr := ?h0\<rparr>)"
    using size by (simp add: pmempool_check_read_pmemlog_def read_tail_def pc_pread_def pread_def POOL_HDR_SIZE_def
        SIZEOF_PMEMLOG_def hdr_put_def min_def ret_def)
  have keep: "log_hdr_ok (splice off b h) \<and> csum_ok (splice off b h)"
    if "log_hdr_ok h" "csum_ok h" "4096 \<le> off" "off + length b \<le> 4176" for off b h
  proof -
    have "take 4096 (splice off b h) = take 4096 h"
      using splice_disjoint [of off b h 0 4096] that by (simp add: log_hdr_ok_def SIZEOF_PMEMBLK_def)
    then show ?thesis using that log_hdr_ok_splice [of h off b] by (simp add: csum_ok_def POOL_HDR_SIZE_def log_hdr_ok_def SIZEOF_PMEMBLK_def)
  qed
  let ?s1 = "splice LOG_START_OFF (le_enc 8 LOG_DATA_OFF)" and ?s2 = "splice LOG_END_OFF (le_enc 8 sz)"
    and ?s3 = "splice LOG_WRITE_OFF (le_enc 8 sz)"
  note offs = LOG_START_OFF_def LOG_END_OFF_def LOG_WRITE_OFF_def
  have h0: "log_hdr_ok ?h0" "csum_ok ?h0" "length ?h0 = 4176" using keep [OF ok, of 4096 ?t] len by auto
  define h1 where "h1 = ?s1 ?h0"
  define h2 where "h2 = ?s2 h1"
  have h1: "log_hdr_ok h1" "csum_ok h1" "length h1 = 4176"
    using keep [OF h0(1,2), of LOG_START_OFF "le_enc 8 LOG_DATA_OFF"] h0(3) by (auto simp: offs h1_def)
  have h2: "log_hdr_ok h2" "csum_ok h2" "length h2 = 4176"
    using keep [OF h1(1,2), of LOG_END_OFF "le_enc 8 sz"] h1(3) by (auto simp: offs h2_def)
  have f: "le_at 8 h2 LOG_START_OFF = LOG_DATA_OFF" "le_at 8 h2 LOG_END_OFF = sz" "le_at 8 h2 LOG_WRITE_OFF = w"
    using h0(3) h1(3) len by (simp_all add: h2_def h1_def offs le_at_splice le_at_splice_here)
      (simp add: w_def log_field_def offs le_at_def splice_def drop_mem_read take_mem_read)
  have run: "\<exists>r \<in> {CHECK_RESULT_CONSISTENT, CHECK_RESULT_REPAIRED}. pmempool_check_pmemlog s =
      with_log_fix LOG_WRITE_OFF (\<lambda>x. x < LOG_DATA_OFF \<or> sz < x) sz r ret (s\<lparr>pc_hdr := h2\<rparr>)"
    using h0(3) h1(3) ans rd
    by (simp add: pmempool_check_pmemlog_def andthen_def gets_def sz_def [symmetric] with_log_fix_eq offs
        h1_def [unfolded offs, symmetric] h2_def [unfolded offs, symmetric])
  show ?thesis
  proof (cases "w < LOG_DATA_OFF \<or> sz < w")
    case True
    have "log_offs_ok (?s3 h2) sz"
      using f h2(3) \<open>LOG_DATA_OFF \<le> sz\<close> by (simp add: log_offs_ok_def offs le_at_splice le_at_splice_here)
    moreover have "log_hdr_ok (?s3 h2)" "csum_ok (?s3 h2)"
      using keep [OF h2(1,2), of LOG_WRITE_OFF "le_enc 8 sz"] by (simp_all add: offs)
    moreover have "pmempool_check_pmemlog s = (Ok CHECK_RESULT_REPAIRED, s\<lparr>pc_hdr := ?s3 h2\<rparr>)"
      using run ans f True by (auto simp: with_log_fix_yes ret_def)
    ultimately show ?thesis using True by (auto simp: not_le)
  next
    case False
    then have "log_offs_ok h2 sz" using f by (simp add: log_offs_ok_def not_less)
    moreover have "\<exists>res. pmempool_check_pmemlog s = (Ok res, s\<lparr>pc_hdr := h2\<rparr>) \<and> res \<in> {CHECK_RESULT_CONSISTENT, CHECK_RESULT_REPAIRED}"
      using run ans f False by (auto simp: with_log_fix_yes ret_def)
    ultimately show ?thesis using f(3) h2(1,2) by blast
  qed
qed

section \<open>The whole command\<close>

lemma write_log_log:
  assumes "pc_repair s" "pc_exec s" "pc_io s = []" and "length (pc_hdr s) = unat SIZEOF_PMEMBLK"
  shows "pmempool_check_write_log s =
    (Ok CHECK_RESULT_CONSISTENT, s\<lparr>pc_file := file_write (take (unat SIZEOF_PMEMLOG) (pc_hdr s)) 0 (pc_file s)\<rparr>)"
  using assms
  by (simp add: pmempool_check_write_log_def pc_pwrite_def io_ok_def andthen_def gets_def update_def ret_def)

lemma single_step_skip:
  "fst st AND type_bits (pc_ptype s) = 0 \<Longrightarrow> pmempool_check_single_step st res s = (Ok (False, res), s)"
  by (simp add: pmempool_check_single_step_def ret_def)

lemma single_step_go:
  assumes "fst st AND type_bits (pc_ptype s) \<noteq> 0" and "snd st s = (Ok r, s')"
    and "r \<in> {CHECK_RESULT_CONSISTENT, CHECK_RESULT_REPAIRED}"
  shows "pmempool_check_single_step st res s = (Ok (False, if r = CHECK_RESULT_CONSISTENT then res else r), s')"
  using assms by (auto simp: pmempool_check_single_step_def andthen_def gets_def ret_def)

text \<open>
  The steps on a log pool: the file afterwards has a header and offsets that \<open>libpmemlog\<close> accepts,
  and everything behind the structure is unchanged.
\<close>

lemma log_steps:
  assumes st: "log_start s" and lf: "log_file (pc_file s)"
  shows "\<exists>res s' h. run_steps pmempool_check_steps CHECK_RESULT_CONSISTENT s = (Ok res, s')
     \<and> res \<in> {CHECK_RESULT_CONSISTENT, CHECK_RESULT_REPAIRED}
     \<and> pc_file s' = file_write (take (unat SIZEOF_PMEMLOG) h) 0 (pc_file s)
     \<and> log_hdr_ok h \<and> csum_ok h \<and> log_offs_ok h (of_nat (file_size (pc_file s)))
     \<and> (LOG_DATA_OFF \<le> log_field (file_data (pc_file s)) LOG_WRITE_OFF \<and>
        log_field (file_data (pc_file s)) LOG_WRITE_OFF \<le> of_nat (file_size (pc_file s)) \<longrightarrow>
        le_at 8 h LOG_WRITE_OFF = log_field (file_data (pc_file s)) LOG_WRITE_OFF)"
proof -
  have data: "unat LOG_DATA_OFF = 8192" by (simp add: LOG_DATA_OFF_def roundup_def SIZEOF_PMEMLOG_def LOG_FORMAT_DATA_ALIGN_def)
  obtain r1 s1 where 1: "pmempool_check_pool_hdr s = (Ok r1, s1)" "r1 \<in> {CHECK_RESULT_CONSISTENT, CHECK_RESULT_REPAIRED}"
      "hdr_step s s1" "csum_ok (pc_hdr s1)"
    using pool_hdr_log [OF st lf] by blast
  obtain g u where s1: "s1 = s\<lparr>pc_hdr := g, pc_uuid_op := u\<rparr>" "log_hdr_ok (pc_hdr s1)" using 1(3) by (auto simp: hdr_step_def)
  obtain r2 h where 2: "pmempool_check_pmemlog s1 = (Ok r2, s1\<lparr>pc_hdr := h\<rparr>)" "r2 \<in> {CHECK_RESULT_CONSISTENT, CHECK_RESULT_REPAIRED}"
      "log_hdr_ok h" "csum_ok h" "log_offs_ok h (of_nat (file_size (pc_file s)))"
      "LOG_DATA_OFF \<le> log_field (file_data (pc_file s)) LOG_WRITE_OFF \<and>
        log_field (file_data (pc_file s)) LOG_WRITE_OFF \<le> of_nat (file_size (pc_file s)) \<longrightarrow>
        le_at 8 h LOG_WRITE_OFF = log_field (file_data (pc_file s)) LOG_WRITE_OFF"
    using pmemlog_log [of s1] s1 1(4) st data by (auto simp: log_start_def)
  let ?s2 = "s1\<lparr>pc_hdr := h\<rparr>"
  let ?s3 = "?s2\<lparr>pc_file := file_write (take (unat SIZEOF_PMEMLOG) h) 0 (pc_file s)\<rparr>"
  have 3: "pmempool_check_write_log ?s2 = (Ok CHECK_RESULT_CONSISTENT, ?s3)"
    using write_log_log [of ?s2] st s1(1) 2(3) by (simp add: log_start_def log_hdr_ok_def)
  have t: "pc_ptype s = PMEM_POOL_TYPE_LOG" "pc_ptype ?s2 = PMEM_POOL_TYPE_LOG" "pc_ptype ?s3 = PMEM_POOL_TYPE_LOG"
      "pc_ptype s1 = PMEM_POOL_TYPE_LOG"
    using st s1(1) by (simp_all add: log_start_def)
  have go1: "pmempool_check_single_step (b, pmempool_check_pool_hdr) res s =
      (Ok (False, if r1 = CHECK_RESULT_CONSISTENT then res else r1), s1)" if "b AND 1 \<noteq> 0" for b res
    using single_step_go [of "(b, pmempool_check_pool_hdr)" s r1 s1 res] t(1) 1(1,2) that by simp
  have go2: "pmempool_check_single_step (1, pmempool_check_pmemlog) res s1 =
      (Ok (False, if r2 = CHECK_RESULT_CONSISTENT then res else r2), ?s2)" for res
    using single_step_go [of "(1, pmempool_check_pmemlog)" s1 r2 ?s2 res] t(4) 2(1,2) by simp
  have go3: "pmempool_check_single_step (1, pmempool_check_write_log) res ?s2 = (Ok (False, res), ?s3)" for res
    using single_step_go [of "(1, pmempool_check_write_log)" ?s2 CHECK_RESULT_CONSISTENT ?s3 res] t(2) 3 by simp
  have skip: "pmempool_check_single_step (2, p) res q = (Ok (False, res), q)" if "pc_ptype q = PMEM_POOL_TYPE_LOG" for p res q
    by (rule single_step_skip) (simp add: that)
  let ?res = "if r2 = CHECK_RESULT_CONSISTENT then if r1 = CHECK_RESULT_CONSISTENT then CHECK_RESULT_CONSISTENT else r1 else r2"
  have "run_steps pmempool_check_steps CHECK_RESULT_CONSISTENT s = (Ok ?res, ?s3)"
    unfolding pmempool_check_steps_def using t
    by (simp add: andthen_def go1 go2 go3 skip ret_def)
  moreover have "?res \<in> {CHECK_RESULT_CONSISTENT, CHECK_RESULT_REPAIRED}" using 1(2) 2(2) by auto
  moreover have "pc_file ?s3 = file_write (take (unat SIZEOF_PMEMLOG) h) 0 (pc_file s)" by simp
  ultimately show ?thesis using 2(3-6) by blast
qed

text \<open>The checks of \<open>libpmemlog\<close> on such a header.\<close>

lemma log_check_of_hdr:
  assumes ok: "log_hdr_ok h" "csum_ok h" "log_offs_ok h sz" and sz: "LOG_DATA_OFF \<le> sz"
    and m: "mem_read m 0 (unat SIZEOF_PMEMLOG) = take (unat SIZEOF_PMEMLOG) h"
  shows "log_check_hdr m sz False = Inr False"
proof -
  have m: "mem_read m 0 4152 = take 4152 h" using m by (simp add: SIZEOF_PMEMLOG_def)
  have len: "length h = 4176" using ok(1) by (simp add: log_hdr_ok_def SIZEOF_PMEMBLK_def)
  have "mem_read m 0 4096 = take 4096 (mem_read m 0 4152)" by (simp add: take_mem_read)
  then have pool: "mem_read m 0 POOL_HDR_SIZE = take 4096 h" by (simp add: m POOL_HDR_SIZE_def)
  have "log_field m off = le_at 8 (mem_read m 0 4152) off" if "off + 8 \<le> 4152" for off
    using that by (simp add: log_field_def le_at_mem_read)
  then have offs: "log_field m off = le_at 8 h off" if "off + 8 \<le> 4152" for off
    using that len by (simp add: m le_at_def drop_take min_def)
  have at: "le_at 4 (take 4096 h) off = (le_at 4 h off :: u32)" if "off + 4 \<le> 4096" for off
    using that by (simp add: le_at_def drop_take min_def)
  have conv: "util_convert_hdr (take 4096 h) = Some (hdr_of_bytes (take 4096 h))"
    using ok(1,2) by (simp add: util_convert_hdr_def Let_def csum_ok_def POOL_HDR_SIZE_def hdr_of_bytes_def at
        log_hdr_ok_def LOG_FORMAT_MAJOR_def)
  have feat: "util_feature_check (hdr_of_bytes (take 4096 h)) LOG_FORMAT_INCOMPAT LOG_FORMAT_RO_COMPAT LOG_FORMAT_COMPAT = Inr True"
    using ok(1) by (simp add: util_feature_check_def hdr_of_bytes_def at log_hdr_ok_def)
  have fields: "log_field m LOG_START_OFF = LOG_DATA_OFF" "log_field m LOG_END_OFF = sz"
      "\<not> sz < log_field m LOG_WRITE_OFF" "\<not> log_field m LOG_WRITE_OFF < LOG_DATA_OFF"
    using ok(3) offs by (simp_all add: log_offs_ok_def LOG_START_OFF_def LOG_END_OFF_def LOG_WRITE_OFF_def not_less)
  have "strncmp_eq (hdr_signature (hdr_of_bytes (take 4096 h))) LOG_HDR_SIG POOL_HDR_SIG_LEN"
      "hdr_major (hdr_of_bytes (take 4096 h)) = LOG_FORMAT_MAJOR"
    using ok(1) by (simp_all add: log_hdr_ok_def hdr_of_bytes_def at min_def)
  then show ?thesis
    unfolding log_check_hdr_def pool conv using fields feat sz by (simp add: Let_def not_less)
qed

text \<open>
  C14 \<open>pmempool check -r -y\<close>, with the file open for writing and every read and write succeeding, on a file of
  2 MiB to 2 ^ 63 bytes that still has the signature of a log pool.  If the checksum of its pool header is
  right, the header must have the major version of the library and no incompatible or read-only
  compatible features, because the command does not look further; if the checksum is wrong, anything but the
  signature may be, in the pool header and in the log's own.  Then the command ends with
  status 0, the pool has its size, the data behind the headers is untouched, a write offset that
  pointed into the data is kept, and \<open>pmemlog_open\<close>, when it can map the file, opens the pool for writing.
\<close>

theorem check_repairs_log:
  assumes "fs fname = Some f" and "log_file f" and "PMEMLOG_MIN_POOL \<le> file_size f" and "file_size f < 2 ^ 63"
    and "ce_io env = []" and "length (ce_uuid env) = 16" and "ce_can_open env fname"
  shows "\<exists>f' p. pmempool_check_func env [(CHR ''r'', CHR 0x00), (CHR ''y'', CHR 0x00)] (Some fname) fs = (Ok 0, fs(fname \<mapsto> f'))
     \<and> file_size f' = file_size f
     \<and> (\<forall>i. unat LOG_DATA_OFF \<le> i \<and> i < file_size f \<longrightarrow> file_data f' i = file_data f i)
     \<and> (LOG_DATA_OFF \<le> log_field (file_data f) LOG_WRITE_OFF \<and>
        log_field (file_data f) LOG_WRITE_OFF \<le> of_nat (file_size f) \<longrightarrow>
        log_field (file_data f') LOG_WRITE_OFF = log_field (file_data f) LOG_WRITE_OFF)
     \<and> fst (pmemlog_open (\<lambda>_. None) lenv (fs(fname \<mapsto> f')) fname) = Ok p \<and> \<not> log_rdonly p"
proof -
  have data: "LOG_DATA_OFF = 8192" by (simp add: LOG_DATA_OFF_def roundup_def SIZEOF_PMEMLOG_def LOG_FORMAT_DATA_ALIGN_def)
  have size: "2097152 \<le> file_size f" using assms(3) by (simp add: PMEMLOG_MIN_POOL_def)
  let ?pc = "(pmempool_check_default env)\<lparr>pc_repair := True, pc_ans := CHR ''y'', pc_ptype := PMEM_POOL_TYPE_LOG\<rparr>"
  have hdr: "pread f POOL_HDR_SIZE 0 = mem_read (file_data f) 0 POOL_HDR_SIZE"
    using size by (simp add: pread_def POOL_HDR_SIZE_def)
  have ptype: "fst (pmem_pool_parse_params fs fname) = PMEM_POOL_TYPE_LOG"
    using assms(1,2) by (simp add: pmem_pool_parse_params_def Let_def hdr pmem_pool_type_parse_hdr_def hdr_of_bytes_def
        log_file_def)
  have "log_start (?pc\<lparr>pc_file := f\<rparr>)"
    using assms(4-6) size by (simp add: log_start_def pmempool_check_default_def data)
  from log_steps [OF this] assms(2) obtain res s' h where
    run: "run_steps pmempool_check_steps CHECK_RESULT_CONSISTENT (?pc\<lparr>pc_file := f\<rparr>) = (Ok res, s')"
      "res \<in> {CHECK_RESULT_CONSISTENT, CHECK_RESULT_REPAIRED}"
      "pc_file s' = file_write (take (unat SIZEOF_PMEMLOG) h) 0 f"
    and h: "log_hdr_ok h" "csum_ok h" "log_offs_ok h (of_nat (file_size f))"
      "LOG_DATA_OFF \<le> log_field (file_data f) LOG_WRITE_OFF \<and> log_field (file_data f) LOG_WRITE_OFF \<le> of_nat (file_size f) \<longrightarrow>
        le_at 8 h LOG_WRITE_OFF = log_field (file_data f) LOG_WRITE_OFF"
    by auto
  let ?f = "file_write (take (unat SIZEOF_PMEMLOG) h) 0 f"
  have len: "length h = 4176" using h(1) by (simp add: log_hdr_ok_def SIZEOF_PMEMBLK_def)
  have func: "pmempool_check_func env [(CHR ''r'', CHR 0x00), (CHR ''y'', CHR 0x00)] (Some fname) fs = (Ok 0, fs(fname \<mapsto> ?f))"
  proof -
    have args: "pmempool_check_parse_args [(CHR ''r'', CHR 0x00), (CHR ''y'', CHR 0x00)] (Some fname) (pmempool_check_default env)
        = Inr ((pmempool_check_default env)\<lparr>pc_repair := True, pc_ans := CHR ''y''\<rparr>, fname)"
      by (simp add: pmempool_check_parse_args_def parse_opt_def pmempool_check_default_def)
    have "pc_backup ?pc = False" by (simp add: pmempool_check_default_def)
    then have "pmempool_check_all_steps (ce_can_create env) (ce_can_open env) fname ?pc fs = (Ok res, s', fs(fname \<mapsto> ?f))"
      using run(1,3) assms(1,7) by (simp add: pmempool_check_all_steps_def)
    then show ?thesis using run(2) by (auto simp: pmempool_check_func_def args ptype Let_def result_status_def)
  qed
  have fsize: "file_size ?f = file_size f" using len size by (simp add: file_write_def SIZEOF_PMEMLOG_def)
  have keep: "\<forall>i. unat LOG_DATA_OFF \<le> i \<and> i < file_size f \<longrightarrow> file_data ?f i = file_data f i"
    using len by (simp add: file_write_def SIZEOF_PMEMLOG_def mem_write_def data)
  have mem: "mem_read (file_data ?f) 0 (unat SIZEOF_PMEMLOG) = take (unat SIZEOF_PMEMLOG) h"
    using len by (simp add: file_write_def SIZEOF_PMEMLOG_def)
  have "LOG_DATA_OFF \<le> of_nat (file_size f)"
    using size assms(4) by (simp add: word_le_nat_alt data unsigned_of_nat take_bit_nat_eq_self)
  note check = log_check_of_hdr [OF h(1-3) this mem]
  have "mem_read (file_data ?f) 4112 8 = take 8 (drop 4112 (mem_read (file_data ?f) 0 (unat SIZEOF_PMEMLOG)))"
    by (simp add: drop_mem_read take_mem_read SIZEOF_PMEMLOG_def)
  then have "log_field (file_data ?f) LOG_WRITE_OFF = le_at 8 h LOG_WRITE_OFF"
    unfolding mem using len by (simp add: log_field_def LOG_WRITE_OFF_def le_at_def SIZEOF_PMEMLOG_def drop_take min_def)
  moreover have "\<exists>p. fst (pmemlog_open (\<lambda>_. None) lenv (fs(fname \<mapsto> ?f)) fname) = Ok p \<and> \<not> log_rdonly p"
    using check fsize assms(3)
    by (simp add: pmemlog_open_def util_pool_open_def log_map_file_def pmemlog_map_common_def log_boot_def)
  ultimately show ?thesis using func fsize keep h(4) by metis
qed

text \<open>A log pool of the smallest size of which only the signature and the version are left.\<close>

definition demo_log :: pfile where
  "demo_log = \<lparr>file_size = 2097152, file_data = mem_write (\<lambda>_. 0) 0 (LOG_HDR_SIG @ le_enc 4 LOG_FORMAT_MAJOR)\<rparr>"

definition demo_check_env :: check_env where
  "demo_check_env = \<lparr>ce_mtime = 0, ce_stdin = [], ce_uuid = replicate 16 7, ce_io = [], ce_room = 0,
     ce_can_create = (\<lambda>_. True), ce_can_open = (\<lambda>_. True)\<rparr>"

lemma demo_log_bytes:
  "mem_read (file_data demo_log) 0 POOL_HDR_SIZE = LOG_HDR_SIG @ le_enc 4 LOG_FORMAT_MAJOR @ replicate 4084 0"
proof -
  have len: "length LOG_HDR_SIG = 8" by (simp add: LOG_HDR_SIG_def c_str_def)
  have "mem_read (file_data demo_log) 0 (12 + 4084) =
      mem_read (file_data demo_log) 0 12 @ mem_read (file_data demo_log) 12 4084"
    using mem_read_append [of "file_data demo_log" 0 12 4084] by simp
  moreover have "mem_read (file_data demo_log) 0 12 = LOG_HDR_SIG @ le_enc 4 LOG_FORMAT_MAJOR"
    using len by (simp add: demo_log_def)
  moreover have "mem_read (file_data demo_log) 12 4084 = replicate 4084 0"
    using len by (simp add: demo_log_def mem_read_write_disjoint zeros)
  ultimately show ?thesis by (simp add: POOL_HDR_SIZE_def)
qed

lemma demo_log_file: "log_file demo_log"
proof -
  have len: "length LOG_HDR_SIG = 8" by (simp add: LOG_HDR_SIG_def c_str_def)
  have "le_at 4 (LOG_HDR_SIG @ le_enc 4 LOG_FORMAT_MAJOR @ replicate 4084 0) 8 = LOG_FORMAT_MAJOR"
    using len by (simp add: le_at_def)
  moreover have "le_at 4 (LOG_HDR_SIG @ le_enc 4 LOG_FORMAT_MAJOR @ replicate 4084 0) off = (0 :: u32)"
    if "off \<in> {16, 20}" for off
    using len that le_at_append2 [of "LOG_HDR_SIG @ le_enc 4 LOG_FORMAT_MAJOR" off 4 "replicate 4084 0"]
    by (auto simp: zeros)
  ultimately show ?thesis using len by (simp add: log_file_def Let_def demo_log_bytes)
qed

theorem check_repairs_log_witness:
  "\<forall>lenv. \<exists>f' p. pmempool_check_func demo_check_env [(CHR ''r'', CHR 0x00), (CHR ''y'', CHR 0x00)] (Some ''log'') [''log'' \<mapsto> demo_log]
       = (Ok 0, [''log'' \<mapsto> f'])
     \<and> fst (pmemlog_open (\<lambda>_. None) lenv [''log'' \<mapsto> f'] ''log'') = Ok p \<and> \<not> log_rdonly p"
proof
  fix lenv
  show "\<exists>f' p. pmempool_check_func demo_check_env [(CHR ''r'', CHR 0x00), (CHR ''y'', CHR 0x00)] (Some ''log'') [''log'' \<mapsto> demo_log]
       = (Ok 0, [''log'' \<mapsto> f'])
     \<and> fst (pmemlog_open (\<lambda>_. None) lenv [''log'' \<mapsto> f'] ''log'') = Ok p \<and> \<not> log_rdonly p"
    using check_repairs_log [of "[''log'' \<mapsto> demo_log]" "''log''" demo_log demo_check_env lenv] demo_log_file
    by (auto simp: demo_check_env_def PMEMLOG_MIN_POOL_def demo_log_def)
qed

section \<open>The verdict on a log pool\<close>

lemma util_check_memory_iff: "util_check_memory bs v \<longleftrightarrow> (\<forall>b \<in> set bs. b = v)"
  by (induction bs) auto

lemma log_sig_nonzero:
  assumes "strncmp_eq (take 8 bs) LOG_HDR_SIG POOL_HDR_SIG_LEN" and "bs \<noteq> []"
  shows "\<not> util_check_memory bs 0"
proof -
  obtain b l where bs: "bs = b # l" using assms(2) by (cases bs) auto
  have "strncmp_eq (b # take 7 l) (80 # tl LOG_HDR_SIG) (Suc 7)"
    using assms(1) by (simp add: bs take_Cons' LOG_HDR_SIG_def c_str_def POOL_HDR_SIG_LEN_def)
  then have "b = 80" unfolding strncmp_eq.simps by blast
  then show ?thesis by (simp add: bs)
qed

lemma with_log_fix_no:
  assumes "\<not> pc_repair s"
  shows "with_log_fix off bad v res k s = (if bad (le_at 8 (pc_hdr s) off) then (Ok CHECK_RESULT_NOT_CONSISTENT, s) else k res s)"
  using assms by (simp add: with_log_fix_def log_fix_def ret_def andthen_def gets_def)

text \<open>The conditions under which the command calls a log pool consistent.\<close>

definition log_sound :: "pfile \<Rightarrow> bool" where
  "log_sound f \<longleftrightarrow> csum_ok (mem_read (file_data f) 0 POOL_HDR_SIZE) \<and>
     log_field (file_data f) LOG_START_OFF = LOG_DATA_OFF \<and>
     log_field (file_data f) LOG_END_OFF = of_nat (file_size f) \<and>
     LOG_DATA_OFF \<le> log_field (file_data f) LOG_WRITE_OFF \<and>
     log_field (file_data f) LOG_WRITE_OFF \<le> of_nat (file_size f)"

lemma log_steps_no_repair:
  assumes "\<not> pc_repair s" and "pc_ptype s = PMEM_POOL_TYPE_LOG" and "length (pc_hdr s) = unat SIZEOF_PMEMBLK"
    and "8192 \<le> file_size (pc_file s)"
    and "strncmp_eq (take 8 (mem_read (file_data (pc_file s)) 0 POOL_HDR_SIZE)) LOG_HDR_SIG POOL_HDR_SIG_LEN"
  shows "\<exists>s'. run_steps pmempool_check_steps CHECK_RESULT_CONSISTENT s =
     (Ok (if log_sound (pc_file s) then CHECK_RESULT_CONSISTENT else CHECK_RESULT_NOT_CONSISTENT), s') \<and> pc_file s' = pc_file s"
proof -
  let ?bs = "mem_read (file_data (pc_file s)) 0 POOL_HDR_SIZE" and ?t = "mem_read (file_data (pc_file s)) 4096 56"
  let ?s1 = "s\<lparr>pc_hdr := ?bs @ drop POOL_HDR_SIZE (pc_hdr s)\<rparr>"
  let ?h2 = "splice 4096 ?t (?bs @ drop POOL_HDR_SIZE (pc_hdr s))"
  let ?s2 = "s\<lparr>pc_hdr := ?h2\<rparr>"
  have len: "length (pc_hdr s) = 4176" "length (pc_hdr ?s1) = 4176" "length ?h2 = 4176"
    using assms(3) by (simp_all add: SIZEOF_PMEMBLK_def POOL_HDR_SIZE_def)
  have rd: "pread (pc_file s) POOL_HDR_SIZE 0 = ?bs" using assms(4) by (simp add: pread_def POOL_HDR_SIZE_def)
  have fill: "pc_hdr_update (fill_buf ?bs) s = ?s1" "take POOL_HDR_SIZE (fill_buf ?bs (pc_hdr s)) = ?bs"
    by (simp_all add: fill_buf_def)
  have nz: "\<not> util_check_memory ?bs 0" using log_sig_nonzero [OF assms(5)] by (simp add: POOL_HDR_SIZE_def mem_read_def)
  have 1: "pmempool_check_pool_hdr s = (Ok (if csum_ok ?bs then CHECK_RESULT_CONSISTENT else CHECK_RESULT_NOT_CONSISTENT), ?s1)"
    using assms(1) nz fill
    by (simp add: pmempool_check_pool_hdr_def pc_pread_def rd hdr_checksum_ok_def csum_ok_def ret_def andthen_def gets_def update_def)
  have rd2: "pmempool_check_read_pmemlog ?s1 = (Ok True, ?s2)"
    using assms(4) by (simp add: pmempool_check_read_pmemlog_def read_tail_def pc_pread_def pread_def POOL_HDR_SIZE_def
        SIZEOF_PMEMLOG_def hdr_put_def min_def ret_def comp_def)
  have "le_at 8 ?h2 off = log_field (file_data (pc_file s)) off" if "4096 \<le> off" "off + 8 \<le> 4152" for off
  proof -
    have h2: "?h2 = ?bs @ ?t @ drop 4152 (pc_hdr ?s1)" by (simp add: splice_def POOL_HDR_SIZE_def)
    have "le_at 8 ?h2 off = le_at 8 ?t (off - 4096)"
      unfolding h2 using that by (simp add: le_at_append2 le_at_append1 POOL_HDR_SIZE_def)
    then show ?thesis using that by (simp add: le_at_mem_read log_field_def)
  qed
  then have f: "le_at 8 ?h2 LOG_START_OFF = log_field (file_data (pc_file s)) LOG_START_OFF"
      "le_at 8 ?h2 LOG_END_OFF = log_field (file_data (pc_file s)) LOG_END_OFF"
      "le_at 8 ?h2 LOG_WRITE_OFF = log_field (file_data (pc_file s)) LOG_WRITE_OFF"
    by (simp_all add: LOG_START_OFF_def LOG_END_OFF_def LOG_WRITE_OFF_def)
  let ?r2 = "if log_field (file_data (pc_file s)) LOG_START_OFF = LOG_DATA_OFF \<and>
       log_field (file_data (pc_file s)) LOG_END_OFF = of_nat (file_size (pc_file s)) \<and>
       LOG_DATA_OFF \<le> log_field (file_data (pc_file s)) LOG_WRITE_OFF \<and>
       log_field (file_data (pc_file s)) LOG_WRITE_OFF \<le> of_nat (file_size (pc_file s))
     then CHECK_RESULT_CONSISTENT else CHECK_RESULT_NOT_CONSISTENT"
  have 2: "pmempool_check_pmemlog ?s1 = (Ok ?r2, ?s2)"
    using assms(1) f unfolding pmempool_check_pmemlog_def andthen_Ok [of pmempool_check_read_pmemlog ?s1, OF rd2]
    by (auto simp: with_log_fix_no ret_def andthen_def gets_def not_less)
  have 3: "pmempool_check_write_log ?s2 = (Ok CHECK_RESULT_CONSISTENT, ?s2)"
    using assms(1) by (simp add: pmempool_check_write_log_def ret_def)
  have step1: "pmempool_check_single_step (143, pmempool_check_pool_hdr) CHECK_RESULT_CONSISTENT s =
      (Ok (if csum_ok ?bs then (False, CHECK_RESULT_CONSISTENT) else (True, CHECK_RESULT_NOT_CONSISTENT)), ?s1)"
    using assms(1,2) 1 by (simp add: pmempool_check_single_step_def andthen_def gets_def ret_def)
  have step2: "pmempool_check_single_step (1, pmempool_check_pmemlog) CHECK_RESULT_CONSISTENT ?s1 =
      (Ok (if ?r2 = CHECK_RESULT_CONSISTENT then (False, CHECK_RESULT_CONSISTENT) else (True, CHECK_RESULT_NOT_CONSISTENT)), ?s2)"
    using assms(1,2) 2 by (simp add: pmempool_check_single_step_def andthen_def gets_def ret_def)
  have step3: "pmempool_check_single_step (1, pmempool_check_write_log) res ?s2 = (Ok (False, res), ?s2)" for res
    using assms(2) 3 by (simp add: pmempool_check_single_step_def andthen_def gets_def ret_def)
  have skip: "pmempool_check_single_step (2, p) res ?s2 = (Ok (False, res), ?s2)" for p res
    by (rule single_step_skip) (simp add: assms(2))
  have "run_steps pmempool_check_steps CHECK_RESULT_CONSISTENT s =
      (Ok (if log_sound (pc_file s) then CHECK_RESULT_CONSISTENT else CHECK_RESULT_NOT_CONSISTENT), if csum_ok ?bs then ?s2 else ?s1)"
    unfolding pmempool_check_steps_def log_sound_def
    by (auto simp: andthen_def step1 step2 step3 skip ret_def)
  then show ?thesis by simp
qed

text \<open>The command on a file with the signature of a log, and what the library accepts.\<close>

lemma check_log_status:
  assumes "fs fname = Some f" and "unat LOG_DATA_OFF \<le> file_size f" and "ce_can_open env fname"
    and "strncmp_eq (take 8 (mem_read (file_data f) 0 POOL_HDR_SIZE)) LOG_HDR_SIG POOL_HDR_SIG_LEN"
  shows "pmempool_check_func env [] (Some fname) fs = (Ok (if log_sound f then 0 else - 1), fs)"
proof -
  have data: "LOG_DATA_OFF = 8192" by (simp add: LOG_DATA_OFF_def roundup_def SIZEOF_PMEMLOG_def LOG_FORMAT_DATA_ALIGN_def)
  let ?pc = "(pmempool_check_default env)\<lparr>pc_ptype := PMEM_POOL_TYPE_LOG\<rparr>"
  have hdr: "pread f POOL_HDR_SIZE 0 = mem_read (file_data f) 0 POOL_HDR_SIZE"
    using assms(2) by (simp add: pread_def POOL_HDR_SIZE_def data)
  have ptype: "fst (pmem_pool_parse_params fs fname) = PMEM_POOL_TYPE_LOG"
    using assms(1,4) by (simp add: pmem_pool_parse_params_def Let_def hdr pmem_pool_type_parse_hdr_def hdr_of_bytes_def)
  let ?res = "if log_sound f then CHECK_RESULT_CONSISTENT else CHECK_RESULT_NOT_CONSISTENT"
  obtain s' where run: "run_steps pmempool_check_steps CHECK_RESULT_CONSISTENT (?pc\<lparr>pc_file := f\<rparr>) = (Ok ?res, s')" "pc_file s' = f"
    using log_steps_no_repair [of "?pc\<lparr>pc_file := f\<rparr>"] assms(2,4) by (auto simp: pmempool_check_default_def data)
  have same: "fs(fname \<mapsto> f) = fs" using assms(1) by auto
  have args: "pmempool_check_parse_args [] (Some fname) (pmempool_check_default env) = Inr (pmempool_check_default env, fname)"
    by (simp add: pmempool_check_parse_args_def pmempool_check_default_def)
  have "pc_repair ?pc = False" by (simp add: pmempool_check_default_def)
  then have "pmempool_check_all_steps (ce_can_create env) (ce_can_open env) fname ?pc fs = (Ok ?res, s', fs)"
    using run assms(1,3) same unfolding pmempool_check_all_steps_def by simp
  then show ?thesis
    by (simp add: pmempool_check_func_def args ptype Let_def result_status_def)
qed

lemma log_check_sound:
  assumes "log_check_hdr (file_data f) (of_nat (file_size f)) rdonly = Inr r"
  shows "log_sound f"
  using assms unfolding log_check_hdr_def log_sound_def csum_ok_def
  by (auto simp: util_convert_hdr_def Let_def not_less split: if_splits option.splits)

text \<open>
  C17 \<open>pmempool check\<close> without \<open>-r\<close> on a log pool always comes to an end, whatever the file
  holds, leaves it alone, and its status is 0 exactly when the header has its checksum and the three
  offsets are in order; in particular a pool that \<open>libpmemlog\<close> accepts is never reported as faulty.
\<close>

theorem check_log_verdict:
  assumes "fs fname = Some f" and "unat LOG_DATA_OFF \<le> file_size f" and "ce_can_open env fname"
    and "strncmp_eq (take 8 (mem_read (file_data f) 0 POOL_HDR_SIZE)) LOG_HDR_SIG POOL_HDR_SIG_LEN"
  shows "\<exists>st. pmempool_check_func env [] (Some fname) fs = (Ok st, fs)
     \<and> (st = 0 \<longleftrightarrow> log_sound f)
     \<and> (\<forall>rdonly r. log_check_hdr (file_data f) (of_nat (file_size f)) rdonly = Inr r \<longrightarrow> st = 0)"
  using check_log_status [of fs fname f env] assms log_check_sound [of f] by auto

theorem check_log_verdict_witness:
  "\<exists>st. pmempool_check_func demo_check_env [] (Some ''log'') [''log'' \<mapsto> demo_log] = (Ok st, [''log'' \<mapsto> demo_log]) \<and> st \<noteq> 0"
proof -
  have start: "log_field (file_data demo_log) LOG_START_OFF = 0"
    by (simp add: log_field_def LOG_START_OFF_def demo_log_def mem_read_write_disjoint zeros LOG_HDR_SIG_def c_str_def)
  have data: "LOG_DATA_OFF = 8192" by (simp add: LOG_DATA_OFF_def roundup_def SIZEOF_PMEMLOG_def LOG_FORMAT_DATA_ALIGN_def)
  have "\<not> log_sound demo_log" using start by (simp add: log_sound_def data)
  then show ?thesis
    using check_log_verdict [of "[''log'' \<mapsto> demo_log]" "''log''" demo_log demo_check_env] demo_log_file
    by (auto simp: demo_check_env_def demo_log_def data log_file_def Let_def)
qed

end
