(* ===== verification/Tool_Args.thy ===== *)
theory Tool_Args
  imports Tool_Common
begin

text \<open>
  The arguments of the tool: what the parsers of sizes and modes accept and return, what the list of ranges
  holds, and which block sizes pass for a file.
\<close>

section \<open>Modes\<close>

definition is_octal :: "char \<Rightarrow> bool" where
  "is_octal c \<longleftrightarrow> 48 \<le> (of_char c :: nat) \<and> (of_char c :: nat) \<le> 55"

definition oct_value :: "nat \<Rightarrow> string \<Rightarrow> nat" where
  "oct_value n str = foldl (\<lambda>n c. 8 * n + (of_char c - 48)) n str"

lemma unat_of_nat_small: "n < 2 ^ LENGTH('a) \<Longrightarrow> unat (of_nat n :: 'a::len word) = n"
  by (simp add: unsigned_of_nat take_bit_nat_eq_self)

lemma octal_step:
  assumes "unat (m :: u32) < 64" and "d < 8"
  shows "push_bit 3 m OR of_nat d = of_nat (8 * unat m + d)"
proof -
  have "push_bit 3 m AND of_nat d = 0"
  proof (rule bit_word_eqI)
    fix n assume "n < LENGTH(32)"
    have "\<not> bit (of_nat d :: u32) n" if "3 \<le> n"
    proof -
      have "d < 2 ^ n" using assms(2) power_increasing [OF that, of "2::nat"] by simp
      then have "\<not> bit d n" by (simp add: bit_iff_odd)
      then show ?thesis by (simp add: bit_of_nat_iff)
    qed
    then show "bit (push_bit 3 m AND of_nat d) n \<longleftrightarrow> bit (0 :: u32) n" by (auto simp: bit_simps)
  qed
  then have eq: "push_bit 3 m OR of_nat d = push_bit 3 m + of_nat d" by (rule disjunctive_add_eq_or [symmetric])
  show ?thesis unfolding eq by (simp add: push_bit_eq_mult mult.commute)
qed

lemma parse_octal_eq:
  "digits \<le> 3 \<Longrightarrow> unat m < 8 ^ digits \<Longrightarrow>
   parse_octal digits m str =
     (if digits + length str \<le> 3 \<and> list_all is_octal str then Some (of_nat (oct_value (unat m) str)) else None)"
proof (induction digits m str rule: parse_octal.induct)
  case (1 digits m)
  then show ?case by (simp add: oct_value_def)
next
  case (2 digits m c str)
  let ?d = "of_char c - 48 :: nat"
  show ?case
  proof (cases "digits < 3 \<and> is_octal c")
    case True
    then have d: "digits < 3" "?d < 8" "\<not> ((of_char c :: nat) < 48 \<or> 55 < (of_char c :: nat))" by (auto simp: is_octal_def)
    have m: "unat m < 64" using "2.prems"(2) d(1) power_increasing [of digits 2 "8::nat"] by auto
    let ?m = "push_bit 3 m OR of_nat ?d :: u32"
    have "unat ?m = 8 * unat m + ?d"
      unfolding octal_step [OF m d(2)] using m d(2) by (intro unat_of_nat_small) simp
    then show ?thesis
      using "2.IH" [OF d(1,3)] "2.prems"(2) d True by (simp add: oct_value_def)
  next
    case False
    then show ?thesis by (auto simp: is_octal_def)
  qed
qed

lemma oct_value_bound: "list_all is_octal str \<Longrightarrow> oct_value n str < (n + 1) * 8 ^ length str"
proof (induction str arbitrary: n)
  case (Cons c str)
  then have "oct_value (8 * n + (of_char c - 48)) str < (8 * n + (of_char c - 48) + 1) * 8 ^ length str"
      "of_char c - 48 < (8::nat)"
    by (auto simp: is_octal_def)
  moreover have "(8 * n + (of_char c - 48) + 1) * 8 ^ length str \<le> (8 * n + 8) * 8 ^ length str"
    using calculation(2) by (intro mult_right_mono) auto
  ultimately show ?case by (simp add: oct_value_def algebra_simps)
qed (simp add: oct_value_def)

lemma oct_value_zeros: "oct_value 0 (dropWhile (\<lambda>c. c = CHR ''0'') str) = oct_value 0 str"
  by (induction str) (simp_all add: oct_value_def)

text \<open>
  \<open>util_parse_mode\<close> accepts exactly the strings of octal digits with at most three digits after the leading
  zeros, and returns their value, which is below 512.
\<close>

theorem parse_mode_exact:
  "util_parse_mode str =
     (if length (dropWhile (\<lambda>c. c = CHR ''0'') str) \<le> 3 \<and> list_all is_octal str
      then Some (of_nat (oct_value 0 str)) else None)
   \<and> (util_parse_mode str = Some m \<longrightarrow> unat m = oct_value 0 str \<and> unat m < 512)"
proof -
  let ?s = "dropWhile (\<lambda>c. c = CHR ''0'') str"
  have all: "list_all is_octal str = list_all is_octal ?s"
    by (induction str) (auto simp: is_octal_def)
  have eq: "util_parse_mode str = (if length ?s \<le> 3 \<and> list_all is_octal str then Some (of_nat (oct_value 0 str)) else None)"
    using parse_octal_eq [of 0 0 ?s] by (simp add: util_parse_mode_def all oct_value_zeros)
  have "oct_value 0 str < 512" if "length ?s \<le> 3" "list_all is_octal str"
  proof -
    have "oct_value 0 ?s < 8 ^ length ?s" using oct_value_bound [of ?s 0] that(2) all by simp
    also have "\<dots> \<le> 8 ^ 3" using that(1) by (intro power_increasing) auto
    finally show ?thesis by (simp add: oct_value_zeros)
  qed
  then show ?thesis using eq by (auto simp: unat_of_nat_small split: if_splits)
qed

theorem parse_mode_exact_witness: "util_parse_mode ''0644'' = Some 420 \<and> util_parse_mode ''1777'' = None"
  using parse_mode_exact [of "''0644''" 420] parse_mode_exact [of "''1777''" 0]
  by (simp add: is_octal_def oct_value_def)

section \<open>Sizes\<close>

fun dec_str :: "nat \<Rightarrow> string" where
  "dec_str n = (if n < 10 then [char_of (48 + n)] else dec_str (n div 10) @ [char_of (48 + n mod 10)])"

declare dec_str.simps [simp del]

lemma dec_str_digits: "list_all isdigit (dec_str n)"
proof (induction n rule: dec_str.induct)
  case (1 n)
  have "isdigit (char_of (48 + d))" if "d < 10" for d :: nat using that by (simp add: isdigit_def)
  then show ?case using 1 by (subst dec_str.simps) simp
qed

lemma dec_str_nonempty: "dec_str n \<noteq> []"
  by (subst dec_str.simps) simp

lemma digits_value_dec: "digits_value (dec_str n) = n"
proof (induction n rule: dec_str.induct)
  case (1 n)
  show ?case
  proof (cases "n < 10")
    case True
    then show ?thesis by (subst dec_str.simps) (simp add: digits_value_def)
  next
    case False
    then show ?thesis using 1 by (subst dec_str.simps) (simp add: digits_value_def)
  qed
qed

lemma isdigit_not_space: "isdigit c \<Longrightarrow> \<not> isspace c \<and> c \<noteq> CHR ''-'' \<and> c \<noteq> CHR ''+''"
  by (auto simp: isdigit_def isspace_def)

lemma scan_lu_dec:
  assumes "n < 2 ^ 64" and "rest = [] \<or> \<not> isdigit (hd rest)"
  shows "scan_lu (dec_str n @ rest) = Some (of_nat n, rest)"
proof -
  obtain c cs where d: "dec_str n = c # cs" using dec_str_nonempty [of n] by (cases "dec_str n") auto
  have all: "list_all isdigit (c # cs)" using dec_str_digits [of n] by (simp add: d)
  then have c: "\<not> isspace c" "c \<noteq> CHR ''-''" "c \<noteq> CHR ''+''" using isdigit_not_space [of c] by auto
  have t: "takeWhile isdigit (dec_str n @ rest) = dec_str n" "dropWhile isdigit (dec_str n @ rest) = rest"
    using all assms(2) by (cases rest; auto simp: d list_all_iff takeWhile_append dropWhile_append)+
  have "dropWhile isspace (dec_str n @ rest) = dec_str n @ rest" using c by (simp add: d)
  moreover have "hd (dec_str n @ rest) = c" "dec_str n @ rest \<noteq> []" by (simp_all add: d)
  ultimately show ?thesis
    using c assms(1) t dec_str_nonempty [of n]
    by (simp add: scan_lu_def Let_def ulong_value_def digits_value_dec)
qed

text \<open>The units and their shifts.\<close>

definition size_units :: "(string \<times> nat) list" where
  "size_units = [([], 0), (''K'', 10), (''KB'', 10), (''M'', 20), (''MB'', 20), (''G'', 30), (''GB'', 30),
     (''T'', 40), (''TB'', 40), (''P'', 50), (''PB'', 50)]"

lemma unit_scan:
  "(u, k) \<in> set size_units \<Longrightarrow>
   (u = [] \<or> \<not> isdigit (hd u)) \<and> scan_3s u = (if u = [] then None else Some u) \<and> (u \<noteq> [] \<longrightarrow> unit_shift u = Ok (Some k))"
  unfolding size_units_def
  by (simp, elim disjE) (simp_all add: isdigit_def scan_3s_def isspace_def unit_shift_def)

text \<open>
  \<open>util_parse_size\<close> reads back a printed number with each of its units as the number shifted by the unit,
  at 64 bits: a number whose product with the unit does not fit is not refused, its high bits are lost.
\<close>

theorem parse_size_roundtrip:
  assumes "n < 2 ^ 64" and "(u, k) \<in> set size_units"
  shows "util_parse_size (dec_str n @ u) = Ok (Some (of_nat (n * 2 ^ k)))"
proof -
  have push: "push_bit k (of_nat n) = (of_nat (n * 2 ^ k) :: u64)" by (simp add: push_bit_eq_mult)
  have "k = 0" if "u = []" using assms(2) that by (auto simp: size_units_def)
  then show ?thesis
    using scan_lu_dec [OF assms(1)] unit_scan [OF assms(2)] push by (auto simp: util_parse_size_def)
qed

theorem parse_size_roundtrip_witness:
  "util_parse_size (dec_str 512 @ ''MB'') = Ok (Some 536870912) \<and> util_parse_size (dec_str 16384 @ ''P'') = Ok (Some 0)"
  using parse_size_roundtrip [of 512 "''MB''" 20] parse_size_roundtrip [of 16384 "''P''" 50]
  by (simp add: size_units_def)

section \<open>The largest block size\<close>

lemma round_down_step:
  fixes x L :: nat
  assumes "x + 512 \<le> (L + 255) div 256 * 256"
  shows "(x + 255) div 256 * 256 + 257 \<le> L"
proof -
  define q where "q = (L + 255) div 256"
  have "x + 512 \<le> q * 256" using assms by (simp add: q_def)
  then have "(x + 255) div 256 < q - 1" by (intro less_mult_imp_div_less) (simp add: diff_mult_distrib)
  moreover have "q * 256 \<le> L + 255" by (simp add: q_def)
  ultimately show ?thesis by linarith
qed

lemma max_bsize_value:
  assumes "PMEMBLK_MIN_POOL \<le> F" and "F \<le> 2 ^ 32"
  defines "L \<equiv> (F - 32848) div 512 - 4"
  shows "unat (util_get_max_bsize (of_nat F)) = (L + 255) div 256 * 256 - 256" and "512 \<le> L" and "L < 2 ^ 24"
proof -
  have F: "16785408 \<le> F" using assms(1) by (simp add: PMEMBLK_MIN_POOL_def)
  have u: "unat (of_nat F :: u64) = F" using assms(2) by (intro unat_of_nat_small) simp
  have "F \<le> 4294967296" using assms(2) by simp
  then have "512 \<le> L" "L < 16777216" using F unfolding L_def by linarith+
  then show L: "512 \<le> L" "L < 2 ^ 24" by simp_all
  have a1: "unat (of_nat F - SIZEOF_PMEMBLK :: u64) = F - 4176"
    using F u by (subst unat_sub) (simp_all add: word_le_nat_alt SIZEOF_PMEMBLK_def)
  have a2: "\<not> BTT_MAX_ARENA < of_nat F - SIZEOF_PMEMBLK"
    using a1 assms(2) by (simp add: word_less_nat_alt btt_consts)
  have a3: "unat (of_nat F - SIZEOF_PMEMBLK - 2 * 4096 :: u64) = F - 12368"
    using F a1 by (subst unat_sub) (simp_all add: word_le_nat_alt)
  have a4: "unat (of_nat F - SIZEOF_PMEMBLK - 2 * 4096 - 16384 :: u64) = F - 28752"
    using F a3 by (subst unat_sub) (simp_all add: word_le_nat_alt)
  let ?a = "of_nat F - SIZEOF_PMEMBLK - 2 * 4096 - 16384 - BTT_ALIGNMENT :: u64"
  have a5: "unat ?a = F - 32848"
    using F a4 by (subst unat_sub) (simp_all add: word_le_nat_alt BTT_ALIGNMENT_def)
  have a6: "unat (?a div 512) = (F - 32848) div 512" unfolding unat_div_distrib a5 by simp
  have a7: "unat (?a div 512 - 4) = L"
    using L(1) a6 by (subst unat_sub) (simp_all add: word_le_nat_alt L_def)
  let ?l = "ucast (?a div 512 - 4) :: u32"
  have l: "unat ?l = L" using a7 L(2) by (simp add: unat_ucast_mod)
  have l512: "\<not> ?l < BTT_MIN_LBA_SIZE" using l L(1) by (simp add: word_less_nat_alt BTT_MIN_LBA_SIZE_def)
  have r: "unat (roundup ?l BTT_INTERNAL_LBA_ALIGNMENT) = (L + 255) div 256 * 256"
    using unat_roundup [of BTT_INTERNAL_LBA_ALIGNMENT ?l] l L(2) by (simp add: BTT_INTERNAL_LBA_ALIGNMENT_def)
  have "256 \<le> (L + 255) div 256 * 256" using L(1) by linarith
  then have d: "unat (roundup ?l BTT_INTERNAL_LBA_ALIGNMENT - BTT_INTERNAL_LBA_ALIGNMENT) = (L + 255) div 256 * 256 - 256"
    using r by (subst unat_sub) (simp_all add: word_le_nat_alt BTT_INTERNAL_LBA_ALIGNMENT_def)
  have "of_nat F \<noteq> (0 :: u64)" using u F by (metis unat_0 not_numeral_le_zero)
  then have "util_get_max_bsize (of_nat F) = roundup ?l BTT_INTERNAL_LBA_ALIGNMENT - BTT_INTERNAL_LBA_ALIGNMENT"
    using a2 l512
    by (simp add: util_get_max_bsize_def Let_def BTT_DEFAULT_NFREE_def flog_size_256 BTT_MAP_ENTRY_SIZE_def)
  then show "unat (util_get_max_bsize (of_nat F)) = (L + 255) div 256 * 256 - 256" using d by simp
qed

text \<open>
  For a file of up to 4 GB a block size that stays 256 bytes below the maximum that the tool computes
  is one for which the block translation table can lay out the pool; without that margin the tool accepts
  block sizes that \<open>write_layout\<close> refuses, as 32767 in a file of 16812624 bytes, because it subtracts the
  size of \<open>struct pmemblk\<close> and not the aligned offset of the data.
\<close>

theorem check_bsize_margin:
  "(PMEMBLK_MIN_POOL \<le> F \<and> F \<le> 2 ^ 32 \<and> F mod 64 = 0 \<and> unat bsize + 256 \<le> unat (util_get_max_bsize (of_nat F)) \<longrightarrow>
      util_check_bsize bsize (of_nat F) \<and> fmt_size_ok (of_nat F - BLK_DATA_OFF) bsize)
   \<and> (rawsize b = 16812624 - BLK_DATA_OFF \<and> lbasize b = 32767 \<and> nfree b = BTT_DEFAULT_NFREE \<longrightarrow>
      util_check_bsize 32767 16812624 \<and> fst (write_layout lane False b) = Err EINVAL)"
proof (intro conjI impI)
  assume F: "PMEMBLK_MIN_POOL \<le> F \<and> F \<le> 2 ^ 32 \<and> F mod 64 = 0 \<and> unat bsize + 256 \<le> unat (util_get_max_bsize (of_nat F))"
  let ?L = "(F - 32848) div 512 - 4"
  note v = max_bsize_value [of F, OF conjunct1 [OF F] conjunct1 [OF conjunct2 [OF F]]]
  have size: "16785408 \<le> F" using F by (simp add: PMEMBLK_MIN_POOL_def)
  show "util_check_bsize bsize (of_nat F)" using F by (simp add: util_check_bsize_def word_less_nat_alt)
  have u: "unat (of_nat F :: u64) = F" using F by (intro unat_of_nat_small) simp
  have off: "BLK_DATA_OFF = 8192" by (simp add: BLK_DATA_OFF_def roundup_def SIZEOF_PMEMBLK_def BLK_FORMAT_DATA_ALIGN_def)
  have R: "unat (of_nat F - BLK_DATA_OFF) = F - 8192" using u size by (subst unat_sub) (simp_all add: off word_le_nat_alt)
  have b: "unat bsize + 512 \<le> ?L + 255" using F v(1) by linarith
  have I: "unat (layout_internal_lbasize bsize) + 4 \<le> ?L - 252"
  proof -
    let ?x = "if bsize < BTT_MIN_LBA_SIZE then BTT_MIN_LBA_SIZE else bsize"
    have "32000 \<le> ?L" using size by linarith
    then have x: "unat ?x + 512 \<le> ?L + 255" using b by (auto simp: BTT_MIN_LBA_SIZE_def)
    have "unat (layout_internal_lbasize bsize) = (unat ?x + 255) div 256 * 256"
      using unat_roundup [of BTT_INTERNAL_LBA_ALIGNMENT ?x] x v(3)
      by (simp add: layout_internal_lbasize_def BTT_INTERNAL_LBA_ALIGNMENT_def)
    moreover have big: "31744 \<le> (?L + 255) div 256 * 256 - 256" using \<open>32000 \<le> ?L\<close> by linarith
    then have "unat ?x + 256 \<le> (?L + 255) div 256 * 256 - 256"
      using F v(1) by (simp add: BTT_MIN_LBA_SIZE_def)
    ultimately show ?thesis using round_down_step [of "unat ?x" ?L] big by linarith
  qed
  have "512 * (unat (layout_internal_lbasize bsize) + 4) \<le> F - 8192 - 28672"
  proof -
    have "512 * (unat (layout_internal_lbasize bsize) + 4) \<le> 512 * (?L - 252)" using I by (rule mult_le_mono2)
    also have "\<dots> \<le> F - 32848 - 512 * 256" using size by linarith
    also have "\<dots> \<le> F - 8192 - 28672" by simp
    finally show ?thesis .
  qed
  then have N: "512 \<le> fmt_nlba (F - 8192) (unat (layout_internal_lbasize bsize))"
    by (simp add: fmt_nlba_def less_eq_div_iff_mult_less_eq)
  have "(F - 8192) mod 64 = 0" using F size by presburger
  moreover have "?L < 16777216" using v(3) by simp
  then have "unat bsize \<le> 2147483648" using b by linarith
  moreover have "16777216 \<le> F - 8192" "F - 8192 \<le> 4294967296" using size F by auto
  ultimately show "fmt_size_ok (of_nat F - BLK_DATA_OFF) bsize"
    using N R by (simp add: fmt_size_ok_def btt_consts word_le_nat_alt)
next
  assume b: "rawsize b = 16812624 - BLK_DATA_OFF \<and> lbasize b = 32767 \<and> nfree b = BTT_DEFAULT_NFREE"
  have m: "unat (util_get_max_bsize (of_nat 16812624)) = 32768"
    by (subst max_bsize_value(1)) (simp_all add: PMEMBLK_MIN_POOL_def)
  then show "util_check_bsize 32767 16812624" by (simp add: util_check_bsize_def word_less_nat_alt)
  have off: "BLK_DATA_OFF = 8192" by (simp add: BLK_DATA_OFF_def roundup_def SIZEOF_PMEMBLK_def BLK_FORMAT_DATA_ALIGN_def)
  have ilb: "layout_internal_lbasize 32767 = 32768" by (simp add: layout_internal_lbasize_def roundup_def btt_consts)
  have loop: "layout_loop lane False 16384 32768 16804432 0 0 0 c = (Err EINVAL, c)" if "nfree c = 256" for c :: "'a btt"
    using that by (subst layout_loop.simps) (simp add: btt_consts Let_def)
  show "fst (write_layout lane False b) = Err EINVAL"
    using b loop [of "b\<lparr>narena := 1\<rparr>"]
    by (simp add: write_layout_def andthen_def gets_def assert_def update_def Let_def off ilb btt_consts flog_size_256)
qed

theorem check_bsize_margin_witness:
  "util_check_bsize 512 16785408 \<and> fmt_size_ok (16785408 - BLK_DATA_OFF) 512 \<and> util_check_bsize 32767 16812624"
proof -
  have "unat (util_get_max_bsize (of_nat 16785408)) = 32512"
    by (subst max_bsize_value(1)) (simp_all add: PMEMBLK_MIN_POOL_def)
  then show ?thesis
    using check_bsize_margin [of 16785408 512
        "\<lparr>nlane = 0, laidout = False, parent_uuid = [], rawsize = 16812624 - BLK_DATA_OFF, lbasize = 32767,
          nfree = BTT_DEFAULT_NFREE, nlba = 0, narena = 0, arenas = [], ns = (), ns_cbp = undefined\<rparr>" 0]
    by (simp add: PMEMBLK_MIN_POOL_def)
qed

end
