(* ===== verification/Tool_Create.thy ===== *)
theory Tool_Create
  imports Tool_Common
begin

text \<open>
  The create command of the \<open>pmempool\<close> tool, \<open>src/tools/pmempool/create.c\<close>: its arguments, the
  choice of type and size, creating block and log pools and removing a file that could not be made a pool.
  What the system answers (the errors of \<open>posix_fallocate\<close> and \<open>mmap\<close>, the free space) and what the
  libraries ask it is the record \<open>create_env\<close>.  Messages are not modelled, nor is the permission of the file.
\<close>

section \<open>State and arguments\<close>

record pmempool_create =
  cr_verbose :: bool
  cr_fname :: string
  cr_fexists :: bool
  cr_inherit_fname :: "string option"
  cr_max_size :: bool
  cr_str_type :: "string option"
  cr_type :: pmem_pool_type
  cr_size :: u64
  cr_str_bsize :: "string option"
  cr_bsize :: u64
  cr_layout :: int
  cr_mode :: u32

definition DEFAULT_MODE :: u32 where "DEFAULT_MODE = 436"

definition PMEMBLK_MIN_BLK :: u64 where "PMEMBLK_MIN_BLK = 512"

definition pmempool_create_default :: pmempool_create where
  "pmempool_create_default = \<lparr>cr_verbose = False, cr_fname = [], cr_fexists = False, cr_inherit_fname = None,
     cr_max_size = False, cr_str_type = None, cr_type = PMEM_POOL_TYPE_NONE, cr_size = 0, cr_str_bsize = None,
     cr_bsize = 0, cr_layout = - 1, cr_mode = DEFAULT_MODE\<rparr>"

text \<open>\<open>atoll\<close> takes blanks, a sign and digits, and saturates at the limits of 64 bits.\<close>

definition atoll :: "string \<Rightarrow> int" where
  "atoll str =
     (let s = dropWhile isspace str;
          neg = (s \<noteq> [] \<and> hd s = CHR ''-'');
          t = (if s \<noteq> [] \<and> (hd s = CHR ''-'' \<or> hd s = CHR ''+'') then tl s else s);
          v = int (digits_value (takeWhile isdigit t)) in
      if neg then max (- (2 ^ 63)) (- v) else min (2 ^ 63 - 1) v)"

text \<open>
  An option as \<open>getopt_long\<close> reports it: its letter, \<open>optopt\<close> and \<open>optarg\<close>.  \<open>Inl\<close> is the
  status the command exits with.
\<close>

type_synonym tool_opt = "char \<times> char \<times> string option"

definition create_parse_opt :: "tool_opt \<Rightarrow> pmempool_create \<Rightarrow> (int + pmempool_create) outcome" where
  "create_parse_opt opt pc =
     (case opt of (c, optopt, optarg) \<Rightarrow>
      if c = CHR ''v'' then Ok (Inr (pc\<lparr>cr_verbose := True\<rparr>))
      else if c = CHR ''?'' then Ok (Inl (if optopt = CHR 0x00 then 0 else 1))
      else if c = CHR ''s'' then
        (case util_parse_size (the optarg) of
           Ok (Some v) \<Rightarrow> if v = 0 then Ok (Inl 1) else Ok (Inr (pc\<lparr>cr_size := v\<rparr>))
         | Ok None \<Rightarrow> Ok (Inl 1)
         | Err e \<Rightarrow> Err e
         | Stuck \<Rightarrow> Stuck)
      else if c = CHR ''M'' then Ok (Inr (pc\<lparr>cr_max_size := True\<rparr>))
      else if c = CHR ''m'' then
        (case util_parse_mode (the optarg) of
           None \<Rightarrow> Ok (Inl 1)
         | Some m \<Rightarrow> Ok (Inr (pc\<lparr>cr_mode := m\<rparr>)))
      else if c = CHR ''i'' then Ok (Inr (pc\<lparr>cr_inherit_fname := optarg\<rparr>))
      else if c = CHR ''l'' then
        (case optarg of
           None \<Rightarrow> Ok (Inr (pc\<lparr>cr_layout := 0\<rparr>))
         | Some str \<Rightarrow> if atoll str < 0 then Ok (Inl 1) else Ok (Inr (pc\<lparr>cr_layout := atoll str\<rparr>)))
      else Ok (Inl 1))"

fun create_parse_opts :: "tool_opt list \<Rightarrow> pmempool_create \<Rightarrow> (int + pmempool_create) outcome" where
  "create_parse_opts [] pc = Ok (Inr pc)"
| "create_parse_opts (opt # opts) pc =
     (case create_parse_opt opt pc of
        Ok (Inr pc') \<Rightarrow> create_parse_opts opts pc'
      | Ok (Inl st) \<Rightarrow> Ok (Inl st)
      | Err e \<Rightarrow> Err e
      | Stuck \<Rightarrow> Stuck)"

text \<open>The operands: type, block size and file; type and file; or the file alone.\<close>

definition create_operands :: "string list \<Rightarrow> pmempool_create \<Rightarrow> int + pmempool_create" where
  "create_operands operands pc =
     (case operands of
        t # b # f # _ \<Rightarrow> Inr (pc\<lparr>cr_str_type := Some t, cr_str_bsize := Some b, cr_fname := f\<rparr>)
      | [t, f] \<Rightarrow> Inr (pc\<lparr>cr_str_type := Some t, cr_fname := f\<rparr>)
      | [f] \<Rightarrow> Inr (pc\<lparr>cr_fname := f, cr_str_type := None\<rparr>)
      | [] \<Rightarrow> Inl 1)"

definition pmempool_create_parse_args :: "tool_opt list \<Rightarrow> string list \<Rightarrow> pmempool_create \<Rightarrow>
    (int + pmempool_create) outcome" where
  "pmempool_create_parse_args opts operands pc =
     (case create_parse_opts opts pc of
        Ok (Inr pc') \<Rightarrow> Ok (create_operands operands pc')
      | r \<Rightarrow> r)"

section \<open>Creating a pool\<close>

record create_env =
  cr_falloc :: "nat \<Rightarrow> errno option"
  cr_mmap :: "nat \<Rightarrow> errno option"
  cr_blk_env :: blk_env
  cr_log_env :: log_env
  cr_statvfs :: "string \<Rightarrow> (u64 \<times> u64) option"

text \<open>What a pool mapped for writing leaves in its file.\<close>

definition blk_sync_file :: "string \<Rightarrow> pmemblk \<Rightarrow> fs \<Rightarrow> fs" where
  "blk_sync_file fname p fs = fs(fname := map_option (file_data_update (\<lambda>_. pool_image p)) (fs fname))"

text \<open>Marking a block bad and then zeroing it makes the library write the layout of the BTT.\<close>

definition create_write_layout :: "u64 \<Rightarrow> (pmemblk, unit) prog" where
  "create_write_layout blockno = andthen (pmemblk_set_error blockno) (\<lambda>_. pmemblk_set_zero blockno)"

definition pmempool_create_blk :: "create_env \<Rightarrow> pmempool_create \<Rightarrow> fs \<Rightarrow> int outcome \<times> fs" where
  "pmempool_create_blk env pc fs =
     (let bsize = (if cr_bsize pc = 0 then PMEMBLK_MIN_BLK else cr_bsize pc) in
      case pmemblk_create (cr_falloc env) (cr_mmap env) (cr_blk_env env) fs (cr_fname pc) bsize (unat (cr_size pc)) of
        (Err e, fs') \<Rightarrow> (Ok (- 1), fs')
      | (Stuck, fs') \<Rightarrow> (Stuck, fs')
      | (Ok p, fs') \<Rightarrow>
          let nblock = pmemblk_nblock p in
          if 0 \<le> cr_layout pc then
            if nblock \<le> of_int (cr_layout pc) then (Ok (- 1), fs')
            else
              case create_write_layout (of_int (cr_layout pc)) p of
                (Ok _, p') \<Rightarrow> (Ok 0, blk_sync_file (cr_fname pc) p' fs')
              | (Err e, p') \<Rightarrow> (Ok (- 1), blk_sync_file (cr_fname pc) p' fs')
              | (Stuck, p') \<Rightarrow> (Stuck, blk_sync_file (cr_fname pc) p' fs')
          else (Ok 0, fs'))"

definition pmempool_create_log :: "create_env \<Rightarrow> pmempool_create \<Rightarrow> fs \<Rightarrow> int outcome \<times> fs" where
  "pmempool_create_log env pc fs =
     (case pmemlog_create (cr_falloc env) (cr_mmap env) (cr_log_env env) fs (cr_fname pc) (unat (cr_size pc)) of
        (Ok p, fs') \<Rightarrow> (Ok 0, fs')
      | (Err e, fs') \<Rightarrow> (Ok (- 1), fs')
      | (Stuck, fs') \<Rightarrow> (Stuck, fs'))"

text \<open>\<open>dirname\<close>: the path without its last part and the slashes around it.\<close>

definition dirname :: "string \<Rightarrow> string" where
  "dirname path =
     (let slash = (\<lambda>c. c = CHR ''/'');
          r = dropWhile slash (rev path);
          d = dropWhile slash (dropWhile (\<lambda>c. \<not> slash c) r) in
      if d \<noteq> [] then rev d
      else if path \<noteq> [] \<and> slash (hd path) then ''/'' else ''.'')"

definition pmempool_get_max_size :: "create_env \<Rightarrow> string \<Rightarrow> u64 option" where
  "pmempool_get_max_size env fname =
     (case cr_statvfs env (dirname fname) of
        None \<Rightarrow> None
      | Some (f_bsize, f_bavail) \<Rightarrow> Some (f_bsize * f_bavail))"

section \<open>The command\<close>

text \<open>The type and what goes with it: from the operands, or from the file named by \<open>--inherit\<close>.\<close>

definition create_pool_type :: "fs \<Rightarrow> pmempool_create \<Rightarrow> (int + pmempool_create) outcome" where
  "create_pool_type fs pc =
     (case cr_str_type pc of
        Some str_type \<Rightarrow>
          let pc1 = pc\<lparr>cr_type := pmem_pool_type_parse_str str_type\<rparr> in
          if cr_type pc1 = PMEM_POOL_TYPE_UNKNOWN then Ok (Inl (- 1))
          else if cr_type pc1 = PMEM_POOL_TYPE_BLK then
            (case cr_str_bsize pc1 of
               None \<Rightarrow> Ok (Inl (- 1))
             | Some str_bsize \<Rightarrow>
                 (case util_parse_size str_bsize of
                    Ok (Some v) \<Rightarrow> Ok (Inr (pc1\<lparr>cr_bsize := v\<rparr>))
                  | Ok None \<Rightarrow> Ok (Inl (- 1))
                  | Err e \<Rightarrow> Err e
                  | Stuck \<Rightarrow> Stuck))
          else Ok (Inr pc1)
      | None \<Rightarrow>
          (case cr_inherit_fname pc of
             None \<Rightarrow> Ok (Inl (- 1))
           | Some inherit_fname \<Rightarrow>
               (case pmem_pool_parse_params fs inherit_fname of
                  (ptype, psize, pbsize) \<Rightarrow>
                    let pc1 = pc\<lparr>cr_type := ptype,
                                cr_size := case psize of None \<Rightarrow> cr_size pc | Some v \<Rightarrow> v,
                                cr_bsize := case pbsize of None \<Rightarrow> cr_bsize pc | Some v \<Rightarrow> v\<rparr> in
                    if ptype = PMEM_POOL_TYPE_NONE then Ok (Inl 1)
                    else if ptype = PMEM_POOL_TYPE_UNKNOWN then Ok (Inl (- 1))
                    else Ok (Inr pc1))))"

definition create_validate :: "pmempool_create \<Rightarrow> bool" where
  "create_validate pc \<longleftrightarrow>
     \<not> (cr_type pc = PMEM_POOL_TYPE_LOG \<and> (cr_layout pc \<noteq> - 1 \<or> cr_str_bsize pc \<noteq> None)) \<and>
     \<not> (cr_size pc \<noteq> 0 \<and> cr_max_size pc)"

text \<open>The size of the pool; 0 stands for a file that is there already.\<close>

definition create_pool_size :: "create_env \<Rightarrow> pmempool_create \<Rightarrow> int + pmempool_create" where
  "create_pool_size env pc =
     (let min_size = pmem_pool_get_min_size (cr_type pc) in
      if cr_size pc = 0 then
        if cr_max_size pc then
          (case pmempool_get_max_size env (cr_fname pc) of
             None \<Rightarrow> Inl (- 1)
           | Some v \<Rightarrow> if v = 0 then Inl (- 1) else Inr (pc\<lparr>cr_size := v\<rparr>))
        else if \<not> cr_fexists pc then Inr (pc\<lparr>cr_size := of_nat min_size\<rparr>)
        else Inr pc
      else if unat (cr_size pc) < min_size then Inl (- 1)
      else Inr pc)"

definition create_pool :: "create_env \<Rightarrow> pmempool_create \<Rightarrow> fs \<Rightarrow> int outcome \<times> fs" where
  "create_pool env pc fs =
     (case (case cr_type pc of
              PMEM_POOL_TYPE_BLK \<Rightarrow> pmempool_create_blk env pc fs
            | PMEM_POOL_TYPE_LOG \<Rightarrow> pmempool_create_log env pc fs
            | _ \<Rightarrow> (Ok (- 1), fs)) of
        (Ok st, fs') \<Rightarrow> (Ok st, if st \<noteq> 0 \<and> \<not> cr_fexists pc then fs'(cr_fname pc := None) else fs')
      | r \<Rightarrow> r)"

definition pmempool_create_func :: "create_env \<Rightarrow> tool_opt list \<Rightarrow> string list \<Rightarrow> fs \<Rightarrow> int outcome \<times> fs" where
  "pmempool_create_func env opts operands fs =
     (case pmempool_create_parse_args opts operands pmempool_create_default of
        Ok (Inl st) \<Rightarrow> (Ok st, fs)
      | Err e \<Rightarrow> (Err e, fs)
      | Stuck \<Rightarrow> (Stuck, fs)
      | Ok (Inr pc) \<Rightarrow>
          (case create_pool_type fs pc of
             Ok (Inl st) \<Rightarrow> (Ok st, fs)
           | Err e \<Rightarrow> (Err e, fs)
           | Stuck \<Rightarrow> (Stuck, fs)
           | Ok (Inr pc1) \<Rightarrow>
               if \<not> create_validate pc1 then (Ok (- 1), fs)
               else
                 case create_pool_size env (pc1\<lparr>cr_fexists := fs (cr_fname pc1) \<noteq> None\<rparr>) of
                   Inl st \<Rightarrow> (Ok st, fs)
                 | Inr pc2 \<Rightarrow> create_pool env pc2 fs))"

section \<open>What creating touches\<close>

text \<open>Nothing but the file of the given name.\<close>

definition only_file :: "string \<Rightarrow> fs \<Rightarrow> fs \<Rightarrow> bool" where
  "only_file fname fs fs' \<longleftrightarrow> (\<forall>q. q \<noteq> fname \<longrightarrow> fs' q = fs q)"

lemma only_file_refl [simp]: "only_file fname fs fs"
  by (simp add: only_file_def)

lemma only_file_upd [simp]: "only_file fname fs (fs'(fname := x)) \<longleftrightarrow> only_file fname fs fs'"
  by (auto simp: only_file_def)

lemma only_file_sync [simp]: "only_file fname fs (blk_sync_file fname p fs') \<longleftrightarrow> only_file fname fs fs'"
  by (simp add: blk_sync_file_def)

lemma blk_map_file_only: "only_file path fs0 fs \<Longrightarrow> only_file path fs0 (snd (blk_map_file mmap env fs path n bsize ro ini z))"
  by (auto simp: blk_map_file_def split: option.splits prod.splits)

lemma log_map_file_only: "only_file path fs0 fs \<Longrightarrow> only_file path fs0 (snd (log_map_file mmap env fs path n ro ini))"
  by (auto simp: log_map_file_def split: option.splits outcome.splits)

lemma util_pool_create_only:
  assumes "util_pool_create falloc fs path n mn = (r, fs')"
  shows "only_file path fs fs'" and "r = Inr fd \<Longrightarrow> fd = path"
  using assms by (auto simp: util_pool_create_def Let_def split: if_splits option.splits)

lemma util_pool_open_path: "util_pool_open fs path mn = Inr (fd, n) \<Longrightarrow> fd = path \<and> fs path \<noteq> None"
  by (auto simp: util_pool_open_def split: option.splits if_splits)

lemma pmemblk_create_only: "only_file path fs (snd (pmemblk_create falloc mmap env fs path bsize n))"
proof (cases "n = 0")
  case True
  then show ?thesis
    using util_pool_open_path [of fs path PMEMBLK_MIN_POOL]
    by (auto simp: pmemblk_create_def intro!: blk_map_file_only split: sum.split)
next
  case False
  obtain r fs1 where c: "util_pool_create falloc fs path n PMEMBLK_MIN_POOL = (r, fs1)" by fastforce
  then show ?thesis
    using False util_pool_create_only [OF c] by (cases r) (auto simp: pmemblk_create_def intro: blk_map_file_only)
qed

lemma pmemlog_create_only: "only_file path fs (snd (pmemlog_create falloc mmap env fs path n))"
proof (cases "n = 0")
  case True
  then show ?thesis
    using util_pool_open_path [of fs path PMEMLOG_MIN_POOL]
    by (auto simp: pmemlog_create_def intro!: log_map_file_only split: sum.split)
next
  case False
  obtain r fs1 where c: "util_pool_create falloc fs path n PMEMLOG_MIN_POOL = (r, fs1)" by fastforce
  then show ?thesis
    using False util_pool_create_only [OF c] by (cases r) (auto simp: pmemlog_create_def intro: log_map_file_only)
qed

lemma pmempool_create_blk_only: "only_file (cr_fname pc) fs (snd (pmempool_create_blk env pc fs))"
  using pmemblk_create_only [of "cr_fname pc" fs]
  by (auto simp: pmempool_create_blk_def Let_def split: prod.splits outcome.splits) (metis snd_conv)+

lemma pmempool_create_log_only: "only_file (cr_fname pc) fs (snd (pmempool_create_log env pc fs))"
  using pmemlog_create_only [of "cr_fname pc" fs]
  by (auto simp: pmempool_create_log_def split: prod.splits outcome.splits) (metis snd_conv)+

lemma create_pool_only: "only_file (cr_fname pc) fs (snd (create_pool env pc fs))"
  using pmempool_create_blk_only [of pc fs env] pmempool_create_log_only [of pc fs env]
  by (auto simp: create_pool_def split: prod.splits outcome.splits pmem_pool_type.splits)

text \<open>The parsed arguments name the last operand that the command looks at.\<close>

definition create_target :: "string list \<Rightarrow> string" where
  "create_target operands = (case operands of t # b # f # _ \<Rightarrow> f | _ \<Rightarrow> last operands)"

lemma create_operands_target: "create_operands operands pc = Inr pc' \<Longrightarrow> cr_fname pc' = create_target operands"
  by (auto simp: create_operands_def create_target_def split: list.splits)

lemma create_pool_type_fname: "create_pool_type fs pc = Ok (Inr pc') \<Longrightarrow> cr_fname pc' = cr_fname pc"
  by (auto simp: create_pool_type_def Let_def split: option.splits if_splits outcome.splits prod.splits)

lemma create_pool_size_fname:
  "create_pool_size env pc = Inr pc' \<Longrightarrow> cr_fname pc' = cr_fname pc \<and> cr_fexists pc' = cr_fexists pc \<and> cr_type pc' = cr_type pc"
  by (auto simp: create_pool_size_def Let_def split: option.splits if_splits)

lemma create_pool_undone:
  assumes "create_pool env pc fs = (Ok st, fs')" and "st \<noteq> 0" and "\<not> cr_fexists pc" and "fs (cr_fname pc) = None"
  shows "fs' = fs"
proof
  fix q
  have "only_file (cr_fname pc) fs fs'" using create_pool_only [of pc fs env] assms(1) by simp
  moreover have "fs' (cr_fname pc) = None" using assms(1-3)
    by (auto simp: create_pool_def split: prod.splits outcome.splits)
  ultimately show "fs' q = fs q" using assms(4) by (cases "q = cr_fname pc") (auto simp: only_file_def)
qed

text \<open>
  C20 The create command is all or nothing: whatever its arguments, the system's answers and the other files, when
  it ends with a status that is not 0 and the file was not there before, the files are as before.  It never
  changes any other file.
\<close>

theorem create_all_or_nothing:
  assumes run: "pmempool_create_func env opts operands fs = (Ok st, fs')" and new: "fs (create_target operands) = None"
  shows "(st \<noteq> 0 \<longrightarrow> fs' = fs) \<and> (\<forall>q. q \<noteq> create_target operands \<longrightarrow> fs' q = fs q)"
proof (cases "fs' = fs")
  case False
  then obtain pc pc1 pc2 where args: "pmempool_create_parse_args opts operands pmempool_create_default = Ok (Inr pc)"
    and kind: "create_pool_type fs pc = Ok (Inr pc1)"
    and siz: "create_pool_size env (pc1\<lparr>cr_fexists := fs (cr_fname pc1) \<noteq> None\<rparr>) = Inr pc2"
    and make: "create_pool env pc2 fs = (Ok st, fs')"
    using run by (auto simp: pmempool_create_func_def split: outcome.splits sum.splits if_splits)
  have "cr_fname pc = create_target operands"
    using args by (auto simp: pmempool_create_parse_args_def split: outcome.splits sum.splits dest: create_operands_target)
  then have name: "cr_fname pc2 = create_target operands" and "\<not> cr_fexists pc2"
    using create_pool_type_fname [OF kind] create_pool_size_fname [OF siz] new by auto
  then show ?thesis
    using create_pool_undone [OF make] create_pool_only [of pc2 fs env] make new by (auto simp: only_file_def)
qed simp

theorem create_all_or_nothing_witness:
  "\<exists>env. pmempool_create_func env [] [''log'', ''dir/p''] Map.empty = (Ok (- 1), Map.empty)"
proof -
  let ?env = "\<lparr>cr_falloc = \<lambda>_. Some ENOENT, cr_mmap = \<lambda>_. None,
    cr_blk_env = demo_blk_env,
    cr_log_env = \<lparr>le_lib = initial_lib, le_is_pmem = True, le_uuid = replicate 16 5, le_time = 77, le_adr = True,
      le_fail_at = 20, le_evict = (\<lambda>t w. even (t + w))\<rparr>, cr_statvfs = \<lambda>_. None\<rparr>"
  have run: "\<exists>fs'. pmempool_create_func ?env [] [''log'', ''dir/p''] Map.empty = (Ok (- 1), fs')"
    by (simp add: pmempool_create_func_def pmempool_create_parse_args_def create_operands_def create_pool_type_def
        pmempool_create_default_def pmem_pool_type_parse_str_def create_validate_def create_pool_size_def Let_def
        pmem_pool_get_min_size_def create_pool_def pmempool_create_log_def pmemlog_create_def util_pool_create_def PMEMLOG_MIN_POOL_def)
  then obtain fs' where fs': "pmempool_create_func ?env [] [''log'', ''dir/p''] Map.empty = (Ok (- 1), fs')" by blast
  have "fs' = Map.empty" using create_all_or_nothing [OF fs'] by simp
  then show ?thesis using fs' by blast
qed

section \<open>A new block pool\<close>

lemma andthen_ret_Ok: "andthen f (\<lambda>_. ret x) s = (Ok y, s') \<Longrightarrow> f s = (Ok (), s')"
  by (auto simp: andthen_def ret_def split: prod.splits outcome.splits)

lemma create_write_layout_zeros:
  assumes ok: "blk_pool_ok p" and i: "unat i < unat (pmemblk_nblock p)"
  shows "\<exists>p'. create_write_layout i p = (Ok (), p') \<and> blk_frame p p' \<and>
    pmemblk_view p' = (pmemblk_view p)(unat i := Inr (replicate (blk_bsize p) 0))"
proof -
  have inv: "pmemblk_inv p" and rw: "\<not> blk_rdonly p" using ok by (auto simp: blk_pool_ok_def)
  obtain p1 where p1: "blk_step (Set_Error i) p = (Ok [], p1)" "pmemblk_view p1 = (pmemblk_view p)(unat i := Inl EIO)" "blk_frame p p1"
    using blk_step_refines [OF inv, of "Set_Error i"] rw i by auto
  then have "pmemblk_inv p1" "\<not> blk_rdonly p1" "pmemblk_nblock p1 = pmemblk_nblock p" "blk_bsize p1 = blk_bsize p"
    using rw by (simp_all add: blk_frame_def)
  then obtain p2 where p2: "blk_step (Set_Zero i) p1 = (Ok [], p2)"
      "pmemblk_view p2 = (pmemblk_view p1)(unat i := Inr (replicate (blk_bsize p) 0))" "blk_frame p1 p2"
    using blk_step_refines [of p1 "Set_Zero i"] i by auto
  have "pmemblk_set_error i p = (Ok (), p1)" "pmemblk_set_zero i p1 = (Ok (), p2)"
    using p1(1) p2(1) by (auto dest: andthen_ret_Ok)
  then have "create_write_layout i p = (Ok (), p2)" by (simp add: create_write_layout_def andthen_def)
  moreover have "blk_frame p p2" using p1(3) p2(3) by (simp add: blk_frame_def)
  ultimately show ?thesis using p1(2) p2(2) by auto
qed

text \<open>What the command does once its arguments are read: \<open>pc\<close> asks for a block pool in a new file.\<close>

lemma create_pool_blk:
  fixes nb :: nat
  assumes pc: "cr_type pc = PMEM_POOL_TYPE_BLK" "\<not> cr_fexists pc" "cr_fname pc = file" "cr_size pc = sz" "cr_layout pc = int k"
      "k < 2 ^ 63" "(if cr_bsize pc = 0 then PMEMBLK_MIN_BLK else cr_bsize pc) = bs" and new: "fs file = None"
    and size: "PMEMBLK_MIN_POOL \<le> unat sz" "fmt_size_ok (sz - BLK_DATA_OFF) (ucast bs)" and bs: "bs \<noteq> 0" "unat bs < 2 ^ 32"
    and env: "cr_falloc env (unat sz) = None" "cr_mmap env (unat sz) = None" "length (env_uuid (cr_blk_env env)) = 16"
    and nb: "nb = fmt_nlba (unat (sz - BLK_DATA_OFF)) (unat (layout_internal_lbasize (ucast bs))) - 256"
  shows "if k < nb
    then \<exists>p. create_pool env pc fs = (Ok 0, fs(file \<mapsto> \<lparr>file_size = unat sz, file_data = pool_image p\<rparr>)) \<and> blk_pool_ok p \<and>
      sz - BLK_DATA_OFF = blk_datasize (ns (bttp p)) \<and> blk_bsize p = unat bs \<and> unat (pmemblk_nblock p) = nb \<and>
      (\<forall>i < nb. pmemblk_view p i = Inr (replicate (unat bs) 0))
    else create_pool env pc fs = (Ok (- 1), fs)"
proof -
  obtain p where p: "pmemblk_map_common (cr_blk_env env) (\<lambda>_. 0) sz bs False True True = (Ok p, pool_image p)"
    "blk_pool_ok p" "blk_bsize p = unat bs" "sz - BLK_DATA_OFF = blk_datasize (ns (bttp p))"
    "unat (pmemblk_nblock p) = nb" "\<And>i. i < unat (pmemblk_nblock p) \<Longrightarrow> pmemblk_view p i = Inr (replicate (unat bs) 0)"
    using blk_create_done [OF size(2) bs env(3)] unfolding nb by metis
  let ?fs = "\<lambda>q. fs(file \<mapsto> \<lparr>file_size = unat sz, file_data = pool_image q\<rparr>)"
  have "unat sz \<noteq> 0" using size(1) by (auto simp: PMEMBLK_MIN_POOL_def)
  then have lib: "pmemblk_create (cr_falloc env) (cr_mmap env) (cr_blk_env env) fs file bs (unat sz) = (Ok p, ?fs p)"
    using p(1) env new size(1) by (simp add: pmemblk_create_def util_pool_create_def blk_map_file_def Let_def)
  have uk: "unat (of_nat k :: u64) = k" using pc(6) by (simp add: unat_of_nat)
  have lt: "pmemblk_nblock p \<le> of_nat k \<longleftrightarrow> \<not> k < nb" using p(5) uk by (auto simp: word_le_nat_alt)
  note run = create_pool_def pmempool_create_blk_def Let_def pc(1,3,4,5,7) lib
  show ?thesis
  proof (cases "k < nb")
    case True
    obtain p' where p': "create_write_layout (of_nat k) p = (Ok (), p')" "blk_frame p p'"
        "pmemblk_view p' = (pmemblk_view p)(k := Inr (replicate (unat bs) 0))"
      using create_write_layout_zeros [OF p(2), of "of_nat k"] True uk p(3,5) by auto
    have "create_pool env pc fs = (Ok 0, ?fs p')"
      unfolding run using True lt p'(1) by (simp add: blk_sync_file_def)
    moreover have "\<forall>i < nb. pmemblk_view p' i = Inr (replicate (unat bs) 0)" using p(5,6) p'(3) by simp
    ultimately show ?thesis
      using True p p'(2) blk_pool_ok_frame [OF p(2) p'(2)] by (auto simp: blk_frame_def)
  next
    case False
    moreover have "(?fs p)(file := None) = fs" using new by (auto simp: fun_eq_iff)
    ultimately show ?thesis unfolding run using lt pc(2) by simp
  qed
qed

text \<open>
  C21 \<open>pmempool create -s size -l k blk bsize fname\<close> for a new file of one arena: its data area (the
  size less 8 KiB) is a multiple of 64 of at least 16 MiB and at most 4 GiB and holds at least 512
  internal blocks, block sizes are at most 2 GiB, and the system calls succeed.  When block \<open>k\<close> exists the
  command ends with status 0; then the file can be opened, which changes its run-time fields (bytes 4104 to
  4175) only, and the pool has the requested block size (512 for 0), the number of blocks of the format,
  and zeros in every block, although block \<open>k\<close> was marked bad on the way.  Otherwise the command ends with
  status -1 and leaves no file.
\<close>

theorem create_blk_formats:
  assumes size: "util_parse_size ssize = Ok (Some sz)" "PMEMBLK_MIN_POOL \<le> unat sz" "fmt_size_ok (sz - BLK_DATA_OFF) (ucast bs')"
    and bsize: "util_parse_size sbsize = Ok (Some bs)" "bs' = (if bs = 0 then 512 else bs)" "unat bs < 2 ^ 32"
    and k: "atoll sk = int k" and new: "fs fname = None"
    and env: "cr_falloc env (unat sz) = None" "cr_mmap env (unat sz) = None" "length (env_uuid (cr_blk_env env)) = 16"
    and nb: "nb = fmt_nlba (unat (sz - BLK_DATA_OFF)) (unat (layout_internal_lbasize (ucast bs'))) - 256"
    and r: "r = pmempool_create_func env [(CHR ''s'', CHR 0x00, Some ssize), (CHR ''l'', CHR 0x00, Some sk)]
           [''blk'', sbsize, fname] fs"
  shows "if k < nb
    then \<exists>m p. r = (Ok 0, fs(fname \<mapsto> \<lparr>file_size = unat sz, file_data = m\<rparr>)) \<and>
           pmemblk_open (cr_mmap env) benv (snd r) fname 0 =
             (Ok p, fs(fname \<mapsto> \<lparr>file_size = unat sz, file_data = pool_image p\<rparr>)) \<and> same_but_runtime m (pool_image p) \<and>
           blk_bsize p = unat bs' \<and> unat (pmemblk_nblock p) = nb \<and> (\<forall>i < nb. pmemblk_view p i = Inr (replicate (unat bs') 0))
    else r = (Ok (- 1), fs)"
proof -
  define pc where "pc = pmempool_create_default\<lparr>cr_size := sz, cr_layout := int k, cr_str_type := Some ''blk'',
    cr_str_bsize := Some sbsize, cr_fname := fname, cr_type := PMEM_POOL_TYPE_BLK, cr_bsize := bs\<rparr>"
  have "sz \<noteq> 0" using size(2) by (auto simp: PMEMBLK_MIN_POOL_def)
  then have run: "r = create_pool env pc fs"
    using size(1,2) bsize(1) k new
    by (simp add: r pc_def pmempool_create_func_def pmempool_create_parse_args_def create_parse_opt_def create_operands_def
        create_pool_type_def pmem_pool_type_parse_str_def pmempool_create_default_def create_validate_def create_pool_size_def
        pmem_pool_get_min_size_def Let_def not_less)
  have "k < 2 ^ 63" using k by (auto simp: atoll_def Let_def split: if_splits)
  then have made: "if k < nb
    then \<exists>p. create_pool env pc fs = (Ok 0, fs(fname \<mapsto> \<lparr>file_size = unat sz, file_data = pool_image p\<rparr>)) \<and> blk_pool_ok p \<and>
      sz - BLK_DATA_OFF = blk_datasize (ns (bttp p)) \<and> blk_bsize p = unat bs' \<and> unat (pmemblk_nblock p) = nb \<and>
      (\<forall>i < nb. pmemblk_view p i = Inr (replicate (unat bs') 0))
    else create_pool env pc fs = (Ok (- 1), fs)"
    using bsize(2,3) new size(2,3) env nb
    by (intro create_pool_blk) (simp_all add: pc_def pmempool_create_default_def PMEMBLK_MIN_BLK_def)
  show ?thesis
  proof (cases "k < nb")
    case True
    then obtain p where p: "create_pool env pc fs = (Ok 0, fs(fname \<mapsto> \<lparr>file_size = unat sz, file_data = pool_image p\<rparr>))"
      "blk_pool_ok p" "sz - BLK_DATA_OFF = blk_datasize (ns (bttp p))" "blk_bsize p = unat bs'" "unat (pmemblk_nblock p) = nb"
      "\<forall>i < nb. pmemblk_view p i = Inr (replicate (unat bs') 0)" using made by auto
    let ?fs = "fs(fname \<mapsto> \<lparr>file_size = unat sz, file_data = pool_image p\<rparr>)"
    have "of_nat (unat sz) - BLK_DATA_OFF = blk_datasize (ns (bttp p))" using p(3) by simp
    from blk_reopen [where p = p and fs = ?fs and path = fname and n = "unat sz" and bsize = 0 and mmap = "cr_mmap env" and env = benv,
        OF p(2) _ size(2) this _ env(2)]
    obtain q where q: "pmemblk_open (cr_mmap env) benv ?fs fname 0 =
        (Ok q, ?fs(fname \<mapsto> \<lparr>file_size = unat sz, file_data = pool_image q\<rparr>))" "same_but_runtime (pool_image p) (pool_image q)"
      "pmemblk_view q = pmemblk_view p" "pmemblk_nblock q = pmemblk_nblock p" "blk_bsize q = blk_bsize p" by auto
    have upd: "?fs(fname \<mapsto> x) = fs(fname \<mapsto> x)" for x by simp
    show ?thesis
      unfolding run p(1) if_P [OF True] using q(1) [unfolded upd] q(2-5) p(4-6)
      by (intro exI [of _ "pool_image p"] exI [of _ q]) simp
  next
    case False
    then show ?thesis unfolding run using made by simp
  qed
qed

theorem create_blk_formats_witness:
  "\<exists>env. fst (pmempool_create_func env [(CHR ''s'', CHR 0x00, Some ''16392K''), (CHR ''l'', CHR 0x00, Some ''5'')]
           [''blk'', ''512'', ''pool''] Map.empty) = Ok 0 \<and>
         pmempool_create_func env [(CHR ''s'', CHR 0x00, Some ''16392K''), (CHR ''l'', CHR 0x00, Some ''32202'')]
           [''blk'', ''512'', ''pool''] Map.empty = (Ok (- 1), Map.empty)"
proof -
  let ?benv = "demo_blk_env"
  let ?env = "\<lparr>cr_falloc = \<lambda>_. None, cr_mmap = \<lambda>_. None, cr_blk_env = ?benv,
    cr_log_env = \<lparr>le_lib = initial_lib, le_is_pmem = True, le_uuid = [], le_time = 77, le_adr = True,
      le_fail_at = 20, le_evict = (\<lambda>t w. even (t + w))\<rparr>, cr_statvfs = \<lambda>_. None\<rparr>"
  have args: "util_parse_size ''16392K'' = Ok (Some 16785408)" "util_parse_size ''512'' = Ok (Some 512)"
      "atoll ''5'' = int 5" "atoll ''32202'' = int 32202"
    by (simp_all add: util_parse_size_def scan_lu_def scan_3s_def unit_shift_def ulong_value_def digits_value_def atoll_def
        isspace_def isdigit_def push_bit_eq_mult Let_def)
  have pre: "PMEMBLK_MIN_POOL \<le> unat (16785408 :: u64)" "(512 :: u64) = (if (512 :: u64) = 0 then 512 else 512)"
      "unat (512 :: u64) < 2 ^ 32" "Map.empty ''pool'' = None" "cr_falloc ?env (unat (16785408 :: u64)) = None"
      "cr_mmap ?env (unat (16785408 :: u64)) = None" "length (env_uuid (cr_blk_env ?env)) = 16"
    by (simp_all add: PMEMBLK_MIN_POOL_def)
  note cmd = create_blk_formats [where benv = ?benv and fname = "''pool''" and fs = Map.empty, OF args(1) pre(1) demo_size(1) args(2) pre(2,3) _ pre(4-7) demo_size(2) [symmetric] refl]
  have "(5::nat) < 32202" "\<not> (32202::nat) < 32202" by simp_all
  then show ?thesis
    using cmd [OF args(3)] cmd [OF args(4)] unfolding if_P if_not_P by (intro exI [of _ ?env]) (metis fst_conv)
qed

end
