(* ===== verification/Tool_Dump.thy ===== *)
theory Tool_Dump
  imports Tool_Create Log_Facts
begin

text \<open>
  The dump command of the \<open>pmempool\<close> tool, \<open>src/tools/pmempool/dump.c\<close>: the blocks of a block pool or the
  data of a log pool, whole, in ranges or in chunks, are written to the output.  The output is the list of what is
  printed: the bytes and the offset given to \<open>outv_hexdump\<close>, or the bytes given to \<open>fwrite\<close>.  The environment
  decides which calls of \<open>fwrite\<close> fail; \<open>err\<close> ends the command, which is the error \<open>EIO\<close> here.
\<close>

section \<open>State and output\<close>

datatype dump_out = Hexdump "byte list" u64 | Raw "byte list"

record pmempool_dump =
  du_ofname :: "string option"
  du_hex :: bool
  du_bsize :: u64
  du_ranges :: "prange list"
  du_str_ranges :: "string option"
  du_chunksize :: u64
  du_chunkcnt :: u64
  du_out :: "dump_out list"
  du_nwrite :: nat

record dump_env =
  de_mmap :: "nat \<Rightarrow> errno option"
  de_blk_env :: blk_env
  de_log_env :: log_env
  de_malloc :: "nat \<Rightarrow> prange"
  de_fwrite :: "nat \<Rightarrow> bool"
  de_can_create :: "string \<Rightarrow> bool"

definition pmempool_dump_default :: pmempool_dump where
  "pmempool_dump_default = \<lparr>du_ofname = None, du_hex = True, du_bsize = 0, du_ranges = [], du_str_ranges = None,
     du_chunksize = 0, du_chunkcnt = 0, du_out = [], du_nwrite = 0\<rparr>"

text \<open>
  Writing to the output; the result says whether it was written.  \<open>fwrite\<close> of an item of size 0 writes no item.
\<close>

definition dump_emit :: "dump_env \<Rightarrow> byte list \<Rightarrow> u64 \<Rightarrow> (pmempool_dump, bool) prog" where
  "dump_emit env bytes off d =
     (if du_hex d then (Ok True, d\<lparr>du_out := du_out d @ [Hexdump bytes off]\<rparr>)
      else if bytes = [] then (Ok False, d)
      else if de_fwrite env (du_nwrite d)
        then (Ok True, d\<lparr>du_out := du_out d @ [Raw bytes], du_nwrite := Suc (du_nwrite d)\<rparr>)
      else (Ok False, d\<lparr>du_nwrite := Suc (du_nwrite d)\<rparr>))"

text \<open>\<open>err\<close> after a failed write.\<close>

definition dump_or_exit :: "dump_env \<Rightarrow> byte list \<Rightarrow> u64 \<Rightarrow> (pmempool_dump, unit) prog" where
  "dump_or_exit env bytes off = andthen (dump_emit env bytes off) (\<lambda>sent. if sent then ret () else fail EIO)"

section \<open>Log pools\<close>

text \<open>
  Reading the mapping of a pool: up to the end of its last page, where the bytes after the end of the file are
  zeros; beyond that there is nothing mapped.
\<close>

definition map_load :: "u64 \<Rightarrow> mem \<Rightarrow> nat \<Rightarrow> nat \<Rightarrow> byte list outcome" where
  "map_load poolsize m off n =
     (if (unat poolsize + 4095) div 4096 * 4096 < off + n then Stuck
      else Ok (mem_read (\<lambda>i. if i < unat poolsize then m i else 0) off n))"

definition dump_load :: "pmemlog \<Rightarrow> nat \<Rightarrow> u64 \<Rightarrow> (pmempool_dump, byte list) prog" where
  "dump_load p off n d = (map_load (log_size p) (log_mem p) off (unat n), d)"

text \<open>A chunk is printed once for every range with its number.\<close>

fun dump_chunk_ranges :: "dump_env \<Rightarrow> pmemlog \<Rightarrow> nat \<Rightarrow> prange list \<Rightarrow> (pmempool_dump, unit) prog" where
  "dump_chunk_ranges env p buf [] = ret ()"
| "dump_chunk_ranges env p buf (cur # rs) =
     andthen (gets (\<lambda>d. range_first cur \<le> du_chunkcnt d \<and> du_chunkcnt d \<le> range_last cur)) (\<lambda>sel.
     andthen
       (if sel then
          andthen (gets du_chunksize) (\<lambda>chunksize.
          andthen (dump_load p buf chunksize) (\<lambda>bytes.
          andthen (gets (\<lambda>d. chunksize * du_chunkcnt d)) (\<lambda>off.
          dump_or_exit env bytes off)))
        else ret ())
     (\<lambda>_. dump_chunk_ranges env p buf rs))"

text \<open>Without a chunk size the ranges are in bytes; the result is the ranges, cut at the end of the data.\<close>

fun dump_byte_ranges :: "dump_env \<Rightarrow> pmemlog \<Rightarrow> nat \<Rightarrow> u64 \<Rightarrow> prange list \<Rightarrow> (pmempool_dump, prange list) prog" where
  "dump_byte_ranges env p buf len [] = ret []"
| "dump_byte_ranges env p buf len (cur # rs) =
     (if len \<le> range_first cur then andthen (dump_byte_ranges env p buf len rs) (\<lambda>rs'. ret (cur # rs'))
      else
        let cur' = (if len \<le> range_last cur then cur\<lparr>range_last := len - 1\<rparr> else cur);
            count = range_last cur' - range_first cur' + 1 in
        andthen (dump_load p (buf + unat (range_first cur')) count) (\<lambda>bytes.
        andthen (dump_or_exit env bytes (range_first cur')) (\<lambda>_.
        andthen (dump_byte_ranges env p buf len rs) (\<lambda>rs'. ret (cur' # rs')))))"

definition pmempool_dump_log_process_chunk :: "dump_env \<Rightarrow> pmemlog \<Rightarrow> nat \<Rightarrow> nat \<Rightarrow> (pmempool_dump, bool) prog" where
  "pmempool_dump_log_process_chunk env p buf len =
     (if len = 0 then ret False
      else
        andthen (gets du_chunksize) (\<lambda>chunksize.
        andthen (gets du_ranges) (\<lambda>ranges.
        if chunksize \<noteq> 0 then
          andthen (dump_chunk_ranges env p buf ranges) (\<lambda>_.
          andthen (update (\<lambda>d. d\<lparr>du_chunkcnt := du_chunkcnt d + 1\<rparr>)) (\<lambda>_. ret True))
        else
          andthen (dump_byte_ranges env p buf (of_nat len) ranges) (\<lambda>ranges'.
          andthen (update (\<lambda>d. d\<lparr>du_ranges := ranges'\<rparr>)) (\<lambda>_. ret True)))))"

text \<open>The walk ends with the process when the callback does not return.\<close>

definition walk_callback :: "(nat \<Rightarrow> nat \<Rightarrow> (pmempool_dump, bool) prog) \<Rightarrow> nat \<Rightarrow> nat \<Rightarrow>
    unit outcome \<times> pmempool_dump \<Rightarrow> bool \<times> (unit outcome \<times> pmempool_dump)" where
  "walk_callback f buf len st =
     (case f buf len (snd st) of
        (Ok again, d) \<Rightarrow> (again, (Ok (), d))
      | (Err e, d) \<Rightarrow> (False, (Err e, d))
      | (Stuck, d) \<Rightarrow> (False, (Stuck, d)))"

text \<open>The ranges to dump: those of the option, or all.  The result says whether the option can be parsed.\<close>

definition dump_set_ranges :: "dump_env \<Rightarrow> prange \<Rightarrow> (pmempool_dump, bool) prog" where
  "dump_set_ranges env entire d =
     (case du_str_ranges d of
        Some str \<Rightarrow>
          (case util_parse_ranges (de_malloc env) 0 str entire (du_ranges d) of (r, rs) \<Rightarrow> (r, d\<lparr>du_ranges := rs\<rparr>))
      | None \<Rightarrow>
          (case util_ranges_add (range_first entire) (range_last entire) (du_ranges d) of
             (Ok _, rs) \<Rightarrow> (Ok True, d\<lparr>du_ranges := rs\<rparr>)
           | (Err e, rs) \<Rightarrow> (Err e, d\<lparr>du_ranges := rs\<rparr>)
           | (Stuck, rs) \<Rightarrow> (Stuck, d\<lparr>du_ranges := rs\<rparr>)))"

definition dump_log_walk :: "dump_env \<Rightarrow> pmemlog \<Rightarrow> (pmempool_dump, unit) prog" where
  "dump_log_walk env p d =
     (case pmemlog_walk p (du_chunksize d) (walk_callback (pmempool_dump_log_process_chunk env p)) (Ok (), d) of
        None \<Rightarrow> (Stuck, d)
      | Some st \<Rightarrow> st)"

definition pmempool_dump_log :: "dump_env \<Rightarrow> string \<Rightarrow> fs \<Rightarrow> pmempool_dump \<Rightarrow> int outcome \<times> pmempool_dump \<times> fs" where
  "pmempool_dump_log env fname fs d =
     (case pmemlog_open (de_mmap env) (de_log_env env) fs fname of
        (Err e, fs') \<Rightarrow> (Ok (- 1), d, fs')
      | (Stuck, fs') \<Rightarrow> (Stuck, d, fs')
      | (Ok p, fs') \<Rightarrow>
          (case andthen (dump_set_ranges env \<lparr>range_first = 0, range_last = pmemlog_nbyte p - 1\<rparr>) (\<lambda>parsed.
                if \<not> parsed then ret (- 1)
                else
                  andthen (update (\<lambda>d. d\<lparr>du_chunkcnt := 0\<rparr>)) (\<lambda>_.
                  andthen (dump_log_walk env p) (\<lambda>_. ret 0))) d of
             (r, d') \<Rightarrow> (r, d', fs')))"

section \<open>Block pools\<close>

text \<open>
  The blocks from \<open>i\<close> to \<open>last\<close>: whether all could be dumped.  The counter has 64 bits and may wrap; a loop
  that does not end is \<open>None\<close>.
\<close>

partial_function (option) dump_block_loop ::
    "dump_env \<Rightarrow> u64 \<Rightarrow> u64 \<Rightarrow> pmemblk \<Rightarrow> pmempool_dump \<Rightarrow> (bool outcome \<times> pmemblk \<times> pmempool_dump) option" where
  "dump_block_loop env i last' p d =
     (if \<not> i \<le> last' then Some (Ok True, p, d)
      else
        case pmemblk_read i p of
          (Err e, p') \<Rightarrow> Some (Ok False, p', d)
        | (Stuck, p') \<Rightarrow> Some (Stuck, p', d)
        | (Ok buff, p') \<Rightarrow>
            (case dump_emit env buff (i * du_bsize d) d of
               (Ok sent, d') \<Rightarrow>
                 if sent then dump_block_loop env (i + 1) last' p' d' else Some (Ok False, p', d')
             | (Err e, d') \<Rightarrow> Some (Err e, p', d')
             | (Stuck, d') \<Rightarrow> Some (Stuck, p', d')))"

fun dump_block_ranges :: "dump_env \<Rightarrow> prange list \<Rightarrow> int \<Rightarrow> pmemblk \<Rightarrow> pmempool_dump \<Rightarrow> int outcome \<times> pmemblk \<times> pmempool_dump" where
  "dump_block_ranges env [] st p d = (Ok st, p, d)"
| "dump_block_ranges env (cur # rs) st p d =
     (case dump_block_loop env (range_first cur) (range_last cur) p d of
        Some (Ok True, p', d') \<Rightarrow> dump_block_ranges env rs st p' d'
      | Some (Ok False, p', d') \<Rightarrow> dump_block_ranges env rs (- 1) p' d'
      | Some (Err e, p', d') \<Rightarrow> (Err e, p', d')
      | Some (Stuck, p', d') \<Rightarrow> (Stuck, p', d')
      | None \<Rightarrow> (Stuck, p, d))"

text \<open>
  The pool is open for writing, so its file has what \<open>pmemblk_open\<close> stores in the mapping and the lane
  counter that the reads advance.
\<close>

definition pmempool_dump_blk :: "dump_env \<Rightarrow> string \<Rightarrow> fs \<Rightarrow> pmempool_dump \<Rightarrow> int outcome \<times> pmempool_dump \<times> fs" where
  "pmempool_dump_blk env fname fs d =
     (case pmemblk_open (de_mmap env) (de_blk_env env) fs fname (du_bsize d) of
        (Err e, fs') \<Rightarrow> (Ok (- 1), d, fs')
      | (Stuck, fs') \<Rightarrow> (Stuck, d, fs')
      | (Ok p, fs') \<Rightarrow>
          (case dump_set_ranges env \<lparr>range_first = 0, range_last = pmemblk_nblock p - 1\<rparr> d of
             (Ok False, d') \<Rightarrow> (Ok (- 1), d', fs')
           | (Err e, d') \<Rightarrow> (Err e, d', fs')
           | (Stuck, d') \<Rightarrow> (Stuck, d', fs')
           | (Ok True, d') \<Rightarrow>
               (case dump_block_ranges env (du_ranges d') 0 p d' of
                  (r, p', d'') \<Rightarrow> (r, d'', blk_sync_file fname p' fs'))))"

section \<open>The command\<close>

definition dump_parse_opt :: "tool_opt \<Rightarrow> pmempool_dump \<Rightarrow> int + pmempool_dump" where
  "dump_parse_opt opt d =
     (case opt of (c, optopt, optarg) \<Rightarrow>
      if c = CHR ''o'' then Inr (d\<lparr>du_ofname := optarg\<rparr>)
      else if c = CHR ''b'' then Inr (d\<lparr>du_hex := False\<rparr>)
      else if c = CHR ''r'' then Inr (d\<lparr>du_str_ranges := optarg\<rparr>)
      else if c = CHR ''c'' then Inr (d\<lparr>du_chunksize := of_int (atoll (the optarg))\<rparr>)
      else if c = CHR ''?'' \<and> optopt = CHR 0x00 then Inl 0
      else Inl 1)"

fun dump_parse_opts :: "tool_opt list \<Rightarrow> pmempool_dump \<Rightarrow> int + pmempool_dump" where
  "dump_parse_opts [] d = Inr d"
| "dump_parse_opts (opt # opts) d = (case dump_parse_opt opt d of Inl st \<Rightarrow> Inl st | Inr d' \<Rightarrow> dump_parse_opts opts d')"

text \<open>
  The status, the output and the files.  Opening the output file empties it before the pool is looked at.  The
  status after \<open>err\<close> is 1.
\<close>

definition dump_result :: "int outcome \<times> pmempool_dump \<times> fs \<Rightarrow> int outcome \<times> dump_out list \<times> fs" where
  "dump_result res =
     (case res of (r, d, fs) \<Rightarrow> ((case r of Err EIO \<Rightarrow> Ok 1 | _ \<Rightarrow> r), du_out d, fs))"

definition pmempool_dump_func :: "dump_env \<Rightarrow> tool_opt list \<Rightarrow> string list \<Rightarrow> fs \<Rightarrow> int outcome \<times> dump_out list \<times> fs" where
  "pmempool_dump_func env opts operands fs =
     (case dump_parse_opts opts pmempool_dump_default of
        Inl st \<Rightarrow> (Ok st, [], fs)
      | Inr d \<Rightarrow>
          (case operands of
             [] \<Rightarrow> (Ok 1, [], fs)
           | fname # _ \<Rightarrow>
               if fs fname = None then (Ok 1, [], fs)
               else
                 case (case du_ofname d of
                         None \<Rightarrow> Inr fs
                       | Some ofname \<Rightarrow>
                           if de_can_create env ofname then Inr (fs(ofname \<mapsto> \<lparr>file_size = 0, file_data = (\<lambda>_. 0)\<rparr>))
                           else Inl 1) of
                   Inl st \<Rightarrow> (Ok st, [], fs)
                 | Inr fs1 \<Rightarrow>
                     (case pmem_pool_parse_params fs1 fname of
                        (ptype, _, bsize) \<Rightarrow>
                          let d1 = d\<lparr>du_bsize := case bsize of None \<Rightarrow> du_bsize d | Some v \<Rightarrow> v\<rparr> in
                          case ptype of
                            PMEM_POOL_TYPE_LOG \<Rightarrow> dump_result (pmempool_dump_log env fname fs1 d1)
                          | PMEM_POOL_TYPE_BLK \<Rightarrow> dump_result (pmempool_dump_blk env fname fs1 d1)
                          | _ \<Rightarrow> (Ok (- 1), [], fs1))))"

section \<open>Dumping blocks\<close>

text \<open>What is printed for some bytes in the mode of the command, when every write succeeds.\<close>

definition dump_item :: "bool \<Rightarrow> byte list \<Rightarrow> u64 \<Rightarrow> dump_out" where
  "dump_item hex bytes off = (if hex then Hexdump bytes off else Raw bytes)"

definition dump_printed :: "dump_out list \<Rightarrow> pmempool_dump \<Rightarrow> pmempool_dump \<Rightarrow> bool" where
  "dump_printed xs d d' \<longleftrightarrow> (\<exists>n. d' = d\<lparr>du_out := du_out d @ xs, du_nwrite := n\<rparr>)"

lemma dump_printed_Nil [simp]: "dump_printed [] d d"
  unfolding dump_printed_def by (rule exI [of _ "du_nwrite d"]) simp

lemma dump_printed_append: "dump_printed xs d d1 \<Longrightarrow> dump_printed ys d1 d2 \<Longrightarrow> dump_printed (xs @ ys) d d2"
  by (auto simp: dump_printed_def)

lemma dump_printedD:
  "dump_printed xs d d' \<Longrightarrow> du_hex d' = du_hex d \<and> du_bsize d' = du_bsize d \<and> du_ranges d' = du_ranges d \<and>
     du_chunksize d' = du_chunksize d \<and> du_chunkcnt d' = du_chunkcnt d \<and> du_out d' = du_out d @ xs"
  by (auto simp: dump_printed_def)

lemma dump_emit_item:
  assumes "\<forall>n. de_fwrite env n" and "bytes \<noteq> []"
  shows "\<exists>d'. dump_emit env bytes off d = (Ok True, d') \<and> dump_printed [dump_item (du_hex d) bytes off] d d'"
  using assms by (cases "du_hex d") (auto simp: dump_emit_def dump_item_def dump_printed_def
      intro: exI [of _ "du_nwrite d"])

lemma view_length: "pmemblk_view p i = Inr bs \<Longrightarrow> length bs = blk_bsize p"
  by (auto simp: pmemblk_view_def btt_view_def lba_content_def blk_bsize_def Let_def split: if_splits)

text \<open>The blocks that can be read, from \<open>i\<close> up to the first that cannot.\<close>

definition readable :: "(nat \<Rightarrow> errno + byte list) \<Rightarrow> nat \<Rightarrow> nat \<Rightarrow> nat list" where
  "readable v i n = takeWhile (\<lambda>j. \<not> isl (v j)) [i..<n]"

lemma dump_block_loop_prints:
  fixes i nb :: nat
  assumes "pmemblk_inv p" "unat (pmemblk_nblock p) = nb" "0 < nb" "i \<le> nb" "0 < blk_bsize p" "\<forall>n. de_fwrite env n"
  shows "\<exists>p' d'. dump_block_loop env (of_nat i) (pmemblk_nblock p - 1) p d =
      Some (Ok (\<forall>j\<in>{i..<nb}. \<not> isl (pmemblk_view p j)), p', d') \<and> (\<exists>k. p' = p\<lparr>next_lane := k\<rparr>) \<and>
    dump_printed (map (\<lambda>j. dump_item (du_hex d) (projr (pmemblk_view p j)) (of_nat j * du_bsize d)) (readable (pmemblk_view p) i nb)) d d'"
  using assms
proof (induction "nb - i" arbitrary: i p d)
  case 0
  then have "\<not> (of_nat i :: u64) \<le> pmemblk_nblock p - 1"
    using unat_bound [of "pmemblk_nblock p"] by (simp add: word_le_nat_alt unat_of_nat unat_minus_one word_neq_0_conv word_less_nat_alt)
  then show ?case using 0 by (subst dump_block_loop.simps) (auto simp: readable_def intro!: exI [of _ "next_lane p"])
next
  case (Suc m)
  then have i: "i < nb" by simp
  have bound: "nb < 2 ^ 64" using Suc.prems(2) unat_bound [of "pmemblk_nblock p"] by simp
  then have ui: "unat (of_nat i :: u64) = i" using i by (simp add: unat_of_nat)
  have le: "(of_nat i :: u64) \<le> pmemblk_nblock p - 1"
    using i ui Suc.prems(2,3) by (simp add: word_le_nat_alt unat_minus_one word_neq_0_conv word_less_nat_alt)
  define p1 where "p1 = p\<lparr>next_lane := next_lane p + 1\<rparr>"
  have p1: "pmemblk_read (of_nat i) p = (view_outcome (pmemblk_view p i), p1)" "blk_frame p p1"
      "pmemblk_view p1 = pmemblk_view p"
    using pmemblk_read_view [OF Suc.prems(1), of "of_nat i"] ui next_lane_frame [OF Suc.prems(1)] by (simp_all add: p1_def)
  show ?case
  proof (cases "pmemblk_view p i")
    case (Inl e)
    then show ?thesis
      using i le p1(1) by (subst dump_block_loop.simps)
        (auto simp: view_outcome_def readable_def upt_conv_Cons p1_def intro!: bexI [of _ i])
  next
    case (Inr bs)
    have "bs \<noteq> []" using view_length [OF Inr] Suc.prems(5) by auto
    then obtain d1 where d1: "dump_emit env bs (of_nat i * du_bsize d) d = (Ok True, d1)"
        "dump_printed [dump_item (du_hex d) bs (of_nat i * du_bsize d)] d d1"
      using dump_emit_item [OF Suc.prems(6)] by blast
    have "m = nb - Suc i" using Suc.hyps(2) by simp
    from Suc.hyps(1) [OF this, of p1 d1] obtain p' d' where
      rest: "dump_block_loop env (of_nat (Suc i)) (pmemblk_nblock p - 1) p1 d1 =
          Some (Ok (\<forall>j\<in>{Suc i..<nb}. \<not> isl (pmemblk_view p j)), p', d')" "\<exists>k. p' = p1\<lparr>next_lane := k\<rparr>"
        "dump_printed (map (\<lambda>j. dump_item (du_hex d1) (projr (pmemblk_view p j)) (of_nat j * du_bsize d1))
            (readable (pmemblk_view p) (Suc i) nb)) d1 d'"
      using p1(2,3) i Suc.prems by (auto simp: blk_frame_def)
    have "dump_block_loop env (of_nat i) (pmemblk_nblock p - 1) p d = dump_block_loop env (of_nat (Suc i)) (pmemblk_nblock p - 1) p1 d1"
      using le p1(1) d1(1) Inr by (subst dump_block_loop.simps) (simp add: view_outcome_def add.commute)
    moreover have "(\<forall>j\<in>{i..<nb}. \<not> isl (pmemblk_view p j)) = (\<forall>j\<in>{Suc i..<nb}. \<not> isl (pmemblk_view p j))"
      using Inr i by (auto simp: Suc_le_eq le_less)
    moreover have "readable (pmemblk_view p) i nb = i # readable (pmemblk_view p) (Suc i) nb"
      using Inr i by (simp add: readable_def upt_conv_Cons)
    ultimately show ?thesis
      using rest dump_printed_append [OF d1(2) rest(3)] dump_printedD [OF d1(2)] Inr by (auto simp: p1_def)
  qed
qed

lemma blk_sig_not_log: "strncmp_eq sig BLK_HDR_SIG 8 \<Longrightarrow> \<not> strncmp_eq sig LOG_HDR_SIG 8"
  by (simp add: strncmp_eq_takeWhile BLK_HDR_SIG_def LOG_HDR_SIG_def c_str_def)

lemma parse_params_blk:
  assumes ok: "blk_pool_ok p" and there: "fs fname = Some \<lparr>file_size = n, file_data = pool_image p\<rparr>" and size: "PMEMBLK_MIN_POOL \<le> n"
  shows "pmem_pool_parse_params fs fname = (PMEM_POOL_TYPE_BLK, Some (of_nat n), Some (ucast (lbasize (bttp p))))"
proof -
  let ?m = "pool_image p"
  have n: "4176 \<le> n" using size by (simp add: PMEMBLK_MIN_POOL_def)
  have chk: "blk_check_hdr ?m 0 False = Inr (ucast (lbasize (bttp p)), False)"
    using ok by (simp add: blk_pool_ok_def pool_image_facts)
  have sig: "strncmp_eq (take 8 (mem_read ?m 0 4096)) BLK_HDR_SIG 8"
    using chk by (auto simp: blk_check_hdr_def Let_def util_convert_hdr_def hdr_of_bytes_def POOL_HDR_SIZE_def POOL_HDR_SIG_LEN_def
        split: option.splits if_splits sum.splits)
  have bs: "(ucast (le_dec (mem_read ?m 4096 4) :: u32) :: u64) = ucast (lbasize (bttp p))"
    using chk by (auto simp: blk_check_hdr_def Let_def BLK_BSIZE_OFF_def split: option.splits if_splits sum.splits)
  have pread: "pread \<lparr>file_size = n, file_data = ?m\<rparr> 4096 0 = mem_read ?m 0 4096"
      "pread \<lparr>file_size = n, file_data = ?m\<rparr> 4176 0 = mem_read ?m 0 4176"
    using n by (simp_all add: pread_def)
  show ?thesis
    using sig blk_sig_not_log [OF sig] bs
    by (simp add: pmem_pool_parse_params_def there Let_def POOL_HDR_SIZE_def SIZEOF_PMEMBLK_def pread pmem_pool_type_parse_hdr_def
        hdr_of_bytes_def POOL_HDR_SIG_LEN_def BLK_BSIZE_OFF_def le_at_mem_read)
qed

text \<open>
  C22 \<open>pmempool dump\<close> of a block pool of one arena with at most 4 GiB of data blocks, when the pool can
  be mapped and every write to the output succeeds, prints the contents of its blocks in order, each with its offset or as it is, up to the first block that cannot be read; the status
  is 0 when there is none such and -1 otherwise.  Of all files only the dumped one changes, and only in the
  run-time fields of \<open>struct pmemblk\<close> (bytes 4104 to 4175), because the command opens the pool for writing.
\<close>

theorem dump_blk_prints:
  fixes hex :: bool
  assumes ok: "blk_pool_ok p" and there: "fs fname = Some \<lparr>file_size = n, file_data = pool_image p\<rparr>"
    and size: "PMEMBLK_MIN_POOL \<le> n" "of_nat n - BLK_DATA_OFF = blk_datasize (ns (bttp p))"
    and blocks: "unat (pmemblk_nblock p) = nb" "0 < nb" "0 < blk_bsize p"
    and env: "de_mmap env n = None" "\<forall>k. de_fwrite env k"
  shows "\<exists>m. pmempool_dump_func env (if hex then [] else [(CHR ''b'', CHR 0x00, None)]) [fname] fs =
    (Ok (if \<forall>j\<in>{0..<nb}. \<not> isl (pmemblk_view p j) then 0 else - 1),
     map (\<lambda>j. dump_item hex (projr (pmemblk_view p j)) (of_nat (j * blk_bsize p))) (readable (pmemblk_view p) 0 nb),
     fs(fname \<mapsto> \<lparr>file_size = n, file_data = m\<rparr>)) \<and> same_but_runtime (pool_image p) m"
proof -
  let ?bs = "ucast (lbasize (bttp p)) :: u64" and ?f = "\<lambda>q. \<lparr>file_size = n, file_data = pool_image q\<rparr>"
  obtain q where q: "pmemblk_open (de_mmap env) (de_blk_env env) fs fname ?bs = (Ok q, fs(fname \<mapsto> ?f q))" "blk_pool_ok q"
      "pmemblk_view q = pmemblk_view p" "pmemblk_nblock q = pmemblk_nblock p" "blk_bsize q = blk_bsize p"
      "same_but_runtime (pool_image p) (pool_image q)"
    using blk_reopen [where env = "de_blk_env env" and bsize = ?bs and mmap = "de_mmap env" and fs = fs and path = fname, OF ok there size _ env(1)] by auto
  define d where "d = pmempool_dump_default\<lparr>du_hex := hex, du_bsize := ?bs\<rparr>"
  define d1 where "d1 = d\<lparr>du_ranges := [\<lparr>range_first = 0, range_last = pmemblk_nblock p - 1\<rparr>]\<rparr>"
  have ranges: "dump_set_ranges env \<lparr>range_first = 0, range_last = pmemblk_nblock p - 1\<rparr> d = (Ok True, d1)"
    by (simp add: dump_set_ranges_def d_def d1_def pmempool_dump_default_def util_ranges_add_def util_ranges_add_range_def)
  have inv: "pmemblk_inv q" using q(2) by (simp add: blk_pool_ok_def)
  have bs: "of_nat j * ?bs = of_nat (j * blk_bsize p)" for j
    by (simp add: blk_bsize_def)
  have d1: "du_hex d1 = hex" "du_bsize d1 = ?bs" "du_out d1 = []"
    by (simp_all add: d1_def d_def pmempool_dump_default_def)
  obtain q' d2 where loop: "dump_block_loop env 0 (pmemblk_nblock p - 1) q d1 =
        Some (Ok (\<forall>j\<in>{0..<nb}. \<not> isl (pmemblk_view p j)), q', d2)" "\<exists>k. q' = q\<lparr>next_lane := k\<rparr>"
      "dump_printed (map (\<lambda>j. dump_item hex (projr (pmemblk_view p j)) (of_nat j * ?bs)) (readable (pmemblk_view p) 0 nb)) d1 d2"
    using dump_block_loop_prints [OF inv, of nb 0 env d1] q(3-5) blocks env(2) unfolding d1 by auto
  then have out: "du_out d2 = map (\<lambda>j. dump_item hex (projr (pmemblk_view p j)) (of_nat (j * blk_bsize p))) (readable (pmemblk_view p) 0 nb)"
    using dump_printedD [OF loop(3)] unfolding d1 bs by simp
  define good where "good = (\<forall>j\<in>{0..<nb}. \<not> isl (pmemblk_view p j))"
  have "du_ranges d1 = [\<lparr>range_first = 0, range_last = pmemblk_nblock p - 1\<rparr>]" "du_bsize d = ?bs"
    by (simp_all add: d_def d1_def)
  then have "pmempool_dump_blk env fname fs d = (Ok (if good then 0 else - 1), d2, fs(fname \<mapsto> ?f q'))"
    using q(1,4) ranges loop(1) unfolding good_def [symmetric]
    by (cases good) (simp_all add: pmempool_dump_blk_def blk_sync_file_def)
  moreover have "dump_parse_opts (if hex then [] else [(CHR ''b'', CHR 0x00, None)]) pmempool_dump_default =
      Inr (pmempool_dump_default\<lparr>du_hex := hex\<rparr>)"
    by (simp add: dump_parse_opt_def pmempool_dump_default_def)
  moreover have "same_but_runtime (pool_image p) (pool_image q')"
    using loop(2) same_but_runtime_trans [OF q(6) pool_image_lane] by auto
  ultimately show ?thesis
    using there parse_params_blk [of p fs fname n, OF ok there size(1)] out unfolding good_def [symmetric]
    by (intro exI [of _ "pool_image q'"]) (simp add: pmempool_dump_func_def dump_result_def d_def pmempool_dump_default_def)
qed

definition demo_dump_env :: dump_env where
  "demo_dump_env = \<lparr>de_mmap = (\<lambda>_. None),
     de_blk_env = demo_blk_env,
     de_log_env = demo_env, de_malloc = (\<lambda>_. \<lparr>range_first = 0, range_last = 0\<rparr>), de_fwrite = (\<lambda>_. True),
     de_can_create = (\<lambda>_. True)\<rparr>"

theorem dump_blk_prints_witness:
  "\<exists>m. fst (pmempool_dump_func demo_dump_env [(CHR ''b'', CHR 0x00, None)] [''pool'']
      [''pool'' \<mapsto> \<lparr>file_size = 16785408, file_data = m\<rparr>]) = Ok 0"
proof -
  obtain p where p: "blk_pool_ok p" "blk_bsize p = 512" "unat (pmemblk_nblock p) = 32202"
    "(16785408 :: u64) - BLK_DATA_OFF = blk_datasize (ns (bttp p))"
    "\<And>i. i < 32202 \<Longrightarrow> pmemblk_view p i = Inr (replicate 512 0)" using demo_pool by blast
  have "PMEMBLK_MIN_POOL \<le> 16785408" "of_nat 16785408 - BLK_DATA_OFF = blk_datasize (ns (bttp p))"
      "(0::nat) < 32202" "0 < blk_bsize p" "de_mmap demo_dump_env 16785408 = None" "\<forall>k. de_fwrite demo_dump_env k"
    using p(2,4) by (simp_all add: PMEMBLK_MIN_POOL_def demo_dump_env_def)
  from dump_blk_prints [where fs = "[''pool'' \<mapsto> \<lparr>file_size = 16785408, file_data = pool_image p\<rparr>]" and fname = "''pool''"
      and hex = False, OF p(1) _ this(1,2) p(3) this(3-6)] p(5)
  obtain m where "pmempool_dump_func demo_dump_env [(CHR ''b'', CHR 0x00, None)] [''pool'']
      [''pool'' \<mapsto> \<lparr>file_size = 16785408, file_data = pool_image p\<rparr>] =
    (Ok 0, map (\<lambda>j. dump_item False (projr (pmemblk_view p j)) (of_nat (j * blk_bsize p))) (readable (pmemblk_view p) 0 32202),
     [''pool'' \<mapsto> \<lparr>file_size = 16785408, file_data = pool_image p\<rparr>] (''pool'' \<mapsto> \<lparr>file_size = 16785408, file_data = m\<rparr>))"
    by auto
  then show ?thesis by (intro exI [of _ "pool_image p"]) simp
qed

section \<open>Dumping a log in chunks\<close>

definition nchunks :: "nat \<Rightarrow> nat \<Rightarrow> nat" where
  "nchunks c len = (len + c - 1) div c"

lemma nchunks_less: "0 < c \<Longrightarrow> k < nchunks c len \<longleftrightarrow> k * c < len"
proof -
  assume c: "0 < c"
  have "k < (len + c - 1) div c \<longleftrightarrow> Suc k * c \<le> len + c - 1"
    using c by (simp add: Suc_le_eq [symmetric] less_eq_div_iff_mult_less_eq)
  also have "\<dots> \<longleftrightarrow> k * c < len" using c by auto
  finally show ?thesis by (simp add: nchunks_def)
qed

text \<open>What the mapping shows: the pool, and zeros up to the end of its last page.\<close>

definition mapped_end :: "u64 \<Rightarrow> nat" where
  "mapped_end sz = (unat sz + 4095) div 4096 * 4096"

lemma mapped_end_ge: "unat sz \<le> mapped_end sz"
  using roundup_ge_nat [of 4096 "unat sz"] by (simp add: mapped_end_def)

definition mapped_mem :: "u64 \<Rightarrow> mem \<Rightarrow> mem" where
  "mapped_mem sz m = (\<lambda>i. if i < unat sz then m i else 0)"

lemma map_load_eq:
  "map_load sz m off n = (if mapped_end sz < off + n then Stuck else Ok (mem_read (mapped_mem sz m) off n))"
  by (simp add: map_load_def mapped_end_def mapped_mem_def)

text \<open>The state of the command between two chunks.\<close>

definition chunking :: "pmemlog \<Rightarrow> nat \<Rightarrow> nat \<Rightarrow> pmempool_dump \<Rightarrow> bool" where
  "chunking p c k d \<longleftrightarrow> du_ranges d = [\<lparr>range_first = 0, range_last = pmemlog_nbyte p - 1\<rparr>] \<and>
     du_chunksize d = of_nat c \<and> du_chunkcnt d = of_nat k"

definition chunk_item :: "pmemlog \<Rightarrow> bool \<Rightarrow> nat \<Rightarrow> nat \<Rightarrow> dump_out" where
  "chunk_item p hex c k = dump_item hex (mem_read (mapped_mem (log_size p) (log_mem p)) (8192 + k * c) c) (of_nat (k * c))"

lemma process_chunk_step:
  assumes d: "chunking p c k d" and c: "0 < c" "c < 2 ^ 63" and k: "(of_nat k :: u64) \<le> pmemlog_nbyte p - 1"
    and len: "len \<noteq> 0" and env: "\<forall>n. de_fwrite env n"
  shows "\<exists>r d'. pmempool_dump_log_process_chunk env p (8192 + k * c) len d = (r, d') \<and>
    (if mapped_end (log_size p) < 8192 + k * c + c then r = Stuck
     else r = Ok True \<and> chunking p c (Suc k) d' \<and> du_hex d' = du_hex d \<and> du_out d' = du_out d @ [chunk_item p (du_hex d) c k])"
proof -
  have uc1: "unat (of_nat c :: u64) = c" using c by (simp add: unat_of_nat)
  then have uc2: "(of_nat c :: u64) \<noteq> 0" using c(1) by (metis less_irrefl unat_0)
  note uc = uc1 uc2
  let ?buf = "8192 + k * c"
  let ?bytes = "mem_read (mapped_mem (log_size p) (log_mem p)) ?buf c"
  show ?thesis
  proof (cases "mapped_end (log_size p) < ?buf + c")
    case True
    then show ?thesis
      using d uc k len by (simp add: pmempool_dump_log_process_chunk_def chunking_def dump_load_def map_load_eq andthen_def prog_simps)
  next
    case False
    have "?bytes \<noteq> []" using c(1) by (metis length_0_conv length_mem_read less_irrefl)
    then obtain d1 where d1: "dump_emit env ?bytes (of_nat c * of_nat k) d = (Ok True, d1)"
      "dump_printed [dump_item (du_hex d) ?bytes (of_nat c * of_nat k)] d d1"
      using dump_emit_item [OF env] by blast
    have "dump_chunk_ranges env p ?buf (du_ranges d) d = (Ok (), d1)"
      using d uc k False d1(1)
      by (simp add: chunking_def dump_load_def map_load_eq dump_or_exit_def andthen_def prog_simps)
    then have "pmempool_dump_log_process_chunk env p ?buf len d = (Ok True, d1\<lparr>du_chunkcnt := du_chunkcnt d1 + 1\<rparr>)"
      using d uc len by (simp add: pmempool_dump_log_process_chunk_def chunking_def andthen_def prog_simps)
    then show ?thesis
      using False dump_printedD [OF d1(2)] d by (simp add: chunking_def chunk_item_def mult.commute add.commute)
  qed
qed

lemma unat_small: "n < 2 ^ 64 \<Longrightarrow> unat (of_nat n :: u64) = n"
  by (simp add: unat_of_nat)

lemma chunk_end:
  assumes "0 < c" "k < nchunks c len" "Suc k < nchunks c len"
  shows "k * c + c < len"
  using nchunks_less [OF assms(1), of "Suc k" len] assms(3) by (simp add: add.commute)

lemma dump_chunk_loop:
  assumes inv: "log_inv p" and c: "0 < c" "c < 2 ^ 63" and env: "\<forall>n. de_fwrite env n"
    and d: "chunking p c k d" and k: "k \<le> nchunks c (length (log_contents p))"
  shows "\<exists>r d'. walk_loop (walk_callback (pmempool_dump_log_process_chunk env p)) (of_nat c)
      (log_field (log_mem p) LOG_WRITE_OFF) (of_nat (8192 + k * c)) (Ok (), d) = Some (r, d') \<and>
    (if k < nchunks c (length (log_contents p)) \<and> mapped_end (log_size p) < 8192 + nchunks c (length (log_contents p)) * c
     then r = Stuck
     else r = Ok () \<and> du_out d' = du_out d @ map (chunk_item p (du_hex d) c) [k..<nchunks c (length (log_contents p))])"
  using d k
proof (induction "nchunks c (length (log_contents p)) - k" arbitrary: k d)
  case (0 k d)
  let ?w = "log_field (log_mem p) LOG_WRITE_OFF" and ?len = "length (log_contents p)" and ?x = "of_nat (8192 + k * c) :: u64"
  have w: "unat ?w = 8192 + ?len" "8192 + ?len < 2 ^ 63" using log_write_point [OF inv] by linarith+
  have eq: "k = nchunks c ?len" using 0 by simp
  have "\<not> k * c < ?len" using nchunks_less [OF c(1), of k ?len] eq by simp
  moreover have "k * c < ?len + c"
  proof (cases k)
    case (Suc j)
    then have "j * c < ?len" using nchunks_less [OF c(1), of j ?len] eq by simp
    then show ?thesis using Suc by simp
  qed (use c in simp)
  moreover have "(2::nat) ^ 64 = 2 ^ 63 + 2 ^ 63" by simp
  ultimately have "8192 + k * c < 2 ^ 64" and le: "?len \<le> k * c" using w(2) c(2) by linarith+
  from unat_small [OF this(1)] have "unat ?x = 8192 + k * c" .
  then have "\<not> ?x < ?w" using w(1) le by (simp add: word_less_nat_alt)
  then show ?case using eq by (subst walk_loop.simps) simp
next
  case (Suc n k d)
  let ?w = "log_field (log_mem p) LOG_WRITE_OFF" and ?len = "length (log_contents p)" and ?x = "of_nat (8192 + k * c) :: u64"
  have w: "unat ?w = 8192 + ?len" "8192 + ?len < 2 ^ 63" "?len \<le> log_cap p" "unat (log_size p) = log_cap p + 8192"
    using log_write_point [OF inv] by linarith+
  have lt: "k < nchunks c ?len" using Suc.hyps(2) by simp
  then have kc: "k * c < ?len" by (simp add: nchunks_less [OF c(1)])
  then have "8192 + k * c < 2 ^ 63" using w(2) by linarith
  then have "8192 + k * c < 2 ^ 64" by simp
  then have ux: "unat ?x = 8192 + k * c" by (rule unat_small)
  have xw: "?x < ?w" using ux w(1) kc by (simp add: word_less_nat_alt)
  have uc: "unat (of_nat c :: u64) = c" using c by (simp add: unat_of_nat)
  have "0 < unat (of_nat c :: u64)" using uc c(1) by simp
  moreover have "0 < unat (?w - ?x)" using xw by (simp add: unat_sub word_less_nat_alt order.strict_implies_order)
  ultimately have len: "unat (min (of_nat c) (?w - ?x)) \<noteq> 0" by (auto simp: min_def)
  have "k * 1 \<le> k * c" using c(1) by (intro mult_le_mono2) simp
  then have klen: "k < ?len" using kc by linarith
  then have "k < 2 ^ 63" using w(2) by linarith
  then have "unat (of_nat k :: u64) = k" by (intro unat_small) simp
  note k64 = klen this
  have nb: "unat (pmemlog_nbyte p) = log_cap p"
    using inv w(4) by (simp add: pmemlog_nbyte_def log_inv_def log_meta_def unat_sub word_le_nat_alt)
  have "pmemlog_nbyte p \<noteq> 0" using nb k64(1) w(3) by (metis unat_0 not_less_zero order.strict_trans2)
  then have kn: "(of_nat k :: u64) \<le> pmemlog_nbyte p - 1"
    using nb k64 w(3) by (simp add: word_le_nat_alt unat_minus_one)
  obtain r1 d1 where step: "pmempool_dump_log_process_chunk env p (8192 + k * c) (unat (min (of_nat c) (?w - ?x))) d = (r1, d1)"
    "if mapped_end (log_size p) < 8192 + k * c + c then r1 = Stuck
     else r1 = Ok True \<and> chunking p c (Suc k) d1 \<and> du_hex d1 = du_hex d \<and> du_out d1 = du_out d @ [chunk_item p (du_hex d) c k]"
    using process_chunk_step [OF Suc.prems(1) c kn len env] by blast
  show ?case
  proof (cases "mapped_end (log_size p) < 8192 + k * c + c")
    case True
    have "Suc k = nchunks c ?len"
    proof (rule ccontr)
      assume "Suc k \<noteq> nchunks c ?len"
      then have "k * c + c < ?len" using chunk_end [OF c(1) lt] lt by simp
      then have "8192 + k * c + c < unat (log_size p)" using w(3,4) by linarith
      then show False using True mapped_end_ge [of "log_size p"] by linarith
    qed
    then have "8192 + nchunks c ?len * c = 8192 + k * c + c" using \<open>Suc k = nchunks c ?len\<close> [symmetric] by simp
    then show ?thesis
      using True xw step ux lt by (subst walk_loop.simps) (simp add: Let_def walk_callback_def)
  next
    case False
    then have r1: "r1 = Ok True" "chunking p c (Suc k) d1" "du_hex d1 = du_hex d" "du_out d1 = du_out d @ [chunk_item p (du_hex d) c k]"
      using step(2) by simp_all
    have "n = nchunks c ?len - Suc k" "Suc k \<le> nchunks c ?len" using Suc.hyps(2) lt by simp_all
    from Suc.hyps(1) [OF this(1) r1(2) this(2)] obtain r d' where
      rest: "walk_loop (walk_callback (pmempool_dump_log_process_chunk env p)) (of_nat c) ?w (of_nat (8192 + Suc k * c)) (Ok (), d1) = Some (r, d')"
        "if Suc k < nchunks c ?len \<and> mapped_end (log_size p) < 8192 + nchunks c ?len * c then r = Stuck
         else r = Ok () \<and> du_out d' = du_out d1 @ map (chunk_item p (du_hex d1) c) [Suc k..<nchunks c ?len]" by blast
    have next_x: "?x + of_nat c = of_nat (8192 + Suc k * c)" by simp
    have "walk_loop (walk_callback (pmempool_dump_log_process_chunk env p)) (of_nat c) ?w ?x (Ok (), d) = Some (r, d')"
      using xw step(1) ux r1(1) rest(1) by (subst walk_loop.simps) (simp add: Let_def walk_callback_def next_x del: of_nat_add of_nat_mult)
    moreover have "mapped_end (log_size p) < 8192 + nchunks c ?len * c \<longrightarrow> Suc k < nchunks c ?len"
    proof (rule impI, rule ccontr)
      assume "mapped_end (log_size p) < 8192 + nchunks c ?len * c" "\<not> Suc k < nchunks c ?len"
      then have "nchunks c ?len = Suc k" using lt by simp
      then show False using \<open>mapped_end (log_size p) < 8192 + nchunks c ?len * c\<close> False by simp
    qed
    ultimately show ?thesis
      using rest(2) r1(3,4) lt by (auto simp: upt_conv_Cons split: if_splits)
  qed
qed

text \<open>The pool that opening a sound log file gives.\<close>

definition log_opened :: "log_env \<Rightarrow> mem \<Rightarrow> u64 \<Rightarrow> bool \<Rightarrow> pmemlog" where
  "log_opened env m sz r = \<lparr>log_dev = log_boot env m, log_size = sz, log_is_pmem = le_is_pmem env, log_rdonly = r\<rparr>"

lemma log_opened_simps [simp]: "log_mem (log_opened env m sz r) = m" "log_size (log_opened env m sz r) = sz"
  by (simp_all add: log_opened_def)

lemma log_open_sound:
  assumes there: "fs fname = Some \<lparr>file_size = unat sz, file_data = m\<rparr>" and size: "PMEMLOG_MIN_POOL \<le> unat sz" "unat sz < 2 ^ 63"
    and chk: "log_check_hdr m sz False = Inr r" and mmap: "mmap (unat sz) = None"
  shows "pmemlog_open mmap env fs fname = (Ok (log_opened env m sz r), fs)" and "log_inv (log_opened env m sz r)"
    and "fst (pmem_pool_parse_params fs fname) = PMEM_POOL_TYPE_LOG"
proof -
  show "pmemlog_open mmap env fs fname = (Ok (log_opened env m sz r), fs)"
    using there mmap size(1) chk
    by (auto simp: pmemlog_open_def util_pool_open_def log_map_file_def pmemlog_map_common_def log_opened_def fun_eq_iff)
  show "log_inv (log_opened env m sz r)"
    using log_check_hdr_InrD [OF chk] size by (simp add: log_inv_def log_meta_def)
  have hdr: "pread \<lparr>file_size = unat sz, file_data = m\<rparr> POOL_HDR_SIZE 0 = mem_read m 0 POOL_HDR_SIZE"
    using size(1) by (simp add: pread_def POOL_HDR_SIZE_def PMEMLOG_MIN_POOL_def)
  have "strncmp_eq (take 8 (mem_read m 0 POOL_HDR_SIZE)) LOG_HDR_SIG POOL_HDR_SIG_LEN"
    using chk by (auto simp: log_check_hdr_def util_convert_hdr_def hdr_of_bytes_def Let_def split: option.splits if_splits)
  then show "fst (pmem_pool_parse_params fs fname) = PMEM_POOL_TYPE_LOG"
    by (simp add: pmem_pool_parse_params_def there Let_def hdr pmem_pool_type_parse_hdr_def hdr_of_bytes_def)
qed

text \<open>The options of the two modes, and what the command does with them on a log pool.\<close>

definition dump_mode_opts :: "bool \<Rightarrow> tool_opt list" where
  "dump_mode_opts hex = (if hex then [] else [(CHR ''b'', CHR 0x00, None)])"

lemma dump_func_log:
  assumes "fs fname = Some f" and "fst (pmem_pool_parse_params fs fname) = PMEM_POOL_TYPE_LOG"
    and "0 \<le> atoll sc" and "pmem_pool_parse_params fs fname = (t, sz, None)"
  shows "pmempool_dump_func env (dump_mode_opts hex @ [(CHR ''c'', CHR 0x00, Some sc)]) [fname] fs =
    dump_result (pmempool_dump_log env fname fs (pmempool_dump_default\<lparr>du_hex := hex, du_chunksize := of_int (atoll sc)\<rparr>))"
  using assms by (auto simp: pmempool_dump_func_def dump_mode_opts_def dump_parse_opt_def pmempool_dump_default_def)

lemma dump_log_unfold:
  assumes "pmemlog_open (de_mmap env) (de_log_env env) fs fname = (Ok p, fs')" and "du_str_ranges d = None" "du_ranges d = []"
    and "pmemlog_walk p (du_chunksize d) (walk_callback (pmempool_dump_log_process_chunk env p))
      (Ok (), d\<lparr>du_ranges := [\<lparr>range_first = 0, range_last = pmemlog_nbyte p - 1\<rparr>], du_chunkcnt := 0\<rparr>) = Some (r, d')"
  shows "pmempool_dump_log env fname fs d = (case r of Ok _ \<Rightarrow> Ok 0 | Err e \<Rightarrow> Err e | Stuck \<Rightarrow> Stuck, d', fs')"
proof -
  have "dump_set_ranges env \<lparr>range_first = 0, range_last = pmemlog_nbyte p - 1\<rparr> d =
      (Ok True, d\<lparr>du_ranges := [\<lparr>range_first = 0, range_last = pmemlog_nbyte p - 1\<rparr>]\<rparr>)"
    using assms(2,3) by (simp add: dump_set_ranges_def util_ranges_add_def util_ranges_add_range_def)
  then show ?thesis
    using assms(1,4) by (simp add: pmempool_dump_log_def andthen_def dump_log_walk_def prog_simps split: outcome.split)
qed

text \<open>
  C23 \<open>pmempool dump -c size\<close> of a log pool prints every chunk with the full size, also the last one: behind the
  data it prints the bytes that follow in the file, which may be data from before a rewind, and the zeros that the
  last page has behind the file; where the last chunk goes beyond the mapping it does not come back.
\<close>

theorem dump_log_chunks:
  fixes hex :: bool
  assumes there: "fs fname = Some \<lparr>file_size = unat sz, file_data = m\<rparr>" and size: "PMEMLOG_MIN_POOL \<le> unat sz" "unat sz < 2 ^ 63"
    and chk: "log_check_hdr m sz False = Inr r" and env: "de_mmap env (unat sz) = None" "\<forall>k. de_fwrite env k"
    and c: "atoll sc = int c" "0 < c" and n: "n = nchunks c (unat (log_field m LOG_WRITE_OFF) - 8192)"
  shows "if 0 < n \<and> mapped_end sz < 8192 + n * c
    then fst (pmempool_dump_func env (dump_mode_opts hex @ [(CHR ''c'', CHR 0x00, Some sc)]) [fname] fs) = Stuck
    else pmempool_dump_func env (dump_mode_opts hex @ [(CHR ''c'', CHR 0x00, Some sc)]) [fname] fs =
      (Ok 0, map (\<lambda>k. dump_item hex (mem_read (mapped_mem sz m) (8192 + k * c) c) (of_nat (k * c))) [0..<n], fs)"
proof -
  let ?p = "log_opened (de_log_env env) m sz r"
  note op = log_open_sound(1,2) [of fs fname sz m r "de_mmap env" "de_log_env env", OF there size chk env(1)]
    log_open_sound(3) [of fs fname sz m r "de_mmap env", OF there size chk env(1)]
  define d where "d = pmempool_dump_default\<lparr>du_hex := hex, du_chunksize := of_int (atoll sc)\<rparr>"
  let ?d = "d\<lparr>du_ranges := [\<lparr>range_first = 0, range_last = pmemlog_nbyte ?p - 1\<rparr>], du_chunkcnt := 0\<rparr>"
  obtain t psz where "pmem_pool_parse_params fs fname = (t, psz, None)"
    using op(3) there by (simp add: pmem_pool_parse_params_def Let_def)
  then have run: "pmempool_dump_func env (dump_mode_opts hex @ [(CHR ''c'', CHR 0x00, Some sc)]) [fname] fs =
      dump_result (pmempool_dump_log env fname fs d)"
    unfolding d_def using dump_func_log [OF there op(3)] c(1) by simp
  have c63: "c < 2 ^ 63" using c(1) by (auto simp: atoll_def Let_def split: if_splits)
  have w: "unat (log_field m LOG_WRITE_OFF) - 8192 = length (log_contents ?p)" by (simp add: log_contents_def)
  have start: "log_field m LOG_START_OFF = 8192" using log_check_hdr_InrD(1) [OF chk] .
  have uc: "unat (of_nat c :: u64) = c" using c63 by (intro unat_small) simp
  then have c0: "(of_nat c :: u64) \<noteq> 0" using c(2) by (metis less_irrefl unat_0)
  have "chunking ?p c 0 ?d" using c(1) by (simp add: chunking_def d_def)
  from dump_chunk_loop [OF op(2) c(2) c63 env(2) this] obtain r' d' where
    loop: "walk_loop (walk_callback (pmempool_dump_log_process_chunk env ?p)) (of_nat c) (log_field m LOG_WRITE_OFF) 8192 (Ok (), ?d) = Some (r', d')"
      "if 0 < n \<and> mapped_end sz < 8192 + n * c then r' = Stuck
       else r' = Ok () \<and> du_out d' = du_out ?d @ map (chunk_item ?p (du_hex ?d) c) [0..<n]"
    using n w by auto
  have "pmemlog_walk ?p (du_chunksize d) (walk_callback (pmempool_dump_log_process_chunk env ?p)) (Ok (), ?d) = Some (r', d')"
    using loop(1) c(1) c0 start by (simp add: pmemlog_walk_def Let_def d_def)
  from dump_log_unfold [OF op(1) _ _ this]
  have res: "pmempool_dump_log env fname fs d = (case r' of Ok _ \<Rightarrow> Ok 0 | Err e \<Rightarrow> Err e | Stuck \<Rightarrow> Stuck, d', fs)"
    by (simp add: d_def pmempool_dump_default_def)
  show ?thesis
    unfolding run res using loop(2)
    by (auto simp: dump_result_def d_def pmempool_dump_default_def chunk_item_def split: if_splits)
qed

theorem dump_log_chunks_witness:
  "\<exists>m. pmempool_dump_func demo_dump_env [(CHR ''b'', CHR 0x00, None), (CHR ''c'', CHR 0x00, Some ''3'')] [''log'']
      [''log'' \<mapsto> \<lparr>file_size = 2097152, file_data = m\<rparr>] =
    (Ok 0, [Raw [7, 8, 9]], [''log'' \<mapsto> \<lparr>file_size = 2097152, file_data = m\<rparr>]) \<and> log_field m LOG_WRITE_OFF = 8193"
proof -
  obtain m where m: "log_check_hdr m 2097152 False = Inr False" "log_image m m []" by (rule demo_image)
  let ?m = "mem_write (mem_write m 4112 (le_enc 8 (8193 :: u64))) 8192 [7, 8, 9]"
  have w: "log_field ?m LOG_WRITE_OFF = 8193"
    by (simp add: log_field_def LOG_WRITE_OFF_def mem_simps)
  have "mem_read ?m 8192 1 = [7]" by (simp add: mem_read_def mem_write_def)
  then have "log_image m ?m [7]" using w by (simp add: log_image_def mem_simps)
  from log_check_hdr_image [OF m(1) this] have chk: "log_check_hdr ?m 2097152 False = Inr False" by simp
  have n: "nchunks 3 (unat (log_field ?m LOG_WRITE_OFF) - 8192) = 1" unfolding w by (simp add: nchunks_def)
  have "mem_read (mapped_mem 2097152 ?m) 8192 3 = mem_read ?m 8192 3" by (rule mem_read_cong) (simp add: mapped_mem_def)
  then have "mem_read (mapped_mem 2097152 ?m) 8192 3 = [7, 8, 9]" by simp
  moreover have "\<not> mapped_end 2097152 < 8192 + 1 * 3" by (simp add: mapped_end_def)
  moreover have "atoll ''3'' = int 3" by (simp add: atoll_def isspace_def isdigit_def digits_value_def)
  ultimately show ?thesis
    using dump_log_chunks [of "[''log'' \<mapsto> \<lparr>file_size = 2097152, file_data = ?m\<rparr>]" "''log''" 2097152 ?m False demo_dump_env "''3''" 3 1 False]
      chk n w
    by (intro exI [of _ ?m]) (simp add: dump_mode_opts_def dump_item_def demo_dump_env_def PMEMLOG_MIN_POOL_def)
qed

end
