(* ===== verification/Tool_Output.thy ===== *)
theory Tool_Output
  imports Tool_Common
begin

text \<open>
  The output functions of the \<open>pmempool\<close> tool, \<open>src/tools/pmempool/output.c\<close>, as functions to the text
  they print.  What is written with \<open>%x\<close>, \<open>%d\<close> and \<open>%s\<close> is written out; values computed in floating
  point (percentages and human-readable sizes) are not modelled.  The reader of a hexdump at the end inverts it.
\<close>

section \<open>Numbers\<close>

definition hexdigit :: "nat \<Rightarrow> char" where
  "hexdigit d = char_of (if d < 10 then 48 + d else 87 + d)"

fun hex_digits :: "nat \<Rightarrow> string" where
  "hex_digits n = (if n < 16 then [hexdigit n] else hex_digits (n div 16) @ [hexdigit (n mod 16)])"

declare hex_digits.simps [simp del]

text \<open>\<open>%0wx\<close>: at least \<open>w\<close> digits.\<close>

definition hex_str :: "nat \<Rightarrow> nat \<Rightarrow> string" where
  "hex_str w n = (let s = hex_digits n in replicate (w - length s) (CHR ''0'') @ s)"

fun dec_digits :: "nat \<Rightarrow> string" where
  "dec_digits n = (if n < 10 then [char_of (48 + n)] else dec_digits (n div 10) @ [char_of (48 + n mod 10)])"

declare dec_digits.simps [simp del]

text \<open>\<open>%ld\<close> of a 64-bit value, which is signed.\<close>

definition ld_str :: "u64 \<Rightarrow> string" where
  "ld_str n = (if sint n < 0 then CHR ''-'' # dec_digits (nat (- sint n)) else dec_digits (nat (sint n)))"

text \<open>\<open>%-ws\<close>: padded with blanks on the right.\<close>

definition pad_right :: "nat \<Rightarrow> string \<Rightarrow> string" where
  "pad_right w s = s @ replicate (w - length s) (CHR '' '')"

section \<open>Values as text\<close>

definition outv_check :: "int \<Rightarrow> int \<Rightarrow> bool" where
  "outv_check out_vlevel v \<longleftrightarrow> v \<le> out_vlevel"

definition out_get_size_str :: "u64 \<Rightarrow> string" where
  "out_get_size_str n = ld_str n"

definition isprint :: "byte \<Rightarrow> bool" where
  "isprint b \<longleftrightarrow> 32 \<le> unat b \<and> unat b < 127"

definition out_get_printable_ascii :: "byte \<Rightarrow> char" where
  "out_get_printable_ascii b = (if isprint b then char_of (unat b) else CHR ''.'')"

text \<open>The text and its length, or \<open>None\<close> where the buffer is too small.\<close>

definition out_get_ascii_str :: "nat \<Rightarrow> byte list \<Rightarrow> string option" where
  "out_get_ascii_str str_len datap =
     (if str_len < length datap then None else Some (map out_get_printable_ascii datap))"

fun hex_bytes :: "nat \<Rightarrow> byte list \<Rightarrow> string" where
  "hex_bytes i [] = []"
| "hex_bytes i (b # bs) =
     (if i \<noteq> 0 \<and> i mod 8 = 0 then '' '' else []) @ hex_str 2 (unat b) @ '' '' @ hex_bytes (Suc i) bs"

definition out_get_hex_str :: "nat \<Rightarrow> byte list \<Rightarrow> string option" where
  "out_get_hex_str str_len datap = (if str_len < 3 * length datap + 1 then None else Some (hex_bytes 0 datap))"

section \<open>The hexdump\<close>

definition HEXDUMP_ROW_WIDTH :: nat where "HEXDUMP_ROW_WIDTH = 16"
definition HEXDUMP_ROW_HEX_LEN :: nat where "HEXDUMP_ROW_HEX_LEN = HEXDUMP_ROW_WIDTH * 3 + 1 + 1"
definition HEXDUMP_ROW_ASCII_LEN :: nat where "HEXDUMP_ROW_ASCII_LEN = HEXDUMP_ROW_WIDTH + 1"

text \<open>
  A row, without its newline; nothing is printed when one of the two parts is empty.  The result -1 of a buffer
  that is too small is not 0, so the row would be printed with the old contents of the buffer, which is \<open>None\<close>.
\<close>

definition hexdump_row :: "u64 \<Rightarrow> byte list \<Rightarrow> string list option" where
  "hexdump_row off row =
     (case (out_get_hex_str HEXDUMP_ROW_HEX_LEN row, out_get_ascii_str HEXDUMP_ROW_ASCII_LEN row) of
        (Some h, Some a) \<Rightarrow>
          Some (if h \<noteq> [] \<and> a \<noteq> []
                then [hex_str 8 (unat off) @ ''  '' @ pad_right HEXDUMP_ROW_HEX_LEN h @ ''|'' @ pad_right HEXDUMP_ROW_WIDTH a @ ''|'']
                else [])
      | _ \<Rightarrow> None)"

text \<open>
  The loop over the rows: \<open>prev\<close> is the last row that was printed, \<open>None\<close> before the first, and
  \<open>repeated\<close> tells whether a star stands for rows like it.
\<close>

function hexdump_loop :: "byte list option \<Rightarrow> bool \<Rightarrow> u64 \<Rightarrow> byte list \<Rightarrow> string list option" where
  "hexdump_loop prev repeated off bytes =
     (if bytes = [] then Some []
      else
        let row = take HEXDUMP_ROW_WIDTH bytes;
            rest = drop HEXDUMP_ROW_WIDTH bytes in
        if rest \<noteq> [] \<and> prev = Some row
        then map_option (\<lambda>ls. (if repeated then [] else [''*'']) @ ls)
               (hexdump_loop prev True (off + of_nat HEXDUMP_ROW_WIDTH) rest)
        else
          case hexdump_row off row of
            None \<Rightarrow> None
          | Some l \<Rightarrow> map_option (\<lambda>ls. l @ ls) (hexdump_loop (Some row) False (off + of_nat HEXDUMP_ROW_WIDTH) rest))"
  by pat_completeness auto
termination
  by (relation "measure (\<lambda>(prev, repeated, off, bytes). length bytes)") (auto simp: HEXDUMP_ROW_WIDTH_def)

declare hexdump_loop.simps [simp del]

text \<open>The separator is one dash shorter than the last row with its newline.\<close>

definition outv_hexdump :: "byte list \<Rightarrow> u64 \<Rightarrow> bool \<Rightarrow> string list option" where
  "outv_hexdump bytes off sep =
     (if bytes = [] then Some []
      else
        case hexdump_loop None False off bytes of
          None \<Rightarrow> None
        | Some ls \<Rightarrow> Some (ls @ (if sep \<and> ls \<noteq> [] then [replicate (length (last ls)) (CHR ''-'')] else [])))"

section \<open>Checksums, map entries and pool types\<close>

definition out_get_checksum :: "byte list \<Rightarrow> nat \<Rightarrow> string" where
  "out_get_checksum bs csump =
     (let csum = (le_at 8 bs csump :: u64) in
      case util_validate_checksum bs csump of (valid, bs') \<Rightarrow>
        if valid then ''0x'' @ hex_str 8 (unat (ucast csum :: u32)) @ '' [OK]''
        else ''0x'' @ hex_str 8 (unat (ucast csum :: u32)) @ '' [wrong! should be: 0x'' @
             hex_str 8 (unat (ucast (le_at 8 bs' csump :: u64) :: u32)) @ '']'')"

definition out_get_btt_map_entry :: "u32 \<Rightarrow> string" where
  "out_get_btt_map_entry entry =
     (let flags = entry AND NOT BTT_MAP_ENTRY_LBA_MASK;
          lba = entry AND BTT_MAP_ENTRY_LBA_MASK in
      ''0x'' @ hex_str 8 (unat lba) @ '' state: '' @
      (if flags = 0 then ''init''
       else if flags = BTT_MAP_ENTRY_ZERO then ''zero''
       else if flags = BTT_MAP_ENTRY_ERROR then ''error''
       else if flags = BTT_MAP_ENTRY_NORMAL then ''normal''
       else ''unknown''))"

definition out_get_pool_type_str :: "pmem_pool_type \<Rightarrow> string" where
  "out_get_pool_type_str t =
     (case t of
        PMEM_POOL_TYPE_LOG \<Rightarrow> ''log''
      | PMEM_POOL_TYPE_BLK \<Rightarrow> ''blk''
      | _ \<Rightarrow> ''unknown'')"

section \<open>Reading a hexdump\<close>

definition hexval :: "char \<Rightarrow> nat" where
  "hexval c = (if of_char c < (58 :: nat) then of_char c - 48 else of_char c - 87)"

definition hex_value :: "string \<Rightarrow> nat" where
  "hex_value s = foldl (\<lambda>n c. 16 * n + hexval c) 0 s"

fun byte_pairs :: "string \<Rightarrow> byte list" where
  "byte_pairs (c # d # s) = of_nat (16 * hexval c + hexval d) # byte_pairs s"
| "byte_pairs _ = []"

text \<open>The offset is up to the first blank, the bytes are up to the first bar.\<close>

definition read_row :: "string \<Rightarrow> u64 \<times> byte list" where
  "read_row line =
     (let off = takeWhile (\<lambda>c. c \<noteq> CHR '' '') line in
      (of_nat (hex_value off),
       byte_pairs (filter (\<lambda>c. c \<noteq> CHR '' '') (takeWhile (\<lambda>c. c \<noteq> CHR ''|'') (drop (length off) line)))))"

text \<open>A star stands for as many copies of the row before it as fit up to the next offset.\<close>

fun read_lines :: "bool \<Rightarrow> u64 \<times> byte list \<Rightarrow> string list \<Rightarrow> byte list" where
  "read_lines star prev [] = []"
| "read_lines star prev (l # ls) =
     (if l = ''*'' then read_lines True prev ls
      else
        let r = read_row l in
        (if star then concat (replicate (unat (fst r - fst prev) div HEXDUMP_ROW_WIDTH - 1) (snd prev)) else [])
        @ snd r @ read_lines False r ls)"

lemma of_char_hexdigit: "d < 16 \<Longrightarrow> (of_char (hexdigit d) :: nat) = (if d < 10 then 48 + d else 87 + d)"
  by (simp add: hexdigit_def)

lemma hexval_hexdigit [simp]: "d < 16 \<Longrightarrow> hexval (hexdigit d) = d"
  by (simp add: hexval_def of_char_hexdigit)

lemma hexdigit_neq: "d < 16 \<Longrightarrow> hexdigit d \<noteq> CHR '' '' \<and> hexdigit d \<noteq> CHR ''|'' \<and> hexdigit d \<noteq> CHR ''*''"
  using of_char_hexdigit [of d] by (auto split: if_splits)

lemma hex_digits_value: "hex_value (hex_digits n) = n"
proof (induction n rule: hex_digits.induct)
  case (1 n)
  show ?case
  proof (cases "n < 16")
    case True
    then show ?thesis by (subst hex_digits.simps) (simp add: hex_value_def)
  next
    case False
    then have "hex_value (hex_digits n) = 16 * hex_value (hex_digits (n div 16)) + n mod 16"
      by (subst hex_digits.simps) (simp add: hex_value_def)
    then show ?thesis using 1 False by simp
  qed
qed

lemma hex_value_zeros: "hex_value (replicate k (CHR ''0'') @ s) = hex_value s"
  by (induction k) (simp_all add: hex_value_def hexval_def)

lemma hex_str_value: "hex_value (hex_str w n) = n"
  by (simp add: hex_str_def Let_def hex_value_zeros hex_digits_value)

lemma hex_digits_chars: "c \<in> set (hex_digits n) \<Longrightarrow> c \<noteq> CHR '' '' \<and> c \<noteq> CHR ''|'' \<and> c \<noteq> CHR ''*''"
proof (induction n rule: hex_digits.induct)
  case (1 n)
  then show ?case using hexdigit_neq [of n] hexdigit_neq [of "n mod 16"]
    by (cases "n < 16") (subst (asm) hex_digits.simps; auto)+
qed

lemma hex_str_chars: "c \<in> set (hex_str w n) \<Longrightarrow> c \<noteq> CHR '' '' \<and> c \<noteq> CHR ''|'' \<and> c \<noteq> CHR ''*''"
  using hex_digits_chars [of c n] by (auto simp: hex_str_def Let_def)

lemma hex_str_byte: "n < 256 \<Longrightarrow> hex_str 2 n = [hexdigit (n div 16), hexdigit (n mod 16)]"
proof (cases "n < 16")
  case True
  then show ?thesis by (simp add: hex_str_def hex_digits.simps [of n]) (simp add: hexdigit_def char_of_def bit_simps)
next
  case False
  assume "n < 256"
  then have "n div 16 < 16" by simp
  then show ?thesis using False by (simp add: hex_str_def hex_digits.simps [of n] hex_digits.simps [of "n div 16"])
qed

lemma byte_pairs_hex:
  "byte_pairs (filter (\<lambda>c. c \<noteq> CHR '' '') (hex_bytes i bs)) = bs"
  "c \<in> set (hex_bytes i bs) \<Longrightarrow> c \<noteq> CHR ''|''"
proof (induction i bs rule: hex_bytes.induct)
  case (2 i b bs)
  {
    case 1
    have b: "unat b < 256" using unat_bound [of b] by simp
    then have d: "unat b div 16 < 16" by simp
    have "16 * (unat b div 16) + unat b mod 16 = unat b" by presburger
    then show ?case
      using 2(1) b d hexdigit_neq [OF d] hexdigit_neq [of "unat b mod 16"]
      by (simp add: hex_str_byte)
  next
    case 2
    then show ?case using "2.IH"(2) hex_str_chars [of c 2 "unat b"] by (auto split: if_splits)
  }
qed simp_all

lemma takeWhile_all_append: "(\<And>c. c \<in> set xs \<Longrightarrow> P c) \<Longrightarrow> \<not> P y \<Longrightarrow> takeWhile P (xs @ y # ys) = xs"
  by (induction xs) auto

lemma filter_pad: "filter (\<lambda>c. c \<noteq> CHR '' '') (pad_right w s) = filter (\<lambda>c. c \<noteq> CHR '' '') s"
  by (simp add: pad_right_def)

lemma hexdump_row_read:
  assumes "row \<noteq> []" and "length row \<le> 16"
  shows "\<exists>line. hexdump_row off row = Some [line] \<and> read_row line = (off, row) \<and> line \<noteq> ''*''"
proof -
  let ?o = "hex_str 8 (unat off)" and ?h = "pad_right HEXDUMP_ROW_HEX_LEN (hex_bytes 0 row)"
  let ?a = "pad_right HEXDUMP_ROW_WIDTH (map out_get_printable_ascii row)"
  let ?line = "?o @ ''  '' @ ?h @ ''|'' @ ?a @ ''|''"
  have nh: "hex_bytes 0 row \<noteq> []" using assms(1) by (cases row) auto
  have run: "hexdump_row off row = Some [?line]"
    using assms nh by (simp add: hexdump_row_def out_get_hex_str_def out_get_ascii_str_def HEXDUMP_ROW_HEX_LEN_def
        HEXDUMP_ROW_WIDTH_def HEXDUMP_ROW_ASCII_LEN_def)
  have off: "takeWhile (\<lambda>c. c \<noteq> CHR '' '') ?line = ?o"
    using takeWhile_all_append [of ?o "\<lambda>c. c \<noteq> CHR '' ''" "CHR '' ''"] hex_str_chars by auto
  have "c \<noteq> CHR ''|''" if "c \<in> set (''  '' @ ?h)" for c
    using that byte_pairs_hex(2) [of c 0 row] by (auto simp: pad_right_def split: if_splits)
  then have "takeWhile (\<lambda>c. c \<noteq> CHR ''|'') ((''  '' @ ?h) @ CHR ''|'' # (?a @ ''|'')) = ''  '' @ ?h"
    by (intro takeWhile_all_append) auto
  moreover have "drop (length ?o) ?line = (''  '' @ ?h) @ CHR ''|'' # (?a @ ''|'')" by simp
  ultimately have hex: "takeWhile (\<lambda>c. c \<noteq> CHR ''|'') (drop (length ?o) ?line) = ''  '' @ ?h" by (simp only:)
  have "read_row ?line = (off, row)"
    unfolding read_row_def Let_def off hex
    by (simp add: hex_str_value filter_pad byte_pairs_hex(1))
  moreover have "?line \<noteq> ''*''" by (cases "?o") (use hex_str_chars [of "hd ?o" 8 "unat off"] in auto)
  ultimately show ?thesis using run by blast
qed

lemma unat_add_16: "unat (x :: u64) + 16 < 2 ^ 64 \<Longrightarrow> unat (x + 16) = unat x + 16"
  by (simp add: unat_word_ariths)

text \<open>
  The loop after the row \<open>row\<close> at \<open>o'\<close> was printed and \<open>k\<close> more rows like it were passed over.
\<close>

lemma hexdump_loop_read:
  assumes "length row = 16" and "bytes \<noteq> []" and "unat (off - o') = 16 * (k + 1)" and "16 * (k + 1) + length bytes < 2 ^ 64"
    and "rep \<longleftrightarrow> 0 < k"
  shows "\<exists>ls. hexdump_loop (Some row) rep off bytes = Some ls \<and>
    read_lines rep (o', row) ls = concat (replicate k row) @ bytes"
  using assms
proof (induction "length bytes" arbitrary: row off o' k rep bytes rule: less_induct)
  case less
  let ?row = "take HEXDUMP_ROW_WIDTH bytes" and ?rest = "drop HEXDUMP_ROW_WIDTH bytes" and ?off = "off + of_nat HEXDUMP_ROW_WIDTH"
  note unfold = hexdump_loop.simps [of "Some row" rep off bytes]
  have shorter: "length ?rest < length bytes" using less.prems(2) by (simp add: HEXDUMP_ROW_WIDTH_def)
  show ?case
  proof (cases "?rest \<noteq> [] \<and> row = ?row")
    case True
    have eq: "?off - o' = (off - o') + 16" by (simp add: HEXDUMP_ROW_WIDTH_def)
    have "16 < length bytes" using True by (simp add: HEXDUMP_ROW_WIDTH_def)
    then have "unat (off - o' + 16) = unat (off - o') + 16" using less.prems(3,4) by (intro unat_add_16) linarith
    then have "unat (?off - o') = unat (off - o') + 16" unfolding eq .
    then have "unat (?off - o') = 16 * (Suc k + 1)" using less.prems(3) by simp
    note offset = this
    have bound: "16 * (Suc k + 1) + length ?rest < 2 ^ 64"
      using less.prems(4) True by (simp add: HEXDUMP_ROW_WIDTH_def)
    have "?rest \<noteq> []" "True \<longleftrightarrow> 0 < Suc k" using True by simp_all
    then obtain ls where ls: "hexdump_loop (Some row) True ?off ?rest = Some ls"
      "read_lines True (o', row) ls = concat (replicate (Suc k) row) @ ?rest"
      using less.hyps [OF shorter less.prems(1) _ offset bound, of True] by blast
    have "concat (replicate (Suc k) row) @ ?rest = concat (replicate k row) @ ?row @ ?rest"
      using True by (simp add: replicate_append_same [symmetric] del: append_take_drop_id)
    then have "read_lines True (o', row) ls = concat (replicate k row) @ bytes" using ls(2) by simp
    then show ?thesis using unfold ls(1) True less.prems(2) by (auto simp: Let_def)
  next
    case False
    have "?row \<noteq> []" "length ?row \<le> 16" using less.prems(2) by (auto simp: HEXDUMP_ROW_WIDTH_def)
    then obtain line where line: "hexdump_row off ?row = Some [line]" "read_row line = (off, ?row)" "line \<noteq> ''*''"
      using hexdump_row_read by blast
    have fill: "unat (off - o') div HEXDUMP_ROW_WIDTH - 1 = k" using less.prems(3) by (simp add: HEXDUMP_ROW_WIDTH_def)
    obtain ls where ls: "hexdump_loop (Some ?row) False ?off ?rest = Some ls" "read_lines False (off, ?row) ls = ?rest"
    proof (cases "?rest = []")
      case True
      then show ?thesis using that [of "[]"] hexdump_loop.simps [of "Some ?row" False ?off "?rest"] by simp
    next
      case False
      then have "length ?row = 16" by (simp add: HEXDUMP_ROW_WIDTH_def)
      moreover have "unat (?off - off) = 16 * (0 + 1)" by (simp add: HEXDUMP_ROW_WIDTH_def)
      moreover have "16 * (0 + 1) + length ?rest < 2 ^ 64" using less.prems(4) False by (simp add: HEXDUMP_ROW_WIDTH_def)
      ultimately show ?thesis using less.hyps [OF shorter _ False, of ?row ?off off 0 False] that by auto
    qed
    have "hexdump_loop (Some row) rep off bytes = Some (line # ls)"
      using unfold False line(1) ls(1) less.prems(2) by (auto simp: Let_def)
    moreover have "read_lines rep (o', row) (line # ls) = concat (replicate k row) @ bytes"
      using line ls(2) fill less.prems(5) by (auto simp: Let_def)
    ultimately show ?thesis by blast
  qed
qed

lemma hexdump_read_first:
  assumes "bytes \<noteq> []" and "length bytes < 2 ^ 64"
  shows "\<exists>ls. hexdump_loop None False off bytes = Some ls \<and> read_lines False prev ls = bytes"
proof -
  let ?row = "take HEXDUMP_ROW_WIDTH bytes" and ?rest = "drop HEXDUMP_ROW_WIDTH bytes" and ?off = "off + of_nat HEXDUMP_ROW_WIDTH"
  have "?row \<noteq> []" "length ?row \<le> 16" using assms(1) by (auto simp: HEXDUMP_ROW_WIDTH_def)
  then obtain line where line: "hexdump_row off ?row = Some [line]" "read_row line = (off, ?row)" "line \<noteq> ''*''"
    using hexdump_row_read by blast
  obtain ls where ls: "hexdump_loop (Some ?row) False ?off ?rest = Some ls" "read_lines False (off, ?row) ls = ?rest"
  proof (cases "?rest = []")
    case True
    then show ?thesis using that [of "[]"] hexdump_loop.simps [of "Some ?row" False ?off "?rest"] by simp
  next
    case False
    then have "length ?row = 16" "unat (?off - off) = 16 * (0 + 1)" "16 * (0 + 1) + length ?rest < 2 ^ 64"
      using assms(2) by (simp_all add: HEXDUMP_ROW_WIDTH_def)
    from hexdump_loop_read [OF this(1) False this(2,3), of False] that show ?thesis by auto
  qed
  have "hexdump_loop None False off bytes = Some (line # ls)"
    using assms(1) line(1) ls(1) by (subst hexdump_loop.simps) (simp add: Let_def)
  then show ?thesis using line ls(2) by (auto simp: Let_def)
qed

text \<open>
  C24 A hexdump loses nothing: reading its lines gives the bytes back, whatever the offset, although rows like the
  row before them are left out and a star stands for any number of them.
\<close>

theorem hexdump_roundtrip:
  assumes "length bytes < 2 ^ 64"
  shows "\<exists>ls. outv_hexdump bytes off False = Some ls \<and> read_lines False prev ls = bytes"
proof (cases "bytes = []")
  case False
  then show ?thesis using hexdump_read_first [OF False assms, of off prev] by (auto simp: outv_hexdump_def)
qed (simp add: outv_hexdump_def)

theorem hexdump_roundtrip_witness:
  "\<exists>ls. outv_hexdump (replicate 80 0 @ [1, 2]) 4096 False = Some ls \<and> read_lines False (0, []) ls = replicate 80 0 @ [1, 2]"
  using hexdump_roundtrip [of "replicate 80 0 @ [1, 2]" 4096 "(0, [])"] by simp

end
