(* ===== verification/Tool_Info.thy ===== *)
theory Tool_Info
  imports Tool_Output Tool_Create Log_Facts
begin

text \<open>
  The info command of the \<open>pmempool\<close> tool, \<open>src/tools/pmempool/info.c\<close>, as a program that reads a file and
  appends lines to the output.  What is formatted in floating point, dates and identifiers (by
  \<open>uuid_unparse\<close>) are functions of the environment; messages about errors are left out.  \<open>malloc\<close> succeeds; reading outside a buffer or a mapping is \<open>Stuck\<close>.
\<close>

section \<open>State\<close>

definition VERBOSE_DEFAULT :: int where "VERBOSE_DEFAULT = 1"
definition VERBOSE_MAX :: int where "VERBOSE_MAX = 2"
definition VERBOSE_SILENT :: int where "VERBOSE_SILENT = 3"

record pmempool_info_args =
  ia_human :: bool
  ia_force :: bool
  ia_type :: pmem_pool_type
  ia_skip_zeros :: bool
  ia_skip_error :: bool
  ia_skip_no_flag :: bool
  ia_use_range :: bool
  ia_ranges :: "prange list"
  ia_walk :: u64
  ia_vlevel :: int
  ia_vdata :: int
  ia_vmap :: int
  ia_vflog :: int
  ia_vbackup :: int
  ia_vhdrdump :: int
  ia_vstats :: int

definition pmempool_info_args_default :: pmempool_info_args where
  "pmempool_info_args_default = \<lparr>ia_human = False, ia_force = False, ia_type = PMEM_POOL_TYPE_NONE,
     ia_skip_zeros = False, ia_skip_error = False, ia_skip_no_flag = False, ia_use_range = False, ia_ranges = [],
     ia_walk = 0, ia_vlevel = VERBOSE_DEFAULT, ia_vdata = VERBOSE_SILENT, ia_vmap = VERBOSE_SILENT,
     ia_vflog = VERBOSE_SILENT, ia_vbackup = VERBOSE_SILENT, ia_vhdrdump = VERBOSE_SILENT, ia_vstats = VERBOSE_SILENT\<rparr>"

record pmem_blk_stats =
  st_total :: u32
  st_zeros :: u32
  st_errors :: u32
  st_noflag :: u32

text \<open>The context, with the output and the variables of \<open>pmempool_info_btt_layout\<close>.\<close>

record pmem_info =
  pi_file :: pfile
  pi_args :: pmempool_info_args
  pi_lines :: "string list"
  pi_narena :: nat
  pi_cur_lba :: u64
  pi_count_data :: nat
  pi_stats :: pmem_blk_stats

record info_env =
  ie_malloc :: "nat \<Rightarrow> prange"
  ie_human :: "u64 \<Rightarrow> string"
  ie_percent :: "nat \<Rightarrow> nat \<Rightarrow> string"
  ie_percent_rest :: "nat \<Rightarrow> nat \<Rightarrow> string"
  ie_uuid :: "byte list \<Rightarrow> string"
  ie_time :: "u64 \<Rightarrow> string"
  ie_mmap :: "nat \<Rightarrow> bool"

section \<open>Output\<close>

definition COL_WIDTH :: nat where "COL_WIDTH = 24"

definition info_outv :: "int \<Rightarrow> string list \<Rightarrow> (pmem_info, unit) prog" where
  "info_outv v ls =
     update (\<lambda>s. if outv_check (ia_vlevel (pi_args s)) v then s\<lparr>pi_lines := pi_lines s @ ls\<rparr> else s)"

definition field_line :: "string \<Rightarrow> string \<Rightarrow> string" where
  "field_line name val = pad_right COL_WIDTH name @ '' : '' @ val"

definition info_field :: "int \<Rightarrow> string \<Rightarrow> string \<Rightarrow> (pmem_info, unit) prog" where
  "info_field v name val = info_outv v [field_line name val]"

fun info_fields :: "int \<Rightarrow> (string \<times> string) list \<Rightarrow> (pmem_info, unit) prog" where
  "info_fields v [] = ret ()"
| "info_fields v ((name, val) # fs) = andthen (info_field v name val) (\<lambda>_. info_fields v fs)"

definition info_hexdump :: "int \<Rightarrow> byte list \<Rightarrow> u64 \<Rightarrow> bool \<Rightarrow> (pmem_info, unit) prog" where
  "info_hexdump v bytes off sep =
     (case outv_hexdump bytes off sep of
        None \<Rightarrow> stuck
      | Some ls \<Rightarrow> info_outv v ls)"

text \<open>\<open>%d\<close>, which reads 32 bits, with a width and a character to fill it.\<close>

definition d_str :: "u64 \<Rightarrow> string" where
  "d_str n = ld_str (scast (ucast n :: u32))"

definition pad_left :: "char \<Rightarrow> nat \<Rightarrow> string \<Rightarrow> string" where
  "pad_left c w s = replicate (w - length s) c @ s"

definition x_str :: "nat \<Rightarrow> string" where
  "x_str n = ''0x'' @ hex_str 1 n"

definition info_size_str :: "info_env \<Rightarrow> u64 \<Rightarrow> pmem_info \<Rightarrow> string" where
  "info_size_str env n s = (if ia_human (pi_args s) then ie_human env n else out_get_size_str n)"

definition sig_str :: "nat \<Rightarrow> byte list \<Rightarrow> string" where
  "sig_str n bs = map (\<lambda>b. char_of (unat b)) (takeWhile (\<lambda>b. b \<noteq> 0) (take n bs))"

section \<open>Reading\<close>

text \<open>\<open>None\<close> when \<open>pread\<close> fails or is short.\<close>

definition pmempool_info_read :: "nat \<Rightarrow> u64 \<Rightarrow> (pmem_info, byte list option) prog" where
  "pmempool_info_read nbytes off =
     gets (\<lambda>s. let bs = pread (pi_file s) nbytes off in
               if 2 ^ 63 \<le> unat off \<or> length bs \<noteq> nbytes then None else Some bs)"

text \<open>The part of a range that falls into the blocks from \<open>offset\<close> to \<open>offset + max\<close>.\<close>

definition pmempool_info_get_range :: "bool \<Rightarrow> prange \<Rightarrow> u32 \<Rightarrow> u64 \<Rightarrow> prange option" where
  "pmempool_info_get_range use_range cur mx offset =
     (if \<not> use_range then Some \<lparr>range_first = 0, range_last = ucast mx\<rparr>
      else if offset + ucast mx < range_first cur then None
      else
        let fst' = (if offset \<le> range_first cur then range_first cur - offset else 0) in
        if range_last cur < offset then None
        else Some \<lparr>range_first = fst',
                   range_last = (if range_last cur \<le> offset + ucast mx then range_last cur - offset else ucast mx)\<rparr>)"

section \<open>Headers\<close>

definition pmempool_info_pool_hdr :: "info_env \<Rightarrow> int \<Rightarrow> (pmem_info, bool) prog" where
  "pmempool_info_pool_hdr env v =
     andthen (pmempool_info_read POOL_HDR_SIZE 0) (\<lambda>r.
     case r of
       None \<Rightarrow> ret False
     | Some bs \<Rightarrow>
         let hdr = hdr_of_bytes bs in
         andthen (info_outv v [''POOL Header:'']) (\<lambda>_.
         andthen (gets (\<lambda>s. ia_vhdrdump (pi_args s))) (\<lambda>vh.
         andthen (info_hexdump vh bs 0 True) (\<lambda>_.
         andthen (info_fields v [
           (''Signature'', sig_str POOL_HDR_SIG_LEN (hdr_signature hdr)),
           (''Major'', d_str (ucast (hdr_major hdr))),
           (''Mandatory features'', x_str (unat (hdr_incompat_features hdr))),
           (''Not mandatory features'', x_str (unat (hdr_compat_features hdr))),
           (''Forced RO'', x_str (unat (hdr_ro_compat_features hdr))),
           (''UUID'', ie_uuid env (hdr_uuid hdr)),
           (''Creation Time'', ie_time env (hdr_crtime hdr)),
           (''Checksum'', out_get_checksum bs POOL_HDR_CSUM)]) (\<lambda>_.
         ret True)))))"

section \<open>Log pools\<close>

text \<open>
  The data is mapped from \<open>start\<close>: a load behind the last page of the mapping, or of the file, is stuck.
\<close>

definition info_load :: "u64 \<Rightarrow> u64 \<Rightarrow> u64 \<Rightarrow> nat \<Rightarrow> (pmem_info, byte list) prog" where
  "info_load start used off n s =
     (let f = pi_file s; page = (\<lambda>n. (n + 4095) div 4096 * 4096);
          m = (\<lambda>i. if i < file_size f then file_data f i else 0);
          addr = unat start + unat off in
      if page (unat used) < unat off + n \<or> page (file_size f) < addr + n then (Stuck, s)
      else (Ok (mem_read m addr n), s))"

text \<open>The remaining size shrinks by what is printed, and later ranges are cut at it.\<close>

fun info_log_ranges :: "int \<Rightarrow> u64 \<Rightarrow> u64 \<Rightarrow> u64 \<Rightarrow> prange list \<Rightarrow> (pmem_info, prange list) prog" where
  "info_log_ranges v start mapped used [] = ret []"
| "info_log_ranges v start mapped used (cur # rs) =
     (let cur' = (if used \<le> range_last cur then cur\<lparr>range_last := used - 1\<rparr> else cur);
          count = range_last cur' - range_first cur' + 1 in
      andthen (if count = 0 then ret [] else info_load start mapped (range_first cur') (unat count)) (\<lambda>bytes.
      andthen (info_hexdump v bytes (range_first cur' + start) True) (\<lambda>_.
      if used - count = 0 then ret (cur' # rs)
      else andthen (info_log_ranges v start mapped (used - count) rs) (\<lambda>rs'. ret (cur' # rs')))))"

fun info_chunk_list :: "int \<Rightarrow> u64 \<Rightarrow> u64 \<Rightarrow> u64 \<Rightarrow> nat list \<Rightarrow> (pmem_info, unit) prog" where
  "info_chunk_list v start used walk [] = ret ()"
| "info_chunk_list v start used walk (i # is) =
     andthen (info_outv v [''Chunk '' @ pad_left (CHR '' '') 10 (dec_digits i) @ '':'']) (\<lambda>_.
     andthen (info_load start used (of_nat i * walk) (unat walk)) (\<lambda>bytes.
     andthen (info_hexdump v bytes (start + of_nat i * walk) True) (\<lambda>_.
     info_chunk_list v start used walk is)))"

fun info_chunk_ranges :: "int \<Rightarrow> u64 \<Rightarrow> u64 \<Rightarrow> u64 \<Rightarrow> u32 \<Rightarrow> prange list \<Rightarrow> (pmem_info, unit) prog" where
  "info_chunk_ranges v start used walk nch [] = ret ()"
| "info_chunk_ranges v start used walk nch (cur # rs) =
     andthen (info_chunk_list v start used walk
       (filter (\<lambda>i. unat (range_first cur) \<le> i \<and> i \<le> unat (range_last cur)) [0..<unat nch])) (\<lambda>_.
     info_chunk_ranges v start used walk nch rs)"

definition pmempool_info_log_data :: "info_env \<Rightarrow> int \<Rightarrow> u64 \<Rightarrow> u64 \<Rightarrow> (pmem_info, bool) prog" where
  "pmempool_info_log_data env v start write_off =
     andthen (gets (\<lambda>s. outv_check (ia_vlevel (pi_args s)) v)) (\<lambda>shown.
     let size_used = write_off - start in
     if \<not> shown \<or> size_used = 0 then ret True
     else if start AND 4095 \<noteq> 0 \<or> \<not> ie_mmap env (unat size_used) then ret False
     else
       andthen (gets (\<lambda>s. ia_walk (pi_args s))) (\<lambda>walk.
       andthen (gets (\<lambda>s. ia_ranges (pi_args s))) (\<lambda>ranges.
       if walk = 0 then
         andthen (info_outv v ['''', ''PMEMLOG data:'']) (\<lambda>_.
         andthen (info_log_ranges v start size_used size_used ranges) (\<lambda>rs.
         andthen (update (\<lambda>s. s\<lparr>pi_args := (pi_args s)\<lparr>ia_ranges := rs\<rparr>\<rparr>)) (\<lambda>_.
         ret True)))
       else
         let nch = ucast (size_used div walk) :: u32 in
         andthen (info_outv v ['''', ''PMEMLOG data: [chunks: total = '' @ dec_digits (unat nch) @ '' size = '' @ ld_str walk @ '']'']) (\<lambda>_.
         andthen (info_chunk_ranges v start size_used walk nch ranges) (\<lambda>_.
         ret True)))))"

definition pmempool_info_log_stats :: "info_env \<Rightarrow> int \<Rightarrow> u64 \<Rightarrow> u64 \<Rightarrow> u64 \<Rightarrow> (pmem_info, unit) prog" where
  "pmempool_info_log_stats env v start write_off end_off =
     (let total = end_off - start; used = write_off - start; avail = total - used in
      if total = 0 then ret ()
      else
        andthen (info_outv v ['''', ''PMEM LOG statistics:'']) (\<lambda>_.
        andthen (gets (info_size_str env total)) (\<lambda>t.
        andthen (gets (info_size_str env avail)) (\<lambda>a.
        andthen (gets (info_size_str env used)) (\<lambda>u.
        info_fields v [(''Total'', t),
          (''Available'', a @ '' ['' @ ie_percent_rest env (unat used) (unat total) @ '']''),
          (''Used'', u @ '' ['' @ ie_percent env (unat used) (unat total) @ '']'')])))))"

text \<open>The run-time fields are those that the last mapping of the pool left in the file.\<close>

definition bool_str :: "u32 \<Rightarrow> string" where
  "bool_str b = (if b \<noteq> 0 then ''True'' else ''False'')"

definition pmempool_info_log :: "info_env \<Rightarrow> int \<Rightarrow> (pmem_info, bool) prog" where
  "pmempool_info_log env v =
     andthen (pmempool_info_read (unat SIZEOF_PMEMLOG) 0) (\<lambda>r.
     case r of
       None \<Rightarrow> ret False
     | Some bs \<Rightarrow>
         let start = le_at 8 bs LOG_START_OFF; end_off = le_at 8 bs LOG_END_OFF; write_off = le_at 8 bs LOG_WRITE_OFF;
             valid = (start \<le> write_off \<and> write_off \<le> end_off) in
         andthen (info_outv v ['''', ''PMEM LOG header:'']) (\<lambda>_.
         andthen (gets (\<lambda>s. ia_vhdrdump (pi_args s))) (\<lambda>vh.
         andthen (info_hexdump vh (drop POOL_HDR_SIZE bs) (of_nat POOL_HDR_SIZE) True) (\<lambda>_.
         andthen (info_fields v [
           (''Start offset'', x_str (unat start)),
           (''Write offset'', x_str (unat write_off) @ '' ['' @ (if valid then ''OK'' else ''ERROR'') @ '']''),
           (''End offset'', x_str (unat end_off))]) (\<lambda>_.
         andthen (info_fields (v + 1) [
           (''Mapped size'', x_str (unat (le_at 8 bs 4128 :: u64))),
           (''is_pmem'', bool_str (le_at 4 bs 4136)),
           (''Read-only'', bool_str (le_at 4 bs 4140))]) (\<lambda>_.
         if valid then
           andthen (gets (\<lambda>s. ia_vstats (pi_args s))) (\<lambda>vs.
           andthen (pmempool_info_log_stats env vs start write_off end_off) (\<lambda>_.
           andthen (gets (\<lambda>s. ia_vdata (pi_args s))) (\<lambda>vd.
           pmempool_info_log_data env vd start write_off)))
         else ret True))))))"

section \<open>Block pools\<close>

definition d010_str :: "u64 \<Rightarrow> string" where
  "d010_str n = (let s = d_str n in
     if hd s = CHR ''-'' then CHR ''-'' # pad_left (CHR ''0'') 9 (tl s) else pad_left (CHR ''0'') 10 s)"

definition pmempool_info_btt_info :: "info_env \<Rightarrow> int \<Rightarrow> byte list \<Rightarrow> (pmem_info, unit) prog" where
  "pmempool_info_btt_info env v bs =
     (let i = info_of_bytes bs in
      andthen (gets (\<lambda>s n. info_size_str env (ucast n) s)) (\<lambda>sz.
      info_fields v [
        (''Signature'', sig_str 16 (info_sig i)),
        (''UUID of container'', ie_uuid env (info_parent_uuid i)),
        (''Flags'', x_str (unat (info_flags i))),
        (''Major'', d_str (ucast (info_major i))),
        (''Minor'', d_str (ucast (info_minor i))),
        (''External LBA size'', sz (info_external_lbasize i)),
        (''External LBA count'', dec_digits (unat (info_external_nlba i))),
        (''Internal LBA size'', sz (info_internal_lbasize i)),
        (''Internal LBA count'', dec_digits (unat (info_internal_nlba i))),
        (''Free blocks'', dec_digits (unat (info_nfree i))),
        (''Info block size'', sz (info_infosize i)),
        (''Next arena offset'', x_str (unat (info_nextoff i))),
        (''Arena data offset'', x_str (unat (info_dataoff i))),
        (''Area map offset'', x_str (unat (info_mapoff i))),
        (''Area flog offset'', x_str (unat (info_flogoff i))),
        (''Info block backup offset'', x_str (unat (info_infooff i))),
        (''Checksum'', out_get_checksum bs BTT_INFO_CSUM)]))"

definition pmempool_info_blk_skip_block :: "pmempool_info_args \<Rightarrow> bool \<Rightarrow> bool \<Rightarrow> bool" where
  "pmempool_info_blk_skip_block args is_zero is_error \<longleftrightarrow>
     ia_skip_no_flag args \<and> \<not> is_zero \<and> \<not> is_error \<or> is_zero \<and> ia_skip_zeros args \<or> is_error \<and> ia_skip_error args"

text \<open>The blocks of a range, and the size of the map, which is a 32-bit product.\<close>

definition range_blocks :: "prange \<Rightarrow> nat list" where
  "range_blocks r = [unat (range_first r)..<Suc (unat (range_last r))]"

definition info_map_size :: "btt_info \<Rightarrow> nat" where
  "info_map_size i = unat (info_external_nlba i * BTT_MAP_ENTRY_SIZE)"

text \<open>
  The data of the blocks; an entry of the map behind its buffer is \<open>Stuck\<close>.  The offset of a block has a 32-bit
  product in it.
\<close>

fun info_data_blocks :: "int \<Rightarrow> btt_info \<Rightarrow> byte list \<Rightarrow> u64 \<Rightarrow> u64 \<Rightarrow> nat list \<Rightarrow> (pmem_info, bool) prog" where
  "info_data_blocks v infop mp arena_off offset [] = ret True"
| "info_data_blocks v infop mp arena_off offset (i # is) =
     (if length mp < 4 * i + 4 then stuck
      else
        let entry = le_at 4 mp (4 * i) :: u32;
            block_off = arena_off + info_dataoff infop + ucast (entry_lba entry * info_internal_lbasize infop) in
        andthen (gets (\<lambda>s. pmempool_info_blk_skip_block (pi_args s) (map_entry_is_zero_or_initial entry) (map_entry_is_error entry)))
          (\<lambda>skip.
        if skip then info_data_blocks v infop mp arena_off offset is
        else
          andthen (pmempool_info_read (unat (info_external_lbasize infop)) block_off) (\<lambda>r.
          case r of
            None \<Rightarrow> ret False
          | Some buff \<Rightarrow>
              andthen (gets pi_count_data) (\<lambda>count.
              andthen (info_outv v ((if count = 0 then ['''', ''PMEM BLK blocks data:''] else []) @
                [''Block '' @ pad_left (CHR '' '') 10 (d_str (offset + of_nat i)) @ '': offset: '' @ out_get_btt_map_entry entry])) (\<lambda>_.
              andthen (info_hexdump v buff block_off True) (\<lambda>_.
              andthen (update (\<lambda>s. s\<lparr>pi_count_data := Suc (pi_count_data s)\<rparr>)) (\<lambda>_.
              info_data_blocks v infop mp arena_off offset is)))))))"

fun info_data_ranges :: "int \<Rightarrow> btt_info \<Rightarrow> byte list \<Rightarrow> u64 \<Rightarrow> u64 \<Rightarrow> prange list \<Rightarrow> (pmem_info, bool) prog" where
  "info_data_ranges v infop mp arena_off offset [] = ret True"
| "info_data_ranges v infop mp arena_off offset (cur # rs) =
     andthen (gets (\<lambda>s. ia_use_range (pi_args s))) (\<lambda>ur.
     case pmempool_info_get_range ur cur (info_external_nlba infop - 1) offset of
       None \<Rightarrow> info_data_ranges v infop mp arena_off offset rs
     | Some r \<Rightarrow>
         andthen (info_data_blocks v infop mp arena_off offset (range_blocks r)) (\<lambda>fine.
         if fine then info_data_ranges v infop mp arena_off offset rs else ret False))"

definition pmempool_info_btt_data :: "int \<Rightarrow> btt_info \<Rightarrow> u64 \<Rightarrow> u64 \<Rightarrow> (pmem_info, bool) prog" where
  "pmempool_info_btt_data v infop arena_off offset =
     andthen (gets (\<lambda>s. outv_check (ia_vlevel (pi_args s)) v)) (\<lambda>shown.
     if \<not> shown then ret True
     else
       andthen (pmempool_info_read (info_map_size infop) (arena_off + info_mapoff infop)) (\<lambda>r.
       case r of
         None \<Rightarrow> ret False
       | Some mp \<Rightarrow>
           andthen (gets (\<lambda>s. ia_ranges (pi_args s))) (\<lambda>ranges.
           info_data_ranges v infop mp arena_off offset ranges)))"

text \<open>The statistics count an entry; in its initial state it counts as zero.\<close>

definition count_entry :: "u32 \<Rightarrow> pmem_blk_stats \<Rightarrow> pmem_blk_stats" where
  "count_entry entry st =
     (let z = map_entry_is_zero_or_initial entry; e = map_entry_is_error entry in
      \<lparr>st_total = st_total st + 1,
       st_zeros = (if z then st_zeros st + 1 else st_zeros st),
       st_errors = (if e then st_errors st + 1 else st_errors st),
       st_noflag = (if \<not> z \<and> \<not> e then st_noflag st + 1 else st_noflag st)\<rparr>)"

text \<open>The result is the number of entries of the arena so far.\<close>

fun info_map_blocks :: "int \<Rightarrow> byte list \<Rightarrow> u64 \<Rightarrow> nat list \<Rightarrow> nat \<Rightarrow> (pmem_info, nat) prog" where
  "info_map_blocks v mp offset [] count = ret count"
| "info_map_blocks v mp offset (i # is) count =
     (if length mp < 4 * i + 4 then stuck
      else
        let entry = le_at 4 mp (4 * i) :: u32 in
        andthen (gets (\<lambda>s. pmempool_info_blk_skip_block (pi_args s) (map_entry_is_zero_or_initial entry) (map_entry_is_error entry)))
          (\<lambda>skip.
        if skip then info_map_blocks v mp offset is count
        else
          andthen (info_outv v (if count = 0 then ['''', ''PMEM BLK BTT Map:''] else [])) (\<lambda>_.
          andthen (update (\<lambda>s. s\<lparr>pi_stats := count_entry entry (pi_stats s)\<rparr>)) (\<lambda>_.
          andthen (info_outv v [d010_str (offset + of_nat i) @ '': '' @ out_get_btt_map_entry entry]) (\<lambda>_.
          info_map_blocks v mp offset is (Suc count))))))"

text \<open>The counter of the map is an \<open>int\<close>: a first block from \<open>2 ^ 31\<close> on is negative in it and the loop is not entered.\<close>

definition int_range_blocks :: "prange \<Rightarrow> nat list" where
  "int_range_blocks r = (if unat (range_first r) < 2 ^ 31 then range_blocks r else [])"

fun info_map_ranges :: "int \<Rightarrow> u32 \<Rightarrow> byte list \<Rightarrow> u64 \<Rightarrow> prange list \<Rightarrow> nat \<Rightarrow> (pmem_info, bool) prog" where
  "info_map_ranges v n mp offset [] count = ret True"
| "info_map_ranges v n mp offset (cur # rs) count =
     andthen (gets (\<lambda>s. ia_use_range (pi_args s))) (\<lambda>ur.
     case pmempool_info_get_range ur cur (n - 1) offset of
       None \<Rightarrow> info_map_ranges v n mp offset rs count
     | Some r \<Rightarrow>
         andthen (info_map_blocks v mp offset (int_range_blocks r) count) (\<lambda>count'.
         info_map_ranges v n mp offset rs count'))"

definition pmempool_info_btt_map :: "int \<Rightarrow> btt_info \<Rightarrow> u64 \<Rightarrow> u64 \<Rightarrow> (pmem_info, bool) prog" where
  "pmempool_info_btt_map v infop arena_off offset =
     andthen (gets (\<lambda>s. outv_check (ia_vlevel (pi_args s)) v \<or> outv_check (ia_vlevel (pi_args s)) (ia_vstats (pi_args s)))) (\<lambda>wanted.
     if \<not> wanted then ret True
     else
       andthen (pmempool_info_read (info_map_size infop) (arena_off + info_mapoff infop)) (\<lambda>r.
       case r of
         None \<Rightarrow> ret False
       | Some mp \<Rightarrow>
           andthen (gets (\<lambda>s. ia_ranges (pi_args s))) (\<lambda>ranges.
           info_map_ranges v (info_external_nlba infop) mp offset ranges 0)))"

definition flog_lines :: "btt_flog \<Rightarrow> string \<Rightarrow> (string \<times> string) list" where
  "flog_lines f prime = [
     (''LBA'' @ prime, ''0x'' @ hex_str 8 (unat (flog_lba f))),
     (''Old map'' @ prime, ''0x'' @ hex_str 8 (unat (flog_old_map f)) @ '': '' @ out_get_btt_map_entry (flog_old_map f)),
     (''New map'' @ prime, ''0x'' @ hex_str 8 (unat (flog_new_map f)) @ '': '' @ out_get_btt_map_entry (flog_new_map f)),
     (''Seq'' @ prime, x_str (unat (flog_seq f)))]"

fun info_flog_pairs :: "int \<Rightarrow> byte list \<Rightarrow> nat list \<Rightarrow> (pmem_info, unit) prog" where
  "info_flog_pairs v buff [] = ret ()"
| "info_flog_pairs v buff (i # is) =
     (let off = i * unat BTT_FLOG_PAIR_ALIGN in
      if length buff < off + 32 then stuck
      else
        andthen (info_outv v [d010_str (of_nat i) @ '':'']) (\<lambda>_.
        andthen (info_fields v (flog_lines (flog_at buff off) [])) (\<lambda>_.
        andthen (info_fields v (flog_lines (flog_at buff (off + 16)) [CHR 0x27])) (\<lambda>_.
        info_flog_pairs v buff is))))"

text \<open>The counter is an \<open>int\<close>, but compared with the unsigned \<open>nfree\<close>, so all pairs are printed.\<close>

definition pmempool_info_btt_flog :: "int \<Rightarrow> btt_info \<Rightarrow> u64 \<Rightarrow> (pmem_info, bool) prog" where
  "pmempool_info_btt_flog v infop arena_off =
     andthen (gets (\<lambda>s. outv_check (ia_vlevel (pi_args s)) v)) (\<lambda>shown.
     if \<not> shown then ret True
     else
       let flog_size = roundup (ucast (info_nfree infop) * roundup 32 BTT_FLOG_PAIR_ALIGN) BTT_ALIGNMENT in
       andthen (pmempool_info_read (unat flog_size) (arena_off + info_flogoff infop)) (\<lambda>r.
       case r of
         None \<Rightarrow> ret False
       | Some buff \<Rightarrow>
           andthen (info_outv v ['''', ''PMEM BLK BTT FLOG:'']) (\<lambda>_.
           andthen (info_flog_pairs v buff [0..<unat (info_nfree infop)]) (\<lambda>_.
           ret True))))"

definition pmempool_info_btt_stats :: "info_env \<Rightarrow> int \<Rightarrow> (pmem_info, unit) prog" where
  "pmempool_info_btt_stats env v =
     andthen (gets pi_stats) (\<lambda>st.
     if st_total st = 0 then ret ()
     else
       let share = (\<lambda>n. dec_digits (unat n) @ '' ['' @ ie_percent env (unat n) (unat (st_total st)) @ '']'') in
       andthen (info_outv v ['''', ''PMEM BLK Statistics:'']) (\<lambda>_.
       info_fields v [(''Total blocks'', dec_digits (unat (st_total st))),
         (''Zeroed blocks'', share (st_zeros st)),
         (''Error blocks'', share (st_errors st)),
         (''Blocks without flag'', share (st_noflag st))]))"

section \<open>The layout\<close>

text \<open>
  One round of the loop over the arenas: it fails, it finds no layout, or it goes on with the distance to the next
  arena.
\<close>

datatype arena_step = Arena_Failed | No_Layout | Next_Arena u64

definition info_arena_body :: "info_env \<Rightarrow> btt_info \<Rightarrow> u64 \<Rightarrow> (pmem_info, bool) prog" where
  "info_arena_body env infop offset =
     andthen (gets pi_args) (\<lambda>args.
     andthen (gets pi_cur_lba) (\<lambda>cur_lba.
     andthen (pmempool_info_btt_data (ia_vdata args) infop offset cur_lba) (\<lambda>fine.
     if \<not> fine then ret False
     else
       andthen (pmempool_info_btt_map (ia_vmap args) infop offset cur_lba) (\<lambda>fine.
       if \<not> fine then ret False
       else pmempool_info_btt_flog (ia_vflog args) infop offset))))"

definition info_arena_backup :: "info_env \<Rightarrow> btt_info \<Rightarrow> u64 \<Rightarrow> (pmem_info, bool) prog" where
  "info_arena_backup env infop offset =
     andthen (gets pi_args) (\<lambda>args.
     andthen (pmempool_info_read BTT_INFO_SIZE (offset + info_infooff infop)) (\<lambda>r.
     case r of
       None \<Rightarrow> ret False
     | Some bs \<Rightarrow>
         andthen (info_outv (ia_vbackup args) ['''', ''PMEM BLK BTT Info Header Backup:'']) (\<lambda>_.
         andthen (if outv_check (ia_vlevel args) (ia_vbackup args)
                  then info_hexdump (ia_vhdrdump args) bs (offset + info_infooff infop) True else ret ()) (\<lambda>_.
         andthen (pmempool_info_btt_info env (ia_vbackup args) bs) (\<lambda>_.
         ret True)))))"

definition info_arena :: "info_env \<Rightarrow> u64 \<Rightarrow> (pmem_info, arena_step) prog" where
  "info_arena env offset =
     andthen (pmempool_info_read BTT_INFO_SIZE offset) (\<lambda>r.
     case r of
       None \<Rightarrow> ret Arena_Failed
     | Some bs \<Rightarrow>
         if util_check_memory bs 0 then andthen (info_outv 1 ['''', ''<No BTT layout>'']) (\<lambda>_. ret No_Layout)
         else
           let infop = info_of_bytes bs in
           andthen (gets pi_narena) (\<lambda>narena.
           andthen (info_outv 1 ['''', ''[ARENA '' @ dec_digits narena @ '']'', ''PMEM BLK BTT Info Header:'']) (\<lambda>_.
           andthen (gets (\<lambda>s. ia_vhdrdump (pi_args s))) (\<lambda>vh.
           andthen (info_hexdump vh bs offset True) (\<lambda>_.
           andthen (pmempool_info_btt_info env 1 bs) (\<lambda>_.
           andthen (info_arena_body env infop offset) (\<lambda>fine.
           if \<not> fine then ret Arena_Failed
           else
             andthen (update (\<lambda>s. s\<lparr>pi_cur_lba := pi_cur_lba s + ucast (info_external_nlba infop)\<rparr>)) (\<lambda>_.
             andthen (info_arena_backup env infop offset) (\<lambda>fine.
             if \<not> fine then ret Arena_Failed
             else
               andthen (update (\<lambda>s. s\<lparr>pi_narena := Suc (pi_narena s)\<rparr>)) (\<lambda>_.
               ret (Next_Arena (info_nextoff infop))))))))))))"

text \<open>Offsets are signed; \<open>None\<close> is a loop that does not end.\<close>

partial_function (option) info_layout_loop :: "info_env \<Rightarrow> u64 \<Rightarrow> pmem_info \<Rightarrow> (bool outcome \<times> pmem_info) option" where
  "info_layout_loop env offset s =
     (case info_arena env offset s of
        (Err e, s') \<Rightarrow> Some (Err e, s')
      | (Stuck, s') \<Rightarrow> Some (Stuck, s')
      | (Ok step, s') \<Rightarrow>
          (case step of
             Arena_Failed \<Rightarrow> Some (Ok False, s')
           | No_Layout \<Rightarrow> Some (andthen (pmempool_info_btt_stats env (ia_vstats (pi_args s'))) (\<lambda>_. ret True) s')
           | Next_Arena n \<Rightarrow>
               if 0 < sint n then info_layout_loop env (offset + n) s'
               else Some (andthen (pmempool_info_btt_stats env (ia_vstats (pi_args s'))) (\<lambda>_. ret True) s')))"

definition pmem_blk_stats_reset :: pmem_blk_stats where
  "pmem_blk_stats_reset = \<lparr>st_total = 0, st_zeros = 0, st_errors = 0, st_noflag = 0\<rparr>"

definition pmempool_info_btt_layout :: "info_env \<Rightarrow> u64 \<Rightarrow> (pmem_info, bool) prog" where
  "pmempool_info_btt_layout env btt_off s =
     (if sint btt_off \<le> 0 then (Ok False, s)
      else
        case info_layout_loop env btt_off
            (s\<lparr>pi_stats := pmem_blk_stats_reset, pi_narena := 0, pi_cur_lba := 0, pi_count_data := 0\<rparr>) of
          None \<Rightarrow> (Stuck, s)
        | Some r \<Rightarrow> r)"

text \<open>
  The run-time fields of \<open>struct pmemblk\<close> that the last mapping of the pool left in the file; the place of the data
  is the difference of two of its pointers.
\<close>

definition pmempool_info_blk :: "info_env \<Rightarrow> int \<Rightarrow> (pmem_info, bool) prog" where
  "pmempool_info_blk env v =
     andthen (pmempool_info_read (unat SIZEOF_PMEMBLK) 0) (\<lambda>r.
     case r of
       None \<Rightarrow> ret False
     | Some bs \<Rightarrow>
         let data_off = le_at 8 bs 4128 - le_at 8 bs 4104 :: u64 in
         andthen (info_outv v ['''', ''PMEM BLK Header:'']) (\<lambda>_.
         andthen (gets (\<lambda>s. ia_vhdrdump (pi_args s))) (\<lambda>vh.
         andthen (info_hexdump vh (drop POOL_HDR_SIZE bs) (of_nat POOL_HDR_SIZE) True) (\<lambda>_.
         andthen (gets (\<lambda>s n. info_size_str env n s)) (\<lambda>sz.
         andthen (info_fields v [(''Block size'', sz (ucast (le_at 4 bs BLK_BSIZE_OFF :: u32)))]) (\<lambda>_.
         andthen (info_fields (v + 1) [
           (''is_pmem'', bool_str (le_at 4 bs 4120)),
           (''Read-only'', bool_str (le_at 4 bs 4124)),
           (''Data size'', sz (le_at 8 bs 4136)),
           (''Number of LBAs'', ld_str (le_at 8 bs 4144)),
           (''Number of lanes'', d_str (ucast (le_at 4 bs 4160 :: u32))),
           (''Next lane'', dec_digits (unat (le_at 4 bs 4164 :: u32))),
           (''Data offset'', x_str (unat (ucast data_off :: u32)))]) (\<lambda>_.
         pmempool_info_btt_layout env data_off)))))))"

section \<open>The command\<close>

definition pmempool_info_get_pool_type :: "(pmem_info, pmem_pool_type) prog" where
  "pmempool_info_get_pool_type =
     andthen (pmempool_info_read POOL_HDR_SIZE 0) (\<lambda>r.
     andthen (gets pi_args) (\<lambda>args.
     case r of
       None \<Rightarrow> ret PMEM_POOL_TYPE_UNKNOWN
     | Some bs \<Rightarrow> if ia_force args then ret (ia_type args) else ret (pmem_pool_type_parse_hdr bs)))"

definition pmempool_info_file :: "info_env \<Rightarrow> nat \<Rightarrow> fs \<Rightarrow> string \<Rightarrow> (pmem_info, bool) prog" where
  "pmempool_info_file env n_files fs file_name s =
     (case fs file_name of
        None \<Rightarrow> (Ok False, s)
      | Some f \<Rightarrow>
          andthen pmempool_info_get_pool_type (\<lambda>t.
          if t = PMEM_POOL_TYPE_UNKNOWN then ret False
          else
            andthen (if 1 < n_files then info_field 1 ''File'' file_name else ret ()) (\<lambda>_.
            andthen (pmempool_info_pool_hdr env 1) (\<lambda>fine.
            if \<not> fine then ret False
            else
              case t of
                PMEM_POOL_TYPE_LOG \<Rightarrow> pmempool_info_log env 1
              | PMEM_POOL_TYPE_BLK \<Rightarrow> pmempool_info_blk env 1
              | _ \<Rightarrow> ret False))) (s\<lparr>pi_file := f\<rparr>))"

fun info_files :: "info_env \<Rightarrow> nat \<Rightarrow> fs \<Rightarrow> string list \<Rightarrow> bool \<Rightarrow> (pmem_info, bool) prog" where
  "info_files env n fs [] good = ret good"
| "info_files env n fs (f # files) good =
     andthen (pmempool_info_file env n fs f) (\<lambda>fine.
     andthen (if 1 < n \<and> files \<noteq> [] then info_outv 1 [''''] else ret ()) (\<lambda>_.
     info_files env n fs files (good \<and> fine)))"

definition pmempool_info_file_all :: "info_env \<Rightarrow> fs \<Rightarrow> string list \<Rightarrow> (pmem_info, bool) prog" where
  "pmempool_info_file_all env fs files =
     (if files = [] then ret False else info_files env (length files) fs files True)"

text \<open>An option; \<open>Inl\<close> is the status the command ends with.\<close>

definition info_parse_opt :: "info_env \<Rightarrow> tool_opt \<Rightarrow> pmempool_info_args \<Rightarrow> (int + pmempool_info_args) outcome" where
  "info_parse_opt env opt args =
     (case opt of (c, optopt, optarg) \<Rightarrow>
      if c = CHR ''V'' then Ok (Inl 0)
      else if c = CHR ''?'' then Ok (Inl (if optopt = CHR 0x00 then 0 else 1))
      else if c = CHR ''v'' then Ok (Inr (args\<lparr>ia_vlevel := VERBOSE_MAX\<rparr>))
      else if c = CHR ''h'' then Ok (Inr (args\<lparr>ia_human := True\<rparr>))
      else if c = CHR ''f'' then
        let t = pmem_pool_type_parse_str (the optarg) in
        if t = PMEM_POOL_TYPE_UNKNOWN then Ok (Inl (- 1)) else Ok (Inr (args\<lparr>ia_type := t, ia_force := True\<rparr>))
      else if c = CHR ''e'' then Ok (Inr (args\<lparr>ia_skip_error := True\<rparr>))
      else if c = CHR ''z'' then Ok (Inr (args\<lparr>ia_skip_zeros := True\<rparr>))
      else if c = CHR ''u'' then Ok (Inr (args\<lparr>ia_skip_no_flag := True\<rparr>))
      else if c = CHR ''r'' then
        (case util_parse_ranges (ie_malloc env) 0 (the optarg) \<lparr>range_first = 0, range_last = - 1\<rparr> (ia_ranges args) of
           (Ok True, rs) \<Rightarrow> Ok (Inr (args\<lparr>ia_ranges := rs, ia_use_range := True\<rparr>))
         | (Ok False, rs) \<Rightarrow> Ok (Inl (- 1))
         | (Err e, rs) \<Rightarrow> Err e
         | (Stuck, rs) \<Rightarrow> Stuck)
      else if c = CHR ''d'' then Ok (Inr (args\<lparr>ia_vdata := VERBOSE_DEFAULT\<rparr>))
      else if c = CHR ''m'' then Ok (Inr (args\<lparr>ia_vmap := VERBOSE_DEFAULT\<rparr>))
      else if c = CHR ''g'' then Ok (Inr (args\<lparr>ia_vflog := VERBOSE_DEFAULT\<rparr>))
      else if c = CHR ''B'' then Ok (Inr (args\<lparr>ia_vbackup := VERBOSE_DEFAULT\<rparr>))
      else if c = CHR ''x'' then Ok (Inr (args\<lparr>ia_vhdrdump := VERBOSE_DEFAULT\<rparr>))
      else if c = CHR ''s'' then Ok (Inr (args\<lparr>ia_vstats := VERBOSE_DEFAULT\<rparr>))
      else if c = CHR ''w'' then
        let n = of_int (atoll (the optarg)) :: u64 in
        if n = 0 then Ok (Inl (- 1)) else Ok (Inr (args\<lparr>ia_walk := n\<rparr>))
      else Ok (Inl (- 1)))"

fun info_parse_opts :: "info_env \<Rightarrow> tool_opt list \<Rightarrow> pmempool_info_args \<Rightarrow> (int + pmempool_info_args) outcome" where
  "info_parse_opts env [] args = Ok (Inr args)"
| "info_parse_opts env (opt # opts) args =
     (case info_parse_opt env opt args of
        Ok (Inr args') \<Rightarrow> info_parse_opts env opts args'
      | Ok (Inl st) \<Rightarrow> Ok (Inl st)
      | Err e \<Rightarrow> Err e
      | Stuck \<Rightarrow> Stuck)"

text \<open>Without \<open>-r\<close> the list has one range of everything.\<close>

definition info_parse_args :: "info_env \<Rightarrow> tool_opt list \<Rightarrow> string list \<Rightarrow> (int + pmempool_info_args) outcome" where
  "info_parse_args env opts operands =
     (if opts = [] \<and> operands = [] then Ok (Inl (- 1))
      else
        case info_parse_opts env opts pmempool_info_args_default of
          Ok (Inr args) \<Rightarrow>
            if ia_use_range args then Ok (Inr args)
            else
              (case util_ranges_add 0 (- 1) (ia_ranges args) of
                 (Ok _, rs) \<Rightarrow> Ok (Inr (args\<lparr>ia_ranges := rs\<rparr>))
               | (Err e, rs) \<Rightarrow> Err e
               | (Stuck, rs) \<Rightarrow> Stuck)
        | r \<Rightarrow> r)"

definition pmempool_info_alloc :: "pmempool_info_args \<Rightarrow> pmem_info" where
  "pmempool_info_alloc args = \<lparr>pi_file = \<lparr>file_size = 0, file_data = (\<lambda>_. 0)\<rparr>, pi_args = args, pi_lines = [],
     pi_narena = 0, pi_cur_lba = 0, pi_count_data = 0, pi_stats = pmem_blk_stats_reset\<rparr>"

definition pmempool_info_func :: "info_env \<Rightarrow> tool_opt list \<Rightarrow> string list \<Rightarrow> fs \<Rightarrow> int outcome \<times> string list" where
  "pmempool_info_func env opts operands fs =
     (case info_parse_args env opts operands of
        Ok (Inl st) \<Rightarrow> (Ok st, [])
      | Err e \<Rightarrow> (Err e, [])
      | Stuck \<Rightarrow> (Stuck, [])
      | Ok (Inr args) \<Rightarrow>
          (case pmempool_info_file_all env fs operands (pmempool_info_alloc args) of
             (Ok fine, s) \<Rightarrow> (Ok (if fine then 0 else - 1), pi_lines s)
           | (Err e, s) \<Rightarrow> (Err e, pi_lines s)
           | (Stuck, s) \<Rightarrow> (Stuck, pi_lines s)))"
section \<open>The loop over the arenas ends\<close>

lemma read_reaches:
  assumes "pmempool_info_read n off s = (Ok (Some bs), s')"
  shows "s' = s" and "unat off < 2 ^ 63" and "length bs = n"
  using assms by (auto simp: pmempool_info_read_def gets_def Let_def split: if_splits)

lemma info_arena_reaches:
  assumes "info_arena env off s = (Ok (Next_Arena n), s')"
  shows "unat off < 2 ^ 63"
proof (cases "pmempool_info_read BTT_INFO_SIZE off s")
  case (Pair r t)
  then have r: "r = Ok None \<or> (\<exists>bs. r = Ok (Some bs))"
    by (auto simp: pmempool_info_read_def gets_def Let_def split: if_splits)
  then show ?thesis
    using assms Pair read_reaches(2) by (auto simp: info_arena_def andthen_Ok ret_def)
qed

lemma next_offset:
  assumes "unat (off :: u64) < 2 ^ 63" and "0 < sint (n :: u64)"
  shows "unat off < unat (off + n)"
proof -
  have "sint n = uint n - 2 ^ 64 * of_bool (bit (uint n) 63)"
    using unsigned_less [of n, where 'a = int]
    by (simp add: sint_uint signed_take_bit_eq_take_bit_minus take_bit_int_eq_self)
  with assms(2) unsigned_less [of n, where 'a = int] have "sint n = int (unat n)"
    by (cases "bit (uint n) 63") auto
  with assms(2) sint_lt [of n] have "int (unat n) < 2 ^ 63" "0 < int (unat n)"
    by simp_all
  then have "unat n < 2 ^ 63" "0 < unat n" 
    by (simp_all only: of_nat_less_numeral_power_cancel_iff of_nat_0_less_iff)
  with assms(1) show ?thesis by (simp add: unat_word_ariths)
qed

text \<open>
  C25 Every file, damaged or crafted, is walked to an end: the loop over the arenas that the info command runs returns
  from every offset.  The command reads each arena before it goes on, a read succeeds only below \<open>2 ^ 63\<close>, and the
  distance to the next arena is positive, so the offset grows.
\<close>

theorem info_layout_ends: "\<exists>r. info_layout_loop env off s = Some r"
proof (induction "2 ^ 64 - unat off" arbitrary: off s rule: less_induct)
  case less
  show ?case
  proof (cases "\<exists>n s'. info_arena env off s = (Ok (Next_Arena n), s') \<and> 0 < sint n")
    case True
    then obtain n s' where n: "info_arena env off s = (Ok (Next_Arena n), s')" "0 < sint n" by blast
    have "unat off < unat (off + n)" by (rule next_offset [OF info_arena_reaches [OF n(1)] n(2)])
    then have "2 ^ 64 - unat (off + n) < 2 ^ 64 - unat off"
      using unat_bound [of "off + n"] by (intro diff_less_mono2) simp_all
    from less [OF this, of s'] show ?thesis
      by (subst info_layout_loop.simps) (simp add: n)
  next
    case False
    obtain r s' where r: "info_arena env off s = (r, s')" by (cases "info_arena env off s")
    with False show ?thesis
      by (subst info_layout_loop.simps) (auto split: outcome.splits arena_step.splits)
  qed
qed
section \<open>The statistics of the blocks\<close>

text \<open>Every counted block is in exactly one class; the programs that keep this, whatever their outcome.\<close>

definition stats_whole :: "pmem_blk_stats \<Rightarrow> bool" where
  "stats_whole st \<longleftrightarrow> st_zeros st + st_errors st + st_noflag st = st_total st"

definition keeps_whole :: "(pmem_info, 'a) prog \<Rightarrow> bool" where
  "keeps_whole p \<longleftrightarrow> (\<forall>s. stats_whole (pi_stats s) \<longrightarrow> stats_whole (pi_stats (snd (p s))))"

named_theorems whole

lemma entry_one_class: "\<not> (map_entry_is_zero_or_initial e \<and> map_entry_is_error e)"
  by (auto simp: map_entry_is_zero_or_initial_def map_entry_is_error_def BTT_MAP_ENTRY_ZERO_def BTT_MAP_ENTRY_ERROR_def)

lemma count_entry_whole: "stats_whole st \<Longrightarrow> stats_whole (count_entry e st)"
  using entry_one_class [of e] by (auto simp: stats_whole_def count_entry_def Let_def algebra_simps)

lemma whole_run: "keeps_whole p \<Longrightarrow> stats_whole (pi_stats s) \<Longrightarrow> stats_whole (pi_stats (snd (p s)))"
  by (simp add: keeps_whole_def)

lemma whole_ret [whole]: "keeps_whole (ret x)"
  by (simp add: keeps_whole_def ret_def)

lemma whole_stuck [whole]: "keeps_whole stuck"
  by (simp add: keeps_whole_def stuck_def)

lemma whole_gets [whole]: "keeps_whole (gets f)"
  by (simp add: keeps_whole_def gets_def)

lemma whole_update [whole]:
  "(\<And>s. stats_whole (pi_stats s) \<Longrightarrow> stats_whole (pi_stats (f s))) \<Longrightarrow> keeps_whole (update f)"
  by (simp add: keeps_whole_def update_def)

lemma whole_andthen [whole]:
  assumes "keeps_whole p" "\<And>x. keeps_whole (f x)"
  shows "keeps_whole (andthen p f)"
  unfolding keeps_whole_def
proof (intro allI impI)
  fix s :: pmem_info
  assume "stats_whole (pi_stats s)"
  moreover obtain r s' where "p s = (r, s')" by (cases "p s")
  ultimately show "stats_whole (pi_stats (snd (andthen p f s)))"
    using assms unfolding keeps_whole_def andthen_def by (cases r) (force dest: spec[of _ s])+
qed

lemma whole_cond [whole]: "(b \<Longrightarrow> keeps_whole p) \<Longrightarrow> (\<not> b \<Longrightarrow> keeps_whole q) \<Longrightarrow> keeps_whole (if b then p else q)"
  by simp

lemma whole_option [whole]:
  "(y = None \<Longrightarrow> keeps_whole p) \<Longrightarrow> (\<And>x. y = Some x \<Longrightarrow> keeps_whole (q x)) \<Longrightarrow>
   keeps_whole (case y of None \<Rightarrow> p | Some x \<Rightarrow> q x)"
  by (cases y) simp_all

lemma whole_read [whole]: "keeps_whole (pmempool_info_read n off)"
  unfolding pmempool_info_read_def by (rule whole_gets)

lemma whole_outv [whole]: "keeps_whole (info_outv v ls)"
  unfolding info_outv_def by (rule whole_update) simp

lemma whole_fields [whole]: "keeps_whole (info_fields v fs)"
  by (induction fs rule: info_fields.induct) (auto simp: info_field_def intro!: whole)

lemma whole_hexdump [whole]: "keeps_whole (info_hexdump v bs off sep)"
  unfolding info_hexdump_def by (intro whole)

lemma whole_load [whole]: "keeps_whole (info_load start m off n)"
  by (simp add: keeps_whole_def info_load_def Let_def)

lemma whole_log_ranges [whole]: "keeps_whole (info_log_ranges v start m used rs)"
  by (induction rs arbitrary: used) (auto simp: Let_def intro!: whole)

lemma whole_chunk_list [whole]: "keeps_whole (info_chunk_list v start used walk is)"
  by (induction "is") (auto intro!: whole)

lemma whole_chunk_ranges [whole]: "keeps_whole (info_chunk_ranges v start used walk n rs)"
  by (induction rs) (auto intro!: whole)

lemma whole_log [whole]: "keeps_whole (pmempool_info_log env v)"
  unfolding pmempool_info_log_def pmempool_info_log_stats_def pmempool_info_log_data_def Let_def
  by (intro whole) simp_all

lemma whole_btt_info [whole]: "keeps_whole (pmempool_info_btt_info env v bs)"
  unfolding pmempool_info_btt_info_def Let_def by (intro whole)

lemma whole_data_blocks [whole]: "keeps_whole (info_data_blocks v i mp a off bl)"
  by (induction bl) (auto simp: Let_def intro!: whole)

lemma whole_data_ranges [whole]: "keeps_whole (info_data_ranges v i mp a off rs)"
  by (induction rs) (auto simp del: andthen_gets intro!: whole)

lemma whole_data [whole]: "keeps_whole (pmempool_info_btt_data v i a off)"
  unfolding pmempool_info_btt_data_def by (intro whole)

lemma whole_map_blocks [whole]: "keeps_whole (info_map_blocks v mp off bl n)"
  by (induction bl arbitrary: n) (auto simp: Let_def count_entry_whole intro!: whole)

lemma whole_map_ranges [whole]: "keeps_whole (info_map_ranges v k mp off rs n)"
  by (induction rs arbitrary: n) (auto intro!: whole)

lemma whole_map [whole]: "keeps_whole (pmempool_info_btt_map v i a off)"
  unfolding pmempool_info_btt_map_def by (intro whole)

lemma whole_flog_pairs [whole]: "keeps_whole (info_flog_pairs v buff is)"
  by (induction "is") (auto simp: Let_def intro!: whole)

lemma whole_flog [whole]: "keeps_whole (pmempool_info_btt_flog v i a)"
  unfolding pmempool_info_btt_flog_def Let_def by (intro whole)

lemma whole_arena [whole]: "keeps_whole (info_arena env off)"
  unfolding info_arena_def info_arena_body_def info_arena_backup_def Let_def by (intro whole) simp_all

lemma whole_stats [whole]: "keeps_whole (pmempool_info_btt_stats env v)"
  unfolding pmempool_info_btt_stats_def Let_def by (intro whole)
lemma whole_layout_loop:
  assumes "info_layout_loop env off s = Some r"
  shows "stats_whole (pi_stats s) \<longrightarrow> stats_whole (pi_stats (snd r))"
proof (rule info_layout_loop.raw_induct [OF _ assms])
  fix loop :: "info_env \<Rightarrow> u64 \<Rightarrow> pmem_info \<Rightarrow> (bool outcome \<times> pmem_info) option" and env off s r
  assume IH: "\<And>env off s r. loop env off s = Some r \<Longrightarrow> stats_whole (pi_stats s) \<longrightarrow> stats_whole (pi_stats (snd r))"
  obtain q s' where q: "info_arena env off s = (q, s')" by (cases "info_arena env off s")
  have w: "stats_whole (pi_stats s) \<Longrightarrow> stats_whole (pi_stats s')"
    using whole_arena [of env off] q by (auto simp: keeps_whole_def dest: spec [of _ s])
  have fin: "stats_whole (pi_stats s') \<Longrightarrow>
      stats_whole (pi_stats (snd (andthen (pmempool_info_btt_stats env v) (\<lambda>_. ret True) s')))" for v
    by (rule whole_run) (intro whole)
  show "(case info_arena env off s of
        (Err e, s') \<Rightarrow> Some (Err e, s')
      | (Stuck, s') \<Rightarrow> Some (Stuck, s')
      | (Ok step, s') \<Rightarrow>
          (case step of
             Arena_Failed \<Rightarrow> Some (Ok False, s')
           | No_Layout \<Rightarrow> Some (andthen (pmempool_info_btt_stats env (ia_vstats (pi_args s'))) (\<lambda>_. ret True) s')
           | Next_Arena n \<Rightarrow>
               if 0 < sint n then loop env (off + n) s'
               else Some (andthen (pmempool_info_btt_stats env (ia_vstats (pi_args s'))) (\<lambda>_. ret True) s')))
      = Some r \<Longrightarrow> stats_whole (pi_stats s) \<longrightarrow> stats_whole (pi_stats (snd r))"
    using q w fin by (auto split: outcome.splits arena_step.splits if_splits dest: IH)
qed

lemma whole_layout [whole]: "keeps_whole (pmempool_info_btt_layout env off)"
proof -
  have "stats_whole pmem_blk_stats_reset" by (simp add: stats_whole_def pmem_blk_stats_reset_def)
  then show ?thesis
    unfolding keeps_whole_def pmempool_info_btt_layout_def
    by (auto split: option.splits dest!: whole_layout_loop)
qed

lemma whole_blk [whole]: "keeps_whole (pmempool_info_blk env v)"
  unfolding pmempool_info_blk_def Let_def by (intro whole)

lemma whole_kind [whole]:
  "keeps_whole p \<Longrightarrow> keeps_whole q \<Longrightarrow> keeps_whole o' \<Longrightarrow>
   keeps_whole (case t of PMEM_POOL_TYPE_LOG \<Rightarrow> p | PMEM_POOL_TYPE_BLK \<Rightarrow> q | _ \<Rightarrow> o')"
  by (cases t) simp_all

lemma whole_file [whole]: "keeps_whole (pmempool_info_file env n fs f)"
proof -
  have body: "keeps_whole (andthen pmempool_info_get_pool_type (\<lambda>t.
      if t = PMEM_POOL_TYPE_UNKNOWN then ret False
      else andthen (if 1 < n then info_field 1 ''File'' f else ret ()) (\<lambda>_.
        andthen (pmempool_info_pool_hdr env 1) (\<lambda>fine.
        if \<not> fine then ret False
        else case t of PMEM_POOL_TYPE_LOG \<Rightarrow> pmempool_info_log env 1
             | PMEM_POOL_TYPE_BLK \<Rightarrow> pmempool_info_blk env 1 | _ \<Rightarrow> ret False))))"
    unfolding pmempool_info_get_pool_type_def pmempool_info_pool_hdr_def info_field_def Let_def
    by (intro whole)
  show ?thesis
    unfolding keeps_whole_def [of "pmempool_info_file env n fs f"] pmempool_info_file_def
    by (intro allI impI, cases "fs f", simp, simp only: option.case, rule whole_run [OF body], simp)
qed

lemma whole_files [whole]: "keeps_whole (info_files env n fs files good)"
  by (induction files arbitrary: good) (auto intro!: whole)

text \<open>
  C28 The statistics of the info command put every counted block in exactly one class: whatever the files and the
  options, and however the command ends, the zeroed blocks, the error blocks and the blocks without a flag add up to
  the total (the counters have 32 bits and wrap together).
\<close>

theorem info_stats_partition:
  "let st = pi_stats (snd (pmempool_info_file_all env fs files (pmempool_info_alloc args))) in
   st_zeros st + st_errors st + st_noflag st = st_total st"
proof -
  have "keeps_whole (pmempool_info_file_all env fs files)"
    unfolding pmempool_info_file_all_def by (intro whole)
  then show ?thesis
    by (simp add: keeps_whole_def stats_whole_def Let_def pmempool_info_alloc_def pmem_blk_stats_reset_def)
qed
section \<open>The statistics count the map\<close>

definition map_entries :: "byte list \<Rightarrow> nat list \<Rightarrow> u32 list" where
  "map_entries mp is = map (\<lambda>i. le_at 4 mp (4 * i)) is"

lemma fold_count_entry:
  "st_total (fold count_entry es st) = st_total st + of_nat (length es)"
  "st_zeros (fold count_entry es st) = st_zeros st + of_nat (length (filter map_entry_is_zero_or_initial es))"
  "st_errors (fold count_entry es st) = st_errors st + of_nat (length (filter map_entry_is_error es))"
  by (induction es arbitrary: st) (simp_all add: count_entry_def Let_def algebra_simps)

definition shows_all_blocks :: "pmempool_info_args \<Rightarrow> bool" where
  "shows_all_blocks args \<longleftrightarrow> \<not> ia_use_range args \<and> length (ia_ranges args) = 1
     \<and> \<not> ia_skip_no_flag args \<and> \<not> ia_skip_zeros args \<and> \<not> ia_skip_error args"

lemma info_outv_run:
  "andthen (info_outv v ls) f s =
     f () (if outv_check (ia_vlevel (pi_args s)) v then s\<lparr>pi_lines := pi_lines s @ ls\<rparr> else s)"
  by (simp add: info_outv_def)

lemma info_map_blocks_count:
  assumes "shows_all_blocks (pi_args s)" and "\<forall>i\<in>set is. 4 * i + 4 \<le> length mp"
  shows "\<exists>c' s'. info_map_blocks v mp off is c s = (Ok c', s')
    \<and> pi_stats s' = fold count_entry (map_entries mp is) (pi_stats s)"
  using assms
proof (induction "is" arbitrary: c s)
  case Nil
  then show ?case by (simp add: ret_def map_entries_def)
next
  case (Cons i "is")
  let ?e = "le_at 4 mp (4 * i) :: u32"
  have skip: "\<not> pmempool_info_blk_skip_block (pi_args s) z e" for z e
    using Cons.prems(1) by (simp add: pmempool_info_blk_skip_block_def shows_all_blocks_def)
  have len: "\<not> length mp < 4 * i + 4" using Cons.prems(2) by simp
  obtain t where t: "info_map_blocks v mp off (i # is) c s = info_map_blocks v mp off is (Suc c) t"
    "pi_args t = pi_args s" "pi_stats t = count_entry ?e (pi_stats s)"
    using skip len by (auto simp: info_outv_run Let_def)
  show ?case
    using Cons.IH [of t "Suc c"] Cons.prems t by (auto simp: map_entries_def)
qed

text \<open>
  C27 Without filters, the info command counts the map of an arena as it is: each entry of a map that can
  be read is counted once, as zeroed exactly when its flags are those of a zeroed block or of a block never written, and as an
  error exactly when its flags are the error flag.
\<close>

theorem info_map_counts:
  assumes "shows_all_blocks (pi_args s)"
    and "outv_check (ia_vlevel (pi_args s)) (ia_vstats (pi_args s))"
    and "0 < info_external_nlba infop" and "unat (info_external_nlba infop) < 2 ^ 30"
    and "pmempool_info_read (4 * unat (info_external_nlba infop)) (arena_off + info_mapoff infop) s = (Ok (Some mp), s)"
  shows "\<exists>s'. pmempool_info_btt_map v infop arena_off offset s = (Ok True, s') \<and>
    (let es = map_entries mp [0..<unat (info_external_nlba infop)] in
     st_total (pi_stats s') = st_total (pi_stats s) + info_external_nlba infop \<and>
     st_zeros (pi_stats s') = st_zeros (pi_stats s) + of_nat (length (filter map_entry_is_zero_or_initial es)) \<and>
     st_errors (pi_stats s') = st_errors (pi_stats s) + of_nat (length (filter map_entry_is_error es)))"
proof -
  let ?n = "info_external_nlba infop"
  obtain cur where cur: "ia_ranges (pi_args s) = [cur]" and ur: "\<not> ia_use_range (pi_args s)"
    using assms(1) by (auto simp: shows_all_blocks_def length_Suc_conv)
  have size: "info_map_size infop = 4 * unat ?n"
    using assms(4) by (simp add: info_map_size_def BTT_MAP_ENTRY_SIZE_def unat_word_ariths)
  have last: "unat (?n - 1) = unat ?n - 1"
    using assms(3) by (simp add: unat_sub word_le_nat_alt word_less_nat_alt Suc_le_eq)
  have pos: "0 < unat ?n" using assms(3) by (simp add: word_less_nat_alt)
  define r :: prange where "r = \<lparr>range_first = 0, range_last = ucast (?n - 1)\<rparr>"
  have r: "int_range_blocks r = [0..<unat ?n]"
    using last pos by (simp add: r_def int_range_blocks_def range_blocks_def unat_ucast_32_64 del: upt_Suc)
  have bytes: "length mp = 4 * unat ?n" by (rule read_reaches(3) [OF assms(5)])
  then obtain c s' where s': "info_map_blocks v mp offset [0..<unat ?n] 0 s = (Ok c, s')"
    "pi_stats s' = fold count_entry (map_entries mp [0..<unat ?n]) (pi_stats s)"
    using info_map_blocks_count [OF assms(1), of "[0..<unat ?n]" mp v offset 0] by auto
  have "pmempool_info_btt_map v infop arena_off offset s = (Ok True, s')"
    using assms(2,5) cur ur s'(1) r
    by (simp add: pmempool_info_btt_map_def size andthen_Ok pmempool_info_get_range_def r_def [symmetric])
       (simp add: ret_def)
  then show ?thesis
    using s'(2) by (simp add: fold_count_entry Let_def map_entries_def)
qed
section \<open>The data of a log\<close>

lemma hexdump_with_sep:
  assumes "bytes \<noteq> []" and "length bytes < 2 ^ 64"
  shows "\<exists>ls sep. outv_hexdump bytes off True = Some (ls @ [sep]) \<and> read_lines False prev ls = bytes"
proof -
  obtain ls where ls: "hexdump_loop None False off bytes = Some ls" "read_lines False prev ls = bytes"
    using hexdump_read_first [OF assms] by blast
  then have "ls \<noteq> []" using assms(1) by auto
  with ls assms(1) show ?thesis by (auto simp: outv_hexdump_def)
qed

lemma drop_take_mem_read: "drop k (take n (mem_read m off l)) = mem_read m (off + k) (min l n - k)"
proof (cases "n \<le> l")
  case True
  then show ?thesis by (simp add: take_mem_read drop_mem_read min_def)
next
  case False
  then show ?thesis by (simp add: drop_mem_read min_def)
qed

text \<open>What the file of a mapped log has for the info command.\<close>

lemma log_start_size:
  assumes "log_inv p"
  shows "log_field (log_mem p) LOG_START_OFF = 8192"
    and "unat (log_field (log_mem p) LOG_WRITE_OFF - 8192) = length (log_contents p)"
    and "8192 + length (log_contents p) \<le> unat (log_size p)"
    and "length (log_contents p) < 2 ^ 63"
proof -
  let ?w = "log_field (log_mem p) LOG_WRITE_OFF"
  have i: "log_field (log_mem p) LOG_START_OFF = 8192" "8192 \<le> unat ?w" "unat ?w \<le> unat (log_size p)" "unat (log_size p) < 2 ^ 63"
    using assms by (simp_all add: log_inv_def log_meta_def word_le_nat_alt)
  then show "log_field (log_mem p) LOG_START_OFF = 8192" by simp
  have c: "length (log_contents p) = unat ?w - 8192" by (simp add: log_contents_def)
  with i(2-4) show "8192 + length (log_contents p) \<le> unat (log_size p)" "length (log_contents p) < 2 ^ 63" by linarith+
  show "unat (?w - 8192) = length (log_contents p)" using i(2) c by (simp add: unat_sub word_le_nat_alt)
qed
text \<open>One range: it is printed when it starts in the data, and the count wraps when it starts behind it.\<close>

definition mapped_log_file :: "pmemlog \<Rightarrow> pfile" where
  "mapped_log_file p = \<lparr>file_size = unat (log_size p), file_data = log_mem p\<rparr>"

lemma info_load_log:
  assumes "log_inv p" and "pi_file s = mapped_log_file p" and "unat off + n \<le> length (log_contents p)"
    and "unat used = length (log_contents p)"
  shows "info_load 8192 used off n s = (Ok (mem_read (log_mem p) (8192 + unat off) n), s)"
proof -
  have page: "j \<le> k \<Longrightarrow> j \<le> (k + 4095) div 4096 * 4096" for j k :: nat by linarith
  have size: "8192 + unat off + n \<le> unat (log_size p)"
    using assms(3) log_start_size(3) [OF assms(1)] by linarith
  have fs: "file_size (pi_file s) = unat (log_size p)" "file_data (pi_file s) = log_mem p"
    using assms(2) by (simp_all add: mapped_log_file_def)
  have "mem_read (\<lambda>i. if i < file_size (pi_file s) then file_data (pi_file s) i else 0) (8192 + unat off) n =
      mem_read (log_mem p) (8192 + unat off) n"
    using size fs by (intro mem_read_cong) simp
  with page [OF assms(3)] page [OF size] assms(4) fs(1) show ?thesis
    by (simp add: info_load_def Let_def not_less)
qed

lemma range_count:
  fixes used l f :: u64
  assumes "unat f < unat used" and "f \<le> l"
  shows "unat ((if used \<le> l then used - 1 else l) - f + 1) = min (Suc (unat l)) (unat used) - unat f"
proof -
  have "1 \<le> used" using assms(1) by (cases "used = 0") (simp_all add: word_le_nat_alt Suc_le_eq unat_gt_0)
  then have u1: "unat (used - 1) = unat used - 1" by (simp add: unat_sub)
  let ?l = "if used \<le> l then used - 1 else l"
  have l: "unat ?l = min (unat l) (unat used - 1)" "f \<le> ?l"
    using assms u1 by (auto simp: word_le_nat_alt)
  have "unat (?l - f) = unat ?l - unat f" using l(2) by (simp add: unat_sub)
  moreover have "unat ?l - unat f + 1 < 2 ^ 64" using l(1) assms(1) unat_bound [of used] by simp
  ultimately have "unat (?l - f + 1) = unat ?l - unat f + 1"
    by (simp add: unat_word_ariths)
  then show ?thesis using l assms(1) by (simp add: word_le_nat_alt min_def split: if_splits)
qed
lemma range_count_wraps:
  fixes used f :: u64
  assumes "unat used < unat f"
  shows "used - 1 - f + 1 \<noteq> 0" and "unat f + unat (used - 1 - f + 1) = 2 ^ 64 + unat used"
proof -
  have w: "used - 1 - f + 1 = used - f" by simp
  show "used - 1 - f + 1 \<noteq> 0" using assms unfolding w by auto
  show "unat f + unat (used - 1 - f + 1) = 2 ^ 64 + unat used"
    using assms unat_bound [of f] unfolding w by (simp add: unat_sub_if' word_le_nat_alt)
qed

text \<open>One range, printed.\<close>

lemma info_log_one_range:
  assumes "cur' = (if used \<le> range_last cur then cur\<lparr>range_last := used - 1\<rparr> else cur)"
    and "count = range_last cur' - range_first cur' + 1" and "count \<noteq> 0"
    and "info_load start mapped (range_first cur') (unat count) s = (Ok bytes, s)"
    and "outv_hexdump bytes (range_first cur' + start) True = Some ls"
    and "outv_check (ia_vlevel (pi_args s)) v"
  shows "info_log_ranges v start mapped used [cur] s = (Ok [cur'], s\<lparr>pi_lines := pi_lines s @ ls\<rparr>)"
proof -
  have ret: "andthen (ret x) f = f x" for x :: "prange list" and f :: "prange list \<Rightarrow> (pmem_info, prange list) prog"
    by (rule ext) simp
  have "info_log_ranges v start mapped used [cur] s =
      andthen (info_load start mapped (range_first cur') (unat count)) (\<lambda>bytes.
      andthen (info_hexdump v bytes (range_first cur' + start) True) (\<lambda>_. ret [cur'])) s"
    using assms(3) unfolding info_log_ranges.simps Let_def assms(1) [symmetric] assms(2) [symmetric] by (simp add: ret)
  then show ?thesis
    using assms(4-6) by (simp add: andthen_Ok info_hexdump_def info_outv_run ret_def)
qed

text \<open>A range that starts in the data, printed.\<close>

lemma info_log_range_shown:
  assumes "log_inv p" and "pi_file t = mapped_log_file p" and "unat used = length (log_contents p)"
    and "unat (range_first cur) < length (log_contents p)" and "range_first cur \<le> range_last cur"
    and "outv_check (ia_vlevel (pi_args t)) v"
  shows "\<exists>ls sep rs. info_log_ranges v 8192 used used [cur] t = (Ok rs, t\<lparr>pi_lines := pi_lines t @ ls @ [sep]\<rparr>) \<and>
    read_lines False prev ls = drop (unat (range_first cur)) (take (Suc (unat (range_last cur))) (log_contents p))"
proof -
  let ?c = "log_contents p" and ?f = "range_first cur" and ?l = "range_last cur"
  define count where "count = (if used \<le> ?l then used - 1 else ?l) - ?f + 1"
  have n: "unat count = min (Suc (unat ?l)) (length ?c) - unat ?f"
    using range_count [of ?f used ?l] assms(3,4,5) by (simp add: count_def)
  have pos: "0 < unat count" "unat ?f + unat count \<le> length ?c" 
    using n assms(4,5) by (auto simp: word_le_nat_alt)
  let ?bytes = "drop (unat ?f) (take (Suc (unat ?l)) ?c)"
  have load: "info_load 8192 used ?f (unat count) t = (Ok ?bytes, t)"
    using info_load_log [OF assms(1,2) pos(2) assms(3)] n
    by (simp add: log_contents_def drop_take_mem_read min.commute)
  have "length ?bytes = unat count" using n by simp
  then have "?bytes \<noteq> []" "length ?bytes < 2 ^ 64" using pos(1) unat_bound [of count] by auto
  from hexdump_with_sep [OF this, of "?f + 8192" prev]
  obtain ls sep where ls: "outv_hexdump ?bytes (?f + 8192) True = Some (ls @ [sep])" "read_lines False prev ls = ?bytes"
    by blast
  have "count \<noteq> 0" using pos(1) by auto
  define cur' where "cur' = (if used \<le> ?l then cur\<lparr>range_last := used - 1\<rparr> else cur)"
  have c: "count = range_last cur' - range_first cur' + 1" "range_first cur' = ?f"
    unfolding count_def cur'_def by (cases "used \<le> ?l"; simp)+
  have "info_log_ranges v 8192 used used [cur] t = (Ok [cur'], t\<lparr>pi_lines := pi_lines t @ ls @ [sep]\<rparr>)"
    by (rule info_log_one_range [OF cur'_def c(1) \<open>count \<noteq> 0\<close>]) (use load ls(1) assms(6) c(2) in simp_all)
  with ls(2) show ?thesis by blast
qed

text \<open>
  C26 Printing the data of a log that the library has written: for a range that starts in the data, the command prints a
  title and a hexdump that reads back as exactly the bytes of the log in that range, cut at its end, and nothing else;
  for a range that starts behind the data and ends behind it too, the count wraps and the command leaves its mapping.
\<close>

theorem info_log_range:
  assumes "log_inv p" and "log_contents p \<noteq> []" and "pi_file s = mapped_log_file p"
    and "ia_walk (pi_args s) = 0" and "ia_ranges (pi_args s) = [cur]" and "range_first cur \<le> range_last cur"
    and "outv_check (ia_vlevel (pi_args s)) v" and "ie_mmap env (length (log_contents p))"
  shows "let c = log_contents p; run = pmempool_info_log_data env v
             (log_field (log_mem p) LOG_START_OFF) (log_field (log_mem p) LOG_WRITE_OFF) s in
    (unat (range_first cur) < length c \<longrightarrow> fst run = Ok True \<and>
       (\<exists>ls sep. pi_lines (snd run) = pi_lines s @ ['''', ''PMEMLOG data:''] @ ls @ [sep] \<and>
          read_lines False prev ls = drop (unat (range_first cur)) (take (Suc (unat (range_last cur))) c))) \<and>
    (length c < unat (range_first cur) \<longrightarrow> fst run = Stuck)"
proof -
  let ?c = "log_contents p" and ?f = "range_first cur" and ?l = "range_last cur"
  define used where "used = log_field (log_mem p) LOG_WRITE_OFF - 8192"
  note start = log_start_size [OF assms(1), folded used_def]
  have used: "used \<noteq> 0" "unat used = length ?c" using start(2) assms(2) by auto
  define t where "t = s\<lparr>pi_lines := pi_lines s @ ['''', ''PMEMLOG data:'']\<rparr>"
  have run: "pmempool_info_log_data env v (log_field (log_mem p) LOG_START_OFF) (log_field (log_mem p) LOG_WRITE_OFF) s =
      andthen (info_log_ranges v 8192 used used [cur]) (\<lambda>rs.
        andthen (update (\<lambda>s. s\<lparr>pi_args := (pi_args s)\<lparr>ia_ranges := rs\<rparr>\<rparr>)) (\<lambda>_. ret True)) t"
    using assms(4,5,7,8) used
    by (simp add: pmempool_info_log_data_def start(1) used_def [symmetric] Let_def info_outv_run t_def)
  have t: "pi_file t = mapped_log_file p" "pi_args t = pi_args s" using assms(3) by (simp_all add: t_def)
  show ?thesis
  proof (cases "unat ?f < length ?c")
    case True
    obtain ls sep rs where "info_log_ranges v 8192 used used [cur] t = (Ok rs, t\<lparr>pi_lines := pi_lines t @ ls @ [sep]\<rparr>)"
      "read_lines False prev ls = drop (unat ?f) (take (Suc (unat ?l)) ?c)"
      using info_log_range_shown [OF assms(1) t(1) used(2) True assms(6), of v prev] assms(7) t(2) by auto
    then show ?thesis
      using run True by (auto simp: andthen_Ok t_def Let_def) (simp_all add: ret_def)
  next
    case False
    show ?thesis
    proof (cases "unat ?f = length ?c")
      case True
      then show ?thesis by simp
    next
      case behind: False
      with False used(2) have lt: "unat used < unat ?f" by simp
      then have last: "used \<le> ?l" using assms(6) by (simp add: word_le_nat_alt)
      have "(unat used + 4095) div 4096 * 4096 < 2 ^ 64 + unat used" by simp
      then have "info_load 8192 used ?f (unat (used - 1 - ?f + 1)) t = (Stuck, t)"
        using range_count_wraps(2) [OF lt] by (simp add: info_load_def Let_def)
      then show ?thesis
        using run last range_count_wraps(1) [OF lt] False by (simp add: andthen_Stuck Let_def)
    qed
  qed
qed
section \<open>The properties at concrete files\<close>

definition demo_info_env :: info_env where
  "demo_info_env = \<lparr>ie_malloc = (\<lambda>_. \<lparr>range_first = 0, range_last = 0\<rparr>), ie_human = (\<lambda>_. ''1K''), ie_percent = (\<lambda>_ _. ''50%''),
     ie_percent_rest = (\<lambda>_ _. ''50%''), ie_uuid = (\<lambda>_. ''-''), ie_time = (\<lambda>_. ''now''), ie_mmap = (\<lambda>_. True)\<rparr>"

definition demo_info :: "pmempool_info_args \<Rightarrow> pfile \<Rightarrow> prange \<Rightarrow> pmem_info" where
  "demo_info args f r = (pmempool_info_alloc (args\<lparr>ia_ranges := [r]\<rparr>))\<lparr>pi_file := f\<rparr>"

text \<open>A map with a block in use, a zeroed block, an error block and a block that was never written.\<close>

definition demo_map :: "byte list" where
  "demo_map = le_enc 4 (0xC0000003 :: u32) @ le_enc 4 (0x80000001 :: u32) @ le_enc 4 (0x40000002 :: u32) @ le_enc 4 (0 :: u32)"

definition demo_map_file :: pfile where
  "demo_map_file = \<lparr>file_size = 16, file_data = mem_write (\<lambda>_. 0) 0 demo_map\<rparr>"

definition demo_map_info :: btt_info where
  "demo_map_info = (info_of_bytes (replicate 4096 0))\<lparr>info_external_nlba := 4, info_mapoff := 0\<rparr>"

theorem info_map_counts_witness:
  "\<exists>s'. pmempool_info_btt_map 3 demo_map_info 0 0
      (demo_info (pmempool_info_args_default\<lparr>ia_vstats := 1\<rparr>) demo_map_file \<lparr>range_first = 0, range_last = - 1\<rparr>) = (Ok True, s') \<and>
    st_total (pi_stats s') = 4 \<and> st_zeros (pi_stats s') = 2 \<and> st_errors (pi_stats s') = 1"
proof -
  let ?s = "demo_info (pmempool_info_args_default\<lparr>ia_vstats := 1\<rparr>) demo_map_file \<lparr>range_first = 0, range_last = - 1\<rparr>"
  have len: "length demo_map = 16" by (simp add: demo_map_def)
  have read: "pmempool_info_read (4 * unat (info_external_nlba demo_map_info)) (0 + info_mapoff demo_map_info) ?s =
      (Ok (Some demo_map), ?s)"
    using len by (simp add: demo_map_info_def pmempool_info_read_def gets_def pread_def demo_info_def demo_map_file_def)
  have all: "shows_all_blocks (pi_args ?s)" "outv_check (ia_vlevel (pi_args ?s)) (ia_vstats (pi_args ?s))"
    by (simp_all add: demo_info_def shows_all_blocks_def pmempool_info_alloc_def pmempool_info_args_default_def outv_check_def
        VERBOSE_DEFAULT_def)
  have n: "info_external_nlba demo_map_info = 4" by (simp add: demo_map_info_def)
  have es: "map_entries demo_map [0..<4] = [0xC0000003, 0x80000001, 0x40000002, 0]"
    by (simp add: map_entries_def demo_map_def le_at_def upt_rec)
  have z: "filter map_entry_is_zero_or_initial [0xC0000003, 0x80000001, 0x40000002, 0] = [0x80000001, 0]"
    and e: "filter map_entry_is_error [0xC0000003, 0x80000001, 0x40000002, 0] = [0x40000002]"
    by (simp_all add: map_entry_is_zero_or_initial_def map_entry_is_error_def BTT_MAP_ENTRY_LBA_MASK_def
        BTT_MAP_ENTRY_ZERO_def BTT_MAP_ENTRY_ERROR_def)
  have n4: "unat (4 :: u32) = 4" by simp
  have st: "pi_stats ?s = pmem_blk_stats_reset" by (simp add: demo_info_def pmempool_info_alloc_def)
  have "0 < info_external_nlba demo_map_info" "unat (info_external_nlba demo_map_info) < 2 ^ 30" by (simp_all add: n)
  from info_map_counts [OF all this read, of 3 0]
  obtain s' where "pmempool_info_btt_map 3 demo_map_info 0 0 ?s = (Ok True, s')"
    "st_total (pi_stats s') = st_total pmem_blk_stats_reset + 4"
    "st_zeros (pi_stats s') = st_zeros pmem_blk_stats_reset + of_nat (length [0x80000001, 0 :: u32])"
    "st_errors (pi_stats s') = st_errors pmem_blk_stats_reset + of_nat (length [0x40000002 :: u32])"
    unfolding st n Let_def n4 es z e by blast
  then show ?thesis by (intro exI [of _ s']) (simp add: pmem_blk_stats_reset_def)
qed
text \<open>The third byte and what follows of a log of three bytes, and a range behind them.\<close>

theorem info_log_range_witness:
  "\<exists>p ls sep. log_contents p = [1, 2, 3] \<and>
    (let dump = (\<lambda>first. pmempool_info_log_data demo_info_env 1
           (log_field (log_mem p) LOG_START_OFF) (log_field (log_mem p) LOG_WRITE_OFF)
           (demo_info pmempool_info_args_default (mapped_log_file p) \<lparr>range_first = first, range_last = - 1\<rparr>)) in
     pi_lines (snd (dump 1)) = ['''', ''PMEMLOG data:''] @ ls @ [sep] \<and> read_lines False (0, []) ls = [2, 3] \<and>
     fst (dump 5) = Stuck)"
proof -
  obtain q where q: "log_inv q" "log_contents q = []" "log_size q = 2097152" "\<not> log_rdonly q" by (rule demo_log)
  obtain p where p: "log_inv p" "log_contents p = [1, 2, 3]"
    using log_step_refines [OF q(1), of "Append [1, 2, 3]" initial_lib] q by (auto simp: log_frame_def log_cap_def)
  have p2: "log_contents p \<noteq> []" using p(2) by simp
  let ?s = "\<lambda>first. demo_info pmempool_info_args_default (mapped_log_file p) \<lparr>range_first = first, range_last = - 1\<rparr>"
  have s: "pi_file (?s a) = mapped_log_file p" "ia_walk (pi_args (?s a)) = 0"
    "ia_ranges (pi_args (?s a)) = [\<lparr>range_first = a, range_last = - 1\<rparr>]"
    "range_first \<lparr>range_first = a, range_last = - 1\<rparr> \<le> range_last \<lparr>range_first = a, range_last = - 1\<rparr>"
    "outv_check (ia_vlevel (pi_args (?s a))) 1" "ie_mmap demo_info_env (length (log_contents p))"
    "pi_lines (?s a) = []" for a :: u64
    by (simp_all add: demo_info_def pmempool_info_alloc_def pmempool_info_args_default_def outv_check_def
        VERBOSE_DEFAULT_def demo_info_env_def)
  note run = info_log_range [OF p(1) p2 s(1) s(2) s(3) s(4) s(5) s(6), unfolded Let_def]
  have "take (unat (- 1 :: u64)) [2, 3 :: byte] = [2, 3]" by (intro take_all) (simp add: unsigned_minus_1_eq_mask mask_eq_exp_minus_1)
  then show ?thesis
    using run [of 1 "(0, [])"] run [of 5 "(0, [])"] p(2) unfolding Let_def s(7)
    by (intro exI [of _ p]) auto
qed

end
