(* ===== verification/Tool_Main.thy ===== *)
theory Tool_Main
  imports Tool_Check_Props Tool_Log Tool_Dump Tool_Info
begin

text \<open>
  The \<open>pmempool\<close> tool as a whole, \<open>src/tools/pmempool/pmempool.c\<close>: the table of commands and the function that
  runs one of them.  What \<open>getopt_long\<close> finds in the arguments is a function of the environment; the texts of
  help, usage and version are left out.
\<close>

section \<open>Commands\<close>

datatype command = Cmd_info | Cmd_create | Cmd_dump | Cmd_check | Cmd_help

definition commands :: "(string \<times> command) list" where
  "commands = [(''info'', Cmd_info), (''create'', Cmd_create), (''dump'', Cmd_dump), (''check'', Cmd_check), (''help'', Cmd_help)]"

definition get_command :: "string \<Rightarrow> command option" where
  "get_command cmd_str = map_of commands cmd_str"

text \<open>
  \<open>te_main_opts\<close> is what the first call finds in the name of the tool and the argument behind it: the options, each
  with \<open>optopt\<close>, and \<open>optind\<close>.  \<open>te_getopt\<close> is what the call of a command finds in its arguments.
\<close>

record tool_env =
  te_main_opts :: "string list \<Rightarrow> (char \<times> char) list \<times> nat"
  te_getopt :: "command \<Rightarrow> string list \<Rightarrow> tool_opt list \<times> string list"
  te_info :: info_env
  te_create :: create_env
  te_dump :: dump_env
  te_check :: check_env

text \<open>The exit status, what is printed, and the files afterwards.\<close>

record tool_result =
  tr_status :: "int outcome"
  tr_lines :: "string list"
  tr_dump :: "dump_out list"
  tr_fs :: fs

definition quiet :: "int outcome \<times> fs \<Rightarrow> tool_result" where
  "quiet r = \<lparr>tr_status = fst r, tr_lines = [], tr_dump = [], tr_fs = snd r\<rparr>"

text \<open>The text of help is left out, so every result of help is a status; every command has a help text.\<close>

definition help_func :: "string list \<Rightarrow> fs \<Rightarrow> tool_result" where
  "help_func args fs =
     (case args of
        _ # cmd_str # _ \<Rightarrow> quiet (Ok (if get_command cmd_str \<noteq> None then 0 else - 1), fs)
      | _ \<Rightarrow> quiet (Ok (- 1), fs))"

definition run_command :: "tool_env \<Rightarrow> command \<Rightarrow> string list \<Rightarrow> fs \<Rightarrow> tool_result" where
  "run_command env cmd args fs =
     (case te_getopt env cmd args of (opts, operands) \<Rightarrow>
      case cmd of
        Cmd_info \<Rightarrow>
          (case pmempool_info_func (te_info env) opts operands fs of
             (r, ls) \<Rightarrow> \<lparr>tr_status = r, tr_lines = ls, tr_dump = [], tr_fs = fs\<rparr>)
      | Cmd_create \<Rightarrow> quiet (pmempool_create_func (te_create env) opts operands fs)
      | Cmd_dump \<Rightarrow>
          (case pmempool_dump_func (te_dump env) opts operands fs of
             (r, ds, fs') \<Rightarrow> \<lparr>tr_status = r, tr_lines = [], tr_dump = ds, tr_fs = fs'\<rparr>)
      | Cmd_check \<Rightarrow>
          quiet (pmempool_check_func (te_check env) (map (\<lambda>(c, optopt, _). (c, optopt)) opts)
                   (case operands of [] \<Rightarrow> None | f # _ \<Rightarrow> Some f) fs)
      | Cmd_help \<Rightarrow> help_func args fs)"

text \<open>
  The first option ends the tool.  When there is none the command is the argument at \<open>optind\<close>, which is not there
  behind \<open>--\<close>: comparing the null pointer with a name is \<open>Stuck\<close>.
\<close>

definition pmempool_main :: "tool_env \<Rightarrow> string list \<Rightarrow> fs \<Rightarrow> tool_result" where
  "pmempool_main env argv fs =
     (if length argv < 2 then quiet (Ok 0, fs)
      else
        case te_main_opts env argv of
          ((c, optopt) # _, _) \<Rightarrow>
            quiet (Ok (if c = CHR ''V'' then 0 else if c = CHR ''?'' \<and> optopt = CHR 0x00 then 0 else - 1), fs)
        | ([], optind) \<Rightarrow>
            if length argv \<le> optind then quiet (Stuck, fs)
            else
              case get_command (argv ! optind) of
                Some cmd \<Rightarrow> run_command env cmd (tl argv) fs
              | None \<Rightarrow> quiet (Ok (- 1), fs))"

section \<open>A new log\<close>

lemma pmempool_create_log_makes:
  assumes "fs file = None" and "cr_falloc env PMEMLOG_MIN_POOL = None" and "cr_mmap env PMEMLOG_MIN_POOL = None"
    and "length (le_uuid (cr_log_env env)) = 16" and "log_env_ok (cr_log_env env)"
  shows "\<exists>p. pmempool_create_func env [] [''log'', file] fs = (Ok 0, fs(file \<mapsto> mapped_log_file p)) \<and>
    log_inv p \<and> log_contents p = [] \<and> unat (log_size p) = PMEMLOG_MIN_POOL \<and> \<not> log_rdonly p \<and>
    log_check_hdr (log_mem p) (log_size p) False = Inr False"
proof -
  have sz: "unat (of_nat PMEMLOG_MIN_POOL :: u64) = PMEMLOG_MIN_POOL" by (simp add: PMEMLOG_MIN_POOL_def)
  have lt: "PMEMLOG_MIN_POOL < 2 ^ 63" by (simp add: PMEMLOG_MIN_POOL_def)
  from log_create_pool [where fs = fs and path = "file" and env = "cr_log_env env"
      and falloc = "cr_falloc env" and mmap = "cr_mmap env" and poolsize = PMEMLOG_MIN_POOL, OF assms(1,2,3) order_refl lt assms(4,5)]
  obtain p where p: "pmemlog_create (cr_falloc env) (cr_mmap env) (cr_log_env env) fs file PMEMLOG_MIN_POOL =
      (Ok p, fs(file \<mapsto> \<lparr>file_size = PMEMLOG_MIN_POOL, file_data = log_mem p\<rparr>))"
    "log_inv p" "log_contents p = []" "log_size p = of_nat PMEMLOG_MIN_POOL" "\<not> log_rdonly p"
    "log_check_hdr (log_mem p) (of_nat PMEMLOG_MIN_POOL) False = Inr False" by blast
  then show ?thesis
    using assms(1) sz
    by (intro exI [of _ p]) (simp add: pmempool_create_func_def pmempool_create_parse_args_def create_operands_def
        create_pool_type_def pmem_pool_type_parse_str_def pmempool_create_default_def create_validate_def create_pool_size_def
        pmem_pool_get_min_size_def Let_def create_pool_def pmempool_create_log_def mapped_log_file_def)
qed
section \<open>Describing a log\<close>

text \<open>Programs that print and change nothing else.\<close>

definition calm :: "(pmem_info, 'a) prog \<Rightarrow> bool" where
  "calm p \<longleftrightarrow> (\<forall>s. \<exists>x s'. p s = (Ok x, s') \<and> pi_file s' = pi_file s \<and> pi_args s' = pi_args s)"

lemma calm_ret: "calm (ret x)"
  by (simp add: calm_def ret_def)

lemma calm_gets: "calm (gets f)"
  by (simp add: calm_def gets_def)

lemma calm_outv: "calm (info_outv v ls)"
  by (simp add: calm_def info_outv_def update_def)

lemma calm_andthen:
  assumes "calm p" "\<And>x. calm (f x)"
  shows "calm (andthen p f)"
  unfolding calm_def
proof
  fix s :: pmem_info
  obtain x s' where x: "p s = (Ok x, s')" "pi_file s' = pi_file s" "pi_args s' = pi_args s"
    using assms(1) unfolding calm_def by blast
  moreover obtain y t where "f x s' = (Ok y, t)" "pi_file t = pi_file s'" "pi_args t = pi_args s'"
    using assms(2) [of x] unfolding calm_def by blast
  ultimately show "\<exists>x s'. andthen p f s = (Ok x, s') \<and> pi_file s' = pi_file s \<and> pi_args s' = pi_args s"
    by (simp add: andthen_Ok)
qed

lemma calm_fields: "calm (info_fields v fs)"
  by (induction fs rule: info_fields.induct) (auto simp: info_field_def intro!: calm_andthen calm_ret calm_outv)

lemma calm_hexdump:
  assumes "length bs < 2 ^ 64"
  shows "calm (info_hexdump v bs off sep)"
proof -
  obtain ls where "outv_hexdump bs off sep = Some ls"
    using hexdump_read_first [OF _ assms, of off "(0, [])"] by (cases "bs = []") (auto simp: outv_hexdump_def)
  then show ?thesis by (simp add: info_hexdump_def calm_outv)
qed

lemma calm_log_stats: "calm (pmempool_info_log_stats env v start w e)"
  unfolding pmempool_info_log_stats_def Let_def
  by (auto simp: info_field_def intro!: calm_andthen calm_ret calm_outv calm_gets simp del: andthen_gets)

text \<open>A program with a calm beginning returns what its end returns.\<close>

lemma calm_then:
  assumes "calm p" and "\<And>x s'. pi_file s' = pi_file s \<Longrightarrow> pi_args s' = pi_args s \<Longrightarrow>
    \<exists>t. f x s' = (Ok y, t) \<and> P t"
  shows "\<exists>t. andthen p f s = (Ok y, t) \<and> P t"
proof -
  obtain x s' where "p s = (Ok x, s')" "pi_file s' = pi_file s" "pi_args s' = pi_args s"
    using assms(1) unfolding calm_def by blast
  then show ?thesis using assms(2) [of s' x] by (simp add: andthen_Ok)
qed

lemma calm_fst:
  assumes "calm p" and "\<And>x s'. pi_file s' = pi_file s \<Longrightarrow> pi_args s' = pi_args s \<Longrightarrow> fst (f x s') = Ok y"
  shows "fst (andthen p f s) = Ok y"
  using calm_then [OF assms(1), of s f y "\<lambda>_. True"] assms(2) by (metis fst_conv prod.collapse)

lemma info_read_log:
  assumes "pi_file s = mapped_log_file p" and "n \<le> unat (log_size p)"
  shows "pmempool_info_read n 0 s = (Ok (Some (mem_read (log_mem p) 0 n)), s)"
  using assms by (simp add: pmempool_info_read_def gets_def mapped_log_file_def pread_def min_absorb1)

lemma info_read_log_then:
  assumes "pi_file s = mapped_log_file p" and "n \<le> unat (log_size p)"
  shows "andthen (pmempool_info_read n 0) f s = f (Some (mem_read (log_mem p) 0 n)) s"
  using info_read_log [OF assms] by (simp add: andthen_def)

lemma info_hdr_log:
  assumes "pi_file s = mapped_log_file p" and "8192 \<le> unat (log_size p)"
  shows "\<exists>t. pmempool_info_pool_hdr env v s = (Ok True, t) \<and> pi_file t = pi_file s \<and> pi_args t = pi_args s"
proof -
  have n: "POOL_HDR_SIZE \<le> unat (log_size p)" using assms(2) by (simp add: POOL_HDR_SIZE_def)
  show ?thesis
    unfolding pmempool_info_pool_hdr_def Let_def info_read_log_then [OF assms(1) n] option.case
    by (intro calm_then calm_outv calm_hexdump calm_fields calm_gets) (simp_all add: ret_def POOL_HDR_SIZE_def)
qed
lemma info_log_empty:
  assumes "pi_file s = mapped_log_file p" and "log_inv p" and "log_contents p = []"
  shows "fst (pmempool_info_log env v s) = Ok True"
proof -
  note start = log_start_size [OF assms(2)]
  let ?bs = "mem_read (log_mem p) 0 (unat SIZEOF_PMEMLOG)"
  have n: "unat SIZEOF_PMEMLOG \<le> unat (log_size p)" using start(3) by (simp add: SIZEOF_PMEMLOG_def)
  have field: "le_at 8 ?bs off = log_field (log_mem p) off" if "off + 8 \<le> 4152" for off
    using that le_at_mem_read [of off 8 "unat SIZEOF_PMEMLOG" "log_mem p" 0] by (simp add: SIZEOF_PMEMLOG_def log_field_def)
  have w: "log_field (log_mem p) LOG_WRITE_OFF = 8192" using start(2) assms(3) by (simp add: unat_eq_0)
  have f: "le_at 8 ?bs LOG_START_OFF = log_field (log_mem p) LOG_START_OFF" "le_at 8 ?bs LOG_END_OFF = log_field (log_mem p) LOG_END_OFF"
    "le_at 8 ?bs LOG_WRITE_OFF = log_field (log_mem p) LOG_WRITE_OFF"
    by (rule field, simp add: log_offs)+
  have e: "8192 \<le> log_field (log_mem p) LOG_END_OFF" using start(3) assms(2) by (simp add: log_inv_def log_meta_def word_le_nat_alt)
  have data: "fst (pmempool_info_log_data env vd 8192 8192 s') = Ok True" for vd s'
    by (simp add: pmempool_info_log_data_def ret_def)
  show ?thesis
    unfolding pmempool_info_log_def Let_def info_read_log_then [OF assms(1) n] option.case f start(1) w
    using e by (intro calm_fst calm_outv calm_hexdump calm_fields calm_gets)
      (auto intro!: calm_fst [OF calm_log_stats] data simp: SIZEOF_PMEMLOG_def POOL_HDR_SIZE_def)
qed
lemma info_func_empty_log:
  assumes "fs file = Some (mapped_log_file p)" and "log_inv p" and "log_contents p = []"
    and "log_check_hdr (log_mem p) (log_size p) ro = Inr r"
  shows "fst (pmempool_info_func env [] [file] fs) = Ok 0"
proof -
  have sz: "8192 \<le> unat (log_size p)" using log_start_size(3) [OF assms(2)] by simp
  have sig: "strncmp_eq (hdr_signature (hdr_of_bytes (mem_read (log_mem p) 0 POOL_HDR_SIZE))) LOG_HDR_SIG POOL_HDR_SIG_LEN"
    using assms(4) by (auto simp: log_check_hdr_def util_convert_hdr_def Let_def split: if_splits option.splits)
  obtain args where args: "info_parse_args env [] [file] = Ok (Inr args)" "\<not> ia_force args"
    by (auto simp: info_parse_args_def pmempool_info_args_default_def util_ranges_add_def
        util_ranges_add_range_def)
  let ?s = "(pmempool_info_alloc args)\<lparr>pi_file := mapped_log_file p\<rparr>"
  have s: "pi_file ?s = mapped_log_file p" "pi_args ?s = args" by (simp_all add: pmempool_info_alloc_def)
  have n: "POOL_HDR_SIZE \<le> unat (log_size p)" using sz by (simp add: POOL_HDR_SIZE_def)
  have kind: "pmempool_info_get_pool_type ?s = (Ok PMEM_POOL_TYPE_LOG, ?s)"
    unfolding pmempool_info_get_pool_type_def info_read_log_then [OF s(1) n]
    using sig s(2) args(2) by (simp add: pmem_pool_type_parse_hdr_def ret_def)
  obtain t where t: "pmempool_info_pool_hdr (env) 1 ?s = (Ok True, t)" "pi_file t = mapped_log_file p"
    using info_hdr_log [OF s(1) sz, of env 1] s(1) by auto
  have "fst (pmempool_info_file env 1 fs file (pmempool_info_alloc args)) = Ok True"
    using assms(1) kind t info_log_empty [OF t(2) assms(2,3), of env 1]
    by (simp add: pmempool_info_file_def andthen_Ok)
  then obtain s' where "pmempool_info_file env 1 fs file (pmempool_info_alloc args) = (Ok True, s')"
    by (metis prod.collapse)
  then show ?thesis
    by (simp add: pmempool_info_func_def args(1) pmempool_info_file_all_def andthen_Ok) (simp add: ret_def)
qed

text \<open>
  C29 What the tool makes it accepts: \<open>pmempool create log\<close> of a new file, \<open>pmempool check\<close> of that file and
  \<open>pmempool info\<close> of it, one after the other, all end with status 0, and the last two leave every file alone.
\<close>

theorem main_create_check_info:
  assumes new: "fs file = None"
    and opts: "te_main_opts env [app, ''create'', ''log'', file] = ([], 1)" "te_main_opts env [app, ''check'', file] = ([], 1)"
      "te_main_opts env [app, ''info'', file] = ([], 1)"
    and parse: "te_getopt env Cmd_create [''create'', ''log'', file] = ([], [''log'', file])"
      "te_getopt env Cmd_check [''check'', file] = ([], [file])" "te_getopt env Cmd_info [''info'', file] = ([], [file])"
    and create: "cr_falloc (te_create env) PMEMLOG_MIN_POOL = None" "cr_mmap (te_create env) PMEMLOG_MIN_POOL = None"
      "length (le_uuid (cr_log_env (te_create env))) = 16" "log_env_ok (cr_log_env (te_create env))"
    and check: "ce_can_open (te_check env) file"
  shows "\<exists>f. let fs' = fs(file \<mapsto> f);
        made = pmempool_main env [app, ''create'', ''log'', file] fs;
        checked = pmempool_main env [app, ''check'', file] fs';
        described = pmempool_main env [app, ''info'', file] fs' in
    tr_status made = Ok 0 \<and> tr_fs made = fs' \<and> file_size f = PMEMLOG_MIN_POOL \<and>
    tr_status checked = Ok 0 \<and> tr_fs checked = fs' \<and>
    tr_status described = Ok 0 \<and> tr_fs described = fs'"
proof -
  obtain p where p: "pmempool_create_func (te_create env) [] [''log'', file] fs = (Ok 0, fs(file \<mapsto> mapped_log_file p))"
    "log_inv p" "log_contents p = []" "unat (log_size p) = PMEMLOG_MIN_POOL"
    "log_check_hdr (log_mem p) (log_size p) False = Inr False"
    using pmempool_create_log_makes [of fs "file" "te_create env", OF new create] by auto
  let ?f = "mapped_log_file p"
  let ?fs = "fs(file \<mapsto> ?f)"
  have f: "file_size ?f = PMEMLOG_MIN_POOL" by (simp add: mapped_log_file_def p(4))
  have f': "file_data ?f = log_mem p" "of_nat (file_size ?f) = log_size p" by (simp_all add: mapped_log_file_def)
  have sig: "strncmp_eq (take 8 (mem_read (file_data ?f) 0 POOL_HDR_SIZE)) LOG_HDR_SIG POOL_HDR_SIG_LEN"
    using p(5) by (auto simp: f' log_check_hdr_def util_convert_hdr_def hdr_of_bytes_def Let_def split: if_splits option.splits)
  have size: "unat LOG_DATA_OFF \<le> file_size ?f" using f by (simp add: PMEMLOG_MIN_POOL_def)
  have checked: "pmempool_check_func (te_check env) [] (Some file) ?fs = (Ok 0, ?fs)"
    using check_log_status [where fs = ?fs and fname = "file" and f = ?f and env = "te_check env"] size check sig
      log_check_sound [of ?f] p(5) f' by auto
  have "fst (pmempool_info_func (te_info env) [] [file] ?fs) = Ok 0"
    by (rule info_func_empty_log [OF _ p(2,3,5)]) simp
  then obtain ls where desc: "pmempool_info_func (te_info env) [] [file] ?fs = (Ok 0, ls)" by (metis prod.collapse)
  have cmd: "get_command ''create'' = Some Cmd_create" "get_command ''check'' = Some Cmd_check" "get_command ''info'' = Some Cmd_info"
    by (simp_all add: get_command_def commands_def)
  show ?thesis
    using p(1) checked desc f
    by (intro exI [of _ ?f]) (simp add: pmempool_main_def opts cmd run_command_def parse quiet_def Let_def)
qed

definition demo_tool :: tool_env where
  "demo_tool = \<lparr>te_main_opts = (\<lambda>_. ([], 1)), te_getopt = (\<lambda>_ argv. ([], tl argv)), te_info = demo_info_env,
     te_create = \<lparr>cr_falloc = (\<lambda>_. None), cr_mmap = (\<lambda>_. None), cr_blk_env = de_blk_env demo_dump_env,
       cr_log_env = demo_env, cr_statvfs = (\<lambda>_. None)\<rparr>,
     te_dump = demo_dump_env, te_check = demo_check_env\<rparr>"

theorem main_create_check_info_witness:
  "\<exists>f. tr_fs (pmempool_main demo_tool [''pmempool'', ''create'', ''log'', ''pool''] Map.empty) = [''pool'' \<mapsto> f] \<and>
    tr_status (pmempool_main demo_tool [''pmempool'', ''check'', ''pool''] [''pool'' \<mapsto> f]) = Ok 0 \<and>
    tr_status (pmempool_main demo_tool [''pmempool'', ''info'', ''pool''] [''pool'' \<mapsto> f]) = Ok 0"
  using main_create_check_info [of Map.empty "''pool''" demo_tool "''pmempool''"] demo_env_ok
  by (auto simp: demo_tool_def demo_check_env_def Let_def)

end
