(* ===== verification/Spec2Isabelle.thy ===== *)
theory Spec2Isabelle
  imports Btt_Facts Blk Pmem_Props Log_Facts Obj_Open Obj_Pool Tool_Check_Props Tool_Btt Tool_Log Tool_Args Tool_Dump Tool_Info Tool_Main
begin

text \<open>
  \<^bold>\<open>The program.\<close>  The repository holds libraries that keep data structures in byte-addressable
  persistent memory: libpmem (flushing stores to media), libpmemblk (arrays of blocks that are written
  atomically, on top of the block translation table, BTT), libpmemlog (an append-only log) and
  libpmemobj (an allocator of persistent objects), and the tool \<open>pmempool\<close> that creates, checks, repairs,
  dumps and describes the pool files of the first two.  All of them share the pool utilities of
  \<open>src/common/util.c\<close>.  This development models the code in HOL and proves what it promises
  across failures of power, damaged files and exhausted resources.

  \<^bold>\<open>Conventions.\<close>  The host is little-endian and the C types have the widths of the x86-64 build; they
  are words (\<open>u16\<close>, \<open>u32\<close>, \<open>u64\<close>) wherever the code can wrap.  Memory is a function
  from offsets to bytes.  An operation returns an \<open>outcome\<close>: \<open>Ok\<close>, \<open>Err\<close> with the
  \<open>errno\<close> it sets, or \<open>Stuck\<close> where an assertion fails, memory outside of the mapping is used or a
  loop waits forever; the allocator uses \<open>None\<close> for these.  The view is that of one thread: mutexes
  and read-write locks are left out.

  \<^bold>\<open>Theories and sources.\<close>
  \<^item> \<open>Prelude\<close>: word arithmetic, byte memory, little-endian codecs, C strings.
  \<^item> \<open>Util\<close> (\<open>common/util.c\<close>): the Fletcher checksum, the pool header and its feature checks,
    range protections, the search for a mapping address in \<open>/proc/self/maps\<close>, creating and opening pool
    files.
  \<^item> \<open>Btt_Layout\<close>, \<open>Btt\<close> (\<open>libpmemblk/btt_layout.h\<close>, \<open>btt.c\<close>): the media format and every
    operation of the BTT over the callbacks of its namespace.  \<open>Btt_Inv\<close> has the invariant of an arena
    (map and flog partition the blocks) and the refinement of the map to an array of blocks;
    \<open>Btt_Ops\<close> the interfaces of a namespace as locales and the operations inside them;
    \<open>Btt_Recover\<close> and \<open>Btt_Crash\<close> the writes cut off by a power failure and the recovery from
    them; \<open>Btt_Format\<close> the layout of a new arena; \<open>Btt_Check\<close> the consistency check;
    \<open>Btt_Facts\<close> properties of single functions.
  \<^item> \<open>Blk\<close> (\<open>libpmemblk/blk.c\<close>): the callbacks on a mapped pool, which interpret the interfaces, and
    the pool operations; the properties of block pools as a whole are here.  The run-time fields of
    \<open>struct pmemblk\<close> are bytes of the mapping: opening a pool for writing stores them, with the addresses
    the system returned, in the file, and the lane counter moves with every operation.
  \<^item> \<open>Pmem_Machine\<close>: a memory system with caches, write-combining buffers, write-back in any order and
    a power failure at any step.  \<open>Pmem\<close> (\<open>libpmem/pmem.c\<close>) has the flush and copy routines on it,
    \<open>Pmem_Persist\<close>, \<open>Pmem_Copy\<close> and \<open>Pmem_Props\<close> what they guarantee.
  \<^item> \<open>Log\<close>, \<open>Log_Props\<close>, \<open>Log_Facts\<close> (\<open>libpmemlog/log.c\<close>): the log on that memory system;
    refinement to a list of bytes, and power failures in the middle of an append.
  \<^item> \<open>Container\<close>, \<open>Container_Props\<close> (\<open>libpmemobj/container_bst.c\<close>): the search tree with parent
    pointers in a heap, the interface of a container as a locale.
  \<^item> \<open>Obj\<close> (\<open>libpmemobj/backend_persistent.c\<close>, \<open>bucket.c\<close>, \<open>arena.c\<close>, \<open>pool.c\<close>,
    \<open>pmalloc.c\<close>): the allocator.  \<open>Obj_Props\<close> has the arithmetic of ids and offsets,
    \<open>Obj_Heap\<close> the zone as a list of blocks, \<open>Obj_Facts\<close> allocation and freeing as operations on
    that list, \<open>Obj_Open\<close> opening a pool.  \<open>Obj_Pool\<close> (\<open>libpmemobj/obj.c\<close>): the pool files
    with their layout names.
  \<^item> \<open>Tool_Common\<close> (\<open>tools/pmempool/common.c\<close>): pool types, the parsers of sizes, modes and ranges,
    questions on the terminal; \<open>Tool_Args\<close> what they accept.
  \<^item> \<open>Tool_Check\<close> (\<open>tools/pmempool/check.c\<close>): the check command as a record of its context and a
    program for every step, in the order of the table of steps.  \<open>Tool_Check_Props\<close> shows what it never
    changes, \<open>Tool_Repair\<close> the repair of maps and flogs, \<open>Tool_Btt\<close> the choice of flog entries and the
    rebuilding of a layout, \<open>Tool_Log\<close> the whole command on log pools.
  \<^item> \<open>Tool_Create\<close> (\<open>create.c\<close>) and \<open>Tool_Dump\<close> (\<open>dump.c\<close>): the commands that call the
    operations of the block and log pools, with their composed properties.
  \<^item> \<open>Tool_Output\<close> (\<open>output.c\<close>): what is printed for a value, and the hexdump with a reader that inverts it.
  \<^item> \<open>Tool_Info\<close> (\<open>info.c\<close>): the info command as a program that appends lines to its output while it reads a
    file: headers, logs, and the arenas of block pools with their maps, flogs, data and statistics.
  \<^item> \<open>Tool_Main\<close> (\<open>pmempool.c\<close>): the table of commands and \<open>main\<close>, with a property of three commands in a row.

  \<^bold>\<open>What is shown.\<close>  A block write cut off by a power failure leaves the old or the new block after
  recovery, also when recovery is cut off in turn; sequences of block operations behave as an array,
  sequences of log operations as a list with a capacity; a log append cut off leaves the old or the new
  log; flushed ranges survive; the allocator never hands out a chunk twice and its zone stays tiled; the
  search tree loses and invents nothing; damaged headers are refused; new pools open, object pools under their
  layout name only.  The check command of the tool ends and is right about log pools, changes nothing without
  leave, and leaves no fault in the maps it repairs; the create command makes a sound pool or leaves no file; the
  dump command prints the blocks as the library reads them; the info command ends on every file, counts every block in
  one class, and prints a hexdump from which the bytes of the log can be read back; a log that
  the tool makes passes its check.  Some theorems state
  faults of the code (32-bit offsets, a check that never leaves the first arena, streaming copies that are
  not flushed, sizes rounded the wrong way, a repair that calls a null pointer, dumps that go behind the data or
  the mapping): they are properties with the same standing.

  \<^bold>\<open>Scope of the results on block pools.\<close>  The model has pools of any size and any number of arenas.  The
  properties of reads, writes, recovery, creation, opening and dumping are proved for pools of one arena whose
  data blocks take at most 4 GiB (\<open>arena_geom\<close> in \<open>Btt_Inv\<close>, \<open>fmt_size_ok\<close> in \<open>Btt_Format\<close>),
  because \<open>btt.c\<close> multiplies block numbers and block sizes in 32 bits and in larger arenas lets blocks
  alias, which the theory \<open>Btt_Facts\<close> shows.  The properties about power failures start from a pool that is laid out, so
  a failure in its very first write is outside.  That the check never leaves the first arena is proved for any
  number of arenas.

  \<^bold>\<open>Scope of the results on logs and on the allocator.\<close>  The run-time fields that opening a log stores behind
  its metadata (bytes 4120 to 4151) are fields of the handle and not part of file images.  Walks in chunks of
  more than \<open>2 ^ 63\<close> bytes wrap around and have properties of their own.  The allocator is that of the
  debug build, in which a failed assertion ends the program; its properties are about the first zone, with at most
  65535 chunks.

  \<^bold>\<open>Bounds and fuel.\<close>  Loops of the source are structural recursions, functions with a measure, or partial
  functions whose return is proved: no theorem assumes that enough fuel was given.  The retry loops of
  the BTT cannot repeat with one thread, which is proved rather than assumed.  The loop of the info
  command over the arenas returns for every file, since the offset grows and reads stop at \<open>2 ^ 63\<close>.
  The loops of the check command over the arenas that a file names are bounded by \<open>pc_room\<close>, the
  number of arenas that memory can hold: every round allocates one, and running out of memory ends the command.  Which of its writes fail is the list \<open>pc_io\<close>.

  \<^bold>\<open>Not modelled.\<close>  Threads and locks; logging and the text of messages and help; how \<open>getopt_long\<close> reads
  arguments, and what the tool prints in floating point or as a date; libvmem and
  libvmmalloc, which are layers over the vendored jemalloc.
\<close>

end
